(* ===== verification/Tl_Prelude.thy ===== *)
theory Tl_Prelude
  imports Main "HOL-Library.Word"
begin

text \<open>
  Shared ground of the development: the machine types of \<^verbatim>\<open>proj/common/types.h\<close> as words of their
  width, a 32-bit word memory in which linked structures live, the predicate \<open>seg\<close> that says that a
  list of nodes is linked through offset 0 of its nodes (the layout that \<^verbatim>\<open>struct list\<close>,
  \<^verbatim>\<open>mem_block_t\<close>, \<^verbatim>\<open>queue_item_t\<close> and \<^verbatim>\<open>ev_bufItem_t\<close> share), and the generic lemmas on lists,
  words and chains that the component theories use.
\<close>

unbundle bit_operations_syntax

section \<open>Machine types\<close>

type_synonym u8 = "8 word"
type_synonym u16 = "16 word"
type_synonym u32 = "32 word"
type_synonym addr = "32 word"

text \<open>A memory that is read and written in aligned 32-bit words; \<open>m a\<close> is the word at address \<open>a\<close>.\<close>

type_synonym wmem = "addr \<Rightarrow> u32"

abbreviation NULL :: addr where
  "NULL \<equiv> 0"

text \<open>
  Collections: \<open>chain_simps\<close> rewrites linked structures, \<open>layout_simps\<close> unfolds memory layouts,
  \<open>irq_simps\<close> says which operations leave the interrupt state as they found it.
\<close>

named_theorems chain_simps
named_theorems layout_simps
named_theorems irq_simps

section \<open>Words\<close>

lemma unat_add_no_wrap:
  fixes a b :: "'a::len word"
  assumes "unat a + unat b < 2 ^ LENGTH('a)"
  shows "unat (a + b) = unat a + unat b"
  using assms by (simp add: unat_add_lem)

lemma unat_sub_no_wrap:
  fixes a b :: "'a::len word"
  assumes "b \<le> a"
  shows "unat (a - b) = unat a - unat b"
  using assms by (rule unat_sub)

lemma word_neq_0_unat:
  fixes a :: "'a::len word"
  shows "a \<noteq> 0 \<longleftrightarrow> 0 < unat a"
  by (simp add: unat_gt_0)

lemma unat_inc_no_wrap:
  fixes w :: "'a::len word"
  assumes "unat w + 1 < 2 ^ LENGTH('a)"
  shows "unat (w + 1) = unat w + 1"
proof -
  have "unat (1 :: 'a word) = 1" by simp
  with assms show ?thesis using unat_add_no_wrap [of w 1] by simp
qed

lemma unat_dec:
  fixes w :: "'a::len word"
  assumes "w \<noteq> 0"
  shows "unat (w - 1) = unat w - 1"
proof -
  from assms have "1 \<le> w" by (simp add: word_le_nat_alt unat_gt_0 Suc_leI)
  then show ?thesis by (simp add: unat_sub)
qed

lemma unat_ucast_widen:
  fixes x :: "'a::len word"
  assumes "LENGTH('a) \<le> LENGTH('b::len)"
  shows "unat (ucast x :: 'b word) = unat x"
proof -
  have "unat x < 2 ^ LENGTH('b)"
    by (rule less_le_trans [OF unsigned_less]) (simp add: assms)
  then show ?thesis by (simp add: unsigned_ucast_eq take_bit_nat_eq_self)
qed

lemma unat_ucast_u8_u16 [simp]: "unat (ucast (x :: u8) :: u16) = unat x"
  and unat_ucast_u8_u32 [simp]: "unat (ucast (x :: u8) :: u32) = unat x"
  and unat_ucast_u16_u32 [simp]: "unat (ucast (y :: u16) :: u32) = unat y"
  by (simp_all add: unat_ucast_widen)

section \<open>Lists\<close>

lemma remove1_append_mid:
  "a \<notin> set xs \<Longrightarrow> remove1 a (xs @ a # ys) = xs @ ys"
  by (simp add: remove1_append)

lemma takeWhile_append_mid:
  "\<forall>x\<in>set xs. x \<noteq> a \<Longrightarrow> takeWhile (\<lambda>x. x \<noteq> a) (xs @ a # ys) = xs"
  by (induction xs) auto

section \<open>Linked segments in word memory\<close>

text \<open>
  \<open>seg m p as q\<close>: starting at pointer \<open>p\<close>, following the word at offset 0 of each node visits exactly
  the non-null nodes \<open>as\<close> in order and then holds \<open>q\<close>. A null-terminated list is \<open>seg m p as NULL\<close>.
\<close>

fun seg :: "wmem \<Rightarrow> addr \<Rightarrow> addr list \<Rightarrow> addr \<Rightarrow> bool" where
  "seg m p [] q \<longleftrightarrow> p = q"
| "seg m p (a # as) q \<longleftrightarrow> p = a \<and> a \<noteq> NULL \<and> seg m (m a) as q"

abbreviation chain :: "wmem \<Rightarrow> addr \<Rightarrow> addr list \<Rightarrow> bool" where
  "chain m p as \<equiv> seg m p as NULL"

lemma seg_append [chain_simps]:
  "seg m p (as @ bs) q \<longleftrightarrow> (\<exists>r. seg m p as r \<and> seg m r bs q)"
  by (induction as arbitrary: p) auto

lemma seg_upd_other [simp]:
  "a \<notin> set as \<Longrightarrow> seg (m(a := v)) p as q = seg m p as q"
  by (induction as arbitrary: p) auto

lemma seg_nonnull: "seg m p as q \<Longrightarrow> NULL \<notin> set as"
  by (induction as arbitrary: p) auto

lemma chain_null [simp]: "chain m NULL as \<longleftrightarrow> as = []"
  by (cases as) auto

lemma chain_nonnull: "p \<noteq> NULL \<Longrightarrow> chain m p as \<longleftrightarrow> (\<exists>bs. as = p # bs \<and> chain m (m p) bs)"
  by (cases as) auto

lemma chain_unique: "chain m p as \<Longrightarrow> chain m p bs \<Longrightarrow> as = bs"
proof (induction as arbitrary: p bs)
  case Nil
  then show ?case by simp
next
  case (Cons a as)
  then show ?case by (cases bs) auto
qed

lemma chain_head_notin_tail: "chain m (m a) as \<Longrightarrow> a \<notin> set as"
proof
  assume c: "chain m (m a) as" and "a \<in> set as"
  then obtain xs ys where as: "as = xs @ a # ys"
    by (auto simp: in_set_conv_decomp)
  with c have "chain m (m a) ys"
    by (auto simp: seg_append)
  with c as have "xs @ a # ys = ys"
    by (metis chain_unique)
  then show False
    by (metis length_Cons length_append less_add_Suc2 nat_neq_iff)
qed

lemma chain_distinct: "chain m p as \<Longrightarrow> distinct as"
  by (induction as arbitrary: p) (auto dest: chain_head_notin_tail)

lemma chain_cong:
  assumes "\<And>a. a \<in> set as \<Longrightarrow> m' a = m a"
  shows "seg m' p as q = seg m p as q"
  using assms by (induction as arbitrary: p) auto

text \<open>Linking a segment's last node to a new one: the step behind every append.\<close>

lemma seg_snoc_upd:
  assumes "seg m p (as @ [l]) q" and "distinct (as @ [l])" and "x \<notin> set as" "x \<noteq> l" "x \<noteq> NULL"
  shows "seg (m(l := x)) p (as @ [l]) x"
  using assms by (auto simp: seg_append)

text \<open>Unlinking the node after \<open>l\<close>: the step behind every removal that is not at the head.\<close>

lemma chain_unlink:
  assumes "chain m p (xs @ [l] @ x # ys)"
  shows "chain (m(l := m x)) p (xs @ [l] @ ys)"
proof -
  from assms have d: "distinct (xs @ [l] @ x # ys)"
    by (rule chain_distinct)
  from assms show ?thesis
    using d by (auto simp: seg_append)
qed

text \<open>A list whose nodes are split where a walk stops.\<close>

lemma chain_splice:
  assumes "chain m p (xs @ ys)" and "x \<notin> set (xs @ ys)" and "x \<noteq> NULL"
    and "seg m p xs r" and "xs \<noteq> []"
  shows "chain (m(last xs := x, x := r)) p (xs @ x # ys)"
proof -
  from assms(5) obtain zs l where xs: "xs = zs @ [l]"
    by (metis append_butlast_last_id)
  from assms(1) have d: "distinct (xs @ ys)"
    by (rule chain_distinct)
  from assms(1,4) xs have r: "r = m l" and ys: "chain m (m l) ys" and zs: "seg m p zs l" and "l \<noteq> NULL"
    by (auto simp: seg_append)
  have "seg (m(l := x, x := m l)) p zs l"
    using zs d assms(2) xs by (subst chain_cong [where m = m]) auto
  moreover have "chain (m(l := x, x := m l)) (m l) ys"
    using ys d assms(2) xs by (subst chain_cong [where m = m]) auto
  ultimately show ?thesis
    using xs r assms(2,3) \<open>l \<noteq> NULL\<close> by (auto simp: seg_append)
qed

end
