(* ===== verification/Linked_Lists.thy ===== *)
theory Linked_Lists
  imports Tl_Prelude
begin

text \<open>
  The two intrusive list libraries of the SDK: the functions of \<^verbatim>\<open>proj/common/list.c\<close>, whose handle
  \<^verbatim>\<open>list_t\<close> is the address of the head pointer, and the macros \<^verbatim>\<open>LIST_ADD\<close>, \<^verbatim>\<open>LIST_DELETE\<close> and
  \<^verbatim>\<open>LIST_EXIST\<close> of \<^verbatim>\<open>proj/common/utlist.h\<close>, whose head is a variable. Nodes are linked through the
  word at offset 0. A walk over a cyclic list does not end, so every operation with a loop returns an
  option, and \<open>None\<close> means that the C loop runs forever; the theorems show that it returns on every
  null-terminated list and what it returns.
\<close>

section \<open>list.c\<close>

definition listInit :: "addr \<Rightarrow> wmem \<Rightarrow> wmem" where
  "listInit lst m = m(lst := NULL)"

definition listHead :: "addr \<Rightarrow> wmem \<Rightarrow> addr" where
  "listHead lst m = m lst"

definition listCopy :: "addr \<Rightarrow> addr \<Rightarrow> wmem \<Rightarrow> wmem" where
  "listCopy dest src m = m(dest := m src)"

text \<open>\<^verbatim>\<open>for(l = *list; l->next != NULL; l = l->next);\<close>\<close>

partial_function (option) tail_loop :: "wmem \<Rightarrow> addr \<Rightarrow> addr option" where
  "tail_loop m l = (if m l \<noteq> NULL then tail_loop m (m l) else Some l)"

definition listTail :: "addr \<Rightarrow> wmem \<Rightarrow> addr option" where
  "listTail lst m = (if m lst = NULL then Some NULL else tail_loop m (m lst))"

definition listAdd :: "addr \<Rightarrow> addr \<Rightarrow> wmem \<Rightarrow> wmem option" where
  "listAdd lst item m =
     (let m1 = m(item := NULL) in
      case listTail lst m1 of
        None \<Rightarrow> None
      | Some l \<Rightarrow> Some (if l = NULL then m1(lst := item) else m1(l := item)))"

definition listPush :: "addr \<Rightarrow> addr \<Rightarrow> wmem \<Rightarrow> wmem" where
  "listPush lst item m = (let m1 = m(item := m lst) in m1(lst := item))"

text \<open>\<^verbatim>\<open>for(l = *list; l->next->next != NULL; l = l->next);\<close>\<close>

partial_function (option) chop_loop :: "wmem \<Rightarrow> addr \<Rightarrow> addr option" where
  "chop_loop m l = (if m (m l) \<noteq> NULL then chop_loop m (m l) else Some l)"

definition listChop :: "addr \<Rightarrow> wmem \<Rightarrow> (addr \<times> wmem) option" where
  "listChop lst m =
     (if m lst = NULL then Some (NULL, m)
      else if m (m lst) = NULL then Some (m lst, m(lst := NULL))
      else case chop_loop m (m lst) of
             None \<Rightarrow> None
           | Some l \<Rightarrow> Some (m l, m(l := NULL)))"

definition listPop :: "addr \<Rightarrow> wmem \<Rightarrow> addr \<times> wmem" where
  "listPop lst m =
     (let m1 = (if m lst \<noteq> NULL then m(lst := m (m lst)) else m)
      in (m1 lst, m1))"

text \<open>The loop of \<^verbatim>\<open>listRemove\<close>, with \<open>l\<close> the node looked at and \<open>p\<close> the one before it.\<close>

partial_function (option) remove_loop :: "addr \<Rightarrow> addr \<Rightarrow> wmem \<Rightarrow> addr \<Rightarrow> addr \<Rightarrow> wmem option" where
  "remove_loop lst item m p l =
     (if l \<noteq> NULL then
        (if l = item then
           (let m1 = (if p = NULL then m(lst := m l) else m(p := m l))
            in Some (m1(l := NULL)))
         else remove_loop lst item m l (m l))
      else Some m)"

definition listRemove :: "addr \<Rightarrow> addr \<Rightarrow> wmem \<Rightarrow> wmem option" where
  "listRemove lst item m =
     (if m lst = NULL then Some m else remove_loop lst item m NULL (m lst))"

partial_function (option) length_loop :: "wmem \<Rightarrow> addr \<Rightarrow> int \<Rightarrow> int option" where
  "length_loop m l num = (if l \<noteq> NULL then length_loop m (m l) (num + 1) else Some num)"

text \<open>The C code counts in an \<^verbatim>\<open>int\<close>; no list in 64 KB of memory reaches its bound.\<close>

definition listLength :: "addr \<Rightarrow> wmem \<Rightarrow> int option" where
  "listLength lst m = length_loop m (m lst) 0"

definition listInsert :: "addr \<Rightarrow> addr \<Rightarrow> addr \<Rightarrow> wmem \<Rightarrow> wmem" where
  "listInsert lst prevItem newItem m =
     (if prevItem = NULL then listPush lst newItem m
      else let m1 = m(newItem := m prevItem) in m1(prevItem := newItem))"

section \<open>utlist.h\<close>

text \<open>The macros take the head as an lvalue: they are functions of the head pointer and the memory.\<close>

definition LIST_ADD :: "addr \<Rightarrow> addr \<Rightarrow> wmem \<Rightarrow> addr \<times> wmem" where
  "LIST_ADD head ele m = (ele, m(ele := head))"

text \<open>\<^verbatim>\<open>while (lst->next && (lst->next != (ele))) lst = lst->next;\<close>\<close>

partial_function (option) delete_loop :: "addr \<Rightarrow> wmem \<Rightarrow> addr \<Rightarrow> addr option" where
  "delete_loop ele m lst =
     (if m lst \<noteq> NULL \<and> m lst \<noteq> ele then delete_loop ele m (m lst) else Some lst)"

definition LIST_DELETE :: "addr \<Rightarrow> addr \<Rightarrow> wmem \<Rightarrow> (addr \<times> wmem) option" where
  "LIST_DELETE head ele m =
     (if head = ele then Some (m head, m)
      else case delete_loop ele m head of
             None \<Rightarrow> None
           | Some lst \<Rightarrow> Some (head, if m lst \<noteq> NULL then m(lst := m ele) else m))"

partial_function (option) LIST_EXIST :: "addr \<Rightarrow> wmem \<Rightarrow> addr \<Rightarrow> addr option" where
  "LIST_EXIST ele m result =
     (if result \<noteq> NULL then
        (if result = ele then Some result else LIST_EXIST ele m (m result))
      else Some NULL)"

section \<open>What the loops compute on a null-terminated list\<close>

lemma tail_loop_chain:
  "chain m p (as @ [l]) \<Longrightarrow> tail_loop m p = Some l"
proof (induction as arbitrary: p)
  case Nil
  then show ?case by (simp add: tail_loop.simps)
next
  case (Cons a as)
  then have c: "chain m (m a) (as @ [l])" and "p = a" by auto
  from c have "m a \<noteq> NULL" by (cases as) auto
  with Cons.IH [OF c] \<open>p = a\<close> show ?case by (simp add: tail_loop.simps [of m a])
qed

lemma chop_loop_chain:
  "chain m p (as @ [l, k]) \<Longrightarrow> chop_loop m p = Some l"
proof (induction as arbitrary: p)
  case Nil
  then show ?case by (simp add: chop_loop.simps)
next
  case (Cons a as)
  then have c: "chain m (m a) (as @ [l, k])" and "p = a" by auto
  from c have "m (m a) \<noteq> NULL" by (cases as) auto
  with Cons.IH [OF c] \<open>p = a\<close> show ?case by (simp add: chop_loop.simps [of m a])
qed

lemma length_loop_chain:
  "chain m p as \<Longrightarrow> length_loop m p n = Some (n + int (length as))"
proof (induction as arbitrary: p n)
  case Nil
  then show ?case by (simp add: length_loop.simps)
next
  case (Cons a as)
  then have "length_loop m (m a) (n + 1) = Some (n + 1 + int (length as))" by simp
  with Cons.prems show ?case by (simp add: length_loop.simps [of m a])
qed

lemma LIST_EXIST_chain:
  "chain m p as \<Longrightarrow> LIST_EXIST ele m p = Some (if ele \<in> set as then ele else NULL)"
proof (induction as arbitrary: p)
  case Nil
  then show ?case by (simp add: LIST_EXIST.simps)
next
  case (Cons a as)
  then have "LIST_EXIST ele m (m a) = Some (if ele \<in> set as then ele else NULL)" by simp
  with Cons.prems show ?case by (simp add: LIST_EXIST.simps [of ele m a])
qed

lemma delete_loop_chain:
  "chain m p (as @ [l] @ ele # bs) \<Longrightarrow> delete_loop ele m p = Some l"
proof (induction as arbitrary: p)
  case Nil
  then show ?case by (simp add: delete_loop.simps)
next
  case (Cons a as)
  have d: "distinct (a # as @ [l] @ ele # bs)"
    using Cons.prems chain_distinct by fastforce
  from Cons.prems have c: "chain m (m a) (as @ [l] @ ele # bs)" and "p = a" by auto
  from c d have "m a \<noteq> NULL" and "m a \<noteq> ele" by (cases as; auto)+
  with Cons.IH [OF c] \<open>p = a\<close> show ?case by (simp add: delete_loop.simps [of ele m a])
qed

lemma delete_loop_absent:
  "chain m p (as @ [l]) \<Longrightarrow> ele \<notin> set (as @ [l]) \<Longrightarrow> delete_loop ele m p = Some l"
proof (induction as arbitrary: p)
  case Nil
  then show ?case by (simp add: delete_loop.simps)
next
  case (Cons a as)
  then have c: "chain m (m a) (as @ [l])" and "p = a" by auto
  from c Cons.prems have "m a \<noteq> NULL" and "m a \<noteq> ele" by (cases as; auto)+
  with Cons.IH [OF c] Cons.prems \<open>p = a\<close> show ?case by (simp add: delete_loop.simps [of ele m a])
qed

lemma remove_loop_step:
  "l \<noteq> NULL \<Longrightarrow> l \<noteq> item \<Longrightarrow> remove_loop lst item m p l = remove_loop lst item m l (m l)"
  by (subst remove_loop.simps) simp

lemma remove_loop_found:
  "seg m l as item \<Longrightarrow> item \<noteq> NULL \<Longrightarrow> item \<notin> set as \<Longrightarrow>
   remove_loop lst item m p l =
     Some (m((if as = [] then (if p = NULL then lst else p) else last as) := m item, item := NULL))"
proof (induction as arbitrary: p l)
  case Nil
  then show ?case by (cases "p = NULL") (auto simp: remove_loop.simps)
next
  case (Cons a as)
  from Cons.prems have "remove_loop lst item m p l = remove_loop lst item m a (m a)"
    by (auto simp: remove_loop_step)
  also have "\<dots> = Some (m((if as = [] then a else last as) := m item, item := NULL))"
    using Cons.prems by (subst Cons.IH) auto
  finally show ?case by (auto simp: fun_eq_iff)
qed

lemma remove_loop_absent:
  "chain m l as \<Longrightarrow> item \<notin> set as \<Longrightarrow> remove_loop lst item m p l = Some m"
proof (induction as arbitrary: p l)
  case Nil
  then show ?case by (simp add: remove_loop.simps)
next
  case (Cons a as)
  then have "remove_loop lst item m p l = remove_loop lst item m a (m a)"
    by (auto simp: remove_loop_step)
  with Cons show ?case by simp
qed

section \<open>The list handle and its sequence\<close>

text \<open>
  \<open>list_rep m lst xs\<close>: the handle at address \<open>lst\<close> holds the null-terminated list of nodes \<open>xs\<close>, and the
  handle itself is not one of them.
\<close>

definition list_rep :: "wmem \<Rightarrow> addr \<Rightarrow> addr list \<Rightarrow> bool" where
  "list_rep m lst xs \<longleftrightarrow> chain m (m lst) xs \<and> lst \<notin> set xs"

lemma list_rep_distinct: "list_rep m lst xs \<Longrightarrow> distinct xs"
  by (auto simp: list_rep_def dest: chain_distinct)

lemma list_rep_empty: "list_rep m lst xs \<Longrightarrow> m lst = NULL \<longleftrightarrow> xs = []"
  by (cases xs) (auto simp: list_rep_def)

lemma listInit_rep: "list_rep (listInit lst m) lst []"
  by (simp add: list_rep_def listInit_def)

lemma listHead_rep: "list_rep m lst xs \<Longrightarrow> listHead lst m = (if xs = [] then NULL else hd xs)"
  by (cases xs) (auto simp: list_rep_def listHead_def)

lemma listCopy_rep:
  "list_rep m src xs \<Longrightarrow> dest \<notin> set xs \<Longrightarrow> list_rep (listCopy dest src m) dest xs"
  by (simp add: list_rep_def listCopy_def)

lemma listTail_rep:
  "list_rep m lst xs \<Longrightarrow> listTail lst m = Some (if xs = [] then NULL else last xs)"
proof (cases xs rule: rev_cases)
  case (snoc ys y)
  moreover assume "list_rep m lst xs"
  ultimately have c: "chain m (m lst) (ys @ [y])" by (simp add: list_rep_def)
  then have "m lst \<noteq> NULL" by (cases ys) auto
  with tail_loop_chain [OF c] snoc show ?thesis by (simp add: listTail_def)
qed (simp add: list_rep_def listTail_def)

lemma listLength_rep: "list_rep m lst xs \<Longrightarrow> listLength lst m = Some (int (length xs))"
  by (auto simp: list_rep_def listLength_def dest: length_loop_chain [where n = 0])

lemma listPush_rep:
  "list_rep m lst xs \<Longrightarrow> item \<noteq> NULL \<Longrightarrow> item \<notin> set xs \<Longrightarrow> item \<noteq> lst \<Longrightarrow>
   list_rep (listPush lst item m) lst (item # xs)"
  by (simp add: list_rep_def listPush_def Let_def)

lemma listAdd_rep:
  assumes r: "list_rep m lst xs" and i: "item \<noteq> NULL" "item \<notin> set xs" "item \<noteq> lst"
  shows "\<exists>m'. listAdd lst item m = Some m' \<and> list_rep m' lst (xs @ [item]) \<and>
           (\<forall>a. a \<notin> insert lst (insert item (set xs)) \<longrightarrow> m' a = m a)"
proof -
  let ?m1 = "m(item := NULL)"
  have r1: "list_rep ?m1 lst xs" using r i by (simp add: list_rep_def)
  show ?thesis
  proof (cases xs rule: rev_cases)
    case Nil
    with r1 i show ?thesis
      by (simp add: listAdd_def Let_def listTail_rep [OF r1] list_rep_def)
  next
    case (snoc ys y)
    have y: "y \<noteq> NULL" and lst: "lst \<notin> set xs"
      using r snoc by (auto simp: list_rep_def seg_append)
    have d: "distinct xs" by (rule list_rep_distinct [OF r])
    have "seg (?m1(y := item)) (m lst) (ys @ [y]) item"
      using r1 d i snoc by (intro seg_snoc_upd [where q = NULL]) (auto simp: list_rep_def)
    then have "list_rep (?m1(y := item)) lst (xs @ [item])"
      using i lst snoc by (auto simp: list_rep_def seg_append)
    with snoc y show ?thesis
      by (auto simp: listAdd_def Let_def listTail_rep [OF r1])
  qed
qed

lemma listChop_rep:
  assumes r: "list_rep m lst (xs @ [x])"
  shows "\<exists>m'. listChop lst m = Some (x, m') \<and> list_rep m' lst xs"
proof (cases xs rule: rev_cases)
  case Nil
  with r show ?thesis by (simp add: listChop_def list_rep_def)
next
  case (snoc ys l)
  from r snoc have c: "chain m (m lst) (ys @ [l, x])" and lst: "lst \<notin> set (ys @ [l, x])"
    by (simp_all add: list_rep_def)
  have d: "distinct (ys @ [l, x])" using chain_distinct [OF c] .
  have m2: "m lst \<noteq> NULL" "m (m lst) \<noteq> NULL" using c by (cases ys; auto)+
  have l: "m l = x" using c by (auto simp: seg_append)
  have "seg (m(l := NULL)) (m lst) (ys @ [l]) NULL"
    using c d by (auto simp: seg_append)
  with m2 l lst snoc chop_loop_chain [OF c] show ?thesis
    by (simp add: listChop_def list_rep_def)
qed

lemma listPop_rep:
  assumes "list_rep m lst (x # xs)"
  shows "list_rep (snd (listPop lst m)) lst xs" and
        "fst (listPop lst m) = (if xs = [] then NULL else hd xs)"
  using assms by (cases xs; auto simp: listPop_def Let_def list_rep_def)+

lemma listRemove_present:
  assumes r: "list_rep m lst (xs @ item # ys)"
  shows "\<exists>m'. listRemove lst item m = Some m' \<and> list_rep m' lst (xs @ ys) \<and> m' item = NULL"
proof -
  have c: "chain m (m lst) (xs @ item # ys)" and lst: "lst \<notin> set (xs @ item # ys)"
    using r by (simp_all add: list_rep_def)
  have d: "distinct (xs @ item # ys)" using chain_distinct [OF c] .
  have s: "seg m (m lst) xs item" and i: "item \<noteq> NULL" and t: "chain m (m item) ys"
    using c by (auto simp: seg_append)
  have n: "m lst \<noteq> NULL" using c by (cases xs) auto
  have e: "listRemove lst item m =
      Some (m((if xs = [] then lst else last xs) := m item, item := NULL))"
    using n remove_loop_found [OF s i] d by (simp add: listRemove_def)
  show ?thesis
  proof (cases xs rule: rev_cases)
    case Nil
    with e d t lst show ?thesis by (auto simp: list_rep_def)
  next
    case (snoc zs l)
    have "chain (m(l := m item)) (m lst) (zs @ [l] @ ys)"
      using c snoc by (intro chain_unlink) simp
    with e d lst snoc show ?thesis by (auto simp: list_rep_def)
  qed
qed

lemma listRemove_absent:
  "list_rep m lst xs \<Longrightarrow> item \<notin> set xs \<Longrightarrow> listRemove lst item m = Some m"
  by (auto simp: listRemove_def list_rep_def remove_loop_absent)

lemma listInsert_after:
  assumes r: "list_rep m lst (xs @ p # ys)"
    and i: "item \<noteq> NULL" "item \<notin> set (xs @ p # ys)" "item \<noteq> lst"
  shows "list_rep (listInsert lst p item m) lst (xs @ p # item # ys)"
proof -
  have c: "chain m (m lst) ((xs @ [p]) @ ys)" and lst: "lst \<notin> set (xs @ p # ys)"
    using r by (simp_all add: list_rep_def)
  then have "p \<noteq> NULL" and s: "seg m (m lst) (xs @ [p]) (m p)" by (auto simp: seg_append)
  have "chain (m(last (xs @ [p]) := item, item := m p)) (m lst) ((xs @ [p]) @ item # ys)"
    by (rule chain_splice [OF c _ _ s]) (use i in auto)
  moreover have "listInsert lst p item m = m(p := item, item := m p)"
    using \<open>p \<noteq> NULL\<close> i by (simp add: listInsert_def Let_def fun_upd_twist)
  ultimately show ?thesis using lst i by (simp add: list_rep_def)
qed

section \<open>The macros on a head pointer\<close>

lemma LIST_ADD_chain:
  assumes "chain m head xs" and "ele \<noteq> NULL" and "ele \<notin> set xs"
  shows "chain (snd (LIST_ADD head ele m)) (fst (LIST_ADD head ele m)) (ele # xs)"
  using assms by (simp add: LIST_ADD_def)

lemma LIST_DELETE_present:
  assumes c: "chain m head (xs @ ele # ys)"
  shows "\<exists>h' m'. LIST_DELETE head ele m = Some (h', m') \<and> chain m' h' (xs @ ys) \<and>
           (xs \<noteq> [] \<longrightarrow> h' = head) \<and> (\<forall>a. a \<notin> set xs \<longrightarrow> m' a = m a)"
proof (cases xs rule: rev_cases)
  case Nil
  with c show ?thesis by (auto simp: LIST_DELETE_def)
next
  case (snoc zs l)
  from c snoc have c': "chain m head (zs @ [l] @ ele # ys)" by simp
  have d: "distinct (zs @ [l] @ ele # ys)" using chain_distinct [OF c'] .
  have h: "head \<noteq> ele" using c' d by (cases zs) auto
  have ml: "m l = ele" "ele \<noteq> NULL" using c' by (auto simp: seg_append)
  have "chain (m(l := m ele)) head (zs @ [l] @ ys)" by (rule chain_unlink [OF c'])
  with h ml snoc delete_loop_chain [OF c'] show ?thesis by (auto simp: LIST_DELETE_def)
qed

section \<open>Properties\<close>

text \<open>
  \<^verbatim>\<open>listPop\<close> removes the first item of a list but does not return it: the value it returns is the
  head of the list that remains, or null when the list had a single item.
\<close>

theorem listPop_returns_next:
  assumes "list_rep m lst (x # xs)"
  shows "list_rep (snd (listPop lst m)) lst xs \<and> fst (listPop lst m) = (if xs = [] then NULL else hd xs) \<and>
         fst (listPop lst m) \<noteq> x"
proof -
  have "x \<notin> set xs" "x \<noteq> NULL" using list_rep_distinct [OF assms] assms by (auto simp: list_rep_def)
  then show ?thesis using listPop_rep [OF assms] by (auto simp: hd_in_set)
qed

theorem listPop_returns_next_witness:
  "fst (listPop 0x10 ((\<lambda>_. 0)(0x10 := 0x20, 0x20 := 0x30))) = 0x30"
proof -
  have "list_rep ((\<lambda>_. 0)(0x10 := 0x20, 0x20 := 0x30)) 0x10 [0x20, 0x30]" by (simp add: list_rep_def)
  from listPop_returns_next [OF this] show ?thesis by simp
qed

text \<open>
  \<^verbatim>\<open>listAdd\<close> and \<^verbatim>\<open>listRemove\<close> are inverse: appending a new item to a list always returns, gives the
  list with the item at its end and writes only the list's own words, and removing the item again
  returns and gives back the original list.
\<close>

theorem listAdd_listRemove:
  assumes "list_rep m lst xs" and "item \<noteq> NULL" and "item \<notin> set xs" and "item \<noteq> lst"
  shows "\<exists>m1 m2. listAdd lst item m = Some m1 \<and> list_rep m1 lst (xs @ [item]) \<and>
           (\<forall>a. a \<notin> insert lst (insert item (set xs)) \<longrightarrow> m1 a = m a) \<and>
           listRemove lst item m1 = Some m2 \<and> list_rep m2 lst xs"
proof -
  obtain m1 where m1: "listAdd lst item m = Some m1" "list_rep m1 lst (xs @ [item])"
      "\<forall>a. a \<notin> insert lst (insert item (set xs)) \<longrightarrow> m1 a = m a"
    using listAdd_rep [OF assms] by blast
  then show ?thesis using listRemove_present [of m1 lst xs item "[]"] by auto
qed

theorem listAdd_listRemove_witness:
  "\<exists>m1. listAdd 0x10 0x40 ((\<lambda>_. 0)(0x10 := 0x20, 0x20 := 0x30)) = Some m1 \<and> list_rep m1 0x10 [0x20, 0x30, 0x40]"
proof -
  have "list_rep ((\<lambda>_. 0)(0x10 := 0x20, 0x20 := 0x30)) 0x10 [0x20, 0x30]" by (simp add: list_rep_def)
  from listAdd_listRemove [OF this, of "0x40"] show ?thesis by auto
qed

end
