(* ===== verification/Mempool.thy ===== *)
theory Mempool
  imports Linked_Lists
begin

text \<open>
  The fixed-block pool of \<^verbatim>\<open>proj/common/mempool.c\<close>: a pool variable holds the head of a list of free
  blocks, linked through the first word of each block; an allocated block is handed out at offset 4.
  The locale \<open>block_pool\<close> states what a pool promises its client (the buffer groups of
  \<^verbatim>\<open>ev_buffer.c\<close>) and is interpreted on the functions below.
\<close>

section \<open>Operations\<close>

definition MEMPOOL_ITEMSIZE_2_BLOCKSIZE :: "u32 \<Rightarrow> u32" where
  "MEMPOOL_ITEMSIZE_2_BLOCKSIZE sz = (sz + (4 - 1)) AND NOT (4 - 1)"

text \<open>\<^verbatim>\<open>for(i = 0; i < itemcount - 1; ++i) tmp = tmp->next_block = tmp + block_size;\<close>\<close>

primrec link_blocks :: "nat \<Rightarrow> u32 \<Rightarrow> addr \<Rightarrow> wmem \<Rightarrow> addr \<times> wmem" where
  "link_blocks 0 bsize tmp m = (tmp, m)"
| "link_blocks (Suc n) bsize tmp m = link_blocks n bsize (tmp + bsize) (m(tmp := tmp + bsize))"

definition mempool_init :: "addr \<Rightarrow> addr \<Rightarrow> int \<Rightarrow> int \<Rightarrow> wmem \<Rightarrow> addr \<times> wmem" where
  "mempool_init pool mp itemsize itemcount m =
     (if pool = NULL \<or> mp = NULL then (NULL, m)
      else let m1 = m(pool := mp);
               block_size = MEMPOOL_ITEMSIZE_2_BLOCKSIZE (word_of_int itemsize);
               (tmp, m2) = link_blocks (nat (itemcount - 1)) block_size mp m1
           in (pool, m2(tmp := NULL)))"

definition mempool_header :: "addr \<Rightarrow> addr" where
  "mempool_header pd = pd - 4"

definition mempool_alloc :: "addr \<Rightarrow> wmem \<Rightarrow> addr \<times> wmem" where
  "mempool_alloc pool m =
     (if m pool = NULL then (NULL, m)
      else let tmp = m pool in (tmp + 4, m(pool := m tmp)))"

definition mempool_free :: "addr \<Rightarrow> addr \<Rightarrow> wmem \<Rightarrow> wmem" where
  "mempool_free pool p m =
     (let tmp = mempool_header p; m1 = m(tmp := m pool) in m1(pool := tmp))"

section \<open>The blocks of a pool\<close>

definition pool_blocks :: "addr \<Rightarrow> u32 \<Rightarrow> nat \<Rightarrow> addr list" where
  "pool_blocks base bsize n = map (\<lambda>i. base + of_nat i * bsize) [0..<n]"

lemma pool_blocks_Suc:
  "pool_blocks base bsize (Suc n) = base # pool_blocks (base + bsize) bsize n"
proof -
  have "[0..<Suc n] = 0 # map Suc [0..<n]" by (simp add: map_Suc_upt upt_conv_Cons)
  then show ?thesis by (simp add: pool_blocks_def algebra_simps)
qed

lemma pool_blocks_snoc:
  "pool_blocks base bsize (Suc n) = pool_blocks base bsize n @ [base + of_nat n * bsize]"
  by (simp add: pool_blocks_def)

lemma unat_block:
  fixes base bsize :: u32
  assumes "unat base + n * unat bsize \<le> 2 ^ 32" and "i < n" and "0 < unat bsize"
  shows "unat (base + of_nat i * bsize) = unat base + i * unat bsize"
proof -
  have "i * unat bsize + unat bsize \<le> n * unat bsize"
    using assms(2) by (metis Suc_leI add.commute mult_Suc mult_le_mono1)
  with assms(1,3) have lt: "unat base + i * unat bsize < 2 ^ 32" by linarith
  have "unat (of_nat i * bsize :: 32 word) = i * unat bsize"
  proof -
    have "of_nat i * bsize = (of_nat (i * unat bsize) :: 32 word)" by simp
    then show ?thesis using lt by (simp add: unat_of_nat del: of_nat_mult)
  qed
  with lt show ?thesis by (subst unat_add_no_wrap) simp_all
qed

lemma in_pool_blocks:
  assumes "unat base + n * unat bsize \<le> 2 ^ 32" and "0 < unat bsize" and "b \<in> set (pool_blocks base bsize n)"
  shows "\<exists>i<n. unat b = unat base + i * unat bsize"
  using assms unat_block [OF assms(1) _ assms(2)] by (auto simp: pool_blocks_def)

lemma distinct_pool_blocks:
  assumes "unat base + n * unat bsize \<le> 2 ^ 32" and "0 < unat bsize"
  shows "distinct (pool_blocks base bsize n)"
proof -
  have "inj_on (\<lambda>i. base + of_nat i * bsize) {0..<n}"
  proof (rule inj_onI)
    fix i j assume "i \<in> {0..<n}" "j \<in> {0..<n}" and e: "base + of_nat i * bsize = base + of_nat j * bsize"
    then have "unat base + i * unat bsize = unat base + j * unat bsize"
      using unat_block [OF assms(1) _ assms(2)] by (metis atLeastLessThan_iff)
    then show "i = j" using assms(2) by simp
  qed
  then show ?thesis by (simp add: pool_blocks_def distinct_map)
qed

section \<open>Linking the free list\<close>

lemma link_blocks_frame:
  "a \<notin> set (pool_blocks tmp bsize n) \<Longrightarrow> snd (link_blocks n bsize tmp m) a = m a"
  by (induction n arbitrary: tmp m) (simp_all add: pool_blocks_Suc)

lemma link_blocks_last: "fst (link_blocks n bsize tmp m) = tmp + of_nat n * bsize"
  by (induction n arbitrary: tmp m) (simp_all add: algebra_simps)

lemma link_blocks_seg:
  assumes "distinct (pool_blocks tmp bsize (Suc n))" and "NULL \<notin> set (pool_blocks tmp bsize (Suc n))"
  shows "seg (snd (link_blocks n bsize tmp m)) tmp (pool_blocks tmp bsize n) (tmp + of_nat n * bsize)"
  using assms
proof (induction n arbitrary: tmp m)
  case 0
  then show ?case by (simp add: pool_blocks_def)
next
  case (Suc n)
  let ?m = "m(tmp := tmp + bsize)"
  have "tmp \<notin> set (pool_blocks (tmp + bsize) bsize (Suc n))" and t: "tmp \<noteq> NULL"
    using Suc.prems by (simp_all add: pool_blocks_Suc [of tmp])
  then have d: "tmp \<notin> set (pool_blocks (tmp + bsize) bsize n)"
    by (simp add: pool_blocks_snoc)
  have "seg (snd (link_blocks n bsize (tmp + bsize) ?m)) (tmp + bsize)
          (pool_blocks (tmp + bsize) bsize n) (tmp + bsize + of_nat n * bsize)"
    using Suc.prems by (intro Suc.IH) (simp_all add: pool_blocks_Suc [of tmp])
  moreover have "snd (link_blocks n bsize (tmp + bsize) ?m) tmp = tmp + bsize"
    using link_blocks_frame [OF d] by simp
  ultimately show ?case
    using t by (simp add: pool_blocks_Suc algebra_simps)
qed

text \<open>
  Initialising a pool of \<open>n \<ge> 1\<close> blocks over memory that does not wrap: the free list is exactly the
  blocks, in address order, and no other word of memory changes.
\<close>

lemma mempool_init_rep:
  assumes "pool \<noteq> NULL" "mp \<noteq> NULL" "0 < n"
    and bs: "bsize = MEMPOOL_ITEMSIZE_2_BLOCKSIZE (word_of_int itemsize)" "0 < unat bsize"
    and fit: "unat mp + n * unat bsize \<le> 2 ^ 32"
    and out: "pool \<notin> set (pool_blocks mp bsize n)"
  shows "fst (mempool_init pool mp itemsize (int n) m) = pool"
    and "list_rep (snd (mempool_init pool mp itemsize (int n) m)) pool (pool_blocks mp bsize n)"
    and "\<And>a. a \<noteq> pool \<Longrightarrow> a \<notin> set (pool_blocks mp bsize n) \<Longrightarrow>
           snd (mempool_init pool mp itemsize (int n) m) a = m a"
proof -
  obtain k where n: "n = Suc k" using \<open>0 < n\<close> by (cases n) auto
  have d: "distinct (pool_blocks mp bsize (Suc k))"
    using distinct_pool_blocks [OF fit bs(2)] n by simp
  have nz: "NULL \<notin> set (pool_blocks mp bsize (Suc k))"
  proof
    assume "NULL \<in> set (pool_blocks mp bsize (Suc k))"
    then have "unat (0::addr) \<ge> unat mp" using in_pool_blocks [OF fit bs(2)] n by fastforce
    then show False using \<open>mp \<noteq> NULL\<close> by (simp add: unat_eq_0)
  qed
  let ?m1 = "m(pool := mp)"
  let ?l = "mp + of_nat k * bsize"
  let ?m2 = "snd (link_blocks k bsize mp ?m1)"
  have r: "mempool_init pool mp itemsize (int n) m = (pool, ?m2(?l := NULL))"
    using assms(1,2) n bs by (simp add: mempool_init_def Let_def case_prod_beta link_blocks_last)
  then show "fst (mempool_init pool mp itemsize (int n) m) = pool" by simp
  have "seg ?m2 mp (pool_blocks mp bsize k) ?l" by (rule link_blocks_seg [OF d nz])
  moreover have "?l \<noteq> NULL" "?l \<notin> set (pool_blocks mp bsize k)" "pool \<noteq> ?l"
    using d nz out n by (auto simp: pool_blocks_snoc)
  moreover have "?m2 pool = mp"
    using out n link_blocks_frame [of pool mp bsize k ?m1] by (simp add: pool_blocks_snoc)
  ultimately show "list_rep (snd (mempool_init pool mp itemsize (int n) m)) pool (pool_blocks mp bsize n)"
    using out n r by (simp add: list_rep_def pool_blocks_snoc seg_append)
  fix a assume "a \<noteq> pool" "a \<notin> set (pool_blocks mp bsize n)"
  then show "snd (mempool_init pool mp itemsize (int n) m) a = m a"
    using r n link_blocks_frame [of a mp bsize k ?m1] by (simp add: pool_blocks_snoc)
qed

section \<open>What a pool promises\<close>

text \<open>
  A pool with free list \<open>bs\<close>: allocation hands out the first free block at its payload offset 4, or null
  when there is none; freeing a block that is not free puts it at the front; both touch only the pool
  variable and the link word of the block.
\<close>

locale block_pool =
  fixes alloc :: "addr \<Rightarrow> wmem \<Rightarrow> addr \<times> wmem"
    and release :: "addr \<Rightarrow> addr \<Rightarrow> wmem \<Rightarrow> wmem"
    and rep :: "wmem \<Rightarrow> addr \<Rightarrow> addr list \<Rightarrow> bool"
  assumes alloc_none: "rep m pool [] \<Longrightarrow> alloc pool m = (NULL, m)"
    and alloc_some: "rep m pool (b # bs) \<Longrightarrow> fst (alloc pool m) = b + 4 \<and> rep (snd (alloc pool m)) pool bs"
    and alloc_frame: "a \<noteq> pool \<Longrightarrow> snd (alloc pool m) a = m a"
    and release_rep: "rep m pool bs \<Longrightarrow> b \<noteq> NULL \<Longrightarrow> b \<notin> set bs \<Longrightarrow> b \<noteq> pool \<Longrightarrow>
                        rep (release pool (b + 4) m) pool (b # bs)"
    and release_frame: "a \<noteq> pool \<Longrightarrow> a \<noteq> b \<Longrightarrow> release pool (b + 4) m a = m a"
    and rep_cong: "m' pool = m pool \<Longrightarrow> (\<And>a. a \<in> set bs \<Longrightarrow> m' a = m a) \<Longrightarrow> rep m' pool bs = rep m pool bs"
    and rep_block: "rep m pool (b # bs) \<Longrightarrow> b \<noteq> NULL \<and> b \<notin> set bs \<and> b \<noteq> pool"
begin

lemma alloc_release:
  assumes "rep m pool (b # bs)"
  shows "rep (release pool (fst (alloc pool m)) (snd (alloc pool m))) pool (b # bs)"
proof -
  have a: "fst (alloc pool m) = b + 4" "rep (snd (alloc pool m)) pool bs"
    using alloc_some [OF assms] by simp_all
  then show ?thesis using rep_block [OF assms] release_rep by simp
qed

end

lemma list_rep_cong:
  "m' pool = m pool \<Longrightarrow> (\<And>a. a \<in> set bs \<Longrightarrow> m' a = m a) \<Longrightarrow> list_rep m' pool bs = list_rep m pool bs"
  unfolding list_rep_def by (subst chain_cong [of bs m' m]) auto

interpretation mp: block_pool mempool_alloc mempool_free list_rep
proof unfold_locales
  show "\<And>m pool. list_rep m pool [] \<Longrightarrow> mempool_alloc pool m = (NULL, m)"
    by (simp add: mempool_alloc_def list_rep_def)
  show "\<And>m pool b bs. list_rep m pool (b # bs) \<Longrightarrow>
      fst (mempool_alloc pool m) = b + 4 \<and> list_rep (snd (mempool_alloc pool m)) pool bs"
  proof -
    fix m pool b bs assume "list_rep m pool (b # bs)"
    then have "m pool = b" "b \<noteq> NULL" "chain m (m b) bs" "pool \<notin> set bs"
      by (auto simp: list_rep_def)
    then show "fst (mempool_alloc pool m) = b + 4 \<and> list_rep (snd (mempool_alloc pool m)) pool bs"
      by (simp add: mempool_alloc_def list_rep_def Let_def)
  qed
  show "\<And>a pool m. a \<noteq> pool \<Longrightarrow> snd (mempool_alloc pool m) a = m a"
    by (simp add: mempool_alloc_def Let_def)
  show "\<And>m pool bs b. list_rep m pool bs \<Longrightarrow> b \<noteq> NULL \<Longrightarrow> b \<notin> set bs \<Longrightarrow> b \<noteq> pool \<Longrightarrow>
      list_rep (mempool_free pool (b + 4) m) pool (b # bs)"
    by (simp add: mempool_free_def mempool_header_def list_rep_def Let_def)
  show "\<And>a pool b m. a \<noteq> pool \<Longrightarrow> a \<noteq> b \<Longrightarrow> mempool_free pool (b + 4) m a = m a"
    by (simp add: mempool_free_def mempool_header_def Let_def)
  show "\<And>m' pool m bs. m' pool = m pool \<Longrightarrow> (\<And>a. a \<in> set bs \<Longrightarrow> m' a = m a) \<Longrightarrow>
      list_rep m' pool bs = list_rep m pool bs"
    by (rule list_rep_cong)
  show "\<And>m pool b bs. list_rep m pool (b # bs) \<Longrightarrow> b \<noteq> NULL \<and> b \<notin> set bs \<and> b \<noteq> pool"
  proof -
    fix m pool b bs assume "list_rep m pool (b # bs)"
    then have "b \<noteq> NULL" "b \<noteq> pool" and c: "chain m (m b) bs"
      by (auto simp: list_rep_def)
    moreover have "b \<notin> set bs" by (rule chain_head_notin_tail [OF c])
    ultimately show "b \<noteq> NULL \<and> b \<notin> set bs \<and> b \<noteq> pool" by simp
  qed
qed

end
