(* ===== verification/Os_State.thy ===== *)
theory Os_State
  imports Tl_Prelude
begin

text \<open>
  The part of the machine that the event kernel of \<^verbatim>\<open>proj/os\<close> works on: the word memory, the global
  interrupt enable register (as \<^verbatim>\<open>drv_disable_irq\<close> and \<^verbatim>\<open>drv_restore_irq\<close> of
  \<^verbatim>\<open>proj/drivers/drv_hw.c\<close> use it on the TC32 cores), the exception record of \<^verbatim>\<open>proj/os/ev.c\<close>, and
  the poll table of \<^verbatim>\<open>proj/os/ev_poll.c\<close>. The records of the buffer, timer and application components
  extend \<open>os_state\<close>, so each operation below also runs on their states.
\<close>

section \<open>State\<close>

text \<open>
  \<open>exc_calls\<close> lists the invocations of the registered exception callback, which is application code; the
  callback pointer itself is \<open>g_sysExceptCallback\<close>.
\<close>

record os_state =
  mem :: wmem
  reg_irq_en :: u8
  T_evtExcept :: "u16 list"
  g_sysExceptCallback :: addr
  exc_calls :: "addr list"

section \<open>Interrupt masking\<close>

definition drv_enable_irq :: "'a os_state_scheme \<Rightarrow> 'a os_state_scheme" where
  "drv_enable_irq s = s\<lparr>reg_irq_en := 1\<rparr>"

definition drv_disable_irq :: "'a os_state_scheme \<Rightarrow> u32 \<times> 'a os_state_scheme" where
  "drv_disable_irq s = (ucast (reg_irq_en s), s\<lparr>reg_irq_en := 0\<rparr>)"

definition drv_restore_irq :: "u32 \<Rightarrow> 'a os_state_scheme \<Rightarrow> 'a os_state_scheme" where
  "drv_restore_irq en s = s\<lparr>reg_irq_en := ucast en\<rparr>"

lemma ucast_u8_u32_u8 [simp]: "(ucast (ucast (x :: u8) :: u32) :: u8) = x"
  by (rule bit_word_eqI) (simp add: bit_ucast_iff)

section \<open>Exceptions (ev.c)\<close>

datatype sys_exception =
    SYS_EXCEPTTION_COMMON_MEM_ACCESS
  | SYS_EXCEPTTION_COMMON_TIMER_EVEVT
  | SYS_EXCEPTTION_COMMON_BUFFER_OVERFLOWN
  | SYS_EXCEPTTION_COMMON_STACK_OVERFLOWN
  | SYS_EXCEPTTION_COMMON_PARAM_ERROR
  | SYS_EXCEPTTION_COMMON_TASK_POST
  | SYS_EXCEPTTION_ZB_BUFFER_OVERFLOWN
  | SYS_EXCEPTTION_ZB_BUFFER_EXCEPTION_FREE_OVERFLON
  | SYS_EXCEPTTION_ZB_BUFFER_EXCEPTION_FREE_MULTI
  | SYS_EXCEPTTION_ZB_BUFFER_EXCEPTION
  | SYS_EXCEPTTION_ZB_TIMER_TASK
  | SYS_EXCEPTTION_ZB_TASK_POST
  | SYS_EXCEPTTION_ZB_MAC_TX_IRQ
  | SYS_EXCEPTTION_ZB_MAC_TX_TIMER
  | SYS_EXCEPTTION_ZB_MAC_CSMA
  | SYS_EXCEPTTION_ZB_MAC_TRX_TASK
  | SYS_EXCEPTTION_ZB_NWK_ADDR_IDX
  | SYS_EXCEPTTION_ZB_NWK_BRC_INFO
  | SYS_EXCEPTTION_ZB_NWK_GET_ENTRY
  | SYS_EXCEPTTION_ZB_NWK_NEIGHBOR_TABLE
  | SYS_EXCEPTTION_ZB_NWK_ROUTE_TABLE
  | SYS_EXCEPTTION_ZB_NWK_LINK_STA_MEM_ALLOC_FAIL
  | SYS_EXCEPTTION_ZB_SS_KEY_INDEX
  | SYS_EXCEPTTION_ZB_APS_PARAM
  | SYS_EXCEPTTION_ZB_APS_FRAGMENT_TRANS
  | SYS_EXCEPTTION_ZB_APS_FRAGMENT_RCV
  | SYS_EXCEPTTION_ZB_ZCL_ENTRY
  | SYS_EXCEPTTION_EV_BUFFER_OVERFLOWN
  | SYS_EXCEPTTION_EV_BUFFER_EXCEPTION_FREE_OVERFLON
  | SYS_EXCEPTTION_EV_BUFFER_EXCEPTION_FREE_MULTI
  | SYS_EXCEPTTION_EV_TASK_POST

text \<open>The numbers of the enumeration.\<close>

primrec exc_code :: "sys_exception \<Rightarrow> u8" where
  "exc_code SYS_EXCEPTTION_COMMON_MEM_ACCESS = 0x00"
| "exc_code SYS_EXCEPTTION_COMMON_TIMER_EVEVT = 0x01"
| "exc_code SYS_EXCEPTTION_COMMON_BUFFER_OVERFLOWN = 0x02"
| "exc_code SYS_EXCEPTTION_COMMON_STACK_OVERFLOWN = 0x03"
| "exc_code SYS_EXCEPTTION_COMMON_PARAM_ERROR = 0x04"
| "exc_code SYS_EXCEPTTION_COMMON_TASK_POST = 0x05"
| "exc_code SYS_EXCEPTTION_ZB_BUFFER_OVERFLOWN = 0x10"
| "exc_code SYS_EXCEPTTION_ZB_BUFFER_EXCEPTION_FREE_OVERFLON = 0x11"
| "exc_code SYS_EXCEPTTION_ZB_BUFFER_EXCEPTION_FREE_MULTI = 0x12"
| "exc_code SYS_EXCEPTTION_ZB_BUFFER_EXCEPTION = 0x13"
| "exc_code SYS_EXCEPTTION_ZB_TIMER_TASK = 0x14"
| "exc_code SYS_EXCEPTTION_ZB_TASK_POST = 0x15"
| "exc_code SYS_EXCEPTTION_ZB_MAC_TX_IRQ = 0x20"
| "exc_code SYS_EXCEPTTION_ZB_MAC_TX_TIMER = 0x21"
| "exc_code SYS_EXCEPTTION_ZB_MAC_CSMA = 0x22"
| "exc_code SYS_EXCEPTTION_ZB_MAC_TRX_TASK = 0x23"
| "exc_code SYS_EXCEPTTION_ZB_NWK_ADDR_IDX = 0x30"
| "exc_code SYS_EXCEPTTION_ZB_NWK_BRC_INFO = 0x31"
| "exc_code SYS_EXCEPTTION_ZB_NWK_GET_ENTRY = 0x32"
| "exc_code SYS_EXCEPTTION_ZB_NWK_NEIGHBOR_TABLE = 0x33"
| "exc_code SYS_EXCEPTTION_ZB_NWK_ROUTE_TABLE = 0x34"
| "exc_code SYS_EXCEPTTION_ZB_NWK_LINK_STA_MEM_ALLOC_FAIL = 0x35"
| "exc_code SYS_EXCEPTTION_ZB_SS_KEY_INDEX = 0x40"
| "exc_code SYS_EXCEPTTION_ZB_APS_PARAM = 0x50"
| "exc_code SYS_EXCEPTTION_ZB_APS_FRAGMENT_TRANS = 0x51"
| "exc_code SYS_EXCEPTTION_ZB_APS_FRAGMENT_RCV = 0x52"
| "exc_code SYS_EXCEPTTION_ZB_ZCL_ENTRY = 0x60"
| "exc_code SYS_EXCEPTTION_EV_BUFFER_OVERFLOWN = 0x70"
| "exc_code SYS_EXCEPTTION_EV_BUFFER_EXCEPTION_FREE_OVERFLON = 0x71"
| "exc_code SYS_EXCEPTTION_EV_BUFFER_EXCEPTION_FREE_MULTI = 0x72"
| "exc_code SYS_EXCEPTTION_EV_TASK_POST = 0x73"

definition sys_exceptionPost :: "u16 \<Rightarrow> sys_exception \<Rightarrow> 'a os_state_scheme \<Rightarrow> 'a os_state_scheme" where
  "sys_exceptionPost line evt s =
     (let s1 = s\<lparr>T_evtExcept := (T_evtExcept s)[0 := line, 1 := ucast (exc_code evt)]\<rparr>
      in if g_sysExceptCallback s1 \<noteq> NULL
         then s1\<lparr>exc_calls := exc_calls s1 @ [g_sysExceptCallback s1]\<rparr> else s1)"

definition sys_exceptHandlerRegister :: "addr \<Rightarrow> 'a os_state_scheme \<Rightarrow> 'a os_state_scheme" where
  "sys_exceptHandlerRegister cb s = s\<lparr>g_sysExceptCallback := cb\<rparr>"

text \<open>The four bytes at \<^verbatim>\<open>_end_bss_\<close> are the word there, little endian.\<close>

definition word_byte :: "u32 \<Rightarrow> nat \<Rightarrow> u8" where
  "word_byte w i = ucast (drop_bit (8 * i) w)"

definition sys_stackStatusCheck :: "addr \<Rightarrow> 'a os_state_scheme \<Rightarrow> 'a os_state_scheme" where
  "sys_stackStatusCheck end_bss s =
     (if \<exists>i\<in>set [0..<4]. word_byte (mem s end_bss) i \<noteq> 0xff
      then sys_exceptionPost 80 SYS_EXCEPTTION_COMMON_STACK_OVERFLOWN s else s)"

text \<open>Posting an exception writes the exception record and nothing else.\<close>

lemma sys_exceptionPost_frame [simp]:
  "mem (sys_exceptionPost l e s) = mem s"
  "reg_irq_en (sys_exceptionPost l e s) = reg_irq_en s"
  "g_sysExceptCallback (sys_exceptionPost l e s) = g_sysExceptCallback s"
  "os_state.more (sys_exceptionPost l e s) = os_state.more s"
  by (simp_all add: sys_exceptionPost_def Let_def)

lemma sys_exceptionPost_record:
  assumes "length (T_evtExcept s) = 4"
  shows "T_evtExcept (sys_exceptionPost l e s) ! 0 = l"
    and "T_evtExcept (sys_exceptionPost l e s) ! 1 = ucast (exc_code e)"
  using assms by (simp_all add: sys_exceptionPost_def Let_def)

section \<open>Polling (ev_poll.c)\<close>

record ev_poll_t =
  cb :: addr
  valid :: u32

text \<open>The poll identifiers of the demo applications' \<^verbatim>\<open>ev_poll_e\<close>.\<close>

datatype ev_poll_e = EV_POLL_ED_DETECT | EV_POLL_HCI | EV_POLL_IDLE

primrec poll_idx :: "ev_poll_e \<Rightarrow> nat" where
  "poll_idx EV_POLL_ED_DETECT = 0"
| "poll_idx EV_POLL_HCI = 1"
| "poll_idx EV_POLL_IDLE = 2"

definition EV_POLL_MAX :: nat where
  "EV_POLL_MAX = 3"

text \<open>The table \<^verbatim>\<open>ev_poll[EV_POLL_MAX]\<close>; an enumerator is always a valid index.\<close>

type_synonym poll_table = "ev_poll_t list"

definition ev_on_poll :: "ev_poll_e \<Rightarrow> addr \<Rightarrow> poll_table \<Rightarrow> poll_table" where
  "ev_on_poll e f t = t[poll_idx e := (t ! poll_idx e)\<lparr>cb := f, valid := 1\<rparr>]"

definition ev_enable_poll :: "ev_poll_e \<Rightarrow> poll_table \<Rightarrow> poll_table" where
  "ev_enable_poll e t = t[poll_idx e := (t ! poll_idx e)\<lparr>valid := 1\<rparr>]"

definition ev_disable_poll :: "ev_poll_e \<Rightarrow> poll_table \<Rightarrow> poll_table" where
  "ev_disable_poll e t = t[poll_idx e := (t ! poll_idx e)\<lparr>valid := 0\<rparr>]"

text \<open>
  One round of polling. \<open>call f\<close> is the effect of calling the function at \<open>f\<close> on the poll table and the
  rest of the system; the entry at each index is read when the loop reaches it, so a callback that
  enables or disables a later entry takes effect in the same round.
\<close>

primrec poll_loop ::
  "(addr \<Rightarrow> poll_table \<times> 's \<Rightarrow> poll_table \<times> 's) \<Rightarrow> nat list \<Rightarrow> poll_table \<times> 's \<Rightarrow> poll_table \<times> 's"
where
  "poll_loop call [] ts = ts"
| "poll_loop call (i # is) ts =
     poll_loop call is (if valid (fst ts ! i) \<noteq> 0 then call (cb (fst ts ! i)) ts else ts)"

definition ev_poll_process ::
  "(addr \<Rightarrow> poll_table \<times> 's \<Rightarrow> poll_table \<times> 's) \<Rightarrow> poll_table \<times> 's \<Rightarrow> poll_table \<times> 's" where
  "ev_poll_process call ts = poll_loop call [0..<EV_POLL_MAX] ts"

lemma poll_idx_inj: "poll_idx a = poll_idx b \<longleftrightarrow> a = b"
  by (cases a; cases b) simp_all

lemma poll_idx_less: "poll_idx e < EV_POLL_MAX"
  by (cases e) (simp_all add: EV_POLL_MAX_def)

text \<open>With callbacks that leave the table alone, a round calls the enabled entries once, in order.\<close>

lemma poll_loop_calls:
  assumes "\<And>f t log. call f (t, log) = (t, log @ [f])"
  shows "poll_loop call is (t, log) =
           (t, log @ map (\<lambda>i. cb (t ! i)) (filter (\<lambda>i. valid (t ! i) \<noteq> 0) is))"
  by (induction "is" arbitrary: log) (simp_all add: assms)

end
