(* ===== verification/Ev_Buffer.thy ===== *)
theory Ev_Buffer
  imports Mempool Os_State
begin

text \<open>
  The event buffer allocator \<^verbatim>\<open>proj/os/ev_buffer.c\<close>: four groups of fixed-size blocks, each a pool of
  \<^verbatim>\<open>mempool.c\<close>. A block starts with the link word, then the index of its group, then the payload that
  the client sees. The invariant \<open>buf_inv\<close> ties the group table to the four free lists and says that
  every allocated block still carries its group index.
\<close>

section \<open>State\<close>

record ev_buf_groups_t =
  qHead :: addr
  size :: u16
  availBufNum :: u8
  reserved :: u8

record ev_state = os_state +
  bufGroups :: "ev_buf_groups_t list"

text \<open>
  Where the linker puts the pool variables \<^verbatim>\<open>size_0_pool\<close> to \<^verbatim>\<open>size_3_pool\<close> and the arrays
  \<^verbatim>\<open>size_0_mem\<close> to \<^verbatim>\<open>size_3_mem\<close>.
\<close>

record ev_layout =
  pool_var :: "addr list"
  pool_mem :: "addr list"

definition DEFAULT_BUFFER_GROUP_NUM :: nat where
  "DEFAULT_BUFFER_GROUP_NUM = 4"

definition BUFFER_GROUP :: "nat list" where
  "BUFFER_GROUP = [24, 60, 200, 1024]"

definition BUFFER_NUM_IN_GROUP :: "nat list" where
  "BUFFER_NUM_IN_GROUP = [8, 12, 16, 1]"

definition MAX_BUFFER_SIZE :: u16 where
  "MAX_BUFFER_SIZE = 1024"

definition U8_MAX :: nat where
  "U8_MAX = 255"

text \<open>\<^verbatim>\<open>OFFSETOF(ev_bufItem_t, data)\<close> and \<^verbatim>\<open>OFFSETOF(mem_block_t, data)\<close>, both \<^verbatim>\<open>unsigned int\<close>.\<close>

definition EV_ITEM_DATA :: u32 where
  "EV_ITEM_DATA = 8"

definition MEM_BLOCK_DATA :: u32 where
  "MEM_BLOCK_DATA = 4"

datatype buf_sts_t = BUFFER_SUCC | BUFFER_INVALID_PARAMETER | BUFFER_DUPLICATE_FREE

text \<open>
  \<^verbatim>\<open>sizeof(size_k_mem)\<close>, from \<^verbatim>\<open>MEMPOOL_DECLARE\<close>.
\<close>

definition mem_sizeof :: "nat \<Rightarrow> u32" where
  "mem_sizeof k = MEMPOOL_ITEMSIZE_2_BLOCKSIZE (of_nat (BUFFER_GROUP ! k)) * of_nat (BUFFER_NUM_IN_GROUP ! k)"

section \<open>Operations\<close>

text \<open>An access outside the group table, or a walk over a cyclic free list, is \<open>None\<close>.\<close>

partial_function (option) existed_loop :: "addr \<Rightarrow> wmem \<Rightarrow> addr \<Rightarrow> bool option" where
  "existed_loop block m curBlock =
     (if curBlock \<noteq> NULL then
        (if block = curBlock then Some True else existed_loop block m (m curBlock))
      else Some False)"

definition ev_buf_isExisted :: "u8 \<Rightarrow> addr \<Rightarrow> 'a ev_state_scheme \<Rightarrow> bool option" where
  "ev_buf_isExisted index block s =
     (if unat index < length (bufGroups s)
      then existed_loop block (mem s) (mem s (qHead (bufGroups s ! unat index)))
      else None)"

definition ev_buf_retrieveMempoolHeader :: "addr \<Rightarrow> addr" where
  "ev_buf_retrieveMempoolHeader pd = pd - (EV_ITEM_DATA - MEM_BLOCK_DATA)"

definition ev_buf_getHead :: "addr \<Rightarrow> addr" where
  "ev_buf_getHead pd = pd - EV_ITEM_DATA"

text \<open>One iteration of the loop of \<^verbatim>\<open>ev_buf_reset\<close>.\<close>

definition reset_group :: "ev_layout \<Rightarrow> nat \<Rightarrow> 'a ev_state_scheme \<Rightarrow> 'a ev_state_scheme" where
  "reset_group L i s =
     (let (q, m) = mempool_init (pool_var L ! i) (pool_mem L ! i) (int (BUFFER_GROUP ! i))
                     (int (BUFFER_NUM_IN_GROUP ! i)) (mem s);
          g = (bufGroups s ! i)\<lparr>availBufNum := of_nat (BUFFER_NUM_IN_GROUP ! i), qHead := q,
                size := of_nat (BUFFER_GROUP ! i)\<rparr>
      in s\<lparr>mem := m, bufGroups := (bufGroups s)[i := g]\<rparr>)"

definition ev_buf_reset :: "ev_layout \<Rightarrow> 'a ev_state_scheme \<Rightarrow> 'a ev_state_scheme" where
  "ev_buf_reset L s =
     fold (reset_group L) [0..<DEFAULT_BUFFER_GROUP_NUM]
       (s\<lparr>bufGroups := replicate DEFAULT_BUFFER_GROUP_NUM
            \<lparr>qHead = NULL, size = 0, availBufNum = 0, reserved = 0\<rparr>\<rparr>)"

definition ev_buf_init :: "ev_layout \<Rightarrow> 'a ev_state_scheme \<Rightarrow> 'a ev_state_scheme" where
  "ev_buf_init L s = ev_buf_reset L s"

text \<open>The search of \<^verbatim>\<open>ev_buf_allocate\<close>: the first group that is large enough and not empty.\<close>

primrec find_group :: "u16 \<Rightarrow> ev_buf_groups_t list \<Rightarrow> nat list \<Rightarrow> nat" where
  "find_group sz gs [] = U8_MAX"
| "find_group sz gs (i # is) =
     (if ucast sz \<le> ucast (size (gs ! i)) - EV_ITEM_DATA \<and> availBufNum (gs ! i) \<noteq> 0
      then i else find_group sz gs is)"

definition ev_buf_allocate :: "u16 \<Rightarrow> 'a ev_state_scheme \<Rightarrow> addr \<times> 'a ev_state_scheme" where
  "ev_buf_allocate sz s =
     (if sz = 0 \<or> sz > MAX_BUFFER_SIZE then (NULL, s)
      else
        let (r, s1) = drv_disable_irq s;
            index = find_group sz (bufGroups s1) [0..<DEFAULT_BUFFER_GROUP_NUM]
        in if index = U8_MAX \<or> availBufNum (bufGroups s1 ! index) = 0
           then (NULL, drv_restore_irq r s1)
           else
             let (temp, m) = mempool_alloc (qHead (bufGroups s1 ! index)) (mem s1);
                 s2 = s1\<lparr>mem := m\<rparr>
             in if temp = NULL then (NULL, drv_restore_irq r s2)
                else
                  let g = bufGroups s2 ! index;
                      s3 = s2\<lparr>bufGroups := (bufGroups s2)[index := g\<lparr>availBufNum := availBufNum g - 1\<rparr>]\<rparr>;
                      pNewBuf = temp - 4;
                      s4 = s3\<lparr>mem := (mem s3)(pNewBuf + 4 := of_nat index)\<rparr>
                  in (pNewBuf + EV_ITEM_DATA, drv_restore_irq r s4))"

definition long_ev_buf_get :: "'a ev_state_scheme \<Rightarrow> addr \<times> 'a ev_state_scheme" where
  "long_ev_buf_get s = ev_buf_allocate MAX_BUFFER_SIZE s"

definition in_mem :: "ev_layout \<Rightarrow> nat \<Rightarrow> addr \<Rightarrow> bool" where
  "in_mem L k arg \<longleftrightarrow> pool_mem L ! k \<le> arg \<and> arg \<le> pool_mem L ! k + mem_sizeof k"

definition is_ev_buf :: "ev_layout \<Rightarrow> addr \<Rightarrow> bool" where
  "is_ev_buf L arg \<longleftrightarrow> in_mem L 0 arg \<or> in_mem L 1 arg \<or> in_mem L 2 arg \<or> in_mem L 3 arg"

definition ev_buf_free :: "ev_layout \<Rightarrow> addr \<Rightarrow> 'a ev_state_scheme \<Rightarrow> (buf_sts_t \<times> 'a ev_state_scheme) option" where
  "ev_buf_free L pBuf s =
     (let (r, s1) = drv_disable_irq s;
          s2 = (if \<not> is_ev_buf L pBuf
                then sys_exceptionPost 230 SYS_EXCEPTTION_EV_BUFFER_EXCEPTION_FREE_OVERFLON s1 else s1);
          pDelBuf = ev_buf_getHead pBuf;
          groupIndex = mem s2 (pDelBuf + 4)
      in case ev_buf_isExisted (ucast groupIndex) pDelBuf s2 of
           None \<Rightarrow> None
         | Some True \<Rightarrow>
             Some (BUFFER_DUPLICATE_FREE,
                   drv_restore_irq r (sys_exceptionPost 243 SYS_EXCEPTTION_EV_BUFFER_EXCEPTION_FREE_MULTI s2))
         | Some False \<Rightarrow>
             (if unat groupIndex < length (bufGroups s2) then
                let i = unat groupIndex;
                    s3 = s2\<lparr>mem := mempool_free (qHead (bufGroups s2 ! i))
                                      (ev_buf_retrieveMempoolHeader pBuf) (mem s2)\<rparr>;
                    j = unat (mem s3 (pDelBuf + 4))
                in if j < length (bufGroups s3) then
                     let g = bufGroups s3 ! j;
                         s4 = s3\<lparr>bufGroups := (bufGroups s3)[j := g\<lparr>availBufNum := availBufNum g + 1\<rparr>]\<rparr>
                     in Some (BUFFER_SUCC, drv_restore_irq r s4)
                   else None
              else None))"

text \<open>
  \<^verbatim>\<open>ev_buf_getTail\<close> reads the group index before the payload. Its local size table has four entries of
  which only three are initialised, so the last one is 0; the assertion before the lookup is compiled
  out unless \<^verbatim>\<open>ASSERT_DEBUG_MODE\<close> is set.
\<close>

definition tail_size :: "nat list" where
  "tail_size = [24, 60, 200, 0]"

definition ev_buf_getTail :: "addr \<Rightarrow> int \<Rightarrow> wmem \<Rightarrow> addr option" where
  "ev_buf_getTail pd offsetToTail m =
     (let index = unat (m (pd - 4)) in
      if index < length tail_size
      then Some (pd - 8 + of_nat (tail_size ! index) - word_of_int offsetToTail)
      else None)"

primrec free_max_loop :: "ev_buf_groups_t list \<Rightarrow> u16 \<Rightarrow> u16" where
  "free_max_loop [] sz = sz"
| "free_max_loop (g # gs) sz =
     free_max_loop gs
       (if availBufNum g \<noteq> 0 \<and> ucast (size g) - EV_ITEM_DATA > ucast sz
        then ucast (ucast (size g) - EV_ITEM_DATA) else sz)"

definition ev_buf_getFreeMaxSize :: "'a ev_state_scheme \<Rightarrow> u16" where
  "ev_buf_getFreeMaxSize s = free_max_loop (bufGroups s) 0"

definition get_ev_buf_size :: "ev_layout \<Rightarrow> addr \<Rightarrow> u32" where
  "get_ev_buf_size L arg =
     (if in_mem L 0 arg then of_nat (BUFFER_GROUP ! 0) - EV_ITEM_DATA
      else if in_mem L 1 arg then of_nat (BUFFER_GROUP ! 1) - EV_ITEM_DATA
      else if in_mem L 2 arg then of_nat (BUFFER_GROUP ! 2) - EV_ITEM_DATA
      else if in_mem L 3 arg then of_nat (BUFFER_GROUP ! 3) - EV_ITEM_DATA
      else 0)"

section \<open>Layout\<close>

abbreviation grp_size :: "nat \<Rightarrow> nat" where
  "grp_size k \<equiv> BUFFER_GROUP ! k"

abbreviation grp_num :: "nat \<Rightarrow> nat" where
  "grp_num k \<equiv> BUFFER_NUM_IN_GROUP ! k"

abbreviation blocks :: "ev_layout \<Rightarrow> nat \<Rightarrow> addr list" where
  "blocks L k \<equiv> pool_blocks (pool_mem L ! k) (of_nat (grp_size k)) (grp_num k)"

text \<open>Four non-null pool variables and four arrays that do not overlap each other or wrap around.\<close>

definition region :: "ev_layout \<Rightarrow> nat \<Rightarrow> nat set" where
  "region L k = {unat (pool_mem L ! k) ..< unat (pool_mem L ! k) + grp_size k * grp_num k}"

definition layout_ok :: "ev_layout \<Rightarrow> bool" where
  "layout_ok L \<longleftrightarrow> length (pool_var L) = 4 \<and> length (pool_mem L) = 4 \<and> distinct (pool_var L) \<and>
     (\<forall>k<4. pool_var L ! k \<noteq> NULL \<and> pool_mem L ! k \<noteq> NULL \<and>
        unat (pool_mem L ! k) + grp_size k * grp_num k < 2 ^ 32 \<and>
        (\<forall>j<4. unat (pool_var L ! j) \<notin> region L k) \<and>
        (\<forall>j<4. j \<noteq> k \<longrightarrow> region L j \<inter> region L k = {}))"

lemma layout_okD:
  assumes "layout_ok L" "j < 4" "k < 4"
  shows "unat (pool_var L ! j) \<notin> region L k" "unat (pool_mem L ! k) + grp_size k * grp_num k < 2 ^ 32"
    "pool_mem L ! k \<noteq> NULL" "pool_var L ! k \<noteq> NULL" "j \<noteq> k \<Longrightarrow> region L j \<inter> region L k = {}"
  using assms by (simp_all add: layout_ok_def)

lemma lt4_cases: "k < (4::nat) \<Longrightarrow> k = 0 \<or> k = 1 \<or> k = 2 \<or> k = 3"
  by auto

lemma all_lt4: "(\<forall>k<4. P k) \<longleftrightarrow> P 0 \<and> P 1 \<and> P 2 \<and> P (3::nat)"
  by (auto dest: lt4_cases)

lemma grp_num_pos: "k < 4 \<Longrightarrow> 0 < grp_num k"
  using lt4_cases [of k] by (auto simp: BUFFER_NUM_IN_GROUP_def)

lemma grp_size_facts:
  assumes "k < 4"
  shows "24 \<le> grp_size k" "grp_size k \<le> 1024" "grp_num k < 256"
    and "unat (of_nat (grp_size k) :: u32) = grp_size k" "unat (of_nat (grp_size k) :: u16) = grp_size k"
    and "MEMPOOL_ITEMSIZE_2_BLOCKSIZE (word_of_int (int (grp_size k))) = of_nat (grp_size k)"
  using lt4_cases [OF assms]
  by (auto simp: BUFFER_GROUP_def BUFFER_NUM_IN_GROUP_def MEMPOOL_ITEMSIZE_2_BLOCKSIZE_def)

text \<open>Every block lies in the array of its group, its header word included.\<close>

lemma block_region:
  assumes L: "layout_ok L" and k: "k < 4" and b: "b \<in> set (blocks L k)"
  shows "\<exists>i<grp_num k. unat b = unat (pool_mem L ! k) + i * grp_size k \<and> unat (b + 4) = unat b + 4"
proof -
  have fit: "unat (pool_mem L ! k) + grp_num k * unat (of_nat (grp_size k) :: u32) < 2 ^ 32"
    using L k grp_size_facts(4) [OF k] by (simp add: layout_ok_def mult.commute)
  then obtain i where i: "i < grp_num k" "unat b = unat (pool_mem L ! k) + i * grp_size k"
    using in_pool_blocks [OF _ _ b] grp_size_facts [OF k] by fastforce
  have "i * grp_size k + grp_size k \<le> grp_num k * grp_size k"
    using i(1) by (metis Suc_leI add.commute mult_Suc mult_le_mono1)
  then have "unat b + 4 < 2 ^ 32" using i fit grp_size_facts [OF k] by simp
  then have "unat (b + 4) = unat b + 4" using unat_add_no_wrap [of b 4] by simp
  with i show ?thesis by blast
qed

lemma block_words_in_region:
  assumes L: "layout_ok L" and k: "k < 4" and b: "b \<in> set (blocks L k)"
  shows "unat b \<in> region L k" and "unat (b + 4) \<in> region L k"
proof -
  obtain i where i: "i < grp_num k" "unat b = unat (pool_mem L ! k) + i * grp_size k" "unat (b + 4) = unat b + 4"
    using block_region [OF assms] by blast
  have "i * grp_size k + grp_size k \<le> grp_size k * grp_num k"
    using i(1) by (metis Suc_leI add.commute mult.commute mult_Suc mult_le_mono1)
  with i grp_size_facts [OF k] show "unat b \<in> region L k" "unat (b + 4) \<in> region L k"
    by (simp_all add: region_def)
qed

lemma block_sep:
  assumes L: "layout_ok L" and j: "j < 4" and k: "k < 4"
    and b: "b \<in> set (blocks L j)" and c: "c \<in> set (blocks L k)"
  shows "b \<noteq> c + 4" and "j \<noteq> k \<Longrightarrow> b \<noteq> c"
proof -
  have dis: "j \<noteq> k \<Longrightarrow> region L j \<inter> region L k = {}" using L j k by (simp add: layout_ok_def)
  then show "j \<noteq> k \<Longrightarrow> b \<noteq> c"
    using block_words_in_region [OF L j b] block_words_in_region [OF L k c] by blast
  show "b \<noteq> c + 4"
  proof (cases "j = k")
    case False
    then show ?thesis using dis block_words_in_region [OF L j b] block_words_in_region [OF L k c] by blast
  next
    case True
    obtain i where i: "unat b = unat (pool_mem L ! k) + i * grp_size k"
      using block_region [OF L j b] True by blast
    obtain n where n: "unat c = unat (pool_mem L ! k) + n * grp_size k" "unat (c + 4) = unat c + 4"
      using block_region [OF L k c] by blast
    show ?thesis
    proof
      assume "b = c + 4"
      then have "i * grp_size k = n * grp_size k + 4" using i n by simp
      then have "(i * grp_size k) mod grp_size k = (n * grp_size k + 4) mod grp_size k" by simp
      then show False using grp_size_facts(1) [OF k] by simp
    qed
  qed
qed

lemma pool_sep:
  assumes L: "layout_ok L" and j: "j < 4" and k: "k < 4" and c: "c \<in> set (blocks L k)"
  shows "pool_var L ! j \<noteq> c" and "pool_var L ! j \<noteq> c + 4"
  using layout_okD(1) [OF L j k] block_words_in_region [OF L k c] by metis+

lemma pool_var_inj: "layout_ok L \<Longrightarrow> j < 4 \<Longrightarrow> k < 4 \<Longrightarrow> j \<noteq> k \<Longrightarrow> pool_var L ! j \<noteq> pool_var L ! k"
  by (auto simp: layout_ok_def nth_eq_iff_index_eq)

lemma block_nonnull: "layout_ok L \<Longrightarrow> k < 4 \<Longrightarrow> b \<in> set (blocks L k) \<Longrightarrow> b \<noteq> NULL \<and> b + 8 \<noteq> NULL"
proof -
  assume L: "layout_ok L" and k: "k < 4" and b: "b \<in> set (blocks L k)"
  obtain i where i: "i < grp_num k" "unat b = unat (pool_mem L ! k) + i * grp_size k"
    using block_region [OF L k b] by blast
  have nz: "0 < unat (pool_mem L ! k)" using L k by (simp add: layout_ok_def unat_gt_0)
  have "i * grp_size k + grp_size k \<le> grp_size k * grp_num k"
    using i(1) by (metis Suc_leI add.commute mult.commute mult_Suc mult_le_mono1)
  then have "unat b + 8 < 2 ^ 32" using i(2) layout_okD(2) [OF L k k] grp_size_facts(1) [OF k] by linarith
  then have "unat (b + 8) = unat b + 8" using unat_add_no_wrap [of b 8] by simp
  then have "0 < unat b" "0 < unat (b + 8)" using i nz by simp_all
  then show ?thesis by (simp add: unat_gt_0)
qed

section \<open>Invariant\<close>

text \<open>
  \<open>fr k\<close> is the free list of group \<open>k\<close>. The group table points at the pools, counts the free blocks, and
  every block that is not free holds the index of its group in its header.
\<close>

definition group_ok :: "ev_layout \<Rightarrow> (nat \<Rightarrow> addr list) \<Rightarrow> nat \<Rightarrow> 'a ev_state_scheme \<Rightarrow> bool" where
  "group_ok L fr k s \<longleftrightarrow>
     qHead (bufGroups s ! k) = pool_var L ! k \<and>
     size (bufGroups s ! k) = of_nat (grp_size k) \<and>
     unat (availBufNum (bufGroups s ! k)) = length (fr k) \<and>
     set (fr k) \<subseteq> set (blocks L k) \<and>
     list_rep (mem s) (pool_var L ! k) (fr k) \<and>
     (\<forall>b \<in> set (blocks L k) - set (fr k). mem s (b + 4) = of_nat k)"

definition buf_inv :: "ev_layout \<Rightarrow> (nat \<Rightarrow> addr list) \<Rightarrow> 'a ev_state_scheme \<Rightarrow> bool" where
  "buf_inv L fr s \<longleftrightarrow> length (bufGroups s) = 4 \<and> (\<forall>k<4. group_ok L fr k s)"

text \<open>What group \<open>k\<close> depends on: its table entry, its pool variable and the header words of its blocks.\<close>

lemma group_ok_cong:
  assumes "bufGroups s' ! k = bufGroups s ! k" "fr' k = fr k"
    and "mem s' (pool_var L ! k) = mem s (pool_var L ! k)"
    and "\<And>b. b \<in> set (blocks L k) \<Longrightarrow> mem s' b = mem s b \<and> mem s' (b + 4) = mem s (b + 4)"
  shows "group_ok L fr' k s' \<longleftrightarrow> group_ok L fr k s"
proof (cases "set (fr k) \<subseteq> set (blocks L k)")
  case True
  then have "list_rep (mem s') (pool_var L ! k) (fr k) = list_rep (mem s) (pool_var L ! k) (fr k)"
    using assms(3,4) by (intro list_rep_cong) auto
  then show ?thesis using assms by (simp add: group_ok_def)
next
  case False
  then show ?thesis using assms(2) by (simp add: group_ok_def)
qed

lemma free_block: "buf_inv L fr s \<Longrightarrow> k < 4 \<Longrightarrow> b \<in> set (fr k) \<Longrightarrow> b \<in> set (blocks L k)"
  by (auto simp: buf_inv_def group_ok_def)

text \<open>A free list never holds more blocks than the group has.\<close>

lemma free_list_bound:
  assumes "layout_ok L" "buf_inv L fr s" "k < 4"
  shows "length (fr k) \<le> grp_num k" and "distinct (fr k)"
proof -
  have g: "group_ok L fr k s" using assms by (simp add: buf_inv_def)
  then show d: "distinct (fr k)" by (auto simp: group_ok_def dest: list_rep_distinct)
  have "length (fr k) = card (set (fr k))" using d by (simp add: distinct_card)
  also have "\<dots> \<le> card (set (blocks L k))" using g by (intro card_mono) (auto simp: group_ok_def)
  also have "\<dots> \<le> length (blocks L k)" by (rule card_length)
  finally show "length (fr k) \<le> grp_num k" by (simp add: pool_blocks_def)
qed

section \<open>Initialisation\<close>

lemma reset_group_step:
  assumes L: "layout_ok L" and i: "i < 4" and len: "length (bufGroups s) = 4"
    and inv: "\<forall>j<i. group_ok L (blocks L) j s"
  shows "length (bufGroups (reset_group L i s)) = 4" and "\<forall>j<Suc i. group_ok L (blocks L) j (reset_group L i s)"
proof -
  let ?m = "snd (mempool_init (pool_var L ! i) (pool_mem L ! i) (int (grp_size i)) (int (grp_num i)) (mem s))"
  have fit: "unat (pool_mem L ! i) + grp_num i * unat (of_nat (grp_size i) :: u32) \<le> 2 ^ 32"
    using layout_okD(2) [OF L i i] grp_size_facts(4) [OF i] by (simp add: mult.commute)
  have out: "pool_var L ! i \<notin> set (blocks L i)" using pool_sep(1) [OF L i i] by blast
  have pos: "0 < unat (of_nat (grp_size i) :: u32)" using grp_size_facts [OF i] by simp
  note init = mempool_init_rep [OF layout_okD(4) [OF L i i] layout_okD(3) [OF L i i] grp_num_pos [OF i]
      grp_size_facts(6) [OF i, symmetric] pos fit out, where m = "mem s"]
  have mem': "mem (reset_group L i s) = ?m"
    by (simp add: reset_group_def Let_def case_prod_beta)
  have g: "bufGroups (reset_group L i s) = (bufGroups s)[i := (bufGroups s ! i)
      \<lparr>availBufNum := of_nat (grp_num i), qHead := pool_var L ! i, size := of_nat (grp_size i)\<rparr>]"
    using init(1) by (simp add: reset_group_def Let_def case_prod_beta)
  show "length (bufGroups (reset_group L i s)) = 4" using g len by simp
  have "group_ok L (blocks L) i (reset_group L i s)"
    using init(2) grp_size_facts [OF i] len i
    by (simp add: group_ok_def g mem' unat_of_nat pool_blocks_def)
  moreover have "group_ok L (blocks L) j (reset_group L i s)" if j: "j < i" for j
  proof -
    have j4: "j < 4" using j i by simp
    have "group_ok L (blocks L) j (reset_group L i s) \<longleftrightarrow> group_ok L (blocks L) j s"
    proof (rule group_ok_cong)
      show "mem (reset_group L i s) (pool_var L ! j) = mem s (pool_var L ! j)"
        unfolding mem' using pool_var_inj [OF L j4 i] pool_sep(1) [OF L j4 i] j by (intro init(3)) auto
    next
      fix b assume b: "b \<in> set (blocks L j)"
      have "pool_var L ! i \<noteq> b" "pool_var L ! i \<noteq> b + 4" using pool_sep [OF L i j4 b] by auto
      moreover have "b \<notin> set (blocks L i)" "b + 4 \<notin> set (blocks L i)"
        using block_sep(2) [OF L j4 i b] block_sep(1) [OF L i j4 _ b] j by auto
      ultimately show "mem (reset_group L i s) b = mem s b \<and> mem (reset_group L i s) (b + 4) = mem s (b + 4)"
        unfolding mem' using init(3) [of b] init(3) [of "b + 4"] by auto
    qed (use j g in simp_all)
    then show ?thesis using inv j by simp
  qed
  ultimately show "\<forall>j<Suc i. group_ok L (blocks L) j (reset_group L i s)"
    by (auto simp: less_Suc_eq)
qed

lemma reset_groups:
  assumes L: "layout_ok L" and "n \<le> 4" and "length (bufGroups s) = 4"
  shows "length (bufGroups (fold (reset_group L) [0..<n] s)) = 4 \<and>
         (\<forall>j<n. group_ok L (blocks L) j (fold (reset_group L) [0..<n] s))"
  using assms(2)
proof (induction n)
  case 0
  then show ?case using assms(3) by simp
next
  case (Suc n)
  then show ?case
    using reset_group_step [OF L, of n "fold (reset_group L) [0..<n] s"] by simp
qed

lemma ev_buf_init_inv: "layout_ok L \<Longrightarrow> buf_inv L (blocks L) (ev_buf_init L s)"
  unfolding buf_inv_def ev_buf_init_def ev_buf_reset_def DEFAULT_BUFFER_GROUP_NUM_def
  by (rule reset_groups) simp_all

section \<open>Allocation\<close>

text \<open>The group a request goes to: the first whose payload is large enough and that has a free block.\<close>

definition fit_group :: "(nat \<Rightarrow> addr list) \<Rightarrow> u16 \<Rightarrow> nat option" where
  "fit_group fr sz = find (\<lambda>k. unat sz \<le> grp_size k - 8 \<and> fr k \<noteq> []) [0..<4]"

lemma payload_size:
  assumes "k < 4"
  shows "unat (ucast (of_nat (grp_size k) :: u16) - EV_ITEM_DATA :: u32) = grp_size k - 8"
  using lt4_cases [OF assms] by (auto simp: BUFFER_GROUP_def EV_ITEM_DATA_def)

lemma find_group_fit:
  assumes "buf_inv L fr s" "\<forall>i\<in>set is. i < 4"
  shows "find_group sz (bufGroups s) is =
           (case find (\<lambda>k. unat sz \<le> grp_size k - 8 \<and> fr k \<noteq> []) is of None \<Rightarrow> U8_MAX | Some k \<Rightarrow> k)"
  using assms(2)
proof (induction "is")
  case Nil
  then show ?case by simp
next
  case (Cons i "is")
  then have i: "i < 4" and g: "group_ok L fr i s" using assms(1) by (simp_all add: buf_inv_def)
  have "ucast sz \<le> (ucast (size (bufGroups s ! i)) - EV_ITEM_DATA :: u32) \<longleftrightarrow> unat sz \<le> grp_size i - 8"
    using g payload_size [OF i] by (simp add: group_ok_def word_le_nat_alt)
  moreover have "availBufNum (bufGroups s ! i) \<noteq> 0 \<longleftrightarrow> fr i \<noteq> []"
    using g by (auto simp: group_ok_def word_neq_0_unat)
  ultimately show ?case using Cons by simp
qed

lemma fit_group_lt: "fit_group fr sz = Some k \<Longrightarrow> k < 4 \<and> fr k \<noteq> [] \<and> unat sz \<le> grp_size k - 8"
  by (auto simp: fit_group_def find_Some_iff)

lemma lt4_not_U8_MAX: "k < 4 \<Longrightarrow> k \<noteq> U8_MAX"
  by (simp add: U8_MAX_def)

lemma ev_buf_allocate_none:
  assumes "buf_inv L fr s" and "sz = 0 \<or> sz > MAX_BUFFER_SIZE \<or> fit_group fr sz = None"
  shows "ev_buf_allocate sz s = (NULL, s)"
proof (cases "sz = 0 \<or> sz > MAX_BUFFER_SIZE")
  case True
  then show ?thesis by (auto simp: ev_buf_allocate_def)
next
  case False
  then have "find_group sz (bufGroups s) [0..<4] = U8_MAX"
    using assms find_group_fit [OF assms(1), of "[0..<4]" sz] by (simp add: fit_group_def)
  then show ?thesis
    using False by (simp add: ev_buf_allocate_def drv_disable_irq_def drv_restore_irq_def
        DEFAULT_BUFFER_GROUP_NUM_def Let_def)
qed

text \<open>The state after handing out the first free block of group \<open>k\<close>.\<close>

definition take_block :: "ev_layout \<Rightarrow> nat \<Rightarrow> addr \<Rightarrow> 'a ev_state_scheme \<Rightarrow> 'a ev_state_scheme" where
  "take_block L k b s =
     s\<lparr>mem := (snd (mempool_alloc (pool_var L ! k) (mem s)))(b + 4 := of_nat k),
       bufGroups := (bufGroups s)[k := (bufGroups s ! k)\<lparr>availBufNum := availBufNum (bufGroups s ! k) - 1\<rparr>]\<rparr>"

lemma ev_buf_allocate_some:
  assumes L: "layout_ok L" and inv: "buf_inv L fr s" and sz: "sz \<noteq> 0" "sz \<le> MAX_BUFFER_SIZE"
    and fit: "fit_group fr sz = Some k"
  shows "ev_buf_allocate sz s = (hd (fr k) + 8, take_block L k (hd (fr k)) s)"
proof -
  have k: "k < 4" "fr k \<noteq> []" using fit_group_lt [OF fit] by auto
  then obtain b bs where fr: "fr k = b # bs" by (cases "fr k") auto
  have g: "group_ok L fr k s" using inv k by (simp add: buf_inv_def)
  have idx: "find_group sz (bufGroups s) [0..<4] = k"
    using find_group_fit [OF inv, of "[0..<4]" sz] fit by (simp add: fit_group_def)
  have "fst (mempool_alloc (pool_var L ! k) (mem s)) = b + 4"
    using g fr mp.alloc_some [of "mem s" "pool_var L ! k" b bs] by (simp add: group_ok_def)
  moreover have "b \<in> set (blocks L k)" using g fr by (simp add: group_ok_def)
  moreover have "b + 4 \<noteq> NULL"
    using block_region [OF L k(1)] calculation(2) by (metis add_is_0 unat_0 zero_neq_numeral)
  moreover have "availBufNum (bufGroups s ! k) \<noteq> 0" "qHead (bufGroups s ! k) = pool_var L ! k"
    using g fr by (auto simp: group_ok_def)
  ultimately show ?thesis
    using sz k idx fr lt4_not_U8_MAX [OF k(1)]
    by (simp add: leD ev_buf_allocate_def drv_disable_irq_def drv_restore_irq_def take_block_def
        DEFAULT_BUFFER_GROUP_NUM_def Let_def case_prod_beta EV_ITEM_DATA_def)
qed

lemma take_block_inv:
  assumes L: "layout_ok L" and inv: "buf_inv L fr s" and k: "k < 4" and fr: "fr k = b # bs"
  shows "buf_inv L (fr(k := bs)) (take_block L k b s)"
proof -
  let ?s = "take_block L k b s"
  have g: "group_ok L fr k s" and len: "length (bufGroups s) = 4" using inv k by (simp_all add: buf_inv_def)
  have rep: "list_rep (mem s) (pool_var L ! k) (b # bs)" using g fr by (simp add: group_ok_def)
  have bb: "b \<in> set (blocks L k)" using g fr by (simp add: group_ok_def)
  have bs: "set bs \<subseteq> set (blocks L k)" "b \<notin> set bs" using g fr mp.rep_block [OF rep] by (auto simp: group_ok_def)
  let ?m = "snd (mempool_alloc (pool_var L ! k) (mem s))"
  have mem': "mem ?s = ?m(b + 4 := of_nat k)" by (simp add: take_block_def)
  have out: "mem ?s a = mem s a" if "a \<noteq> pool_var L ! k" "a \<noteq> b + 4" for a
    using that mp.alloc_frame mem' by simp
  have "list_rep ?m (pool_var L ! k) bs" using mp.alloc_some [OF rep] by simp
  then have "list_rep (mem ?s) (pool_var L ! k) bs"
    using mem' pool_sep(2) [OF L k k bb] block_sep(1) [OF L k k _ bb] bs(1)
    by (subst list_rep_cong [where m = ?m]) auto
  moreover have "mem ?s (c + 4) = of_nat k" if "c \<in> set (blocks L k) - set bs" for c
  proof (cases "c = b")
    case False
    then have "mem ?s (c + 4) = mem s (c + 4)" using that pool_sep(2) [OF L k k, of c] by (intro out) auto
    then show ?thesis using that g fr False by (auto simp: group_ok_def)
  qed (simp add: mem')
  moreover have "availBufNum (bufGroups s ! k) \<noteq> 0" using g fr by (auto simp: group_ok_def)
  ultimately have "group_ok L (fr(k := bs)) k ?s"
    using g bs len k fr by (simp add: group_ok_def take_block_def [of L k b s] unat_dec)
  moreover have "group_ok L (fr(k := bs)) j ?s" if j: "j < 4" "j \<noteq> k" for j
  proof -
    have "group_ok L (fr(k := bs)) j ?s = group_ok L fr j s"
    proof (rule group_ok_cong)
      show "mem ?s (pool_var L ! j) = mem s (pool_var L ! j)"
        using pool_var_inj [OF L j(1) k j(2)] pool_sep(2) [OF L j(1) k bb] by (intro out) auto
      fix c assume c: "c \<in> set (blocks L j)"
      have "c \<noteq> b + 4" "c \<noteq> b" using block_sep [OF L j(1) k c bb] j(2) by auto
      then show "mem ?s c = mem s c \<and> mem ?s (c + 4) = mem s (c + 4)"
        using pool_sep [OF L k j(1) c] by (intro conjI out) auto
    qed (use j in \<open>simp_all add: take_block_def\<close>)
    then show ?thesis using inv j by (simp add: buf_inv_def)
  qed
  ultimately show ?thesis using len by (auto simp: buf_inv_def take_block_def)
qed

section \<open>Release\<close>

lemma existed_loop_chain: "chain m p bs \<Longrightarrow> existed_loop b m p = Some (b \<in> set bs)"
proof (induction bs arbitrary: p)
  case Nil
  then show ?case by (simp add: existed_loop.simps)
next
  case (Cons c bs)
  then show ?case by (auto simp: existed_loop.simps [of _ m c])
qed

lemma ev_buf_isExisted_inv:
  assumes "buf_inv L fr s" "k < 4"
  shows "ev_buf_isExisted (of_nat k) b s = Some (b \<in> set (fr k))"
proof -
  have "chain (mem s) (mem s (pool_var L ! k)) (fr k)" "qHead (bufGroups s ! k) = pool_var L ! k"
    using assms by (simp_all add: buf_inv_def group_ok_def list_rep_def)
  moreover have "unat (of_nat k :: u8) = k" using assms(2) by (simp add: unat_of_nat)
  ultimately show ?thesis
    using assms existed_loop_chain by (simp add: ev_buf_isExisted_def buf_inv_def)
qed

lemma mem_sizeof_val: "k < 4 \<Longrightarrow> unat (mem_sizeof k) = grp_size k * grp_num k"
  using lt4_cases [of k]
  by (auto simp: mem_sizeof_def MEMPOOL_ITEMSIZE_2_BLOCKSIZE_def BUFFER_GROUP_def BUFFER_NUM_IN_GROUP_def)

lemma in_mem_iff:
  assumes "layout_ok L" "k < 4"
  shows "in_mem L k a \<longleftrightarrow> unat (pool_mem L ! k) \<le> unat a \<and>
           unat a \<le> unat (pool_mem L ! k) + grp_size k * grp_num k"
proof -
  have "unat (pool_mem L ! k + mem_sizeof k) = unat (pool_mem L ! k) + grp_size k * grp_num k"
    using layout_okD(2) [OF assms(1,2,2)] mem_sizeof_val [OF assms(2)] by (subst unat_add_no_wrap) simp_all
  then show ?thesis by (simp add: in_mem_def word_le_nat_alt)
qed

lemma payload_in_mem:
  assumes L: "layout_ok L" and k: "k < 4" and b: "b \<in> set (blocks L k)"
  shows "in_mem L k (b + 8)"
proof -
  obtain i where i: "i < grp_num k" "unat b = unat (pool_mem L ! k) + i * grp_size k"
    using block_region [OF L k b] by blast
  have le: "i * grp_size k + grp_size k \<le> grp_size k * grp_num k"
    using i(1) by (metis Suc_leI add.commute mult.commute mult_Suc mult_le_mono1)
  then have "unat b + 8 < 2 ^ 32" using i(2) layout_okD(2) [OF L k k] grp_size_facts(1) [OF k] by linarith
  then have "unat (b + 8) = unat b + 8" using unat_add_no_wrap [of b 8] by simp
  then show ?thesis using i le grp_size_facts(1) [OF k] by (simp add: in_mem_iff [OF L k])
qed

lemma payload_is_ev_buf: "layout_ok L \<Longrightarrow> k < 4 \<Longrightarrow> b \<in> set (blocks L k) \<Longrightarrow> is_ev_buf L (b + 8)"
  using payload_in_mem [of L k b] lt4_cases [of k] by (auto simp: is_ev_buf_def)

lemma payload_header [simp]:
  "ev_buf_getHead (b + 8) = b" "ev_buf_retrieveMempoolHeader (b + 8) = b + 4"
  by (simp_all add: ev_buf_getHead_def ev_buf_retrieveMempoolHeader_def EV_ITEM_DATA_def MEM_BLOCK_DATA_def)

text \<open>The state after putting block \<open>b\<close> back on the free list of group \<open>k\<close>.\<close>

definition give_block :: "ev_layout \<Rightarrow> nat \<Rightarrow> addr \<Rightarrow> 'a ev_state_scheme \<Rightarrow> 'a ev_state_scheme" where
  "give_block L k b s =
     s\<lparr>mem := mempool_free (pool_var L ! k) (b + 4) (mem s),
       bufGroups := (bufGroups s)[k := (bufGroups s ! k)\<lparr>availBufNum := availBufNum (bufGroups s ! k) + 1\<rparr>]\<rparr>"

lemma ev_buf_free_allocated:
  assumes L: "layout_ok L" and inv: "buf_inv L fr s" and k: "k < 4"
    and b: "b \<in> set (blocks L k)" "b \<notin> set (fr k)"
  shows "ev_buf_free L (b + 8) s = Some (BUFFER_SUCC, give_block L k b s)"
proof -
  have idx: "mem s (b + 4) = of_nat k" and q: "qHead (bufGroups s ! k) = pool_var L ! k"
    and len: "length (bufGroups s) = 4"
    using inv k b by (auto simp: buf_inv_def group_ok_def)
  have un: "unat (of_nat k :: u32) = k" and uc: "(ucast (of_nat k :: u32) :: u8) = of_nat k"
    using lt4_cases [OF k] by auto
  have "buf_inv L fr (s\<lparr>reg_irq_en := 0\<rparr>)"
    using inv by (simp add: buf_inv_def group_ok_def)
  then have ex: "ev_buf_isExisted (of_nat k) b (s\<lparr>reg_irq_en := 0\<rparr>) = Some False"
    using b(2) by (subst ev_buf_isExisted_inv [OF _ k]) auto
  have "mempool_free (pool_var L ! k) (b + 4) (mem s) (b + 4) = mem s (b + 4)"
    using pool_sep(2) [OF L k k b(1)] by (intro mp.release_frame) auto
  then show ?thesis
    using payload_is_ev_buf [OF L k b(1)] idx un uc ex q len k
    by (simp add: ev_buf_free_def drv_disable_irq_def drv_restore_irq_def give_block_def Let_def)
qed

lemma give_block_inv:
  assumes L: "layout_ok L" and inv: "buf_inv L fr s" and k: "k < 4"
    and b: "b \<in> set (blocks L k)" "b \<notin> set (fr k)"
  shows "buf_inv L (fr(k := b # fr k)) (give_block L k b s)"
proof -
  let ?s = "give_block L k b s"
  have g: "group_ok L fr k s" and len: "length (bufGroups s) = 4" using inv k by (simp_all add: buf_inv_def)
  have mem': "mem ?s = mempool_free (pool_var L ! k) (b + 4) (mem s)" by (simp add: give_block_def)
  have out: "mem ?s a = mem s a" if "a \<noteq> pool_var L ! k" "a \<noteq> b" for a
    unfolding mem' using that by (rule mp.release_frame)
  have fl: "set (fr k) \<subseteq> set (blocks L k)" "unat (availBufNum (bufGroups s ! k)) = length (fr k)"
    using g by (simp_all add: group_ok_def)
  have rep: "list_rep (mem ?s) (pool_var L ! k) (b # fr k)"
    unfolding mem' using g b block_nonnull [OF L k b(1)] pool_sep(1) [OF L k k b(1)]
    by (intro mp.release_rep) (auto simp: group_ok_def)
  have "length (b # fr k) \<le> grp_num k"
  proof -
    have "length (b # fr k) = card (set (b # fr k))" using list_rep_distinct [OF rep] by (simp add: distinct_card)
    also have "\<dots> \<le> card (set (blocks L k))" using fl b by (intro card_mono) auto
    also have "\<dots> \<le> grp_num k" using card_length [of "blocks L k"] by (simp add: pool_blocks_def)
    finally show ?thesis .
  qed
  then have "unat (availBufNum (bufGroups s ! k) + 1) = Suc (length (fr k))"
    using fl(2) grp_size_facts(3) [OF k] by (subst unat_inc_no_wrap) simp_all
  moreover have "mem ?s (c + 4) = of_nat k" if "c \<in> set (blocks L k) - set (b # fr k)" for c
  proof -
    have "c + 4 \<noteq> pool_var L ! k" "c + 4 \<noteq> b"
      using that pool_sep(2) [OF L k k, of c] block_sep(1) [OF L k k b(1), of c] by auto
    then show ?thesis using that g out by (auto simp: group_ok_def)
  qed
  ultimately have "group_ok L (fr(k := b # fr k)) k ?s"
    using g b len k rep by (simp add: group_ok_def give_block_def [of L k b s])
  moreover have "group_ok L (fr(k := b # fr k)) j ?s" if j: "j < 4" "j \<noteq> k" for j
  proof -
    have "group_ok L (fr(k := b # fr k)) j ?s = group_ok L fr j s"
    proof (rule group_ok_cong)
      show "mem ?s (pool_var L ! j) = mem s (pool_var L ! j)"
        using pool_var_inj [OF L j(1) k j(2)] pool_sep(1) [OF L j(1) k b(1)] by (intro out) auto
      fix c assume c: "c \<in> set (blocks L j)"
      have "c \<noteq> b" "c + 4 \<noteq> b"
        using block_sep(2) [OF L j(1) k c b(1) j(2)] block_sep(1) [OF L k j(1) b(1) c] by auto
      then show "mem ?s c = mem s c \<and> mem ?s (c + 4) = mem s (c + 4)"
        using pool_sep [OF L k j(1) c] by (intro conjI out) auto
    qed (use j in \<open>simp_all add: give_block_def\<close>)
    then show ?thesis using inv j by (simp add: buf_inv_def)
  qed
  ultimately show ?thesis using len by (auto simp: buf_inv_def give_block_def)
qed

text \<open>Freeing a block that is already free is reported and changes nothing but the exception record.\<close>

lemma ev_buf_free_duplicate:
  assumes L: "layout_ok L" and inv: "buf_inv L fr s" and k: "k < 4"
    and b: "b \<in> set (fr k)" and idx: "mem s (b + 4) = of_nat k"
  shows "ev_buf_free L (b + 8) s =
           Some (BUFFER_DUPLICATE_FREE,
                 sys_exceptionPost 243 SYS_EXCEPTTION_EV_BUFFER_EXCEPTION_FREE_MULTI s)"
proof -
  have bb: "b \<in> set (blocks L k)" using inv k b by (auto simp: buf_inv_def group_ok_def)
  have uc: "(ucast (of_nat k :: u32) :: u8) = of_nat k" using lt4_cases [OF k] by auto
  have "buf_inv L fr (s\<lparr>reg_irq_en := 0\<rparr>)"
    using inv by (simp add: buf_inv_def group_ok_def)
  then have ex: "ev_buf_isExisted (of_nat k) b (s\<lparr>reg_irq_en := 0\<rparr>) = Some True"
    using b by (subst ev_buf_isExisted_inv [OF _ k]) auto
  then show ?thesis
    using payload_is_ev_buf [OF L k bb] idx uc
    by (simp add: ev_buf_free_def drv_disable_irq_def drv_restore_irq_def Let_def sys_exceptionPost_def)
qed

section \<open>Sizes\<close>

lemma le_max_loop:
  "unat sz \<le> unat (free_max_loop gs acc) \<longleftrightarrow> unat sz \<le> unat acc \<or>
     (\<exists>g\<in>set gs. availBufNum g \<noteq> 0 \<and> unat sz \<le> unat (size g) - 8)"
  if "\<forall>g\<in>set gs. 8 \<le> unat (size g)"
  using that
proof (induction gs arbitrary: acc)
  case Nil
  then show ?case by simp
next
  case (Cons g gs)
  let ?p = "ucast (size g) - EV_ITEM_DATA :: u32"
  have p: "unat ?p = unat (size g) - 8"
    using Cons.prems by (subst unat_sub_no_wrap) (simp_all add: EV_ITEM_DATA_def word_le_nat_alt)
  then have "unat (ucast ?p :: u16) = unat (size g) - 8"
    using unsigned_less [of "size g", where 'a = nat]
    by (simp add: unsigned_ucast_eq take_bit_nat_eq_self)
  with Cons p show ?case by (auto simp: word_less_nat_alt)
qed

lemma bufGroups_size:
  assumes "buf_inv L fr s" "g \<in> set (bufGroups s)"
  shows "\<exists>k<4. g = bufGroups s ! k \<and> unat (size g) = grp_size k \<and> (availBufNum g \<noteq> 0 \<longleftrightarrow> fr k \<noteq> [])"
proof -
  obtain k where k: "k < 4" "g = bufGroups s ! k"
    using assms by (metis buf_inv_def in_set_conv_nth)
  then have "group_ok L fr k s" using assms by (simp add: buf_inv_def)
  then show ?thesis using k grp_size_facts(5) [OF k(1)] by (auto simp: group_ok_def word_neq_0_unat)
qed

lemma le_getFreeMaxSize:
  assumes "buf_inv L fr s" "sz \<noteq> 0"
  shows "sz \<le> ev_buf_getFreeMaxSize s \<longleftrightarrow> (\<exists>k<4. fr k \<noteq> [] \<and> unat sz \<le> grp_size k - 8)"
proof -
  have "\<forall>g\<in>set (bufGroups s). 8 \<le> unat (size g)"
    using bufGroups_size [OF assms(1)] grp_size_facts(1) by fastforce
  note loop = le_max_loop [OF this, of sz 0]
  have "(\<exists>g\<in>set (bufGroups s). availBufNum g \<noteq> 0 \<and> unat sz \<le> unat (size g) - 8) \<longleftrightarrow>
        (\<exists>k<4. fr k \<noteq> [] \<and> unat sz \<le> grp_size k - 8)"
  proof
    assume "\<exists>k<4. fr k \<noteq> [] \<and> unat sz \<le> grp_size k - 8"
    then obtain k where k: "k < 4" "fr k \<noteq> []" "unat sz \<le> grp_size k - 8" by blast
    then have "group_ok L fr k s" "bufGroups s ! k \<in> set (bufGroups s)"
      using assms(1) by (simp_all add: buf_inv_def)
    then show "\<exists>g\<in>set (bufGroups s). availBufNum g \<noteq> 0 \<and> unat sz \<le> unat (size g) - 8"
      using k grp_size_facts(5) [OF k(1)] by (intro bexI [of _ "bufGroups s ! k"]) (auto simp: group_ok_def)
  qed (metis bufGroups_size [OF assms(1)])
  then show ?thesis
    using loop assms(2) by (simp add: ev_buf_getFreeMaxSize_def word_le_nat_alt word_neq_0_unat)
qed

lemma fit_group_None: "fit_group fr sz = None \<longleftrightarrow> \<not> (\<exists>k<4. fr k \<noteq> [] \<and> unat sz \<le> grp_size k - 8)"
  by (auto simp: fit_group_def find_None_iff)

lemma in_mem_payload_unique:
  assumes L: "layout_ok L" and j: "j < 4" and k: "k < 4" and b: "b \<in> set (blocks L k)"
    and "in_mem L j (b + 8)"
  shows "j = k"
proof (rule ccontr)
  assume "j \<noteq> k"
  obtain i where i: "i < grp_num k" "unat b = unat (pool_mem L ! k) + i * grp_size k"
    using block_region [OF L k b] by blast
  have le: "i * grp_size k + grp_size k \<le> grp_size k * grp_num k"
    using i(1) by (metis Suc_leI add.commute mult.commute mult_Suc mult_le_mono1)
  then have "unat b + 8 < 2 ^ 32" using i(2) layout_okD(2) [OF L k k] grp_size_facts(1) [OF k] by linarith
  then have u: "unat (b + 8) = unat b + 8" using unat_add_no_wrap [of b 8] by simp
  have jj: "unat (pool_mem L ! j) \<le> unat b + 8" "unat b + 8 \<le> unat (pool_mem L ! j) + grp_size j * grp_num j"
    using assms(5) u by (simp_all add: in_mem_iff [OF L j])
  let ?a = "max (unat b) (unat (pool_mem L ! j))"
  have pos: "0 < grp_size j * grp_num j" using grp_size_facts(1) [OF j] grp_num_pos [OF j] by simp
  have "?a \<in> region L k" using i le jj grp_size_facts(1) [OF k] by (auto simp: region_def max_def)
  moreover have "?a \<in> region L j" using jj pos by (auto simp: region_def max_def)
  ultimately show False using layout_okD(5) [OF L j k \<open>j \<noteq> k\<close>] by blast
qed

lemma get_ev_buf_size_payload:
  assumes L: "layout_ok L" and k: "k < 4" and b: "b \<in> set (blocks L k)"
  shows "unat (get_ev_buf_size L (b + 8)) = grp_size k - 8"
proof -
  have "in_mem L j (b + 8) \<longleftrightarrow> j = k" if "j < 4" for j
    using in_mem_payload_unique [OF L that k b] payload_in_mem [OF L k b] by blast
  then show ?thesis
    using lt4_cases [OF k] by (auto simp: get_ev_buf_size_def BUFFER_GROUP_def EV_ITEM_DATA_def)
qed

section \<open>Runs\<close>

text \<open>
  What the system does to the allocator: requests of any size, releases of a payload pointer whose
  header still names its group (a first or a repeated release), interrupt masking, and client writes
  anywhere but in the pool variables and block headers.
\<close>

inductive buf_run :: "ev_layout \<Rightarrow> 'a ev_state_scheme \<Rightarrow> 'a ev_state_scheme \<Rightarrow> bool" for L s0 where
  start: "buf_run L s0 (ev_buf_init L s0)"
| alloc: "buf_run L s0 s \<Longrightarrow> buf_run L s0 (snd (ev_buf_allocate sz s))"
| free: "buf_run L s0 s \<Longrightarrow> k < 4 \<Longrightarrow> b \<in> set (blocks L k) \<Longrightarrow> mem s (b + 4) = of_nat k \<Longrightarrow>
           ev_buf_free L (b + 8) s = Some (r, s') \<Longrightarrow> buf_run L s0 s'"
| irq: "buf_run L s0 s \<Longrightarrow> buf_run L s0 (drv_restore_irq en s)"
| client: "buf_run L s0 s \<Longrightarrow>
           \<forall>k<4. a \<noteq> pool_var L ! k \<and> (\<forall>b\<in>set (blocks L k). a \<noteq> b \<and> a \<noteq> b + 4) \<Longrightarrow>
           buf_run L s0 (s\<lparr>mem := (mem s)(a := v)\<rparr>)"

lemma buf_inv_write:
  assumes "buf_inv L fr s"
    and "\<forall>k<4. a \<noteq> pool_var L ! k \<and> (\<forall>b\<in>set (blocks L k). a \<noteq> b \<and> a \<noteq> b + 4)"
  shows "buf_inv L fr (s\<lparr>mem := (mem s)(a := v)\<rparr>)"
proof -
  have "group_ok L fr k (s\<lparr>mem := (mem s)(a := v)\<rparr>) = group_ok L fr k s" if "k < 4" for k
    using assms(2) that by (intro group_ok_cong) auto
  then show ?thesis using assms(1) by (simp add: buf_inv_def)
qed

lemma ev_buf_allocate_inv:
  assumes "layout_ok L" "buf_inv L fr s"
  shows "\<exists>fr'. buf_inv L fr' (snd (ev_buf_allocate sz s))"
proof (cases "sz = 0 \<or> sz > MAX_BUFFER_SIZE \<or> fit_group fr sz = None")
  case True
  then show ?thesis using ev_buf_allocate_none [OF assms(2) True] assms(2) by auto
next
  case False
  then obtain k where k: "fit_group fr sz = Some k" by auto
  then have "k < 4" "fr k = hd (fr k) # tl (fr k)" using fit_group_lt [OF k] by auto
  then show ?thesis
    using take_block_inv [OF assms(1,2)] ev_buf_allocate_some [OF assms _ _ k] False by (metis not_le snd_conv)
qed

lemma buf_inv_exception: "buf_inv L fr s \<Longrightarrow> buf_inv L fr (sys_exceptionPost l e s)"
  by (simp add: buf_inv_def group_ok_def sys_exceptionPost_def Let_def)

lemma ev_buf_free_inv:
  assumes "layout_ok L" "buf_inv L fr s" "k < 4" "b \<in> set (blocks L k)" "mem s (b + 4) = of_nat k"
    and "ev_buf_free L (b + 8) s = Some (r, s')"
  shows "\<exists>fr'. buf_inv L fr' s'"
proof (cases "b \<in> set (fr k)")
  case True
  then show ?thesis
    using ev_buf_free_duplicate [OF assms(1,2,3) True assms(5)] assms(6) buf_inv_exception [OF assms(2)] by auto
next
  case False
  then show ?thesis
    using ev_buf_free_allocated [OF assms(1-4) False] give_block_inv [OF assms(1-4) False] assms(6) by auto
qed

section \<open>Properties\<close>

text \<open>A concrete memory map and an initial state, for the instances below.\<close>

definition demo_layout :: ev_layout where
  "demo_layout = \<lparr>pool_var = [0x840000, 0x840004, 0x840008, 0x84000C],
                   pool_mem = [0x841000, 0x841100, 0x841400, 0x842200]\<rparr>"

definition demo_state :: ev_state where
  "demo_state = \<lparr>mem = (\<lambda>_. 0), reg_irq_en = 1, T_evtExcept = [0, 0, 0, 0], g_sysExceptCallback = 0,
                  exc_calls = [], bufGroups = []\<rparr>"

lemma demo_layout_ok: "layout_ok demo_layout"
  by (simp add: layout_ok_def demo_layout_def all_lt4 region_def BUFFER_GROUP_def BUFFER_NUM_IN_GROUP_def
      ivl_disj_un_two(3))

lemma demo_init_inv: "buf_inv demo_layout (blocks demo_layout) (ev_buf_init demo_layout demo_state)"
  by (rule ev_buf_init_inv [OF demo_layout_ok])

lemma demo_fit: "fit_group (blocks demo_layout) 16 = Some 0" "fit_group (blocks demo_layout) 100 = Some 2"
  by (simp_all add: fit_group_def upt_rec BUFFER_GROUP_def BUFFER_NUM_IN_GROUP_def pool_blocks_def)

text \<open>
  C11. The allocator's invariant holds in every reachable state: after initialisation and any sequence of
  requests, releases (repeated ones included), interrupt masking and client writes to payloads, each
  group's table entry counts exactly the blocks of its free list, the four free lists are well-formed
  lists of distinct blocks of their own arrays, and every block in use carries its group index.
\<close>

theorem ev_buf_run_inv:
  assumes "layout_ok L" and "buf_run L s0 s"
  shows "\<exists>fr. buf_inv L fr s"
  using assms(2)
proof (induction rule: buf_run.induct)
  case start
  then show ?case using ev_buf_init_inv [OF assms(1)] by blast
next
  case (alloc s sz)
  then show ?case using ev_buf_allocate_inv [OF assms(1)] by blast
next
  case (free s k b r s')
  then show ?case using ev_buf_free_inv [OF assms(1)] by blast
next
  case (irq s en)
  then show ?case by (auto simp: buf_inv_def group_ok_def drv_restore_irq_def)
next
  case (client s a v)
  then show ?case using buf_inv_write by blast
qed

theorem ev_buf_run_inv_witness:
  "\<exists>fr. buf_inv demo_layout fr (snd (ev_buf_allocate 16 (ev_buf_init demo_layout demo_state)))"
  by (rule ev_buf_run_inv [OF demo_layout_ok buf_run.alloc [OF buf_run.start]])

text \<open>
  The contract of \<^verbatim>\<open>ev_buf_allocate\<close>. A request of size 0, above \<^verbatim>\<open>MAX_BUFFER_SIZE\<close>, or that no
  group with a free block can hold returns null and leaves the whole state as it was. Any other request
  is served from the first such group: it returns the payload of that group's first free block, which
  is large enough, takes exactly that block off the free list, keeps the invariant, restores the
  interrupt enable, posts no exception, and writes only the pool variable and the block's header.
\<close>

theorem ev_buf_allocate_contract:
  assumes "layout_ok L" and "buf_inv L fr s"
  shows "if sz = 0 \<or> sz > MAX_BUFFER_SIZE \<or> fit_group fr sz = None
         then ev_buf_allocate sz s = (NULL, s)
         else \<exists>k b bs s'. fit_group fr sz = Some k \<and> fr k = b # bs \<and>
                ev_buf_allocate sz s = (b + 8, s') \<and> b + 8 \<noteq> NULL \<and> unat sz \<le> grp_size k - 8 \<and>
                buf_inv L (fr(k := bs)) s' \<and> reg_irq_en s' = reg_irq_en s \<and>
                T_evtExcept s' = T_evtExcept s \<and>
                (\<forall>a. a \<noteq> pool_var L ! k \<and> a \<noteq> b + 4 \<longrightarrow> mem s' a = mem s a)"
proof (cases "sz = 0 \<or> sz > MAX_BUFFER_SIZE \<or> fit_group fr sz = None")
  case True
  then show ?thesis using ev_buf_allocate_none [OF assms(2) True] by simp
next
  case False
  then obtain k where k: "fit_group fr sz = Some k" by auto
  then obtain b bs where b: "k < 4" "fr k = b # bs" "unat sz \<le> grp_size k - 8"
    using fit_group_lt [OF k] by (metis list.exhaust)
  let ?s = "take_block L k b s"
  have res: "ev_buf_allocate sz s = (b + 8, ?s)"
    using ev_buf_allocate_some [OF assms _ _ k] False b(2) by (simp add: not_less)
  have "b \<in> set (blocks L k)" using free_block [OF assms(2) b(1)] b(2) by simp
  then have nn: "b + 8 \<noteq> NULL" using block_nonnull [OF assms(1) b(1)] by simp
  have fr: "\<forall>a. a \<noteq> pool_var L ! k \<and> a \<noteq> b + 4 \<longrightarrow> mem ?s a = mem s a"
    using mp.alloc_frame by (simp add: take_block_def)
  have "\<exists>k b bs s'. fit_group fr sz = Some k \<and> fr k = b # bs \<and>
          ev_buf_allocate sz s = (b + 8, s') \<and> b + 8 \<noteq> NULL \<and> unat sz \<le> grp_size k - 8 \<and>
          buf_inv L (fr(k := bs)) s' \<and> reg_irq_en s' = reg_irq_en s \<and> T_evtExcept s' = T_evtExcept s \<and>
          (\<forall>a. a \<noteq> pool_var L ! k \<and> a \<noteq> b + 4 \<longrightarrow> mem s' a = mem s a)"
    using k b res nn fr take_block_inv [OF assms b(1,2)]
    by (intro exI [of _ k] exI [of _ b] exI [of _ bs] exI [of _ ?s]) (simp add: take_block_def)
  then show ?thesis by (simp only: False if_False)
qed

theorem ev_buf_allocate_contract_witness:
  "\<exists>s'. ev_buf_allocate 16 (ev_buf_init demo_layout demo_state) = (0x841008, s') \<and> reg_irq_en s' = 1"
proof -
  let ?s = "ev_buf_init demo_layout demo_state"
  have no: "\<not> ((16::u16) = 0 \<or> 16 > MAX_BUFFER_SIZE \<or> fit_group (blocks demo_layout) 16 = None)"
    using demo_fit by (simp add: MAX_BUFFER_SIZE_def)
  obtain k b bs s' where *: "fit_group (blocks demo_layout) 16 = Some k" "blocks demo_layout k = b # bs"
      "ev_buf_allocate 16 ?s = (b + 8, s')" "reg_irq_en s' = reg_irq_en ?s"
    using ev_buf_allocate_contract [OF demo_layout_ok demo_init_inv, of 16] unfolding if_not_P [OF no]
    by blast
  have "reg_irq_en ?s = 1"
    by (simp add: ev_buf_init_def ev_buf_reset_def DEFAULT_BUFFER_GROUP_NUM_def upt_rec reset_group_def
        Let_def case_prod_beta demo_state_def)
  moreover have "b = 0x841000"
    using *(1,2) demo_fit
    by (simp add: pool_blocks_def upt_rec demo_layout_def BUFFER_GROUP_def BUFFER_NUM_IN_GROUP_def)
  ultimately show ?thesis using * by auto
qed

text \<open>
  The contract of \<^verbatim>\<open>ev_buf_free\<close>. Freeing a buffer in use succeeds, puts its block at the front of
  its group's free list, keeps the invariant and the interrupt enable and posts no exception; freeing
  the same pointer again is answered with \<^verbatim>\<open>BUFFER_DUPLICATE_FREE\<close>, and changes only the exception
  record.
\<close>

theorem ev_buf_free_contract:
  assumes "layout_ok L" and "buf_inv L fr s" and "k < 4" and "b \<in> set (blocks L k)" and "b \<notin> set (fr k)"
  shows "\<exists>s'. ev_buf_free L (b + 8) s = Some (BUFFER_SUCC, s') \<and> buf_inv L (fr(k := b # fr k)) s' \<and>
           reg_irq_en s' = reg_irq_en s \<and> T_evtExcept s' = T_evtExcept s \<and>
           ev_buf_free L (b + 8) s' =
             Some (BUFFER_DUPLICATE_FREE,
                   sys_exceptionPost 243 SYS_EXCEPTTION_EV_BUFFER_EXCEPTION_FREE_MULTI s')"
proof -
  let ?s = "give_block L k b s"
  have inv: "buf_inv L (fr(k := b # fr k)) ?s" by (rule give_block_inv [OF assms])
  have "mem s (b + 4) = of_nat k" using assms(2-) by (auto simp: buf_inv_def group_ok_def)
  moreover have "mem ?s (b + 4) = mem s (b + 4)"
    using mp.release_frame [of "b + 4" "pool_var L ! k" b] pool_sep(2) [OF assms(1,3,3,4)]
    by (simp add: give_block_def) 
  ultimately show ?thesis
    using ev_buf_free_allocated [OF assms] inv ev_buf_free_duplicate [OF assms(1) inv assms(3), of b]
    by (intro exI [of _ ?s]) (simp add: give_block_def)
qed

theorem ev_buf_free_contract_witness:
  "\<exists>s s'. s = snd (ev_buf_allocate 16 (ev_buf_init demo_layout demo_state)) \<and>
     ev_buf_free demo_layout 0x841008 s = Some (BUFFER_SUCC, s')"
proof -
  let ?fr = "(blocks demo_layout)(0 := tl (blocks demo_layout 0))"
  have b: "blocks demo_layout 0 = 0x841000 # tl (blocks demo_layout 0)" "0x841000 \<notin> set (tl (blocks demo_layout 0))"
    by (simp_all add: pool_blocks_def upt_rec demo_layout_def BUFFER_GROUP_def BUFFER_NUM_IN_GROUP_def)
  have "snd (ev_buf_allocate 16 (ev_buf_init demo_layout demo_state)) =
        take_block demo_layout 0 0x841000 (ev_buf_init demo_layout demo_state)"
    using ev_buf_allocate_some [OF demo_layout_ok demo_init_inv _ _ demo_fit(1)] b(1)
    by (simp add: MAX_BUFFER_SIZE_def) (metis list.sel(1) snd_conv)
  then have "buf_inv demo_layout ?fr (snd (ev_buf_allocate 16 (ev_buf_init demo_layout demo_state)))"
    using take_block_inv [OF demo_layout_ok demo_init_inv _ b(1)] by simp
  moreover have "0x841000 \<in> set (blocks demo_layout 0)" by (subst b(1)) simp
  ultimately show ?thesis
    using ev_buf_free_contract [of demo_layout ?fr _ 0 "0x841000", OF demo_layout_ok] b(2) by auto
qed

text \<open>
  \<^verbatim>\<open>ev_buf_getFreeMaxSize\<close> reports exactly what can be allocated: a non-zero request succeeds if and
  only if it is at most the reported size.
\<close>

theorem ev_buf_getFreeMaxSize_exact:
  assumes "layout_ok L" and "buf_inv L fr s" and "sz \<noteq> 0"
  shows "fst (ev_buf_allocate sz s) \<noteq> NULL \<longleftrightarrow> sz \<le> ev_buf_getFreeMaxSize s"
proof (cases "\<exists>k<4. fr k \<noteq> [] \<and> unat sz \<le> grp_size k - 8")
  case False
  then show ?thesis
    using le_getFreeMaxSize [OF assms(2,3)] ev_buf_allocate_none [OF assms(2)] fit_group_None by simp
next
  case True
  then obtain k where k: "fit_group fr sz = Some k" using fit_group_None by (cases "fit_group fr sz") blast+
  note f = fit_group_lt [OF k]
  then have "sz \<le> MAX_BUFFER_SIZE"
    using grp_size_facts(2) [of k] by (auto simp: word_le_nat_alt MAX_BUFFER_SIZE_def)
  then have "fst (ev_buf_allocate sz s) = hd (fr k) + 8"
    using ev_buf_allocate_some [OF assms(1,2,3) _ k] by simp
  moreover have "hd (fr k) \<in> set (blocks L k)"
    using free_block [OF assms(2)] f by simp
  ultimately show ?thesis
    using block_nonnull [OF assms(1), of k "hd (fr k)"] f le_getFreeMaxSize [OF assms(2,3)] True by simp
qed

theorem ev_buf_getFreeMaxSize_exact_witness:
  "fst (ev_buf_allocate 100 (ev_buf_init demo_layout demo_state)) \<noteq> NULL \<longleftrightarrow>
     100 \<le> ev_buf_getFreeMaxSize (ev_buf_init demo_layout demo_state)"
  by (rule ev_buf_getFreeMaxSize_exact [OF demo_layout_ok demo_init_inv]) simp

text \<open>
  \<^verbatim>\<open>long_ev_buf_get\<close> never returns a buffer: it asks for \<^verbatim>\<open>MAX_BUFFER_SIZE\<close> bytes, which the guard of
  \<^verbatim>\<open>ev_buf_allocate\<close> admits, but the largest group's payload is 8 bytes shorter.
\<close>

theorem long_ev_buf_get_null:
  assumes "buf_inv L fr s"
  shows "long_ev_buf_get s = (NULL, s)"
proof -
  have "fit_group fr MAX_BUFFER_SIZE = None"
    using lt4_cases by (fastforce simp: fit_group_None MAX_BUFFER_SIZE_def BUFFER_GROUP_def)
  then show ?thesis unfolding long_ev_buf_get_def by (intro ev_buf_allocate_none [OF assms]) simp
qed

theorem long_ev_buf_get_null_witness:
  "fst (long_ev_buf_get (ev_buf_init demo_layout demo_state)) = NULL"
  by (simp add: long_ev_buf_get_null [OF demo_init_inv])

end
