(* ===== verification/Ev_Queue.thy ===== *)
theory Ev_Queue
  imports Ev_Buffer "HOL-Library.Multiset"
begin

text \<open>
  The queue of event buffers \<^verbatim>\<open>proj/os/ev_queue.c\<close>: a FIFO, or, when a priority function is installed,
  a list ordered by priority in which equal priorities keep their arrival order. Items are linked
  through their first word, so an item in a queue is an event buffer that is in use. The locale
  \<open>item_queue\<close> is the interface the clients see; it is interpreted on the FIFO and on the priority
  discipline of the same functions.
\<close>

section \<open>Data\<close>

text \<open>
  \<open>priFunc\<close> gives the priority of an item, a function of its payload, which no queue operation
  writes; \<open>None\<close> is the null function pointer.
\<close>

record ev_queue_t =
  head :: addr
  tail :: addr
  priFunc :: "(addr \<Rightarrow> u32) option"
  curNum :: u32

datatype ev_queue_sts_t =
  QUEUE_SUCC | QUEUE_INVALID_PARAMETER | QUEUE_EMPTY | QUEUE_NOT_FOUND | QUEUE_OVERFLOW

section \<open>Operations\<close>

text \<open>
  A queue pointer is an option, \<open>None\<close> for null; an outer \<open>None\<close> is a null dereference or a walk that
  does not end.
\<close>

partial_function (option) place_loop ::
  "(addr \<Rightarrow> u32) \<Rightarrow> wmem \<Rightarrow> addr \<Rightarrow> addr \<Rightarrow> addr \<Rightarrow> (addr \<times> addr) option" where
  "place_loop pri m newElement previous current =
     (if current \<noteq> NULL then
        (if pri newElement < pri current then Some (previous, current)
         else place_loop pri m newElement current (m current))
      else Some (previous, current))"

definition ev_queue_rawPush ::
  "ev_queue_t option \<Rightarrow> addr \<Rightarrow> 'a os_state_scheme \<Rightarrow> (ev_queue_sts_t \<times> ev_queue_t option \<times> 'a os_state_scheme) option"
where
  "ev_queue_rawPush qp newElement s =
     (case qp of
        None \<Rightarrow> Some (QUEUE_INVALID_PARAMETER, qp, s)
      | Some q \<Rightarrow>
          if newElement = NULL then Some (QUEUE_INVALID_PARAMETER, qp, s)
          else
            let (r, s1) = drv_disable_irq s in
            if head q = NULL then
              let q1 = q\<lparr>head := newElement, tail := newElement, curNum := curNum q + 1\<rparr>;
                  s2 = s1\<lparr>mem := (mem s1)(newElement := NULL)\<rparr>
              in Some (QUEUE_SUCC, Some q1, drv_restore_irq r s2)
            else
              case priFunc q of
                None \<Rightarrow>
                  let s2 = s1\<lparr>mem := (mem s1)(tail q := newElement, newElement := NULL)\<rparr>;
                      q1 = q\<lparr>tail := newElement, curNum := curNum q + 1\<rparr>
                  in Some (QUEUE_SUCC, Some q1, drv_restore_irq r s2)
              | Some pri \<Rightarrow>
                  (case place_loop pri (mem s1) newElement NULL (head q) of
                     None \<Rightarrow> None
                   | Some (previous, current) \<Rightarrow>
                       let q1 = (if previous = NULL then q\<lparr>head := newElement\<rparr> else q);
                           m1 = (if previous = NULL then mem s1 else (mem s1)(previous := newElement));
                           s2 = s1\<lparr>mem := m1(newElement := current)\<rparr>;
                           q2 = (if current = NULL then q1\<lparr>tail := newElement\<rparr> else q1);
                           q3 = q2\<lparr>curNum := curNum q2 + 1\<rparr>
                       in Some (QUEUE_SUCC, Some q3, drv_restore_irq r s2)))"

definition ev_queue_rawPop ::
  "ev_queue_t option \<Rightarrow> 'a os_state_scheme \<Rightarrow> (addr \<times> ev_queue_t option \<times> 'a os_state_scheme) option"
where
  "ev_queue_rawPop qp s =
     (case qp of
        None \<Rightarrow> None
      | Some q \<Rightarrow>
          let (r, s1) = drv_disable_irq s;
              oldHead = head q;
              q1 = (if oldHead \<noteq> NULL then
                      let qt = (if oldHead = tail q then q\<lparr>tail := NULL\<rparr> else q)
                      in qt\<lparr>head := mem s1 oldHead, curNum := curNum qt - 1\<rparr>
                    else q);
              q2 = (if curNum q1 = 0 then q1\<lparr>tail := NULL, head := NULL\<rparr> else q1)
          in Some (oldHead, Some q2, drv_restore_irq r s1))"

text \<open>\<^verbatim>\<open>while(current != delElement && current)\<close>\<close>

partial_function (option) find_loop :: "wmem \<Rightarrow> addr \<Rightarrow> addr \<Rightarrow> addr \<Rightarrow> (addr \<times> addr) option" where
  "find_loop m delElement previous current =
     (if current \<noteq> delElement \<and> current \<noteq> NULL then find_loop m delElement current (m current)
      else Some (previous, current))"

definition ev_queue_rawDelete ::
  "ev_queue_t option \<Rightarrow> addr \<Rightarrow> 'a os_state_scheme \<Rightarrow> (ev_queue_sts_t \<times> ev_queue_t option \<times> 'a os_state_scheme) option"
where
  "ev_queue_rawDelete qp delElement s =
     (case qp of
        None \<Rightarrow> Some (QUEUE_INVALID_PARAMETER, qp, s)
      | Some q \<Rightarrow>
          if delElement = NULL then Some (QUEUE_INVALID_PARAMETER, qp, s)
          else
            let (r, s1) = drv_disable_irq s in
            if head q = NULL then Some (QUEUE_EMPTY, qp, drv_restore_irq r s1)
            else if head q = delElement then
              let q1 = q\<lparr>head := mem s1 (head q)\<rparr>;
                  q2 = (if head q1 = NULL then q1\<lparr>tail := NULL\<rparr> else q1);
                  q3 = q2\<lparr>curNum := curNum q2 - 1\<rparr>
              in Some (QUEUE_SUCC, Some q3, drv_restore_irq r s1)
            else
              case find_loop (mem s1) delElement NULL (head q) of
                None \<Rightarrow> None
              | Some (previous, current) \<Rightarrow>
                  if current \<noteq> NULL then
                    let s2 = s1\<lparr>mem := (mem s1)(previous := mem s1 current)\<rparr>;
                        q1 = (if mem s2 current = NULL then q\<lparr>tail := previous\<rparr> else q);
                        q2 = q1\<lparr>curNum := curNum q1 - 1\<rparr>
                    in Some (QUEUE_SUCC, Some q2, drv_restore_irq r s2)
                  else Some (QUEUE_NOT_FOUND, qp, drv_restore_irq r s1))"

definition ev_queue_init :: "ev_queue_t option \<Rightarrow> (addr \<Rightarrow> u32) option \<Rightarrow> ev_queue_sts_t \<times> ev_queue_t option" where
  "ev_queue_init qp pri =
     (case qp of
        None \<Rightarrow> (QUEUE_INVALID_PARAMETER, qp)
      | Some q \<Rightarrow>
          let q1 = \<lparr>head = NULL, tail = NULL, priFunc = None, curNum = 0\<rparr>
          in (QUEUE_SUCC, Some (q1\<lparr>priFunc := pri\<rparr>)))"

definition ev_queue_push ::
  "ev_queue_t option \<Rightarrow> addr \<Rightarrow> 'a os_state_scheme \<Rightarrow> (ev_queue_sts_t \<times> ev_queue_t option \<times> 'a os_state_scheme) option"
where
  "ev_queue_push qp payload s = ev_queue_rawPush qp (ev_buf_getHead payload) s"

definition ev_queue_pop ::
  "ev_queue_t option \<Rightarrow> 'a os_state_scheme \<Rightarrow> (addr \<times> ev_queue_t option \<times> 'a os_state_scheme) option"
where
  "ev_queue_pop qp s =
     (case ev_queue_rawPop qp s of
        None \<Rightarrow> None
      | Some (oneItem, qp', s') \<Rightarrow>
          Some (if oneItem = NULL then NULL else oneItem + EV_ITEM_DATA, qp', s'))"

definition ev_queue_delete ::
  "ev_queue_t option \<Rightarrow> addr \<Rightarrow> 'a os_state_scheme \<Rightarrow> (ev_queue_sts_t \<times> ev_queue_t option \<times> 'a os_state_scheme) option"
where
  "ev_queue_delete qp payload s = ev_queue_rawDelete qp (ev_buf_getHead payload) s"

partial_function (option) free_loop ::
  "ev_layout \<Rightarrow> ev_queue_t option \<Rightarrow> 'a ev_state_scheme \<Rightarrow> (ev_queue_t option \<times> 'a ev_state_scheme) option"
where
  "free_loop L qp s =
     (case ev_queue_pop qp s of
        None \<Rightarrow> None
      | Some (buffer_ptr, qp1, s1) \<Rightarrow>
          if buffer_ptr \<noteq> NULL then
            (case ev_buf_free L buffer_ptr s1 of
               None \<Rightarrow> None
             | Some (_, s2) \<Rightarrow> free_loop L qp1 s2)
          else Some (qp1, s1))"

definition ev_queue_freeQ ::
  "ev_layout \<Rightarrow> ev_queue_t option \<Rightarrow> 'a ev_state_scheme \<Rightarrow> (ev_queue_sts_t \<times> ev_queue_t option \<times> 'a ev_state_scheme) option"
where
  "ev_queue_freeQ L qp s =
     (if qp = None then Some (QUEUE_INVALID_PARAMETER, qp, s)
      else map_option (\<lambda>(qp', s'). (QUEUE_SUCC, qp', s')) (free_loop L qp s))"

section \<open>The list a queue holds\<close>

definition queue_rep :: "wmem \<Rightarrow> ev_queue_t \<Rightarrow> addr list \<Rightarrow> bool" where
  "queue_rep m q xs \<longleftrightarrow> chain m (head q) xs \<and> tail q = (if xs = [] then NULL else last xs) \<and>
     unat (curNum q) = length xs"

definition pri_insert :: "(addr \<Rightarrow> u32) \<Rightarrow> addr \<Rightarrow> addr list \<Rightarrow> addr list" where
  "pri_insert pri x xs = takeWhile (\<lambda>y. pri y \<le> pri x) xs @ x # dropWhile (\<lambda>y. pri y \<le> pri x) xs"

definition insertion :: "(addr \<Rightarrow> u32) option \<Rightarrow> addr \<Rightarrow> addr list \<Rightarrow> addr list" where
  "insertion p x xs = (case p of None \<Rightarrow> xs @ [x] | Some pri \<Rightarrow> pri_insert pri x xs)"

lemma mset_insertion: "mset (insertion p x xs) = add_mset x (mset xs)"
proof (cases p)
  case (Some pri)
  have "mset (takeWhile (\<lambda>y. pri y \<le> pri x) xs @ dropWhile (\<lambda>y. pri y \<le> pri x) xs) = mset xs" by simp
  then show ?thesis using Some by (simp add: insertion_def pri_insert_def del: takeWhile_dropWhile_id)
qed (simp add: insertion_def)

lemma insertion_nil [simp]: "insertion p x [] = [x]"
  by (cases p) (simp_all add: insertion_def pri_insert_def)

lemma place_loop_chain:
  "chain m cur ys \<Longrightarrow> place_loop pri m x prev cur =
     Some (last (prev # takeWhile (\<lambda>y. pri y \<le> pri x) ys), hd (dropWhile (\<lambda>y. pri y \<le> pri x) ys @ [NULL]))"
proof (induction ys arbitrary: prev cur)
  case Nil
  then show ?case by (simp add: place_loop.simps)
next
  case (Cons y ys)
  then have "cur = y" "y \<noteq> NULL" and c: "chain m (m y) ys" by auto
  then show ?case using Cons.IH [OF c] by (auto simp: place_loop.simps [of pri m x prev y] not_less)
qed

lemma seg_head: "seg m p as r \<Longrightarrow> chain m r bs \<Longrightarrow> r = hd (bs @ [NULL])"
  by (cases bs) auto

lemma pri_splice:
  assumes "chain m p xs" "x \<noteq> NULL" "x \<notin> set xs" "xs = as @ bs"
  shows "as = [] \<Longrightarrow> chain (m(x := hd (bs @ [NULL]))) x (as @ x # bs)"
    and "as \<noteq> [] \<Longrightarrow> chain (m(last as := x, x := hd (bs @ [NULL]))) p (as @ x # bs)"
proof -
  from assms(1,4) obtain r where r: "seg m p as r" "chain m r bs" by (auto simp: seg_append)
  have rr: "r = hd (bs @ [NULL])" by (rule seg_head [OF r])
  show "as = [] \<Longrightarrow> chain (m(x := hd (bs @ [NULL]))) x (as @ x # bs)"
    using r rr assms by simp
  show "as \<noteq> [] \<Longrightarrow> chain (m(last as := x, x := hd (bs @ [NULL]))) p (as @ x # bs)"
    using chain_splice [of m p as bs x r] r(1) rr assms by simp
qed

text \<open>
  Pushing a non-null item that is not in the queue: it is inserted where the discipline puts it, and
  only the item and, unless it goes to the front, the item before it are written.
\<close>

lemma fifo_push:
  assumes q: "queue_rep (mem s) q xs" and x: "x \<noteq> NULL" "x \<notin> set xs" and n: "Suc (length xs) < 2 ^ 32"
    and p: "priFunc q = None \<or> xs = []"
  shows "\<exists>q' s'. ev_queue_rawPush (Some q) x s = Some (QUEUE_SUCC, Some q', s') \<and> s'\<lparr>mem := mem s\<rparr> = s \<and>
           queue_rep (mem s') q' (insertion (priFunc q) x xs) \<and> priFunc q' = priFunc q \<and>
           (\<forall>a. a \<noteq> x \<and> a \<notin> set xs \<longrightarrow> mem s' a = mem s a)"
proof (cases xs rule: rev_cases)
  case Nil
  then have "head q = NULL" "curNum q = 0" using q by (simp_all add: queue_rep_def unat_eq_zero)
  then show ?thesis
    using x Nil
    by (simp add: ev_queue_rawPush_def queue_rep_def drv_disable_irq_def drv_restore_irq_def)
next
  case (snoc ys l)
  then have c: "chain (mem s) (head q) (ys @ [l])" "tail q = l" "unat (curNum q) = length xs"
    using q by (simp_all add: queue_rep_def)
  have d: "distinct (ys @ [l])" by (rule chain_distinct [OF c(1)])
  have h: "head q \<noteq> NULL" using c(1) by (cases ys) auto
  have "seg ((mem s)(l := x)) (head q) (ys @ [l]) x"
    using c(1) d x snoc by (intro seg_snoc_upd) auto
  then have "chain ((mem s)(l := x, x := NULL)) (head q) (xs @ [x])"
    using x snoc by (auto simp: seg_append)
  moreover have "unat (curNum q + 1) = Suc (length xs)" using c(3) n by (subst unat_inc_no_wrap) simp_all
  ultimately show ?thesis
    using c h x p snoc
    by (auto simp: ev_queue_rawPush_def queue_rep_def drv_disable_irq_def drv_restore_irq_def insertion_def Let_def)
qed

lemma pri_push:
  assumes q: "queue_rep (mem s) q xs" and x: "x \<noteq> NULL" "x \<notin> set xs" and n: "Suc (length xs) < 2 ^ 32"
    and p: "priFunc q = Some pri" and ne: "xs \<noteq> []"
  shows "\<exists>q' s'. ev_queue_rawPush (Some q) x s = Some (QUEUE_SUCC, Some q', s') \<and> s'\<lparr>mem := mem s\<rparr> = s \<and>
           queue_rep (mem s') q' (insertion (priFunc q) x xs) \<and> priFunc q' = priFunc q \<and>
           (\<forall>a. a \<noteq> x \<and> a \<notin> set xs \<longrightarrow> mem s' a = mem s a)"
proof -
  let ?P = "\<lambda>y. pri y \<le> pri x"
  define as bs where ab: "as = takeWhile ?P xs" "bs = dropWhile ?P xs"
  let ?cur = "hd (bs @ [NULL])"
  have xs: "xs = as @ bs" by (simp add: ab)
  have c: "chain (mem s) (head q) xs" "tail q = last xs" "unat (curNum q) = length xs"
    using q ne by (simp_all add: queue_rep_def)
  have nn: "NULL \<notin> set xs" by (rule seg_nonnull [OF c(1)])
  have h: "head q \<noteq> NULL" using c(1) ne by (cases xs) auto
  have cnt: "unat (curNum q + 1) = Suc (length xs)" using c(3) n by (subst unat_inc_no_wrap) simp_all
  have loop: "place_loop pri (mem s) x NULL (head q) = Some (last (NULL # as), ?cur)"
    using place_loop_chain [OF c(1)] by (simp add: ab)
  have cur: "?cur = NULL \<longleftrightarrow> bs = []" using nn xs by (cases bs) auto
  have prev: "last (NULL # as) = NULL \<longleftrightarrow> as = []" using nn xs by (metis UnCI last.simps last_in_set set_append)
  have ins: "insertion (priFunc q) x xs = as @ x # bs" using p by (simp add: insertion_def pri_insert_def ab)
  note sp = pri_splice [OF c(1) x xs]
  show ?thesis
  proof (cases "as = []")
    case True
    then show ?thesis
      using h x p loop cur ins sp(1) cnt c xs ne
      by (auto simp: ev_queue_rawPush_def queue_rep_def drv_disable_irq_def drv_restore_irq_def Let_def)
  next
    case False
    then show ?thesis
      using h x p loop cur prev ins sp(2) cnt c xs last_in_set [OF False]
      by (auto simp: ev_queue_rawPush_def queue_rep_def drv_disable_irq_def drv_restore_irq_def Let_def)
  qed
qed

lemma ev_queue_rawPush_rep:
  assumes "queue_rep (mem s) q xs" "x \<noteq> NULL" "x \<notin> set xs" "Suc (length xs) < 2 ^ 32"
  shows "\<exists>q' s'. ev_queue_rawPush (Some q) x s = Some (QUEUE_SUCC, Some q', s') \<and> s'\<lparr>mem := mem s\<rparr> = s \<and>
           queue_rep (mem s') q' (insertion (priFunc q) x xs) \<and> priFunc q' = priFunc q \<and>
           (\<forall>a. a \<noteq> x \<and> a \<notin> set xs \<longrightarrow> mem s' a = mem s a)"
  using fifo_push [OF assms] pri_push [OF assms] by (cases "priFunc q"; cases "xs = []") auto

lemma ev_queue_rawPop_empty:
  assumes "queue_rep (mem s) q []"
  shows "ev_queue_rawPop (Some q) s = Some (NULL, Some q, s)"
proof -
  have "head q = NULL" "tail q = NULL" "curNum q = 0" using assms by (simp_all add: queue_rep_def unat_eq_zero)
  then have "q\<lparr>tail := NULL, head := NULL\<rparr> = q" by simp
  then show ?thesis
    using \<open>head q = NULL\<close> \<open>curNum q = 0\<close>
    by (simp add: ev_queue_rawPop_def drv_disable_irq_def drv_restore_irq_def Let_def)
qed

lemma ev_queue_rawPop_cons:
  assumes "queue_rep (mem s) q (x # xs)"
  shows "\<exists>q'. ev_queue_rawPop (Some q) s = Some (x, Some q', s) \<and> queue_rep (mem s) q' xs \<and> priFunc q' = priFunc q"
proof -
  have h: "head q = x" "x \<noteq> NULL" and c: "chain (mem s) (mem s x) xs"
    and t: "tail q = last (x # xs)" and n: "unat (curNum q) = Suc (length xs)"
    using assms by (auto simp: queue_rep_def)
  have x: "x \<notin> set xs" by (rule chain_head_notin_tail [OF c])
  have nz: "curNum q \<noteq> 0" using n by auto
  have dec: "unat (curNum q - 1) = length xs" using unat_dec [OF nz] n by simp
  then have z: "curNum q - 1 = 0 \<longleftrightarrow> xs = []" by (metis length_0_conv unat_0_iff)
  show ?thesis
  proof (cases "xs = []")
    case True
    then show ?thesis using h t z c
      by (simp add: ev_queue_rawPop_def drv_disable_irq_def drv_restore_irq_def Let_def queue_rep_def)
  next
    case False
    then have "tail q \<noteq> x" using t x last_in_set [OF False] by auto
    with False show ?thesis using h t z c dec
      by (auto simp: ev_queue_rawPop_def drv_disable_irq_def drv_restore_irq_def Let_def queue_rep_def)
  qed
qed

lemma find_loop_present:
  "chain m cur (as @ x # bs) \<Longrightarrow> x \<notin> set as \<Longrightarrow> find_loop m x prev cur = Some (last (prev # as), x)"
proof (induction as arbitrary: prev cur)
  case Nil
  then show ?case by (simp add: find_loop.simps)
next
  case (Cons a as)
  then have "cur = a" "a \<noteq> NULL" "a \<noteq> x" and c: "chain m (m a) (as @ x # bs)" by auto
  then show ?case using Cons.IH [OF c] Cons.prems(2) by (simp add: find_loop.simps [of m x prev a])
qed

lemma find_loop_absent:
  "chain m cur as \<Longrightarrow> x \<notin> set as \<Longrightarrow> \<exists>p. find_loop m x prev cur = Some (p, NULL)"
proof (induction as arbitrary: prev cur)
  case Nil
  then show ?case by (simp add: find_loop.simps)
next
  case (Cons a as)
  then have "cur = a" "a \<noteq> NULL" "a \<noteq> x" and c: "chain m (m a) as" by auto
  then show ?case using Cons.IH [OF c] Cons.prems(2) by (simp add: find_loop.simps [of m x prev a])
qed

lemma ev_queue_rawDelete_present:
  assumes q: "queue_rep (mem s) q xs" and x: "x \<in> set xs"
  shows "\<exists>q' s'. ev_queue_rawDelete (Some q) x s = Some (QUEUE_SUCC, Some q', s') \<and> s'\<lparr>mem := mem s\<rparr> = s \<and>
           queue_rep (mem s') q' (remove1 x xs) \<and> priFunc q' = priFunc q \<and> (\<forall>a. a \<notin> set xs \<longrightarrow> mem s' a = mem s a)"
proof -
  obtain as bs where xs: "xs = as @ x # bs" "x \<notin> set as" using x by (meson split_list_first)
  have c: "chain (mem s) (head q) (as @ x # bs)" and t: "tail q = last (x # bs)"
    and n: "unat (curNum q) = Suc (length as + length bs)"
    using q xs by (auto simp: queue_rep_def)
  have nz: "curNum q \<noteq> 0" using n by auto
  have dec: "unat (curNum q - 1) = length as + length bs" using unat_dec [OF nz] n by simp
  have rm: "remove1 x xs = as @ bs" using xs by (simp add: remove1_append_mid)
  have nn: "NULL \<notin> set (as @ x # bs)" by (rule seg_nonnull [OF c])
  have d: "distinct (as @ x # bs)" by (rule chain_distinct [OF c])
  have nx: "mem s x = NULL \<longleftrightarrow> bs = []" using c by (auto simp: seg_append)
  show ?thesis
  proof (cases as rule: rev_cases)
    case Nil
    then have "ev_queue_rawDelete (Some q) x s = Some (QUEUE_SUCC,
        Some ((if bs = [] then q\<lparr>head := mem s x, tail := NULL\<rparr> else q\<lparr>head := mem s x\<rparr>)\<lparr>curNum := curNum q - 1\<rparr>),
s)"
      using c nn nx by (simp add: ev_queue_rawDelete_def drv_disable_irq_def drv_restore_irq_def Let_def)
    then show ?thesis using Nil c t dec rm nx by (auto simp: queue_rep_def)
  next
    case (snoc zs l)
    have h: "head q \<noteq> NULL" "head q \<noteq> x" using c snoc nn d by (cases zs; auto)+
    have l: "last (NULL # as) = l" "l \<noteq> x" using snoc d by auto
    have ch: "chain ((mem s)(l := mem s x)) (head q) (as @ bs)"
      using chain_unlink [of "mem s" "head q" zs l x bs] c snoc by simp
    show ?thesis
      using h l nn nx ch rm t dec snoc xs(2) find_loop_present [OF c xs(2), of NULL]
      by (auto simp: ev_queue_rawDelete_def drv_disable_irq_def drv_restore_irq_def Let_def queue_rep_def xs(1))
  qed
qed

lemma ev_queue_rawDelete_absent:
  assumes q: "queue_rep (mem s) q xs" and x: "x \<noteq> NULL" "x \<notin> set xs"
  shows "ev_queue_rawDelete (Some q) x s =
           Some (if xs = [] then QUEUE_EMPTY else QUEUE_NOT_FOUND, Some q, s)"
proof (cases xs)
  case Nil
  then show ?thesis using q x
    by (simp add: ev_queue_rawDelete_def queue_rep_def drv_disable_irq_def drv_restore_irq_def)
next
  case (Cons y ys)
  then have c: "chain (mem s) (head q) xs" and h: "head q = y" "y \<noteq> NULL" "y \<noteq> x"
    using q x by (auto simp: queue_rep_def)
  obtain p where "find_loop (mem s) x NULL y = Some (p, NULL)"
    using find_loop_absent [OF c x(2)] h by auto
  then show ?thesis using x h Cons
    by (simp add: ev_queue_rawDelete_def drv_disable_irq_def drv_restore_irq_def Let_def)
qed

section \<open>The queue interface\<close>

text \<open>
  \<open>ins\<close> is the discipline: where a new item goes. The laws are those of \<^verbatim>\<open>ev_queue_rawPush\<close> and
  \<^verbatim>\<open>ev_queue_rawPop\<close>; the client's lemma is what comes out after a series of pushes.
\<close>

primrec push_all :: "(addr \<Rightarrow> 's \<Rightarrow> 's option) \<Rightarrow> addr list \<Rightarrow> 's \<Rightarrow> 's option" where
  "push_all push [] s = Some s"
| "push_all push (x # xs) s = (case push x s of None \<Rightarrow> None | Some s' \<Rightarrow> push_all push xs s')"

primrec pop_n :: "('s \<Rightarrow> (addr \<times> 's) option) \<Rightarrow> nat \<Rightarrow> 's \<Rightarrow> (addr list \<times> 's) option" where
  "pop_n pop 0 s = Some ([], s)"
| "pop_n pop (Suc n) s =
     (case pop s of None \<Rightarrow> None
      | Some (x, s') \<Rightarrow> (case pop_n pop n s' of None \<Rightarrow> None | Some (xs, s'') \<Rightarrow> Some (x # xs, s'')))"

locale item_queue =
  fixes push :: "addr \<Rightarrow> 's \<Rightarrow> 's option"
    and pop :: "'s \<Rightarrow> (addr \<times> 's) option"
    and rep :: "'s \<Rightarrow> addr list \<Rightarrow> bool"
    and ins :: "addr \<Rightarrow> addr list \<Rightarrow> addr list"
  assumes push_rep: "rep s xs \<Longrightarrow> x \<noteq> NULL \<Longrightarrow> x \<notin> set xs \<Longrightarrow> Suc (length xs) < 2 ^ 32 \<Longrightarrow>
                       \<exists>s'. push x s = Some s' \<and> rep s' (ins x xs)"
    and pop_rep: "rep s (x # xs) \<Longrightarrow> \<exists>s'. pop s = Some (x, s') \<and> rep s' xs"
    and pop_empty: "rep s [] \<Longrightarrow> \<exists>s'. pop s = Some (NULL, s') \<and> rep s' []"
    and ins_mset: "mset (ins x xs) = add_mset x (mset xs)"
begin

lemma ins_facts: "set (ins x xs) = insert x (set xs)" "length (ins x xs) = Suc (length xs)"
  using ins_mset [of x xs] by (metis set_mset_add_mset_insert set_mset_mset, metis size_add_mset size_mset)

lemma push_all_rep:
  assumes "rep s ys" "distinct xs" "NULL \<notin> set xs" "set xs \<inter> set ys = {}" "length xs + length ys < 2 ^ 32"
  shows "\<exists>s'. push_all push xs s = Some s' \<and> rep s' (fold ins xs ys)"
  using assms
proof (induction xs arbitrary: s ys)
  case Nil
  then show ?case by simp
next
  case (Cons x xs)
  then obtain s1 where s1: "push x s = Some s1" "rep s1 (ins x ys)"
    using push_rep [of s ys x] by auto
  have "\<exists>s'. push_all push xs s1 = Some s' \<and> rep s' (fold ins xs (ins x ys))"
    using Cons.prems by (intro Cons.IH [OF s1(2)]) (auto simp: ins_facts)
  then show ?case using s1 by simp
qed

lemma pop_n_rep: "rep s xs \<Longrightarrow> \<exists>s'. pop_n pop (length xs) s = Some (xs, s') \<and> rep s' []"
proof (induction xs arbitrary: s)
  case Nil
  then show ?case by simp
next
  case (Cons x xs)
  then obtain s1 where "pop s = Some (x, s1)" "rep s1 xs" using pop_rep by blast
  then show ?case using Cons.IH by fastforce
qed

lemma drain:
  assumes "rep s []" "distinct xs" "NULL \<notin> set xs" "length xs < 2 ^ 32"
  shows "\<exists>s' s''. push_all push xs s = Some s' \<and> pop_n pop (length xs) s' = Some (fold ins xs [], s'') \<and> rep s'' []"
proof -
  obtain s' where s': "push_all push xs s = Some s'" "rep s' (fold ins xs [])"
    using push_all_rep [OF assms(1-3)] assms(4) by auto
  moreover have "length (fold ins xs ys) = length xs + length ys" for ys
    by (induction xs arbitrary: ys) (simp_all add: ins_facts)
  ultimately show ?thesis using pop_n_rep [OF s'(2)] by fastforce
qed

end

text \<open>The queue with its memory, as one state; a status other than success is a failed push.\<close>

definition q_push :: "addr \<Rightarrow> ev_queue_t \<times> 'a os_state_scheme \<Rightarrow> (ev_queue_t \<times> 'a os_state_scheme) option" where
  "q_push x qs =
     (case ev_queue_rawPush (Some (fst qs)) x (snd qs) of
        Some (QUEUE_SUCC, Some q', s') \<Rightarrow> Some (q', s') | _ \<Rightarrow> None)"

definition q_pop :: "ev_queue_t \<times> 'a os_state_scheme \<Rightarrow> (addr \<times> ev_queue_t \<times> 'a os_state_scheme) option" where
  "q_pop qs =
     (case ev_queue_rawPop (Some (fst qs)) (snd qs) of
        Some (x, Some q', s') \<Rightarrow> Some (x, q', s') | _ \<Rightarrow> None)"

definition q_rep :: "(addr \<Rightarrow> u32) option \<Rightarrow> ev_queue_t \<times> 'a os_state_scheme \<Rightarrow> addr list \<Rightarrow> bool" where
  "q_rep p qs xs \<longleftrightarrow> queue_rep (mem (snd qs)) (fst qs) xs \<and> priFunc (fst qs) = p"

interpretation evq: item_queue q_push q_pop "q_rep p" "insertion p" for p
proof unfold_locales
  fix s :: "ev_queue_t \<times> 'a os_state_scheme" and xs x
  assume r: "q_rep p s xs" and x: "x \<noteq> NULL" "x \<notin> set xs" "Suc (length xs) < 2 ^ 32"
  show "\<exists>s'. q_push x s = Some s' \<and> q_rep p s' (insertion p x xs)"
    using ev_queue_rawPush_rep [of "snd s" "fst s" xs x] r x by (auto simp: q_push_def q_rep_def)
next
  fix s :: "ev_queue_t \<times> 'a os_state_scheme" and xs x
  assume "q_rep p s (x # xs)"
  then show "\<exists>s'. q_pop s = Some (x, s') \<and> q_rep p s' xs"
    using ev_queue_rawPop_cons [of "snd s" "fst s" x xs] by (auto simp: q_pop_def q_rep_def)
next
  fix s :: "ev_queue_t \<times> 'a os_state_scheme"
  assume "q_rep p s []"
  then show "\<exists>s'. q_pop s = Some (NULL, s') \<and> q_rep p s' []"
    using ev_queue_rawPop_empty [of "snd s" "fst s"] by (auto simp: q_pop_def q_rep_def)
qed (rule mset_insertion)

text \<open>What the two disciplines make of a series of pushes.\<close>

lemma fold_fifo: "fold (insertion None) xs ys = ys @ xs"
  by (induction xs arbitrary: ys) (simp_all add: insertion_def)

lemma pri_insert_simps:
  "pri_insert pri x [] = [x]"
  "pri_insert pri x (y # ys) = (if pri y \<le> pri x then y # pri_insert pri x ys else x # y # ys)"
  by (simp_all add: pri_insert_def)

lemma set_pri_insert: "set (pri_insert pri x xs) = insert x (set xs)"
  by (induction xs) (auto simp: pri_insert_simps)

lemma pri_insert_sorted: "sorted (map pri xs) \<Longrightarrow> sorted (map pri (pri_insert pri x xs))"
  by (induction xs) (auto simp: pri_insert_simps set_pri_insert)

lemma pri_insert_stable:
  "sorted (map pri xs) \<Longrightarrow>
     filter (\<lambda>y. pri y = k) (pri_insert pri x xs) = filter (\<lambda>y. pri y = k) (xs @ [x])"
proof (induction xs)
  case Nil
  then show ?case by (simp add: pri_insert_simps)
next
  case (Cons a xs)
  show ?case
  proof (cases "pri a \<le> pri x")
    case False
    then have "\<forall>y\<in>set (a # xs). pri y \<noteq> pri x" using Cons.prems by auto
    then have "filter (\<lambda>y. pri y = pri x) (a # xs) = []" by (simp add: filter_empty_conv)
    then show ?thesis using False by (auto simp: pri_insert_simps)
  qed (use Cons in \<open>simp add: pri_insert_simps\<close>)
qed

lemma fold_pri:
  "sorted (map pri ys) \<Longrightarrow> sorted (map pri (fold (insertion (Some pri)) xs ys)) \<and>
     mset (fold (insertion (Some pri)) xs ys) = mset ys + mset xs \<and>
     filter (\<lambda>y. pri y = k) (fold (insertion (Some pri)) xs ys) = filter (\<lambda>y. pri y = k) (ys @ xs)"
proof (induction xs arbitrary: ys)
  case Nil
  then show ?case by simp
next
  case (Cons x xs)
  have i: "insertion (Some pri) x ys = pri_insert pri x ys" by (simp add: insertion_def)
  show ?case
    using Cons.IH [of "pri_insert pri x ys"] pri_insert_sorted [OF Cons.prems, of x]
      pri_insert_stable [OF Cons.prems, of k x] mset_insertion [of "Some pri" x ys]
    by (simp add: i)
qed

lemma fold_pri_sort: "fold (insertion (Some pri)) xs [] = sort_key pri xs"
proof (rule sym, rule properties_for_sort_key)
  show "mset (fold (insertion (Some pri)) xs []) = mset xs" using fold_pri [of pri "[]"] by simp
  show "sorted (map pri (fold (insertion (Some pri)) xs []))" using fold_pri [of pri "[]"] by simp
  fix k
  have "(\<lambda>x. pri k = pri x) = (\<lambda>y. pri y = pri k)" by auto
  then show "filter (\<lambda>x. pri k = pri x) (fold (insertion (Some pri)) xs []) = filter (\<lambda>x. pri k = pri x) xs"
    using fold_pri [of pri "[]" xs "pri k"] by simp
qed

section \<open>Freeing a queue\<close>

text \<open>An item in use: a block of some group that is not on its free list.\<close>

definition in_use :: "ev_layout \<Rightarrow> (nat \<Rightarrow> addr list) \<Rightarrow> addr \<Rightarrow> bool" where
  "in_use L fr x \<longleftrightarrow> (\<exists>k<4. x \<in> set (blocks L k) \<and> x \<notin> set (fr k))"

text \<open>The link word of a buffer in use belongs to its owner.\<close>

lemma buf_inv_link:
  assumes L: "layout_ok L" and inv: "buf_inv L fr s" and x: "in_use L fr x"
  shows "buf_inv L fr (s\<lparr>mem := (mem s)(x := v)\<rparr>)"
proof -
  obtain k where k: "k < 4" "x \<in> set (blocks L k)" "x \<notin> set (fr k)" using x by (auto simp: in_use_def)
  have "group_ok L fr j (s\<lparr>mem := (mem s)(x := v)\<rparr>)" if j: "j < 4" for j
  proof -
    have g: "group_ok L fr j s" using inv j by (simp add: buf_inv_def)
    have nf: "x \<notin> set (fr j)" using g k block_sep(2) [OF L j k(1) _ k(2)] by (cases "j = k") (auto simp: group_ok_def)
    have np: "pool_var L ! j \<noteq> x" by (rule pool_sep(1) [OF L j k(1,2)])
    have "list_rep ((mem s)(x := v)) (pool_var L ! j) (fr j) = list_rep (mem s) (pool_var L ! j) (fr j)"
      using nf np by (intro list_rep_cong) auto
    moreover have "b + 4 \<noteq> x" if "b \<in> set (blocks L j)" for b
      using block_sep(1) [OF L k(1) j k(2) that] by auto
    ultimately show ?thesis using g by (auto simp: group_ok_def)
  qed
  then show ?thesis using inv by (simp add: buf_inv_def)
qed

lemma free_loop_all:
  assumes L: "layout_ok L" and "buf_inv L fr s" and "queue_rep (mem s) q xs" and "\<forall>x\<in>set xs. in_use L fr x"
  shows "\<exists>q' s' fr'. free_loop L (Some q) s = Some (Some q', s') \<and> queue_rep (mem s') q' [] \<and>
           buf_inv L fr' s' \<and> reg_irq_en s' = reg_irq_en s \<and>
           (\<forall>k<4. set (fr' k) = set (fr k) \<union> (set xs \<inter> set (blocks L k)))"
  using assms(2-)
proof (induction xs arbitrary: q s fr)
  case Nil
  then show ?case
    using ev_queue_rawPop_empty [OF Nil.prems(2)] by (auto simp: free_loop.simps ev_queue_pop_def)
next
  case (Cons x xs)
  obtain q1 where q1: "ev_queue_rawPop (Some q) s = Some (x, Some q1, s)" "queue_rep (mem s) q1 xs"
    using ev_queue_rawPop_cons [OF Cons.prems(2)] by blast
  obtain k where k: "k < 4" "x \<in> set (blocks L k)" "x \<notin> set (fr k)"
    using Cons.prems(3) by (auto simp: in_use_def)
  let ?s = "give_block L k x s" and ?fr = "fr(k := x # fr k)"
  have free: "ev_buf_free L (x + 8) s = Some (BUFFER_SUCC, ?s)" "buf_inv L ?fr ?s"
    using ev_buf_free_allocated [OF L Cons.prems(1) k] give_block_inv [OF L Cons.prems(1) k] by auto
  have d: "x \<notin> set xs" using chain_distinct [of "mem s" "head q" "x # xs"] Cons.prems(2) by (simp add: queue_rep_def)
  have mem': "mem ?s y = mem s y" if "y \<in> set xs" for y
  proof -
    have "in_use L fr y" using Cons.prems(3) that by simp
    then obtain j where "j < 4" "y \<in> set (blocks L j)" by (auto simp: in_use_def)
    then have "y \<noteq> pool_var L ! k" "y \<noteq> x" using pool_sep(1) [OF L k(1)] that d by auto
    then show ?thesis using mp.release_frame by (simp add: give_block_def)
  qed
  have qr: "queue_rep (mem ?s) q1 xs"
    using q1(2) chain_cong [of xs "mem ?s" "mem s"] mem' by (simp add: queue_rep_def)
  have iu: "\<forall>y\<in>set xs. in_use L ?fr y"
  proof
    fix y assume "y \<in> set xs"
    then obtain j where "j < 4" "y \<in> set (blocks L j)" "y \<notin> set (fr j)" "y \<noteq> x"
      using Cons.prems(3) d by (auto simp: in_use_def)
    then show "in_use L ?fr y" by (auto simp: in_use_def intro!: exI [of _ j])
  qed
  obtain q' s' fr' where r: "free_loop L (Some q1) ?s = Some (Some q', s')" "queue_rep (mem s') q' []"
      "buf_inv L fr' s'" "reg_irq_en s' = reg_irq_en ?s"
      "\<forall>j<4. set (fr' j) = set (?fr j) \<union> (set xs \<inter> set (blocks L j))"
    using Cons.IH [OF free(2) qr iu] by blast
  have "x + 8 \<noteq> NULL" "x \<noteq> NULL" using block_nonnull [OF L k(1,2)] by auto
  then have "free_loop L (Some q) s = Some (Some q', s')"
    using q1 free r(1) by (simp add: free_loop.simps [of L "Some q"] ev_queue_pop_def EV_ITEM_DATA_def)
  moreover have "set (fr' j) = set (fr j) \<union> (set (x # xs) \<inter> set (blocks L j))" if "j < 4" for j
    using r(5) that k block_sep(2) [OF L that k(1) _ k(2)] by (cases "j = k") auto
  ultimately show ?case using r by (auto simp: give_block_def)
qed

section \<open>Properties\<close>

text \<open>
  C33. What comes out of a queue. After \<^verbatim>\<open>ev_queue_init\<close>, pushing distinct items and popping as many gives
  the items in the order of the pushes when no priority function is installed, and otherwise the
  stable sort of the pushes by priority (a smaller value first, equal priorities in arrival order).
  Every push and pop of the run returns.
\<close>

theorem ev_queue_drain:
  assumes "ev_queue_init (Some q) p = (st, Some q0)"
    and "distinct xs" and "NULL \<notin> set xs" and "length xs < 2 ^ 32"
  shows "\<exists>qs qs'. push_all q_push xs (q0, s) = Some qs \<and>
           pop_n q_pop (length xs) qs = Some (case p of None \<Rightarrow> xs | Some pri \<Rightarrow> sort_key pri xs, qs') \<and>
           head (fst qs') = NULL \<and> curNum (fst qs') = 0"
proof -
  have "q_rep p (q0, s) []" using assms(1) by (auto simp: ev_queue_init_def q_rep_def queue_rep_def Let_def)
  then obtain qs qs' where r: "push_all q_push xs (q0, s) = Some qs"
      "pop_n q_pop (length xs) qs = Some (fold (insertion p) xs [], qs')" "q_rep p qs' []"
    using evq.drain [OF _ assms(2-)] by blast
  moreover have "fold (insertion p) xs [] = (case p of None \<Rightarrow> xs | Some pri \<Rightarrow> sort_key pri xs)"
    by (cases p) (simp_all add: fold_fifo fold_pri_sort)
  moreover have "head (fst qs') = NULL" "curNum (fst qs') = 0"
    using r(3) by (simp_all add: q_rep_def queue_rep_def unat_eq_zero)
  ultimately show ?thesis by (intro exI [of _ qs] exI [of _ qs']) simp
qed

theorem ev_queue_drain_witness:
  "\<exists>q0 qs qs'. ev_queue_init (Some \<lparr>head = 4, tail = 8, priFunc = None, curNum = 7\<rparr>) (Some (\<lambda>a. a AND 3)) =
       (QUEUE_SUCC, Some q0) \<and>
     push_all q_push [0x13, 0x22, 0x32] (q0, demo_state) = Some qs \<and>
     pop_n q_pop 3 qs = Some ([0x22, 0x32, 0x13], qs')"
proof -
  let ?q = "\<lparr>head = 0, tail = 0, priFunc = Some (\<lambda>a. a AND 3), curNum = 0\<rparr>"
  have i: "ev_queue_init (Some \<lparr>head = 4, tail = 8, priFunc = None, curNum = 7\<rparr>) (Some (\<lambda>a. a AND 3)) =
      (QUEUE_SUCC, Some ?q)"
    by (simp add: ev_queue_init_def)
  show ?thesis
    using ev_queue_drain [OF i, of "[0x13, 0x22, 0x32]" demo_state] i by (auto simp: numeral_3_eq_3)
qed

text \<open>
  The contract of \<^verbatim>\<open>ev_queue_rawPush\<close>: pushing a non-null item that is not in the queue returns
  success, leaves the queue well-formed with its head, tail and count right for the list with the item
  at the place the discipline gives it, restores the interrupt enable, and writes no word of memory
  but the links of the queue's items and of the new one.
\<close>

theorem ev_queue_rawPush_contract:
  assumes "queue_rep (mem s) q xs" and "x \<noteq> NULL" and "x \<notin> set xs" and "Suc (length xs) < 2 ^ 32"
  shows "\<exists>q' s'. ev_queue_rawPush (Some q) x s = Some (QUEUE_SUCC, Some q', s') \<and>
           queue_rep (mem s') q' (case priFunc q of
               None \<Rightarrow> xs @ [x]
             | Some pri \<Rightarrow> takeWhile (\<lambda>y. pri y \<le> pri x) xs @ x # dropWhile (\<lambda>y. pri y \<le> pri x) xs) \<and>
           reg_irq_en s' = reg_irq_en s \<and> priFunc q' = priFunc q \<and>
           (\<forall>a. a \<noteq> x \<and> a \<notin> set xs \<longrightarrow> mem s' a = mem s a)"
proof -
  obtain q' s' where r: "ev_queue_rawPush (Some q) x s = Some (QUEUE_SUCC, Some q', s')" "s'\<lparr>mem := mem s\<rparr> = s"
      "queue_rep (mem s') q' (insertion (priFunc q) x xs)" "priFunc q' = priFunc q"
      "\<forall>a. a \<noteq> x \<and> a \<notin> set xs \<longrightarrow> mem s' a = mem s a"
    using ev_queue_rawPush_rep [OF assms] by blast
  have "reg_irq_en s' = reg_irq_en s" using arg_cong [OF r(2), of reg_irq_en] by simp
  moreover have "insertion (priFunc q) x xs = (case priFunc q of
      None \<Rightarrow> xs @ [x]
    | Some pri \<Rightarrow> takeWhile (\<lambda>y. pri y \<le> pri x) xs @ x # dropWhile (\<lambda>y. pri y \<le> pri x) xs)"
    by (cases "priFunc q") (simp_all add: insertion_def pri_insert_def)
  ultimately show ?thesis using r by (intro exI [of _ q'] exI [of _ s']) simp
qed

theorem ev_queue_rawPush_contract_witness:
  "\<exists>q' s'. ev_queue_rawPush (Some \<lparr>head = 0x100, tail = 0x100, priFunc = None, curNum = 1\<rparr>) 0x200 demo_state =
       Some (QUEUE_SUCC, Some q', s') \<and> queue_rep (mem s') q' [0x100, 0x200]"
  using ev_queue_rawPush_contract
    [of demo_state "\<lparr>head = 0x100, tail = 0x100, priFunc = None, curNum = 1\<rparr>" "[0x100]" "0x200"]
  by (auto simp: queue_rep_def demo_state_def)

text \<open>
  The contract of \<^verbatim>\<open>ev_queue_rawDelete\<close>, on every branch: an item of the queue is removed, wherever
  it stands, and the queue stays well-formed; for another item the answer is \<^verbatim>\<open>QUEUE_EMPTY\<close> or
  \<^verbatim>\<open>QUEUE_NOT_FOUND\<close> and nothing changes. The walk always ends and the interrupt enable is restored.
\<close>

theorem ev_queue_rawDelete_contract:
  assumes "queue_rep (mem s) q xs" and "x \<noteq> NULL"
  shows "if x \<in> set xs
         then \<exists>q' s'. ev_queue_rawDelete (Some q) x s = Some (QUEUE_SUCC, Some q', s') \<and>
                queue_rep (mem s') q' (remove1 x xs) \<and> reg_irq_en s' = reg_irq_en s \<and>
                (\<forall>a. a \<notin> set xs \<longrightarrow> mem s' a = mem s a)
         else ev_queue_rawDelete (Some q) x s =
                Some (if xs = [] then QUEUE_EMPTY else QUEUE_NOT_FOUND, Some q, s)"
proof (cases "x \<in> set xs")
  case True
  obtain q' s' where r: "ev_queue_rawDelete (Some q) x s = Some (QUEUE_SUCC, Some q', s')" "s'\<lparr>mem := mem s\<rparr> = s"
      "queue_rep (mem s') q' (remove1 x xs)" "\<forall>a. a \<notin> set xs \<longrightarrow> mem s' a = mem s a"
    using ev_queue_rawDelete_present [OF assms(1) True] by blast
  have "reg_irq_en s' = reg_irq_en s" using arg_cong [OF r(2), of reg_irq_en] by simp
  then show ?thesis using True r by auto
qed (use ev_queue_rawDelete_absent [OF assms] in simp)

theorem ev_queue_rawDelete_contract_witness:
  "ev_queue_rawDelete (Some \<lparr>head = 0x100, tail = 0x100, priFunc = None, curNum = 1\<rparr>) 0x200 demo_state =
     Some (QUEUE_NOT_FOUND, Some \<lparr>head = 0x100, tail = 0x100, priFunc = None, curNum = 1\<rparr>, demo_state)"
  using ev_queue_rawDelete_contract
    [of demo_state "\<lparr>head = 0x100, tail = 0x100, priFunc = None, curNum = 1\<rparr>" "[0x100]" "0x200"]
  by (simp add: queue_rep_def demo_state_def)

text \<open>
  \<^verbatim>\<open>ev_queue_freeQ\<close> on a queue of buffers in use terminates, empties the queue, returns every one of
  its buffers to the free list of its group and no other, keeps the allocator's invariant and restores
  the interrupt enable.
\<close>

theorem ev_queue_freeQ_contract:
  assumes "layout_ok L" and "buf_inv L fr s" and "queue_rep (mem s) q xs" and "\<forall>x\<in>set xs. in_use L fr x"
  shows "\<exists>q' s' fr'. ev_queue_freeQ L (Some q) s = Some (QUEUE_SUCC, Some q', s') \<and> head q' = NULL \<and>
           buf_inv L fr' s' \<and> reg_irq_en s' = reg_irq_en s \<and>
           (\<forall>k<4. set (fr' k) = set (fr k) \<union> (set xs \<inter> set (blocks L k)))"
  using free_loop_all [OF assms] by (fastforce simp: ev_queue_freeQ_def queue_rep_def)

theorem ev_queue_freeQ_contract_witness:
  "\<exists>q' s'. ev_queue_freeQ demo_layout (Some \<lparr>head = 0x841000, tail = 0x841000, priFunc = None, curNum = 1\<rparr>)
       ((take_block demo_layout 0 0x841000 (ev_buf_init demo_layout demo_state))
          \<lparr>mem := (mem (take_block demo_layout 0 0x841000 (ev_buf_init demo_layout demo_state)))(0x841000 := 0)\<rparr>) =
     Some (QUEUE_SUCC, Some q', s')"
proof -
  let ?fr = "(blocks demo_layout)(0 := tl (blocks demo_layout 0))"
  let ?s1 = "take_block demo_layout 0 0x841000 (ev_buf_init demo_layout demo_state)"
  let ?s = "?s1\<lparr>mem := (mem ?s1)(0x841000 := 0)\<rparr>"
  have b: "blocks demo_layout 0 = 0x841000 # tl (blocks demo_layout 0)" "0x841000 \<notin> set (tl (blocks demo_layout 0))"
    by (simp_all add: pool_blocks_def upt_rec demo_layout_def BUFFER_GROUP_def BUFFER_NUM_IN_GROUP_def)
  then have bb: "0x841000 \<in> set (blocks demo_layout 0)" by (metis list.set_intros(1))
  have i1: "buf_inv demo_layout ?fr ?s1" using take_block_inv [OF demo_layout_ok demo_init_inv _ b(1)] by simp
  have iu: "in_use demo_layout ?fr 0x841000" using b bb by (auto simp: in_use_def intro!: exI [of _ 0])
  have "buf_inv demo_layout ?fr ?s"
    by (rule buf_inv_link [OF demo_layout_ok i1 iu])
  moreover have "queue_rep (mem ?s) \<lparr>head = 0x841000, tail = 0x841000, priFunc = None, curNum = 1\<rparr> [0x841000]"
    by (simp add: queue_rep_def)
  ultimately show ?thesis
    using ev_queue_freeQ_contract [OF demo_layout_ok, of ?fr ?s _ "[0x841000]"] iu by fastforce
qed

end
