(* ===== verification/Ev_Timer.thy ===== *)
theory Ev_Timer
  imports Linked_Lists Os_State
begin

text \<open>
  The software timers of \<^verbatim>\<open>proj/os/ev_timer.c\<close>: a linked list of timer events, a pool of 24 of them,
  the nearest timeout, and the conversion of system ticks to milliseconds. A timer event's \<^verbatim>\<open>next\<close> is
  the word at its address; its other fields are \<open>tev evt\<close>. The list is in no particular order: the
  macro \<^verbatim>\<open>LIST_ADD\<close> puts a new event at the head.
\<close>

section \<open>State\<close>

record ev_timer_event_t =
  evt_cb :: addr
  evt_data :: addr
  timeout :: u32
  period :: u32
  curSysTick :: u32
  isRunning :: u8
  used :: u8

record tmr_state = os_state +
  tev :: "addr \<Rightarrow> ev_timer_event_t"
  timer_head :: addr
  timer_nearest :: addr
  used_num :: u32
  prevSysTick :: u32
  remSysTick :: u32

definition TIMER_EVENT_NUM :: nat where
  "TIMER_EVENT_NUM = 24"

definition TIMER_EVENT_ENOUGH_NUM :: u32 where
  "TIMER_EVENT_ENOUGH_NUM = 20"

definition g_ev_timer_maxNum :: u8 where
  "g_ev_timer_maxNum = of_nat TIMER_EVENT_NUM"

text \<open>
  \<open>B\<close> is the address of \<^verbatim>\<open>ev_timer.timerEventPool.evt\<close>, an array of 28-byte structures. \<open>clk\<close> stands for
  the value that \<^verbatim>\<open>clock_time()\<close> reads in the call at hand and \<open>us\<close> for \<^verbatim>\<open>S_TIMER_CLOCK_1US\<close>, the
  system timer ticks per microsecond.
\<close>

definition evt_addr :: "addr \<Rightarrow> nat \<Rightarrow> addr" where
  "evt_addr B i = B + 28 * of_nat i"

abbreviation upd_evt :: "addr \<Rightarrow> (ev_timer_event_t \<Rightarrow> ev_timer_event_t) \<Rightarrow> 'a tmr_state_scheme \<Rightarrow> 'a tmr_state_scheme" where
  "upd_evt e f s \<equiv> s\<lparr>tev := (tev s)(e := f (tev s e))\<rparr>"

section \<open>Operations\<close>

definition ev_timer_init :: "addr \<Rightarrow> 'a tmr_state_scheme \<Rightarrow> 'a tmr_state_scheme" where
  "ev_timer_init B s =
     (let pool = evt_addr B ` {0..<TIMER_EVENT_NUM};
          z = \<lparr>evt_cb = 0, evt_data = 0, timeout = 0, period = 0, curSysTick = 0, isRunning = 0, used = 0\<rparr>
      in s\<lparr>timer_head := NULL, timer_nearest := NULL, used_num := 0,
           tev := (\<lambda>e. if e \<in> pool then z else tev s e),
           mem := (\<lambda>a. if a \<in> pool then 0 else mem s a)\<rparr>)"

definition ev_timer_setPrevSysTick :: "u32 \<Rightarrow> 'a tmr_state_scheme \<Rightarrow> 'a tmr_state_scheme" where
  "ev_timer_setPrevSysTick tick s = s\<lparr>prevSysTick := tick\<rparr>"

definition ev_timer_nearestGet :: "'a tmr_state_scheme \<Rightarrow> addr" where
  "ev_timer_nearestGet s = timer_nearest s"

primrec free_get_loop :: "addr \<Rightarrow> nat list \<Rightarrow> 'a tmr_state_scheme \<Rightarrow> addr \<times> 'a tmr_state_scheme" where
  "free_get_loop B [] s = (NULL, s)"
| "free_get_loop B (i # is) s =
     (let e = evt_addr B i in
      if used (tev s e) = 0
      then (e, (upd_evt e (used_update (\<lambda>_. 1)) s)\<lparr>used_num := used_num s + 1\<rparr>)
      else free_get_loop B is s)"

definition ev_timer_freeGet :: "addr \<Rightarrow> 'a tmr_state_scheme \<Rightarrow> addr \<times> 'a tmr_state_scheme" where
  "ev_timer_freeGet B s =
     (if used_num s \<ge> ucast g_ev_timer_maxNum then (NULL, s)
      else free_get_loop B [0..<unat g_ev_timer_maxNum] s)"

definition ev_timer_poolDelUpdate :: "addr \<Rightarrow> addr \<Rightarrow> 'a tmr_state_scheme \<Rightarrow> 'a tmr_state_scheme" where
  "ev_timer_poolDelUpdate B evt s =
     (let s1 = upd_evt evt (\<lambda>t. t\<lparr>isRunning := 0, curSysTick := 0\<rparr>) s in
      if evt \<ge> evt_addr B 0 \<and> evt \<le> evt_addr B (unat g_ev_timer_maxNum - 1) \<and> used (tev s1 evt) \<noteq> 0
      then (upd_evt evt (used_update (\<lambda>_. 0)) s1)\<lparr>used_num := used_num s1 - 1\<rparr>
      else s1)"

partial_function (option) nearest_loop :: "wmem \<Rightarrow> (addr \<Rightarrow> ev_timer_event_t) \<Rightarrow> addr \<Rightarrow> addr \<Rightarrow> addr option" where
  "nearest_loop m tv nearest timerEvt =
     (if timerEvt \<noteq> NULL then
        nearest_loop m tv (if timeout (tv timerEvt) < timeout (tv nearest) then timerEvt else nearest) (m timerEvt)
      else Some nearest)"

definition ev_timer_nearestUpdate :: "'a tmr_state_scheme \<Rightarrow> 'a tmr_state_scheme option" where
  "ev_timer_nearestUpdate s =
     (case nearest_loop (mem s) (tev s) (timer_head s) (timer_head s) of
        None \<Rightarrow> None | Some n \<Rightarrow> Some (s\<lparr>timer_nearest := n\<rparr>))"

definition ev_timer_enough :: "'a tmr_state_scheme \<Rightarrow> bool" where
  "ev_timer_enough s \<longleftrightarrow> used_num s < TIMER_EVENT_ENOUGH_NUM"

partial_function (option) timer_exist_loop :: "addr \<Rightarrow> wmem \<Rightarrow> addr \<Rightarrow> bool option" where
  "timer_exist_loop evt m timerEvt =
     (if timerEvt \<noteq> NULL then
        (if timerEvt = evt then Some True else timer_exist_loop evt m (m timerEvt))
      else Some False)"

definition ev_timer_exist :: "addr \<Rightarrow> 'a tmr_state_scheme \<Rightarrow> bool option" where
  "ev_timer_exist evt s = timer_exist_loop evt (mem s) (timer_head s)"

definition ev_on_timer :: "u32 \<Rightarrow> addr \<Rightarrow> u32 \<Rightarrow> 'a tmr_state_scheme \<Rightarrow> 'a tmr_state_scheme option" where
  "ev_on_timer clk evt tmo s =
     (if evt = NULL then Some (sys_exceptionPost 145 SYS_EXCEPTTION_COMMON_TIMER_EVEVT s)
      else
        let s1 = upd_evt evt (period_update (\<lambda>_. tmo)) s;
            (r, s2) = drv_disable_irq s1
        in case LIST_EXIST evt (mem s2) (timer_head s2) of
             None \<Rightarrow> None
           | Some out \<Rightarrow>
               let s3 = (if out \<noteq> NULL then upd_evt out (timeout_update (\<lambda>_. period (tev s2 evt))) s2
                         else
                           let sa = (if isRunning (tev s2 evt) = 0
                                     then upd_evt evt (curSysTick_update (\<lambda>_. clk)) s2 else s2);
                               sb = upd_evt evt (timeout_update (\<lambda>_. period (tev sa evt))) sa;
                               (h, m) = LIST_ADD (timer_head sb) evt (mem sb)
                           in sb\<lparr>timer_head := h, mem := m\<rparr>)
               in map_option (drv_restore_irq r) (ev_timer_nearestUpdate s3))"

definition ev_unon_timer :: "addr \<Rightarrow> addr \<Rightarrow> 'a tmr_state_scheme \<Rightarrow> 'a tmr_state_scheme option" where
  "ev_unon_timer B evt s =
     (if evt = NULL then Some (sys_exceptionPost 174 SYS_EXCEPTTION_COMMON_TIMER_EVEVT s)
      else
        case LIST_EXIST evt (mem s) (timer_head s) of
          None \<Rightarrow> None
        | Some out \<Rightarrow>
            if out = NULL then Some s
            else
              let (r, s1) = drv_disable_irq s;
                  s2 = ev_timer_poolDelUpdate B evt s1
              in case LIST_DELETE (timer_head s2) evt (mem s2) of
                   None \<Rightarrow> None
                 | Some (h, m) \<Rightarrow>
                     map_option (drv_restore_irq r)
                       (ev_timer_nearestUpdate (s2\<lparr>timer_head := h, mem := m\<rparr>)))"

definition ev_timer_add ::
  "u32 \<Rightarrow> addr \<Rightarrow> addr \<Rightarrow> addr \<Rightarrow> u32 \<Rightarrow> 'a tmr_state_scheme \<Rightarrow> (addr \<times> 'a tmr_state_scheme) option"
where
  "ev_timer_add clk B func arg tmo s =
     (let (timerEvt, s1) = ev_timer_freeGet B s in
      if timerEvt = NULL then Some (NULL, sys_exceptionPost 199 SYS_EXCEPTTION_COMMON_TIMER_EVEVT s1)
      else
        let s2 = upd_evt timerEvt (\<lambda>t. t\<lparr>evt_cb := func, evt_data := arg\<rparr>) s1
        in map_option (Pair timerEvt) (ev_on_timer clk timerEvt tmo s2))"

definition ev_timer_taskPost ::
  "u32 \<Rightarrow> addr \<Rightarrow> addr \<Rightarrow> addr \<Rightarrow> u32 \<Rightarrow> 'a tmr_state_scheme \<Rightarrow> (addr \<times> 'a tmr_state_scheme) option"
where
  "ev_timer_taskPost clk B func arg t_ms s =
     (let (r, s1) = drv_disable_irq s in
      map_option (\<lambda>(e, s2). (e, drv_restore_irq r s2)) (ev_timer_add clk B func arg t_ms s1))"

definition NO_TIMER_AVAIL :: u8 where
  "NO_TIMER_AVAIL = 0x08"

text \<open>The caller's pointer variable \<^verbatim>\<open>*evt\<close> is passed and returned.\<close>

definition ev_timer_taskCancel ::
  "addr \<Rightarrow> addr \<Rightarrow> 'a tmr_state_scheme \<Rightarrow> (u8 \<times> addr \<times> 'a tmr_state_scheme) option"
where
  "ev_timer_taskCancel B evt s =
     (if evt = NULL \<or> used (tev s evt) = 0 then Some (NO_TIMER_AVAIL, evt, s)
      else map_option (\<lambda>s'. (0, NULL, s')) (ev_unon_timer B evt s))"

definition update_event :: "u32 \<Rightarrow> u32 \<Rightarrow> u32 \<Rightarrow> ev_timer_event_t \<Rightarrow> ev_timer_event_t" where
  "update_event us curTick updateTime t =
     (let updateTimeMs = (if isRunning t \<noteq> 0 then updateTime
                          else (curTick - curSysTick t) div (us * 1000));
          t1 = (if isRunning t \<noteq> 0 then t else t\<lparr>isRunning := 1\<rparr>)
      in if timeout t1 > updateTimeMs then t1\<lparr>timeout := timeout t1 - updateTimeMs\<rparr>
         else t1\<lparr>timeout := 0\<rparr>)"

partial_function (option) update_loop ::
  "u32 \<Rightarrow> u32 \<Rightarrow> u32 \<Rightarrow> addr \<Rightarrow> 'a tmr_state_scheme \<Rightarrow> 'a tmr_state_scheme option"
where
  "update_loop us curTick updateTime timerEvt s =
     (if timerEvt \<noteq> NULL then
        let s1 = upd_evt timerEvt (update_event us curTick updateTime) s
        in update_loop us curTick updateTime (mem s1 timerEvt) s1
      else Some s)"

definition ev_timer_update :: "u32 \<Rightarrow> u32 \<Rightarrow> u32 \<Rightarrow> 'a tmr_state_scheme \<Rightarrow> 'a tmr_state_scheme option" where
  "ev_timer_update us clk updateTime s =
     (if updateTime = 0 then Some s
      else let (r, s1) = drv_disable_irq s
           in map_option (drv_restore_irq r) (update_loop us clk updateTime (timer_head s1) s1))"

text \<open>
  \<open>call f d s\<close> is what the callback at \<open>f\<close> does with argument \<open>d\<close>: the value it returns (a C \<^verbatim>\<open>int\<close>) and
  the state it leaves, which may differ anywhere, in the timer list too.
\<close>

partial_function (option) execute_loop ::
  "addr \<Rightarrow> (addr \<Rightarrow> addr \<Rightarrow> 'a tmr_state_scheme \<Rightarrow> int \<times> 'a tmr_state_scheme) \<Rightarrow> addr \<Rightarrow> addr \<Rightarrow>
     'a tmr_state_scheme \<Rightarrow> 'a tmr_state_scheme option"
where
  "execute_loop B call timerEvt prev_head s =
     (if timerEvt \<noteq> NULL then
        if timeout (tev s timerEvt) = 0 then
          let (t, s1) = call (evt_cb (tev s timerEvt)) (evt_data (tev s timerEvt)) s in
          case (if t < 0 then ev_unon_timer B timerEvt s1
                else if t = 0 then Some (upd_evt timerEvt (\<lambda>e. e\<lparr>timeout := period e\<rparr>) s1)
                else Some (upd_evt timerEvt (\<lambda>e. e\<lparr>period := word_of_int t, timeout := word_of_int t\<rparr>) s1)) of
            None \<Rightarrow> None
          | Some s2 \<Rightarrow>
              if prev_head \<noteq> timer_head s2 then execute_loop B call (timer_head s2) (timer_head s2) s2
              else execute_loop B call (mem s2 timerEvt) prev_head s2
        else execute_loop B call (mem s timerEvt) prev_head s
      else Some s)"

definition ev_timer_executeCB ::
  "addr \<Rightarrow> (addr \<Rightarrow> addr \<Rightarrow> 'a tmr_state_scheme \<Rightarrow> int \<times> 'a tmr_state_scheme) \<Rightarrow>
     'a tmr_state_scheme \<Rightarrow> 'a tmr_state_scheme option"
where
  "ev_timer_executeCB B call s =
     (case execute_loop B call (timer_head s) (timer_head s) s of
        None \<Rightarrow> None | Some s1 \<Rightarrow> ev_timer_nearestUpdate s1)"

text \<open>\<open>clk\<close> is read by \<^verbatim>\<open>ev_timer_process\<close> itself, \<open>clk'\<close> by \<^verbatim>\<open>ev_timer_update\<close>.\<close>

definition ev_timer_process ::
  "u32 \<Rightarrow> addr \<Rightarrow> (addr \<Rightarrow> addr \<Rightarrow> 'a tmr_state_scheme \<Rightarrow> int \<times> 'a tmr_state_scheme) \<Rightarrow> u32 \<Rightarrow> u32 \<Rightarrow>
     'a tmr_state_scheme \<Rightarrow> 'a tmr_state_scheme option"
where
  "ev_timer_process us B call clk clk' s =
     (if clk \<noteq> prevSysTick s then
        let sysTicks = clk - prevSysTick s;
            s1 = s\<lparr>prevSysTick := clk\<rparr>;
            ut = sysTicks div (us * 1000);
            s2 = s1\<lparr>remSysTick := remSysTick s1 + sysTicks mod (us * 1000)\<rparr>;
            updateTime = ut + remSysTick s2 div (us * 1000);
            s3 = s2\<lparr>remSysTick := remSysTick s2 mod (us * 1000)\<rparr>
        in if updateTime \<noteq> 0 then
             case ev_timer_update us clk' updateTime s3 of
               None \<Rightarrow> None | Some s4 \<Rightarrow> ev_timer_executeCB B call s4
           else Some s3
      else Some s)"

section \<open>The pool\<close>

text \<open>The pool array is non-null and does not wrap around.\<close>

definition pool_ok :: "addr \<Rightarrow> bool" where
  "pool_ok B \<longleftrightarrow> B \<noteq> NULL \<and> unat B + 28 * TIMER_EVENT_NUM < 2 ^ 32"

lemma unat_maxNum [simp]: "unat g_ev_timer_maxNum = TIMER_EVENT_NUM" "TIMER_EVENT_NUM = 24"
  by (simp_all add: g_ev_timer_maxNum_def TIMER_EVENT_NUM_def)

lemma unat_evt_addr:
  assumes "pool_ok B" "i < 24"
  shows "unat (evt_addr B i) = unat B + 28 * i"
proof -
  have "unat (28 * of_nat i :: u32) = 28 * i"
  proof -
    have "(28 * of_nat i :: u32) = of_nat (28 * i)" by simp
    then show ?thesis using assms by (simp add: unat_of_nat del: of_nat_mult)
  qed
  then show ?thesis
    unfolding evt_addr_def using assms by (subst unat_add_no_wrap) (simp_all add: pool_ok_def)
qed

lemma evt_addr_inj: "pool_ok B \<Longrightarrow> i < 24 \<Longrightarrow> j < 24 \<Longrightarrow> evt_addr B i = evt_addr B j \<longleftrightarrow> i = j"
proof
  assume "pool_ok B" "i < 24" "j < 24" "evt_addr B i = evt_addr B j"
  then have "unat B + 28 * i = unat B + 28 * j" using unat_evt_addr [of B i] unat_evt_addr [of B j] by metis
  then show "i = j" by simp
qed simp

lemma evt_addr_nonnull: "pool_ok B \<Longrightarrow> i < 24 \<Longrightarrow> evt_addr B i \<noteq> NULL"
proof
  assume p: "pool_ok B" "i < 24" and "evt_addr B i = NULL"
  then have "unat B = 0" using unat_evt_addr [OF p] by simp
  then show False using p by (simp add: pool_ok_def unat_eq_zero)
qed

lemma evt_addr_range: "pool_ok B \<Longrightarrow> i < 24 \<Longrightarrow> evt_addr B 0 \<le> evt_addr B i \<and> evt_addr B i \<le> evt_addr B 23"
  by (simp add: word_le_nat_alt unat_evt_addr)

text \<open>
  The invariant, with \<open>xs\<close> the events of the list: the pool counts its used events, the events of the
  pool that are used are exactly those on the list, and an event of the list whose address lies in the
  pool array is one of its elements.
\<close>

definition used_slots :: "addr \<Rightarrow> 'a tmr_state_scheme \<Rightarrow> nat set" where
  "used_slots B s = {i. i < 24 \<and> used (tev s (evt_addr B i)) \<noteq> 0}"

definition timer_inv :: "addr \<Rightarrow> 'a tmr_state_scheme \<Rightarrow> addr list \<Rightarrow> bool" where
  "timer_inv B s xs \<longleftrightarrow> chain (mem s) (timer_head s) xs \<and>
     unat (used_num s) = card (used_slots B s) \<and>
     (\<forall>i<24. i \<in> used_slots B s \<longleftrightarrow> evt_addr B i \<in> set xs) \<and>
     (\<forall>x\<in>set xs. evt_addr B 0 \<le> x \<and> x \<le> evt_addr B 23 \<longrightarrow> (\<exists>i<24. x = evt_addr B i))"

lemma used_slots_finite [simp]: "finite (used_slots B s)"
  by (simp add: used_slots_def)

lemma used_slots_card: "card (used_slots B s) \<le> 24"
  using card_mono [of "{..<24}" "used_slots B s"] by (auto simp: used_slots_def)

section \<open>The nearest timer\<close>

lemma nearest_loop_chain:
  "chain m p ys \<Longrightarrow> \<exists>n. nearest_loop m tv n0 p = Some n \<and> (n = n0 \<or> n \<in> set ys) \<and>
     timeout (tv n) \<le> timeout (tv n0) \<and> (\<forall>y\<in>set ys. timeout (tv n) \<le> timeout (tv y))"
proof (induction ys arbitrary: p n0)
  case Nil
  then show ?case by (simp add: nearest_loop.simps)
next
  case (Cons y ys)
  then have p: "p = y" "y \<noteq> NULL" and c: "chain m (m y) ys" by auto
  let ?n = "if timeout (tv y) < timeout (tv n0) then y else n0"
  obtain n where n: "nearest_loop m tv ?n (m y) = Some n" "n = ?n \<or> n \<in> set ys"
      "timeout (tv n) \<le> timeout (tv ?n)" "\<forall>z\<in>set ys. timeout (tv n) \<le> timeout (tv z)"
    using Cons.IH [OF c] by blast
  have "timeout (tv ?n) \<le> timeout (tv y)" "timeout (tv ?n) \<le> timeout (tv n0)" by auto
  then have "timeout (tv n) \<le> timeout (tv y)" "timeout (tv n) \<le> timeout (tv n0)"
    using n(3) by (meson order_trans)+
  moreover have "n = n0 \<or> n \<in> set (y # ys)" using n(2) by (auto split: if_splits)
  ultimately show ?case using n(1,4) p by (simp add: nearest_loop.simps [of m tv n0 y])
qed

text \<open>What the walk finds: the first event of the smallest timeout.\<close>

definition is_nearest :: "(addr \<Rightarrow> ev_timer_event_t) \<Rightarrow> addr list \<Rightarrow> addr \<Rightarrow> bool" where
  "is_nearest tv xs n \<longleftrightarrow>
     (if xs = [] then n = NULL else n \<in> set xs \<and> (\<forall>x\<in>set xs. timeout (tv n) \<le> timeout (tv x)))"

lemma nearest_walk:
  assumes "chain m h xs"
  shows "\<exists>n. nearest_loop m tv h h = Some n \<and> is_nearest tv xs n"
proof -
  obtain n where n: "nearest_loop m tv h h = Some n" "n = h \<or> n \<in> set xs"
      "\<forall>y\<in>set xs. timeout (tv n) \<le> timeout (tv y)"
    using nearest_loop_chain [OF assms] by blast
  then show ?thesis using assms by (cases xs) (auto simp: is_nearest_def)
qed

lemma timer_exist_loop_chain: "chain m p ys \<Longrightarrow> timer_exist_loop e m p = Some (e \<in> set ys)"
proof (induction ys arbitrary: p)
  case Nil
  then show ?case by (simp add: timer_exist_loop.simps)
next
  case (Cons y ys)
  then show ?case by (auto simp: timer_exist_loop.simps [of _ m y])
qed

section \<open>Starting and stopping a timer\<close>

definition started :: "u32 \<Rightarrow> addr \<Rightarrow> u32 \<Rightarrow> addr \<Rightarrow> 'a tmr_state_scheme \<Rightarrow> 'a tmr_state_scheme" where
  "started clk e tmo n s = s\<lparr>
     tev := (tev s)(e := (tev s e)\<lparr>period := tmo,
              curSysTick := if isRunning (tev s e) = 0 then clk else curSysTick (tev s e), timeout := tmo\<rparr>),
     timer_head := e, mem := (mem s)(e := timer_head s), timer_nearest := n\<rparr>"

definition restarted :: "addr \<Rightarrow> u32 \<Rightarrow> addr \<Rightarrow> 'a tmr_state_scheme \<Rightarrow> 'a tmr_state_scheme" where
  "restarted e tmo n s = s\<lparr>tev := (tev s)(e := (tev s e)\<lparr>period := tmo, timeout := tmo\<rparr>), timer_nearest := n\<rparr>"

definition in_pool :: "addr \<Rightarrow> addr \<Rightarrow> 'a tmr_state_scheme \<Rightarrow> bool" where
  "in_pool B e s \<longleftrightarrow> evt_addr B 0 \<le> e \<and> e \<le> evt_addr B 23 \<and> used (tev s e) \<noteq> 0"

definition stopped :: "addr \<Rightarrow> addr \<Rightarrow> addr \<Rightarrow> wmem \<Rightarrow> addr \<Rightarrow> 'a tmr_state_scheme \<Rightarrow> 'a tmr_state_scheme" where
  "stopped B e h m n s = s\<lparr>
     tev := (tev s)(e := if in_pool B e s then (tev s e)\<lparr>isRunning := 0, curSysTick := 0, used := 0\<rparr>
                         else (tev s e)\<lparr>isRunning := 0, curSysTick := 0\<rparr>),
     used_num := (if in_pool B e s then used_num s - 1 else used_num s),
     timer_head := h, mem := m, timer_nearest := n\<rparr>"

lemma ev_on_timer_new:
  assumes c: "chain (mem s) (timer_head s) xs" and e: "e \<noteq> NULL" "e \<notin> set xs"
  shows "\<exists>n. ev_on_timer clk e tmo s = Some (started clk e tmo n s) \<and>
             is_nearest (tev (started clk e tmo n s)) (e # xs) n"
proof -
  have ch: "chain ((mem s)(e := timer_head s)) e (e # xs)" using c e by simp
  obtain n where n: "nearest_loop ((mem s)(e := timer_head s)) (tev (started clk e tmo 0 s)) e e = Some n"
      "is_nearest (tev (started clk e tmo 0 s)) (e # xs) n"
    using nearest_walk [OF ch] by blast
  moreover have "LIST_EXIST e (mem s) (timer_head s) = Some NULL" using LIST_EXIST_chain [OF c] e by simp
  ultimately have "ev_on_timer clk e tmo s = Some (started clk e tmo n s)" using e
    by (cases "isRunning (tev s e) = 0")
      (auto simp: ev_on_timer_def drv_disable_irq_def drv_restore_irq_def LIST_ADD_def Let_def started_def
        ev_timer_nearestUpdate_def intro!: tmr_state.equality)
  then show ?thesis using n(2) by (auto simp: started_def)
qed

lemma ev_on_timer_restart:
  assumes c: "chain (mem s) (timer_head s) xs" and e: "e \<in> set xs"
  shows "\<exists>n. ev_on_timer clk e tmo s = Some (restarted e tmo n s) \<and> is_nearest (tev (restarted e tmo n s)) xs n"
proof -
  have nn: "e \<noteq> NULL" using seg_nonnull [OF c] e by auto
  obtain n where n: "nearest_loop (mem s) (tev (restarted e tmo 0 s)) (timer_head s) (timer_head s) = Some n"
      "is_nearest (tev (restarted e tmo 0 s)) xs n"
    using nearest_walk [OF c] by blast
  moreover have "LIST_EXIST e (mem s) (timer_head s) = Some e" using LIST_EXIST_chain [OF c] e by simp
  ultimately have "ev_on_timer clk e tmo s = Some (restarted e tmo n s)" using nn
    by (auto simp: ev_on_timer_def drv_disable_irq_def drv_restore_irq_def Let_def restarted_def
        ev_timer_nearestUpdate_def intro!: tmr_state.equality)
  then show ?thesis using n(2) by (auto simp: restarted_def)
qed

lemma ev_unon_timer_present:
  assumes c: "chain (mem s) (timer_head s) (as @ e # bs)"
  shows "\<exists>h m n. ev_unon_timer B e s = Some (stopped B e h m n s) \<and>
           chain m h (as @ bs) \<and> (as \<noteq> [] \<longrightarrow> h = timer_head s) \<and> (\<forall>a. a \<notin> set as \<longrightarrow> m a = mem s a) \<and>
           is_nearest (tev (stopped B e h m n s)) (as @ bs) n"
proof -
  have nn: "e \<noteq> NULL" using seg_nonnull [OF c] by auto
  obtain h m where d: "LIST_DELETE (timer_head s) e (mem s) = Some (h, m)" "chain m h (as @ bs)"
      "as \<noteq> [] \<longrightarrow> h = timer_head s" "\<forall>a. a \<notin> set as \<longrightarrow> m a = mem s a"
    using LIST_DELETE_present [OF c] by blast
  have ex: "LIST_EXIST e (mem s) (timer_head s) = Some e" using LIST_EXIST_chain [OF c] by simp
  let ?tv = "tev (stopped B e h m 0 s)"
  obtain n where n: "nearest_loop m ?tv h h = Some n" "is_nearest ?tv (as @ bs) n"
    using nearest_walk [OF d(2)] by blast
  have "ev_unon_timer B e s = Some (stopped B e h m n s)"
    using nn ex d(1) n(1)
    by (cases "in_pool B e s")
      (auto simp: ev_unon_timer_def ev_timer_poolDelUpdate_def in_pool_def drv_disable_irq_def
        drv_restore_irq_def Let_def stopped_def ev_timer_nearestUpdate_def intro!: tmr_state.equality)
  moreover have "is_nearest (tev (stopped B e h m n s)) (as @ bs) n" using n(2) by (simp add: stopped_def)
  ultimately show ?thesis using d by blast
qed

lemma ev_unon_timer_absent:
  assumes "chain (mem s) (timer_head s) xs" "e \<notin> set xs" "e \<noteq> NULL"
  shows "ev_unon_timer B e s = Some s"
  using LIST_EXIST_chain [OF assms(1), of e] assms by (simp add: ev_unon_timer_def)

section \<open>Preservation\<close>

lemma timer_inv_init: "timer_inv B (ev_timer_init B s) []"
  by (auto simp: timer_inv_def ev_timer_init_def used_slots_def Let_def)

text \<open>An event of the client's own: outside the pool array.\<close>

definition own_event :: "addr \<Rightarrow> addr \<Rightarrow> bool" where
  "own_event B e \<longleftrightarrow> e \<noteq> NULL \<and> \<not> (evt_addr B 0 \<le> e \<and> e \<le> evt_addr B 23)"

lemma own_event_not_slot: "pool_ok B \<Longrightarrow> own_event B e \<Longrightarrow> i < 24 \<Longrightarrow> e \<noteq> evt_addr B i"
  using evt_addr_range [of B i] by (auto simp: own_event_def)

lemma timer_inv_started:
  assumes "timer_inv B s xs" "e \<noteq> NULL" "e \<notin> set xs" "pool_ok B" "own_event B e"
  shows "timer_inv B (started clk e tmo n s) (e # xs)"
proof -
  have ne: "evt_addr B i \<noteq> e" if "i < 24" for i using own_event_not_slot [OF assms(4,5) that] by auto
  then have "used_slots B (started clk e tmo n s) = used_slots B s"
    by (auto simp: used_slots_def started_def)
  then show ?thesis using assms ne by (auto simp: timer_inv_def started_def own_event_def)
qed

lemma timer_inv_upd_evt:
  assumes "timer_inv B s xs" "used (f (tev s e)) = used (tev s e)"
  shows "timer_inv B (upd_evt e f s) xs"
proof -
  have "used_slots B (upd_evt e f s) = used_slots B s" using assms(2) by (auto simp: used_slots_def)
  then show ?thesis using assms(1) by (simp add: timer_inv_def)
qed

lemma timer_inv_nearest [simp]: "timer_inv B (s\<lparr>timer_nearest := n\<rparr>) xs = timer_inv B s xs"
  by (simp add: timer_inv_def used_slots_def)

lemma timer_inv_irq [simp]: "timer_inv B (s\<lparr>reg_irq_en := r\<rparr>) xs = timer_inv B s xs"
  by (simp add: timer_inv_def used_slots_def)

lemma timer_inv_exception [simp]: "timer_inv B (sys_exceptionPost l e s) xs = timer_inv B s xs"
  by (simp add: timer_inv_def used_slots_def sys_exceptionPost_def Let_def)

lemma timer_inv_restarted: "timer_inv B s xs \<Longrightarrow> timer_inv B (restarted e tmo n s) xs"
  using timer_inv_upd_evt [of B s xs "\<lambda>t. t\<lparr>period := tmo, timeout := tmo\<rparr>" e]
  by (simp add: restarted_def)

lemma timer_inv_stopped:
  assumes inv: "timer_inv B s (as @ e # bs)" and p: "pool_ok B" and m: "chain m h (as @ bs)"
  shows "timer_inv B (stopped B e h m n s) (as @ bs)"
proof -
  let ?s = "stopped B e h m n s"
  have d: "e \<notin> set (as @ bs)" using inv chain_distinct by (fastforce simp: timer_inv_def)
  have i: "unat (used_num s) = card (used_slots B s)"
    and slots: "\<And>i. i < 24 \<Longrightarrow> i \<in> used_slots B s \<longleftrightarrow> evt_addr B i \<in> set (as @ e # bs)"
    and ran: "\<And>x. x \<in> set (as @ e # bs) \<Longrightarrow> evt_addr B 0 \<le> x \<Longrightarrow> x \<le> evt_addr B 23 \<Longrightarrow> \<exists>i<24. x = evt_addr B i"
    using inv unfolding timer_inv_def by blast+
  show ?thesis
  proof (cases "in_pool B e s")
    case True
    then obtain k where k: "k < 24" "e = evt_addr B k" using ran [of e] by (auto simp: in_pool_def)
    then have ku: "k \<in> used_slots B s" using slots [OF k(1)] by simp
    have us: "used_slots B ?s = used_slots B s - {k}"
      using k True evt_addr_inj [OF p _ k(1)] by (auto simp: used_slots_def stopped_def)
    have "used_num s \<noteq> 0" using i ku by (auto simp: card_gt_0_iff)
    then have "unat (used_num s - 1) = card (used_slots B s - {k})" using i ku by (simp add: unat_dec)
    moreover have "j \<in> used_slots B s - {k} \<longleftrightarrow> evt_addr B j \<in> set (as @ bs)" if "j < 24" for j
      using slots [OF that] d k evt_addr_inj [OF p that k(1)] by auto
    ultimately show ?thesis using us m ran True by (auto simp: timer_inv_def stopped_def)
  next
    case False
    have ns: "evt_addr B j \<noteq> e" if "j < 24" for j
    proof
      assume "evt_addr B j = e"
      then have "j \<in> used_slots B s" "in_pool B e s"
        using slots [OF that] evt_addr_range [OF p that] by (auto simp: in_pool_def used_slots_def)
      then show False using False by simp
    qed
    then have us: "used_slots B ?s = used_slots B s" using False by (auto simp: used_slots_def stopped_def)
    moreover have "j \<in> used_slots B s \<longleftrightarrow> evt_addr B j \<in> set (as @ bs)" if "j < 24" for j
      using slots [OF that] ns [OF that] by auto
    ultimately show ?thesis using i m ran False by (auto simp: timer_inv_def stopped_def)
  qed
qed

lemma ev_unon_timer_inv:
  assumes inv: "timer_inv B s xs" and p: "pool_ok B"
  shows "\<exists>s'. ev_unon_timer B e s = Some s' \<and> timer_inv B s' (remove1 e xs)"
proof -
  have c: "chain (mem s) (timer_head s) xs" using inv by (simp add: timer_inv_def)
  consider "e = NULL" | "e \<noteq> NULL" "e \<notin> set xs" | "e \<in> set xs" by blast
  then show ?thesis
  proof cases
    case 1
    then have "e \<notin> set xs" using seg_nonnull [OF c] by simp
    then show ?thesis using 1 inv by (simp add: ev_unon_timer_def remove1_idem)
  next
    case 2
    then show ?thesis using ev_unon_timer_absent [OF c] inv by (simp add: remove1_idem)
  next
    case 3
    then obtain as bs where xs: "xs = as @ e # bs" "e \<notin> set as" by (meson split_list_first)
    have c': "chain (mem s) (timer_head s) (as @ e # bs)" using c xs(1) by simp
    obtain h m n where u: "ev_unon_timer B e s = Some (stopped B e h m n s)" "chain m h (as @ bs)"
      using ev_unon_timer_present [OF c'] by blast
    then have "timer_inv B (stopped B e h m n s) (as @ bs)"
      using timer_inv_stopped [OF _ p u(2)] inv xs(1) by simp
    then show ?thesis using u xs by (simp add: remove1_append_mid)
  qed
qed

definition grab :: "addr \<Rightarrow> 'a tmr_state_scheme \<Rightarrow> 'a tmr_state_scheme" where
  "grab e s = (upd_evt e (used_update (\<lambda>_. 1)) s)\<lparr>used_num := used_num s + 1\<rparr>"

lemma free_get_loop_spec:
  "if \<exists>i\<in>set is. used (tev s (evt_addr B i)) = 0
   then \<exists>i\<in>set is. used (tev s (evt_addr B i)) = 0 \<and>
          free_get_loop B is s = (evt_addr B i, grab (evt_addr B i) s)
   else free_get_loop B is s = (NULL, s)"
proof (induction "is")
  case (Cons j "is")
  show ?case
  proof (cases "used (tev s (evt_addr B j)) = 0")
    case True
    then show ?thesis by (simp add: Let_def grab_def)
  next
    case False
    then show ?thesis using Cons by (simp add: Let_def)
  qed
qed simp

lemma ev_timer_freeGet_full:
  assumes "timer_inv B s xs" "used_slots B s = {..<24}"
  shows "ev_timer_freeGet B s = (NULL, s)"
  using assms by (simp add: ev_timer_freeGet_def timer_inv_def word_le_nat_alt)

lemma ev_timer_freeGet_slot:
  assumes inv: "timer_inv B s xs" and "used_slots B s \<noteq> {..<24}"
  shows "\<exists>i<24. i \<notin> used_slots B s \<and> ev_timer_freeGet B s = (evt_addr B i, grab (evt_addr B i) s)"
proof -
  have sub: "used_slots B s \<subset> {..<24}" using assms(2) by (auto simp: used_slots_def)
  then have "card (used_slots B s) < 24" using psubset_card_mono [OF _ sub] by simp
  then have lt: "\<not> used_num s \<ge> ucast g_ev_timer_maxNum"
    using inv by (simp add: timer_inv_def word_le_nat_alt)
  have "\<exists>i\<in>set [0..<24]. used (tev s (evt_addr B i)) = 0" using sub by (auto simp: used_slots_def)
  then show ?thesis
    using free_get_loop_spec [of "[0..<24]" s B] lt by (auto simp: ev_timer_freeGet_def used_slots_def)
qed

text \<open>The event \<^verbatim>\<open>ev_timer_add\<close> takes from the pool, initialises and starts.\<close>

lemma ev_timer_add_slot:
  assumes inv: "timer_inv B s xs" and p: "pool_ok B" and free: "used_slots B s \<noteq> {..<24}"
  shows "\<exists>i s'. i < 24 \<and> i \<notin> used_slots B s \<and> ev_timer_add clk B func arg tmo s = Some (evt_addr B i, s') \<and>
           timer_inv B s' (evt_addr B i # xs) \<and> reg_irq_en s' = reg_irq_en s \<and> T_evtExcept s' = T_evtExcept s \<and>
           evt_cb (tev s' (evt_addr B i)) = func \<and> evt_data (tev s' (evt_addr B i)) = arg \<and>
           timeout (tev s' (evt_addr B i)) = tmo \<and> period (tev s' (evt_addr B i)) = tmo \<and>
           used_num s' = used_num s + 1 \<and> is_nearest (tev s') (evt_addr B i # xs) (timer_nearest s')"
proof -
  obtain i where i: "i < 24" "i \<notin> used_slots B s" and g: "ev_timer_freeGet B s = (evt_addr B i, grab (evt_addr B i) s)"
    using ev_timer_freeGet_slot [OF inv free] by blast
  let ?e = "evt_addr B i"
  let ?s = "upd_evt ?e (\<lambda>t. t\<lparr>evt_cb := func, evt_data := arg\<rparr>)
              (grab ?e s)"
  have e: "?e \<noteq> NULL" "?e \<notin> set xs" and c: "chain (mem ?s) (timer_head ?s) xs"
    using evt_addr_nonnull [OF p i(1)] inv i by (auto simp: timer_inv_def grab_def)
  obtain n where n: "ev_on_timer clk ?e tmo ?s = Some (started clk ?e tmo n ?s)"
      "is_nearest (tev (started clk ?e tmo n ?s)) (?e # xs) n"
    using ev_on_timer_new [OF c e] by blast
  let ?s' = "started clk ?e tmo n ?s"
  have us: "used_slots B ?s' = insert i (used_slots B s)"
    using i(1) evt_addr_inj [OF p _ i(1)] by (auto simp: used_slots_def started_def grab_def)
  have "unat (used_num s + 1) = card (insert i (used_slots B s))"
    using inv i(2) used_slots_card [of B s] by (subst unat_inc_no_wrap) (simp_all add: timer_inv_def)
  moreover have "j \<in> insert i (used_slots B s) \<longleftrightarrow> evt_addr B j \<in> set (?e # xs)" if "j < 24" for j
    using inv that evt_addr_inj [OF p that i(1)] by (auto simp: timer_inv_def)
  ultimately have "timer_inv B ?s' (?e # xs)"
    using inv us i(1) e by (auto simp: timer_inv_def started_def grab_def)
  then show ?thesis
    using i g e n by (intro exI [of _ i] exI [of _ ?s']) (simp add: ev_timer_add_def Let_def started_def grab_def)
qed

lemma ev_timer_add_full:
  assumes "timer_inv B s xs" "used_slots B s = {..<24}"
  shows "ev_timer_add clk B func arg tmo s = Some (NULL, sys_exceptionPost 199 SYS_EXCEPTTION_COMMON_TIMER_EVEVT s)"
  using ev_timer_freeGet_full [OF assms] by (simp add: ev_timer_add_def)

section \<open>Elapsed time\<close>

definition tick_all ::
  "u32 \<Rightarrow> u32 \<Rightarrow> u32 \<Rightarrow> addr list \<Rightarrow> (addr \<Rightarrow> ev_timer_event_t) \<Rightarrow> addr \<Rightarrow> ev_timer_event_t" where
  "tick_all us ct ut xs tv e = (if e \<in> set xs then update_event us ct ut (tv e) else tv e)"

lemma update_loop_chain:
  "chain (mem s) p ys \<Longrightarrow> update_loop us ct ut p s = Some (s\<lparr>tev := tick_all us ct ut ys (tev s)\<rparr>)"
proof (induction ys arbitrary: p s)
  case Nil
  have "tick_all us ct ut [] (tev s) = tev s" by (rule ext) (simp add: tick_all_def)
  then show ?case using Nil by (simp add: update_loop.simps)
next
  case (Cons y ys)
  then have p: "p = y" "y \<noteq> NULL" and c: "chain (mem s) (mem s y) ys" by auto
  let ?s = "upd_evt y (update_event us ct ut) s"
  have y: "y \<notin> set ys" by (rule chain_head_notin_tail [OF c])
  have "chain (mem ?s) (mem s y) ys" using c by simp
  note ih = Cons.IH [OF this]
  have "tick_all us ct ut ys (tev ?s) = tick_all us ct ut (y # ys) (tev s)"
    using y by (intro ext) (auto simp: tick_all_def)
  then show ?case using ih p by (simp only: update_loop.simps [of us ct ut y s] Let_def) (simp cong del: if_weak_cong)
qed

lemma ev_timer_update_chain:
  assumes "chain (mem s) (timer_head s) xs" "ut \<noteq> 0"
  shows "ev_timer_update us clk ut s = Some (s\<lparr>tev := tick_all us clk ut xs (tev s)\<rparr>)"
  using update_loop_chain [of "s\<lparr>reg_irq_en := 0\<rparr>" "timer_head s" xs us clk ut] assms
  by (simp add: ev_timer_update_def drv_disable_irq_def drv_restore_irq_def)

lemma timeout_update_event:
  "unat (timeout (update_event us ct ut t)) =
     unat (timeout t) - unat (if isRunning t \<noteq> 0 then ut else (ct - curSysTick t) div (us * 1000))"
proof -
  have sat: "unat (if b < a then a - b else 0) = unat a - unat b" for a b :: u32
  proof (cases "b < a")
    case True
    then show ?thesis using unat_sub_no_wrap [of b a] by simp
  next
    case False
    then have "unat a \<le> unat b" by (simp add: not_less word_le_nat_alt)
    with False show ?thesis by simp
  qed
  let ?x = "if isRunning t \<noteq> 0 then ut else (ct - curSysTick t) div (us * 1000)"
  have "timeout (update_event us ct ut t) = (if ?x < timeout t then timeout t - ?x else 0)"
    by (simp add: update_event_def Let_def)
  then show ?thesis by (simp only: sat)
qed

lemma isRunning_update_event [simp]: "isRunning (update_event us ct ut t) \<noteq> 0"
  by (simp add: update_event_def Let_def)

lemma used_update_event [simp]: "used (update_event us ct ut t) = used t"
  by (simp add: update_event_def Let_def)

lemma timer_inv_tick:
  assumes "timer_inv B s xs"
  shows "timer_inv B (s\<lparr>tev := tick_all us ct ut ys (tev s)\<rparr>) xs"
proof -
  have "used_slots B (s\<lparr>tev := tick_all us ct ut ys (tev s)\<rparr>) = used_slots B s"
    by (simp add: used_slots_def tick_all_def)
  then show ?thesis using assms by (simp add: timer_inv_def)
qed

lemma ev_timer_update_inv:
  assumes "timer_inv B s xs"
  shows "\<exists>s'. ev_timer_update us clk ut s = Some s' \<and> timer_inv B s' xs"
proof (cases "ut = 0")
  case True
  then show ?thesis using assms by (simp add: ev_timer_update_def)
next
  case False
  have "chain (mem s) (timer_head s) xs" using assms by (simp add: timer_inv_def)
  from ev_timer_update_chain [OF this False] show ?thesis using timer_inv_tick [OF assms] by simp
qed

section \<open>Callbacks\<close>

text \<open>Callbacks that keep the invariant: the round then keeps it too.\<close>

definition callbacks_keep ::
  "addr \<Rightarrow> (addr \<Rightarrow> addr \<Rightarrow> 'a tmr_state_scheme \<Rightarrow> int \<times> 'a tmr_state_scheme) \<Rightarrow> bool" where
  "callbacks_keep B call \<longleftrightarrow>
     (\<forall>f d s xs. timer_inv B s xs \<longrightarrow> (\<exists>ys. timer_inv B (snd (call f d s)) ys))"

lemma after_callback_inv:
  assumes "timer_inv B s ys" "pool_ok B"
    and "(if t < (0::int) then ev_unon_timer B e s
          else if t = 0 then Some (upd_evt e (\<lambda>e. e\<lparr>timeout := period e\<rparr>) s)
          else Some (upd_evt e (\<lambda>e. e\<lparr>period := word_of_int t, timeout := word_of_int t\<rparr>) s)) = Some s2"
  shows "\<exists>zs. timer_inv B s2 zs"
proof -
  consider "t < 0" | "t = 0" | "t > 0" by linarith
  then show ?thesis
  proof cases
    case 1
    then show ?thesis using ev_unon_timer_inv [OF assms(1,2), of e] assms(3) by auto
  next
    case 2
    then show ?thesis
      using timer_inv_upd_evt [OF assms(1), of "\<lambda>t. t\<lparr>timeout := period t\<rparr>" e] assms(3) by auto
  next
    case 3
    then show ?thesis
      using timer_inv_upd_evt [OF assms(1), of "\<lambda>x. x\<lparr>period := word_of_int t, timeout := word_of_int t\<rparr>" e]
        assms(3) by auto
  qed
qed

lemma execute_loop_inv:
  assumes run: "execute_loop B call e ph s = Some s'"
  shows "\<forall>xs. pool_ok B \<longrightarrow> callbacks_keep B call \<longrightarrow> timer_inv B s xs \<longrightarrow> (\<exists>ys. timer_inv B s' ys)"
proof (rule execute_loop.raw_induct [of
      "\<lambda>B call e ph s s'. \<forall>xs. pool_ok B \<longrightarrow> callbacks_keep B call \<longrightarrow> timer_inv B s xs \<longrightarrow> (\<exists>ys. timer_inv B s' ys)",
      OF _ run], goal_cases)
  case (1 loop B call e ph s s')
  show ?case
  proof (intro allI impI)
    fix xs assume h: "pool_ok B" "callbacks_keep B call" "timer_inv B s xs"
    show "\<exists>ys. timer_inv B s' ys"
    proof (cases "e \<noteq> NULL \<and> timeout (tev s e) = 0")
      case False
      then have "s' = s \<or> loop B call (mem s e) ph s = Some s'" using 1(2) by (simp split: if_splits)
      then show ?thesis using 1(1) h by blast
    next
      case True
      obtain t s1 where c: "call (evt_cb (tev s e)) (evt_data (tev s e)) s = (t, s1)" by fastforce
      then obtain ys where ys: "timer_inv B s1 ys"
        using h unfolding callbacks_keep_def by (metis snd_conv)
      let ?r = "if t < 0 then ev_unon_timer B e s1
                else if t = 0 then Some (upd_evt e (\<lambda>e. e\<lparr>timeout := period e\<rparr>) s1)
                else Some (upd_evt e (\<lambda>e. e\<lparr>period := word_of_int t, timeout := word_of_int t\<rparr>) s1)"
      have body: "(case ?r of None \<Rightarrow> None
          | Some s2 \<Rightarrow> if ph \<noteq> timer_head s2 then loop B call (timer_head s2) (timer_head s2) s2
                        else loop B call (mem s2 e) ph s2) = Some s'"
        using 1(2) True c by (simp only: Let_def prod.case if_True simp_thms)
      then obtain s2 where s2: "?r = Some s2" by (cases ?r) (simp_all only: option.case option.distinct)
      obtain zs where zs: "timer_inv B s2 zs" using after_callback_inv [OF ys h(1) s2] by blast
      have "(if ph \<noteq> timer_head s2 then loop B call (timer_head s2) (timer_head s2) s2
             else loop B call (mem s2 e) ph s2) = Some s'"
        using body by (simp only: s2 option.case)
      then have "loop B call (timer_head s2) (timer_head s2) s2 = Some s' \<or> loop B call (mem s2 e) ph s2 = Some s'"
        by (simp split: if_splits)
      then show ?thesis using 1(1) h zs by blast
    qed
  qed
qed

text \<open>
  A state with a log of the callbacks that ran, and callbacks that only return a value: in this case
  the round is described completely.
\<close>

record log_state = tmr_state +
  cb_log :: "(addr \<times> addr) list"

definition returning :: "(addr \<Rightarrow> addr \<Rightarrow> int) \<Rightarrow> addr \<Rightarrow> addr \<Rightarrow> log_state \<Rightarrow> int \<times> log_state" where
  "returning ret f d s = (ret f d, s\<lparr>cb_log := cb_log s @ [(f, d)]\<rparr>)"

definition expired :: "(addr \<Rightarrow> ev_timer_event_t) \<Rightarrow> addr \<Rightarrow> bool" where
  "expired tv e \<longleftrightarrow> timeout (tv e) = 0"

definition dropped :: "(addr \<Rightarrow> addr \<Rightarrow> int) \<Rightarrow> (addr \<Rightarrow> ev_timer_event_t) \<Rightarrow> addr \<Rightarrow> bool" where
  "dropped ret tv e \<longleftrightarrow> expired tv e \<and> ret (evt_cb (tv e)) (evt_data (tv e)) < 0"

definition entry :: "(addr \<Rightarrow> ev_timer_event_t) \<Rightarrow> addr \<Rightarrow> addr \<times> addr" where
  "entry tv e = (evt_cb (tv e), evt_data (tv e))"

lemma hd_chain: "chain m p ys \<Longrightarrow> p = hd (ys @ [NULL])"
  by (cases ys) auto

lemma filter_tev_cong:
  assumes "\<And>y. y \<in> set ys \<Longrightarrow> tv' y = tv y"
  shows "filter (\<lambda>y. \<not> dropped ret tv' y) ys = filter (\<lambda>y. \<not> dropped ret tv y) ys"
    and "map (entry tv') (filter (expired tv') ys) = map (entry tv) (filter (expired tv) ys)"
  using assms by (auto simp: dropped_def expired_def entry_def intro!: filter_cong map_cong)

lemma execute_loop_returning:
  assumes "chain (mem s) (timer_head s) (ps @ ys)"
  shows "\<exists>s'. execute_loop B (returning ret) (hd (ys @ [NULL])) (timer_head s) s = Some s' \<and>
           chain (mem s') (timer_head s') (ps @ filter (\<lambda>y. \<not> dropped ret (tev s) y) ys) \<and>
           cb_log s' = cb_log s @ map (entry (tev s)) (filter (expired (tev s)) ys)"
  using assms
proof (induction ys arbitrary: ps s)
  case Nil
  then show ?case by (simp add: execute_loop.simps)
next
  case (Cons y ys)
  let ?ih = "\<lambda>ps s1. \<exists>s'. execute_loop B (returning ret) (hd (ys @ [NULL])) (timer_head s1) s1 = Some s' \<and>
           chain (mem s') (timer_head s') (ps @ filter (\<lambda>y. \<not> dropped ret (tev s1) y) ys) \<and>
           cb_log s' = cb_log s1 @ map (entry (tev s1)) (filter (expired (tev s1)) ys)"
  have d: "distinct (ps @ y # ys)" by (rule chain_distinct [OF Cons.prems])
  have y0: "y \<noteq> NULL" and nx: "mem s y = hd (ys @ [NULL])"
    using Cons.prems hd_chain [of "mem s" "mem s y" ys] by (auto simp: seg_append)
  define t where "t = ret (evt_cb (tev s y)) (evt_data (tev s y))"
  let ?s1 = "s\<lparr>cb_log := cb_log s @ [entry (tev s) y]\<rparr>"
  note step = execute_loop.simps [of B "returning ret" y "timer_head s" s]
  consider "\<not> expired (tev s) y" | "expired (tev s) y" "t < 0" | "expired (tev s) y" "t \<ge> 0" by linarith
  then show ?case
  proof cases
    case 1
    have "?ih (ps @ [y]) s" using Cons.prems by (intro Cons.IH) simp
    moreover have "execute_loop B (returning ret) y (timer_head s) s =
        execute_loop B (returning ret) (hd (ys @ [NULL])) (timer_head s) s"
      using step 1 y0 nx by (simp add: expired_def)
    ultimately show ?thesis using 1 by (simp add: dropped_def)
  next
    case 2
    have c1: "chain (mem ?s1) (timer_head ?s1) (ps @ y # ys)" using Cons.prems by simp
    obtain h m n where u: "ev_unon_timer B y ?s1 = Some (stopped B y h m n ?s1)" "chain m h (ps @ ys)"
        "ps \<noteq> [] \<longrightarrow> h = timer_head ?s1" "\<forall>a. a \<notin> set ps \<longrightarrow> m a = mem ?s1 a"
      using ev_unon_timer_present [OF c1] by blast
    let ?s2 = "stopped B y h m n ?s1"
    have s2: "timer_head ?s2 = h" "mem ?s2 = m" "cb_log ?s2 = cb_log s @ [entry (tev s) y]"
      by (simp_all add: stopped_def)
    have tv: "tev ?s2 z = tev s z" if "z \<in> set ys" for z using that d by (auto simp: stopped_def)
    have ih: "?ih ps ?s2" using u(2) s2 by (intro Cons.IH) simp
    have loop: "execute_loop B (returning ret) y (timer_head s) s =
        execute_loop B (returning ret) (hd (ys @ [NULL])) (timer_head ?s2) ?s2"
    proof (cases "ps = []")
      case True
      then have "timer_head s = y" "h = hd (ys @ [NULL])" using Cons.prems u(2) hd_chain by auto
      moreover have "hd (ys @ [NULL]) \<noteq> y" using d y0 by (cases ys) auto
      ultimately show ?thesis
        using step 2 y0 u(1) s2 by (simp add: expired_def returning_def t_def entry_def)
    next
      case False
      then have "h = timer_head s" using u(3) by simp
      moreover have "m y = hd (ys @ [NULL])" using u(4) d nx by auto
      ultimately show ?thesis
        using step 2 y0 u(1) s2 by (simp add: expired_def returning_def t_def entry_def)
    qed
    have "dropped ret (tev s) y" using 2 by (simp add: dropped_def t_def)
    then show ?thesis
      using ih loop s2 2(1) by (simp add: filter_tev_cong [of ys "tev ?s2" "tev s", OF tv])
  next
    case 3
    let ?f = "if t = 0 then (\<lambda>e. e\<lparr>timeout := period e\<rparr>)
              else (\<lambda>e. e\<lparr>period := word_of_int t, timeout := word_of_int t\<rparr>)"
    let ?s2 = "upd_evt y ?f ?s1"
    have tv: "tev ?s2 z = tev s z" if "z \<in> set ys" for z using that d by auto
    have ih: "?ih (ps @ [y]) ?s2" using Cons.prems by (intro Cons.IH) simp
    have loop: "execute_loop B (returning ret) y (timer_head s) s =
        execute_loop B (returning ret) (hd (ys @ [NULL])) (timer_head ?s2) ?s2"
      using step 3 y0 nx by (simp add: expired_def returning_def t_def entry_def Let_def)
    have "\<not> dropped ret (tev s) y" using 3 by (simp add: dropped_def t_def)
    moreover have "timer_head ?s2 = timer_head s" "cb_log ?s2 = cb_log s @ [entry (tev s) y]" by simp_all
    ultimately show ?thesis
      using ih loop 3(1) by (simp only: filter_tev_cong [of ys "tev ?s2" "tev s", OF tv]) simp
  qed
qed

section \<open>Runs\<close>

text \<open>
  A step of the program that uses the timers: a call of the service, or anything else that changes neither the
  events, nor the head and the count, nor the link of an event that is on the list. The event a caller starts
  with \<^verbatim>\<open>ev_on_timer\<close> is its own, not one of the pool's.
\<close>

definition same_timers :: "'a tmr_state_scheme \<Rightarrow> 'a tmr_state_scheme \<Rightarrow> bool" where
  "same_timers s s' \<longleftrightarrow> tev s' = tev s \<and> timer_head s' = timer_head s \<and> used_num s' = used_num s \<and>
     (\<forall>e. ev_timer_exist e s = Some True \<longrightarrow> mem s' e = mem s e)"

inductive timer_step :: "addr \<Rightarrow> 'a tmr_state_scheme \<Rightarrow> 'a tmr_state_scheme \<Rightarrow> bool" for B where
  on: "own_event B e \<Longrightarrow> ev_on_timer clk e tmo s = Some s' \<Longrightarrow> timer_step B s s'"
| off: "ev_unon_timer B e s = Some s' \<Longrightarrow> timer_step B s s'"
| post: "ev_timer_taskPost clk B f d tmo s = Some (e, s') \<Longrightarrow> timer_step B s s'"
| cancel: "ev_timer_taskCancel B e s = Some (r, e', s') \<Longrightarrow> timer_step B s s'"
| other: "same_timers s s' \<Longrightarrow> timer_step B s s'"

text \<open>
  What a callback does is a sequence of such steps, of any length and depending on anything. A run is one of
  initialisation, steps and processing rounds with such callbacks.
\<close>

definition stepwise ::
  "addr \<Rightarrow> (addr \<Rightarrow> addr \<Rightarrow> 'a tmr_state_scheme \<Rightarrow> int \<times> 'a tmr_state_scheme) \<Rightarrow> bool" where
  "stepwise B call \<longleftrightarrow> (\<forall>f d s. (timer_step B)\<^sup>*\<^sup>* s (snd (call f d s)))"

inductive timer_run :: "addr \<Rightarrow> 'a tmr_state_scheme \<Rightarrow> 'a tmr_state_scheme \<Rightarrow> bool" for B s0 where
  start: "timer_run B s0 (ev_timer_init B s0)"
| step: "timer_run B s0 s \<Longrightarrow> timer_step B s s' \<Longrightarrow> timer_run B s0 s'"
| process: "timer_run B s0 s \<Longrightarrow> stepwise B call \<Longrightarrow> ev_timer_process us B call clk clk' s = Some s' \<Longrightarrow>
              timer_run B s0 s'"

lemma ev_on_timer_inv:
  assumes inv: "timer_inv B s xs" and p: "pool_ok B" and e: "own_event B e"
    and run: "ev_on_timer clk e tmo s = Some s'"
  shows "\<exists>ys. timer_inv B s' ys"
proof (cases "e \<in> set xs")
  have c: "chain (mem s) (timer_head s) xs" using inv by (simp add: timer_inv_def)
  case True
  then obtain n where "ev_on_timer clk e tmo s = Some (restarted e tmo n s)"
    using ev_on_timer_restart [OF c True] by blast
  then show ?thesis using timer_inv_restarted [OF inv] run by (metis option.inject)
next
  have c: "chain (mem s) (timer_head s) xs" using inv by (simp add: timer_inv_def)
  have nn: "e \<noteq> NULL" using e by (simp add: own_event_def)
  case False
  then obtain n where "ev_on_timer clk e tmo s = Some (started clk e tmo n s)"
    using ev_on_timer_new [OF c nn False] by blast
  then show ?thesis using timer_inv_started [OF inv nn False p e] run by (metis option.inject)
qed

lemma ev_timer_taskPost_inv:
  assumes inv: "timer_inv B s xs" and p: "pool_ok B" and run: "ev_timer_taskPost clk B f d tmo s = Some (e, s')"
  shows "\<exists>ys. timer_inv B s' ys"
proof -
  let ?s = "s\<lparr>reg_irq_en := 0\<rparr>"
  have inv': "timer_inv B ?s xs" using inv by simp
  show ?thesis
  proof (cases "used_slots B ?s = {..<24}")
    case True
    then show ?thesis using ev_timer_add_full [OF inv' True] inv' run
      by (auto simp: ev_timer_taskPost_def drv_disable_irq_def drv_restore_irq_def)
  next
    case False
    then show ?thesis using ev_timer_add_slot [OF inv' p False, of clk f d tmo] run
      by (auto simp: ev_timer_taskPost_def drv_disable_irq_def drv_restore_irq_def)
  qed
qed

lemma same_timers_inv:
  assumes inv: "timer_inv B s xs" and s': "same_timers s s'"
  shows "timer_inv B s' xs"
proof -
  have c: "chain (mem s) (timer_head s) xs" using inv by (simp add: timer_inv_def)
  then have "mem s' x = mem s x" if "x \<in> set xs" for x
    using that s' timer_exist_loop_chain [OF c, of x] by (simp add: same_timers_def ev_timer_exist_def)
  then have "chain (mem s') (timer_head s) xs" using chain_cong [of xs "mem s'" "mem s"] c by simp
  then show ?thesis using inv s' by (simp add: timer_inv_def same_timers_def used_slots_def)
qed

lemma timer_step_inv:
  assumes "timer_step B s s'" "pool_ok B" "timer_inv B s xs"
  shows "\<exists>ys. timer_inv B s' ys"
  using assms(1)
proof cases
  case (on e clk tmo)
  then show ?thesis using ev_on_timer_inv [OF assms(3,2)] by blast
next
  case (off e)
  then show ?thesis using ev_unon_timer_inv [OF assms(3,2)] by (metis option.inject)
next
  case (post clk f d tmo e)
  then show ?thesis using ev_timer_taskPost_inv [OF assms(3,2)] by blast
next
  case (cancel e r e')
  then show ?thesis using assms(3) ev_unon_timer_inv [OF assms(3,2), of e]
    by (auto simp: ev_timer_taskCancel_def split: if_splits)
next
  case other
  then show ?thesis using same_timers_inv [OF assms(3)] by blast
qed

lemma timer_steps_inv:
  assumes "(timer_step B)\<^sup>*\<^sup>* s s'" "pool_ok B" "timer_inv B s xs"
  shows "\<exists>ys. timer_inv B s' ys"
  using assms(1,3)
  by (induction arbitrary: xs rule: converse_rtranclp_induct) (blast intro: assms(2) dest: timer_step_inv)+

lemma stepwise_keep: "pool_ok B \<Longrightarrow> stepwise B call \<Longrightarrow> callbacks_keep B call"
  unfolding callbacks_keep_def stepwise_def using timer_steps_inv by blast

lemma timer_inv_ticks [simp]:
  "timer_inv B (s\<lparr>prevSysTick := a\<rparr>) xs = timer_inv B s xs" "timer_inv B (s\<lparr>remSysTick := b\<rparr>) xs = timer_inv B s xs"
  by (simp_all add: timer_inv_def used_slots_def)

lemma ev_timer_executeCB_inv:
  assumes "timer_inv B s xs" "pool_ok B" "callbacks_keep B call" "ev_timer_executeCB B call s = Some s'"
  shows "\<exists>ys. timer_inv B s' ys"
proof -
  obtain s1 where s1: "execute_loop B call (timer_head s) (timer_head s) s = Some s1"
      "ev_timer_nearestUpdate s1 = Some s'"
    using assms(4) by (auto simp: ev_timer_executeCB_def split: option.splits)
  obtain ys where ys: "timer_inv B s1 ys" using execute_loop_inv [OF s1(1)] assms by blast
  then show ?thesis using s1(2) by (auto simp: ev_timer_nearestUpdate_def split: option.splits)
qed

text \<open>A processing round, given the milliseconds \<open>ut\<close> and remaining ticks \<open>r\<close> it computes.\<close>

definition round ::
  "u32 \<Rightarrow> addr \<Rightarrow> (addr \<Rightarrow> addr \<Rightarrow> 'a tmr_state_scheme \<Rightarrow> int \<times> 'a tmr_state_scheme) \<Rightarrow> u32 \<Rightarrow> u32 \<Rightarrow>
     'a tmr_state_scheme \<Rightarrow> 'a tmr_state_scheme option"
where
  "round us B call clk' ut s =
     (if ut \<noteq> 0 then case ev_timer_update us clk' ut s of
          None \<Rightarrow> None | Some s4 \<Rightarrow> ev_timer_executeCB B call s4
      else Some s)"

lemma ev_timer_process_round:
  assumes "clk \<noteq> prevSysTick s"
  shows "ev_timer_process us B call clk clk' s =
     round us B call clk'
       ((clk - prevSysTick s) div (us * 1000) +
        (remSysTick s + (clk - prevSysTick s) mod (us * 1000)) div (us * 1000))
       (s\<lparr>prevSysTick := clk,
          remSysTick := (remSysTick s + (clk - prevSysTick s) mod (us * 1000)) mod (us * 1000)\<rparr>)"
  using assms by (simp add: ev_timer_process_def round_def Let_def)

lemma round_inv:
  assumes "timer_inv B s xs" "pool_ok B" "callbacks_keep B call" "round us B call clk' ut s = Some s'"
  shows "\<exists>ys. timer_inv B s' ys"
proof (cases "ut = 0")
  case False
  obtain s4 where s4: "ev_timer_update us clk' ut s = Some s4" "timer_inv B s4 xs"
    using ev_timer_update_inv [OF assms(1)] by blast
  then show ?thesis
    using ev_timer_executeCB_inv [OF s4(2) assms(2,3)] assms(4) False by (simp add: round_def)
qed (use assms in \<open>auto simp: round_def\<close>)

text \<open>The arithmetic of \<^verbatim>\<open>ev_timer_process\<close>: milliseconds and remaining ticks account for every tick.\<close>

lemma tick_split:
  fixes us ticks rem :: u32
  assumes us: "0 < unat us" "unat us * 2000 < 2 ^ 32" and rem: "unat rem < unat us * 1000"
  defines "ms \<equiv> us * 1000"
  defines "rem1 \<equiv> rem + ticks mod ms"
  shows "unat (ticks div ms + rem1 div ms) * (unat us * 1000) + unat (rem1 mod ms) = unat ticks + unat rem"
    and "unat (rem1 mod ms) < unat us * 1000"
proof -
  have ms: "unat ms = unat us * 1000" using us unat_mult_lem [of us 1000] by (simp add: ms_def)
  have mpos: "0 < unat ms" using ms us by simp
  have lt: "unat ticks mod unat ms < unat ms" using mpos by simp
  then have nw: "unat rem + unat (ticks mod ms) < 2 ^ 32" using rem us ms by (simp only: unat_mod)
  then have r1: "unat rem1 = unat rem + unat ticks mod unat ms"
    unfolding rem1_def using unat_add_no_wrap [of rem "ticks mod ms"] by (simp add: unat_mod)
  have r2: "unat rem1 < 2 * unat ms" using r1 rem ms mpos mod_less_divisor [of "unat ms" "unat ticks"] by linarith
  have "unat rem1 div unat ms < 2" using r2 by (simp add: less_mult_imp_div_less)
  moreover have "unat ticks div unat ms \<le> unat ticks div 1000"
    using ms us by (intro div_le_mono2) simp_all
  moreover have "unat ticks div 1000 < 2 ^ 32 - 2" using unsigned_less [of ticks, where 'a = nat] by simp
  ultimately have "unat (ticks div ms + rem1 div ms) = unat ticks div unat ms + unat rem1 div unat ms"
    by (subst unat_add_no_wrap) (simp_all add: unat_div)
  then show "unat (ticks div ms + rem1 div ms) * (unat us * 1000) + unat (rem1 mod ms) = unat ticks + unat rem"
    using r1 div_mult_mod_eq [of "unat ticks" "unat ms"] div_mult_mod_eq [of "unat rem1" "unat ms"]
    unfolding ms [symmetric] by (simp only: unat_mod distrib_right)
  show "unat (rem1 mod ms) < unat us * 1000" using ms mpos by (simp add: unat_mod)
qed

section \<open>Properties\<close>

definition demo_timers :: log_state where
  "demo_timers = \<lparr>mem = (\<lambda>_. 0), reg_irq_en = 1, T_evtExcept = [0, 0, 0, 0], g_sysExceptCallback = 0, exc_calls = [],
     tev = (\<lambda>_. \<lparr>evt_cb = 0, evt_data = 0, timeout = 0, period = 0, curSysTick = 0, isRunning = 0, used = 0\<rparr>),
     timer_head = 0, timer_nearest = 0, used_num = 0, prevSysTick = 0, remSysTick = 0, cb_log = []\<rparr>"

lemma demo_pool_ok: "pool_ok 0x840100"
  by (simp add: pool_ok_def)

lemma demo_timers_inv: "timer_inv 0x840100 demo_timers []"
  by (simp add: timer_inv_def demo_timers_def used_slots_def)

text \<open>
  C10. The timer service keeps its invariant in every reachable state: after initialisation and any
  sequence of starting, stopping, posting and cancelling timers and of processing rounds, the events form a
  well-formed list, \<^verbatim>\<open>used_num\<close> is the number of used events of the pool, and the used events of the pool are
  exactly those on the list (so no pool event is lost). A callback that a round calls may start, stop, post
  and cancel timers, its own and others, any number of times, and may change everything else; the callbacks
  and the rest of the program reach the timers through these functions only, and an event started with
  \<^verbatim>\<open>ev_on_timer\<close> is the caller's own, outside the pool. The pool array lies in memory without wrapping around.
\<close>

theorem ev_timer_run_inv:
  assumes "pool_ok B" and "timer_run B s0 s"
  shows "\<exists>xs. timer_inv B s xs"
  using assms(2)
proof (induction rule: timer_run.induct)
  case start
  then show ?case using timer_inv_init by blast
next
  case (step s s')
  then show ?case using timer_step_inv [OF _ assms(1)] by blast
next
  case (process s call us clk clk' s')
  then obtain xs where xs: "timer_inv B s xs" by blast
  show ?case
  proof (cases "clk = prevSysTick s")
    case True
    then show ?thesis using xs process.hyps(3) by (auto simp: ev_timer_process_def)
  next
    case False
    have "timer_inv B (s\<lparr>prevSysTick := clk, remSysTick := r\<rparr>) xs" for r using xs by simp
    from round_inv [OF this assms(1) stepwise_keep [OF assms(1) process.hyps(2)]] show ?thesis
      using process.hyps(3) unfolding ev_timer_process_round [OF False] by blast
  qed
qed

text \<open>
  A run with a callback: a timer of 5 ms is posted; when it is due, its callback posts another one of 30 ms and
  returns a negative value, which removes the first.
\<close>

definition demo_cb :: "addr \<Rightarrow> addr \<Rightarrow> log_state \<Rightarrow> int \<times> log_state" where
  "demo_cb f d s =
     (if f = 0x1000 then case ev_timer_taskPost 90000 0x840100 0x2000 d 30 s of None \<Rightarrow> (0, s) | Some (_, s1) \<Rightarrow> (- 1, s1)
      else (0, s\<lparr>cb_log := cb_log s @ [(f, d)]\<rparr>))"

lemma demo_cb_stepwise: "stepwise 0x840100 demo_cb"
proof -
  have "(timer_step 0x840100)\<^sup>*\<^sup>* s (snd (demo_cb f d s))" for f d s
  proof (cases "f = 0x1000")
    case True
    then show ?thesis
      by (auto simp: demo_cb_def split: option.splits intro: timer_step.post)
  next
    case False
    then have "same_timers s (snd (demo_cb f d s))" by (simp add: demo_cb_def same_timers_def)
    then show ?thesis by (blast intro: timer_step.other)
  qed
  then show ?thesis by (simp add: stepwise_def)
qed

text \<open>Posting a timer when \<^verbatim>\<open>ev_timer_freeGet\<close> finds the event \<open>e\<close>.\<close>

lemma taskPost_free:
  assumes "ev_timer_freeGet B (s\<lparr>reg_irq_en := 0\<rparr>) = (e, s1)" "e \<noteq> NULL" "chain (mem s1) (timer_head s1) xs" "e \<notin> set xs"
  shows "\<exists>n. ev_timer_taskPost clk B f d tmo s =
           Some (e, (started clk e tmo n (upd_evt e (\<lambda>t. t\<lparr>evt_cb := f, evt_data := d\<rparr>) s1))\<lparr>reg_irq_en := reg_irq_en s\<rparr>)"
proof -
  let ?s2 = "upd_evt e (\<lambda>t. t\<lparr>evt_cb := f, evt_data := d\<rparr>) s1"
  have "chain (mem ?s2) (timer_head ?s2) xs" using assms(3) by simp
  then obtain n where "ev_on_timer clk e tmo ?s2 = Some (started clk e tmo n ?s2)"
    using ev_on_timer_new [of ?s2 xs e clk tmo] assms(2,4) by blast
  then show ?thesis
    using assms(1,2) by (auto simp: ev_timer_taskPost_def ev_timer_add_def drv_disable_irq_def drv_restore_irq_def)
qed

text \<open>A round over a single timer, posted with \<open>demo_cb\<close> at 0x1000, that is due.\<close>

lemma demo_cb_round:
  assumes "chain (mem s) (timer_head s) [0x840100]" and "timeout (tev s 0x840100) = 0" and "evt_cb (tev s 0x840100) = 0x1000"
    and "used_num s = 1" and "used (tev s 0x840100) = 1" and "used (tev s 0x84011c) = 0"
  shows "\<exists>s'. ev_timer_executeCB 0x840100 demo_cb s = Some s' \<and> used_num s' = 1 \<and> evt_cb (tev s' (timer_head s')) = 0x2000"
proof -
  let ?B = "0x840100 :: addr" and ?e = "0x84011c :: addr" and ?d = "evt_data (tev s 0x840100)"
  have h: "timer_head s = ?B" "mem s ?B = NULL" using assms(1) by simp_all
  let ?g = "(upd_evt ?e (used_update (\<lambda>_. 1)) (s\<lparr>reg_irq_en := 0\<rparr>))\<lparr>used_num := 2\<rparr>"
  have "ev_timer_freeGet ?B (s\<lparr>reg_irq_en := 0\<rparr>) = (?e, ?g)"
    using assms(4-6) by (simp add: ev_timer_freeGet_def evt_addr_def upt_rec [of 0] upt_rec [of "Suc 0"] g_ev_timer_maxNum_def word_le_nat_alt)
  then have "\<exists>n. ev_timer_taskPost 90000 ?B 0x2000 ?d 30 s = Some (?e, (started 90000 ?e 30 n
          (upd_evt ?e (\<lambda>t. t\<lparr>evt_cb := 0x2000, evt_data := ?d\<rparr>) ?g))\<lparr>reg_irq_en := reg_irq_en s\<rparr>)"
    by (rule taskPost_free [where xs = "[?B]"]) (use assms(1) in simp_all)
  then obtain n where
    p: "ev_timer_taskPost 90000 ?B 0x2000 ?d 30 s = Some (?e, (started 90000 ?e 30 n
          (upd_evt ?e (\<lambda>t. t\<lparr>evt_cb := 0x2000, evt_data := ?d\<rparr>) ?g))\<lparr>reg_irq_en := reg_irq_en s\<rparr>)" (is "_ = Some (_, ?s1)") ..
  have c: "demo_cb 0x1000 ?d s = (- 1, ?s1)" by (simp add: demo_cb_def p)
  have "chain (mem ?s1) (timer_head ?s1) ([?e] @ ?B # [])" using h by (simp add: started_def)
  from ev_unon_timer_present [OF this, of ?B] obtain hd' m n' where
    u: "ev_unon_timer ?B ?B ?s1 = Some (stopped ?B ?B hd' m n' ?s1)" "chain m hd' [?e]" "hd' = ?e"
    by (auto simp: started_def)
  let ?s2 = "stopped ?B ?B hd' m n' ?s1"
  have s2: "timer_head ?s2 = ?e" "mem ?s2 ?e = NULL" "timeout (tev ?s2 ?e) = 30" "evt_cb (tev ?s2 ?e) = 0x2000" "used_num ?s2 = 1"
    using u(2,3) assms(5) by (simp_all add: stopped_def started_def in_pool_def evt_addr_def)
  have "execute_loop ?B demo_cb (timer_head s) (timer_head s) s = execute_loop ?B demo_cb ?e ?e ?s2"
    using assms(2,3) c u(1) s2(1) unfolding h by (simp add: execute_loop.simps [of _ _ ?B])
  also have "\<dots> = Some ?s2"
    using s2 by (simp add: execute_loop.simps)
  finally have e: "execute_loop ?B demo_cb (timer_head s) (timer_head s) s = Some ?s2" .
  obtain k where "nearest_loop (mem ?s2) (tev ?s2) (timer_head ?s2) (timer_head ?s2) = Some k"
    using nearest_walk [of "mem ?s2" "timer_head ?s2" "[?e]"] s2 by auto
  then have "ev_timer_executeCB ?B demo_cb s = Some (?s2\<lparr>timer_nearest := k\<rparr>)"
    using e by (simp add: ev_timer_executeCB_def ev_timer_nearestUpdate_def)
  then show ?thesis using s2 by simp
qed

theorem ev_timer_run_inv_witness:
  "\<exists>e s1 s2 xs. ev_timer_taskPost 0 0x840100 0x1000 7 5 (ev_timer_init 0x840100 demo_timers) = Some (e, s1) \<and>
     ev_timer_process 16 0x840100 demo_cb 90000 90000 s1 = Some s2 \<and>
     timer_inv 0x840100 s2 xs \<and> used_num s2 = 1 \<and> evt_cb (tev s2 (timer_head s2)) = 0x2000"
proof -
  let ?B = "0x840100 :: addr" and ?s0 = "ev_timer_init 0x840100 demo_timers"
  let ?g = "(upd_evt ?B (used_update (\<lambda>_. 1)) (?s0\<lparr>reg_irq_en := 0\<rparr>))\<lparr>used_num := 1\<rparr>"
  have z: "timer_head ?s0 = NULL" "used_num ?s0 = 0" "prevSysTick ?s0 = 0" "remSysTick ?s0 = 0"
      "tev ?s0 a = \<lparr>evt_cb = 0, evt_data = 0, timeout = 0, period = 0, curSysTick = 0, isRunning = 0, used = 0\<rparr>" for a
    by (simp_all add: ev_timer_init_def demo_timers_def Let_def)
  have "ev_timer_freeGet ?B (?s0\<lparr>reg_irq_en := 0\<rparr>) = (?B, ?g)"
    using z by (simp add: ev_timer_freeGet_def evt_addr_def upt_rec [of 0] g_ev_timer_maxNum_def)
  then have "\<exists>n. ev_timer_taskPost 0 ?B 0x1000 7 5 ?s0 = Some (?B, (started 0 ?B 5 n
          (upd_evt ?B (\<lambda>t. t\<lparr>evt_cb := 0x1000, evt_data := 7\<rparr>) ?g))\<lparr>reg_irq_en := reg_irq_en ?s0\<rparr>)"
    by (rule taskPost_free [where xs = "[]"]) (simp_all add: z)
  then obtain n where
    p: "ev_timer_taskPost 0 ?B 0x1000 7 5 ?s0 = Some (?B, (started 0 ?B 5 n
          (upd_evt ?B (\<lambda>t. t\<lparr>evt_cb := 0x1000, evt_data := 7\<rparr>) ?g))\<lparr>reg_irq_en := reg_irq_en ?s0\<rparr>)" (is "_ = Some (_, ?s1)") ..
  have c: "chain (mem ?s1) (timer_head ?s1) [?B]" using z by (simp add: started_def)
  let ?s3 = "?s1\<lparr>prevSysTick := 90000, remSysTick := 10000\<rparr>"
  let ?s4 = "?s3\<lparr>tev := tick_all 16 90000 5 [?B] (tev ?s3)\<rparr>"
  have "ev_timer_update 16 90000 5 ?s3 = Some ?s4" using c by (intro ev_timer_update_chain) simp_all
  then have q: "ev_timer_process 16 ?B demo_cb 90000 90000 ?s1 = ev_timer_executeCB ?B demo_cb ?s4"
    using z by (subst ev_timer_process_round) (simp_all add: started_def round_def)
  obtain s2 where s2: "ev_timer_executeCB ?B demo_cb ?s4 = Some s2" "used_num s2 = 1" "evt_cb (tev s2 (timer_head s2)) = 0x2000"
    using demo_cb_round [of ?s4] c z by (auto simp: started_def tick_all_def update_event_def Let_def)
  have "timer_run ?B demo_timers s2"
    using q s2(1) by (intro timer_run.process [OF timer_run.step [OF timer_run.start timer_step.post [OF p]] demo_cb_stepwise]) simp
  from ev_timer_run_inv [OF demo_pool_ok this] show ?thesis
    using p q s2 by auto
qed

text \<open>
  The contract of \<^verbatim>\<open>ev_timer_taskPost\<close>. When all 24 events of the pool are used it returns null and
  only posts an exception; otherwise it takes an unused event, sets its callback, argument, timeout and
  period, puts it on the list, counts it, makes \<^verbatim>\<open>timer_nearest\<close> an event of least timeout, keeps the
  invariant and posts no exception. The interrupt enable is restored in both cases.
\<close>

theorem ev_timer_taskPost_contract:
  assumes "timer_inv B s xs" and "pool_ok B"
  shows "if used_slots B s = {..<24}
         then ev_timer_taskPost clk B f d tmo s =
                Some (NULL, sys_exceptionPost 199 SYS_EXCEPTTION_COMMON_TIMER_EVEVT s)
         else \<exists>i s'. i < 24 \<and> i \<notin> used_slots B s \<and> ev_timer_taskPost clk B f d tmo s = Some (evt_addr B i, s') \<and>
                timer_inv B s' (evt_addr B i # xs) \<and> reg_irq_en s' = reg_irq_en s \<and>
                T_evtExcept s' = T_evtExcept s \<and> used_num s' = used_num s + 1 \<and>
                entry (tev s') (evt_addr B i) = (f, d) \<and> timeout (tev s' (evt_addr B i)) = tmo \<and>
                period (tev s' (evt_addr B i)) = tmo \<and>
                is_nearest (tev s') (evt_addr B i # xs) (timer_nearest s')"
proof -
  let ?s = "s\<lparr>reg_irq_en := 0\<rparr>"
  have inv: "timer_inv B ?s xs" and us: "used_slots B ?s = used_slots B s"
    using assms(1) by (simp_all add: used_slots_def)
  show ?thesis
  proof (cases "used_slots B s = {..<24}")
    case True
    then show ?thesis using ev_timer_add_full [OF inv] us
      by (simp add: ev_timer_taskPost_def drv_disable_irq_def drv_restore_irq_def sys_exceptionPost_def Let_def)
  next
    case False
    then obtain i s' where r: "i < 24" "i \<notin> used_slots B s" "ev_timer_add clk B f d tmo ?s = Some (evt_addr B i, s')"
        "timer_inv B s' (evt_addr B i # xs)" "T_evtExcept s' = T_evtExcept s" "used_num s' = used_num s + 1"
        "entry (tev s') (evt_addr B i) = (f, d)" "timeout (tev s' (evt_addr B i)) = tmo"
        "period (tev s' (evt_addr B i)) = tmo" "is_nearest (tev s') (evt_addr B i # xs) (timer_nearest s')"
      using ev_timer_add_slot [OF inv assms(2), of clk f d tmo] us by (auto simp: entry_def)
    then show ?thesis using False
      by (auto simp: ev_timer_taskPost_def drv_disable_irq_def drv_restore_irq_def entry_def
          intro!: exI [of _ i] exI [of _ "s'\<lparr>reg_irq_en := reg_irq_en s\<rparr>"])
  qed
qed

theorem ev_timer_taskPost_contract_witness:
  "\<exists>i s'. ev_timer_taskPost 5 0x840100 0x1000 0x2000 30 demo_timers = Some (evt_addr 0x840100 i, s') \<and>
     timeout (tev s' (evt_addr 0x840100 i)) = 30 \<and> reg_irq_en s' = 1"
proof -
  have "used_slots 0x840100 demo_timers = {}" by (simp add: used_slots_def demo_timers_def)
  moreover have "0 \<in> {..<24::nat}" by simp
  ultimately have "used_slots 0x840100 demo_timers \<noteq> {..<24}" by blast
  then show ?thesis
    using ev_timer_taskPost_contract [OF demo_timers_inv demo_pool_ok, of 5 "0x1000" "0x2000" 30]
    by (auto simp: demo_timers_def)
qed

text \<open>
  C32. \<^verbatim>\<open>ev_timer_taskCancel\<close> undoes \<^verbatim>\<open>ev_timer_taskPost\<close>: cancelling the event just posted succeeds, nulls the
  caller's pointer, takes the event off the list, frees its place in the pool, restores the interrupt
  enable and keeps the invariant; a second cancellation through a stale pointer is refused.
\<close>

theorem ev_timer_post_cancel:
  assumes "timer_inv B s xs" and "pool_ok B" and "used_slots B s \<noteq> {..<24}"
  shows "\<exists>e s1 s2. ev_timer_taskPost clk B f d tmo s = Some (e, s1) \<and>
           ev_timer_taskCancel B e s1 = Some (0, NULL, s2) \<and> timer_inv B s2 xs \<and>
           used_slots B s2 = used_slots B s \<and> reg_irq_en s2 = reg_irq_en s \<and>
           ev_timer_taskCancel B e s2 = Some (NO_TIMER_AVAIL, e, s2)"
proof -
  let ?s = "s\<lparr>reg_irq_en := 0\<rparr>"
  have inv: "timer_inv B ?s xs" and us: "used_slots B ?s = used_slots B s"
    using assms(1) by (simp_all add: used_slots_def)
  obtain i s' where i: "i < 24" "i \<notin> used_slots B s" and a: "ev_timer_add clk B f d tmo ?s = Some (evt_addr B i, s')"
      "timer_inv B s' (evt_addr B i # xs)"
    using ev_timer_add_slot [OF inv assms(2), of clk f d tmo] assms(3) us by auto
  let ?e = "evt_addr B i" and ?s1 = "s'\<lparr>reg_irq_en := reg_irq_en s\<rparr>"
  have post: "ev_timer_taskPost clk B f d tmo s = Some (?e, ?s1)"
    using a by (simp add: ev_timer_taskPost_def drv_disable_irq_def drv_restore_irq_def)
  have inv1: "timer_inv B ?s1 ([] @ ?e # xs)" using a by simp
  then have used: "used (tev ?s1 ?e) \<noteq> 0" "?e \<notin> set xs" and c: "chain (mem ?s1) (timer_head ?s1) ([] @ ?e # xs)"
    using i chain_distinct [of "mem ?s1" "timer_head ?s1" "?e # xs"]
    by (auto simp: timer_inv_def used_slots_def)
  obtain h m n where u: "ev_unon_timer B ?e ?s1 = Some (stopped B ?e h m n ?s1)" "chain m h xs"
    using ev_unon_timer_present [OF c, of B] by auto
  let ?s2 = "stopped B ?e h m n ?s1"
  have inv2: "timer_inv B ?s2 xs" using timer_inv_stopped [OF inv1 assms(2)] u(2) by simp
  have "in_pool B ?e ?s1" using used evt_addr_range [OF assms(2) i(1)] by (simp add: in_pool_def)
  then have z: "used (tev ?s2 ?e) = 0" "reg_irq_en ?s2 = reg_irq_en s" by (simp_all add: stopped_def)
  have "j \<in> used_slots B ?s2 \<longleftrightarrow> j \<in> used_slots B s" if "j < 24" for j
    using inv2 assms(1) that by (simp add: timer_inv_def)
  then have "used_slots B ?s2 = used_slots B s" by (auto simp: used_slots_def)
  then show ?thesis
    using post u used z inv2 evt_addr_nonnull [OF assms(2) i(1)]
    by (intro exI [of _ ?e] exI [of _ ?s1] exI [of _ ?s2]) (simp add: ev_timer_taskCancel_def)
qed

theorem ev_timer_post_cancel_witness:
  "\<exists>e s1 s2. ev_timer_taskPost 5 0x840100 0x1000 0x2000 30 demo_timers = Some (e, s1) \<and>
     ev_timer_taskCancel 0x840100 e s1 = Some (0, NULL, s2)"
proof -
  have "used_slots 0x840100 demo_timers = {}" by (simp add: used_slots_def demo_timers_def)
  moreover have "0 \<in> {..<24::nat}" by simp
  ultimately have "used_slots 0x840100 demo_timers \<noteq> {..<24}" by blast
  then show ?thesis
    using ev_timer_post_cancel [OF demo_timers_inv demo_pool_ok, of 5 "0x1000" "0x2000" 30] by blast
qed

text \<open>
  C31. \<^verbatim>\<open>ev_timer_process\<close> loses no time: with a remainder below one millisecond, the milliseconds passed to
  the timers and the remainder it keeps account for exactly the ticks since the last round (counted
  modulo the 32-bit counter) and the old remainder, and the new remainder is again below one
  millisecond.
\<close>

theorem ev_timer_process_accounts:
  assumes "0 < unat us" and "unat us * 2000 < 2 ^ 32" and "unat (remSysTick s) < unat us * 1000"
    and "clk \<noteq> prevSysTick s"
  shows "\<exists>ut r. ev_timer_process us B call clk clk' s = round us B call clk' ut (s\<lparr>prevSysTick := clk, remSysTick := r\<rparr>) \<and>
           unat ut * (unat us * 1000) + unat r = unat (clk - prevSysTick s) + unat (remSysTick s) \<and>
           unat r < unat us * 1000"
  using ev_timer_process_round [OF assms(4)] tick_split [OF assms(1-3), of "clk - prevSysTick s"] by blast

theorem ev_timer_process_accounts_witness:
  "\<exists>ut r. ev_timer_process 16 0x840100 (returning (\<lambda>_ _. 0)) 50000 50000 demo_timers =
       round 16 0x840100 (returning (\<lambda>_ _. 0)) 50000 ut (demo_timers\<lparr>prevSysTick := 50000, remSysTick := r\<rparr>) \<and>
     unat ut * 16000 + unat r = 50000 \<and> unat r < 16000"
  using ev_timer_process_accounts [of 16 demo_timers 50000 "0x840100" "returning (\<lambda>_ _. 0)" 50000]
  by (simp add: demo_timers_def)

text \<open>
  C30. A round of \<^verbatim>\<open>ev_timer_executeCB\<close> with callbacks that only return a value terminates, calls exactly the
  callbacks of the expired timers, each once and in list order, removes from the list exactly those
  that returned a negative value, and leaves \<^verbatim>\<open>timer_nearest\<close> at a remaining timer of least timeout.
\<close>

theorem ev_timer_executeCB_round:
  assumes "chain (mem s) (timer_head s) xs"
  shows "\<exists>s'. ev_timer_executeCB B (returning ret) s = Some s' \<and>
           chain (mem s') (timer_head s') (filter (\<lambda>x. \<not> dropped ret (tev s) x) xs) \<and>
           cb_log s' = cb_log s @ map (entry (tev s)) (filter (expired (tev s)) xs) \<and>
           is_nearest (tev s') (filter (\<lambda>x. \<not> dropped ret (tev s) x) xs) (timer_nearest s')"
proof -
  have "chain (mem s) (timer_head s) ([] @ xs)" using assms by simp
  moreover have "timer_head s = hd (xs @ [NULL])" by (rule hd_chain [OF assms])
  ultimately obtain s1 where s1: "execute_loop B (returning ret) (timer_head s) (timer_head s) s = Some s1"
      "chain (mem s1) (timer_head s1) (filter (\<lambda>x. \<not> dropped ret (tev s) x) xs)"
      "cb_log s1 = cb_log s @ map (entry (tev s)) (filter (expired (tev s)) xs)"
    using execute_loop_returning [of s "[]" xs B ret] by auto
  obtain n where "nearest_loop (mem s1) (tev s1) (timer_head s1) (timer_head s1) = Some n"
      "is_nearest (tev s1) (filter (\<lambda>x. \<not> dropped ret (tev s) x) xs) n"
    using nearest_walk [OF s1(2)] by blast
  then show ?thesis using s1
    by (intro exI [of _ "s1\<lparr>timer_nearest := n\<rparr>"]) (simp add: ev_timer_executeCB_def ev_timer_nearestUpdate_def)
qed

theorem ev_timer_executeCB_round_witness:
  "\<exists>s'. ev_timer_executeCB 0x840100 (returning (\<lambda>f d. if f = 0x30 then - 1 else 0))
       (demo_timers\<lparr>timer_head := 0x500, mem := (\<lambda>_. 0)(0x500 := 0x600),
          tev := (\<lambda>a. (tev demo_timers a)\<lparr>evt_cb := if a = 0x500 then 0x30 else 0x40\<rparr>)\<rparr>) = Some s' \<and>
     chain (mem s') (timer_head s') [0x600] \<and> cb_log s' = [(0x30, 0), (0x40, 0)]"
proof -
  let ?ret = "\<lambda>f (d::addr). if f = (0x30::addr) then - 1 else (0::int)"
  let ?s = "demo_timers\<lparr>timer_head := 0x500, mem := (\<lambda>_. 0)(0x500 := 0x600),
          tev := (\<lambda>a. (tev demo_timers a)\<lparr>evt_cb := if a = 0x500 then 0x30 else 0x40\<rparr>)\<rparr>"
  have "chain (mem ?s) (timer_head ?s) [0x500, 0x600]" by simp
  from ev_timer_executeCB_round [OF this, of "0x840100" ?ret] show ?thesis
    by (auto simp: dropped_def expired_def entry_def demo_timers_def)
qed

text \<open>
  \<^verbatim>\<open>ev_timer_update\<close> subtracts the elapsed time from every timer of the list, stopping at zero: the
  common elapsed time for a timer already running, and the time since its own registration for one that
  is not, which becomes running; no other timer, and no other part of the state, changes.
\<close>

theorem ev_timer_update_contract:
  assumes "chain (mem s) (timer_head s) xs" and "ut \<noteq> 0"
  shows "\<exists>s'. ev_timer_update us clk ut s = Some s' \<and> s'\<lparr>tev := tev s\<rparr> = s \<and>
           (\<forall>e. unat (timeout (tev s' e)) =
                (if e \<in> set xs
                 then unat (timeout (tev s e)) -
                      unat (if isRunning (tev s e) \<noteq> 0 then ut else (clk - curSysTick (tev s e)) div (us * 1000))
                 else unat (timeout (tev s e)))) \<and>
           (\<forall>e. isRunning (tev s' e) \<noteq> 0 \<longleftrightarrow> e \<in> set xs \<or> isRunning (tev s e) \<noteq> 0)"
  unfolding ev_timer_update_chain [OF assms]
  by (auto simp: tick_all_def timeout_update_event)

theorem ev_timer_update_contract_witness:
  "\<exists>s'. ev_timer_update 16 0 5 (demo_timers\<lparr>timer_head := 0x500,
       tev := (\<lambda>a. (tev demo_timers a)\<lparr>timeout := 12, isRunning := 1\<rparr>)\<rparr>) = Some s' \<and>
     unat (timeout (tev s' 0x500)) = 7"
proof -
  let ?s = "demo_timers\<lparr>timer_head := 0x500, tev := (\<lambda>a. (tev demo_timers a)\<lparr>timeout := 12, isRunning := 1\<rparr>)\<rparr>"
  have c: "chain (mem ?s) (timer_head ?s) [0x500]" by (simp add: demo_timers_def)
  have "(5::u32) \<noteq> 0" by simp
  from ev_timer_update_contract [OF c this, of 16 0] show ?thesis by auto
qed

end
