(* ===== verification/Mem_String.thy ===== *)
theory Mem_String
  imports Ev_Buffer
begin

text \<open>
  The memory and string functions of \<^verbatim>\<open>proj/common/string.c\<close>, on a byte memory. \<^verbatim>\<open>memset\<close> and \<^verbatim>\<open>memcpy\<close>
  check their arguments and post an exception, so they work on a system state that has the exception
  record beside the bytes. The locale \<open>block_copy\<close> states the contract that the copying functions share.
\<close>

section \<open>State\<close>

type_synonym bmem = "addr \<Rightarrow> u8"

record byte_state = os_state +
  bytes :: bmem

definition LARGE_BUFFER :: u32 where
  "LARGE_BUFFER = 1024 - 8"

text \<open>A 32-bit little-endian access, as the functions on \<^verbatim>\<open>int *\<close> make.\<close>

definition rd32 :: "bmem \<Rightarrow> addr \<Rightarrow> u32" where
  "rd32 m a = ucast (m a) OR push_bit 8 (ucast (m (a + 1))) OR push_bit 16 (ucast (m (a + 2)))
              OR push_bit 24 (ucast (m (a + 3)))"

definition wr32 :: "addr \<Rightarrow> u32 \<Rightarrow> bmem \<Rightarrow> bmem" where
  "wr32 a v m = m(a := ucast v, a + 1 := ucast (drop_bit 8 v), a + 2 := ucast (drop_bit 16 v),
                  a + 3 := ucast (drop_bit 24 v))"

section \<open>Functions\<close>

partial_function (option) strcpy_loop :: "addr \<Rightarrow> addr \<Rightarrow> bmem \<Rightarrow> bmem option" where
  "strcpy_loop dst0 src0 m =
     (let c = m src0; m1 = m(dst0 := c) in if c \<noteq> 0 then strcpy_loop (dst0 + 1) (src0 + 1) m1 else Some m1)"

definition strcpy :: "addr \<Rightarrow> addr \<Rightarrow> bmem \<Rightarrow> (addr \<times> bmem) option" where
  "strcpy dst0 src0 m = map_option (Pair dst0) (strcpy_loop dst0 src0 m)"

text \<open>
  Whether a plain \<^verbatim>\<open>char\<close> is signed is up to the compiler: \<open>chr\<close> is the value of a character as an \<^verbatim>\<open>int\<close>.
\<close>

partial_function (option) strchr :: "(u8 \<Rightarrow> int) \<Rightarrow> bmem \<Rightarrow> addr \<Rightarrow> int \<Rightarrow> addr option" where
  "strchr chr m s c =
     (if chr (m s) = c then Some s
      else if m s \<noteq> 0 then strchr chr m (s + 1) c else Some NULL)"

primrec memcmp_loop :: "nat \<Rightarrow> bmem \<Rightarrow> addr \<Rightarrow> addr \<Rightarrow> int" where
  "memcmp_loop 0 m s1 s2 = 0"
| "memcmp_loop (Suc n) m s1 s2 =
     (if m s1 \<noteq> m s2 then uint (m s1) - uint (m s2) else memcmp_loop n m (s1 + 1) (s2 + 1))"

definition memcmp :: "bmem \<Rightarrow> addr \<Rightarrow> addr \<Rightarrow> u32 \<Rightarrow> int" where
  "memcmp m m1 m2 n = memcmp_loop (unat n) m m1 m2"

primrec memchr_loop :: "nat \<Rightarrow> bmem \<Rightarrow> addr \<Rightarrow> int \<Rightarrow> addr" where
  "memchr_loop 0 m src c = NULL"
| "memchr_loop (Suc n) m src c = (if uint (m src) = c then src else memchr_loop n m (src + 1) c)"

definition memchr :: "bmem \<Rightarrow> addr \<Rightarrow> int \<Rightarrow> u32 \<Rightarrow> addr" where
  "memchr m src c len = memchr_loop (unat len) m src c"

primrec fwd_copy :: "nat \<Rightarrow> addr \<Rightarrow> addr \<Rightarrow> bmem \<Rightarrow> bmem" where
  "fwd_copy 0 d s m = m"
| "fwd_copy (Suc n) d s m = fwd_copy n (d + 1) (s + 1) (m(d := m s))"

primrec bwd_copy :: "nat \<Rightarrow> addr \<Rightarrow> addr \<Rightarrow> bmem \<Rightarrow> bmem" where
  "bwd_copy 0 d s m = m"
| "bwd_copy (Suc n) d s m = bwd_copy n (d - 1) (s - 1) (m(d := m s))"

definition memmove :: "addr \<Rightarrow> addr \<Rightarrow> u32 \<Rightarrow> bmem \<Rightarrow> addr \<times> bmem" where
  "memmove dest src n m =
     (dest, if dest < src then fwd_copy (unat n) dest src m
            else bwd_copy (unat n) (dest + (n - 1)) (src + (n - 1)) m)"

text \<open>\<^verbatim>\<open>len\<close> is an \<^verbatim>\<open>int\<close>; \<^verbatim>\<open>while(len--)\<close> runs once for each step down to zero of its 32-bit value.\<close>

definition bcopy :: "addr \<Rightarrow> addr \<Rightarrow> u32 \<Rightarrow> bmem \<Rightarrow> bmem" where
  "bcopy src dest len m =
     (if dest < src then fwd_copy (unat len) dest src m
      else bwd_copy (unat len) (dest + (len - 1)) (src + (len - 1)) m)"

primrec set_loop :: "nat \<Rightarrow> addr \<Rightarrow> u8 \<Rightarrow> bmem \<Rightarrow> bmem" where
  "set_loop 0 p v m = m"
| "set_loop (Suc n) p v m = set_loop n (p + 1) v (m(p := v))"

definition memset :: "ev_layout \<Rightarrow> addr \<Rightarrow> int \<Rightarrow> u32 \<Rightarrow> 'a byte_state_scheme \<Rightarrow> addr \<times> 'a byte_state_scheme" where
  "memset L dest val len s =
     (if dest = NULL then (NULL, sys_exceptionPost 132 SYS_EXCEPTTION_COMMON_MEM_ACCESS s)
      else if is_ev_buf L dest \<and> len > LARGE_BUFFER
      then (NULL, sys_exceptionPost 136 SYS_EXCEPTTION_COMMON_MEM_ACCESS s)
      else (dest, s\<lparr>bytes := set_loop (unat len) dest (word_of_int val) (bytes s)\<rparr>))"

definition memcpy :: "ev_layout \<Rightarrow> addr \<Rightarrow> addr \<Rightarrow> u32 \<Rightarrow> 'a byte_state_scheme \<Rightarrow> addr \<times> 'a byte_state_scheme" where
  "memcpy L out inp len s =
     (if len = 0 then (NULL, s)
      else if out = NULL then (NULL, sys_exceptionPost 151 SYS_EXCEPTTION_COMMON_MEM_ACCESS s)
      else if inp = NULL then (NULL, sys_exceptionPost 155 SYS_EXCEPTTION_COMMON_MEM_ACCESS s)
      else if is_ev_buf L out \<and> len > LARGE_BUFFER
      then (NULL, sys_exceptionPost 159 SYS_EXCEPTTION_COMMON_MEM_ACCESS s)
      else (out, s\<lparr>bytes := bcopy inp out len (bytes s)\<rparr>))"

primrec copy4_loop :: "nat \<Rightarrow> addr \<Rightarrow> addr \<Rightarrow> bmem \<Rightarrow> bmem" where
  "copy4_loop 0 dst src m = m"
| "copy4_loop (Suc n) dst src m = copy4_loop n (dst + 4) (src + 4) (wr32 dst (rd32 m src) m)"

definition memcpy4 :: "addr \<Rightarrow> addr \<Rightarrow> u32 \<Rightarrow> bmem \<Rightarrow> bmem" where
  "memcpy4 d s len m = copy4_loop (unat (drop_bit 2 len)) d s m"

partial_function (option) strlen_loop :: "bmem \<Rightarrow> addr \<Rightarrow> u32 \<Rightarrow> u32 option" where
  "strlen_loop m str len = (if m str \<noteq> 0 then strlen_loop m (str + 1) (len + 1) else Some len)"

definition strlen :: "bmem \<Rightarrow> addr \<Rightarrow> u32 option" where
  "strlen m str = (if str \<noteq> NULL then strlen_loop m str 0 else Some 0)"

partial_function (option) strcmp :: "bmem \<Rightarrow> addr \<Rightarrow> addr \<Rightarrow> int option" where
  "strcmp m firstString secondString =
     (if m firstString = m secondString then
        (if m firstString = 0 then Some 0 else strcmp m (firstString + 1) (secondString + 1))
      else if uint (m firstString) - uint (m secondString) < 0 then Some (- 1) else Some 1)"

text \<open>
  \<^verbatim>\<open>strncpy\<close> tests the pointer \<^verbatim>\<open>t\<close> and not the character it points at. The result of the first loop is
  the cursor \<open>s\<close>, the source pointer \<open>t\<close>, the count and the memory.
\<close>

primrec strncpy_loop :: "nat \<Rightarrow> addr \<Rightarrow> addr \<Rightarrow> u32 \<Rightarrow> bmem \<Rightarrow> addr \<times> addr \<times> u32 \<times> bmem" where
  "strncpy_loop 0 s t i m = (s, t, i, m)"
| "strncpy_loop (Suc k) s t i m =
     (if t \<noteq> NULL then strncpy_loop k (s + 1) (t + 1) (i + 1) (m(s := m t)) else (s, t, i, m))"

definition strncpy :: "addr \<Rightarrow> addr \<Rightarrow> u32 \<Rightarrow> bmem \<Rightarrow> addr \<times> bmem" where
  "strncpy s t n m =
     (if s = NULL then (s, m)
      else let (s1, t1, i, m1) = strncpy_loop (unat n) s t 0 m
           in (s, if t1 = NULL then set_loop (Suc (unat (n - i))) s1 0 m1 else m1))"

primrec zero4_loop :: "nat \<Rightarrow> bmem \<Rightarrow> addr \<Rightarrow> u32 \<Rightarrow> int" where
  "zero4_loop 0 m p v = 1"
| "zero4_loop (Suc n) m p v = (if rd32 m p \<noteq> v then 0 else zero4_loop n m (p + 4) v)"

definition ismemzero4 :: "bmem \<Rightarrow> addr \<Rightarrow> u32 \<Rightarrow> int" where
  "ismemzero4 m data len = zero4_loop (unat (drop_bit 2 len)) m data 0"

definition ismemf4 :: "bmem \<Rightarrow> addr \<Rightarrow> u32 \<Rightarrow> int" where
  "ismemf4 m data len = zero4_loop (unat (drop_bit 2 len)) m data 0xffffffff"

primrec set4_loop :: "nat \<Rightarrow> addr \<Rightarrow> u32 \<Rightarrow> bmem \<Rightarrow> bmem" where
  "set4_loop 0 p v m = m"
| "set4_loop (Suc n) p v m = set4_loop n (p + 4) v (wr32 p v m)"

definition memset4 :: "addr \<Rightarrow> u32 \<Rightarrow> u32 \<Rightarrow> bmem \<Rightarrow> addr \<times> bmem" where
  "memset4 dest val len m = (dest, set4_loop (unat (drop_bit 2 len)) dest val m)"

definition zeromem4 :: "addr \<Rightarrow> u32 \<Rightarrow> bmem \<Rightarrow> bmem" where
  "zeromem4 data len m = snd (memset4 data 0 len m)"

section \<open>Copying\<close>

text \<open>The memory after \<open>n\<close> bytes from \<open>s\<close> have been copied to \<open>d\<close>, all read before any is written.\<close>

definition copied :: "nat \<Rightarrow> addr \<Rightarrow> addr \<Rightarrow> bmem \<Rightarrow> bmem" where
  "copied n d s m a = (if unat d \<le> unat a \<and> unat a < unat d + n then m (s + (a - d)) else m a)"

lemma unat_succ_addr:
  fixes a :: addr
  assumes "unat a + Suc n \<le> 2 ^ 32" "n \<noteq> 0"
  shows "unat (a + 1) = unat a + 1"
  using assms by (intro unat_inc_no_wrap) simp

lemma addr_squeeze:
  fixes a d :: addr
  assumes "unat d \<le> unat a" "unat a < Suc (unat d)"
  shows "a = d"
proof -
  have "unat a = unat d" using assms by simp
  then show ?thesis by (simp add: word_unat_eq_iff)
qed

lemma unat_src:
  fixes a d s :: addr
  assumes "unat d \<le> unat a" "unat a < unat d + n" "unat s + n \<le> 2 ^ 32"
  shows "unat (s + (a - d)) = unat s + (unat a - unat d)"
proof -
  have "unat (a - d) = unat a - unat d" using assms(1) by (simp add: unat_sub_no_wrap word_le_nat_alt)
  then show ?thesis using assms by (subst unat_add_no_wrap) simp_all
qed

lemma fwd_copy_copied:
  "unat d < unat s \<Longrightarrow> unat s + n \<le> 2 ^ 32 \<Longrightarrow> fwd_copy n d s m = copied n d s m"
proof (induction n arbitrary: d s m)
  case 0
  then show ?case by (intro ext) (auto simp: copied_def)
next
  case (Suc n)
  show ?case
  proof (cases "n = 0")
    case True
    then show ?thesis by (intro ext) (auto simp: copied_def dest: addr_squeeze)
  next
    case False
    have d1: "unat (d + 1) = unat d + 1" and s1: "unat (s + 1) = unat s + 1"
      using unat_succ_addr [of d n] unat_succ_addr [of s n] Suc.prems False by simp_all
    have "fwd_copy (Suc n) d s m = copied n (d + 1) (s + 1) (m(d := m s))"
      using Suc.IH [of "d + 1" "s + 1" "m(d := m s)"] Suc.prems d1 s1 by (simp del: fun_upd_apply)
    also have "\<dots> = copied (Suc n) d s m"
    proof
      fix a
      consider "a = d" | "unat d < unat a" "unat a < unat d + Suc n" | "\<not> (unat d \<le> unat a \<and> unat a < unat d + Suc n)"
        by (metis le_neq_implies_less unsigned_word_eqI)
      then show "copied n (d + 1) (s + 1) (m(d := m s)) a = copied (Suc n) d s m a"
      proof cases
        case 2
        have "unat (s + (a - d)) = unat s + (unat a - unat d)" using 2 Suc.prems by (intro unat_src [where n = "Suc n"]) simp_all
        then have "unat (s + (a - d)) \<noteq> unat d" using 2 Suc.prems by linarith
        then have "s + (a - d) \<noteq> d" by (metis (no_types))
        then show ?thesis using 2 d1 by (simp add: copied_def algebra_simps)
      qed (use d1 in \<open>auto simp: copied_def\<close>)
    qed
    finally show ?thesis .
  qed
qed

lemma bwd_copy_copied:
  "unat s \<le> unat d \<Longrightarrow> unat d + n \<le> 2 ^ 32 \<Longrightarrow>
     bwd_copy n (d + of_nat n - 1) (s + of_nat n - 1) m = copied n d s m"
proof (induction n arbitrary: m)
  case 0
  then show ?case by (intro ext) (auto simp: copied_def)
next
  case (Suc n)
  let ?d = "d + of_nat n" and ?s = "s + of_nat n"
  have ud: "unat ?d = unat d + n" and us: "unat ?s = unat s + n"
    using Suc.prems by (subst unat_add_no_wrap; simp add: unat_of_nat)+
  have "bwd_copy (Suc n) (d + of_nat (Suc n) - 1) (s + of_nat (Suc n) - 1) m = copied n d s (m(?d := m ?s))"
    using Suc by (simp add: algebra_simps)
  also have "\<dots> = copied (Suc n) d s m"
  proof
    fix a
    consider "a = ?d" | "unat d \<le> unat a" "unat a < unat d + n" | "\<not> (unat d \<le> unat a \<and> unat a < unat d + Suc n)"
      using ud by (metis less_SucE add_Suc_right unsigned_word_eqI)
    then show "copied n d s (m(?d := m ?s)) a = copied (Suc n) d s m a"
    proof cases
      case 1
      then show ?thesis using ud by (simp add: copied_def)
    next
      case 2
      have "unat (s + (a - d)) = unat s + (unat a - unat d)" using 2 Suc.prems by (intro unat_src [where n = n]) linarith+
      then have "unat (s + (a - d)) \<noteq> unat ?d" using 2 Suc.prems ud by linarith
      then have "s + (a - d) \<noteq> ?d" by (metis (no_types))
      then show ?thesis using 2 by (simp add: copied_def)
    next
      case 3
      then show ?thesis using ud by (auto simp: copied_def)
    qed
  qed
  finally show ?case .
qed

text \<open>The contract of a copying function: source and destination may overlap.\<close>

definition fits :: "addr \<Rightarrow> u32 \<Rightarrow> bool" where
  "fits p n \<longleftrightarrow> unat p + unat n \<le> 2 ^ 32"

locale block_copy =
  fixes cp :: "addr \<Rightarrow> addr \<Rightarrow> u32 \<Rightarrow> bmem \<Rightarrow> bmem"
  assumes cp_copied: "fits d n \<Longrightarrow> fits s n \<Longrightarrow> cp d s n m = copied (unat n) d s m"
begin

lemma cp_dest: "fits d n \<Longrightarrow> fits s n \<Longrightarrow> i < unat n \<Longrightarrow> cp d s n m (d + of_nat i) = m (s + of_nat i)"
proof -
  assume f: "fits d n" "fits s n" "i < unat n"
  then have "unat (d + of_nat i) = unat d + i"
    using unsigned_less [of n, where 'a = nat] by (subst unat_add_no_wrap) (simp_all add: fits_def unat_of_nat)
  then show ?thesis using f by (simp add: cp_copied copied_def)
qed

lemma cp_frame: "fits d n \<Longrightarrow> fits s n \<Longrightarrow> unat a < unat d \<or> unat d + unat n \<le> unat a \<Longrightarrow> cp d s n m a = m a"
  by (auto simp: cp_copied copied_def)

text \<open>Saving a block elsewhere and copying it back restores it.\<close>

lemma cp_back:
  assumes "fits d n" "fits s n" "unat d + unat n \<le> unat s \<or> unat s + unat n \<le> unat d"
  shows "cp s d n (cp d s n m) a = (if unat d \<le> unat a \<and> unat a < unat d + unat n then m (s + (a - d)) else m a)"
proof (cases "unat s \<le> unat a \<and> unat a < unat s + unat n")
  case True
  have "unat (d + (a - s)) = unat d + (unat a - unat s)" using True assms by (intro unat_src) (auto simp: fits_def)
  then show ?thesis using True assms by (auto simp: cp_copied copied_def)
next
  case False
  then show ?thesis using assms by (auto simp: cp_copied copied_def)
qed

end

lemma copy_either_way:
  assumes "fits d n" "fits s n"
  shows "(if d < s then fwd_copy (unat n) d s m else bwd_copy (unat n) (d + (n - 1)) (s + (n - 1)) m) =
           copied (unat n) d s m"
proof (cases "d < s")
  case True
  then show ?thesis using assms fwd_copy_copied [of d s "unat n" m] by (simp add: fits_def word_less_nat_alt)
next
  case False
  then have "unat s \<le> unat d" by (simp add: word_less_nat_alt)
  then show ?thesis using assms False bwd_copy_copied [of s d "unat n" m] by (simp add: fits_def algebra_simps)
qed

interpretation mv: block_copy "\<lambda>d s n m. snd (memmove d s n m)"
  by unfold_locales (simp add: memmove_def copy_either_way)

interpretation bc: block_copy "\<lambda>d s n m. bcopy s d n m"
  by unfold_locales (simp only: bcopy_def copy_either_way)

section \<open>Comparing and zero-terminated strings\<close>

lemma memcmp_loop_zero: "memcmp_loop n m a b = 0 \<longleftrightarrow> (\<forall>i<n. m (a + of_nat i) = m (b + of_nat i))"
proof (induction n arbitrary: a b)
  case (Suc n)
  have "(\<forall>i<Suc n. m (a + of_nat i) = m (b + of_nat i)) \<longleftrightarrow>
        m a = m b \<and> (\<forall>i<n. m (a + 1 + of_nat i) = m (b + 1 + of_nat i))"
    by (simp add: All_less_Suc2 algebra_simps)
  moreover have "uint (m a) - uint (m b) = 0 \<longleftrightarrow> m a = m b" by (simp add: word_uint_eq_iff)
  ultimately show ?case using Suc by simp
qed simp

lemma memcmp_loop_first:
  "i < n \<Longrightarrow> \<forall>j<i. m (a + of_nat j) = m (b + of_nat j) \<Longrightarrow> m (a + of_nat i) \<noteq> m (b + of_nat i) \<Longrightarrow>
     memcmp_loop n m a b = uint (m (a + of_nat i)) - uint (m (b + of_nat i))"
proof (induction n arbitrary: a b i)
  case (Suc n)
  show ?case
  proof (cases i)
    case (Suc k)
    have "m a = m b" using Suc.prems(2) Suc by auto
    moreover have "\<forall>j<k. m (a + 1 + of_nat j) = m (b + 1 + of_nat j)"
      using Suc.prems(2) Suc by (auto simp: algebra_simps dest: spec [of _ "Suc _"])
    ultimately show ?thesis using Suc.IH [of k "a + 1" "b + 1"] Suc.prems Suc by (simp add: algebra_simps)
  qed (use Suc.prems in simp)
qed simp

text \<open>The string \<open>cs\<close>, without zero bytes, stands at \<open>p\<close> followed by a zero byte.\<close>

fun cstr :: "bmem \<Rightarrow> addr \<Rightarrow> u8 list \<Rightarrow> bool" where
  "cstr m p [] \<longleftrightarrow> m p = 0"
| "cstr m p (c # cs) \<longleftrightarrow> m p = c \<and> c \<noteq> 0 \<and> cstr m (p + 1) cs"

lemma strlen_loop_cstr: "cstr m p cs \<Longrightarrow> strlen_loop m p n = Some (n + of_nat (length cs))"
  by (induction cs arbitrary: p n) (simp_all add: strlen_loop.simps [of m] algebra_simps)

lemma cstr_cong: "(\<And>i. i \<le> length cs \<Longrightarrow> m' (p + of_nat i) = m (p + of_nat i)) \<Longrightarrow> cstr m' p cs = cstr m p cs"
proof (induction cs arbitrary: p)
  case Nil
  from Nil [of 0] show ?case by simp
next
  case (Cons c cs)
  have "m' p = m p" using Cons.prems [of 0] by simp
  moreover have "cstr m' (p + 1) cs = cstr m (p + 1) cs"
    using Cons.prems [of "Suc _"] by (intro Cons.IH) (simp add: algebra_simps)
  ultimately show ?case by simp
qed

text \<open>Two byte ranges of length \<open>n\<close> that have no address in common.\<close>

definition apart :: "addr \<Rightarrow> addr \<Rightarrow> nat \<Rightarrow> bool" where
  "apart p q n \<longleftrightarrow> (\<forall>i<n. \<forall>j<n. p + of_nat i \<noteq> q + of_nat j)"

definition no_wrap :: "addr \<Rightarrow> nat \<Rightarrow> bool" where
  "no_wrap p n \<longleftrightarrow> unat p + n \<le> 2 ^ 32"

lemma unat_offset: "no_wrap p n \<Longrightarrow> i < n \<Longrightarrow> unat (p + of_nat i) = unat p + i"
proof -
  assume p: "no_wrap p n" "i < n"
  then have "i < 2 ^ 32" by (simp add: no_wrap_def)
  then have "unat (of_nat i :: addr) = i" by (simp add: unat_of_nat)
  then show ?thesis using unat_add_no_wrap [of p "of_nat i"] p by (simp add: no_wrap_def)
qed

lemma no_wrap_inj: "no_wrap p n \<Longrightarrow> i < n \<Longrightarrow> j < n \<Longrightarrow> p + of_nat i = p + of_nat j \<Longrightarrow> i = j"
  by (metis add_left_cancel unat_offset)

lemma strcpy_loop_cstr:
  assumes "cstr m src cs" "apart dst src (Suc (length cs))" "no_wrap dst (Suc (length cs))"
  shows "\<exists>m'. strcpy_loop dst src m = Some m' \<and> cstr m' dst cs \<and>
           (\<forall>a. (\<forall>i\<le>length cs. a \<noteq> dst + of_nat i) \<longrightarrow> m' a = m a)"
  using assms
proof (induction cs arbitrary: dst src m)
  case Nil
  then show ?case by (auto simp: strcpy_loop.simps [of dst src m] Let_def)
next
  case (Cons c cs)
  let ?m = "m(dst := c)"
  have c: "m src = c" "c \<noteq> 0" "cstr m (src + 1) cs" using Cons.prems(1) by simp_all
  have ap: "dst + of_nat i \<noteq> src + of_nat j" if "i \<le> Suc (length cs)" "j \<le> Suc (length cs)" for i j
    using Cons.prems(2) that by (simp add: apart_def less_Suc_eq_le)
  have "cstr ?m (src + 1) cs = cstr m (src + 1) cs"
  proof (rule cstr_cong)
    fix i assume "i \<le> length cs"
    then show "?m (src + 1 + of_nat i) = m (src + 1 + of_nat i)" using ap [of 0 "Suc i"] by (simp add: algebra_simps)
  qed
  moreover have "apart (dst + 1) (src + 1) (Suc (length cs))"
    unfolding apart_def
  proof (intro allI impI)
    fix i j assume "i < Suc (length cs)" "j < Suc (length cs)"
    then show "dst + 1 + of_nat i \<noteq> src + 1 + of_nat j" using ap [of i j] by simp
  qed
  moreover have "no_wrap (dst + 1) (Suc (length cs))"
    using Cons.prems(3) unat_succ_addr [of dst "Suc (length cs)"] by (simp add: no_wrap_def)
  ultimately obtain m' where m': "strcpy_loop (dst + 1) (src + 1) ?m = Some m'" "cstr m' (dst + 1) cs"
      "\<And>a. (\<forall>i\<le>length cs. a \<noteq> dst + 1 + of_nat i) \<Longrightarrow> m' a = ?m a"
    using Cons.IH [of ?m "src + 1" "dst + 1"] c(3) by blast
  have "dst \<noteq> dst + 1 + of_nat i" if "i \<le> length cs" for i
    using no_wrap_inj [OF Cons.prems(3), of 0 "Suc i"] that by (auto simp: algebra_simps)
  then have "m' dst = c" using m'(3) [of dst] by simp
  moreover have "m' a = m a" if "\<forall>i\<le>Suc (length cs). a \<noteq> dst + of_nat i" for a
  proof -
    have "a \<noteq> dst + 1 + of_nat i" if "i \<le> length cs" for i
      using \<open>\<forall>i\<le>Suc (length cs). a \<noteq> dst + of_nat i\<close> that by (auto simp: algebra_simps dest!: spec [of _ "Suc i"])
    moreover have "a \<noteq> dst" using that [rule_format, of 0] by simp
    ultimately show ?thesis using m'(3) [of a] by simp
  qed
  ultimately show ?case using m'(1,2) c by (auto simp: strcpy_loop.simps [of dst src m] Let_def)
qed

section \<open>Properties\<close>

text \<open>
  \<^verbatim>\<open>memmove\<close> is correct for overlapping blocks: if neither block wraps around the address space, every
  byte of the destination becomes the byte the source held before the call, whichever way the blocks
  overlap, no other byte changes, and the destination is returned. \<^verbatim>\<open>memcpy\<close> of a non-empty block
  between non-null pointers does the same (unless it refuses a block larger than any event buffer).
\<close>

theorem memmove_overlap:
  assumes "fits dest n" and "fits src n"
  shows "fst (memmove dest src n m) = dest \<and>
         (\<forall>i<unat n. snd (memmove dest src n m) (dest + of_nat i) = m (src + of_nat i)) \<and>
         (\<forall>a. unat a < unat dest \<or> unat dest + unat n \<le> unat a \<longrightarrow> snd (memmove dest src n m) a = m a) \<and>
         (\<forall>L (s :: 'a byte_state_scheme). n \<noteq> 0 \<and> dest \<noteq> NULL \<and> src \<noteq> NULL \<and> \<not> (is_ev_buf L dest \<and> n > LARGE_BUFFER) \<longrightarrow>
            memcpy L dest src n s = (dest, s\<lparr>bytes := snd (memmove dest src n (bytes s))\<rparr>))"
proof -
  have "memcpy L dest src n s = (dest, s\<lparr>bytes := snd (memmove dest src n (bytes s))\<rparr>)"
    if "n \<noteq> 0 \<and> dest \<noteq> NULL \<and> src \<noteq> NULL \<and> \<not> (is_ev_buf L dest \<and> n > LARGE_BUFFER)"
    for L and s :: "'a byte_state_scheme"
    using that by (auto simp: memcpy_def bcopy_def memmove_def)
  then show ?thesis using mv.cp_dest [OF assms] mv.cp_frame [OF assms] by (auto simp: memmove_def)
qed

theorem memmove_overlap_witness:
  "snd (memmove 0x102 0x100 4 (\<lambda>a. ucast a)) 0x105 = 3"
  using memmove_overlap [of "0x102" 4 "0x100" "\<lambda>a. ucast a", where 'a = unit]
  by (auto simp: fits_def dest: spec [of _ 3])

text \<open>
  \<^verbatim>\<open>memcmp\<close> returns 0 exactly for equal blocks, and otherwise the difference of the first pair of
  bytes, as unsigned values, in which they differ.
\<close>

theorem memcmp_spec:
  "(memcmp m a b n = 0 \<longleftrightarrow> (\<forall>i<unat n. m (a + of_nat i) = m (b + of_nat i))) \<and>
   (\<forall>i<unat n. (\<forall>j<i. m (a + of_nat j) = m (b + of_nat j)) \<and> m (a + of_nat i) \<noteq> m (b + of_nat i) \<longrightarrow>
      memcmp m a b n = uint (m (a + of_nat i)) - uint (m (b + of_nat i)))"
  unfolding memcmp_def using memcmp_loop_zero memcmp_loop_first by blast

theorem memcmp_spec_witness:
  "memcmp (\<lambda>a. ucast a) 0x10 0x20 3 = - 16"
proof -
  have "memcmp (\<lambda>a. ucast a) 0x10 0x20 3 = uint (ucast (0x10 :: addr) :: u8) - uint (ucast (0x20 :: addr) :: u8)"
    using conjunct2 [OF memcmp_spec [of "\<lambda>a. ucast a" "0x10" "0x20" 3], rule_format, of 0] by simp
  then show ?thesis by simp
qed

text \<open>
  \<^verbatim>\<open>strcpy\<close> of a string between areas that do not overlap terminates, leaves at the destination the
  same string with its terminating zero and changes no other byte; \<^verbatim>\<open>strlen\<close> of the copy terminates and
  is the length of the string.
\<close>

theorem strcpy_strlen:
  assumes "cstr m src cs" and "apart dst src (Suc (length cs))" and "no_wrap dst (Suc (length cs))" and "dst \<noteq> NULL"
  shows "\<exists>m'. strcpy dst src m = Some (dst, m') \<and> cstr m' dst cs \<and> strlen m' dst = Some (of_nat (length cs)) \<and>
           (\<forall>a. (\<forall>i\<le>length cs. a \<noteq> dst + of_nat i) \<longrightarrow> m' a = m a)"
proof -
  obtain m' where m': "strcpy_loop dst src m = Some m'" "cstr m' dst cs"
      "\<forall>a. (\<forall>i\<le>length cs. a \<noteq> dst + of_nat i) \<longrightarrow> m' a = m a"
    using strcpy_loop_cstr [OF assms(1-3)] by blast
  then show ?thesis using strlen_loop_cstr [OF m'(2), of 0] assms(4) by (auto simp: strcpy_def strlen_def)
qed

theorem strcpy_strlen_witness:
  "\<exists>m'. strcpy 0x200 0x100 ((\<lambda>_. 0)(0x100 := 65, 0x101 := 66)) = Some (0x200, m') \<and> strlen m' 0x200 = Some 2"
proof -
  have 1: "cstr ((\<lambda>_. 0)(0x100 := 65, 0x101 := 66)) 0x100 [65, 66]" by simp
  have 2: "apart 0x200 0x100 (Suc (length [65, 66 :: u8]))" by (auto simp: apart_def less_Suc_eq)
  have 3: "no_wrap 0x200 (Suc (length [65, 66 :: u8]))" by (simp add: no_wrap_def)
  have 4: "(0x200 :: addr) \<noteq> NULL" by simp
  show ?thesis using strcpy_strlen [OF 1 2 3 4] by auto
qed

end
