(* ===== verification/Flash_Chip.thy ===== *)
theory Flash_Chip
  imports Ev_Buffer
begin

text \<open>
  The flash driver of the 8278, \<^verbatim>\<open>platform/chip_8278/flash.c\<close>. The flash device is hardware behind an SPI
  bus and is a parameter: \<open>tx\<close> is a frame sent to it (one period of chip select), \<open>rx\<close> a frame followed by
  bytes read back. The locale \<open>nor_flash\<close> states the documented behaviour of a NOR device on the frames
  this driver sends, and is interpreted on a concrete device. Programming times are not modelled: the
  polling loop \<^verbatim>\<open>flash_wait_done\<close> only reads the status register and is taken to see the device idle.
\<close>

section \<open>The device\<close>

record flash_chip =
  fmem :: "addr \<Rightarrow> u8"
  fstat :: u16
  wel :: bool
  jedec :: "u8 list"

record flash_bus =
  tx :: "u8 list \<Rightarrow> flash_chip \<Rightarrow> flash_chip"
  rx :: "u8 list \<Rightarrow> nat \<Rightarrow> flash_chip \<Rightarrow> u8 list"

text \<open>The system state with the device.\<close>

record flash_hw = ev_state +
  chip :: flash_chip

section \<open>flash.c\<close>

definition FLASH_WRITE_CMD :: u8 where "FLASH_WRITE_CMD = 0x02"
definition FLASH_READ_CMD :: u8 where "FLASH_READ_CMD = 0x03"
definition FLASH_SECT_ERASE_CMD :: u8 where "FLASH_SECT_ERASE_CMD = 0x20"
definition FLASH_GET_JEDEC_ID :: u8 where "FLASH_GET_JEDEC_ID = 0x9F"
definition FLASH_WRITE_STATUS_CMD_LOWBYTE :: u8 where "FLASH_WRITE_STATUS_CMD_LOWBYTE = 0x01"
definition FLASH_READ_STATUS_CMD_LOWBYTE :: u8 where "FLASH_READ_STATUS_CMD_LOWBYTE = 0x05"
definition FLASH_READ_STATUS_CMD_HIGHBYTE :: u8 where "FLASH_READ_STATUS_CMD_HIGHBYTE = 0x35"
definition FLASH_WRITE_ENABLE_CMD :: u8 where "FLASH_WRITE_ENABLE_CMD = 0x06"
definition FLASH_READ_UID_CMD_GD_PUYA_ZB_UT :: u8 where "FLASH_READ_UID_CMD_GD_PUYA_ZB_UT = 0x4B"
definition FLASH_XTX_READ_UID_CMD :: u8 where "FLASH_XTX_READ_UID_CMD = 0x5A"

datatype flash_status_typedef_e =
  FLASH_TYPE_8BIT_STATUS | FLASH_TYPE_16BIT_STATUS_ONE_CMD | FLASH_TYPE_16BIT_STATUS_TWO_CMD

text \<open>The three address bytes, most significant first.\<close>

definition flash_send_addr :: "addr \<Rightarrow> u8 list" where
  "flash_send_addr a = [ucast (drop_bit 16 a), ucast (drop_bit 8 a), ucast a]"

text \<open>
  A read: the command, the address and the dummy bytes are sent, then \<open>n\<close> bytes are clocked out. The
  device state does not change and the interrupt state is restored.
\<close>

definition flash_mspi_read_ram ::
  "flash_bus \<Rightarrow> u8 \<Rightarrow> addr \<Rightarrow> u8 \<Rightarrow> nat \<Rightarrow> nat \<Rightarrow> 'a flash_hw_scheme \<Rightarrow> u8 list \<times> 'a flash_hw_scheme"
where
  "flash_mspi_read_ram D cmd a addr_en dummy_cnt n s =
     (let (r, s1) = drv_disable_irq s;
          frame = cmd # (if addr_en \<noteq> 0 then flash_send_addr a else []) @ replicate dummy_cnt 0;
          d = rx D frame n (chip s1)
      in (d, drv_restore_irq r s1))"

text \<open>A write: write enable, then the command with its address and data; then the device is polled until idle.\<close>

definition flash_mspi_write_ram ::
  "flash_bus \<Rightarrow> u8 \<Rightarrow> addr \<Rightarrow> u8 \<Rightarrow> u8 list \<Rightarrow> 'a flash_hw_scheme \<Rightarrow> 'a flash_hw_scheme"
where
  "flash_mspi_write_ram D cmd a addr_en d s =
     (let (r, s1) = drv_disable_irq s;
          c1 = tx D [FLASH_WRITE_ENABLE_CMD] (chip s1);
          c2 = tx D (cmd # (if addr_en \<noteq> 0 then flash_send_addr a else []) @ d) c1
      in drv_restore_irq r (s1\<lparr>chip := c2\<rparr>))"

definition flash_erase_sector ::
  "flash_bus \<Rightarrow> addr \<Rightarrow> 'a flash_hw_scheme \<Rightarrow> 'a flash_hw_scheme" where
  "flash_erase_sector D a s = flash_mspi_write_ram D FLASH_SECT_ERASE_CMD a 1 [] s"

definition flash_read_page ::
  "flash_bus \<Rightarrow> addr \<Rightarrow> nat \<Rightarrow> 'a flash_hw_scheme \<Rightarrow> u8 list \<times> 'a flash_hw_scheme" where
  "flash_read_page D a n s = flash_mspi_read_ram D FLASH_READ_CMD a 1 0 n s"

text \<open>
  The loop of \<^verbatim>\<open>flash_write_page\<close>: \<open>k + 1\<close> is \<^verbatim>\<open>ns\<close>, the room left in the page, which is at least 1. The
  data still to be written are \<open>buf\<close>.
\<close>

fun write_page_loop ::
  "flash_bus \<Rightarrow> nat \<Rightarrow> addr \<Rightarrow> u8 list \<Rightarrow> 'a flash_hw_scheme \<Rightarrow> 'a flash_hw_scheme" where
  "write_page_loop D k a buf s =
     (let nw = (if length buf > Suc k then Suc k else length buf);
          s1 = flash_mspi_write_ram D FLASH_WRITE_CMD a 1 (take nw buf) s
      in if length buf - nw > 0
         then write_page_loop D 255 (a + of_nat nw) (drop nw buf) s1
         else s1)"

declare write_page_loop.simps [simp del]

definition flash_write_page ::
  "flash_bus \<Rightarrow> addr \<Rightarrow> u8 list \<Rightarrow> 'a flash_hw_scheme \<Rightarrow> 'a flash_hw_scheme" where
  "flash_write_page D a buf s = write_page_loop D (255 - unat (a AND 255)) a buf s"

definition flash_read_status ::
  "flash_bus \<Rightarrow> u8 \<Rightarrow> 'a flash_hw_scheme \<Rightarrow> u8 \<times> 'a flash_hw_scheme" where
  "flash_read_status D cmd s = (let (d, s1) = flash_mspi_read_ram D cmd 0 0 0 1 s in (hd (d @ [0]), s1))"

definition flash_write_status ::
  "flash_bus \<Rightarrow> flash_status_typedef_e \<Rightarrow> u16 \<Rightarrow> 'a flash_hw_scheme \<Rightarrow> 'a flash_hw_scheme" where
  "flash_write_status D ty v s =
     (let buf = [ucast v, ucast (drop_bit 8 v)] in
      if ty = FLASH_TYPE_8BIT_STATUS then flash_mspi_write_ram D FLASH_WRITE_STATUS_CMD_LOWBYTE 0 0 (take 1 buf) s
      else if ty = FLASH_TYPE_16BIT_STATUS_ONE_CMD
      then flash_mspi_write_ram D FLASH_WRITE_STATUS_CMD_LOWBYTE 0 0 (take 2 buf) s
      else s)"

definition flash_read_mid ::
  "flash_bus \<Rightarrow> 'a flash_hw_scheme \<Rightarrow> u32 \<times> 'a flash_hw_scheme" where
  "flash_read_mid D s =
     (let (d, s1) = flash_mspi_read_ram D FLASH_GET_JEDEC_ID 0 0 0 3 s
      in (ucast (d ! 0) OR push_bit 8 (ucast (d ! 1)) OR push_bit 16 (ucast (d ! 2)), s1))"

definition flash_read_uid ::
  "flash_bus \<Rightarrow> u8 \<Rightarrow> u8 list \<Rightarrow> 'a flash_hw_scheme \<Rightarrow> u8 list \<times> 'a flash_hw_scheme" where
  "flash_read_uid D idcmd buf s =
     (if idcmd = FLASH_READ_UID_CMD_GD_PUYA_ZB_UT then flash_mspi_read_ram D idcmd 0x00 1 1 16 s
      else if idcmd = FLASH_XTX_READ_UID_CMD then flash_mspi_read_ram D idcmd 0x80 1 1 16 s
      else (buf, s))"

definition flash_is_zb :: "flash_bus \<Rightarrow> 'a flash_hw_scheme \<Rightarrow> u8 \<times> 'a flash_hw_scheme" where
  "flash_is_zb D s =
     (let (mid, s1) = flash_read_mid D s
      in (if mid = 0x13325E \<or> mid = 0x14325E \<or> mid = 0x11325E \<or> mid = 0x12325E then 1 else 0, s1))"


text \<open>The two transactions leave the interrupt state as they found it; only the device changes.\<close>

lemma flash_mspi_write_ram_eq:
  "flash_mspi_write_ram D cmd a en d s =
   s\<lparr>chip := tx D (cmd # (if en \<noteq> 0 then flash_send_addr a else []) @ d) (tx D [FLASH_WRITE_ENABLE_CMD] (chip s))\<rparr>"
  by (simp add: flash_mspi_write_ram_def drv_disable_irq_def drv_restore_irq_def Let_def)

lemma flash_mspi_read_ram_eq:
  "flash_mspi_read_ram D cmd a en dc n s =
   (rx D (cmd # (if en \<noteq> 0 then flash_send_addr a else []) @ replicate dc 0) n (chip s), s)"
  by (simp add: flash_mspi_read_ram_def drv_disable_irq_def drv_restore_irq_def Let_def)

lemma u16_low_byte: "(ucast (ucast (v :: u16) :: u8) :: u16) = v AND 0xFF"
proof -
  have "v AND 0xFF = take_bit 8 v"
    by (simp add: take_bit_eq_mask mask_eq_exp_minus_1)
  then show ?thesis
    by (simp only:) (rule bit_word_eqI, auto simp: bit_simps)
qed

lemma u16_bytes: "(ucast (ucast (v :: u16) :: u8) :: u16) OR push_bit 8 (ucast (ucast (drop_bit 8 v) :: u8)) = v"
  by (rule bit_word_eqI) (auto simp: bit_simps)

section \<open>What a NOR device documents\<close>

text \<open>
  Programming can only clear bits: \<open>and_bytes m a bs\<close> is the memory after programming \<open>bs\<close> at \<open>a\<close>. An
  erase sets the bytes of the 4 KB sector around the address.
\<close>

definition and_bytes :: "(addr \<Rightarrow> u8) \<Rightarrow> addr \<Rightarrow> u8 list \<Rightarrow> addr \<Rightarrow> u8" where
  "and_bytes m a bs = (\<lambda>x. if unat (x - a) < length bs then m x AND bs ! unat (x - a) else m x)"

definition erased :: "(addr \<Rightarrow> u8) \<Rightarrow> addr \<Rightarrow> addr \<Rightarrow> u8" where
  "erased m a = (\<lambda>x. if x AND NOT 0xFFF = a AND NOT 0xFFF then 0xFF else m x)"

definition fbytes :: "(addr \<Rightarrow> u8) \<Rightarrow> addr \<Rightarrow> nat \<Rightarrow> u8 list" where
  "fbytes m a n = map (\<lambda>i. m (a + of_nat i)) [0..<n]"

lemma length_fbytes [simp]: "length (fbytes m a n) = n"
  by (simp add: fbytes_def)

lemma nth_fbytes [simp]: "i < n \<Longrightarrow> fbytes m a n ! i = m (a + of_nat i)"
  by (simp add: fbytes_def)

lemma unat_page_offset: "unat (a AND 255 :: addr) = unat a mod 256"
proof -
  have "a AND 255 = take_bit 8 a"
    by (simp add: take_bit_eq_mask mask_eq_exp_minus_1)
  then show ?thesis
    by (simp add: unsigned_take_bit_eq take_bit_eq_mod unat_mod)
qed

lemma page_end_aligned: "k = 255 - x mod 256 \<Longrightarrow> (x + Suc k) mod 256 = 0" for x :: nat
proof -
  assume k: "k = 255 - x mod 256"
  have "x mod 256 < 256"
    by simp
  then have "x mod 256 + Suc k = 256"
    using k by linarith
  then have "x + Suc k = x div 256 * 256 + 256"
    using div_mult_mod_eq [of x 256] by linarith
  then show ?thesis
    by simp
qed

text \<open>Programming two adjacent pieces is programming their concatenation.\<close>

lemma and_bytes_append:
  assumes "length xs + length ys \<le> 2 ^ 32"
  shows "and_bytes (and_bytes m a xs) (a + of_nat (length xs)) ys = and_bytes m a (xs @ ys)"
proof
  fix x
  let ?n = "length xs"
  have sub: "x - (a + of_nat ?n) = (x - a) - of_nat ?n"
    by (simp add: algebra_simps)
  show "and_bytes (and_bytes m a xs) (a + of_nat ?n) ys x = and_bytes m a (xs @ ys) x"
  proof (cases "?n \<le> unat (x - a)")
    case True
    have "unat (x - a) < 2 ^ 32"
      using unsigned_less [of "x - a", where ?'a = nat] by simp
    then have n: "unat (of_nat ?n :: addr) = ?n"
      using True by (simp add: unat_of_nat)
    then have le: "of_nat ?n \<le> x - a"
      using True by (simp add: word_le_nat_alt)
    have "unat (x - (a + of_nat ?n)) = unat (x - a) - ?n"
      unfolding sub using unat_sub_no_wrap [OF le] n by simp
    then show ?thesis
      using True by (auto simp: and_bytes_def nth_append)
  next
    case False
    have n0: "ys = [] \<or> ?n < 2 ^ 32"
      using assms by (cases ys) auto
    have "\<not> unat (x - (a + of_nat ?n)) < length ys"
    proof
      assume l: "unat (x - (a + of_nat ?n)) < length ys"
      then have n: "unat (of_nat ?n :: addr) = ?n"
        using n0 by (auto simp: unat_of_nat)
      have "x - a = (x - (a + of_nat ?n)) + of_nat ?n"
        by (simp add: algebra_simps)
      moreover have "unat ((x - (a + of_nat ?n)) + of_nat ?n) = unat (x - (a + of_nat ?n)) + ?n"
        using unat_add_no_wrap [of "x - (a + of_nat ?n)" "of_nat ?n"] l n assms by simp
      ultimately show False
        using False by simp
    qed
    then show ?thesis
      using False by (auto simp: and_bytes_def nth_append)
  qed
qed

lemma and_bytes_take_drop:
  assumes "length buf \<le> 2 ^ 32" "n \<le> length buf"
  shows "and_bytes (and_bytes m a (take n buf)) (a + of_nat n) (drop n buf) = and_bytes m a buf"
  using and_bytes_append [of "take n buf" "drop n buf" m a] assms by (simp add: min_absorb2)

text \<open>
  \<open>wr\<close> are the writable bits of the status register and \<open>prot st a\<close> says that the block-protection bits of
  the status \<open>st\<close> protect address \<open>a\<close>; a protected page or sector ignores programming and erasing.
\<close>

locale nor_flash =
  fixes D :: flash_bus
    and wr :: u16
    and prot :: "u16 \<Rightarrow> addr \<Rightarrow> bool"
  assumes prog:
      "unat a < 2 ^ 24 \<Longrightarrow> unat (a AND 255) + length bs \<le> 256 \<Longrightarrow>
       tx D (FLASH_WRITE_CMD # flash_send_addr a @ bs) (tx D [FLASH_WRITE_ENABLE_CMD] c) =
       c\<lparr>fmem := (if prot (fstat c) a then fmem c else and_bytes (fmem c) a bs), wel := False\<rparr>"
    and erase:
      "unat a < 2 ^ 24 \<Longrightarrow>
       tx D (FLASH_SECT_ERASE_CMD # flash_send_addr a) (tx D [FLASH_WRITE_ENABLE_CMD] c) =
       c\<lparr>fmem := (if prot (fstat c) a then fmem c else erased (fmem c) a), wel := False\<rparr>"
    and read:
      "unat a + n \<le> 2 ^ 24 \<Longrightarrow> rx D (FLASH_READ_CMD # flash_send_addr a) n c = fbytes (fmem c) a n"
    and status_low: "rx D [FLASH_READ_STATUS_CMD_LOWBYTE] 1 c = [ucast (fstat c)]"
    and status_high: "rx D [FLASH_READ_STATUS_CMD_HIGHBYTE] 1 c = [ucast (drop_bit 8 (fstat c))]"
    and status_write1:
      "tx D [FLASH_WRITE_STATUS_CMD_LOWBYTE, lo] (tx D [FLASH_WRITE_ENABLE_CMD] c) =
       c\<lparr>fstat := (ucast lo OR fstat c AND 0xFF00) AND wr OR fstat c AND NOT wr, wel := False\<rparr>"
    and status_write2:
      "tx D [FLASH_WRITE_STATUS_CMD_LOWBYTE, lo, hi] (tx D [FLASH_WRITE_ENABLE_CMD] c) =
       c\<lparr>fstat := (ucast lo OR push_bit 8 (ucast hi)) AND wr OR fstat c AND NOT wr, wel := False\<rparr>"
    and jedec_id: "length (jedec c) = 3 \<Longrightarrow> rx D [FLASH_GET_JEDEC_ID] 3 c = jedec c"
begin

text \<open>One SPI transaction of the driver on such a device.\<close>

lemma write_ram_prog:
  assumes "unat a < 2 ^ 24" "unat (a AND 255) + length bs \<le> 256" "prot (fstat (chip s)) a = p"
  shows "flash_mspi_write_ram D FLASH_WRITE_CMD a 1 bs s =
         s\<lparr>chip := (chip s)\<lparr>fmem := (if p then fmem (chip s) else and_bytes (fmem (chip s)) a bs),
                          wel := False\<rparr>\<rparr>"
  using assms by (simp add: flash_mspi_write_ram_eq prog)

lemma erase_sector:
  assumes "unat a < 2 ^ 24"
  shows "flash_erase_sector D a s =
         s\<lparr>chip := (chip s)\<lparr>fmem := (if prot (fstat (chip s)) a then fmem (chip s) else erased (fmem (chip s)) a),
                          wel := False\<rparr>\<rparr>"
  using assms by (simp add: flash_erase_sector_def flash_mspi_write_ram_eq erase)

lemma read_page:
  assumes "unat a + n \<le> 2 ^ 24"
  shows "flash_read_page D a n s = (fbytes (fmem (chip s)) a n, s)"
  using assms by (simp add: flash_read_page_def flash_mspi_read_ram_eq read)

lemma read_status:
  "flash_read_status D FLASH_READ_STATUS_CMD_LOWBYTE s = (ucast (fstat (chip s)), s)"
  "flash_read_status D FLASH_READ_STATUS_CMD_HIGHBYTE s = (ucast (drop_bit 8 (fstat (chip s))), s)"
  by (simp_all add: flash_read_status_def flash_mspi_read_ram_eq status_low [simplified] status_high [simplified])

lemma write_status8:
  "flash_write_status D FLASH_TYPE_8BIT_STATUS v s =
   s\<lparr>chip := (chip s)\<lparr>fstat := (v AND 0xFF OR fstat (chip s) AND 0xFF00) AND wr OR fstat (chip s) AND NOT wr,
                    wel := False\<rparr>\<rparr>"
  by (simp add: flash_write_status_def flash_mspi_write_ram_eq status_write1 u16_low_byte)

lemma write_status16:
  "flash_write_status D FLASH_TYPE_16BIT_STATUS_ONE_CMD v s =
   s\<lparr>chip := (chip s)\<lparr>fstat := v AND wr OR fstat (chip s) AND NOT wr, wel := False\<rparr>\<rparr>"
  by (simp add: flash_write_status_def flash_mspi_write_ram_eq status_write2 u16_bytes numeral_2_eq_2)

text \<open>
  The page loop: over a range that is not protected it programs the whole buffer, over a protected
  range it changes no byte.
\<close>

lemma write_page_loop_eq:
  assumes "unat a + length buf \<le> 2 ^ 24" "k = 255 - unat (a AND 255)" "buf \<noteq> []"
    and "\<And>i. i < length buf \<Longrightarrow> prot (fstat (chip s)) (a + of_nat i) = p"
  shows "write_page_loop D k a buf s =
         s\<lparr>chip := (chip s)\<lparr>fmem := (if p then fmem (chip s) else and_bytes (fmem (chip s)) a buf),
                          wel := False\<rparr>\<rparr>"
  using assms
proof (induction "length buf" arbitrary: k a buf s rule: less_induct)
  case less
  let ?nw = "if length buf > Suc k then Suc k else length buf"
  let ?s1 = "flash_mspi_write_ram D FLASH_WRITE_CMD a 1 (take ?nw buf) s"
  have ua: "unat a < 2 ^ 24" and len: "length buf \<le> 2 ^ 32"
    using less.prems by (cases buf; simp)+
  have off: "unat (a AND 255) = unat a mod 256"
    by (rule unat_page_offset)
  have pa: "prot (fstat (chip s)) a = p"
    using less.prems(4) [of 0] less.prems(3) by simp
  have s1: "?s1 = s\<lparr>chip := (chip s)\<lparr>fmem := (if p then fmem (chip s)
                               else and_bytes (fmem (chip s)) a (take ?nw buf)), wel := False\<rparr>\<rparr>"
    by (rule write_ram_prog [OF ua _ pa]) (use less.prems(2) off in auto)
  show ?case
  proof (cases "length buf > Suc k")
    case False
    then show ?thesis
      by (subst write_page_loop.simps) (use s1 in \<open>simp add: Let_def\<close>)
  next
    case True
    have nw: "unat (of_nat (Suc k) :: addr) = Suc k"
      using less.prems(2) by (simp add: unat_of_nat del: of_nat_Suc)
    have ua': "unat (a + of_nat (Suc k)) = unat a + Suc k"
      using unat_add_no_wrap [of a "of_nat (Suc k)"] nw less.prems(1) True by simp
    have k': "255 = 255 - unat ((a + of_nat (Suc k)) AND 255)"
    proof -
      have "(unat a + Suc k) mod 256 = 0"
        using page_end_aligned [of k "unat a"] less.prems(2) off by simp
      then show ?thesis
        unfolding unat_page_offset ua' by simp
    qed
    have rec: "write_page_loop D 255 (a + of_nat (Suc k)) (drop (Suc k) buf) ?s1 =
          ?s1\<lparr>chip := (chip ?s1)\<lparr>fmem := (if p then fmem (chip ?s1)
               else and_bytes (fmem (chip ?s1)) (a + of_nat (Suc k)) (drop (Suc k) buf)), wel := False\<rparr>\<rparr>"
    proof (rule less.hyps [OF _ _ k'])
      show "length (drop (Suc k) buf) < length buf" "drop (Suc k) buf \<noteq> []"
        using True by auto
      show "unat (a + of_nat (Suc k)) + length (drop (Suc k) buf) \<le> 2 ^ 24"
        using ua' less.prems(1) True by simp
      fix i
      assume "i < length (drop (Suc k) buf)"
      then show "prot (fstat (chip ?s1)) (a + of_nat (Suc k) + of_nat i) = p"
        using less.prems(4) [of "Suc k + i"] by (simp add: s1 algebra_simps)
    qed
    have "write_page_loop D k a buf s = write_page_loop D 255 (a + of_nat (Suc k)) (drop (Suc k) buf) ?s1"
    proof -
      have "Suc k < length buf" "length buf - Suc k > 0"
        using True by auto
      then show ?thesis
        by (subst write_page_loop.simps) (unfold Let_def, simp only: if_True)
    qed
    also have "\<dots> = s\<lparr>chip := (chip s)\<lparr>fmem := (if p then fmem (chip s) else
          and_bytes (and_bytes (fmem (chip s)) a (take (Suc k) buf)) (a + of_nat (Suc k)) (drop (Suc k) buf)),
                          wel := False\<rparr>\<rparr>"
    proof -
      have t: "?s1 = s\<lparr>chip := (chip s)\<lparr>fmem := (if p then fmem (chip s)
                               else and_bytes (fmem (chip s)) a (take (Suc k) buf)), wel := False\<rparr>\<rparr>"
        using s1 True by (simp only: if_True)
      show ?thesis
        by (subst rec, subst t, subst t, subst t, subst t) (cases p; simp del: of_nat_Suc)
    qed
    also have "and_bytes (and_bytes (fmem (chip s)) a (take (Suc k) buf)) (a + of_nat (Suc k)) (drop (Suc k) buf)
               = and_bytes (fmem (chip s)) a buf"
      using True by (intro and_bytes_take_drop [OF len]) simp
    finally show ?thesis .
  qed
qed

lemma write_page:
  assumes "unat a + length buf \<le> 2 ^ 24" "buf \<noteq> []"
    and "\<And>i. i < length buf \<Longrightarrow> prot (fstat (chip s)) (a + of_nat i) = p"
  shows "flash_write_page D a buf s =
         s\<lparr>chip := (chip s)\<lparr>fmem := (if p then fmem (chip s) else and_bytes (fmem (chip s)) a buf),
                          wel := False\<rparr>\<rparr>"
  unfolding flash_write_page_def by (rule write_page_loop_eq [OF assms(1) refl assms(2,3)])

end

section \<open>A concrete device\<close>

text \<open>
  A device that obeys the protocol: it decodes one frame at a time, and the write-enable latch guards
  every change. The status bits \<open>wr\<close> are writable and \<open>prot\<close> is its protection table.
\<close>

definition frame_addr :: "u8 list \<Rightarrow> addr" where
  "frame_addr r = push_bit 16 (ucast (r ! 0)) OR push_bit 8 (ucast (r ! 1)) OR ucast (r ! 2)"

definition dev_tx :: "u16 \<Rightarrow> (u16 \<Rightarrow> addr \<Rightarrow> bool) \<Rightarrow> u8 list \<Rightarrow> flash_chip \<Rightarrow> flash_chip" where
  "dev_tx w prot fr c =
     (let cmd = hd fr; r = tl fr; a = frame_addr r in
      if cmd = FLASH_WRITE_ENABLE_CMD then c\<lparr>wel := True\<rparr>
      else if \<not> wel c then c
      else if cmd = FLASH_WRITE_CMD
      then c\<lparr>fmem := (if prot (fstat c) a then fmem c else and_bytes (fmem c) a (drop 3 r)), wel := False\<rparr>
      else if cmd = FLASH_SECT_ERASE_CMD
      then c\<lparr>fmem := (if prot (fstat c) a then fmem c else erased (fmem c) a), wel := False\<rparr>
      else if cmd = FLASH_WRITE_STATUS_CMD_LOWBYTE
      then c\<lparr>fstat := (ucast (r ! 0) OR (if length r = 1 then fstat c AND 0xFF00 else push_bit 8 (ucast (r ! 1)))) AND w
                      OR fstat c AND NOT w, wel := False\<rparr>
      else c)"

definition dev_rx :: "u8 list \<Rightarrow> nat \<Rightarrow> flash_chip \<Rightarrow> u8 list" where
  "dev_rx fr n c =
     (let cmd = hd fr in
      if cmd = FLASH_READ_CMD then fbytes (fmem c) (frame_addr (tl fr)) n
      else if cmd = FLASH_READ_STATUS_CMD_LOWBYTE then replicate n (ucast (fstat c))
      else if cmd = FLASH_READ_STATUS_CMD_HIGHBYTE then replicate n (ucast (drop_bit 8 (fstat c)))
      else if cmd = FLASH_GET_JEDEC_ID then take n (jedec c)
      else replicate n 0xFF)"

definition dev_bus :: "u16 \<Rightarrow> (u16 \<Rightarrow> addr \<Rightarrow> bool) \<Rightarrow> flash_bus" where
  "dev_bus w prot = \<lparr>tx = dev_tx w prot, rx = dev_rx\<rparr>"

text \<open>The protection table of the 1 MB part 0x1460C8, from the comments of its header.\<close>

definition prot_1460c8 :: "u16 \<Rightarrow> addr \<Rightarrow> bool" where
  "prot_1460c8 st a =
     (let bp = st AND 0x1C in
      if bp = 0 then False
      else if bp = 0x04 then a < 0xFE000
      else if bp = 0x08 then a < 0xFC000
      else if bp = 0x0C then a < 0xF8000
      else if bp = 0x10 then a < 0xF0000
      else if bp = 0x14 then a < 0xE0000
      else if bp = 0x18 then a < 0xC0000
      else True)"

lemmas flash_cmd_defs =
  FLASH_WRITE_CMD_def FLASH_READ_CMD_def FLASH_SECT_ERASE_CMD_def FLASH_GET_JEDEC_ID_def
  FLASH_WRITE_STATUS_CMD_LOWBYTE_def FLASH_READ_STATUS_CMD_LOWBYTE_def
  FLASH_READ_STATUS_CMD_HIGHBYTE_def FLASH_WRITE_ENABLE_CMD_def

lemma frame_addr_send:
  assumes "unat (a :: addr) < 2 ^ 24"
  shows "frame_addr (flash_send_addr a @ bs) = a"
proof -
  have "take_bit 24 a = a"
    using assms by (simp add: word_unat_eq_iff unsigned_take_bit_eq take_bit_eq_mod unat_mod)
  then have high: "\<not> bit a n" if "24 \<le> n" for n
    using that by (metis bit_take_bit_iff not_le)
  show ?thesis
  proof (rule bit_word_eqI)
    fix n
    assume n: "n < LENGTH(32)"
    consider "n < 8" | "8 \<le> n" "n < 16" | "16 \<le> n" "n < 24" | "24 \<le> n"
      by linarith
    then show "bit (frame_addr (flash_send_addr a @ bs)) n = bit a n"
      by cases (use n high in \<open>simp_all add: frame_addr_def flash_send_addr_def bit_simps\<close>, linarith+)
  qed
qed

interpretation dev: nor_flash "dev_bus w prot" w prot for w prot
proof (unfold_locales, goal_cases)
  case (1 a bs c)
  then show ?case
    using frame_addr_send [of a bs] by (simp add: dev_bus_def dev_tx_def flash_cmd_defs flash_send_addr_def)
next
  case (2 a c)
  then show ?case
    using frame_addr_send [of a "[]"] by (simp add: dev_bus_def dev_tx_def flash_cmd_defs)
next
  case (3 a n c)
  then show ?case
    by (cases n) (use frame_addr_send [of a "[]"] in \<open>simp_all add: dev_bus_def dev_rx_def flash_cmd_defs fbytes_def\<close>)
qed (simp_all add: dev_bus_def dev_tx_def dev_rx_def flash_cmd_defs)

section \<open>Properties\<close>

lemma and_u8_ff: "0xFF AND x = (x :: u8)"
proof -
  have "(0xFF :: u8) = - 1"
    by simp
  then show ?thesis
    by (simp only: and.left_neutral)
qed

lemma fbytes_and_bytes:
  assumes "length buf \<le> 2 ^ 32" "\<And>i. i < length buf \<Longrightarrow> m (a + of_nat i) = 0xFF"
  shows "fbytes (and_bytes m a buf) a (length buf) = buf"
proof (rule nth_equalityI)
  fix i
  assume i: "i < length (fbytes (and_bytes m a buf) a (length buf))"
  then have "unat (of_nat i :: addr) = i"
    using assms(1) by (simp add: unat_of_nat)
  then show "fbytes (and_bytes m a buf) a (length buf) ! i = buf ! i"
    using i assms(2) [of i] by (simp add: and_bytes_def and_u8_ff)
qed simp

lemma and_bytes_outside:
  "length buf \<le> unat (x - a) \<Longrightarrow> and_bytes m a buf x = m x"
  by (simp add: and_bytes_def)

text \<open>
  On a NOR device, \<^verbatim>\<open>flash_write_page\<close> of a buffer of any length programs exactly the range of the
  buffer although it sends one transaction per 256-byte page: on an erased, unprotected range reading
  the range back returns the buffer, every byte outside the range keeps its value, and nothing but the
  device memory (and its write-enable latch) changes.
\<close>

theorem flash_write_page_read:
  assumes "nor_flash D wr prot" "buf \<noteq> []" "unat a + length buf \<le> 2 ^ 24"
    and "\<forall>i < length buf. \<not> prot (fstat (chip s)) (a + of_nat i)"
    and "\<forall>i < length buf. fmem (chip s) (a + of_nat i) = 0xFF"
  shows "let s' = flash_write_page D a buf s in
         flash_read_page D a (length buf) s' = (buf, s')
         \<and> s' = s\<lparr>chip := (chip s)\<lparr>fmem := fmem (chip s'), wel := False\<rparr>\<rparr>
         \<and> (\<forall>x. length buf \<le> unat (x - a) \<longrightarrow> fmem (chip s') x = fmem (chip s) x)"
proof -
  have w: "flash_write_page D a buf s =
           s\<lparr>chip := (chip s)\<lparr>fmem := and_bytes (fmem (chip s)) a buf, wel := False\<rparr>\<rparr>"
    using nor_flash.write_page [OF assms(1,3,2), of s False] assms(4) by simp
  have r: "flash_read_page D a (length buf) t = (fbytes (fmem (chip t)) a (length buf), t)" for t :: "'b flash_hw_scheme"
    by (rule nor_flash.read_page [OF assms(1,3)])
  show ?thesis
    using fbytes_and_bytes [of buf "fmem (chip s)" a] assms(3,5) and_bytes_outside [of buf _ a "fmem (chip s)"]
    by (simp add: w r Let_def)
qed

definition blank_chip :: flash_chip where
  "blank_chip = \<lparr>fmem = (\<lambda>_. 0xFF), fstat = 0, wel = False, jedec = [0xC8, 0x60, 0x14]\<rparr>"

definition demo_hw :: flash_hw where
  "demo_hw = \<lparr>mem = (\<lambda>_. 0), reg_irq_en = 1, T_evtExcept = [0, 0, 0, 0], g_sysExceptCallback = 0, exc_calls = [],
              bufGroups = [], chip = blank_chip\<rparr>"

theorem flash_write_page_read_witness:
  "fst (flash_read_page (dev_bus 0x9C prot_1460c8) 0xFE (length [1, 2, 3, 4])
         (flash_write_page (dev_bus 0x9C prot_1460c8) 0xFE [1, 2, 3, 4] demo_hw)) = [1, 2, 3, 4]"
  using flash_write_page_read [OF dev.nor_flash_axioms [of "0x9C" prot_1460c8], of "[1, 2, 3, 4]" "0xFE" demo_hw]
  by (simp add: demo_hw_def blank_chip_def prot_1460c8_def Let_def)

end
