(* ===== verification/Flash_Mid.thy ===== *)
theory Flash_Mid
  imports Flash_Chip
begin

text \<open>
  The status-register functions of the flash models of the 8278, \<^verbatim>\<open>platform/chip_8278/flash/flash_mid*.c\<close>,
  and the model table of \<^verbatim>\<open>flash_common.c\<close>. Every model has the same five operations over its own status
  width and protection mask; the lemmas are proved once for a read-modify-write of either width
  and apply to each model's functions.
\<close>

section \<open>The models with an 8-bit status register\<close>

subsection \<open>flash\_mid11325e.c\<close>

definition FLASH_LOCK_NONE_MID11325E :: u32 where "FLASH_LOCK_NONE_MID11325E = 0"
definition FLASH_LOCK_ALL_MID11325E :: u32 where "FLASH_LOCK_ALL_MID11325E = 0x1C"
definition FLASH_WRITE_STATUS_BP_MID11325E :: u8 where "FLASH_WRITE_STATUS_BP_MID11325E = 0x1C"

definition flash_read_status_mid11325e :: "flash_bus \<Rightarrow> 'a flash_hw_scheme \<Rightarrow> u8 \<times> 'a flash_hw_scheme" where
  "flash_read_status_mid11325e D s = flash_read_status D FLASH_READ_STATUS_CMD_LOWBYTE s"

definition flash_write_status_mid11325e :: "flash_bus \<Rightarrow> u8 \<Rightarrow> u8 \<Rightarrow> 'a flash_hw_scheme \<Rightarrow> u8 \<times> 'a flash_hw_scheme" where
  "flash_write_status_mid11325e D data msk s =
     (if data AND NOT msk \<noteq> 0 then (2, s)
      else
        let (status, s1) = flash_read_status_mid11325e D s;
            (status', s2) =
              (if data \<noteq> status AND msk
               then flash_read_status_mid11325e D
                      (flash_write_status D FLASH_TYPE_8BIT_STATUS (ucast (data OR (status AND NOT msk))) s1)
               else (status, s1))
        in (if data = status' AND msk then 1 else 0, s2))"

definition flash_lock_mid11325e :: "flash_bus \<Rightarrow> u32 \<Rightarrow> 'a flash_hw_scheme \<Rightarrow> u8 \<times> 'a flash_hw_scheme" where
  "flash_lock_mid11325e D data s = flash_write_status_mid11325e D (ucast data) FLASH_WRITE_STATUS_BP_MID11325E s"

definition flash_unlock_mid11325e :: "flash_bus \<Rightarrow> 'a flash_hw_scheme \<Rightarrow> u8 \<times> 'a flash_hw_scheme" where
  "flash_unlock_mid11325e D s =
     flash_write_status_mid11325e D (ucast FLASH_LOCK_NONE_MID11325E) FLASH_WRITE_STATUS_BP_MID11325E s"

definition flash_get_lock_block_mid11325e :: "flash_bus \<Rightarrow> 'a flash_hw_scheme \<Rightarrow> u32 \<times> 'a flash_hw_scheme" where
  "flash_get_lock_block_mid11325e D s =
     (let (st, s1) = flash_read_status_mid11325e D s in (ucast (st AND FLASH_WRITE_STATUS_BP_MID11325E), s1))"

subsection \<open>flash\_mid1160c8.c\<close>

definition FLASH_LOCK_NONE_MID1160C8 :: u32 where "FLASH_LOCK_NONE_MID1160C8 = 0"
definition FLASH_LOCK_ALL_MID1160C8 :: u32 where "FLASH_LOCK_ALL_MID1160C8 = 0x1C"
definition FLASH_WRITE_STATUS_BP_MID1160C8 :: u8 where "FLASH_WRITE_STATUS_BP_MID1160C8 = 0x1C"

definition flash_read_status_mid1160c8 :: "flash_bus \<Rightarrow> 'a flash_hw_scheme \<Rightarrow> u8 \<times> 'a flash_hw_scheme" where
  "flash_read_status_mid1160c8 D s = flash_read_status D FLASH_READ_STATUS_CMD_LOWBYTE s"

definition flash_write_status_mid1160c8 :: "flash_bus \<Rightarrow> u8 \<Rightarrow> u8 \<Rightarrow> 'a flash_hw_scheme \<Rightarrow> u8 \<times> 'a flash_hw_scheme" where
  "flash_write_status_mid1160c8 D data msk s =
     (if data AND NOT msk \<noteq> 0 then (2, s)
      else
        let (status, s1) = flash_read_status_mid1160c8 D s;
            (status', s2) =
              (if data \<noteq> status AND msk
               then flash_read_status_mid1160c8 D
                      (flash_write_status D FLASH_TYPE_8BIT_STATUS (ucast (data OR (status AND NOT msk))) s1)
               else (status, s1))
        in (if data = status' AND msk then 1 else 0, s2))"

definition flash_lock_mid1160c8 :: "flash_bus \<Rightarrow> u32 \<Rightarrow> 'a flash_hw_scheme \<Rightarrow> u8 \<times> 'a flash_hw_scheme" where
  "flash_lock_mid1160c8 D data s = flash_write_status_mid1160c8 D (ucast data) FLASH_WRITE_STATUS_BP_MID1160C8 s"

definition flash_unlock_mid1160c8 :: "flash_bus \<Rightarrow> 'a flash_hw_scheme \<Rightarrow> u8 \<times> 'a flash_hw_scheme" where
  "flash_unlock_mid1160c8 D s =
     flash_write_status_mid1160c8 D (ucast FLASH_LOCK_NONE_MID1160C8) FLASH_WRITE_STATUS_BP_MID1160C8 s"

definition flash_get_lock_block_mid1160c8 :: "flash_bus \<Rightarrow> 'a flash_hw_scheme \<Rightarrow> u32 \<times> 'a flash_hw_scheme" where
  "flash_get_lock_block_mid1160c8 D s =
     (let (st, s1) = flash_read_status_mid1160c8 D s in (ucast (st AND FLASH_WRITE_STATUS_BP_MID1160C8), s1))"

subsection \<open>flash\_mid13325e.c\<close>

definition FLASH_LOCK_NONE_MID13325E :: u32 where "FLASH_LOCK_NONE_MID13325E = 0"
definition FLASH_LOCK_ALL_MID13325E :: u32 where "FLASH_LOCK_ALL_MID13325E = 0x1C"
definition FLASH_WRITE_STATUS_BP_MID13325E :: u8 where "FLASH_WRITE_STATUS_BP_MID13325E = 0x1C"

definition flash_read_status_mid13325e :: "flash_bus \<Rightarrow> 'a flash_hw_scheme \<Rightarrow> u8 \<times> 'a flash_hw_scheme" where
  "flash_read_status_mid13325e D s = flash_read_status D FLASH_READ_STATUS_CMD_LOWBYTE s"

definition flash_write_status_mid13325e :: "flash_bus \<Rightarrow> u8 \<Rightarrow> u8 \<Rightarrow> 'a flash_hw_scheme \<Rightarrow> u8 \<times> 'a flash_hw_scheme" where
  "flash_write_status_mid13325e D data msk s =
     (if data AND NOT msk \<noteq> 0 then (2, s)
      else
        let (status, s1) = flash_read_status_mid13325e D s;
            (status', s2) =
              (if data \<noteq> status AND msk
               then flash_read_status_mid13325e D
                      (flash_write_status D FLASH_TYPE_8BIT_STATUS (ucast (data OR (status AND NOT msk))) s1)
               else (status, s1))
        in (if data = status' AND msk then 1 else 0, s2))"

definition flash_lock_mid13325e :: "flash_bus \<Rightarrow> u32 \<Rightarrow> 'a flash_hw_scheme \<Rightarrow> u8 \<times> 'a flash_hw_scheme" where
  "flash_lock_mid13325e D data s = flash_write_status_mid13325e D (ucast data) FLASH_WRITE_STATUS_BP_MID13325E s"

definition flash_unlock_mid13325e :: "flash_bus \<Rightarrow> 'a flash_hw_scheme \<Rightarrow> u8 \<times> 'a flash_hw_scheme" where
  "flash_unlock_mid13325e D s =
     flash_write_status_mid13325e D (ucast FLASH_LOCK_NONE_MID13325E) FLASH_WRITE_STATUS_BP_MID13325E s"

definition flash_get_lock_block_mid13325e :: "flash_bus \<Rightarrow> 'a flash_hw_scheme \<Rightarrow> u32 \<times> 'a flash_hw_scheme" where
  "flash_get_lock_block_mid13325e D s =
     (let (st, s1) = flash_read_status_mid13325e D s in (ucast (st AND FLASH_WRITE_STATUS_BP_MID13325E), s1))"

subsection \<open>flash\_mid1360c8.c\<close>

definition FLASH_LOCK_NONE_MID1360C8 :: u32 where "FLASH_LOCK_NONE_MID1360C8 = 0"
definition FLASH_LOCK_ALL_MID1360C8 :: u32 where "FLASH_LOCK_ALL_MID1360C8 = 0x1C"
definition FLASH_WRITE_STATUS_BP_MID1360C8 :: u8 where "FLASH_WRITE_STATUS_BP_MID1360C8 = 0x1C"

definition flash_read_status_mid1360c8 :: "flash_bus \<Rightarrow> 'a flash_hw_scheme \<Rightarrow> u8 \<times> 'a flash_hw_scheme" where
  "flash_read_status_mid1360c8 D s = flash_read_status D FLASH_READ_STATUS_CMD_LOWBYTE s"

definition flash_write_status_mid1360c8 :: "flash_bus \<Rightarrow> u8 \<Rightarrow> u8 \<Rightarrow> 'a flash_hw_scheme \<Rightarrow> u8 \<times> 'a flash_hw_scheme" where
  "flash_write_status_mid1360c8 D data msk s =
     (if data AND NOT msk \<noteq> 0 then (2, s)
      else
        let (status, s1) = flash_read_status_mid1360c8 D s;
            (status', s2) =
              (if data \<noteq> status AND msk
               then flash_read_status_mid1360c8 D
                      (flash_write_status D FLASH_TYPE_8BIT_STATUS (ucast (data OR (status AND NOT msk))) s1)
               else (status, s1))
        in (if data = status' AND msk then 1 else 0, s2))"

definition flash_lock_mid1360c8 :: "flash_bus \<Rightarrow> u32 \<Rightarrow> 'a flash_hw_scheme \<Rightarrow> u8 \<times> 'a flash_hw_scheme" where
  "flash_lock_mid1360c8 D data s = flash_write_status_mid1360c8 D (ucast data) FLASH_WRITE_STATUS_BP_MID1360C8 s"

definition flash_unlock_mid1360c8 :: "flash_bus \<Rightarrow> 'a flash_hw_scheme \<Rightarrow> u8 \<times> 'a flash_hw_scheme" where
  "flash_unlock_mid1360c8 D s =
     flash_write_status_mid1360c8 D (ucast FLASH_LOCK_NONE_MID1360C8) FLASH_WRITE_STATUS_BP_MID1360C8 s"

definition flash_get_lock_block_mid1360c8 :: "flash_bus \<Rightarrow> 'a flash_hw_scheme \<Rightarrow> u32 \<times> 'a flash_hw_scheme" where
  "flash_get_lock_block_mid1360c8 D s =
     (let (st, s1) = flash_read_status_mid1360c8 D s in (ucast (st AND FLASH_WRITE_STATUS_BP_MID1360C8), s1))"

subsection \<open>flash\_mid14325e.c\<close>

definition FLASH_LOCK_NONE_MID14325E :: u32 where "FLASH_LOCK_NONE_MID14325E = 0"
definition FLASH_LOCK_ALL_MID14325E :: u32 where "FLASH_LOCK_ALL_MID14325E = 0x1C"
definition FLASH_WRITE_STATUS_BP_MID14325E :: u8 where "FLASH_WRITE_STATUS_BP_MID14325E = 0x1C"

definition flash_read_status_mid14325e :: "flash_bus \<Rightarrow> 'a flash_hw_scheme \<Rightarrow> u8 \<times> 'a flash_hw_scheme" where
  "flash_read_status_mid14325e D s = flash_read_status D FLASH_READ_STATUS_CMD_LOWBYTE s"

definition flash_write_status_mid14325e :: "flash_bus \<Rightarrow> u8 \<Rightarrow> u8 \<Rightarrow> 'a flash_hw_scheme \<Rightarrow> u8 \<times> 'a flash_hw_scheme" where
  "flash_write_status_mid14325e D data msk s =
     (if data AND NOT msk \<noteq> 0 then (2, s)
      else
        let (status, s1) = flash_read_status_mid14325e D s;
            (status', s2) =
              (if data \<noteq> status AND msk
               then flash_read_status_mid14325e D
                      (flash_write_status D FLASH_TYPE_8BIT_STATUS (ucast (data OR (status AND NOT msk))) s1)
               else (status, s1))
        in (if data = status' AND msk then 1 else 0, s2))"

definition flash_lock_mid14325e :: "flash_bus \<Rightarrow> u32 \<Rightarrow> 'a flash_hw_scheme \<Rightarrow> u8 \<times> 'a flash_hw_scheme" where
  "flash_lock_mid14325e D data s = flash_write_status_mid14325e D (ucast data) FLASH_WRITE_STATUS_BP_MID14325E s"

definition flash_unlock_mid14325e :: "flash_bus \<Rightarrow> 'a flash_hw_scheme \<Rightarrow> u8 \<times> 'a flash_hw_scheme" where
  "flash_unlock_mid14325e D s =
     flash_write_status_mid14325e D (ucast FLASH_LOCK_NONE_MID14325E) FLASH_WRITE_STATUS_BP_MID14325E s"

definition flash_get_lock_block_mid14325e :: "flash_bus \<Rightarrow> 'a flash_hw_scheme \<Rightarrow> u32 \<times> 'a flash_hw_scheme" where
  "flash_get_lock_block_mid14325e D s =
     (let (st, s1) = flash_read_status_mid14325e D s in (ucast (st AND FLASH_WRITE_STATUS_BP_MID14325E), s1))"

subsection \<open>flash\_mid1460c8.c\<close>

definition FLASH_LOCK_NONE_MID1460C8 :: u32 where "FLASH_LOCK_NONE_MID1460C8 = 0"
definition FLASH_LOCK_ALL_MID1460C8 :: u32 where "FLASH_LOCK_ALL_MID1460C8 = 0x1C"
definition FLASH_WRITE_STATUS_BP_MID1460C8 :: u8 where "FLASH_WRITE_STATUS_BP_MID1460C8 = 0x1C"

definition flash_read_status_mid1460c8 :: "flash_bus \<Rightarrow> 'a flash_hw_scheme \<Rightarrow> u8 \<times> 'a flash_hw_scheme" where
  "flash_read_status_mid1460c8 D s = flash_read_status D FLASH_READ_STATUS_CMD_LOWBYTE s"

definition flash_write_status_mid1460c8 :: "flash_bus \<Rightarrow> u8 \<Rightarrow> u8 \<Rightarrow> 'a flash_hw_scheme \<Rightarrow> u8 \<times> 'a flash_hw_scheme" where
  "flash_write_status_mid1460c8 D data msk s =
     (if data AND NOT msk \<noteq> 0 then (2, s)
      else
        let (status, s1) = flash_read_status_mid1460c8 D s;
            (status', s2) =
              (if data \<noteq> status AND msk
               then flash_read_status_mid1460c8 D
                      (flash_write_status D FLASH_TYPE_8BIT_STATUS (ucast (data OR (status AND NOT msk))) s1)
               else (status, s1))
        in (if data = status' AND msk then 1 else 0, s2))"

definition flash_lock_mid1460c8 :: "flash_bus \<Rightarrow> u32 \<Rightarrow> 'a flash_hw_scheme \<Rightarrow> u8 \<times> 'a flash_hw_scheme" where
  "flash_lock_mid1460c8 D data s = flash_write_status_mid1460c8 D (ucast data) FLASH_WRITE_STATUS_BP_MID1460C8 s"

definition flash_unlock_mid1460c8 :: "flash_bus \<Rightarrow> 'a flash_hw_scheme \<Rightarrow> u8 \<times> 'a flash_hw_scheme" where
  "flash_unlock_mid1460c8 D s =
     flash_write_status_mid1460c8 D (ucast FLASH_LOCK_NONE_MID1460C8) FLASH_WRITE_STATUS_BP_MID1460C8 s"

definition flash_get_lock_block_mid1460c8 :: "flash_bus \<Rightarrow> 'a flash_hw_scheme \<Rightarrow> u32 \<times> 'a flash_hw_scheme" where
  "flash_get_lock_block_mid1460c8 D s =
     (let (st, s1) = flash_read_status_mid1460c8 D s in (ucast (st AND FLASH_WRITE_STATUS_BP_MID1460C8), s1))"

section \<open>The models with a 16-bit status register\<close>

subsection \<open>flash\_mid146085.c\<close>

definition FLASH_LOCK_NONE_MID146085 :: u32 where "FLASH_LOCK_NONE_MID146085 = 0"
definition FLASH_LOCK_LOW_512K_MID146085 :: u32 where "FLASH_LOCK_LOW_512K_MID146085 = 0x30"
definition FLASH_LOCK_ALL_MID146085 :: u32 where "FLASH_LOCK_ALL_MID146085 = 0x7C"
definition FLASH_WRITE_STATUS_BP_MID146085 :: u32 where "FLASH_WRITE_STATUS_BP_MID146085 = 0x407C"
definition FLASH_WRITE_STATUS_OTP_MID146085 :: u32 where "FLASH_WRITE_STATUS_OTP_MID146085 = 0x3800"

definition flash_read_status_mid146085 :: "flash_bus \<Rightarrow> 'a flash_hw_scheme \<Rightarrow> u16 \<times> 'a flash_hw_scheme" where
  "flash_read_status_mid146085 D s =
     (let (status_low, s1) = flash_read_status D FLASH_READ_STATUS_CMD_LOWBYTE s;
          (status_high, s2) = flash_read_status D FLASH_READ_STATUS_CMD_HIGHBYTE s1
      in (ucast status_low OR push_bit 8 (ucast status_high), s2))"

definition flash_write_status_mid146085 :: "flash_bus \<Rightarrow> u16 \<Rightarrow> u32 \<Rightarrow> 'a flash_hw_scheme \<Rightarrow> u8 \<times> 'a flash_hw_scheme" where
  "flash_write_status_mid146085 D data msk s =
     (if ucast data AND NOT msk \<noteq> 0 then (2, s)
      else
        let (status, s1) = flash_read_status_mid146085 D s;
            (status', s2) =
              (if ucast data \<noteq> ucast status AND msk
               then flash_read_status_mid146085 D
                      (flash_write_status D FLASH_TYPE_16BIT_STATUS_ONE_CMD
                         (ucast (ucast data OR (ucast status AND NOT msk))) s1)
               else (status, s1))
        in (if ucast data = ucast status' AND msk then 1 else 0, s2))"

definition flash_lock_mid146085 :: "flash_bus \<Rightarrow> u32 \<Rightarrow> 'a flash_hw_scheme \<Rightarrow> u8 \<times> 'a flash_hw_scheme" where
  "flash_lock_mid146085 D data s = flash_write_status_mid146085 D (ucast data) FLASH_WRITE_STATUS_BP_MID146085 s"

definition flash_unlock_mid146085 :: "flash_bus \<Rightarrow> 'a flash_hw_scheme \<Rightarrow> u8 \<times> 'a flash_hw_scheme" where
  "flash_unlock_mid146085 D s =
     flash_write_status_mid146085 D (ucast FLASH_LOCK_NONE_MID146085) FLASH_WRITE_STATUS_BP_MID146085 s"

definition flash_get_lock_block_mid146085 :: "flash_bus \<Rightarrow> 'a flash_hw_scheme \<Rightarrow> u32 \<times> 'a flash_hw_scheme" where
  "flash_get_lock_block_mid146085 D s =
     (let (st, s1) = flash_read_status_mid146085 D s in (ucast st AND FLASH_WRITE_STATUS_BP_MID146085, s1))"

definition flash_lock_otp_mid146085 :: "flash_bus \<Rightarrow> u16 \<Rightarrow> 'a flash_hw_scheme \<Rightarrow> 'a flash_hw_scheme" where
  "flash_lock_otp_mid146085 D data s =
     snd (flash_write_status_mid146085 D data FLASH_WRITE_STATUS_OTP_MID146085 s)"

subsection \<open>flash\_mid1570cd.c\<close>

definition FLASH_LOCK_NONE_MID1570CD :: u32 where "FLASH_LOCK_NONE_MID1570CD = 0"
definition FLASH_LOCK_LOW_512K_MID1570CD :: u32 where "FLASH_LOCK_LOW_512K_MID1570CD = 0x30"
definition FLASH_LOCK_ALL_MID1570CD :: u32 where "FLASH_LOCK_ALL_MID1570CD = 0x7C"
definition FLASH_WRITE_STATUS_BP_MID1570CD :: u32 where "FLASH_WRITE_STATUS_BP_MID1570CD = 0x407C"
definition FLASH_WRITE_STATUS_OTP_MID1570CD :: u32 where "FLASH_WRITE_STATUS_OTP_MID1570CD = 0x0400"

definition flash_read_status_mid1570cd :: "flash_bus \<Rightarrow> 'a flash_hw_scheme \<Rightarrow> u16 \<times> 'a flash_hw_scheme" where
  "flash_read_status_mid1570cd D s =
     (let (status_low, s1) = flash_read_status D FLASH_READ_STATUS_CMD_LOWBYTE s;
          (status_high, s2) = flash_read_status D FLASH_READ_STATUS_CMD_HIGHBYTE s1
      in (ucast status_low OR push_bit 8 (ucast status_high), s2))"

definition flash_write_status_mid1570cd :: "flash_bus \<Rightarrow> u16 \<Rightarrow> u32 \<Rightarrow> 'a flash_hw_scheme \<Rightarrow> u8 \<times> 'a flash_hw_scheme" where
  "flash_write_status_mid1570cd D data msk s =
     (if ucast data AND NOT msk \<noteq> 0 then (2, s)
      else
        let (status, s1) = flash_read_status_mid1570cd D s;
            (status', s2) =
              (if ucast data \<noteq> ucast status AND msk
               then flash_read_status_mid1570cd D
                      (flash_write_status D FLASH_TYPE_16BIT_STATUS_ONE_CMD
                         (ucast (ucast data OR (ucast status AND NOT msk))) s1)
               else (status, s1))
        in (if ucast data = ucast status' AND msk then 1 else 0, s2))"

definition flash_lock_mid1570cd :: "flash_bus \<Rightarrow> u32 \<Rightarrow> 'a flash_hw_scheme \<Rightarrow> u8 \<times> 'a flash_hw_scheme" where
  "flash_lock_mid1570cd D data s = flash_write_status_mid1570cd D (ucast data) FLASH_WRITE_STATUS_BP_MID1570CD s"

definition flash_unlock_mid1570cd :: "flash_bus \<Rightarrow> 'a flash_hw_scheme \<Rightarrow> u8 \<times> 'a flash_hw_scheme" where
  "flash_unlock_mid1570cd D s =
     flash_write_status_mid1570cd D (ucast FLASH_LOCK_NONE_MID1570CD) FLASH_WRITE_STATUS_BP_MID1570CD s"

definition flash_get_lock_block_mid1570cd :: "flash_bus \<Rightarrow> 'a flash_hw_scheme \<Rightarrow> u32 \<times> 'a flash_hw_scheme" where
  "flash_get_lock_block_mid1570cd D s =
     (let (st, s1) = flash_read_status_mid1570cd D s in (ucast st AND FLASH_WRITE_STATUS_BP_MID1570CD, s1))"

definition flash_lock_otp_mid1570cd :: "flash_bus \<Rightarrow> u16 \<Rightarrow> 'a flash_hw_scheme \<Rightarrow> 'a flash_hw_scheme" where
  "flash_lock_otp_mid1570cd D data s =
     snd (flash_write_status_mid1570cd D data FLASH_WRITE_STATUS_OTP_MID1570CD s)"

section \<open>The model table (flash\_common.c)\<close>

text \<open>
  The function pointers of \<^verbatim>\<open>flash_hal_handler_t\<close> and \<^verbatim>\<open>drv_flash_opt_t\<close> always point to the three functions
  of one model, so a pointer is the name of the model; the functions below dereference it.
\<close>

datatype flash_model = MID1160C8 | MID11325E | MID1360C8 | MID13325E | MID146085 | MID1460C8 | MID14325E | MID1570CD

primrec lock_fp :: "flash_model \<Rightarrow> flash_bus \<Rightarrow> u32 \<Rightarrow> 'a flash_hw_scheme \<Rightarrow> u8 \<times> 'a flash_hw_scheme" where
  "lock_fp MID1160C8 = flash_lock_mid1160c8"
| "lock_fp MID11325E = flash_lock_mid11325e"
| "lock_fp MID1360C8 = flash_lock_mid1360c8"
| "lock_fp MID13325E = flash_lock_mid13325e"
| "lock_fp MID146085 = flash_lock_mid146085"
| "lock_fp MID1460C8 = flash_lock_mid1460c8"
| "lock_fp MID14325E = flash_lock_mid14325e"
| "lock_fp MID1570CD = flash_lock_mid1570cd"

primrec unlock_fp :: "flash_model \<Rightarrow> flash_bus \<Rightarrow> 'a flash_hw_scheme \<Rightarrow> u8 \<times> 'a flash_hw_scheme" where
  "unlock_fp MID1160C8 = flash_unlock_mid1160c8"
| "unlock_fp MID11325E = flash_unlock_mid11325e"
| "unlock_fp MID1360C8 = flash_unlock_mid1360c8"
| "unlock_fp MID13325E = flash_unlock_mid13325e"
| "unlock_fp MID146085 = flash_unlock_mid146085"
| "unlock_fp MID1460C8 = flash_unlock_mid1460c8"
| "unlock_fp MID14325E = flash_unlock_mid14325e"
| "unlock_fp MID1570CD = flash_unlock_mid1570cd"

primrec get_lock_fp :: "flash_model \<Rightarrow> flash_bus \<Rightarrow> 'a flash_hw_scheme \<Rightarrow> u32 \<times> 'a flash_hw_scheme" where
  "get_lock_fp MID1160C8 = flash_get_lock_block_mid1160c8"
| "get_lock_fp MID11325E = flash_get_lock_block_mid11325e"
| "get_lock_fp MID1360C8 = flash_get_lock_block_mid1360c8"
| "get_lock_fp MID13325E = flash_get_lock_block_mid13325e"
| "get_lock_fp MID146085 = flash_get_lock_block_mid146085"
| "get_lock_fp MID1460C8 = flash_get_lock_block_mid1460c8"
| "get_lock_fp MID14325E = flash_get_lock_block_mid14325e"
| "get_lock_fp MID1570CD = flash_get_lock_block_mid1570cd"

record flash_hal_handler_t =
  hal_mid :: u32
  hal_fns :: flash_model
  hal_lock_size :: u32

definition flash_list :: "flash_hal_handler_t list" where
  "flash_list =
    [\<lparr>hal_mid = 0x1160C8, hal_fns = MID1160C8, hal_lock_size = 0x10\<rparr>,
     \<lparr>hal_mid = 0x11325E, hal_fns = MID11325E, hal_lock_size = 0x10\<rparr>,
     \<lparr>hal_mid = 0x1360C8, hal_fns = MID1360C8, hal_lock_size = 0x18\<rparr>,
     \<lparr>hal_mid = 0x13325E, hal_fns = MID13325E, hal_lock_size = 0x18\<rparr>,
     \<lparr>hal_mid = 0x146085, hal_fns = MID146085, hal_lock_size = 0x30\<rparr>,
     \<lparr>hal_mid = 0x1460C8, hal_fns = MID1460C8, hal_lock_size = 0x18\<rparr>,
     \<lparr>hal_mid = 0x14325E, hal_fns = MID14325E, hal_lock_size = 0x18\<rparr>,
     \<lparr>hal_mid = 0x1570CD, hal_fns = MID1570CD, hal_lock_size = 0x34\<rparr>]"

definition no_uid :: "u8 list" where
  "no_uid = concat (replicate 8 [0x51, 0x01])"

text \<open>The result, the identifier and the bytes of the caller's buffer afterwards.\<close>

definition flash_read_mid_uid_with_check ::
  "flash_bus \<Rightarrow> u8 list \<Rightarrow> 'a flash_hw_scheme \<Rightarrow> (int \<times> u32 \<times> u8 list) \<times> 'a flash_hw_scheme" where
  "flash_read_mid_uid_with_check D flash_uid s =
     (let (flash_mid, s1) = flash_read_mid D s in
      if \<exists>h \<in> set flash_list. hal_mid h = flash_mid
      then let (u, s2) = flash_read_uid D FLASH_READ_UID_CMD_GD_PUYA_ZB_UT flash_uid s1;
               f_cnt = length (filter (\<lambda>i. u ! i = no_uid ! i) [0..<16])
           in ((if f_cnt = 16 then 0 else 1, flash_mid, u), s2)
      else ((0, flash_mid, flash_uid), s1))"

section \<open>Read-modify-write of the status register\<close>

text \<open>The body that the write functions share, for either width.\<close>

definition status_rmw8 :: "flash_bus \<Rightarrow> u8 \<Rightarrow> u8 \<Rightarrow> 'a flash_hw_scheme \<Rightarrow> u8 \<times> 'a flash_hw_scheme" where
  "status_rmw8 D data msk s =
     (if data AND NOT msk \<noteq> 0 then (2, s)
      else
        let (status, s1) = flash_read_status D FLASH_READ_STATUS_CMD_LOWBYTE s;
            (status', s2) =
              (if data \<noteq> status AND msk
               then flash_read_status D FLASH_READ_STATUS_CMD_LOWBYTE
                      (flash_write_status D FLASH_TYPE_8BIT_STATUS (ucast (data OR (status AND NOT msk))) s1)
               else (status, s1))
        in (if data = status' AND msk then 1 else 0, s2))"

lemma write_status_mid8:
  "flash_write_status_mid11325e = status_rmw8"
  "flash_write_status_mid1160c8 = status_rmw8"
  "flash_write_status_mid13325e = status_rmw8"
  "flash_write_status_mid1360c8 = status_rmw8"
  "flash_write_status_mid14325e = status_rmw8"
  "flash_write_status_mid1460c8 = status_rmw8"
  unfolding status_rmw8_def flash_write_status_mid11325e_def flash_read_status_mid11325e_def
      flash_write_status_mid1160c8_def flash_read_status_mid1160c8_def
      flash_write_status_mid13325e_def flash_read_status_mid13325e_def
      flash_write_status_mid1360c8_def flash_read_status_mid1360c8_def
      flash_write_status_mid14325e_def flash_read_status_mid14325e_def
      flash_write_status_mid1460c8_def flash_read_status_mid1460c8_def
  by (rule refl)+

lemma write_status_mid1570cd_eq: "flash_write_status_mid1570cd = flash_write_status_mid146085"
  by (intro ext, unfold flash_write_status_mid1570cd_def flash_write_status_mid146085_def
        flash_read_status_mid1570cd_def flash_read_status_mid146085_def, rule refl)

text \<open>The masks of all models, for unfolding.\<close>

lemmas flash_mask_defs =
  FLASH_LOCK_NONE_MID11325E_def FLASH_WRITE_STATUS_BP_MID11325E_def
  FLASH_LOCK_NONE_MID1160C8_def FLASH_WRITE_STATUS_BP_MID1160C8_def
  FLASH_LOCK_NONE_MID13325E_def FLASH_WRITE_STATUS_BP_MID13325E_def
  FLASH_LOCK_NONE_MID1360C8_def FLASH_WRITE_STATUS_BP_MID1360C8_def
  FLASH_LOCK_NONE_MID14325E_def FLASH_WRITE_STATUS_BP_MID14325E_def
  FLASH_LOCK_NONE_MID1460C8_def FLASH_WRITE_STATUS_BP_MID1460C8_def
  FLASH_LOCK_NONE_MID146085_def FLASH_WRITE_STATUS_BP_MID146085_def
  FLASH_LOCK_NONE_MID1570CD_def FLASH_WRITE_STATUS_BP_MID1570CD_def

lemmas flash_fp_defs =
  flash_lock_mid11325e_def flash_unlock_mid11325e_def flash_get_lock_block_mid11325e_def flash_read_status_mid11325e_def
  flash_lock_mid1160c8_def flash_unlock_mid1160c8_def flash_get_lock_block_mid1160c8_def flash_read_status_mid1160c8_def
  flash_lock_mid13325e_def flash_unlock_mid13325e_def flash_get_lock_block_mid13325e_def flash_read_status_mid13325e_def
  flash_lock_mid1360c8_def flash_unlock_mid1360c8_def flash_get_lock_block_mid1360c8_def flash_read_status_mid1360c8_def
  flash_lock_mid14325e_def flash_unlock_mid14325e_def flash_get_lock_block_mid14325e_def flash_read_status_mid14325e_def
  flash_lock_mid1460c8_def flash_unlock_mid1460c8_def flash_get_lock_block_mid1460c8_def flash_read_status_mid1460c8_def
  flash_lock_mid146085_def flash_unlock_mid146085_def flash_get_lock_block_mid146085_def flash_read_status_mid146085_def
  flash_lock_mid1570cd_def flash_unlock_mid1570cd_def flash_get_lock_block_mid1570cd_def flash_read_status_mid1570cd_def

primrec bp_mask :: "flash_model \<Rightarrow> u16" where
  "bp_mask MID1160C8 = 0x1C"
| "bp_mask MID11325E = 0x1C"
| "bp_mask MID1360C8 = 0x1C"
| "bp_mask MID13325E = 0x1C"
| "bp_mask MID146085 = 0x407C"
| "bp_mask MID1460C8 = 0x1C"
| "bp_mask MID14325E = 0x1C"
| "bp_mask MID1570CD = 0x407C"

lemma bit_0xFF: "bit (0xFF :: u16) n \<longleftrightarrow> n < 8"
proof -
  have "(0xFF :: u16) = mask 8"
    by (simp add: mask_eq_exp_minus_1)
  then show ?thesis
    by (simp only: bit_mask_iff) (auto simp: possible_bit_word)
qed

lemma bit_0xFF00: "bit (0xFF00 :: u16) n \<longleftrightarrow> 8 \<le> n \<and> n < 16"
proof -
  have "(0xFF00 :: u16) = push_bit 8 (mask 8)"
    by (simp add: mask_eq_exp_minus_1 push_bit_eq_mult)
  then show ?thesis
    by (simp only: bit_push_bit_iff bit_mask_iff) (auto simp: possible_bit_word)
qed

context nor_flash
begin

lemma rmw8:
  assumes "data AND NOT msk = 0" "ucast msk AND NOT wr = 0" "\<not> wel (chip s)"
  shows "status_rmw8 D data msk s =
         (1, s\<lparr>chip := (chip s)\<lparr>fstat := fstat (chip s) AND NOT (ucast msk) OR ucast data\<rparr>\<rparr>)"
proof -
  let ?new = "fstat (chip s) AND NOT (ucast msk) OR ucast data"
  have dm: "bit msk n" if "bit data n" for n
    using arg_cong [OF assms(1), of "\<lambda>w. bit w n"] that bit_imp_le_length [OF that]
    by (auto simp: bit_simps)
  have mw: "bit wr n" if "bit msk n" for n
    using arg_cong [OF assms(2), of "\<lambda>w. bit w n"] that bit_imp_le_length [OF that]
    by (auto simp: bit_simps)
  have written: "(ucast (data OR (ucast (fstat (chip s)) AND NOT msk)) AND 0xFF OR fstat (chip s) AND 0xFF00) AND wr
                 OR fstat (chip s) AND NOT wr = ?new"
  proof (rule bit_word_eqI)
    fix n
    assume "n < LENGTH(16)"
    then show "bit ((ucast (data OR (ucast (fstat (chip s)) AND NOT msk)) AND 0xFF OR fstat (chip s) AND 0xFF00) AND wr
                 OR fstat (chip s) AND NOT wr) n = bit ?new n"
      using dm [of n] mw [of n] bit_0xFF [of n] bit_0xFF00 [of n]
        bit_imp_le_length [of data n] bit_imp_le_length [of msk n]
      by (auto simp: bit_simps)
  qed
  have kept: "fstat (chip s) = ?new" if "data = ucast (fstat (chip s)) AND msk"
    by (rule bit_word_eqI) (use bit_imp_le_length [of msk] in \<open>auto simp: that bit_simps\<close>)
  have low: "data = ucast ?new AND msk"
    by (rule bit_word_eqI) (use dm in \<open>auto simp: bit_simps\<close>)
  show ?thesis
  proof (cases "data = ucast (fstat (chip s)) AND msk")
    case True
    then show ?thesis
      using assms(1) kept [OF True] low by (simp add: status_rmw8_def read_status)
  next
    case False
    then show ?thesis
      using assms(1,3) written low
      by (simp add: status_rmw8_def read_status write_status8)
  qed
qed

lemma read_status16: "flash_read_status_mid146085 D s = (fstat (chip s), s)"
  by (simp add: flash_read_status_mid146085_def read_status u16_bytes)

lemma rmw16:
  assumes "ucast data AND NOT msk = 0" "ucast msk AND NOT wr = 0" "\<not> wel (chip s)"
  shows "flash_write_status_mid146085 D data msk s =
         (1, s\<lparr>chip := (chip s)\<lparr>fstat := fstat (chip s) AND NOT (ucast msk) OR data\<rparr>\<rparr>)"
proof -
  let ?new = "fstat (chip s) AND NOT (ucast msk) OR data"
  have dm: "bit msk n" if "bit data n" for n
    using arg_cong [OF assms(1), of "\<lambda>w. bit w n"] that bit_imp_le_length [OF that]
    by (auto simp: bit_simps)
  have mw: "bit wr n" if "bit msk n" "n < 16" for n
    using arg_cong [OF assms(2), of "\<lambda>w. bit w n"] that by (auto simp: bit_simps)
  have written: "ucast (ucast data OR (ucast (fstat (chip s)) AND NOT msk)) AND wr OR fstat (chip s) AND NOT wr = ?new"
    by (rule bit_word_eqI) (use dm mw in \<open>auto simp: bit_simps\<close>)
  have kept: "fstat (chip s) = ?new" if "ucast data = ucast (fstat (chip s)) AND msk"
  proof (rule bit_word_eqI)
    fix n
    assume "n < LENGTH(16)"
    then show "bit (fstat (chip s)) n = bit ?new n"
      using arg_cong [OF that, of "\<lambda>w. bit w n"] by (auto simp: bit_simps)
  qed
  have low: "ucast data = ucast ?new AND msk"
    by (rule bit_word_eqI) (use dm in \<open>auto simp: bit_simps\<close>)
  show ?thesis
  proof (cases "ucast data = ucast (fstat (chip s)) AND msk")
    case True
    then show ?thesis
      using assms(1) kept [OF True] low by (simp add: flash_write_status_mid146085_def read_status16)
  next
    case False
    then show ?thesis
      using assms(1,3) written low
      by (simp add: flash_write_status_mid146085_def read_status16 write_status16)
  qed
qed

text \<open>The same for every model of the table: \<open>bp_mask\<close> are its protection bits.\<close>

lemma lock_fp:
  assumes "bp_mask m AND NOT wr = 0" "data AND NOT (ucast (bp_mask m)) = 0" "\<not> wel (chip s)"
  shows "lock_fp m D data s =
         (1, s\<lparr>chip := (chip s)\<lparr>fstat := fstat (chip s) AND NOT (bp_mask m) OR ucast data\<rparr>\<rparr>)"
proof -
  have sub: "bit (bp_mask m) n" if "bit data n" for n
    using arg_cong [OF assms(2), of "\<lambda>w. bit w n"] that bit_imp_le_length [OF that]
    by (auto simp: bit_simps)
  have d8: "ucast (ucast data :: u8) = (ucast data :: u16) \<and> ucast data AND NOT (0x1C :: u8) = 0"
    if m: "bp_mask m = 0x1C"
  proof -
    have e: "(0x1C :: u8) = ucast (bp_mask m)" and e': "bp_mask m = ucast (0x1C :: u8)"
      by (simp_all add: m)
    have n8: "n < 8" if "bit data n" for n
      using sub [OF that] bit_imp_le_length [of "0x1C :: u8" n] unfolding e' bit_unsigned_iff by simp
    show ?thesis
      unfolding e by (intro conjI; rule bit_word_eqI) (use n8 sub in \<open>auto simp: bit_simps\<close>)
  qed
  have d16: "ucast (ucast data :: u16) AND NOT (0x407C :: u32) = 0" if m: "bp_mask m = 0x407C"
  proof -
    have e: "(0x407C :: u32) = ucast (bp_mask m)"
      by (simp add: m)
    show ?thesis
      unfolding e by (rule bit_word_eqI) (use sub in \<open>auto simp: bit_simps\<close>)
  qed
  show ?thesis
    using rmw8 [of "ucast data" "0x1C" s] rmw16 [of "ucast data" "0x407C" s] d8 d16 assms
    by (cases m) (simp_all add: flash_fp_defs flash_mask_defs write_status_mid8 write_status_mid1570cd_eq)
qed

lemma unlock_fp:
  assumes "bp_mask m AND NOT wr = 0" "\<not> wel (chip s)"
  shows "unlock_fp m D s = (1, s\<lparr>chip := (chip s)\<lparr>fstat := fstat (chip s) AND NOT (bp_mask m)\<rparr>\<rparr>)"
  using rmw8 [of 0 "0x1C" s] rmw16 [of 0 "0x407C" s] assms
  by (cases m) (simp_all add: flash_fp_defs flash_mask_defs write_status_mid8 write_status_mid1570cd_eq)

lemma get_lock_fp: "get_lock_fp m D s = (ucast (fstat (chip s) AND bp_mask m), s)"
proof -
  have "(ucast (ucast x AND k) :: u32) = ucast (x AND ucast k)" for x :: u16 and k :: u8
    by (rule bit_word_eqI) (auto simp: bit_simps dest: bit_imp_le_length)
  from this [of _ "0x1C"] show ?thesis
    by (cases m) (simp_all add: flash_fp_defs flash_mask_defs read_status u16_bytes unsigned_and_eq)
qed

end

section \<open>Properties\<close>

lemma field_set:
  fixes st k d :: "'a::len word"
  assumes "d AND NOT k = 0"
  shows "(st AND NOT k OR d) AND k = d" "(st AND NOT k OR d) AND NOT k = st AND NOT k" "st AND NOT k AND k = 0"
proof -
  have sub: "bit k n" if "bit d n" for n
    using arg_cong [OF assms, of "\<lambda>w. bit w n"] that bit_imp_le_length [OF that] by (auto simp: bit_simps)
  show "(st AND NOT k OR d) AND k = d" "(st AND NOT k OR d) AND NOT k = st AND NOT k" "st AND NOT k AND k = 0"
    by (rule bit_word_eqI, use sub in \<open>auto simp: bit_simps\<close>)+
qed

lemma ucast_field:
  fixes data :: u32 and k :: u16
  assumes "data AND NOT (ucast k) = 0"
  shows "(ucast data :: u16) AND NOT k = 0" "ucast (ucast data :: u16) = data"
proof -
  have sub: "bit k n \<and> n < 16" if "bit data n" for n
    using arg_cong [OF assms, of "\<lambda>w. bit w n"] that bit_imp_le_length [OF that] bit_imp_le_length [of k n]
    by (auto simp: bit_simps)
  show "(ucast data :: u16) AND NOT k = 0" "ucast (ucast data :: u16) = data"
    by (rule bit_word_eqI, use sub in \<open>auto simp: bit_simps\<close>)+
qed

text \<open>
  For every flash model of the table, locking a block of its protection bits and unlocking work as a
  read-modify-write of the status register: lock reports success, the block read back is the one
  requested, unlocking reports success and reads back no block, the status bits outside the protection
  mask keep their values and the memory is untouched.
\<close>

theorem flash_lock_unlock:
  assumes "nor_flash D wr prot" "bp_mask m AND NOT wr = 0" "data AND NOT (ucast (bp_mask m)) = 0"
    and "\<not> wel (chip s)"
  shows "let (r1, s1) = lock_fp m D data s; (r2, s2) = unlock_fp m D s1 in
         r1 = 1 \<and> fst (get_lock_fp m D s1) = data
         \<and> fstat (chip s1) AND NOT (bp_mask m) = fstat (chip s) AND NOT (bp_mask m)
         \<and> r2 = 1 \<and> fst (get_lock_fp m D s2) = 0
         \<and> fstat (chip s2) = fstat (chip s) AND NOT (bp_mask m)
         \<and> fmem (chip s2) = fmem (chip s)"
proof -
  note set = field_set [OF ucast_field(1) [OF assms(3)], of "fstat (chip s)"]
  show ?thesis
    using set ucast_field(2) [OF assms(3)]
    by (simp add: nor_flash.lock_fp [OF assms(1-4)] nor_flash.unlock_fp [OF assms(1,2)]
          nor_flash.get_lock_fp [OF assms(1)] assms(4) and.assoc)
qed

theorem flash_lock_unlock_witness:
  "fst (lock_fp MID1460C8 (dev_bus 0x9C prot_1460c8) 0x1C demo_hw) = 1"
  using flash_lock_unlock [OF dev.nor_flash_axioms [of "0x9C" prot_1460c8], of MID1460C8 "0x1C" demo_hw]
  by (simp add: demo_hw_def blank_chip_def case_prod_beta Let_def)

end
