(* ===== verification/Drv_Flash.thy ===== *)
theory Drv_Flash
  imports Flash_Mid
begin

text \<open>
  The flash service of \<^verbatim>\<open>proj/drivers/drv_flash.c\<close> in its 8278 configuration: the model table that selects
  the lock functions, the lock flag, writing with and without a check, and the page-wise functions of
  the file system glue. The ADC reading that \<^verbatim>\<open>drv_get_adc_data\<close> returns is the state component
  \<open>adc_data\<close>. Buffers are byte lists.
\<close>

section \<open>State and table\<close>

record drv_flash_opt_t =
  mid :: u32
  opt_fns :: flash_model
  blockSize :: u32

record drv_flash_state = flash_hw +
  g_flashLocked :: bool
  pFlashOpt :: "drv_flash_opt_t option"
  g_flashOptMid :: u32
  adc_data :: u16

definition c_flashOptList :: "drv_flash_opt_t list" where
  "c_flashOptList =
     [\<lparr>mid = 0x13325e, opt_fns = MID13325E, blockSize = FLASH_LOCK_ALL_MID13325E\<rparr>,
      \<lparr>mid = 0x1360c8, opt_fns = MID1360C8, blockSize = FLASH_LOCK_ALL_MID1360C8\<rparr>,
      \<lparr>mid = 0x14325e, opt_fns = MID14325E, blockSize = FLASH_LOCK_ALL_MID14325E\<rparr>,
      \<lparr>mid = 0x1460c8, opt_fns = MID1460C8, blockSize = FLASH_LOCK_ALL_MID1460C8\<rparr>,
      \<lparr>mid = 0x146085, opt_fns = MID146085, blockSize = FLASH_LOCK_ALL_MID146085\<rparr>,
      \<lparr>mid = 0x1570cd, opt_fns = MID1570CD, blockSize = FLASH_LOCK_LOW_512K_MID1570CD\<rparr>]"

definition BATTERY_SAFETY_THRESHOLD :: u16 where
  "BATTERY_SAFETY_THRESHOLD = 2200"

section \<open>Operations\<close>

text \<open>The first entry of the table with the identifier; without one the pointer keeps its value.\<close>

fun load_opt_loop :: "drv_flash_opt_t list \<Rightarrow> 'a drv_flash_state_scheme \<Rightarrow> 'a drv_flash_state_scheme" where
  "load_opt_loop [] s = s"
| "load_opt_loop (e # es) s =
     (if g_flashOptMid s = mid e
      then s\<lparr>pFlashOpt := Some \<lparr>mid = g_flashOptMid s, opt_fns = opt_fns e, blockSize = blockSize e\<rparr>\<rparr>
      else load_opt_loop es s)"

definition flash_loadOpt :: "flash_bus \<Rightarrow> 'a drv_flash_state_scheme \<Rightarrow> 'a drv_flash_state_scheme" where
  "flash_loadOpt D s =
     (let (m, s1) = flash_read_mid D s in load_opt_loop c_flashOptList (s1\<lparr>g_flashOptMid := m\<rparr>))"

definition flash_lock :: "flash_bus \<Rightarrow> 'a drv_flash_state_scheme \<Rightarrow> 'a drv_flash_state_scheme" where
  "flash_lock D s =
     (case pFlashOpt s of
        None \<Rightarrow> s
      | Some p \<Rightarrow>
          if g_flashLocked s then s
          else let (r, s1) = lock_fp (opt_fns p) D (blockSize p) s
               in if r = 1 then s1\<lparr>g_flashLocked := True\<rparr> else s1)"

definition flash_unlock :: "flash_bus \<Rightarrow> 'a drv_flash_state_scheme \<Rightarrow> 'a drv_flash_state_scheme" where
  "flash_unlock D s =
     (case pFlashOpt s of
        None \<Rightarrow> s
      | Some p \<Rightarrow>
          if \<not> g_flashLocked s then s
          else let (r, s1) = unlock_fp (opt_fns p) D s
               in if r = 1 then s1\<lparr>g_flashLocked := False\<rparr> else s1)"

definition flash_write :: "flash_bus \<Rightarrow> addr \<Rightarrow> u8 list \<Rightarrow> 'a drv_flash_state_scheme \<Rightarrow> 'a drv_flash_state_scheme" where
  "flash_write D a buf s =
     (if adc_data s < BATTERY_SAFETY_THRESHOLD then s else flash_write_page D a buf s)"

definition flash_read ::
  "flash_bus \<Rightarrow> addr \<Rightarrow> nat \<Rightarrow> 'a drv_flash_state_scheme \<Rightarrow> u8 list \<times> 'a drv_flash_state_scheme" where
  "flash_read D a n s = flash_read_page D a n s"

definition flash_erase :: "flash_bus \<Rightarrow> addr \<Rightarrow> 'a drv_flash_state_scheme \<Rightarrow> 'a drv_flash_state_scheme" where
  "flash_erase D a s = (if adc_data s < BATTERY_SAFETY_THRESHOLD then s else flash_erase_sector D a s)"

text \<open>
  The check reads back in pieces of 48 bytes. The length is converted to a signed integer, so from
  \<open>2 ^ 31\<close> on the loop does not run.
\<close>

fun write_check_loop ::
  "flash_bus \<Rightarrow> addr \<Rightarrow> u8 list \<Rightarrow> 'a drv_flash_state_scheme \<Rightarrow> bool \<times> 'a drv_flash_state_scheme" where
  "write_check_loop D a pSrc s =
     (if pSrc = [] then (True, s)
      else
        let wLen = (if length pSrc > 48 then 48 else length pSrc);
            (pTemp, s1) = flash_read D a wLen s
        in if pTemp \<noteq> take wLen pSrc then (False, s1)
           else write_check_loop D (a + of_nat wLen) (drop wLen pSrc) s1)"

declare write_check_loop.simps [simp del]

definition flash_writeWithCheck ::
  "flash_bus \<Rightarrow> addr \<Rightarrow> u8 list \<Rightarrow> 'a drv_flash_state_scheme \<Rightarrow> bool \<times> 'a drv_flash_state_scheme" where
  "flash_writeWithCheck D a buf s =
     (if adc_data s < BATTERY_SAFETY_THRESHOLD then (False, s)
      else let s1 = flash_write_page D a buf s in
           if length buf < 2 ^ 31 then write_check_loop D a buf s1 else (True, s1))"

text \<open>
  The do-while of \<^verbatim>\<open>cfs_flash_op\<close>, with the room \<open>Suc k\<close> left in the page: when writing it consumes \<open>buf\<close>,
  when reading it appends to \<open>out\<close>; \<open>remain\<close> bytes are left.
\<close>

fun cfs_loop ::
  "flash_bus \<Rightarrow> u8 \<Rightarrow> nat \<Rightarrow> addr \<Rightarrow> nat \<Rightarrow> u8 list \<Rightarrow> u8 list \<Rightarrow> 'a drv_flash_state_scheme
   \<Rightarrow> u8 list \<times> 'a drv_flash_state_scheme" where
  "cfs_loop D opmode k a remain buf out s =
     (let writeLen = (if remain \<le> Suc k then remain else Suc k);
          remain' = (if remain \<le> Suc k then 0 else remain - Suc k);
          (out', s1) =
            (if opmode \<noteq> 0 then (out, flash_write_page D a (take writeLen buf) s)
             else let (d, s') = flash_read_page D a writeLen s in (out @ d, s'))
      in if remain' = 0 then (out', s1)
         else cfs_loop D opmode 255 (a + of_nat writeLen) remain' (drop writeLen buf) out' s1)"

declare cfs_loop.simps [simp del]

definition cfs_flash_op ::
  "flash_bus \<Rightarrow> u8 \<Rightarrow> addr \<Rightarrow> nat \<Rightarrow> u8 list \<Rightarrow> 'a drv_flash_state_scheme \<Rightarrow> u8 list \<times> 'a drv_flash_state_scheme" where
  "cfs_flash_op D opmode a len buf s =
     (let re = unat (a mod 256); pageReLen = (if re \<noteq> 0 then 256 - re else 256)
      in cfs_loop D opmode (pageReLen - 1) a len buf [] s)"

definition cfs_flash_write :: "flash_bus \<Rightarrow> addr \<Rightarrow> u8 list \<Rightarrow> 'a drv_flash_state_scheme \<Rightarrow> 'a drv_flash_state_scheme" where
  "cfs_flash_write D a buf s = snd (cfs_flash_op D 1 a (length buf) buf s)"

definition cfs_flash_read ::
  "flash_bus \<Rightarrow> addr \<Rightarrow> nat \<Rightarrow> 'a drv_flash_state_scheme \<Rightarrow> u8 list \<times> 'a drv_flash_state_scheme" where
  "cfs_flash_read D a len s = cfs_flash_op D 0 a len [] s"

section \<open>The service on a NOR device\<close>

definition opt_ok :: "u16 \<Rightarrow> drv_flash_opt_t \<Rightarrow> bool" where
  "opt_ok w p \<longleftrightarrow> bp_mask (opt_fns p) AND NOT w = 0 \<and> blockSize p AND NOT (ucast (bp_mask (opt_fns p))) = 0"

text \<open>Every entry of the table asks for a block inside the protection bits of its model.\<close>

lemma c_flashOptList_blocks:
  "p \<in> set c_flashOptList \<Longrightarrow> blockSize p AND NOT (ucast (bp_mask (opt_fns p))) = 0"
  by (auto simp: c_flashOptList_def FLASH_LOCK_ALL_MID13325E_def FLASH_LOCK_ALL_MID1360C8_def
      FLASH_LOCK_ALL_MID14325E_def FLASH_LOCK_ALL_MID1460C8_def FLASH_LOCK_ALL_MID146085_def
      FLASH_LOCK_LOW_512K_MID1570CD_def)

lemma fbytes_split:
  "fbytes m a (i + j) = fbytes m a i @ fbytes m (a + of_nat i) j"
  by (rule nth_equalityI) (auto simp: nth_append algebra_simps)

lemma fbytes_prefix:
  assumes "n \<le> length xs"
  shows "fbytes m a (length xs) = xs \<longleftrightarrow>
         fbytes m a n = take n xs \<and> fbytes m (a + of_nat n) (length xs - n) = drop n xs"
proof -
  have "fbytes m a (length xs) = fbytes m a n @ fbytes m (a + of_nat n) (length xs - n)"
    using fbytes_split [of m a n "length xs - n"] assms by simp
  then show ?thesis
    using assms append_take_drop_id [of n xs]
    by (metis append_eq_append_conv length_fbytes length_take min.absorb2)
qed

context nor_flash
begin

lemma drv_read:
  "unat a + n \<le> 2 ^ 24 \<Longrightarrow> flash_read D a n s = (fbytes (fmem (chip s)) a n, s)"
  by (simp add: flash_read_def read_page)

lemma drv_write:
  assumes "unat a + length buf \<le> 2 ^ 24" "buf \<noteq> []" "\<not> adc_data s < BATTERY_SAFETY_THRESHOLD" "\<not> wel (chip s)"
    and "\<And>i. i < length buf \<Longrightarrow> prot (fstat (chip s)) (a + of_nat i) = p"
  shows "flash_write D a buf s =
         s\<lparr>chip := (chip s)\<lparr>fmem := (if p then fmem (chip s) else and_bytes (fmem (chip s)) a buf)\<rparr>\<rparr>"
  using write_page [OF assms(1,2,5)] assms(3,4) by (simp add: flash_write_def)

lemma drv_erase:
  assumes "unat a < 2 ^ 24" "\<not> adc_data s < BATTERY_SAFETY_THRESHOLD" "\<not> wel (chip s)"
  shows "flash_erase D a s =
         s\<lparr>chip := (chip s)\<lparr>fmem := (if prot (fstat (chip s)) a then fmem (chip s)
                                    else erased (fmem (chip s)) a)\<rparr>\<rparr>"
  using assms by (simp add: flash_erase_def erase_sector)

lemma check_loop:
  "unat a + length buf \<le> 2 ^ 24 \<Longrightarrow>
   write_check_loop D a buf s = (fbytes (fmem (chip s)) a (length buf) = buf, s)"
proof (induction "length buf" arbitrary: a buf rule: less_induct)
  case less
  let ?w = "if length buf > 48 then 48 else length buf"
  show ?case
  proof (cases "buf = []")
    case True
    then show ?thesis
      by (simp add: write_check_loop.simps fbytes_def)
  next
    case False
    have w: "?w \<le> length buf" "0 < ?w" "?w \<le> 48"
      using False by auto
    have rd: "flash_read D a ?w s = (fbytes (fmem (chip s)) a ?w, s)"
      by (rule drv_read) (use less.prems w in auto)
    have "unat (of_nat ?w :: addr) = ?w"
      using w(3) by (simp add: unat_of_nat)
    moreover have "unat a + ?w < 2 ^ 32"
      using less.prems by auto
    ultimately have ua: "unat (a + of_nat ?w) = unat a + ?w"
      using unat_add_no_wrap [of a "of_nat ?w"] by simp
    have rec: "write_check_loop D (a + of_nat ?w) (drop ?w buf) s =
          (fbytes (fmem (chip s)) (a + of_nat ?w) (length (drop ?w buf)) = drop ?w buf, s)"
      by (rule less.hyps) (use False w ua less.prems in auto)
    have "write_check_loop D a buf s =
          (if fbytes (fmem (chip s)) a ?w \<noteq> take ?w buf then (False, s)
           else write_check_loop D (a + of_nat ?w) (drop ?w buf) s)"
      by (subst write_check_loop.simps) (unfold Let_def rd, simp only: False if_False prod.case)
    then show ?thesis
      unfolding rec using fbytes_prefix [OF w(1), of "fmem (chip s)" a] by auto
  qed
qed

lemma write_check_eq:
  assumes "buf \<noteq> []" "unat a + length buf \<le> 2 ^ 24" "\<not> wel (chip s)" "\<not> adc_data s < BATTERY_SAFETY_THRESHOLD"
    and "\<And>i. i < length buf \<Longrightarrow> prot (fstat (chip s)) (a + of_nat i) = p"
  defines "m \<equiv> if p then fmem (chip s) else and_bytes (fmem (chip s)) a buf"
  shows "flash_writeWithCheck D a buf s = (fbytes m a (length buf) = buf, s\<lparr>chip := (chip s)\<lparr>fmem := m\<rparr>\<rparr>)"
proof -
  have w: "flash_write_page D a buf s = s\<lparr>chip := (chip s)\<lparr>fmem := m\<rparr>\<rparr>"
    using write_page [OF assms(2,1), of s p] assms(3,5) by (simp add: m_def)
  have "length buf < 2 ^ 31"
    using assms(2) by simp
  then show ?thesis
    using assms(4) check_loop [OF assms(2), of "s\<lparr>chip := (chip s)\<lparr>fmem := m\<rparr>\<rparr>"]
    by (simp add: flash_writeWithCheck_def w)
qed

lemma lock_known:
  assumes "pFlashOpt s = Some p" "opt_ok wr p" "\<not> g_flashLocked s" "\<not> wel (chip s)"
  shows "flash_lock D s =
         s\<lparr>chip := (chip s)\<lparr>fstat := fstat (chip s) AND NOT (bp_mask (opt_fns p)) OR ucast (blockSize p)\<rparr>,
           g_flashLocked := True\<rparr>"
  using assms lock_fp [of "opt_fns p" "blockSize p" s] by (simp add: flash_lock_def opt_ok_def)

lemma unlock_known:
  assumes "pFlashOpt s = Some p" "opt_ok wr p" "g_flashLocked s" "\<not> wel (chip s)"
  shows "flash_unlock D s =
         s\<lparr>chip := (chip s)\<lparr>fstat := fstat (chip s) AND NOT (bp_mask (opt_fns p))\<rparr>, g_flashLocked := False\<rparr>"
  using assms unlock_fp [of "opt_fns p" s] by (simp add: flash_unlock_def opt_ok_def)

lemma cfs_read_loop:
  "unat a + n \<le> 2 ^ 24 \<Longrightarrow> cfs_loop D 0 k a n buf out s = (out @ fbytes (fmem (chip s)) a n, s)"
proof (induction n arbitrary: k a buf out rule: less_induct)
  case (less n)
  show ?case
  proof (cases "n \<le> Suc k")
    case True
    then show ?thesis
      using read_page [of a n s] less.prems by (subst cfs_loop.simps) (simp add: Let_def)
  next
    case False
    have rd: "flash_read_page D a (Suc k) s = (fbytes (fmem (chip s)) a (Suc k), s)"
      by (rule read_page) (use less.prems False in simp)
    have ua: "unat (a + of_nat (Suc k)) = unat a + Suc k"
      using unat_add_no_wrap [of a "of_nat (Suc k)"] less.prems False
      by (simp add: unat_of_nat del: of_nat_Suc)
    have "cfs_loop D 0 255 (a + of_nat (Suc k)) (n - Suc k) (drop (Suc k) buf)
            (out @ fbytes (fmem (chip s)) a (Suc k)) s =
          ((out @ fbytes (fmem (chip s)) a (Suc k)) @ fbytes (fmem (chip s)) (a + of_nat (Suc k)) (n - Suc k), s)"
      by (rule less.IH) (use False less.prems ua in simp_all)
    then show ?thesis
      using False rd fbytes_split [of "fmem (chip s)" a "Suc k" "n - Suc k"]
      by (subst cfs_loop.simps) (simp add: Let_def del: of_nat_Suc)
  qed
qed

lemma cfs_write_loop:
  assumes "unat a + length buf \<le> 2 ^ 24" "buf \<noteq> []" "\<not> wel (chip s)"
    and "\<And>i. i < length buf \<Longrightarrow> prot (fstat (chip s)) (a + of_nat i) = p"
  shows "cfs_loop D 1 k a (length buf) buf out s =
         (out, s\<lparr>chip := (chip s)\<lparr>fmem := (if p then fmem (chip s) else and_bytes (fmem (chip s)) a buf)\<rparr>\<rparr>)"
  using assms
proof (induction "length buf" arbitrary: k a buf s rule: less_induct)
  case less
  let ?m = "fmem (chip s)"
  show ?case
  proof (cases "length buf \<le> Suc k")
    case True
    then show ?thesis
      using write_page [OF less.prems(1,2,4)] less.prems(3)
      by (subst cfs_loop.simps) (simp add: Let_def)
  next
    case False
    let ?b = "take (Suc k) buf"
    have w: "flash_write_page D a ?b s = s\<lparr>chip := (chip s)\<lparr>fmem := (if p then ?m else and_bytes ?m a ?b)\<rparr>\<rparr>"
      using write_page [of a ?b s p] less.prems False by simp
    have ua: "unat (a + of_nat (Suc k)) = unat a + Suc k"
      using unat_add_no_wrap [of a "of_nat (Suc k)"] less.prems(1) False
      by (simp add: unat_of_nat del: of_nat_Suc)
    let ?s = "s\<lparr>chip := (chip s)\<lparr>fmem := (if p then ?m else and_bytes ?m a ?b)\<rparr>\<rparr>"
    have "cfs_loop D 1 255 (a + of_nat (Suc k)) (length (drop (Suc k) buf)) (drop (Suc k) buf) out ?s =
          (out, ?s\<lparr>chip := (chip ?s)\<lparr>fmem := (if p then fmem (chip ?s)
               else and_bytes (fmem (chip ?s)) (a + of_nat (Suc k)) (drop (Suc k) buf))\<rparr>\<rparr>)"
    proof (rule less.hyps)
      fix i
      assume "i < length (drop (Suc k) buf)"
      then show "prot (fstat (chip ?s)) (a + of_nat (Suc k) + of_nat i) = p"
        using less.prems(4) [of "Suc k + i"] by (simp add: algebra_simps)
    qed (use False ua less.prems in auto)
    then show ?thesis
      using False w and_bytes_take_drop [of buf "Suc k" ?m a] less.prems(1)
      by (subst cfs_loop.simps) (cases p; simp add: Let_def del: of_nat_Suc)
  qed
qed

end

section \<open>Erased ranges\<close>

lemma sector_of:
  fixes x a :: addr
  shows "x AND NOT 0xFFF = a AND NOT 0xFFF \<longleftrightarrow> unat x div 4096 = unat a div 4096"
proof -
  have f: "(0xFFF :: addr) = mask 12"
    by (simp add: mask_eq_exp_minus_1)
  have "x AND NOT 0xFFF = a AND NOT 0xFFF \<longleftrightarrow> drop_bit 12 x = drop_bit 12 a"
  proof
    assume e: "x AND NOT 0xFFF = a AND NOT 0xFFF"
    show "drop_bit 12 x = drop_bit 12 a"
    proof (rule bit_word_eqI)
      fix n
      assume "n < LENGTH(32)"
      then show "bit (drop_bit 12 x) n = bit (drop_bit 12 a) n"
        using arg_cong [OF e [unfolded f], of "\<lambda>w. bit w (12 + n)"]
        by (auto simp: bit_simps dest: bit_imp_le_length)
    qed
  next
    assume e: "drop_bit 12 x = drop_bit 12 a"
    show "x AND NOT 0xFFF = a AND NOT 0xFFF"
      unfolding f
    proof (rule bit_word_eqI)
      fix n
      assume "n < LENGTH(32)"
      then show "bit (x AND NOT (mask 12)) n = bit (a AND NOT (mask 12)) n"
        using arg_cong [OF e, of "\<lambda>w. bit w (n - 12)"] by (auto simp: bit_simps)
    qed
  qed
  also have "\<dots> \<longleftrightarrow> unat x div 4096 = unat a div 4096"
    by (simp add: word_unat_eq_iff unsigned_drop_bit_eq drop_bit_eq_div unat_div)
  finally show ?thesis .
qed

definition wiped :: "(addr \<Rightarrow> u8) \<Rightarrow> nat \<Rightarrow> nat \<Rightarrow> addr \<Rightarrow> u8" where
  "wiped m lo hi = (\<lambda>x. if lo \<le> unat x \<and> unat x < hi then 0xFF else m x)"

lemma erased_wiped:
  assumes "unat a = 4096 * q"
  shows "erased m a = wiped m (4096 * q) (4096 * (q + 1))"
proof
  fix x :: addr
  have "unat x div 4096 = q \<longleftrightarrow> 4096 * q \<le> unat x \<and> unat x < 4096 * (q + 1)"
    using div_nat_eqI [of q 4096 "unat x"] div_mult_mod_eq [of "unat x" 4096] mod_less_divisor [of 4096 "unat x"]
    by (auto simp: algebra_simps)
  then show "erased m a x = wiped m (4096 * q) (4096 * (q + 1)) x"
    unfolding erased_def wiped_def sector_of using assms by simp
qed

lemma wiped_wiped: "lo \<le> b \<Longrightarrow> b \<le> hi \<Longrightarrow> wiped (wiped m lo b) b hi = wiped m lo hi"
  by (auto simp: wiped_def fun_eq_iff)

section \<open>Properties\<close>

text \<open>
  C28. \<^verbatim>\<open>flash_writeWithCheck\<close> answers exactly: on a NOR device with enough voltage its result is TRUE if and
  only if the range holds the buffer afterwards, which on an unprotected range is the case if and only
  if every byte could be reached by clearing bits, and on a protected range if it already held the
  buffer; below the safety voltage it returns FALSE and changes nothing.
\<close>

theorem flash_writeWithCheck_exact:
  assumes "nor_flash D wr prot" "buf \<noteq> []" "unat a + length buf \<le> 2 ^ 24" "\<not> wel (chip s)"
    and "\<forall>i < length buf. prot (fstat (chip s)) (a + of_nat i) = p"
  shows "let (r, s') = flash_writeWithCheck D a buf s in
         if adc_data s < BATTERY_SAFETY_THRESHOLD then \<not> r \<and> s' = s
         else (r \<longleftrightarrow> fbytes (fmem (chip s')) a (length buf) = buf)
              \<and> (r \<longleftrightarrow> (\<forall>i < length buf. (if p then fmem (chip s) (a + of_nat i)
                                       else fmem (chip s) (a + of_nat i) AND buf ! i) = buf ! i))"
proof (cases "adc_data s < BATTERY_SAFETY_THRESHOLD")
  case True
  then show ?thesis
    by (simp add: flash_writeWithCheck_def)
next
  case False
  let ?m = "if p then fmem (chip s) else and_bytes (fmem (chip s)) a buf"
  have w: "flash_writeWithCheck D a buf s = (fbytes ?m a (length buf) = buf, s\<lparr>chip := (chip s)\<lparr>fmem := ?m\<rparr>\<rparr>)"
    using nor_flash.write_check_eq [OF assms(1-4) False, of p] assms(5) by simp
  have "unat (of_nat i :: addr) = i" if "i < length buf" for i
    using that assms(3) by (simp add: unat_of_nat)
  then have "fbytes ?m a (length buf) = buf \<longleftrightarrow>
        (\<forall>i < length buf. (if p then fmem (chip s) (a + of_nat i)
                           else fmem (chip s) (a + of_nat i) AND buf ! i) = buf ! i)"
    by (auto simp: list_eq_iff_nth_eq and_bytes_def)
  then show ?thesis
    using False by (simp add: w)
qed

definition demo_flash_state :: drv_flash_state where
  "demo_flash_state =
     flash_hw.extend demo_hw \<lparr>g_flashLocked = False, pFlashOpt = None, g_flashOptMid = 0, adc_data = 3000\<rparr>"

theorem flash_writeWithCheck_exact_witness:
  "fst (flash_writeWithCheck (dev_bus 0x9C prot_1460c8) 0xFE [1, 2, 3, 4] demo_flash_state)"
  using flash_writeWithCheck_exact [OF dev.nor_flash_axioms [of "0x9C" prot_1460c8],
      of "[1, 2, 3, 4]" "0xFE" demo_flash_state False]
  by (auto simp: demo_flash_state_def demo_hw_def flash_hw.defs blank_chip_def prot_1460c8_def
      BATTERY_SAFETY_THRESHOLD_def case_prod_beta and_u8_ff)

text \<open>
  The page-wise functions of the file system glue are the plain ones: reading any range returns its
  bytes, and writing an unprotected range programs the buffer as one, whatever the page offset.
\<close>

theorem cfs_flash_equiv:
  assumes "nor_flash D wr prot" "buf \<noteq> []" "unat a + length buf \<le> 2 ^ 24" "\<not> wel (chip s)"
    and "\<forall>i < length buf. \<not> prot (fstat (chip s)) (a + of_nat i)"
    and "\<not> adc_data s < BATTERY_SAFETY_THRESHOLD"
  shows "cfs_flash_read D a (length buf) s = flash_read D a (length buf) s
         \<and> cfs_flash_write D a buf s = flash_write D a buf s
         \<and> fmem (chip (cfs_flash_write D a buf s)) = and_bytes (fmem (chip s)) a buf"
proof -
  note loops = nor_flash.cfs_read_loop [OF assms(1,3), of _ _ _ s] nor_flash.cfs_write_loop [OF assms(1,3,2,4), of False]
  have "flash_write D a buf s = s\<lparr>chip := (chip s)\<lparr>fmem := and_bytes (fmem (chip s)) a buf\<rparr>\<rparr>"
    using nor_flash.drv_write [OF assms(1,3,2,6,4), of False] assms(5) by simp
  then show ?thesis
    using loops assms(5) nor_flash.drv_read [OF assms(1,3), of s]
    by (simp add: cfs_flash_read_def cfs_flash_write_def cfs_flash_op_def Let_def)
qed

theorem cfs_flash_equiv_witness:
  "cfs_flash_read (dev_bus 0x9C prot_1460c8) 0xFE (length [1, 2, 3, 4]) demo_flash_state =
   flash_read (dev_bus 0x9C prot_1460c8) 0xFE (length [1, 2, 3, 4 :: u8]) demo_flash_state"
  using cfs_flash_equiv [OF dev.nor_flash_axioms [of "0x9C" prot_1460c8],
      of "[1, 2, 3, 4]" "0xFE" demo_flash_state]
  by (simp add: demo_flash_state_def demo_hw_def flash_hw.defs blank_chip_def prot_1460c8_def
      BATTERY_SAFETY_THRESHOLD_def)

text \<open>
  C29. Locking protects: with a known flash model, after \<^verbatim>\<open>flash_lock\<close> the flag is set, locking again changes
  nothing, and a write to a range that the model's block covers leaves the whole state as it was;
  \<^verbatim>\<open>flash_unlock\<close> clears the flag and exactly the protection bits of the status register.
\<close>

theorem flash_lock_protects:
  assumes "nor_flash D wr prot" "pFlashOpt s = Some p" "opt_ok wr p" "\<not> g_flashLocked s" "\<not> wel (chip s)"
    and "buf \<noteq> []" "unat a + length buf \<le> 2 ^ 24"
    and "\<forall>i < length buf. prot (fstat (chip s) AND NOT (bp_mask (opt_fns p)) OR ucast (blockSize p)) (a + of_nat i)"
  shows "let s1 = flash_lock D s; s2 = flash_unlock D s1 in
         g_flashLocked s1 \<and> flash_lock D s1 = s1 \<and> flash_write D a buf s1 = s1
         \<and> \<not> g_flashLocked s2 \<and> fstat (chip s2) = fstat (chip s) AND NOT (bp_mask (opt_fns p))
         \<and> fmem (chip s2) = fmem (chip s)"
proof -
  let ?st = "fstat (chip s) AND NOT (bp_mask (opt_fns p)) OR ucast (blockSize p)"
  let ?s1 = "s\<lparr>chip := (chip s)\<lparr>fstat := ?st\<rparr>, g_flashLocked := True\<rparr>"
  have l: "flash_lock D s = ?s1"
    by (rule nor_flash.lock_known [OF assms(1-5)])
  have "flash_lock D ?s1 = ?s1"
    using assms(2) by (simp add: flash_lock_def)
  moreover have "flash_write D a buf ?s1 = ?s1"
    using nor_flash.drv_write [OF assms(1,7,6), of ?s1 True] assms(5,8)
    by (cases "adc_data s < BATTERY_SAFETY_THRESHOLD") (simp_all add: flash_write_def)
  moreover have "flash_unlock D ?s1 = ?s1\<lparr>chip := (chip ?s1)\<lparr>fstat := ?st AND NOT (bp_mask (opt_fns p))\<rparr>,
                                          g_flashLocked := False\<rparr>"
    using nor_flash.unlock_known [OF assms(1) _ assms(3), of ?s1] assms(2,5) by simp
  moreover have "?st AND NOT (bp_mask (opt_fns p)) = fstat (chip s) AND NOT (bp_mask (opt_fns p))"
    using field_set(2) [OF ucast_field(1), of "blockSize p" "bp_mask (opt_fns p)"] assms(3)
    by (simp add: opt_ok_def)
  ultimately show ?thesis
    unfolding l by simp
qed

definition opt_1460c8 :: drv_flash_opt_t where
  "opt_1460c8 = \<lparr>mid = 0x1460c8, opt_fns = MID1460C8, blockSize = FLASH_LOCK_ALL_MID1460C8\<rparr>"

theorem flash_lock_protects_witness:
  "g_flashLocked (flash_lock (dev_bus 0x9C prot_1460c8) (demo_flash_state\<lparr>pFlashOpt := Some opt_1460c8\<rparr>))"
  using flash_lock_protects [OF dev.nor_flash_axioms [of "0x9C" prot_1460c8],
      of "demo_flash_state\<lparr>pFlashOpt := Some opt_1460c8\<rparr>" opt_1460c8 "[1]" 0]
  by (simp add: demo_flash_state_def demo_hw_def flash_hw.defs blank_chip_def prot_1460c8_def opt_1460c8_def
      opt_ok_def FLASH_LOCK_ALL_MID1460C8_def Let_def)

text \<open>
  \<^verbatim>\<open>flash_loadOpt\<close> selects the table entry of the identifier that the device reports, least significant
  byte first, and leaves the option pointer alone for an unknown device, so that locking is then off.
\<close>

theorem flash_loadOpt_selects:
  assumes "nor_flash D wr prot" "jedec (chip s) = [b0, b1, b2]"
    and "m = ucast b0 OR push_bit 8 (ucast b1) OR push_bit 16 (ucast b2)"
  shows "(\<forall>e \<in> set c_flashOptList. mid e = m \<longrightarrow> pFlashOpt (flash_loadOpt D s) = Some e)
         \<and> (m \<notin> mid ` set c_flashOptList \<longrightarrow> pFlashOpt (flash_loadOpt D s) = pFlashOpt s)
         \<and> chip (flash_loadOpt D s) = chip s"
proof -
  have r: "flash_read_mid D s = (m, s)"
    using nor_flash.jedec_id [OF assms(1), of "chip s"] assms(2,3)
    by (simp add: flash_read_mid_def flash_mspi_read_ram_eq)
  show ?thesis
    by (auto simp: flash_loadOpt_def r c_flashOptList_def)
qed

theorem flash_loadOpt_selects_witness:
  "pFlashOpt (flash_loadOpt (dev_bus 0x9C prot_1460c8) demo_flash_state) = Some opt_1460c8"
proof -
  have "opt_1460c8 \<in> set c_flashOptList"
    by (simp add: c_flashOptList_def opt_1460c8_def)
  moreover have "mid opt_1460c8 = ucast (0xC8 :: u8) OR push_bit 8 (ucast (0x60 :: u8)) OR push_bit 16 (ucast (0x14 :: u8))"
    by (simp add: opt_1460c8_def push_bit_eq_mult)
  ultimately show ?thesis
    using flash_loadOpt_selects [OF dev.nor_flash_axioms [of "0x9C" prot_1460c8],
        of demo_flash_state "0xC8" "0x60" "0x14"]
    by (simp add: demo_flash_state_def demo_hw_def flash_hw.defs blank_chip_def)
qed

end
