(* ===== verification/Drv_Nv.thy ===== *)
theory Drv_Nv
  imports Drv_Flash
begin

text \<open>
  The non-volatile storage of \<^verbatim>\<open>proj/drivers/drv_nv.c\<close>, for a 1 MB flash without boot loader. A module has
  two sectors; a sector starts with a header of 4 bytes, an index of 8-byte entries follows, and behind
  the index the items are appended, each with an 8-byte header. The packed structures are records with
  their byte images. Output parameters are results; \<open>None\<close> means that the caller's variable keeps its
  value.
\<close>

section \<open>Layout (drv\_nv.h)\<close>

datatype nv_sts_t =
  NV_SUCC | NV_INVALID_MODULS | NV_INVALID_ID | NV_ITEM_NOT_FOUND | NV_NOT_ENOUGH_SAPCE
| NV_ITEM_LEN_NOT_MATCH | NV_CHECK_SUM_ERROR | NV_ENABLE_PROTECT_ERROR | NV_NO_MEDIA

record nv_sect_info_t =
  usedFlag :: u16
  idName :: u8
  opSect :: u8

record nv_info_idx_t =
  offset :: u32
  size :: u16
  itemId :: u8
  usedState :: u8

record itemHdr_t =
  hdr_checkSum :: u32
  hdr_size :: u16
  hdr_itemId :: u8
  hdr_used :: u8

definition NV_BASE_ADDRESS :: u32 where "NV_BASE_ADDRESS = 0x80000"
definition CFG_FACTORY_RST_CNT :: u32 where "CFG_FACTORY_RST_CNT = 0xFC000"
definition FLASH_PAGE_SIZE :: u32 where "FLASH_PAGE_SIZE = 256"
definition FLASH_SECTOR_SIZE :: u32 where "FLASH_SECTOR_SIZE = 4096"
definition NV_SECTOR_VALID :: u16 where "NV_SECTOR_VALID = 0x5A5A"
definition NV_SECTOR_INVALID :: u16 where "NV_SECTOR_INVALID = 0x5050"
definition ITEM_FIELD_VALID :: u8 where "ITEM_FIELD_VALID = 0x5A"
definition ITEM_FIELD_INVALID :: u8 where "ITEM_FIELD_INVALID = 0x50"
definition ITEM_FIELD_OPERATION :: u8 where "ITEM_FIELD_OPERATION = 0xFA"
definition ITEM_FIELD_IDLE :: u8 where "ITEM_FIELD_IDLE = 0xFF"
definition NV_MODULE_NWK_FRAME_COUNT :: u32 where "NV_MODULE_NWK_FRAME_COUNT = 1"
definition NV_MODULE_USER_INFO1 :: u32 where "NV_MODULE_USER_INFO1 = 2"
definition NV_MAX_MODULS :: nat where "NV_MAX_MODULS = 4"
definition MODULE_SECTOR_NUM :: nat where "MODULE_SECTOR_NUM = 2"

definition MODULES_START_ADDR :: "u32 \<Rightarrow> u32" where
  "MODULES_START_ADDR i = NV_BASE_ADDRESS + FLASH_SECTOR_SIZE * (2 * i)"

definition NV_SECTOR_SIZE :: "u32 \<Rightarrow> u32" where
  "NV_SECTOR_SIZE i = (if i = NV_MODULE_USER_INFO1 then 4 * FLASH_SECTOR_SIZE else FLASH_SECTOR_SIZE)"

definition MODULE_INFO_SIZE :: "u32 \<Rightarrow> u32" where
  "MODULE_INFO_SIZE i = (if i = NV_MODULE_USER_INFO1 then 4 * FLASH_PAGE_SIZE else 2 * FLASH_PAGE_SIZE)"

definition MODULE_SECT_START :: "u32 \<Rightarrow> u8 \<Rightarrow> u32" where
  "MODULE_SECT_START i sect = MODULES_START_ADDR i + ucast sect * NV_SECTOR_SIZE i"

definition MODULE_SECT_END :: "u32 \<Rightarrow> u8 \<Rightarrow> u32" where
  "MODULE_SECT_END i sect = MODULES_START_ADDR i + (ucast sect + 1) * NV_SECTOR_SIZE i"

definition MODULE_IDX_START :: "u32 \<Rightarrow> u8 \<Rightarrow> u32" where
  "MODULE_IDX_START i sect = MODULE_SECT_START i sect + 4"

definition MODULE_IDX_NUM :: "u32 \<Rightarrow> u32" where
  "MODULE_IDX_NUM i = (MODULE_INFO_SIZE i - 4) div 8"

definition MODULE_CONTEXT_START :: "u32 \<Rightarrow> u8 \<Rightarrow> u32" where
  "MODULE_CONTEXT_START i sect = MODULE_SECT_START i sect + MODULE_INFO_SIZE i"

definition ITEM_TOTAL_LEN :: "u16 \<Rightarrow> u32" where
  "ITEM_TOTAL_LEN len = ucast len + 8"

definition FRAMECOUNT_PAYLOAD_START :: "u8 \<Rightarrow> u32" where
  "FRAMECOUNT_PAYLOAD_START sect = (MODULE_SECT_START NV_MODULE_NWK_FRAME_COUNT sect + 4 + 3) AND NOT 3"

definition FRAMECOUNT_NUM_PER_SECT :: u16 where
  "FRAMECOUNT_NUM_PER_SECT = ucast (((FLASH_SECTOR_SIZE - 4) AND NOT 3) div 4)"

text \<open>Byte images of the packed structures, little endian.\<close>

definition le16 :: "u16 \<Rightarrow> u8 list" where
  "le16 w = [ucast w, ucast (drop_bit 8 w)]"

definition le32 :: "u32 \<Rightarrow> u8 list" where
  "le32 w = [ucast w, ucast (drop_bit 8 w), ucast (drop_bit 16 w), ucast (drop_bit 24 w)]"

definition of_le16 :: "u8 list \<Rightarrow> u16" where
  "of_le16 b = ucast (b ! 0) OR push_bit 8 (ucast (b ! 1))"

definition of_le32 :: "u8 list \<Rightarrow> u32" where
  "of_le32 b = ucast (b ! 0) OR push_bit 8 (ucast (b ! 1)) OR push_bit 16 (ucast (b ! 2)) OR push_bit 24 (ucast (b ! 3))"

definition sect_bytes :: "nv_sect_info_t \<Rightarrow> u8 list" where
  "sect_bytes x = le16 (usedFlag x) @ [idName x, opSect x]"

definition sect_of :: "u8 list \<Rightarrow> nv_sect_info_t" where
  "sect_of b = \<lparr>usedFlag = of_le16 b, idName = b ! 2, opSect = b ! 3\<rparr>"

definition idx_bytes :: "nv_info_idx_t \<Rightarrow> u8 list" where
  "idx_bytes x = le32 (offset x) @ le16 (size x) @ [itemId x, usedState x]"

definition idx_of :: "u8 list \<Rightarrow> nv_info_idx_t" where
  "idx_of b = \<lparr>offset = of_le32 b, size = of_le16 (drop 4 b), itemId = b ! 6, usedState = b ! 7\<rparr>"

definition hdr_bytes :: "itemHdr_t \<Rightarrow> u8 list" where
  "hdr_bytes x = le32 (hdr_checkSum x) @ le16 (hdr_size x) @ [hdr_itemId x, hdr_used x]"

definition hdr_of :: "u8 list \<Rightarrow> itemHdr_t" where
  "hdr_of b = \<lparr>hdr_checkSum = of_le32 b, hdr_size = of_le16 (drop 4 b), hdr_itemId = b ! 6, hdr_used = b ! 7\<rparr>"

text \<open>The \<open>i\<close>-th of an array of index entries.\<close>

definition idx_nth :: "u8 list \<Rightarrow> nat \<Rightarrow> nv_info_idx_t" where
  "idx_nth b i = idx_of (take 8 (drop (8 * i) b))"

section \<open>The index\<close>

definition nv_index_update ::
  "flash_bus \<Rightarrow> u16 \<Rightarrow> u8 \<Rightarrow> u16 \<Rightarrow> nv_info_idx_t \<Rightarrow> 'a drv_flash_state_scheme \<Rightarrow> nv_sts_t \<times> 'a drv_flash_state_scheme" where
  "nv_index_update D i opS opItemIdx idx s =
     (let idxStartAddr = MODULE_IDX_START (ucast i) opS;
          s1 = flash_unlock D s;
          s2 = flash_write D (idxStartAddr + ucast opItemIdx * 8) (idx_bytes idx) s1
      in (NV_SUCC, flash_lock D s2))"

text \<open>The test of the inner loop of \<^verbatim>\<open>nv_index_read\<close>: a valid entry of the item, or any entry in use.\<close>

definition idx_match :: "u8 \<Rightarrow> u16 \<Rightarrow> nv_info_idx_t \<Rightarrow> bool" where
  "idx_match item len x =
     (if item \<noteq> ITEM_FIELD_IDLE
      then usedState x = ITEM_FIELD_VALID \<and> size x = ucast (ITEM_TOTAL_LEN len) \<and> itemId x = item
      else usedState x \<noteq> ITEM_FIELD_IDLE \<or> size x \<noteq> 0xFFFF \<or> itemId x \<noteq> item)"

fun idx_scan :: "(nv_info_idx_t \<Rightarrow> bool) \<Rightarrow> u8 list \<Rightarrow> nat \<Rightarrow> nat option" where
  "idx_scan P b 0 = None"
| "idx_scan P b (Suc i) = (if P (idx_nth b i) then Some i else idx_scan P b i)"

fun index_read_loop ::
  "flash_bus \<Rightarrow> (nv_info_idx_t \<Rightarrow> bool) \<Rightarrow> nat \<Rightarrow> addr \<Rightarrow> u16 \<Rightarrow> 'a drv_flash_state_scheme
   \<Rightarrow> u16 option \<times> 'a drv_flash_state_scheme" where
  "index_read_loop D P n a opItemIdx s =
     (if n = 0 then (None, s)
      else
        let readIdxNum = (if n > 4 then 4 else n);
            a' = a - of_nat (readIdxNum * 8);
            op' = opItemIdx - of_nat readIdxNum;
            (b, s1) = flash_read D a' (readIdxNum * 8) s
        in case idx_scan P b readIdxNum of
             Some i \<Rightarrow> (Some (op' + of_nat i), s1)
           | None \<Rightarrow> index_read_loop D P (n - readIdxNum) a' op' s1)"

declare index_read_loop.simps [simp del]

definition nv_index_read ::
  "flash_bus \<Rightarrow> u16 \<Rightarrow> u8 \<Rightarrow> u16 \<Rightarrow> u8 \<Rightarrow> u32 \<Rightarrow> 'a drv_flash_state_scheme
   \<Rightarrow> (nv_sts_t \<times> u16 option) \<times> 'a drv_flash_state_scheme" where
  "nv_index_read D i item len opS totalItemNum s =
     (let idxStartAddr = MODULE_IDX_START (ucast i) opS + totalItemNum * 8;
          (r, s1) = index_read_loop D (idx_match item len) (unat totalItemNum) idxStartAddr (ucast totalItemNum) s
      in ((if r = None then NV_ITEM_NOT_FOUND else NV_SUCC, r), s1))"

fun sector_read_loop ::
  "flash_bus \<Rightarrow> u16 \<Rightarrow> nat \<Rightarrow> addr \<Rightarrow> 'a drv_flash_state_scheme \<Rightarrow> nv_sect_info_t option \<times> 'a drv_flash_state_scheme" where
  "sector_read_loop D i 0 a s = (None, s)"
| "sector_read_loop D i (Suc n) a s =
     (let (b, s1) = flash_read D a 4 s; x = sect_of b in
      if usedFlag x = NV_SECTOR_VALID \<and> ucast (idName x) = i then (Some x, s1)
      else sector_read_loop D i n (a + NV_SECTOR_SIZE (ucast i)) s1)"

definition nv_sector_read ::
  "flash_bus \<Rightarrow> u16 \<Rightarrow> nat \<Rightarrow> 'a drv_flash_state_scheme
   \<Rightarrow> (nv_sts_t \<times> nv_sect_info_t option) \<times> 'a drv_flash_state_scheme" where
  "nv_sector_read D i sectTotalNum s =
     (let (r, s1) = sector_read_loop D i sectTotalNum (MODULES_START_ADDR (ucast i)) s
      in ((if r = None then NV_ITEM_NOT_FOUND else NV_SUCC, r), s1))"

section \<open>Writing an item\<close>

text \<open>Where the payload comes from: \<^verbatim>\<open>isFlashCopy\<close> distinguishes a RAM buffer from a flash address.\<close>

datatype nv_source = Ram_Buf "u8 list" | Flash_Addr addr

fun copy_item_loop ::
  "flash_bus \<Rightarrow> nat \<Rightarrow> addr \<Rightarrow> addr \<Rightarrow> 'a drv_flash_state_scheme \<Rightarrow> 'a drv_flash_state_scheme" where
  "copy_item_loop D toalLen sAddr dAddr s =
     (if toalLen = 0 then s
      else let wLen = (if toalLen > 48 then 48 else toalLen);
               (pTemp, s1) = flash_read D sAddr wLen s;
               s2 = flash_write D dAddr pTemp s1
           in copy_item_loop D (toalLen - wLen) (sAddr + of_nat wLen) (dAddr + of_nat wLen) s2)"

declare copy_item_loop.simps [simp del]

fun check_sum_loop ::
  "flash_bus \<Rightarrow> nat \<Rightarrow> addr \<Rightarrow> u32 \<Rightarrow> 'a drv_flash_state_scheme \<Rightarrow> u32 \<times> 'a drv_flash_state_scheme" where
  "check_sum_loop D tLen payloadAddr acc s =
     (if tLen = 0 then (acc, s)
      else let unitLen = (if tLen > 16 then 16 else tLen);
               (vCheck, s1) = flash_read D payloadAddr unitLen s
           in check_sum_loop D (tLen - unitLen) (payloadAddr + of_nat unitLen)
                (acc + sum_list (map ucast vCheck)) s1)"

declare check_sum_loop.simps [simp del]

text \<open>
  \<^verbatim>\<open>nv_write_item\<close>: the index entry in state OPERATION, the contents, then the state VALID. The buffer of the
  copy comes from the event buffer pool; freeing it may not return when its free list is corrupt, hence
  the option.
\<close>

definition nv_write_item ::
  "flash_bus \<Rightarrow> ev_layout \<Rightarrow> u16 \<Rightarrow> u8 \<Rightarrow> u8 \<Rightarrow> u16 \<Rightarrow> u16 \<Rightarrow> nv_source \<Rightarrow> 'a drv_flash_state_scheme
   \<Rightarrow> (nv_sts_t \<times> 'a drv_flash_state_scheme) option" where
  "nv_write_item D L i item opS opItemIdx len buf s =
     (let idxStartAddr = MODULE_IDX_START (ucast i) opS;
          entry = idxStartAddr + ucast opItemIdx * 8;
          (off, s1) =
            (if opItemIdx = 0 then (MODULE_CONTEXT_START (ucast i) opS, s)
             else let (b, s') = flash_read D (idxStartAddr + (ucast opItemIdx - 1) * 8) 8 s; x = idx_of b
                  in ((offset x + ucast (size x) + 3) AND NOT 3, s'));
          idxInfo = \<lparr>offset = off, size = len + 8, itemId = item, usedState = ITEM_FIELD_OPERATION\<rparr>;
          s2 = flash_unlock D s1;
          s3 = flash_write D entry (idx_bytes idxInfo) s2;
          finish = (\<lambda>s'. Some (NV_SUCC, flash_lock D (flash_write D (entry + 7) [ITEM_FIELD_VALID] s')))
      in case buf of
           Flash_Addr sAddr \<Rightarrow>
             (let (pTemp, s4) = ev_buf_allocate 48 s3 in
              if pTemp = NULL then Some (NV_NOT_ENOUGH_SAPCE, flash_lock D s4)
              else let s5 = copy_item_loop D (unat (size idxInfo)) sAddr off s4
                   in case ev_buf_free L pTemp s5 of None \<Rightarrow> None | Some (_, s6) \<Rightarrow> finish s6)
         | Ram_Buf d \<Rightarrow>
             (let payload = take (unat len) d;
                  checkSum = sum_list (map ucast payload);
                  s4 = flash_write D (off + 8) payload s3;
                  (checkSumRead, s5) = check_sum_loop D (unat len) (off + 8) 0 s4
              in if checkSum = checkSumRead
                 then finish (flash_write D off
                        (hdr_bytes \<lparr>hdr_checkSum = checkSum, hdr_size = len, hdr_itemId = item,
                                    hdr_used = ITEM_FIELD_VALID\<rparr>) s5)
                 else Some (NV_CHECK_SUM_ERROR, flash_lock D s5)))"

section \<open>Reading and deleting by index\<close>

definition nv_flashReadByIndex ::
  "flash_bus \<Rightarrow> u8 \<Rightarrow> u8 \<Rightarrow> u8 \<Rightarrow> u16 \<Rightarrow> u16 \<Rightarrow> 'a drv_flash_state_scheme
   \<Rightarrow> (nv_sts_t \<times> u8 list option) \<times> 'a drv_flash_state_scheme" where
  "nv_flashReadByIndex D i item opS opIdx len s =
     (let (b, s1) = flash_read D (MODULE_IDX_START (ucast i) opS + ucast opIdx * 8) 8 s; idx = idx_of b in
      if usedState idx \<noteq> ITEM_FIELD_VALID then ((NV_ITEM_NOT_FOUND, None), s1)
      else
        let (h, s2) = flash_read D (offset idx) 8 s1; hdr = hdr_of h in
        if hdr_size hdr = len \<and> hdr_used hdr = ITEM_FIELD_VALID \<and> hdr_itemId hdr = item
        then let (d, s3) = flash_read D (offset idx + 8) (unat len) s2 in ((NV_SUCC, Some d), s3)
        else ((NV_ITEM_NOT_FOUND, None), s2))"

definition nv_itemDeleteByIndex ::
  "flash_bus \<Rightarrow> u8 \<Rightarrow> u8 \<Rightarrow> u8 \<Rightarrow> u16 \<Rightarrow> 'a drv_flash_state_scheme \<Rightarrow> nv_sts_t \<times> 'a drv_flash_state_scheme" where
  "nv_itemDeleteByIndex D i item opS opIdx s =
     (let s1 = flash_unlock D s;
          s2 = flash_write D (MODULE_IDX_START (ucast i) opS + ucast opIdx * 8 + 7) [ITEM_FIELD_INVALID] s1
      in (NV_SUCC, flash_lock D s2))"

section \<open>Writing with sector change\<close>

fun erase_loop :: "flash_bus \<Rightarrow> nat \<Rightarrow> addr \<Rightarrow> 'a drv_flash_state_scheme \<Rightarrow> 'a drv_flash_state_scheme" where
  "erase_loop D 0 a s = s"
| "erase_loop D (Suc n) a s = erase_loop D n (a + FLASH_SECTOR_SIZE) (flash_erase D a s)"

text \<open>
  The copy of the valid items to the new sector: the inner loop over the entries of one read, the outer
  loop over the index. The results are the status, the next index number and the address used so far.
\<close>

fun move_inner ::
  "flash_bus \<Rightarrow> ev_layout \<Rightarrow> u16 \<Rightarrow> u8 \<Rightarrow> u8 \<Rightarrow> u8 \<Rightarrow> u8 list \<Rightarrow> nat list \<Rightarrow> u16 \<Rightarrow> u32 \<Rightarrow> 'a drv_flash_state_scheme
   \<Rightarrow> ((nv_sts_t \<times> u16 \<times> u32) \<times> 'a drv_flash_state_scheme) option" where
  "move_inner D L i item single opS b [] w sz s = Some ((NV_SUCC, w, sz), s)"
| "move_inner D L i item single opS b (k # ks) w sz s =
     (let x = idx_nth b k in
      if usedState x = ITEM_FIELD_VALID \<and> (itemId x \<noteq> item \<or> (itemId x = item \<and> single = 0))
      then case nv_write_item D L i (itemId x) opS w (size x - 8) (Flash_Addr (offset x)) s of
             None \<Rightarrow> None
           | Some (ret, s1) \<Rightarrow>
               if ret \<noteq> NV_SUCC then Some ((ret, w, sz), flash_lock D s1)
               else move_inner D L i item single opS b ks (w + 1) ((sz + ucast (size x) + 3) AND NOT 3) s1
      else move_inner D L i item single opS b ks w sz s)"

fun move_loop ::
  "flash_bus \<Rightarrow> ev_layout \<Rightarrow> u16 \<Rightarrow> u8 \<Rightarrow> u8 \<Rightarrow> u8 \<Rightarrow> nat \<Rightarrow> addr \<Rightarrow> u16 \<Rightarrow> u32 \<Rightarrow> 'a drv_flash_state_scheme
   \<Rightarrow> ((nv_sts_t \<times> u16 \<times> u32) \<times> 'a drv_flash_state_scheme) option" where
  "move_loop D L i item single opS n a w sz s =
     (if n = 0 then Some ((NV_SUCC, w, sz), s)
      else
        let readIdxNum = (if n > 4 then 4 else n);
            (b, s1) = flash_read D a (readIdxNum * 8) s
        in case move_inner D L i item single opS b [0..<readIdxNum] w sz s1 of
             None \<Rightarrow> None
           | Some ((ret, w', sz'), s2) \<Rightarrow>
               if ret \<noteq> NV_SUCC then Some ((ret, w', sz'), s2)
               else move_loop D L i item single opS (n - readIdxNum) (a + of_nat (readIdxNum * 8)) w' sz' s2)"

declare move_loop.simps [simp del]

text \<open>
  The sector change: the other sector is erased and the valid items are copied there. The result is the
  status, the new sector and the next index number.
\<close>

definition nv_sector_change ::
  "flash_bus \<Rightarrow> ev_layout \<Rightarrow> u8 \<Rightarrow> u16 \<Rightarrow> u8 \<Rightarrow> u16 \<Rightarrow> u8 \<Rightarrow> 'a drv_flash_state_scheme
   \<Rightarrow> ((nv_sts_t \<times> u8 \<times> u16) \<times> 'a drv_flash_state_scheme) option" where
  "nv_sector_change D L single i item len oldSect s =
     (let opS = (oldSect + 1) AND (of_nat MODULE_SECTOR_NUM - 1);
          nv_realSectNum = NV_SECTOR_SIZE (ucast i) div FLASH_SECTOR_SIZE;
          eraseAddr = MODULES_START_ADDR (ucast i) + ucast opS * NV_SECTOR_SIZE (ucast i);
          s1 = erase_loop D (unat nv_realSectNum) eraseAddr s
      in case move_loop D L i item single opS (unat (MODULE_IDX_NUM (ucast i))) (MODULE_IDX_START (ucast i) oldSect)
                0 (MODULE_CONTEXT_START (ucast i) opS) s1 of
           None \<Rightarrow> None
         | Some ((ret, w, sizeusedAddr), s2) \<Rightarrow>
             if ret \<noteq> NV_SUCC then Some ((ret, opS, w), s2)
             else if ucast w = MODULE_IDX_NUM (ucast i)
                     \<or> sizeusedAddr + ITEM_TOTAL_LEN len > MODULE_SECT_END (ucast i) opS
             then Some ((NV_NOT_ENOUGH_SAPCE, opS, w), flash_lock D s2)
             else Some ((NV_SUCC, opS, w), s2))"

text \<open>
  The tail of \<^verbatim>\<open>nv_flashWriteNew\<close>: the new item is written at index \<open>w\<close> of sector \<open>opS\<close>, the entry it
  replaces is invalidated, and the sector headers are updated.
\<close>

definition nv_write_tail ::
  "flash_bus \<Rightarrow> ev_layout \<Rightarrow> u8 \<Rightarrow> u16 \<Rightarrow> u8 \<Rightarrow> u16 \<Rightarrow> u8 list \<Rightarrow> bool \<Rightarrow> u8 \<Rightarrow> u8 \<Rightarrow> u16 \<Rightarrow> 'a drv_flash_state_scheme
   \<Rightarrow> (nv_sts_t \<times> 'a drv_flash_state_scheme) option" where
  "nv_write_tail D L single i item len buf sectorUpdate oldSect opS w s =
     (let (del, s1) =
            (if single \<noteq> 0
             then let ((r, n), s') = nv_index_read D i item len opS (MODULE_IDX_NUM (ucast i)) s in (n, s')
             else (None, s))
      in case nv_write_item D L i item opS w len (Ram_Buf buf) s1 of
           None \<Rightarrow> None
         | Some (ret, s2) \<Rightarrow>
             let s3 = (case del of
                         None \<Rightarrow> s2
                       | Some n \<Rightarrow>
                           flash_write D (MODULE_IDX_START (ucast i) opS + ucast n * 8 + 7) [ITEM_FIELD_INVALID] s2);
                 inf = \<lparr>usedFlag = NV_SECTOR_VALID, idName = ucast i, opSect = opS\<rparr>;
                 s4 =
                   (if ret = NV_SUCC
                    then if sectorUpdate
                         then flash_write D (MODULE_SECT_START (ucast i) opS) (sect_bytes inf)
                                (flash_write D (MODULE_SECT_START (ucast i) oldSect)
                                   (sect_bytes (inf\<lparr>usedFlag := NV_SECTOR_INVALID\<rparr>)) s3)
                         else if w = 0 then flash_write D (MODULE_SECT_START (ucast i) opS) (sect_bytes inf) s3
                         else s3
                    else s3)
             in Some (ret, flash_lock D s4))"

definition nv_flashWriteNew ::
  "flash_bus \<Rightarrow> ev_layout \<Rightarrow> u8 \<Rightarrow> u16 \<Rightarrow> u8 \<Rightarrow> u16 \<Rightarrow> u8 list \<Rightarrow> 'a drv_flash_state_scheme
   \<Rightarrow> (nv_sts_t \<times> 'a drv_flash_state_scheme) option" where
  "nv_flashWriteNew D L single i item len buf s =
     (if NV_SECTOR_SIZE (ucast i) < ITEM_TOTAL_LEN len + MODULE_INFO_SIZE (ucast i) then Some (NV_NOT_ENOUGH_SAPCE, s)
      else
        let ((r0, sect), s1) = nv_sector_read D i MODULE_SECTOR_NUM s;
            opS = (case sect of None \<Rightarrow> 0 | Some x \<Rightarrow> opSect x);
            idxTotalNum = MODULE_IDX_NUM (ucast i);
            ((r1, used), s2) = nv_index_read D i ITEM_FIELD_IDLE len opS idxTotalNum s1;
            (sectorUpdate, w, s3) =
              (case used of
                 None \<Rightarrow> (False, 0, s2)
               | Some n \<Rightarrow>
                   let (b, s') = flash_read D (MODULE_IDX_START (ucast i) opS + ucast n * 8) 8 s2; x = idx_of b
                   in if ucast n = idxTotalNum - 1
                         \<or> offset x + ucast (size x) + ITEM_TOTAL_LEN len > MODULE_SECT_END (ucast i) opS
                      then (True, n, s') else (False, n + 1, s'));
            s4 = flash_unlock D s3
        in if sectorUpdate
           then case nv_sector_change D L single i item len opS s4 of
                  None \<Rightarrow> None
                | Some ((ret, opS', w'), s5) \<Rightarrow>
                    if ret \<noteq> NV_SUCC then Some (ret, s5)
                    else nv_write_tail D L single i item len buf True opS opS' w' s5
           else nv_write_tail D L single i item len buf False opS opS w s4)"

section \<open>Reading\<close>

text \<open>What the caller finds in its buffer: nothing new, the payload, or (for a non-single item) the place.\<close>

datatype nv_out = Out_None | Out_Bytes "u8 list" | Out_Info u16 u8

definition nv_flashReadNew ::
  "flash_bus \<Rightarrow> u8 \<Rightarrow> u8 \<Rightarrow> u8 \<Rightarrow> u16 \<Rightarrow> 'a drv_flash_state_scheme \<Rightarrow> (nv_sts_t \<times> nv_out) \<times> 'a drv_flash_state_scheme" where
  "nv_flashReadNew D single i item len s =
     (let ((r0, sect), s1) = nv_sector_read D (ucast i) MODULE_SECTOR_NUM s in
      case sect of
        None \<Rightarrow> ((r0, Out_None), s1)
      | Some x \<Rightarrow>
          let ((ret, opIdx), s2) = nv_index_read D (ucast i) item len (opSect x) (MODULE_IDX_NUM (ucast i)) s1 in
          if single \<noteq> 0
          then case opIdx of
                 Some n \<Rightarrow>
                   let ((ret', d), s3) = nv_flashReadByIndex D i item (opSect x) n len s2
                   in ((ret', case d of None \<Rightarrow> Out_None | Some bs \<Rightarrow> Out_Bytes bs), s3)
               | None \<Rightarrow> ((ret, Out_None), s2)
          else ((ret, Out_Info (case opIdx of None \<Rightarrow> 0 | Some n \<Rightarrow> n) (opSect x)), s2))"

section \<open>The frame counter\<close>

fun frmcnt_pages ::
  "flash_bus \<Rightarrow> nat \<Rightarrow> addr \<Rightarrow> addr \<Rightarrow> 'a drv_flash_state_scheme \<Rightarrow> (bool \<times> addr \<times> addr) \<times> 'a drv_flash_state_scheme" where
  "frmcnt_pages D 0 opPageAddr validAddr s = ((False, opPageAddr, validAddr), s)"
| "frmcnt_pages D (Suc n) opPageAddr validAddr s =
     (let (b, s1) = flash_read D opPageAddr 4 s in
      if of_le32 b \<noteq> 0xFFFFFFFF then ((True, opPageAddr, validAddr), s1)
      else frmcnt_pages D n (opPageAddr - FLASH_PAGE_SIZE) opPageAddr s1)"

text \<open>The inner loop over the words of one read: the last counter and the address behind it.\<close>

fun frmcnt_words :: "u8 list \<Rightarrow> addr \<Rightarrow> nat \<Rightarrow> nat \<Rightarrow> u32 \<Rightarrow> (u32 \<times> addr) option \<times> u32" where
  "frmcnt_words b a i 0 cnt = (None, cnt)"
| "frmcnt_words b a i (Suc k) cnt =
     (let v = of_le32 (drop (4 * i) b) in
      if v \<noteq> 0xFFFFFFFF
      then (if k = 0 then (Some (v, a + of_nat (4 * (i + 1))), v) else frmcnt_words b a (i + 1) k v)
      else (Some (cnt, a + of_nat (4 * i)), cnt))"

fun frmcnt_scan ::
  "flash_bus \<Rightarrow> nat \<Rightarrow> addr \<Rightarrow> addr \<Rightarrow> u32 option \<Rightarrow> 'a drv_flash_state_scheme
   \<Rightarrow> (nv_sts_t \<times> u32 option \<times> addr) \<times> 'a drv_flash_state_scheme" where
  "frmcnt_scan D checkSize opPageAddr validAddr cnt s =
     (if checkSize = 0 then ((NV_ITEM_NOT_FOUND, cnt, validAddr), s)
      else
        let readSize = (if checkSize > 16 then 16 else checkSize);
            a = opPageAddr - of_nat (4 * (readSize div 4));
            (b, s1) = flash_read D a readSize s;
            v0 = of_le32 b
        in if v0 \<noteq> 0xFFFFFFFF
           then case frmcnt_words b a 1 (readSize div 4 - 1) v0 of
                  (Some (c, va), _) \<Rightarrow> ((NV_SUCC, Some c, va), s1)
                | (None, c) \<Rightarrow> frmcnt_scan D (checkSize - readSize) a validAddr (Some c) s1
           else frmcnt_scan D (checkSize - readSize) a a cnt s1)"

declare frmcnt_scan.simps [simp del]

definition nv_nwkFrameCountSearch ::
  "flash_bus \<Rightarrow> u8 \<Rightarrow> u8 \<Rightarrow> 'a drv_flash_state_scheme \<Rightarrow> (nv_sts_t \<times> u32 option \<times> addr) \<times> 'a drv_flash_state_scheme" where
  "nv_nwkFrameCountSearch D i opS s =
     (let sizeUsed = ucast FRAMECOUNT_NUM_PER_SECT * 4 :: u32;
          pageUsed = (if sizeUsed AND 0xFF \<noteq> 0 then sizeUsed div FLASH_PAGE_SIZE + 1 else sizeUsed div FLASH_PAGE_SIZE);
          ((hit, page, va), s1) = frmcnt_pages D (unat (pageUsed - 1)) (MODULE_SECT_END (ucast i) opS - FLASH_PAGE_SIZE)
                                    (FRAMECOUNT_PAYLOAD_START opS) s;
          (page', checkSize) =
            (if hit then (page, 256) else (FRAMECOUNT_PAYLOAD_START opS, unat ((FLASH_PAGE_SIZE - 4) AND NOT 3)))
      in frmcnt_scan D checkSize ((page' + FLASH_PAGE_SIZE) AND NOT (FLASH_PAGE_SIZE - 1)) va None s1)"

definition nv_nwkFrameCountSaveToFlash ::
  "flash_bus \<Rightarrow> u32 \<Rightarrow> 'a drv_flash_state_scheme \<Rightarrow> nv_sts_t \<times> 'a drv_flash_state_scheme" where
  "nv_nwkFrameCountSaveToFlash D frameCount s =
     (let i = NV_MODULE_NWK_FRAME_COUNT;
          s1 = flash_unlock D s;
          ((ret, sect), s2) = nv_sector_read D (ucast i) MODULE_SECTOR_NUM s1;
          (opS, s3) = (case sect of
                         None \<Rightarrow> (0, erase_loop D MODULE_SECTOR_NUM (MODULES_START_ADDR i) s2)
                       | Some x \<Rightarrow> (opSect x, s2));
          ((r, lastFrmCnt, wA), s4) = nv_nwkFrameCountSearch D (ucast i) opS s3;
          (sectorUpdate, opS', wAddr, s5) =
            (if r = NV_SUCC \<and> wA = MODULE_SECT_END i opS
             then let op' = (opS + 1) AND (of_nat MODULE_SECTOR_NUM - 1);
                      e = flash_erase D (MODULES_START_ADDR i + ucast op' * FLASH_SECTOR_SIZE) s4;
                      e' = flash_write D (FRAMECOUNT_PAYLOAD_START op') (le32 (the lastFrmCnt)) e
                  in (True, op', FRAMECOUNT_PAYLOAD_START op' + 4, e')
             else (False, opS, wA, s4));
          s6 = flash_write D wAddr (le32 frameCount) s5;
          inf = \<lparr>usedFlag = NV_SECTOR_VALID, idName = ucast i, opSect = opS'\<rparr>;
          s7 =
            (if sectorUpdate \<or> wAddr = FRAMECOUNT_PAYLOAD_START opS'
             then let s' = flash_write D (MODULE_SECT_START i opS') (sect_bytes inf) s6
                  in if sectorUpdate
                     then flash_write D (MODULE_SECT_START i opS) (sect_bytes (inf\<lparr>usedFlag := NV_SECTOR_INVALID\<rparr>)) s'
                     else s'
             else s6)
      in (ret, flash_lock D s7))"

definition nv_nwkFrameCountFromFlash ::
  "flash_bus \<Rightarrow> 'a drv_flash_state_scheme \<Rightarrow> (nv_sts_t \<times> u32 option) \<times> 'a drv_flash_state_scheme" where
  "nv_nwkFrameCountFromFlash D s =
     (let i = NV_MODULE_NWK_FRAME_COUNT;
          ((ret, sect), s1) = nv_sector_read D (ucast i) MODULE_SECTOR_NUM s in
      case sect of
        None \<Rightarrow> ((ret, None), s1)
      | Some x \<Rightarrow>
          let ((r, c, va), s2) = nv_nwkFrameCountSearch D (ucast i) (opSect x) s1
          in ((r, if r = NV_SUCC then c else None), s2))"

section \<open>Reset\<close>

definition nv_resetModule :: "flash_bus \<Rightarrow> u8 \<Rightarrow> 'a drv_flash_state_scheme \<Rightarrow> nv_sts_t \<times> 'a drv_flash_state_scheme" where
  "nv_resetModule D modules s =
     (let s1 = flash_unlock D s;
          sectNumber = NV_SECTOR_SIZE (ucast modules) div FLASH_SECTOR_SIZE;
          s2 = erase_loop D (MODULE_SECTOR_NUM * unat sectNumber) (MODULES_START_ADDR (ucast modules)) s1
      in (NV_SUCC, flash_lock D s2))"

fun reset_modules :: "flash_bus \<Rightarrow> nat list \<Rightarrow> 'a drv_flash_state_scheme \<Rightarrow> 'a drv_flash_state_scheme" where
  "reset_modules D [] s = s"
| "reset_modules D (i # is) s = reset_modules D is (snd (nv_resetModule D (of_nat i) s))"

definition nv_resetAll :: "flash_bus \<Rightarrow> 'a drv_flash_state_scheme \<Rightarrow> nv_sts_t \<times> 'a drv_flash_state_scheme" where
  "nv_resetAll D s = (NV_SUCC, reset_modules D [0..<NV_MAX_MODULS] s)"

definition nv_init :: "flash_bus \<Rightarrow> u8 \<Rightarrow> 'a drv_flash_state_scheme \<Rightarrow> nv_sts_t \<times> 'a drv_flash_state_scheme" where
  "nv_init D rst s = (NV_SUCC, if rst \<noteq> 0 then snd (nv_resetAll D s) else s)"

definition nv_facrotyNewRstFlagCheck :: "flash_bus \<Rightarrow> 'a drv_flash_state_scheme \<Rightarrow> bool \<times> 'a drv_flash_state_scheme" where
  "nv_facrotyNewRstFlagCheck D s =
     (let (b, s1) = flash_read D CFG_FACTORY_RST_CNT 1 s in (b ! 0 \<noteq> 0xFF, s1))"

definition nv_facrotyNewRstFlagSet :: "flash_bus \<Rightarrow> 'a drv_flash_state_scheme \<Rightarrow> 'a drv_flash_state_scheme" where
  "nv_facrotyNewRstFlagSet D s =
     flash_lock D (flash_write D CFG_FACTORY_RST_CNT [ITEM_FIELD_VALID] (flash_unlock D s))"

definition nv_facrotyNewRstFlagClear :: "flash_bus \<Rightarrow> 'a drv_flash_state_scheme \<Rightarrow> 'a drv_flash_state_scheme" where
  "nv_facrotyNewRstFlagClear D s = flash_lock D (flash_erase D CFG_FACTORY_RST_CNT (flash_unlock D s))"

definition nv_resetToFactoryNew :: "flash_bus \<Rightarrow> 'a drv_flash_state_scheme \<Rightarrow> nv_sts_t \<times> 'a drv_flash_state_scheme" where
  "nv_resetToFactoryNew D s =
     (let (flag, s1) = nv_facrotyNewRstFlagCheck D s;
          s2 = (if \<not> flag then nv_facrotyNewRstFlagSet D s1 else s1);
          s3 = reset_modules D (filter (\<lambda>i. i \<noteq> unat NV_MODULE_NWK_FRAME_COUNT) [0..<NV_MAX_MODULS]) s2
      in (NV_SUCC, nv_facrotyNewRstFlagClear D s3))"

end
