(* ===== verification/Nv_Spec.thy ===== *)
theory Nv_Spec
  imports Drv_Nv
begin

text \<open>
  The contract of the non-volatile storage. A sector is seen as a log of records; \<open>sector_log\<close> says that
  the bytes of a sector represent such a log. On an unprotected device with enough voltage, reading an
  item is looking up the last valid record with its identifier and length, and writing an item appends
  a record and invalidates the one it replaces.
\<close>

section \<open>A sector as bytes at offsets\<close>

text \<open>\<open>sv m B k\<close> is the byte at offset \<open>k\<close> of the sector that starts at \<open>B\<close>.\<close>

definition sv :: "(addr \<Rightarrow> u8) \<Rightarrow> addr \<Rightarrow> nat \<Rightarrow> u8" where
  "sv m B k = m (B + of_nat k)"

definition put :: "(nat \<Rightarrow> u8) \<Rightarrow> nat \<Rightarrow> u8 list \<Rightarrow> nat \<Rightarrow> u8" where
  "put v k bs = (\<lambda>j. if k \<le> j \<and> j < k + length bs then v j AND bs ! (j - k) else v j)"

definition at :: "(nat \<Rightarrow> u8) \<Rightarrow> nat \<Rightarrow> u8 list \<Rightarrow> bool" where
  "at v k bs \<longleftrightarrow> (\<forall>j < length bs. v (k + j) = bs ! j)"

definition blank :: "(nat \<Rightarrow> u8) \<Rightarrow> nat \<Rightarrow> nat \<Rightarrow> bool" where
  "blank v k n \<longleftrightarrow> (\<forall>j. k \<le> j \<and> j < n \<longrightarrow> v j = 0xFF)"

lemma sv_and_bytes:
  assumes "k + length bs \<le> 2 ^ 24" "j < 2 ^ 24"
  shows "sv (and_bytes m (B + of_nat k) bs) B j = put (sv m B) k bs j"
proof -
  have k: "unat (of_nat k :: addr) = k" "unat (of_nat j :: addr) = j"
    using assms by (simp_all add: unat_of_nat)
  have sub: "B + of_nat j - (B + of_nat k) = (of_nat j - of_nat k :: addr)"
    by simp
  show ?thesis
  proof (cases "k \<le> j")
    case True
    then have "unat (of_nat j - of_nat k :: addr) = j - k"
      using unat_sub_no_wrap [of "of_nat k :: addr" "of_nat j"] k by (simp add: word_le_nat_alt)
    then show ?thesis
      using True by (auto simp: sv_def and_bytes_def put_def sub)
  next
    case False
    have "\<not> unat (of_nat j - of_nat k :: addr) < length bs"
    proof
      assume l: "unat (of_nat j - of_nat k :: addr) < length bs"
      have "unat ((of_nat j - of_nat k) + of_nat k :: addr) = unat (of_nat j - of_nat k :: addr) + k"
        using unat_add_no_wrap [of "of_nat j - of_nat k" "of_nat k :: addr"] l k assms(1) by simp
      then show False
        using k False by simp
    qed
    then show ?thesis
      using False by (auto simp: sv_def and_bytes_def put_def sub)
  qed
qed

lemma fbytes_at:
  assumes "at (sv m B) k bs"
  shows "fbytes m (B + of_nat k) (length bs) = bs"
  by (rule nth_equalityI) (use assms in \<open>auto simp: at_def sv_def add.assoc\<close>)

lemma at_append: "at v k (xs @ ys) \<longleftrightarrow> at v k xs \<and> at v (k + length xs) ys"
proof
  assume a: "at v k (xs @ ys)"
  have "v (k + length xs + j) = ys ! j" if "j < length ys" for j
    using a that unfolding at_def by (metis add.assoc length_append nat_add_left_cancel_less nth_append_length_plus)
  moreover have "v (k + j) = xs ! j" if "j < length xs" for j
    using a that unfolding at_def by (metis length_append nth_append trans_less_add1)
  ultimately show "at v k xs \<and> at v (k + length xs) ys"
    by (simp add: at_def)
next
  assume "at v k xs \<and> at v (k + length xs) ys"
  then show "at v k (xs @ ys)"
    by (auto simp: at_def nth_append) (metis add.assoc add_diff_inverse_nat nat_add_left_cancel_less)
qed

lemma at_single: "at v k [x] \<longleftrightarrow> v k = x"
  by (simp add: at_def)

text \<open>Writing to a blank range, and what a write keeps.\<close>

lemma at_put_blank:
  assumes "blank v k n" "k + length bs \<le> n"
  shows "at (put v k bs) k bs"
  using assms by (auto simp: at_def put_def blank_def and_u8_ff)

lemma at_put_other:
  assumes "at v i bs" "i + length bs \<le> k \<or> k + length cs \<le> i"
  shows "at (put v k cs) i bs"
  using assms by (auto simp: at_def put_def)

lemma blank_put_other:
  assumes "blank v i n" "n \<le> k \<or> k + length cs \<le> i"
  shows "blank (put v k cs) i n"
  using assms by (auto simp: blank_def put_def)

lemma at_cong: "(\<And>j. j < n \<Longrightarrow> v j = w j) \<Longrightarrow> k + length bs \<le> n \<Longrightarrow> at v k bs = at w k bs"
  by (auto simp: at_def)

lemma blank_cong: "(\<And>j. j < n \<Longrightarrow> v j = w j) \<Longrightarrow> blank v k n = blank w k n"
  by (auto simp: blank_def)

section \<open>Byte images\<close>

lemma of_le16_le16 [simp]: "of_le16 (le16 w @ bs) = w"
  using u16_bytes [of w] by (simp add: of_le16_def le16_def)

lemma of_le32_le32 [simp]: "of_le32 (le32 w @ bs) = w"
proof (rule bit_word_eqI)
  fix n
  assume n: "n < LENGTH(32)"
  consider "n < 8" | "8 \<le> n" "n < 16" | "16 \<le> n" "n < 24" | "24 \<le> n"
    by linarith
  then show "bit (of_le32 (le32 w @ bs)) n = bit w n"
    by cases (use n in \<open>auto simp: of_le32_def le32_def bit_simps\<close>)
qed

lemma length_le [simp]: "length (le16 w) = 2" "length (le32 x) = 4"
  by (simp_all add: le16_def le32_def)

lemma length_images [simp]:
  "length (sect_bytes a) = 4" "length (idx_bytes b) = 8" "length (hdr_bytes c) = 8"
  by (simp_all add: sect_bytes_def idx_bytes_def hdr_bytes_def)

lemma images_of [simp]:
  "sect_of (sect_bytes a) = a" "idx_of (idx_bytes b) = b" "hdr_of (hdr_bytes c) = c"
proof -
  have d: "drop 4 (le32 x @ ys) = ys" for x ys
    by (simp add: le32_def)
  have n: "(le32 x @ le16 y @ [p, q]) ! 6 = p" "(le32 x @ le16 y @ [p, q]) ! 7 = q"
    "(le16 y @ [p, q]) ! 2 = p" "(le16 y @ [p, q]) ! 3 = q" for x y p q
    by (simp_all add: le32_def le16_def)
  show "sect_of (sect_bytes a) = a" "idx_of (idx_bytes b) = b" "hdr_of (hdr_bytes c) = c"
    by (simp_all add: sect_of_def sect_bytes_def idx_of_def idx_bytes_def hdr_of_def hdr_bytes_def d n)
qed

section \<open>The flash service on an unprotected device\<close>

definition nv_open :: "(u16 \<Rightarrow> addr \<Rightarrow> bool) \<Rightarrow> 'a drv_flash_state_scheme \<Rightarrow> bool" where
  "nv_open prot s \<longleftrightarrow>
     \<not> adc_data s < BATTERY_SAFETY_THRESHOLD \<and> \<not> wel (chip s) \<and> (pFlashOpt s = None \<or> \<not> g_flashLocked s)
     \<and> (\<forall>a. \<not> prot (fstat (chip s)) a)"

definition set_fmem :: "'a drv_flash_state_scheme \<Rightarrow> (addr \<Rightarrow> u8) \<Rightarrow> 'a drv_flash_state_scheme" where
  "set_fmem s m = s\<lparr>chip := (chip s)\<lparr>fmem := m\<rparr>\<rparr>"

lemma set_fmem_simps [simp]:
  "nv_open prot (set_fmem s m) = nv_open prot s"
  "fmem (chip (set_fmem s m)) = m"
  "set_fmem (set_fmem s m) m' = set_fmem s m'"
  "set_fmem s (fmem (chip s)) = s"
  "pFlashOpt (set_fmem s m) = pFlashOpt s"
  "fstat (chip (set_fmem s m)) = fstat (chip s)"
  by (simp_all add: nv_open_def set_fmem_def)

lemma open_lock [simp]:
  "pFlashOpt s = None \<Longrightarrow> flash_lock D s = s"
  "nv_open prot s \<Longrightarrow> flash_unlock D s = s"
  by (auto simp: nv_open_def flash_lock_def flash_unlock_def split: option.splits)

lemma and_bytes_Nil [simp]: "and_bytes m a [] = m"
  by (simp add: and_bytes_def)

lemma unat_sector_offset:
  fixes B :: addr
  assumes "unat B + k < 2 ^ 32"
  shows "unat (B + of_nat k) = unat B + k"
  using assms unat_add_no_wrap [of B "of_nat k"] by (simp add: unat_of_nat)

fun last_idx :: "(nat \<Rightarrow> bool) \<Rightarrow> nat \<Rightarrow> nat option" where
  "last_idx Q 0 = None"
| "last_idx Q (Suc n) = (if Q n then Some n else last_idx Q n)"

lemma last_idx_add:
  "last_idx Q (j + r) = (case last_idx (\<lambda>k. Q (j + k)) r of Some i \<Rightarrow> Some (j + i) | None \<Rightarrow> last_idx Q j)"
  by (induction r) auto

lemma idx_nth_fbytes:
  assumes "8 * (i + 1) \<le> n"
  shows "idx_nth (fbytes m (I + of_nat (8 * j)) n) i = idx_of (fbytes m (I + of_nat (8 * (j + i))) 8)"
proof -
  have "take 8 (drop (8 * i) (fbytes m (I + of_nat (8 * j)) n)) = fbytes m (I + of_nat (8 * (j + i))) 8"
    by (rule nth_equalityI) (use assms in \<open>auto simp: algebra_simps\<close>)
  then show ?thesis
    by (simp add: idx_nth_def)
qed

lemma idx_scan_fbytes:
  "8 * r \<le> n \<Longrightarrow> idx_scan P (fbytes m (I + of_nat (8 * j)) n) r =
   last_idx (\<lambda>k. P (idx_of (fbytes m (I + of_nat (8 * (j + k))) 8))) r"
proof (induction r)
  case (Suc r)
  have "idx_nth (fbytes m (I + of_nat (8 * j)) n) r = idx_of (fbytes m (I + of_nat (8 * (j + r))) 8)"
    by (rule idx_nth_fbytes) (use Suc.prems in simp)
  then show ?case
    using Suc by simp
qed simp

context nor_flash
begin

lemma open_write:
  assumes "nv_open prot s" "unat a + length bs \<le> 2 ^ 24" "unat a < 2 ^ 24"
  shows "flash_write D a bs s = set_fmem s (and_bytes (fmem (chip s)) a bs)"
proof (cases "bs = []")
  case True
  have "unat (a AND 255) + length ([] :: u8 list) \<le> 256"
    by (simp add: unat_page_offset less_imp_le)
  then show ?thesis
    using assms True write_ram_prog [of a "[]" s False]
    by (simp add: flash_write_def flash_write_page_def write_page_loop.simps nv_open_def set_fmem_def)
next
  case False
  then show ?thesis
    using drv_write [of a bs s False] assms by (simp add: nv_open_def set_fmem_def)
qed

lemma open_erase:
  assumes "nv_open prot s" "unat a < 2 ^ 24"
  shows "flash_erase D a s = set_fmem s (erased (fmem (chip s)) a)"
  using drv_erase [of a s] assms by (simp add: nv_open_def set_fmem_def)

lemma read_at:
  assumes "unat B + k + n \<le> 2 ^ 24"
  shows "flash_read D (B + of_nat k) n s = (fbytes (fmem (chip s)) (B + of_nat k) n, s)"
  using drv_read [of "B + of_nat k" n s] unat_sector_offset [of B k] assms by simp

lemma write_at:
  assumes "nv_open prot s" "unat B + k + length bs \<le> 2 ^ 24" "unat B + k < 2 ^ 24"
  shows "flash_write D (B + of_nat k) bs s = set_fmem s (and_bytes (fmem (chip s)) (B + of_nat k) bs)"
  using open_write [of s "B + of_nat k" bs] unat_sector_offset [of B k] assms by simp

text \<open>The scan of the index finds the last entry that satisfies the test.\<close>

lemma index_loop:
  assumes "unat I + 8 * n \<le> 2 ^ 24"
  shows "index_read_loop D P n (I + of_nat (8 * n)) (of_nat n) s =
         (map_option of_nat (last_idx (\<lambda>k. P (idx_of (fbytes (fmem (chip s)) (I + of_nat (8 * k)) 8))) n), s)"
  using assms
proof (induction n rule: less_induct)
  case (less n)
  let ?Q = "\<lambda>k. P (idx_of (fbytes (fmem (chip s)) (I + of_nat (8 * k)) 8))"
  show ?case
  proof (cases "n = 0")
    case True
    then show ?thesis
      by (simp add: index_read_loop.simps)
  next
    case False
    define r where "r = (if n > 4 then 4 else n)"
    define j where "j = n - r"
    have n: "n = j + r" "r \<noteq> 0" "r \<le> 4"
      using False by (auto simp: r_def j_def)
    have a: "I + of_nat (8 * n) - of_nat (r * 8) = I + of_nat (8 * j)"
      by (simp add: n algebra_simps)
    have op: "(of_nat n :: u16) - of_nat r = of_nat j"
      by (simp add: n)
    have rd: "flash_read D (I + of_nat (8 * j)) (r * 8) s = (fbytes (fmem (chip s)) (I + of_nat (8 * j)) (r * 8), s)"
      by (rule read_at) (use less.prems n in simp)
    have scan: "idx_scan P (fbytes (fmem (chip s)) (I + of_nat (8 * j)) (r * 8)) r = last_idx (\<lambda>k. ?Q (j + k)) r"
      by (rule idx_scan_fbytes) simp
    have rec: "index_read_loop D P j (I + of_nat (8 * j)) (of_nat j) s = (map_option of_nat (last_idx ?Q j), s)"
      by (rule less.IH) (use less.prems n in auto)
    have "index_read_loop D P n (I + of_nat (8 * n)) (of_nat n) s =
          (case last_idx (\<lambda>k. ?Q (j + k)) r of
             Some i \<Rightarrow> (Some (of_nat j + of_nat i), s)
           | None \<Rightarrow> index_read_loop D P j (I + of_nat (8 * j)) (of_nat j) s)"
      using False
      by (subst index_read_loop.simps)
         (simp only: Let_def if_False r_def [symmetric] a op rd scan prod.case j_def [symmetric])
    then show ?thesis
      unfolding rec n(1) last_idx_add by (simp split: option.splits)
  qed
qed

lemma check_sum:
  "unat a + n \<le> 2 ^ 24 \<Longrightarrow> unat a < 2 ^ 24 \<Longrightarrow>
   check_sum_loop D n a acc s = (acc + sum_list (map ucast (fbytes (fmem (chip s)) a n)), s)"
proof (induction n arbitrary: a acc rule: less_induct)
  case (less n)
  show ?case
  proof (cases "n = 0")
    case True
    then show ?thesis
      by (simp add: check_sum_loop.simps fbytes_def)
  next
    case False
    define r where "r = (if n > 16 then 16 else n)"
    have n: "n = r + (n - r)" "0 < r" "r \<le> 16" "n - r < n"
      using False by (auto simp: r_def)
    have rd: "flash_read D a r s = (fbytes (fmem (chip s)) a r, s)"
      by (rule drv_read) (use less.prems n in linarith)
    have ua: "unat (a + of_nat r) = unat a + r"
      using unat_sector_offset [of a r] less.prems n by simp
    have step: "check_sum_loop D n a acc s =
          check_sum_loop D (n - r) (a + of_nat r) (acc + sum_list (map ucast (fbytes (fmem (chip s)) a r))) s"
      using False by (subst check_sum_loop.simps) (simp only: Let_def if_False r_def [symmetric] rd prod.case)
    have rec: "check_sum_loop D (n - r) (a + of_nat r) (acc + sum_list (map ucast (fbytes (fmem (chip s)) a r))) s =
          (acc + sum_list (map ucast (fbytes (fmem (chip s)) a r))
             + sum_list (map ucast (fbytes (fmem (chip s)) (a + of_nat r) (n - r))), s)"
    proof (cases "n = r")
      case True
      then show ?thesis
        by (simp add: check_sum_loop.simps fbytes_def)
    next
      case False
      show ?thesis
        by (rule less.IH) (use less.prems n ua False in auto)
    qed
    show ?thesis
      unfolding step rec using fbytes_split [of "fmem (chip s)" a r "n - r"] n(1) by (simp add: add.assoc)
  qed
qed

end

section \<open>The geometry of the modules\<close>

abbreviation base :: "u8 \<Rightarrow> u8 \<Rightarrow> addr" where
  "base i sect \<equiv> MODULE_SECT_START (ucast i) sect"

definition sect_size :: "u8 \<Rightarrow> nat" where
  "sect_size i = (if i = 2 then 16384 else 4096)"

definition info_size :: "u8 \<Rightarrow> nat" where
  "info_size i = (if i = 2 then 1024 else 512)"

definition idx_num :: "u8 \<Rightarrow> nat" where
  "idx_num i = (if i = 2 then 127 else 63)"

lemmas nv_geometry_defs =
  MODULE_SECT_START_def MODULES_START_ADDR_def NV_SECTOR_SIZE_def NV_BASE_ADDRESS_def FLASH_SECTOR_SIZE_def
  NV_MODULE_USER_INFO1_def MODULE_INFO_SIZE_def FLASH_PAGE_SIZE_def MODULE_IDX_NUM_def MODULE_IDX_START_def
  MODULE_CONTEXT_START_def MODULE_SECT_END_def sect_size_def info_size_def idx_num_def

lemma module_cases:
  assumes "(i :: u8) < 4"
  obtains "i = 0" | "i = 1" | "i = 2" | "i = 3"
proof -
  have "unat i < 4"
    using assms by (simp add: word_less_nat_alt)
  then have "unat i = 0 \<or> unat i = 1 \<or> unat i = 2 \<or> unat i = 3"
    by linarith
  then show thesis
    using that by (auto simp: word_unat_eq_iff)
qed

lemma sect_cases:
  assumes "(sect :: u8) < 2"
  obtains "sect = 0" | "sect = 1"
proof -
  have "unat sect < 2"
    using assms by (simp add: word_less_nat_alt)
  then have "unat sect = 0 \<or> unat sect = 1"
    by linarith
  then show thesis
    using that by (auto simp: word_unat_eq_iff)
qed

lemma ucast_8_16_32 [simp]: "(ucast (ucast (i :: u8) :: u16) :: u32) = ucast i"
  by (rule bit_word_eqI) (auto simp: bit_simps dest: bit_imp_le_length)

lemma ucast_u8_u16_inj: "(ucast (x :: u8) :: u16) = ucast y \<longleftrightarrow> x = y"
  by (auto simp: word_unat_eq_iff)

lemma geometry:
  assumes "i < 4" "sect < 2"
  shows "unat (base i sect) + sect_size i < 2 ^ 24" "unat (base i sect) mod 4 = 0"
    and "MODULE_SECT_END (ucast i) sect = base i sect + of_nat (sect_size i)"
    and "MODULE_IDX_START (ucast i) sect = base i sect + of_nat 4"
    and "MODULE_CONTEXT_START (ucast i) sect = base i sect + of_nat (info_size i)"
    and "unat (MODULE_IDX_NUM (ucast i)) = idx_num i" "MODULE_IDX_NUM (ucast i) = of_nat (idx_num i)"
    and "NV_SECTOR_SIZE (ucast i) = of_nat (sect_size i)" "MODULE_INFO_SIZE (ucast i) = of_nat (info_size i)"
  by (cases rule: module_cases [OF assms(1)]; cases rule: sect_cases [OF assms(2)];
      simp add: nv_geometry_defs)+

lemma sizes:
  "info_size i mod 4 = 0" "4 + 8 * idx_num i \<le> info_size i" "info_size i + 3000 \<le> sect_size i" "sect_size i \<le> 16384"
  "0 < idx_num i" "idx_num i \<le> 127"
  by (simp_all add: sect_size_def info_size_def idx_num_def)

section \<open>Logs\<close>

record nv_rec =
  rc_item :: u8
  rc_data :: "u8 list"
  rc_valid :: bool

definition align4 :: "nat \<Rightarrow> nat" where
  "align4 n = (n + 3) div 4 * 4"

text \<open>The offset behind a log that starts at offset \<open>c\<close>; every item starts at a multiple of 4.\<close>

definition log_end :: "nat \<Rightarrow> nv_rec list \<Rightarrow> nat" where
  "log_end c rs = foldl (\<lambda>p r. align4 (p + 8 + length (rc_data r))) c rs"

definition log_pos :: "nat \<Rightarrow> nv_rec list \<Rightarrow> nat \<Rightarrow> nat" where
  "log_pos c rs k = log_end c (take k rs)"

definition rec_entry :: "addr \<Rightarrow> nat \<Rightarrow> nv_rec \<Rightarrow> nv_info_idx_t" where
  "rec_entry B p r =
     \<lparr>offset = B + of_nat p, size = of_nat (8 + length (rc_data r)), itemId = rc_item r,
      usedState = (if rc_valid r then ITEM_FIELD_VALID else ITEM_FIELD_INVALID)\<rparr>"

definition rec_bytes :: "nv_rec \<Rightarrow> u8 list" where
  "rec_bytes r =
     hdr_bytes \<lparr>hdr_checkSum = sum_list (map ucast (rc_data r)), hdr_size = of_nat (length (rc_data r)),
                hdr_itemId = rc_item r, hdr_used = ITEM_FIELD_VALID\<rparr> @ rc_data r"

definition records_at :: "(addr \<Rightarrow> u8) \<Rightarrow> u8 \<Rightarrow> u8 \<Rightarrow> nv_rec list \<Rightarrow> bool" where
  "records_at m i sect rs \<longleftrightarrow>
     (let B = base i sect; v = sv m B; p = log_pos (info_size i) rs in
      \<forall>k < length rs. at v (4 + 8 * k) (idx_bytes (rec_entry B (p k) (rs ! k)))
           \<and> at v (p k) (rec_bytes (rs ! k)) \<and> p k + 8 + length (rc_data (rs ! k)) \<le> sect_size i)"

definition sector_log :: "(addr \<Rightarrow> u8) \<Rightarrow> u8 \<Rightarrow> u8 \<Rightarrow> nv_rec list \<Rightarrow> bool" where
  "sector_log m i sect rs \<longleftrightarrow>
     length rs \<le> idx_num i \<and> records_at m i sect rs
     \<and> blank (sv m (base i sect)) (4 + 8 * length rs) (4 + 8 * idx_num i)
     \<and> blank (sv m (base i sect)) (log_end (info_size i) rs) (sect_size i)"

lemma align4_ge: "n \<le> align4 n" and align4_mod: "align4 n mod 4 = 0"
proof -
  have "n + 3 = (n + 3) div 4 * 4 + (n + 3) mod 4" "(n + 3) mod 4 < 4"
    by simp_all
  then show "n \<le> align4 n"
    unfolding align4_def by linarith
qed (simp add: align4_def)

lemma log_end_append: "log_end c (rs @ [r]) = align4 (log_end c rs + 8 + length (rc_data r))"
  by (simp add: log_end_def)

lemma log_end_mod: "c mod 4 = 0 \<Longrightarrow> log_end c rs mod 4 = 0"
  by (induction rs rule: rev_induct) (simp_all add: log_end_append align4_mod, simp add: log_end_def)

lemma log_end_take:
  "k < length rs \<Longrightarrow> log_end c (take k rs) + 8 + length (rc_data (rs ! k)) \<le> log_end c (take (Suc k) rs)"
  using align4_ge by (simp add: take_Suc_conv_app_nth log_end_append)

lemma log_pos_step:
  "k < length rs \<Longrightarrow> log_pos c rs k + 8 + length (rc_data (rs ! k)) \<le> log_pos c rs (Suc k)"
  unfolding log_pos_def by (rule log_end_take)

lemma log_pos_mono: "j \<le> k \<Longrightarrow> k \<le> length rs \<Longrightarrow> log_pos c rs j \<le> log_pos c rs k"
proof (induction k)
  case (Suc k)
  show ?case
  proof (cases "j = Suc k")
    case False
    then show ?thesis
      using Suc log_pos_step [of k rs c] by simp
  qed simp
qed simp

lemma log_pos_0 [simp]: "log_pos c rs 0 = c"
  by (simp add: log_pos_def log_end_def)

lemma log_pos_append: "k \<le> length rs \<Longrightarrow> log_pos c (rs @ [r]) k = log_pos c rs k"
  by (simp add: log_pos_def)

lemma log_pos_length [simp]: "log_pos c rs (length rs) = log_end c rs"
  by (simp add: log_pos_def)

lemma log_end_valid_update:
  "log_end c (rs[k := (rs ! k)\<lparr>rc_valid := b\<rparr>]) = log_end c rs"
proof (induction rs arbitrary: c k)
  case (Cons r rs)
  then show ?case
    by (cases k) (simp_all add: log_end_def)
qed simp

lemma log_pos_valid_update: "log_pos c (rs[k := (rs ! k)\<lparr>rc_valid := b\<rparr>]) j = log_pos c rs j"
proof (cases "k < j")
  case True
  then show ?thesis
    using log_end_valid_update [of c "take j rs" k] by (simp add: log_pos_def take_update_swap)
qed (simp add: log_pos_def)

text \<open>Programming inside the flash, seen from a sector.\<close>

lemma at_write_other:
  assumes "at (sv m B) i bs" "i + length bs \<le> k \<or> k + length cs \<le> i"
    and "i + length bs \<le> 2 ^ 24" "k + length cs \<le> 2 ^ 24"
  shows "at (sv (and_bytes m (B + of_nat k) cs) B) i bs"
  using at_put_other [OF assms(1,2)] at_cong [of "2 ^ 24" "sv (and_bytes m (B + of_nat k) cs) B" "put (sv m B) k cs"]
    sv_and_bytes [OF assms(4)] assms(3) by blast

lemma at_write_blank:
  assumes "blank (sv m B) k n" "k + length cs \<le> n" "n \<le> 2 ^ 24"
  shows "at (sv (and_bytes m (B + of_nat k) cs) B) k cs"
  using at_put_blank [OF assms(1,2)] at_cong [of "2 ^ 24" "sv (and_bytes m (B + of_nat k) cs) B" "put (sv m B) k cs"]
    sv_and_bytes [of k cs] assms(2,3) by (meson order_trans)

lemma blank_write_other:
  assumes "blank (sv m B) i n" "n \<le> k \<or> k + length cs \<le> i" "n \<le> 2 ^ 24" "k + length cs \<le> 2 ^ 24"
  shows "blank (sv (and_bytes m (B + of_nat k) cs) B) i n"
  using blank_put_other [OF assms(1,2)] blank_cong [of n "sv (and_bytes m (B + of_nat k) cs) B" "put (sv m B) k cs"]
    sv_and_bytes [OF assms(4)] assms(3) by (meson order_less_le_trans)

lemma blank_sub: "blank v i n \<Longrightarrow> i \<le> i' \<Longrightarrow> n' \<le> n \<Longrightarrow> blank v i' n'"
  by (auto simp: blank_def)

text \<open>Overwriting one byte that is already programmed.\<close>

lemma at_write_byte:
  assumes "at (sv m B) i (bs @ [x])" "k = i + length bs" "k + 1 \<le> 2 ^ 24"
  shows "at (sv (and_bytes m (B + of_nat k) [y]) B) i (bs @ [x AND y])"
proof -
  have "at (sv (and_bytes m (B + of_nat k) [y]) B) i bs"
    by (rule at_write_other) (use assms in \<open>auto simp: at_append\<close>)
  moreover have "sv (and_bytes m (B + of_nat k) [y]) B k = x AND y"
    using sv_and_bytes [of k "[y]" k m B] assms by (simp add: at_append put_def at_def)
  ultimately show ?thesis
    using assms(2) by (simp only: at_append at_single)
qed

lemma length_rec_bytes [simp]: "length (rec_bytes r) = 8 + length (rc_data r)"
  by (simp add: rec_bytes_def)

text \<open>
  A write to the index behind the entries of the log, or to the space behind its items, keeps the
  records, and so does a write to the header.
\<close>

lemma records_at_write:
  assumes "records_at m i sect rs" "length rs \<le> idx_num i"
    and "4 + 8 * length rs \<le> k \<and> k + length cs \<le> info_size i
         \<or> log_end (info_size i) rs \<le> k \<and> k + length cs \<le> sect_size i
         \<or> k + length cs \<le> 4"
  shows "records_at (and_bytes m (base i sect + of_nat k) cs) i sect rs"
  unfolding records_at_def Let_def
proof (intro allI impI)
  fix j
  assume j: "j < length rs"
  let ?p = "log_pos (info_size i) rs"
  have old: "at (sv m (base i sect)) (4 + 8 * j) (idx_bytes (rec_entry (base i sect) (?p j) (rs ! j)))"
    "at (sv m (base i sect)) (?p j) (rec_bytes (rs ! j))" "?p j + 8 + length (rc_data (rs ! j)) \<le> sect_size i"
    using assms(1) j by (auto simp: records_at_def Let_def)
  have pos: "info_size i \<le> ?p j" "?p j + 8 + length (rc_data (rs ! j)) \<le> log_end (info_size i) rs"
    using log_pos_mono [of 0 j rs "info_size i"] log_pos_mono [of "Suc j" "length rs" rs "info_size i"]
      log_pos_step [OF j, of "info_size i"] j by simp_all
  have sz: "4 + 8 * j + 8 \<le> 4 + 8 * length rs" "4 + 8 * length rs \<le> info_size i" "sect_size i \<le> 16384"
    "info_size i \<le> sect_size i"
    using j sizes [of i] assms(2) by linarith+
  have "at (sv (and_bytes m (base i sect + of_nat k) cs) (base i sect)) (4 + 8 * j)
          (idx_bytes (rec_entry (base i sect) (?p j) (rs ! j)))"
    by (rule at_write_other [OF old(1)]) (use assms(3) pos sz old(3) in auto)
  moreover have "at (sv (and_bytes m (base i sect + of_nat k) cs) (base i sect)) (?p j) (rec_bytes (rs ! j))"
    by (rule at_write_other [OF old(2)]) (use assms(3) pos sz old(3) in auto)
  ultimately show "at (sv (and_bytes m (base i sect + of_nat k) cs) (base i sect)) (4 + 8 * j)
          (idx_bytes (rec_entry (base i sect) (?p j) (rs ! j))) \<and>
        at (sv (and_bytes m (base i sect + of_nat k) cs) (base i sect)) (?p j) (rec_bytes (rs ! j)) \<and>
        ?p j + 8 + length (rc_data (rs ! j)) \<le> sect_size i"
    using old(3) by blast
qed

text \<open>The memory after the four writes of an item: entry, payload, item header, entry state.\<close>

definition item_mem :: "(addr \<Rightarrow> u8) \<Rightarrow> addr \<Rightarrow> nat \<Rightarrow> nat \<Rightarrow> nv_rec \<Rightarrow> addr \<Rightarrow> u8" where
  "item_mem m B w p r =
     (let m1 = and_bytes m (B + of_nat (4 + 8 * w))
                 (idx_bytes ((rec_entry B p r)\<lparr>usedState := ITEM_FIELD_OPERATION\<rparr>));
          m2 = and_bytes m1 (B + of_nat (p + 8)) (rc_data r);
          m3 = and_bytes m2 (B + of_nat p) (take 8 (rec_bytes r))
      in and_bytes m3 (B + of_nat (4 + 8 * w + 7)) [ITEM_FIELD_VALID])"

lemma rec_bytes_split: "rec_bytes r = take 8 (rec_bytes r) @ rc_data r"
  by (simp add: rec_bytes_def)

lemma idx_bytes_state: "idx_bytes x = take 7 (idx_bytes x) @ [usedState x]"
  by (simp add: idx_bytes_def le32_def le16_def)

lemma idx_bytes_upd: "take 7 (idx_bytes (x\<lparr>usedState := u\<rparr>)) = take 7 (idx_bytes x)"
  by (simp add: idx_bytes_def le32_def le16_def)

lemma sector_log_append:
  assumes log: "sector_log m i sect rs" and room: "length rs < idx_num i"
    and fits: "log_end (info_size i) rs + 8 + length (rc_data r) \<le> sect_size i" and valid: "rc_valid r"
  shows "sector_log (item_mem m (base i sect) (length rs) (log_end (info_size i) rs) r) i sect (rs @ [r])"
proof -
  let ?B = "base i sect" and ?w = "length rs" and ?p = "log_end (info_size i) rs"
  let ?e = "rec_entry ?B ?p r"
  define m1 where "m1 = and_bytes m (?B + of_nat (4 + 8 * ?w)) (idx_bytes (?e\<lparr>usedState := ITEM_FIELD_OPERATION\<rparr>))"
  define m2 where "m2 = and_bytes m1 (?B + of_nat (?p + 8)) (rc_data r)"
  define m3 where "m3 = and_bytes m2 (?B + of_nat ?p) (take 8 (rec_bytes r))"
  define m4 where "m4 = and_bytes m3 (?B + of_nat (4 + 8 * ?w + 7)) [ITEM_FIELD_VALID]"
  have m4: "item_mem m ?B ?w ?p r = m4"
    by (simp only: item_mem_def Let_def m4_def m3_def m2_def m1_def)
  have recs: "records_at m i sect rs" and free: "blank (sv m ?B) (4 + 8 * ?w) (4 + 8 * idx_num i)"
    "blank (sv m ?B) ?p (sect_size i)"
    using log by (auto simp: sector_log_def)
  have sz: "4 + 8 * ?w + 8 \<le> 4 + 8 * idx_num i" "4 + 8 * idx_num i \<le> info_size i" "info_size i \<le> ?p"
    "sect_size i \<le> 16384" "?w \<le> idx_num i" "idx_num i \<le> 127"
    using room sizes [of i] log_pos_mono [of 0 ?w rs "info_size i"] by simp_all
  have l8: "length (take 8 (rec_bytes r)) = 8"
    by simp
  have r4: "records_at m4 i sect rs"
    unfolding m4_def m3_def m2_def m1_def
    by (intro records_at_write recs) (use sz fits in auto)
  have idx1: "at (sv m1 ?B) (4 + 8 * ?w) (take 7 (idx_bytes ?e) @ [ITEM_FIELD_OPERATION])"
    using at_write_blank [OF free(1), of "idx_bytes (?e\<lparr>usedState := ITEM_FIELD_OPERATION\<rparr>)"]
      idx_bytes_state [of "?e\<lparr>usedState := ITEM_FIELD_OPERATION\<rparr>"] sz
    by (simp add: m1_def idx_bytes_upd)
  have idx3: "at (sv m3 ?B) (4 + 8 * ?w) (take 7 (idx_bytes ?e) @ [ITEM_FIELD_OPERATION])"
    unfolding m3_def m2_def by (intro at_write_other idx1) (use sz fits in auto)
  have idx4: "at (sv m4 ?B) (4 + 8 * ?w) (idx_bytes ?e)"
    using at_write_byte [OF idx3, of "4 + 8 * ?w + 7" ITEM_FIELD_VALID] sz valid
      idx_bytes_state [of ?e]
    by (simp add: m4_def ITEM_FIELD_OPERATION_def ITEM_FIELD_VALID_def rec_entry_def)
  have free1: "blank (sv m1 ?B) ?p (sect_size i)"
    unfolding m1_def by (rule blank_write_other [OF free(2)]) (use sz in auto)
  have "at (sv m2 ?B) (?p + 8) (rc_data r)"
    unfolding m2_def by (rule at_write_blank [OF blank_sub [OF free1, of "?p + 8" "sect_size i"]]) (use sz fits in auto)
  then have pay3: "at (sv m3 ?B) (?p + 8) (rc_data r)"
    unfolding m3_def by (rule at_write_other) (use sz fits in auto)
  have "blank (sv m2 ?B) ?p (?p + 8)"
    unfolding m2_def by (rule blank_write_other [OF blank_sub [OF free1, of ?p "?p + 8"]]) (use sz fits in auto)
  then have "at (sv m3 ?B) ?p (take 8 (rec_bytes r))"
    unfolding m3_def by (rule at_write_blank) (use sz fits in auto)
  then have "at (sv m3 ?B) ?p (rec_bytes r)"
    using pay3 l8 by (subst rec_bytes_split) (simp only: at_append)
  then have rec4: "at (sv m4 ?B) ?p (rec_bytes r)"
    unfolding m4_def by (rule at_write_other) (use sz fits in auto)
  have i1: "blank (sv m1 ?B) (4 + 8 * (?w + 1)) (4 + 8 * idx_num i)"
    unfolding m1_def
    by (rule blank_write_other [OF blank_sub [OF free(1), of "4 + 8 * (?w + 1)" "4 + 8 * idx_num i"]]) (use sz in auto)
  have i4: "blank (sv m4 ?B) (4 + 8 * (?w + 1)) (4 + 8 * idx_num i)"
    unfolding m4_def m3_def m2_def by (intro blank_write_other i1) (use sz fits in auto)
  let ?q = "align4 (?p + 8 + length (rc_data r))"
  have q: "?p + 8 + length (rc_data r) \<le> ?q"
    by (rule align4_ge)
  have b4: "blank (sv m4 ?B) ?q (sect_size i)"
    unfolding m4_def m3_def m2_def
    by (intro blank_write_other blank_sub [OF free1, of ?q "sect_size i"]) (use sz fits q in auto)
  have "records_at m4 i sect (rs @ [r])"
    unfolding records_at_def Let_def
  proof (intro allI impI)
    fix k
    assume "k < length (rs @ [r])"
    then consider "k < ?w" | "k = ?w"
      by force
    then show "at (sv m4 ?B) (4 + 8 * k) (idx_bytes (rec_entry ?B (log_pos (info_size i) (rs @ [r]) k) ((rs @ [r]) ! k)))
       \<and> at (sv m4 ?B) (log_pos (info_size i) (rs @ [r]) k) (rec_bytes ((rs @ [r]) ! k))
       \<and> log_pos (info_size i) (rs @ [r]) k + 8 + length (rc_data ((rs @ [r]) ! k)) \<le> sect_size i"
      by cases (use r4 idx4 rec4 fits in \<open>simp_all add: records_at_def Let_def log_pos_append nth_append\<close>)
  qed
  then show ?thesis
    using i4 b4 room by (simp add: m4 sector_log_def log_end_append)
qed

lemma sector_log_header:
  assumes "sector_log m i sect rs" "blank (sv m (base i sect)) 0 4"
  shows "sector_log (and_bytes m (base i sect) (sect_bytes x)) i sect rs"
    and "at (sv (and_bytes m (base i sect) (sect_bytes x)) (base i sect)) 0 (sect_bytes x)"
proof -
  have sz: "sect_size i \<le> 16384" "4 + 8 * idx_num i \<le> info_size i" "info_size i \<le> log_end (info_size i) rs"
    "info_size i \<le> sect_size i"
    using sizes [of i] log_pos_mono [of 0 "length rs" rs "info_size i"] by simp_all
  have w: "and_bytes m (base i sect) (sect_bytes x) = and_bytes m (base i sect + of_nat 0) (sect_bytes x)"
    by simp
  have "records_at (and_bytes m (base i sect) (sect_bytes x)) i sect rs"
    unfolding w by (rule records_at_write) (use assms(1) in \<open>simp_all add: sector_log_def\<close>)
  moreover have "blank (sv (and_bytes m (base i sect) (sect_bytes x)) (base i sect)) (4 + 8 * length rs) (4 + 8 * idx_num i)"
    unfolding w by (rule blank_write_other) (use assms(1) sz in \<open>auto simp: sector_log_def\<close>)
  moreover have "blank (sv (and_bytes m (base i sect) (sect_bytes x)) (base i sect)) (log_end (info_size i) rs) (sect_size i)"
    unfolding w by (rule blank_write_other) (use assms(1) sz in \<open>auto simp: sector_log_def\<close>)
  ultimately show "sector_log (and_bytes m (base i sect) (sect_bytes x)) i sect rs"
    using assms(1) by (simp add: sector_log_def)
  show "at (sv (and_bytes m (base i sect) (sect_bytes x)) (base i sect)) 0 (sect_bytes x)"
    unfolding w by (rule at_write_blank [OF assms(2)]) simp_all
qed

definition invalidate :: "nv_rec list \<Rightarrow> nat \<Rightarrow> nv_rec list" where
  "invalidate rs k = rs[k := (rs ! k)\<lparr>rc_valid := False\<rparr>]"

lemma invalidate_simps [simp]:
  "length (invalidate rs k) = length rs" "log_pos c (invalidate rs k) j = log_pos c rs j"
  "log_end c (invalidate rs k) = log_end c rs"
  by (simp_all add: invalidate_def log_pos_valid_update log_end_valid_update)

lemma sector_log_invalidate:
  assumes log: "sector_log m i sect rs" and k: "k < length rs" and valid: "rc_valid (rs ! k)"
  shows "sector_log (and_bytes m (base i sect + of_nat (4 + 8 * k + 7)) [ITEM_FIELD_INVALID]) i sect (invalidate rs k)"
    (is "sector_log ?m i sect _")
proof -
  let ?B = "base i sect" and ?p = "log_pos (info_size i) rs"
  have recs: "records_at m i sect rs" and len: "length rs \<le> idx_num i"
    and free: "blank (sv m ?B) (4 + 8 * length rs) (4 + 8 * idx_num i)"
    "blank (sv m ?B) (log_end (info_size i) rs) (sect_size i)"
    using log by (auto simp: sector_log_def)
  have sz: "4 + 8 * k + 8 \<le> 4 + 8 * length rs" "4 + 8 * idx_num i \<le> info_size i" "sect_size i \<le> 16384"
    "info_size i \<le> log_end (info_size i) rs" "info_size i \<le> sect_size i" "idx_num i \<le> 127"
    using k sizes [of i] log_pos_mono [of 0 "length rs" rs "info_size i"] by simp_all
  have "records_at ?m i sect (invalidate rs k)"
    unfolding records_at_def Let_def invalidate_simps
  proof (intro allI impI)
    fix j
    assume j: "j < length rs"
    have old: "at (sv m ?B) (4 + 8 * j) (idx_bytes (rec_entry ?B (?p j) (rs ! j)))"
      "at (sv m ?B) (?p j) (rec_bytes (rs ! j))" "?p j + 8 + length (rc_data (rs ! j)) \<le> sect_size i"
      using recs j by (auto simp: records_at_def Let_def)
    have pos: "info_size i \<le> ?p j"
      using log_pos_mono [of 0 j rs "info_size i"] j by simp
    have bytes: "rec_bytes (invalidate rs k ! j) = rec_bytes (rs ! j)" "rc_data (invalidate rs k ! j) = rc_data (rs ! j)"
      using j by (cases "j = k"; simp add: invalidate_def rec_bytes_def)+
    have idx: "at (sv ?m ?B) (4 + 8 * j) (idx_bytes (rec_entry ?B (?p j) (invalidate rs k ! j)))"
    proof (cases "j = k")
      case True
      let ?e = "rec_entry ?B (?p k) (rs ! k)"
      have e: "rec_entry ?B (?p k) (invalidate rs k ! k) = ?e\<lparr>usedState := ITEM_FIELD_INVALID\<rparr>"
        using k by (simp add: rec_entry_def invalidate_def)
      have "at (sv m ?B) (4 + 8 * k) (take 7 (idx_bytes ?e) @ [ITEM_FIELD_VALID])"
        using old(1) True valid idx_bytes_state [of ?e] by (simp add: rec_entry_def)
      from at_write_byte [OF this, of "4 + 8 * k + 7" ITEM_FIELD_INVALID]
      have "at (sv ?m ?B) (4 + 8 * k) (take 7 (idx_bytes ?e) @ [ITEM_FIELD_INVALID])"
        using sz len by (simp add: ITEM_FIELD_VALID_def ITEM_FIELD_INVALID_def)
      then show ?thesis
        unfolding True e using idx_bytes_state [of "?e\<lparr>usedState := ITEM_FIELD_INVALID\<rparr>"]
        by (simp add: idx_bytes_upd)
    next
      case False
      have "invalidate rs k ! j = rs ! j"
        using False by (simp add: invalidate_def)
      moreover have "at (sv ?m ?B) (4 + 8 * j) (idx_bytes (rec_entry ?B (?p j) (rs ! j)))"
      proof (rule at_write_other [OF old(1)])
        show "4 + 8 * j + length (idx_bytes (rec_entry ?B (?p j) (rs ! j))) \<le> 4 + 8 * k + 7
              \<or> 4 + 8 * k + 7 + length [ITEM_FIELD_INVALID] \<le> 4 + 8 * j"
          using False by (cases "j < k") simp_all
      qed (use sz len j in auto)
      ultimately show ?thesis
        by simp
    qed
    have "at (sv ?m ?B) (?p j) (rec_bytes (rs ! j))"
      by (rule at_write_other [OF old(2)]) (use sz len pos old(3) in auto)
    then show "at (sv ?m ?B) (4 + 8 * j) (idx_bytes (rec_entry ?B (?p j) (invalidate rs k ! j))) \<and>
          at (sv ?m ?B) (?p j) (rec_bytes (invalidate rs k ! j)) \<and>
          ?p j + 8 + length (rc_data (invalidate rs k ! j)) \<le> sect_size i"
      using idx old(3) by (simp add: bytes)
  qed
  moreover have "blank (sv ?m ?B) (4 + 8 * length rs) (4 + 8 * idx_num i)"
    by (rule blank_write_other [OF free(1)]) (use sz len in auto)
  moreover have "blank (sv ?m ?B) (log_end (info_size i) rs) (sect_size i)"
    by (rule blank_write_other [OF free(2)]) (use sz len in auto)
  ultimately show ?thesis
    using len by (simp add: sector_log_def)
qed

section \<open>Modules\<close>

definition hdr_ok :: "(addr \<Rightarrow> u8) \<Rightarrow> u8 \<Rightarrow> u8 \<Rightarrow> bool" where
  "hdr_ok m i sect \<longleftrightarrow>
     (let x = sect_of (fbytes m (base i sect) 4) in usedFlag x = NV_SECTOR_VALID \<and> idName x = i)"

definition sector_sel :: "(addr \<Rightarrow> u8) \<Rightarrow> u8 \<Rightarrow> nv_sect_info_t option" where
  "sector_sel m i =
     (if hdr_ok m i 0 then Some (sect_of (fbytes m (base i 0) 4))
      else if hdr_ok m i 1 then Some (sect_of (fbytes m (base i 1) 4)) else None)"

text \<open>
  \<open>nv_module m i sect rs\<close>: sector \<open>sect\<close> is the active one of module \<open>i\<close> and holds the log \<open>rs\<close>; for an
  empty log no sector has a header yet.
\<close>

definition nv_module :: "(addr \<Rightarrow> u8) \<Rightarrow> u8 \<Rightarrow> u8 \<Rightarrow> nv_rec list \<Rightarrow> bool" where
  "nv_module m i sect rs \<longleftrightarrow>
     i < 4 \<and> sect < 2 \<and> sector_log m i sect rs
     \<and> (if rs = [] then sector_sel m i = None \<and> sect = 0 \<and> blank (sv m (base i sect)) 0 4
        else sector_sel m i = Some \<lparr>usedFlag = NV_SECTOR_VALID, idName = i, opSect = sect\<rparr>)"

definition nv_find :: "nv_rec list \<Rightarrow> u8 \<Rightarrow> nat \<Rightarrow> nat option" where
  "nv_find rs item n =
     last_idx (\<lambda>k. rc_valid (rs ! k) \<and> rc_item (rs ! k) = item \<and> length (rc_data (rs ! k)) = n) (length rs)"

definition nv_lookup :: "nv_rec list \<Rightarrow> u8 \<Rightarrow> nat \<Rightarrow> u8 list option" where
  "nv_lookup rs item n = map_option (\<lambda>k. rc_data (rs ! k)) (nv_find rs item n)"

definition nv_append :: "nv_rec list \<Rightarrow> u8 \<Rightarrow> u8 list \<Rightarrow> nv_rec list" where
  "nv_append rs item d =
     (case nv_find rs item (length d) of None \<Rightarrow> rs | Some k \<Rightarrow> invalidate rs k)
     @ [\<lparr>rc_item = item, rc_data = d, rc_valid = True\<rparr>]"

lemma last_idx_cong:
  "(\<And>k. k < n \<Longrightarrow> Q k = R k) \<Longrightarrow> last_idx Q n = last_idx R n"
  by (induction n) auto

lemma last_idx_Some: "last_idx Q n = Some k \<Longrightarrow> k < n \<and> Q k"
  by (induction n) (auto split: if_splits)

lemma last_idx_shrink:
  "n \<le> N \<Longrightarrow> (\<And>k. n \<le> k \<Longrightarrow> k < N \<Longrightarrow> \<not> Q k) \<Longrightarrow> last_idx Q N = last_idx Q n"
  by (induction N) (auto simp: le_Suc_eq)

lemma fbytes_blank:
  assumes "blank (sv m B) k (k + n)"
  shows "fbytes m (B + of_nat k) n = replicate n 0xFF"
proof (rule nth_equalityI)
  fix j
  assume "j < length (fbytes m (B + of_nat k) n)"
  moreover have "m (B + of_nat k + of_nat j) = sv m B (k + j)"
    by (simp add: sv_def add.assoc)
  ultimately show "fbytes m (B + of_nat k) n ! j = replicate n 0xFF ! j"
    using assms by (simp add: blank_def)
qed simp

lemma idx_blank: "idx_of (replicate 8 0xFF) = \<lparr>offset = 0xFFFFFFFF, size = 0xFFFF, itemId = 0xFF, usedState = 0xFF\<rparr>"
proof -
  have "replicate 8 x = [x, x, x, x, x, x, x, x]" for x :: u8
    by (simp add: numeral_eq_Suc)
  then show ?thesis
    by (simp add: idx_of_def of_le16_def of_le32_def)
qed

lemma idx_match_blank: "\<not> idx_match item len (idx_of (replicate 8 0xFF))"
  by (simp add: idx_blank idx_match_def ITEM_FIELD_IDLE_def ITEM_FIELD_VALID_def)

text \<open>The entries of a log.\<close>

lemma log_entry:
  assumes "sector_log m i sect rs" "k < length rs"
  shows "idx_of (fbytes m (base i sect + of_nat (4 + 8 * k)) 8) =
         rec_entry (base i sect) (log_pos (info_size i) rs k) (rs ! k)"
  using fbytes_at [of m "base i sect" "4 + 8 * k" "idx_bytes (rec_entry (base i sect) (log_pos (info_size i) rs k) (rs ! k))"]
    assms by (simp add: sector_log_def records_at_def Let_def)

lemma log_no_entry:
  assumes "sector_log m i sect rs" "length rs \<le> k" "k < idx_num i"
  shows "fbytes m (base i sect + of_nat (4 + 8 * k)) 8 = replicate 8 0xFF"
  by (rule fbytes_blank, rule blank_sub [of _ "4 + 8 * length rs" "4 + 8 * idx_num i"])
     (use assms in \<open>auto simp: sector_log_def\<close>)

lemma log_scan:
  assumes "sector_log m i sect rs"
  shows "last_idx (\<lambda>k. idx_match item len (idx_of (fbytes m (base i sect + of_nat (4 + 8 * k)) 8))) (idx_num i) =
         last_idx (\<lambda>k. idx_match item len (rec_entry (base i sect) (log_pos (info_size i) rs k) (rs ! k))) (length rs)"
proof -
  have "last_idx (\<lambda>k. idx_match item len (idx_of (fbytes m (base i sect + of_nat (4 + 8 * k)) 8))) (idx_num i) =
        last_idx (\<lambda>k. idx_match item len (idx_of (fbytes m (base i sect + of_nat (4 + 8 * k)) 8))) (length rs)"
  proof (rule last_idx_shrink)
    show "length rs \<le> idx_num i"
      using assms by (simp add: sector_log_def)
    fix k
    assume k: "length rs \<le> k" "k < idx_num i"
    show "\<not> idx_match item len (idx_of (fbytes m (base i sect + of_nat (4 + 8 * k)) 8))"
      unfolding log_no_entry [OF assms k] by (rule idx_match_blank)
  qed
  also have "\<dots> = last_idx (\<lambda>k. idx_match item len (rec_entry (base i sect) (log_pos (info_size i) rs k) (rs ! k))) (length rs)"
    by (rule last_idx_cong) (simp only: log_entry [OF assms])
  finally show ?thesis .
qed

lemma idx_match_item:
  assumes "item \<noteq> 0xFF" "8 + length (rc_data r) < 2 ^ 16" "unat len + 8 < 2 ^ 16"
  shows "idx_match item len (rec_entry B p r) \<longleftrightarrow> rc_valid r \<and> rc_item r = item \<and> length (rc_data r) = unat len"
proof -
  have "ucast (ITEM_TOTAL_LEN len) = (of_nat (unat len + 8) :: u16)"
    by (simp add: ITEM_TOTAL_LEN_def word_unat_eq_iff unat_of_nat unsigned_ucast_eq take_bit_eq_mod unat_word_ariths mod_mod_cancel)
  moreover have "(of_nat (8 + length (rc_data r)) :: u16) = of_nat (unat len + 8) \<longleftrightarrow> length (rc_data r) = unat len"
    using assms(2,3) by (auto simp: word_unat_eq_iff unat_of_nat simp del: of_nat_add)
  ultimately show ?thesis
    using assms(1)
    by (auto simp: idx_match_def rec_entry_def ITEM_FIELD_IDLE_def ITEM_FIELD_VALID_def ITEM_FIELD_INVALID_def
             simp del: of_nat_add)
qed

lemma idx_match_used: "idx_match ITEM_FIELD_IDLE len (rec_entry B p r)"
  by (simp add: idx_match_def rec_entry_def ITEM_FIELD_IDLE_def ITEM_FIELD_VALID_def ITEM_FIELD_INVALID_def)

lemma log_content:
  assumes "sector_log m i sect rs" "k < length rs"
  defines "p \<equiv> log_pos (info_size i) rs k"
  shows "hdr_of (fbytes m (base i sect + of_nat p) 8) =
           \<lparr>hdr_checkSum = sum_list (map ucast (rc_data (rs ! k))), hdr_size = of_nat (length (rc_data (rs ! k))),
            hdr_itemId = rc_item (rs ! k), hdr_used = ITEM_FIELD_VALID\<rparr>"
    and "fbytes m (base i sect + of_nat p + 8) (length (rc_data (rs ! k))) = rc_data (rs ! k)"
    and "p + 8 + length (rc_data (rs ! k)) \<le> sect_size i"
proof -
  have "at (sv m (base i sect)) p (rec_bytes (rs ! k))"
    and "p + 8 + length (rc_data (rs ! k)) \<le> sect_size i"
    using assms by (auto simp: sector_log_def records_at_def Let_def)
  then have "at (sv m (base i sect)) p (hdr_bytes \<lparr>hdr_checkSum = sum_list (map ucast (rc_data (rs ! k))),
            hdr_size = of_nat (length (rc_data (rs ! k))), hdr_itemId = rc_item (rs ! k), hdr_used = ITEM_FIELD_VALID\<rparr>)"
    and d: "at (sv m (base i sect)) (p + 8) (rc_data (rs ! k))"
    by (simp_all add: rec_bytes_def at_append)
  from fbytes_at [OF this(1)] show "hdr_of (fbytes m (base i sect + of_nat p) 8) =
           \<lparr>hdr_checkSum = sum_list (map ucast (rc_data (rs ! k))), hdr_size = of_nat (length (rc_data (rs ! k))),
            hdr_itemId = rc_item (rs ! k), hdr_used = ITEM_FIELD_VALID\<rparr>"
    by simp
  from fbytes_at [OF d] show "fbytes m (base i sect + of_nat p + 8) (length (rc_data (rs ! k))) = rc_data (rs ! k)"
    by (simp add: add.assoc)
  show "p + 8 + length (rc_data (rs ! k)) \<le> sect_size i"
    by fact
qed

lemma unat_ucast_of_nat: "k < 2 ^ 16 \<Longrightarrow> unat (ucast (of_nat k :: u16) :: u32) = k"
  by (simp add: unsigned_ucast_eq unat_of_nat take_bit_eq_mod)

lemma entry_addr:
  assumes "i < 4" "sect < 2" "k \<le> 127"
  shows "MODULE_IDX_START (ucast i) sect + ucast (of_nat k :: u16) * 8 = base i sect + of_nat (4 + 8 * k)"
proof -
  have "(ucast (of_nat k :: u16) :: u32) = of_nat k"
    using assms(3) by (simp add: word_unat_eq_iff unsigned_ucast_eq unat_of_nat take_bit_eq_mod)
  then show ?thesis
    using geometry(4) [OF assms(1,2)] by (simp add: algebra_simps)
qed

lemma word_align4:
  fixes B :: addr
  assumes "unat B mod 4 = 0" "unat B + q < 2 ^ 24"
  shows "(B + of_nat q + 3) AND NOT 3 = B + of_nat (align4 q)"
proof -
  let ?y = "B + of_nat q + 3"
  have uy: "unat ?y = unat B + (q + 3)"
    using unat_sector_offset [of B "q + 3"] assms(2) by (simp add: add.assoc)
  have "?y AND NOT 3 = ?y - take_bit 2 ?y"
  proof -
    have "?y - take_bit 2 ?y = ?y AND NOT (take_bit 2 ?y)"
      by (rule disjunctive_diff_eq_and_not) (rule bit_word_eqI, auto simp: bit_simps)
    also have "\<dots> = ?y AND NOT (mask 2)"
      by (rule bit_word_eqI) (auto simp: bit_simps)
    finally show ?thesis
      by (simp add: mask_eq_exp_minus_1)
  qed
  moreover have "take_bit 2 ?y \<le> ?y"
    by (simp add: word_le_nat_alt unsigned_take_bit_eq take_bit_eq_mod unat_mod)
  ultimately have "unat (?y AND NOT 3) = unat ?y - unat ?y mod 4"
    by (simp add: unat_sub_no_wrap take_bit_eq_mod unat_mod)
  also have "\<dots> = unat B + align4 q"
  proof -
    have "(unat B + (q + 3)) mod 4 = (q + 3) mod 4"
      using assms(1) by (metis mod_add_left_eq add_0)
    then show ?thesis
      unfolding uy align4_def using div_mult_mod_eq [of "q + 3" 4] by linarith
  qed
  also have "\<dots> = unat (B + of_nat (align4 q))"
  proof -
    have "align4 q \<le> q + 3"
      unfolding align4_def using div_mult_mod_eq [of "q + 3" 4] by linarith
    then show ?thesis
      using unat_sector_offset [of B "align4 q"] assms(2) by simp
  qed
  finally show ?thesis
    by (simp add: word_unat_eq_iff)
qed

context nor_flash
begin

lemma sector_read_eq:
  assumes "i < 4"
  shows "nv_sector_read D (ucast i) MODULE_SECTOR_NUM s =
         ((if sector_sel (fmem (chip s)) i = None then NV_ITEM_NOT_FOUND else NV_SUCC, sector_sel (fmem (chip s)) i), s)"
proof -
  have b: "MODULES_START_ADDR (ucast i) = base i 0" "base i 0 + NV_SECTOR_SIZE (ucast i) = base i 1"
    by (simp_all add: MODULE_SECT_START_def)
  have u: "unat (base i 0) + 4 \<le> 2 ^ 24" "unat (base i 1) + 4 \<le> 2 ^ 24"
    using geometry(1) [OF assms, of 0] geometry(1) [OF assms, of 1] sizes(3) [of i] by simp_all
  have idn: "(ucast x :: u16) = ucast i \<longleftrightarrow> x = i" for x :: u8
    by (metis ucast_u8_u16_inj)
  show ?thesis
    using b by (simp add: nv_sector_read_def MODULE_SECTOR_NUM_def numeral_2_eq_2 drv_read [OF u(1)] drv_read [OF u(2)]
        Let_def sector_sel_def hdr_ok_def idn)
qed

lemma index_read_eq:
  assumes "i < 4" "sect < 2"
  shows "nv_index_read D (ucast i) item len sect (MODULE_IDX_NUM (ucast i)) s =
         (let r = map_option of_nat (last_idx (\<lambda>k. idx_match item len
                    (idx_of (fbytes (fmem (chip s)) (base i sect + of_nat (4 + 8 * k)) 8))) (idx_num i))
          in ((if r = None then NV_ITEM_NOT_FOUND else NV_SUCC, r), s))"
proof -
  note g = geometry [OF assms]
  have n: "unat (base i sect + of_nat 4) + 8 * idx_num i \<le> 2 ^ 24"
    using g(1) sizes [of i] unat_sector_offset [of "base i sect" 4] by simp
  have a: "MODULE_IDX_START (ucast i) sect + MODULE_IDX_NUM (ucast i) * 8 = base i sect + of_nat 4 + of_nat (8 * idx_num i)"
    using g(4,7) by (simp add: algebra_simps)
  have u: "ucast (MODULE_IDX_NUM (ucast i)) = (of_nat (idx_num i) :: u16)"
    unfolding g(7) by (simp add: idx_num_def)
  show ?thesis
    using index_loop [OF n, of "idx_match item len" s]
    by (simp only: nv_index_read_def Let_def ucast_8_16_32 a u g(6) prod.case add.assoc of_nat_add [symmetric])
qed

lemma find_index:
  assumes "sector_log (fmem (chip s)) i sect rs" "i < 4" "sect < 2" "item \<noteq> 0xFF" "unat len + 8 < 2 ^ 16"
  shows "nv_index_read D (ucast i) item len sect (MODULE_IDX_NUM (ucast i)) s =
         (case nv_find rs item (unat len) of
            None \<Rightarrow> ((NV_ITEM_NOT_FOUND, None), s)
          | Some k \<Rightarrow> ((NV_SUCC, Some (of_nat k)), s))"
proof -
  have small: "8 + length (rc_data (rs ! k)) < 2 ^ 16" if "k < length rs" for k
    using log_content(3) [OF assms(1) that] sizes(4) [of i] by simp
  have "last_idx (\<lambda>k. idx_match item len (rec_entry (base i sect) (log_pos (info_size i) rs k) (rs ! k))) (length rs)
             = nv_find rs item (unat len)"
    unfolding nv_find_def by (intro last_idx_cong idx_match_item assms(4,5) small)
  then show ?thesis
    unfolding index_read_eq [OF assms(2,3)] log_scan [OF assms(1)] by (simp add: Let_def split: option.splits)
qed

lemma find_used:
  assumes "sector_log (fmem (chip s)) i sect rs" "i < 4" "sect < 2"
  shows "nv_index_read D (ucast i) ITEM_FIELD_IDLE len sect (MODULE_IDX_NUM (ucast i)) s =
         (if rs = [] then ((NV_ITEM_NOT_FOUND, None), s)
          else ((NV_SUCC, Some (of_nat (length rs - 1))), s))"
proof -
  have "last_idx (\<lambda>k. idx_match ITEM_FIELD_IDLE len (rec_entry (base i sect) (log_pos (info_size i) rs k) (rs ! k))) (length rs)
        = (if rs = [] then None else Some (length rs - 1))"
    by (cases rs) (simp_all add: idx_match_used)
  then show ?thesis
    unfolding index_read_eq [OF assms(2,3)] log_scan [OF assms(1)] by (simp add: Let_def)
qed

lemma read_by_index:
  assumes log: "sector_log (fmem (chip s)) i sect rs" and i: "i < 4" "sect < 2"
    and k: "k < length rs" "rc_valid (rs ! k)" and item: "rc_item (rs ! k) = item" "length (rc_data (rs ! k)) = unat len"
  shows "nv_flashReadByIndex D i item sect (of_nat k) len s = ((NV_SUCC, Some (rc_data (rs ! k))), s)"
proof -
  let ?B = "base i sect" and ?p = "log_pos (info_size i) rs k"
  note g = geometry [OF i] and c = log_content [OF log k(1)]
  have kn: "k < idx_num i" "k \<le> 127"
    using k(1) log sizes(6) [of i] by (auto simp: sector_log_def)
  have r1: "flash_read D (?B + of_nat (4 + 8 * k)) 8 s = (fbytes (fmem (chip s)) (?B + of_nat (4 + 8 * k)) 8, s)"
    by (rule read_at) (use g(1) kn sizes [of i] in linarith)
  have r2: "flash_read D (?B + of_nat ?p) 8 s = (fbytes (fmem (chip s)) (?B + of_nat ?p) 8, s)"
    by (rule read_at) (use g(1) c(3) in linarith)
  have r3: "flash_read D (?B + of_nat ?p + 8) (unat len) s = (fbytes (fmem (chip s)) (?B + of_nat ?p + 8) (unat len), s)"
    using read_at [of ?B "?p + 8" "unat len" s] g(1) c(3) item(2) by (simp add: add.assoc)
  have "rc_data (rs ! k) = fbytes (fmem (chip s)) (?B + of_nat ?p + 8) (unat len)" "of_nat (length (rc_data (rs ! k))) = len"
    using c(2) item(2) by simp_all
  then show ?thesis
    using k(2) item
    by (simp add: nv_flashReadByIndex_def entry_addr [OF i kn(2)] r1 log_entry [OF log k(1)]
        rec_entry_def r2 c(1) r3 Let_def del: of_nat_add)
qed

lemma read_new:
  assumes "nv_module (fmem (chip s)) i sect rs" "item \<noteq> 0xFF" "unat len + 8 < 2 ^ 16"
  shows "nv_flashReadNew D 1 i item len s =
         (case nv_lookup rs item (unat len) of
            None \<Rightarrow> ((NV_ITEM_NOT_FOUND, Out_None), s)
          | Some d \<Rightarrow> ((NV_SUCC, Out_Bytes d), s))"
proof -
  have i: "i < 4" "sect < 2" and log: "sector_log (fmem (chip s)) i sect rs"
    using assms(1) by (auto simp: nv_module_def)
  show ?thesis
  proof (cases "rs = []")
    case True
    then show ?thesis
      using assms(1) sector_read_eq [OF i(1), of s]
      by (simp add: nv_flashReadNew_def nv_module_def nv_lookup_def nv_find_def)
  next
    case False
    then have sel: "sector_sel (fmem (chip s)) i = Some \<lparr>usedFlag = NV_SECTOR_VALID, idName = i, opSect = sect\<rparr>"
      using assms(1) by (simp add: nv_module_def)
    show ?thesis
    proof (cases "nv_find rs item (unat len)")
      case None
      then show ?thesis
        using sector_read_eq [OF i(1), of s] find_index [OF log i assms(2,3)] sel
        by (simp add: nv_flashReadNew_def nv_lookup_def Let_def)
    next
      case (Some k)
      then have k: "k < length rs" "rc_valid (rs ! k)" "rc_item (rs ! k) = item" "length (rc_data (rs ! k)) = unat len"
        using last_idx_Some unfolding nv_find_def by fastforce+
      show ?thesis
        using sector_read_eq [OF i(1), of s] find_index [OF log i assms(2,3)] sel Some read_by_index [OF log i k]
        by (simp add: nv_flashReadNew_def nv_lookup_def Let_def)
    qed
  qed
qed

lemma write_offset:
  assumes log: "sector_log (fmem (chip s)) i sect rs" and i: "i < 4" "sect < 2" and w: "0 < length rs"
  shows "flash_read D (MODULE_IDX_START (ucast i) sect + (ucast (of_nat (length rs) :: u16) - 1) * 8) 8 s =
         (idx_bytes (rec_entry (base i sect) (log_pos (info_size i) rs (length rs - 1)) (rs ! (length rs - 1))), s)"
    and "let x = rec_entry (base i sect) (log_pos (info_size i) rs (length rs - 1)) (rs ! (length rs - 1)) in
         (offset x + ucast (size x) + 3) AND NOT 3 = base i sect + of_nat (log_end (info_size i) rs)"
proof -
  let ?B = "base i sect" and ?w = "length rs - 1"
  note g = geometry [OF i] and c = log_content [OF log, of ?w]
  have wn: "?w < length rs" "length rs \<le> 127"
    using w log sizes(6) [of i] by (auto simp: sector_log_def)
  have "(ucast (of_nat (length rs) :: u16) :: u32) = of_nat (length rs)"
    using wn by (simp add: word_unat_eq_iff unsigned_ucast_eq unat_of_nat take_bit_eq_mod)
  then have a: "MODULE_IDX_START (ucast i) sect + (ucast (of_nat (length rs) :: u16) - 1) * 8 = ?B + of_nat (4 + 8 * ?w)"
    using g(4) w by (cases "length rs") (simp_all add: algebra_simps)
  have "fbytes (fmem (chip s)) (?B + of_nat (4 + 8 * ?w)) 8 =
        idx_bytes (rec_entry ?B (log_pos (info_size i) rs ?w) (rs ! ?w))"
    using fbytes_at [of _ ?B "4 + 8 * ?w" "idx_bytes (rec_entry ?B (log_pos (info_size i) rs ?w) (rs ! ?w))"] log wn(1)
    by (simp add: sector_log_def records_at_def Let_def)
  then show "flash_read D (MODULE_IDX_START (ucast i) sect + (ucast (of_nat (length rs) :: u16) - 1) * 8) 8 s =
         (idx_bytes (rec_entry ?B (log_pos (info_size i) rs ?w) (rs ! ?w)), s)"
    unfolding a using read_at [of ?B "4 + 8 * ?w" 8 s] g(1) wn sizes [of i] log by (simp add: sector_log_def)
  let ?q = "log_pos (info_size i) rs ?w + 8 + length (rc_data (rs ! ?w))"
  have q: "?q \<le> sect_size i"
    using c(3) wn(1) by simp
  have "take (length rs) rs = take ?w rs @ [rs ! ?w]"
    using take_Suc_conv_app_nth [OF wn(1)] w by simp
  then have e: "log_end (info_size i) rs = align4 ?q"
    unfolding log_pos_def by (metis log_end_append take_all order_refl)
  have sz: "(ucast (of_nat (8 + length (rc_data (rs ! ?w))) :: u16) :: u32) = of_nat (8 + length (rc_data (rs ! ?w)))"
    using q sizes(4) [of i] by (simp add: word_unat_eq_iff unsigned_ucast_eq unat_of_nat take_bit_eq_mod del: of_nat_add)
  have "(?B + of_nat ?q + 3) AND NOT 3 = ?B + of_nat (align4 ?q)"
    by (rule word_align4) (use g q in auto)
  then show "let x = rec_entry ?B (log_pos (info_size i) rs ?w) (rs ! ?w) in
         (offset x + ucast (size x) + 3) AND NOT 3 = ?B + of_nat (log_end (info_size i) rs)"
    unfolding e rec_entry_def Let_def nv_info_idx_t.select_convs sz by (simp add: algebra_simps)
qed

lemma write_item_open:
  assumes s: "nv_open prot s" and log: "sector_log (fmem (chip s)) i sect rs" and i: "i < 4" "sect < 2"
    and room: "length rs < idx_num i" and len: "unat len = length d"
    and fits: "log_end (info_size i) rs + 8 + length d \<le> sect_size i"
  shows "nv_write_item D L (ucast i) item sect (of_nat (length rs)) len (Ram_Buf d) s =
         Some (NV_SUCC, flash_lock D (set_fmem s
           (item_mem (fmem (chip s)) (base i sect) (length rs) (log_end (info_size i) rs)
              \<lparr>rc_item = item, rc_data = d, rc_valid = True\<rparr>)))"
proof -
  let ?B = "base i sect" and ?w = "length rs" and ?p = "log_end (info_size i) rs"
  let ?r = "\<lparr>rc_item = item, rc_data = d, rc_valid = True\<rparr>"
  note g = geometry [OF i]
  have sz: "?w \<le> 127" "4 + 8 * ?w + 8 \<le> info_size i" "info_size i \<le> ?p" "sect_size i \<le> 16384"
    "unat ?B + sect_size i < 2 ^ 24" "info_size i \<le> sect_size i"
    using room sizes [of i] g(1) log_pos_mono [of 0 ?w rs "info_size i"] by simp_all
  have w0: "(of_nat ?w :: u16) = 0 \<longleftrightarrow> ?w = 0"
    using sz(1) by (simp add: word_unat_eq_iff unat_of_nat)
  have e: "MODULE_IDX_START (ucast i) sect + ucast (of_nat ?w :: u16) * 8 = ?B + of_nat (4 + 8 * ?w)"
    by (rule entry_addr [OF i sz(1)])
  have e7: "?B + of_nat (4 + 8 * ?w) + 7 = ?B + of_nat (4 + 8 * ?w + 7)"
    by simp
  have p8: "?B + of_nat ?p + 8 = ?B + of_nat (?p + 8)"
    by simp
  have sz16: "len + 8 = of_nat (8 + length d)" "of_nat (length d) = len"
    unfolding len [symmetric] by (simp_all add: algebra_simps)
  define m1 where "m1 = and_bytes (fmem (chip s)) (?B + of_nat (4 + 8 * ?w))
     (idx_bytes \<lparr>offset = ?B + of_nat ?p, size = len + 8, itemId = item, usedState = ITEM_FIELD_OPERATION\<rparr>)"
  define m2 where "m2 = and_bytes m1 (?B + of_nat (?p + 8)) d"
  let ?hdr = "hdr_bytes \<lparr>hdr_checkSum = sum_list (map ucast d), hdr_size = len, hdr_itemId = item,
                         hdr_used = ITEM_FIELD_VALID\<rparr>"
  define m3 where "m3 = and_bytes m2 (?B + of_nat ?p) ?hdr"
  have m4: "item_mem (fmem (chip s)) ?B ?w ?p ?r = and_bytes m3 (?B + of_nat (4 + 8 * ?w + 7)) [ITEM_FIELD_VALID]"
  proof -
    have "take 8 (rec_bytes ?r) = ?hdr"
      by (simp add: rec_bytes_def sz16(2))
    moreover have "(rec_entry ?B ?p ?r)\<lparr>usedState := ITEM_FIELD_OPERATION\<rparr> =
        \<lparr>offset = ?B + of_nat ?p, size = len + 8, itemId = item, usedState = ITEM_FIELD_OPERATION\<rparr>"
      by (simp add: rec_entry_def sz16(1))
    ultimately show ?thesis
      by (simp only: item_mem_def Let_def m3_def m2_def m1_def nv_rec.select_convs)
  qed
  have f1: "flash_write D (?B + of_nat (4 + 8 * ?w))
      (idx_bytes \<lparr>offset = ?B + of_nat ?p, size = len + 8, itemId = item, usedState = ITEM_FIELD_OPERATION\<rparr>) s
      = set_fmem s m1"
    using write_at [OF s, of ?B "4 + 8 * ?w"] sz fits by (simp add: m1_def)
  have f2: "flash_write D (?B + of_nat (?p + 8)) d (set_fmem s m1) = set_fmem s m2"
    using write_at [of "set_fmem s m1" ?B "?p + 8" d] s sz fits by (simp add: m2_def)
  have "blank (sv m1 ?B) (?p + 8) (sect_size i)"
    unfolding m1_def
    by (rule blank_write_other, rule blank_sub [of _ ?p "sect_size i"]) (use log sz in \<open>auto simp: sector_log_def\<close>)
  then have "at (sv m2 ?B) (?p + 8) d"
    unfolding m2_def by (rule at_write_blank) (use fits sz in auto)
  then have f3: "check_sum_loop D (unat len) (?B + of_nat (?p + 8)) 0 (set_fmem s m2) =
      (sum_list (map ucast d), set_fmem s m2)"
    using check_sum [of "?B + of_nat (?p + 8)" "unat len" 0 "set_fmem s m2"] fbytes_at [of m2 ?B "?p + 8" d]
      unat_sector_offset [of ?B "?p + 8"] sz fits len by simp
  have f4: "flash_write D (?B + of_nat ?p) ?hdr (set_fmem s m2) = set_fmem s m3"
    using write_at [of "set_fmem s m2" ?B ?p ?hdr] s sz fits by (simp add: m3_def)
  have f5: "flash_write D (?B + of_nat (4 + 8 * ?w + 7)) [ITEM_FIELD_VALID] (set_fmem s m3) =
      set_fmem s (item_mem (fmem (chip s)) ?B ?w ?p ?r)"
    using write_at [of "set_fmem s m3" ?B "4 + 8 * ?w + 7" "[ITEM_FIELD_VALID]"] s sz fits by (simp add: m4)
  have off: "(if of_nat ?w = (0 :: u16) then (MODULE_CONTEXT_START (ucast i) sect, s)
             else let (b, s') = flash_read D (MODULE_IDX_START (ucast i) sect + (ucast (of_nat ?w :: u16) - 1) * 8) 8 s; x = idx_of b
                  in ((offset x + ucast (size x) + 3) AND NOT 3, s')) = (?B + of_nat ?p, s)"
  proof (cases "?w = 0")
    case True
    then show ?thesis
      using g(5) by (simp add: log_end_def)
  next
    case False
    then show ?thesis
      using write_offset [OF log i] w0 by (simp add: Let_def)
  qed
  show ?thesis
    using s
    by (simp only: nv_write_item_def Let_def ucast_8_16_32 off [unfolded Let_def] prod.case e e7 p8 open_lock(2) f1 nv_source.case
        len [symmetric] take_all order_refl f2 f3 [unfolded len] f3 f4 f5 set_fmem_simps nv_info_idx_t.select_convs
        if_True refl)
qed

end

section \<open>Headers are kept\<close>

lemma and_bytes_disjoint:
  assumes "unat a + length bs \<le> 2 ^ 32" "unat x < unat a \<or> unat a + length bs \<le> unat x"
  shows "and_bytes m a bs x = m x"
proof (rule and_bytes_outside, rule ccontr)
  assume "\<not> length bs \<le> unat (x - a)"
  then have "unat ((x - a) + a) = unat (x - a) + unat a"
    using unat_add_no_wrap [of "x - a" a] assms(1) by simp
  then show False
    using \<open>\<not> length bs \<le> unat (x - a)\<close> assms(2) by simp
qed

definition hdr_same :: "(addr \<Rightarrow> u8) \<Rightarrow> (addr \<Rightarrow> u8) \<Rightarrow> u8 \<Rightarrow> bool" where
  "hdr_same m m' i \<longleftrightarrow> fbytes m' (base i 0) 4 = fbytes m (base i 0) 4 \<and> fbytes m' (base i 1) 4 = fbytes m (base i 1) 4"

lemma hdr_same_write:
  assumes "hdr_same m m' i" "i < 4" "sect < 2" "4 \<le> k" "k + length bs \<le> sect_size i"
  shows "hdr_same m (and_bytes m' (base i sect + of_nat k) bs) i"
proof -
  have b: "unat (base i 0) + sect_size i < 2 ^ 24" "unat (base i 1) + sect_size i < 2 ^ 24"
    using geometry(1) [OF assms(2), of 0] geometry(1) [OF assms(2), of 1] by simp_all
  have "base i 1 = base i 0 + of_nat (sect_size i)"
    using geometry(8) [OF assms(2,3)] by (simp add: MODULE_SECT_START_def)
  then have b01: "unat (base i 1) = unat (base i 0) + sect_size i"
    using unat_sector_offset [of "base i 0" "sect_size i"] b by simp
  have a: "unat (base i sect + of_nat k) = unat (base i sect) + k"
    using unat_sector_offset [of "base i sect" k] geometry(1) [OF assms(2,3)] assms(5) by simp
  have x: "unat (base i t + of_nat j) = unat (base i t) + j" if "j < 4" "t < 2" for j t
    using unat_sector_offset [of "base i t" j] geometry(1) [OF assms(2) that(2)] that(1) by simp
  have "and_bytes m' (base i sect + of_nat k) bs (base i t + of_nat j) = m' (base i t + of_nat j)"
    if "j < 4" "t < 2" for j t
  proof (rule and_bytes_disjoint)
    show "unat (base i sect + of_nat k) + length bs \<le> 2 ^ 32"
      unfolding a using geometry(1) [OF assms(2,3)] assms(5) by simp
    show "unat (base i t + of_nat j) < unat (base i sect + of_nat k)
          \<or> unat (base i sect + of_nat k) + length bs \<le> unat (base i t + of_nat j)"
      unfolding a x [OF that]
      by (cases rule: sect_cases [OF assms(3)]; cases rule: sect_cases [OF that(2)])
         (use b01 assms(4,5) that(1) sizes(3) [of i] in simp_all)
  qed
  then have "fbytes (and_bytes m' (base i sect + of_nat k) bs) (base i t) 4 = fbytes m' (base i t) 4" if "t < 2" for t
    using that by (simp add: list_eq_iff_nth_eq)
  then show ?thesis
    using assms(1) by (simp add: hdr_same_def)
qed

lemma hdr_same_sel: "hdr_same m m' i \<Longrightarrow> sector_sel m' i = sector_sel m i"
  by (simp add: hdr_same_def sector_sel_def hdr_ok_def)

lemma hdr_same_item_mem:
  assumes "i < 4" "sect < 2" "w < idx_num i" "info_size i \<le> p" "p + 8 + length (rc_data r) \<le> sect_size i"
  shows "hdr_same m (item_mem m (base i sect) w p r) i"
  unfolding item_mem_def Let_def
  by (intro hdr_same_write assms(1,2)) (use assms(3-5) sizes [of i] in \<open>auto simp: hdr_same_def\<close>)

section \<open>The contract\<close>

lemma invalidate_append: "k < length rs \<Longrightarrow> invalidate (rs @ [r]) k = invalidate rs k @ [r]"
  by (simp add: invalidate_def list_update_append nth_append)

text \<open>The memory after a write, as \<^verbatim>\<open>nv_flashWriteNew\<close> leaves it.\<close>

definition write_mem :: "(addr \<Rightarrow> u8) \<Rightarrow> u8 \<Rightarrow> u8 \<Rightarrow> nv_rec list \<Rightarrow> u8 \<Rightarrow> u8 list \<Rightarrow> addr \<Rightarrow> u8" where
  "write_mem m i sect rs item d =
     (let m4 = item_mem m (base i sect) (length rs) (log_end (info_size i) rs)
                 \<lparr>rc_item = item, rc_data = d, rc_valid = True\<rparr>;
          m5 = (case nv_find rs item (length d) of
                  None \<Rightarrow> m4
                | Some k \<Rightarrow> and_bytes m4 (base i sect + of_nat (4 + 8 * k + 7)) [ITEM_FIELD_INVALID])
      in if rs = [] then and_bytes m5 (base i sect) (sect_bytes \<lparr>usedFlag = NV_SECTOR_VALID, idName = i, opSect = sect\<rparr>)
         else m5)"

lemma write_mem_module:
  assumes mdl: "nv_module m i sect rs" and room: "length rs < idx_num i"
    and fits: "log_end (info_size i) rs + 8 + length d \<le> sect_size i"
  shows "nv_module (write_mem m i sect rs item d) i sect (nv_append rs item d)"
proof -
  let ?r = "\<lparr>rc_item = item, rc_data = d, rc_valid = True\<rparr>"
  let ?m4 = "item_mem m (base i sect) (length rs) (log_end (info_size i) rs) ?r"
  define m5 where "m5 = (case nv_find rs item (length d) of
                  None \<Rightarrow> ?m4
                | Some k \<Rightarrow> and_bytes ?m4 (base i sect + of_nat (4 + 8 * k + 7)) [ITEM_FIELD_INVALID])"
  have i: "i < 4" "sect < 2" and log: "sector_log m i sect rs"
    using mdl by (auto simp: nv_module_def)
  have p: "info_size i \<le> log_end (info_size i) rs"
    using log_pos_mono [of 0 "length rs" rs "info_size i"] by simp
  have l4: "sector_log ?m4 i sect (rs @ [?r])"
    by (rule sector_log_append [OF log room]) (use fits in simp_all)
  have h4: "hdr_same m ?m4 i"
    by (rule hdr_same_item_mem [OF i room p]) (use fits in simp)
  have "sector_log m5 i sect (nv_append rs item d) \<and> hdr_same m m5 i"
  proof (cases "nv_find rs item (length d)")
    case None
    then show ?thesis
      using l4 h4 by (simp add: m5_def nv_append_def)
  next
    case (Some k)
    then have k: "k < length rs" "rc_valid (rs ! k)"
      using last_idx_Some unfolding nv_find_def by fastforce+
    have "hdr_same m m5 i"
      using hdr_same_write [OF h4 i, of "4 + 8 * k + 7" "[ITEM_FIELD_INVALID]"] k(1) room sizes [of i] Some
      by (simp add: m5_def)
    then show ?thesis
      using sector_log_invalidate [OF l4, of k] k Some
      by (simp add: m5_def nv_append_def invalidate_append nth_append)
  qed
  then have l5: "sector_log m5 i sect (nv_append rs item d)" and h5: "hdr_same m m5 i"
    by simp_all
  have ne: "nv_append rs item d \<noteq> []"
    by (simp add: nv_append_def)
  show ?thesis
  proof (cases "rs = []")
    case False
    then have "write_mem m i sect rs item d = m5"
      by (simp add: write_mem_def m5_def Let_def)
    then show ?thesis
      using l5 i ne hdr_same_sel [OF h5] mdl False by (simp add: nv_module_def)
  next
    case True
    let ?x = "\<lparr>usedFlag = NV_SECTOR_VALID, idName = i, opSect = sect\<rparr>"
    have w: "write_mem m i sect rs item d = and_bytes m5 (base i sect) (sect_bytes ?x)"
      unfolding write_mem_def m5_def Let_def by (rule if_P) (rule True)
    have b0: "blank (sv m (base i sect)) 0 4" and s0: "sect = 0"
      using mdl True by (auto simp: nv_module_def)
    have "blank (sv m5 (base i sect)) 0 4"
    proof -
      have "sv m5 (base i sect) j = sv m (base i sect) j" if "j < 4" for j
        using h5 that s0 nth_fbytes [of j 4 m5 "base i 0"] nth_fbytes [of j 4 m "base i 0"]
        by (simp add: hdr_same_def sv_def)
      then show ?thesis
        using b0 by (simp add: blank_def)
    qed
    note hd = sector_log_header [OF l5 this, of ?x]
    have "fbytes (write_mem m i sect rs item d) (base i 0) 4 = sect_bytes ?x"
      unfolding w using fbytes_at [OF hd(2)] s0 by simp
    then have "sector_sel (write_mem m i sect rs item d) i = Some ?x"
      by (simp add: sector_sel_def hdr_ok_def)
    then show ?thesis
      using hd(1) i ne by (simp add: nv_module_def w)
  qed
qed

context nor_flash
begin

lemma write_tail_open:
  assumes s: "nv_open prot s" "pFlashOpt s = None" and mdl: "nv_module (fmem (chip s)) i sect rs" and room: "length rs < idx_num i"
    and fits: "log_end (info_size i) rs + 8 + length d \<le> sect_size i"
    and len: "unat len = length d" and item: "item \<noteq> 0xFF"
  shows "nv_write_tail D L 1 (ucast i) item len d False sect sect (of_nat (length rs)) s =
         Some (NV_SUCC, set_fmem s (write_mem (fmem (chip s)) i sect rs item d))"
proof -
  let ?B = "base i sect"
  let ?m4 = "item_mem (fmem (chip s)) ?B (length rs) (log_end (info_size i) rs)
               \<lparr>rc_item = item, rc_data = d, rc_valid = True\<rparr>"
  let ?hdr = "sect_bytes \<lparr>usedFlag = NV_SECTOR_VALID, idName = i, opSect = sect\<rparr>"
  define m5 where "m5 = (case nv_find rs item (length d) of None \<Rightarrow> ?m4
             | Some k \<Rightarrow> and_bytes ?m4 (?B + of_nat (4 + 8 * k + 7)) [ITEM_FIELD_INVALID])"
  have wm: "write_mem (fmem (chip s)) i sect rs item d = (if rs = [] then and_bytes m5 ?B ?hdr else m5)"
    by (simp only: write_mem_def Let_def m5_def)
  have i: "i < 4" "sect < 2" and log: "sector_log (fmem (chip s)) i sect rs"
    using mdl by (auto simp: nv_module_def)
  note g = geometry [OF i]
  have sz: "length rs \<le> 127" "sect_size i \<le> 16384" "unat len + 8 < 2 ^ 16"
    using room sizes [of i] fits len by simp_all
  have w0: "(of_nat (length rs) :: u16) = 0 \<longleftrightarrow> rs = []"
    using sz(1) by (simp add: word_unat_eq_iff unat_of_nat)
  note find = find_index [OF log i item sz(3)]
  note wr = write_item_open [OF s(1) log i room len fits, of L item]
  have del: "(case map_option of_nat (nv_find rs item (length d)) of None \<Rightarrow> set_fmem s ?m4
        | Some n \<Rightarrow> flash_write D (MODULE_IDX_START (ucast i) sect + ucast (n :: u16) * 8 + 7) [ITEM_FIELD_INVALID] (set_fmem s ?m4))
        = set_fmem s m5"
  proof (cases "nv_find rs item (length d)")
    case (Some k)
    then have k: "k < length rs"
      using last_idx_Some unfolding nv_find_def by fastforce
    have a: "MODULE_IDX_START (ucast i) sect + ucast (of_nat k :: u16) * 8 + 7 = ?B + of_nat (4 + 8 * k + 7)"
      using entry_addr [OF i, of k] k sz(1) by (simp add: algebra_simps)
    have "flash_write D (?B + of_nat (4 + 8 * k + 7)) [ITEM_FIELD_INVALID] (set_fmem s ?m4) =
          set_fmem s (and_bytes ?m4 (?B + of_nat (4 + 8 * k + 7)) [ITEM_FIELD_INVALID])"
      using write_at [of "set_fmem s ?m4" ?B "4 + 8 * k + 7" "[ITEM_FIELD_INVALID]"] s g(1) k room sizes [of i]
      by simp
    then show ?thesis
      by (simp only: Some option.map option.case a m5_def)
  qed (simp add: m5_def)
  have hd: "flash_write D ?B ?hdr (set_fmem s m5) = set_fmem s (and_bytes m5 ?B ?hdr)"
    using open_write [of "set_fmem s m5" ?B ?hdr] s g(1) sizes(3) [of i] by simp
  have f: "nv_index_read D (ucast i) item len sect (MODULE_IDX_NUM (ucast i)) s =
           ((if nv_find rs item (length d) = None then NV_ITEM_NOT_FOUND else NV_SUCC,
             map_option of_nat (nv_find rs item (length d))), s)"
    unfolding find len by (simp split: option.splits)
  have lk: "flash_lock D (set_fmem s m) = set_fmem s m" for m
    using s(2) by simp
  have u8: "(ucast (ucast i :: u16) :: u8) = i"
    by (rule bit_word_eqI) (auto simp: bit_simps dest: bit_imp_le_length)
  have "nv_write_tail D L 1 (ucast i) item len d False sect sect (of_nat (length rs)) s =
        Some (NV_SUCC, flash_lock D (if rs = [] then flash_write D ?B ?hdr (set_fmem s m5) else set_fmem s m5))"
    by (simp only: nv_write_tail_def Let_def ucast_8_16_32 f u8 prod.case wr lk option.case del w0 one_neq_zero
        not_False_eq_True if_True if_False simp_thms)
  then show ?thesis
    by (simp add: wm hd lk)
qed

lemma write_new:
  assumes s: "nv_open prot s" "pFlashOpt s = None" and mdl: "nv_module (fmem (chip s)) i sect rs" and room: "length rs < idx_num i"
    and fits: "log_end (info_size i) rs + 8 + length d \<le> sect_size i"
    and len: "unat len = length d" and item: "item \<noteq> 0xFF"
  shows "nv_flashWriteNew D L 1 (ucast i) item len d s =
         Some (NV_SUCC, set_fmem s (write_mem (fmem (chip s)) i sect rs item d))"
proof -
  let ?B = "base i sect"
  have i: "i < 4" "sect < 2" and log: "sector_log (fmem (chip s)) i sect rs"
    using mdl by (auto simp: nv_module_def)
  note g = geometry [OF i]
  have p: "info_size i \<le> log_end (info_size i) rs" and sz: "sect_size i \<le> 16384" "length rs \<le> 127" "idx_num i \<le> 127"
    using log_pos_mono [of 0 "length rs" rs "info_size i"] sizes [of i] room by simp_all
  have tl: "ITEM_TOTAL_LEN len = of_nat (8 + length d)"
    unfolding ITEM_TOTAL_LEN_def len [symmetric] by (simp add: word_unat_eq_iff unsigned_ucast_eq unat_of_nat unat_word_ariths add.commute)
  have guard: "\<not> NV_SECTOR_SIZE (ucast i) < ITEM_TOTAL_LEN len + MODULE_INFO_SIZE (ucast i)"
    unfolding tl g(8,9) of_nat_add [symmetric]
    using fits p sz by (simp add: word_less_nat_alt unat_of_nat del: of_nat_add)
  have opS: "(case sector_sel (fmem (chip s)) i of None \<Rightarrow> 0 | Some x \<Rightarrow> opSect x) = sect"
    using mdl by (auto simp: nv_module_def split: if_splits)
  note rd = sector_read_eq [OF i(1), of s] and used = find_used [OF log i, of len]
  note tail = write_tail_open [OF s mdl room fits len item, of L]
  show ?thesis
  proof (cases "rs = []")
    case True
    then show ?thesis
      using tail s
      by (simp add: nv_flashWriteNew_def guard rd opS used Let_def)
  next
    case False
    obtain n where ln: "length rs = Suc n"
      using False by (cases rs) auto
    then have n: "n < length rs"
      by simp
    have used': "nv_index_read D (ucast i) ITEM_FIELD_IDLE len sect (MODULE_IDX_NUM (ucast i)) s =
                 ((NV_SUCC, Some (of_nat n)), s)"
      using used False ln by simp
    let ?x = "rec_entry ?B (log_pos (info_size i) rs n) (rs ! n)"
    have r: "flash_read D (MODULE_IDX_START (ucast i) sect + ucast (of_nat n :: u16) * 8) 8 s =
             (fbytes (fmem (chip s)) (?B + of_nat (4 + 8 * n)) 8, s)"
      using entry_addr [OF i, of n] read_at [of ?B "4 + 8 * n" 8 s] g(1) room sizes [of i] n sz by simp
    have x: "idx_of (fbytes (fmem (chip s)) (?B + of_nat (4 + 8 * n)) 8) = ?x"
      by (rule log_entry [OF log n])
    have nl: "ucast (of_nat n :: u16) \<noteq> MODULE_IDX_NUM (ucast i) - 1"
    proof -
      have "MODULE_IDX_NUM (ucast i) - 1 = of_nat (idx_num i - 1)"
        unfolding g(7) using sizes(5) [of i] by (simp add: of_nat_diff Suc_le_eq)
      moreover have "unat (ucast (of_nat n :: u16) :: u32) = n"
        by (rule unat_ucast_of_nat) (use n sz in simp)
      moreover have "unat (of_nat (idx_num i - 1) :: u32) = idx_num i - 1"
        using sz by (simp add: unat_of_nat)
      ultimately show ?thesis
        using room ln by (metis Suc_diff_1 Suc_lessD not_less_eq less_irrefl zero_less_Suc less_trans)
    qed
    have fit: "\<not> offset ?x + ucast (size ?x) + ITEM_TOTAL_LEN len > MODULE_SECT_END (ucast i) sect"
    proof -
      let ?q = "log_pos (info_size i) rs n + 8 + length (rc_data (rs ! n))"
      have q: "?q \<le> log_end (info_size i) rs"
        using log_pos_step [OF n, of "info_size i"] ln log_pos_length [of "info_size i" rs] by simp
      have "(ucast (of_nat (8 + length (rc_data (rs ! n))) :: u16) :: u32) = of_nat (8 + length (rc_data (rs ! n)))"
        using q fits sz by (simp add: word_unat_eq_iff unsigned_ucast_eq unat_of_nat take_bit_eq_mod del: of_nat_add)
      then have "offset ?x + ucast (size ?x) + ITEM_TOTAL_LEN len = ?B + of_nat (?q + 8 + length d)"
        unfolding rec_entry_def nv_info_idx_t.select_convs tl by (simp add: algebra_simps)
      moreover have "unat (?B + of_nat (?q + 8 + length d)) \<le> unat (?B + of_nat (sect_size i))"
        using unat_sector_offset [of ?B "?q + 8 + length d"] unat_sector_offset [of ?B "sect_size i"] g(1) q fits
        by (simp del: of_nat_add)
      ultimately show ?thesis
        unfolding g(3) by (simp add: word_less_nat_alt)
    qed
    have w: "(of_nat n :: u16) + 1 = of_nat (length rs)"
      unfolding ln by simp
    show ?thesis
      using tail s
      by (simp add: nv_flashWriteNew_def guard rd opS used' Let_def r x nl fit w del: of_nat_add)
  qed
qed

text \<open>
  With a known flash model the item is written, but \<^verbatim>\<open>nv_write_item\<close> locks the flash before the sector
  header is programmed.
\<close>

lemma write_new_locked:
  assumes s: "nv_open prot s" and opt: "pFlashOpt s = Some p" "opt_ok wr p" "\<not> g_flashLocked s"
    and cover: "\<forall>a. prot (fstat (chip s) AND NOT (bp_mask (opt_fns p)) OR ucast (blockSize p)) a"
    and mdl: "nv_module (fmem (chip s)) i 0 []" and fits: "info_size i + 8 + length d \<le> sect_size i"
    and len: "unat len = length d" and item: "item \<noteq> 0xFF"
  shows "nv_flashWriteNew D L 1 (ucast i) item len d s =
         Some (NV_SUCC, flash_lock D (set_fmem s (item_mem (fmem (chip s)) (base i 0) 0 (info_size i)
                 \<lparr>rc_item = item, rc_data = d, rc_valid = True\<rparr>)))"
proof -
  let ?m4 = "item_mem (fmem (chip s)) (base i 0) 0 (info_size i) \<lparr>rc_item = item, rc_data = d, rc_valid = True\<rparr>"
  let ?t = "flash_lock D (set_fmem s ?m4)"
  have i: "i < 4" "(0 :: u8) < 2" and log: "sector_log (fmem (chip s)) i 0 []"
    using mdl by (auto simp: nv_module_def)
  note g = geometry [OF i]
  have sz: "sect_size i \<le> 16384" "0 < idx_num i" "unat len + 8 < 2 ^ 16"
    using sizes [of i] fits len by simp_all
  have tl: "ITEM_TOTAL_LEN len = of_nat (8 + length d)"
    unfolding ITEM_TOTAL_LEN_def len [symmetric]
    by (simp add: word_unat_eq_iff unsigned_ucast_eq unat_of_nat unat_word_ariths add.commute)
  have guard: "\<not> NV_SECTOR_SIZE (ucast i) < ITEM_TOTAL_LEN len + MODULE_INFO_SIZE (ucast i)"
    unfolding tl g(8,9) of_nat_add [symmetric]
    using fits sz by (simp add: word_less_nat_alt unat_of_nat del: of_nat_add)
  have lk: "?t = (set_fmem s ?m4)\<lparr>chip := (chip (set_fmem s ?m4))\<lparr>fstat :=
              fstat (chip s) AND NOT (bp_mask (opt_fns p)) OR ucast (blockSize p)\<rparr>, g_flashLocked := True\<rparr>"
    using lock_known [of "set_fmem s ?m4" p] opt s by (simp add: set_fmem_def nv_open_def)
  have lk2: "flash_lock D ?t = ?t"
    unfolding lk using opt(1) by (simp add: flash_lock_def set_fmem_def)
  have hd: "flash_write D (base i 0) bs ?t = ?t" if "length bs = 4" for bs
    unfolding lk
    using drv_write [of "base i 0" bs "(set_fmem s ?m4)\<lparr>chip := (chip (set_fmem s ?m4))\<lparr>fstat :=
              fstat (chip s) AND NOT (bp_mask (opt_fns p)) OR ucast (blockSize p)\<rparr>, g_flashLocked := True\<rparr>" True]
      that s cover g(1) sizes(3) [of i]
    by (cases bs) (simp_all add: nv_open_def set_fmem_def)
  have sel: "sector_sel (fmem (chip s)) i = None"
    using mdl by (simp add: nv_module_def)
  note wr = write_item_open [OF s log i, of len d L item] and find = find_index [OF log i item sz(3)]
  have "nv_write_tail D L 1 (ucast i) item len d False 0 0 0 s = Some (NV_SUCC, ?t)"
    using wr sz fits len find
    by (simp add: nv_write_tail_def nv_find_def log_end_def hd lk2)
  then show ?thesis
    using s by (simp add: nv_flashWriteNew_def guard sector_read_eq [OF i(1)] sel find_used [OF log i] Let_def)
qed

end

section \<open>Properties\<close>

text \<open>
  C5. Reading refines the abstract lookup: whenever a module holds a log of records, \<^verbatim>\<open>nv_flashReadNew\<close> of a
  single item returns the payload of the last valid record with that identifier and length, reports
  NV\_ITEM\_NOT\_FOUND when there is none, and changes nothing.
\<close>

theorem nv_read_refines:
  assumes "nor_flash D wr prot" "nv_module (fmem (chip s)) i sect rs" "item \<noteq> 0xFF" "unat len + 8 < 2 ^ 16"
  shows "nv_flashReadNew D 1 i item len s =
         (case nv_lookup rs item (unat len) of
            None \<Rightarrow> ((NV_ITEM_NOT_FOUND, Out_None), s)
          | Some d \<Rightarrow> ((NV_SUCC, Out_Bytes d), s))"
  by (rule nor_flash.read_new [OF assms])

lemma blank_module:
  assumes "i < 4"
  shows "nv_module (\<lambda>_. 0xFF) i 0 []"
proof -
  have "fbytes (\<lambda>_. 0xFF) a 4 = [0xFF, 0xFF, 0xFF, 0xFF]" for a
    by (simp add: fbytes_def numeral_eq_Suc)
  then have "sector_sel (\<lambda>_. 0xFF) i = None"
    by (simp add: sector_sel_def hdr_ok_def sect_of_def of_le16_def NV_SECTOR_VALID_def)
  then show ?thesis
    using assms by (simp add: nv_module_def sector_log_def records_at_def blank_def sv_def)
qed

lemma demo_open:
  "nv_open prot_1460c8 demo_flash_state" "fmem (chip demo_flash_state) = (\<lambda>_. 0xFF)" "pFlashOpt demo_flash_state = None"
  by (simp_all add: nv_open_def demo_flash_state_def demo_hw_def flash_hw.defs blank_chip_def prot_1460c8_def
      BATTERY_SAFETY_THRESHOLD_def)

theorem nv_read_refines_witness:
  "nv_flashReadNew (dev_bus 0x9C prot_1460c8) 1 0 1 4 demo_flash_state = ((NV_ITEM_NOT_FOUND, Out_None), demo_flash_state)"
  using nv_read_refines [OF dev.nor_flash_axioms [of "0x9C" prot_1460c8], of demo_flash_state 0 0 "[]" 1 4]
    blank_module [of 0] by (simp add: demo_open nv_lookup_def nv_find_def)



lemma nv_find_snoc:
  "nv_find (rs @ [r]) item n =
   (if rc_valid r \<and> rc_item r = item \<and> length (rc_data r) = n then Some (length rs) else nv_find rs item n)"
proof -
  have "last_idx (\<lambda>k. rc_valid ((rs @ [r]) ! k) \<and> rc_item ((rs @ [r]) ! k) = item \<and> length (rc_data ((rs @ [r]) ! k)) = n) (length rs)
        = nv_find rs item n"
    unfolding nv_find_def by (rule last_idx_cong) (simp add: nth_append)
  then show ?thesis
    by (simp add: nv_find_def)
qed

lemma invalidate_data: "rc_data (invalidate rs k ! j) = rc_data (rs ! j)" "rc_item (invalidate rs k ! j) = rc_item (rs ! j)"
proof -
  have "rs[k := x] ! j = (if k = j \<and> j < length rs then x else rs ! j)" for x
    by (cases "k = j") (auto simp: list_update_beyond)
  then show "rc_data (invalidate rs k ! j) = rc_data (rs ! j)" "rc_item (invalidate rs k ! j) = rc_item (rs ! j)"
    by (simp_all add: invalidate_def)
qed

lemma nv_find_invalidate:
  assumes "nv_find rs item n = Some k" "item' \<noteq> item \<or> n' \<noteq> n"
  shows "nv_find (invalidate rs k) item' n' = nv_find rs item' n'"
proof -
  have k: "rc_item (rs ! k) = item" "length (rc_data (rs ! k)) = n"
    using last_idx_Some assms(1) unfolding nv_find_def by fastforce+
  have "rc_valid (invalidate rs k ! j) = rc_valid (rs ! j)" if "j \<noteq> k" for j
    using that by (simp add: invalidate_def)
  then show ?thesis
    unfolding nv_find_def invalidate_simps
    by (intro last_idx_cong) (use k assms(2) invalidate_data [of rs k] in metis)
qed

lemma nv_lookup_append:
  "nv_lookup (nv_append rs item d) item' n =
   (if item' = item \<and> n = length d then Some d else nv_lookup rs item' n)"
proof (cases "item' = item \<and> n = length d")
  case True
  then show ?thesis
    by (auto simp: nv_lookup_def nv_append_def nv_find_snoc nth_append split: option.splits)
next
  case False
  have lt: "k < length rs" if "nv_find rs item' n = Some k" for k
    using that last_idx_Some unfolding nv_find_def by fastforce
  show ?thesis
  proof (cases "nv_find rs item (length d)")
    case None
    then show ?thesis
      using False lt by (cases "nv_find rs item' n") (auto simp: nv_lookup_def nv_append_def nv_find_snoc nth_append)
  next
    case (Some k)
    have "nv_find (invalidate rs k) item' n = nv_find rs item' n"
      by (rule nv_find_invalidate [OF Some]) (use False in blast)
    then show ?thesis
      using False lt Some
      by (cases "nv_find rs item' n")
         (auto simp: nv_lookup_def nv_append_def nv_find_snoc nth_append invalidate_data)
  qed
qed

text \<open>
  C13. A written item reads back, and it disturbs no other of its module. On a NOR flash without write protection
  (no model with lock bits was recognised, no address is protected, the voltage suffices), for a module whose
  sector holds a log of records, has a free index entry and has room for the item, so that the sector is not
  changed: \<^verbatim>\<open>nv_flashWriteNew\<close> succeeds, reading the item returns the bytes written, and reading any item of the
  module with another identifier or length returns what it returned before. The absence of lock bits matters:
  on a recognised model the driver locks the flash too early, and a write reported as successful may be lost.
\<close>

theorem nv_write_read:
  assumes "nor_flash D wr prot" "nv_open prot s" "pFlashOpt s = None" "nv_module (fmem (chip s)) i sect rs"
    and "length rs < idx_num i" "log_end (info_size i) rs + 8 + length d \<le> sect_size i"
    and "unat len = length d" "item \<noteq> 0xFF"
  shows "\<exists>s'. nv_flashWriteNew D L 1 (ucast i) item len d s = Some (NV_SUCC, s')
           \<and> fst (nv_flashReadNew D 1 i item len s') = (NV_SUCC, Out_Bytes d)
           \<and> (\<forall>item' len'. item' \<noteq> 0xFF \<and> unat len' + 8 < 2 ^ 16 \<and> (item' \<noteq> item \<or> len' \<noteq> len) \<longrightarrow>
                fst (nv_flashReadNew D 1 i item' len' s') = fst (nv_flashReadNew D 1 i item' len' s))"
proof -
  let ?s = "set_fmem s (write_mem (fmem (chip s)) i sect rs item d)"
  have w: "nv_flashWriteNew D L 1 (ucast i) item len d s = Some (NV_SUCC, ?s)"
    by (rule nor_flash.write_new [OF assms])
  have m: "nv_module (fmem (chip ?s)) i sect (nv_append rs item d)"
    using write_mem_module [OF assms(4-6)] by simp
  have small: "unat len + 8 < 2 ^ 16"
    using assms(6,7) sizes(4) [of i] by simp
  note new = nor_flash.read_new [OF assms(1) m] and old = nor_flash.read_new [OF assms(1,4)]
  have "fst (nv_flashReadNew D 1 i item len ?s) = (NV_SUCC, Out_Bytes d)"
    using new [OF assms(8) small] assms(7) by (simp add: nv_lookup_append)
  moreover have "fst (nv_flashReadNew D 1 i item' len' ?s) = fst (nv_flashReadNew D 1 i item' len' s)"
    if "item' \<noteq> 0xFF" "unat len' + 8 < 2 ^ 16" "item' \<noteq> item \<or> len' \<noteq> len" for item' len'
  proof -
    have "nv_lookup (nv_append rs item d) item' (unat len') = nv_lookup rs item' (unat len')"
      using that(3) assms(7) by (auto simp: nv_lookup_append word_unat_eq_iff)
    then show ?thesis
      using new [OF that(1,2)] old [OF that(1,2)] by (simp split: option.splits)
  qed
  ultimately show ?thesis
    using w by blast
qed

theorem nv_write_read_witness:
  "\<exists>s'. nv_flashWriteNew (dev_bus 0x9C prot_1460c8) demo_layout 1 (ucast (0 :: u8)) 1 3 [7, 8, 9] demo_flash_state
        = Some (NV_SUCC, s')
      \<and> fst (nv_flashReadNew (dev_bus 0x9C prot_1460c8) 1 0 1 3 s') = (NV_SUCC, Out_Bytes [7, 8, 9])"
  using nv_write_read [OF dev.nor_flash_axioms [of "0x9C" prot_1460c8], of demo_flash_state 0 0 "[]" "[7, 8, 9]" 3 1 demo_layout]
    blank_module [of 0]
  by (auto simp: demo_open log_end_def idx_num_def info_size_def sect_size_def)

text \<open>
  C34. With a known flash model whose lock block covers the chip, the first item of a module is lost:
  \<^verbatim>\<open>nv_flashWriteNew\<close> returns NV\_SUCC, but \<^verbatim>\<open>nv_write_item\<close> has already locked the flash when the sector header
  is programmed, so that \<^verbatim>\<open>nv_flashReadNew\<close> of the same item then reports NV\_ITEM\_NOT\_FOUND.
\<close>

theorem nv_write_locked_lost:
  assumes "nor_flash D wr prot" "nv_open prot s" "pFlashOpt s = Some p" "opt_ok wr p" "\<not> g_flashLocked s"
    and "\<forall>a. prot (fstat (chip s) AND NOT (bp_mask (opt_fns p)) OR ucast (blockSize p)) a"
    and "nv_module (fmem (chip s)) i 0 []" "info_size i + 8 + length d \<le> sect_size i"
    and "unat len = length d" "item \<noteq> 0xFF"
  shows "\<exists>s'. nv_flashWriteNew D L 1 (ucast i) item len d s = Some (NV_SUCC, s')
           \<and> fst (nv_flashReadNew D 1 i item len s') = (NV_ITEM_NOT_FOUND, Out_None)"
proof -
  let ?m4 = "item_mem (fmem (chip s)) (base i 0) 0 (info_size i) \<lparr>rc_item = item, rc_data = d, rc_valid = True\<rparr>"
  let ?t = "flash_lock D (set_fmem s ?m4)"
  have i: "i < 4" and sel: "sector_sel (fmem (chip s)) i = None"
    using assms(7) by (auto simp: nv_module_def)
  have "hdr_same (fmem (chip s)) ?m4 i"
    by (rule hdr_same_item_mem) (use i sizes(5) [of i] assms(8) in simp_all)
  moreover have "fmem (chip ?t) = ?m4"
    using nor_flash.lock_known [OF assms(1), of "set_fmem s ?m4" p] assms(2-5)
    by (simp add: set_fmem_def nv_open_def)
  ultimately have "sector_sel (fmem (chip ?t)) i = None"
    using sel hdr_same_sel by metis
  then have "fst (nv_flashReadNew D 1 i item len ?t) = (NV_ITEM_NOT_FOUND, Out_None)"
    using nor_flash.sector_read_eq [OF assms(1) i, of ?t] by (simp add: nv_flashReadNew_def)
  then show ?thesis
    using nor_flash.write_new_locked [OF assms] by blast
qed

theorem nv_write_locked_lost_witness:
  "\<exists>s'. nv_flashWriteNew (dev_bus 0x9C prot_1460c8) demo_layout 1 (ucast (0 :: u8)) 1 3 [7, 8, 9]
          (demo_flash_state\<lparr>pFlashOpt := Some opt_1460c8\<rparr>) = Some (NV_SUCC, s')
      \<and> fst (nv_flashReadNew (dev_bus 0x9C prot_1460c8) 1 0 1 3 s') = (NV_ITEM_NOT_FOUND, Out_None)"
proof -
  let ?s = "demo_flash_state\<lparr>pFlashOpt := Some opt_1460c8\<rparr>"
  have o: "nv_open prot_1460c8 ?s" "fmem (chip ?s) = (\<lambda>_. 0xFF)" "\<not> g_flashLocked ?s" "fstat (chip ?s) = 0"
    by (simp_all add: nv_open_def demo_flash_state_def demo_hw_def flash_hw.defs blank_chip_def prot_1460c8_def
        BATTERY_SAFETY_THRESHOLD_def)
  have p: "opt_ok 0x9C opt_1460c8"
    "\<forall>a. prot_1460c8 (0 AND NOT (bp_mask (opt_fns opt_1460c8)) OR ucast (blockSize opt_1460c8)) a"
    by (simp_all add: opt_ok_def opt_1460c8_def FLASH_LOCK_ALL_MID1460C8_def prot_1460c8_def Let_def)
  show ?thesis
    by (rule nv_write_locked_lost [OF dev.nor_flash_axioms [of "0x9C" prot_1460c8] o(1) _ p(1) o(3), of 0 "[7, 8, 9]" 3 1 demo_layout])
       (use p(2) blank_module [of 0] o in \<open>auto simp: info_size_def sect_size_def\<close>)
qed

end
