(* ===== verification/Nv_Reset.thy ===== *)
theory Nv_Reset
  imports Nv_Spec
begin

text \<open>
  Resetting modules: which bytes \<^verbatim>\<open>nv_resetModule\<close> erases, and that with the 1 MB layout the erase of module
  USER\_INFO1, whose two sectors are 16 KB each, takes module USER\_INFO2 with it.
\<close>

section \<open>Erasing ranges\<close>

context nor_flash
begin

lemma erase_loop_open:
  assumes "nv_open prot s" "unat a = 4096 * q" "4096 * (q + n) \<le> 2 ^ 24"
  shows "erase_loop D n a s = set_fmem s (wiped (fmem (chip s)) (4096 * q) (4096 * (q + n)))"
  using assms
proof (induction n arbitrary: a q s)
  case 0
  have "wiped (fmem (chip s)) (4096 * q) (4096 * q) = fmem (chip s)"
    by (auto simp: wiped_def fun_eq_iff)
  then show ?case
    by simp
next
  case (Suc n)
  have e: "flash_erase D a s = set_fmem s (wiped (fmem (chip s)) (4096 * q) (4096 * (q + 1)))"
    using open_erase [OF Suc.prems(1), of a] erased_wiped [OF Suc.prems(2)] Suc.prems(2,3) by simp
  have "unat (a + FLASH_SECTOR_SIZE) = 4096 * (q + 1)"
    using unat_add_no_wrap [of a FLASH_SECTOR_SIZE] Suc.prems(2,3) by (simp add: FLASH_SECTOR_SIZE_def)
  from Suc.IH [OF _ this, of "set_fmem s (wiped (fmem (chip s)) (4096 * q) (4096 * (q + 1)))"] show ?case
    using Suc.prems(1,3) wiped_wiped [of "4096 * q" "4096 * (q + 1)" "4096 * (q + Suc n)" "fmem (chip s)"]
    by (simp add: e)
qed

end

section \<open>Properties\<close>

lemma nv_resetModule_eq:
  assumes "nor_flash D wr prot" "nv_open prot s" "pFlashOpt s = None" "i < 4"
  shows "nv_resetModule D i s =
         (NV_SUCC, set_fmem s (wiped (fmem (chip s)) (unat (base i 0)) (unat (base i 0) + 2 * sect_size i)))"
proof -
  obtain q where q: "unat (base i 0) = 4096 * q" "q + 8 \<le> 4096"
  proof -
    have "unat (base i 0) = 4096 * (unat (base i 0) div 4096) \<and> unat (base i 0) div 4096 + 8 \<le> 4096"
      using assms(4) by (cases rule: module_cases) (simp_all add: nv_geometry_defs)
    then show thesis
      using that by blast
  qed
  have n: "unat (NV_SECTOR_SIZE (ucast i) div FLASH_SECTOR_SIZE) = sect_size i div 4096" "sect_size i = 4096 * (sect_size i div 4096)"
    "sect_size i div 4096 \<le> 4"
    using assms(4) by (cases rule: module_cases; simp add: nv_geometry_defs)+
  have st: "MODULES_START_ADDR (ucast i) = base i 0"
    by (simp add: MODULE_SECT_START_def)
  have hi: "4096 * (q + 2 * (sect_size i div 4096)) = unat (base i 0) + 2 * sect_size i"
    using q(1) n(2) by simp
  have "erase_loop D (2 * (sect_size i div 4096)) (base i 0) s =
        set_fmem s (wiped (fmem (chip s)) (4096 * q) (4096 * (q + 2 * (sect_size i div 4096))))"
    by (rule nor_flash.erase_loop_open [OF assms(1,2) q(1)]) (use q(2) n(3) in simp)
  then have "erase_loop D (2 * (sect_size i div 4096)) (base i 0) s =
        set_fmem s (wiped (fmem (chip s)) (unat (base i 0)) (unat (base i 0) + 2 * sect_size i))"
    unfolding hi q(1) [symmetric] .
  then show ?thesis
    using assms(2,3) by (simp add: nv_resetModule_def Let_def n(1) st MODULE_SECTOR_NUM_def)
qed

text \<open>
  \<^verbatim>\<open>nv_resetModule\<close> erases exactly the two sectors of the module: on an unprotected device the bytes from the
  module's start address up to twice its sector size read 0xFF afterwards, every other byte of the flash
  and the rest of the state are kept, and the status is NV\_SUCC.
\<close>

theorem nv_resetModule_exact:
  assumes "nor_flash D wr prot" "nv_open prot s" "pFlashOpt s = None" "i < 4"
  shows "nv_resetModule D i s =
         (NV_SUCC, s\<lparr>chip := (chip s)\<lparr>fmem := (\<lambda>x. if unat (base i 0) \<le> unat x \<and> unat x < unat (base i 0) + 2 * sect_size i
                                                then 0xFF else fmem (chip s) x)\<rparr>\<rparr>)"
  using nv_resetModule_eq [OF assms] by (simp add: set_fmem_def wiped_def)

theorem nv_resetModule_exact_witness:
  "fst (nv_resetModule (dev_bus 0x9C prot_1460c8) 0 demo_flash_state) = NV_SUCC"
  using nv_resetModule_exact [OF dev.nor_flash_axioms [of "0x9C" prot_1460c8], of demo_flash_state 0]
  by (simp add: demo_open)

text \<open>
  C35. The modules overlap: resetting module 2 (USER\_INFO1) also erases the whole of module 3 (USER\_INFO2), whose
  items are then gone.
\<close>

theorem nv_reset_overlap:
  assumes "nor_flash D wr prot" "nv_open prot s" "pFlashOpt s = None" "item \<noteq> 0xFF" "unat len + 8 < 2 ^ 16"
  shows "let s' = snd (nv_resetModule D 2 s) in
         nv_module (fmem (chip s')) 3 0 []
         \<and> fst (nv_flashReadNew D 1 3 item len s') = (NV_ITEM_NOT_FOUND, Out_None)"
proof -
  define m where "m = wiped (fmem (chip s)) 0x84000 0x8C000"
  have b: "unat (base 2 0) = 0x84000" "base 3 0 = 0x86000" "base 3 1 = 0x87000"
    by (simp_all add: nv_geometry_defs)
  have s': "snd (nv_resetModule D 2 s) = set_fmem s m"
    using nv_resetModule_eq [OF assms(1-3), of 2] b(1) by (simp add: m_def sect_size_def)
  have ff: "m (B + of_nat j) = 0xFF" if "B = 0x86000 \<or> B = 0x87000" "j < 4096" for B j
    using that unat_sector_offset [of B j] by (auto simp: m_def wiped_def)
  have "fbytes m B 4 = replicate 4 0xFF" if "B = 0x86000 \<or> B = 0x87000" for B
    by (rule nth_equalityI) (use ff [OF that] in auto)
  moreover have "replicate 4 (0xFF :: u8) = [0xFF, 0xFF, 0xFF, 0xFF]"
    by (simp add: numeral_eq_Suc)
  ultimately have h: "fbytes m (base 3 0) 4 = [0xFF, 0xFF, 0xFF, 0xFF]" "fbytes m (base 3 1) 4 = [0xFF, 0xFF, 0xFF, 0xFF]"
    unfolding b by simp_all
  have "sector_sel m 3 = None"
    unfolding sector_sel_def hdr_ok_def h by (simp add: sect_of_def of_le16_def NV_SECTOR_VALID_def)
  moreover have "sector_log m 3 0 []"
    using ff [of "0x86000"] unfolding sector_log_def sv_def b by (simp add: records_at_def blank_def idx_num_def sect_size_def log_end_def info_size_def)
  ultimately have mdl: "nv_module m 3 0 []"
    using ff [of "0x86000"] unfolding nv_module_def sv_def b by (simp add: blank_def)
  then show ?thesis
    using nor_flash.read_new [OF assms(1), of "set_fmem s m" 3 0 "[]" item len] assms(4,5)
    by (simp add: s' nv_lookup_def nv_find_def)
qed

theorem nv_reset_overlap_witness:
  "nv_module (fmem (chip (snd (nv_resetModule (dev_bus 0x9C prot_1460c8) 2 demo_flash_state)))) 3 0 []"
  using nv_reset_overlap [OF dev.nor_flash_axioms [of "0x9C" prot_1460c8], of demo_flash_state 1 4]
  by (simp add: demo_open Let_def)

end
