(* ===== verification/Sdk_State.thy ===== *)
theory Sdk_State
  imports Drv_Flash Ev_Timer "HOL-Library.Monad_Syntax"
begin

text \<open>
  The state that the MAC layer and the applications work on: the timer service, the flash service, the
  bytes of the PIB structure, the values \<^verbatim>\<open>clock_time()\<close> is going to return, and the calls that leave
  the modelled code, in order: requests to the MAC library (which is delivered as a binary), the radio's
  power setting and the chip reset. The timer service and the flash service share the part of the state
  they both extend (word memory, interrupt register, exceptions): \<open>flash_of\<close> and \<open>put_flash\<close> run a flash
  operation on the flash part with that shared part.
\<close>

section \<open>MAC primitives\<close>

record addr_t =
  addr_bytes :: "u8 list"
  addrMode :: u8

definition ZB_ADDR_16BIT_DEV_OR_BROADCAST :: u8 where "ZB_ADDR_16BIT_DEV_OR_BROADCAST = 2"
definition ZB_ADDR_64BIT_DEV :: u8 where "ZB_ADDR_64BIT_DEV = 3"
definition MAC_TX_OPTION_ACKNOWLEDGED_BIT :: u8 where "MAC_TX_OPTION_ACKNOWLEDGED_BIT = 1"
definition MAC_TX_OPTION_INDIRECT_TRANSMISSION_BIT :: u8 where "MAC_TX_OPTION_INDIRECT_TRANSMISSION_BIT = 4"

definition addr_zero :: addr_t where
  "addr_zero = \<lparr>addr_bytes = replicate 8 0, addrMode = 0\<rparr>"

text \<open>The security parameters of a request.\<close>

record mac_sec_t =
  key_source :: "u8 list"
  securityLevel :: u8
  key_id_mode :: u8
  key_index :: u8

definition sec_zero :: mac_sec_t where
  "sec_zero = \<lparr>key_source = replicate 8 0, securityLevel = 0, key_id_mode = 0, key_index = 0\<rparr>"

record zb_mscp_data_req_t =
  srcAddr :: addr_t
  dstPanId :: u16
  data_sec :: mac_sec_t
  dstAddr :: addr_t
  msduHandle :: u8
  txOptions :: u8

text \<open>The request after the \<^verbatim>\<open>memset\<close> that every caller starts with.\<close>

definition data_req_zero :: zb_mscp_data_req_t where
  "data_req_zero = \<lparr>srcAddr = addr_zero, dstPanId = 0, data_sec = sec_zero, dstAddr = addr_zero, msduHandle = 0, txOptions = 0\<rparr>"

record zb_mlme_associate_req_t =
  assocCoordAddress :: addr_t
  logicalChannel :: u8
  coordPanId :: u16
  rcvOnWhenIdle :: bool
  allocAddr :: bool

record mac_mlme_poll_req_t =
  coordAddrMode :: u8
  pollCoordAddr :: "u8 list"
  pollCoordPanId :: u16

text \<open>Of these two requests the fields that the demos leave zero are left out.\<close>

record zb_mlme_associate_resp_t =
  resp_devAddress :: "u8 list"
  resp_shortAddress :: u16
  resp_status :: u8

record zb_mac_mlme_start_req_t =
  start_panId :: u16
  start_logicalChannel :: u8
  start_beaconOrder :: u8
  start_superframeOrder :: u8
  start_panCoordinator :: u8

text \<open>What leaves the code: requests to the MAC library and other calls of the libraries.\<close>

datatype sdk_out =
    McpsDataRequest zb_mscp_data_req_t "u8 list"
  | MlmeScanRequest u8 u32 u8
  | MlmeAssociateRequest zb_mlme_associate_req_t
  | MlmePollRequest mac_mlme_poll_req_t
  | MlmeAssociateResponse zb_mlme_associate_resp_t
  | MlmeStartRequest zb_mac_mlme_start_req_t
  | Ieee802154InfoSave
  | TaskPost addr
  | RadioTxPower u8
  | SystemReset

section \<open>State\<close>

text \<open>The buffers and the flash service, beside the part they share with the timers.\<close>

record flash_part =
  fp_bufGroups :: "ev_buf_groups_t list"
  fp_chip :: flash_chip
  fp_locked :: bool
  fp_opt :: "drv_flash_opt_t option"
  fp_optMid :: u32
  fp_adc :: u16

record sdk_state = tmr_state +
  fl :: flash_part
  g_zbMacPib :: "nat \<Rightarrow> u8"
  ticks :: "nat \<Rightarrow> u32"
  outs :: "sdk_out list"

definition emit :: "sdk_out \<Rightarrow> 'a sdk_state_scheme \<Rightarrow> 'a sdk_state_scheme" where
  "emit x s = s\<lparr>outs := outs s @ [x]\<rparr>"

definition clock_time :: "'a sdk_state_scheme \<Rightarrow> u32 \<times> 'a sdk_state_scheme" where
  "clock_time s = (ticks s 0, s\<lparr>ticks := \<lambda>i. ticks s (Suc i)\<rparr>)"

definition flash_of :: "'a sdk_state_scheme \<Rightarrow> drv_flash_state" where
  "flash_of s = \<lparr>mem = mem s, reg_irq_en = reg_irq_en s, T_evtExcept = T_evtExcept s,
     g_sysExceptCallback = g_sysExceptCallback s, exc_calls = exc_calls s, bufGroups = fp_bufGroups (fl s),
     chip = fp_chip (fl s), g_flashLocked = fp_locked (fl s), pFlashOpt = fp_opt (fl s),
     g_flashOptMid = fp_optMid (fl s), adc_data = fp_adc (fl s)\<rparr>"

definition put_flash :: "drv_flash_state \<Rightarrow> 'a sdk_state_scheme \<Rightarrow> 'a sdk_state_scheme" where
  "put_flash f s = s\<lparr>mem := mem f, reg_irq_en := reg_irq_en f, T_evtExcept := T_evtExcept f,
     g_sysExceptCallback := g_sysExceptCallback f, exc_calls := exc_calls f,
     fl := \<lparr>fp_bufGroups = bufGroups f, fp_chip = chip f, fp_locked = g_flashLocked f, fp_opt = pFlashOpt f,
            fp_optMid = g_flashOptMid f, fp_adc = adc_data f\<rparr>\<rparr>"

definition on_flash :: "(drv_flash_state \<Rightarrow> drv_flash_state) \<Rightarrow> 'a sdk_state_scheme \<Rightarrow> 'a sdk_state_scheme" where
  "on_flash f s = put_flash (f (flash_of s)) s"

definition flash_val :: "(drv_flash_state \<Rightarrow> 'r \<times> drv_flash_state) \<Rightarrow> 'a sdk_state_scheme \<Rightarrow> 'r \<times> 'a sdk_state_scheme" where
  "flash_val f s = (let (r, g) = f (flash_of s) in (r, put_flash g s))"

text \<open>
  Where the linker puts what the code takes the address of: the pool of timer events, the upgrade's own
  timer event, and the callback functions; \<open>bus\<close> is the flash device.
\<close>

record sdk_env =
  bus :: flash_bus
  evt_pool :: addr
  otaQueryTimer :: addr
  ota_periodicQueryServerCb_at :: addr
  ota_periodicDataServerCb_at :: addr
  PollDataTimerCb_at :: addr
  dev_activescan_callback_at :: addr

text \<open>The timer macros; \<^verbatim>\<open>TL_ZB_TIMER_CANCEL\<close> is given the pointer variable and returns it.\<close>

definition TL_ZB_TIMER_SCHEDULE ::
  "sdk_env \<Rightarrow> addr \<Rightarrow> u32 \<Rightarrow> 'a sdk_state_scheme \<Rightarrow> (addr \<times> 'a sdk_state_scheme) option" where
  "TL_ZB_TIMER_SCHEDULE E f tmo s =
     (let (clk, s1) = clock_time s in ev_timer_taskPost clk (evt_pool E) f NULL tmo s1)"

definition TL_ZB_TIMER_CANCEL ::
  "sdk_env \<Rightarrow> addr \<Rightarrow> 'a sdk_state_scheme \<Rightarrow> (addr \<times> 'a sdk_state_scheme) option" where
  "TL_ZB_TIMER_CANCEL E e s = map_option snd (ev_timer_taskCancel (evt_pool E) e s)"

definition start_timer :: "sdk_env \<Rightarrow> addr \<Rightarrow> u32 \<Rightarrow> 'a sdk_state_scheme \<Rightarrow> 'a sdk_state_scheme option" where
  "start_timer E e tmo s = (let (clk, s1) = clock_time s in ev_on_timer clk e tmo s1)"

section \<open>The shared part\<close>

lemma flash_of_put [simp]: "flash_of (put_flash f s) = f"
  by (simp add: flash_of_def put_flash_def)

lemma put_flash_of [simp]: "put_flash (flash_of s) s = s"
  by (simp add: flash_of_def put_flash_def)

lemma flash_of_sel [simp]:
  "chip (flash_of s) = fp_chip (fl s)" "g_flashLocked (flash_of s) = fp_locked (fl s)"
  "pFlashOpt (flash_of s) = fp_opt (fl s)" "adc_data (flash_of s) = fp_adc (fl s)" "mem (flash_of s) = mem s"
  by (simp_all add: flash_of_def)

lemma put_flash_sel [simp]:
  "g_zbMacPib (put_flash f s) = g_zbMacPib s" "ticks (put_flash f s) = ticks s" "outs (put_flash f s) = outs s"
  "tev (put_flash f s) = tev s" "timer_head (put_flash f s) = timer_head s" "used_num (put_flash f s) = used_num s"
  "timer_nearest (put_flash f s) = timer_nearest s" "sdk_state.more (put_flash f s) = sdk_state.more s"
  "mem (put_flash f s) = mem f" "fp_chip (fl (put_flash f s)) = chip f" "fp_locked (fl (put_flash f s)) = g_flashLocked f"
  "fp_opt (fl (put_flash f s)) = pFlashOpt f" "fp_adc (fl (put_flash f s)) = adc_data f"
  by (simp_all add: put_flash_def)

lemma emit_sel [simp]:
  "g_zbMacPib (emit x s) = g_zbMacPib s" "ticks (emit x s) = ticks s" "outs (emit x s) = outs s @ [x]"
  "fl (emit x s) = fl s" "flash_of (emit x s) = flash_of s" "sdk_state.more (emit x s) = sdk_state.more s"
  "mem (emit x s) = mem s"
  by (simp_all add: emit_def flash_of_def)

section \<open>Flash operations keep the memory they share with the timers\<close>

lemma mem_write_page [simp]: "mem (flash_write_page D a buf s) = mem s"
proof -
  have "mem (write_page_loop D k a buf s) = mem s" for k
  proof (induction "length buf" arbitrary: k a buf s rule: less_induct)
    case less
    show ?case
      by (subst write_page_loop.simps) (auto simp: Let_def flash_mspi_write_ram_eq less)
  qed
  then show ?thesis
    by (simp add: flash_write_page_def)
qed

lemma mem_flash_read [simp]: "mem (snd (flash_read D a n s)) = mem s"
  by (simp add: flash_read_def flash_read_page_def flash_mspi_read_ram_eq)

lemma flash_read_snd [simp]: "snd (flash_read D a n s) = s"
  by (simp add: flash_read_def flash_read_page_def flash_mspi_read_ram_eq)

lemma mem_flash_write [simp]: "mem (flash_write D a buf s) = mem s"
  by (simp add: flash_write_def)

lemma mem_flash_erase [simp]: "mem (flash_erase D a s) = mem s"
  by (simp add: flash_erase_def flash_erase_sector_def flash_mspi_write_ram_eq)

lemma mem_check_loop [simp]: "mem (snd (write_check_loop D a buf s)) = mem s"
proof (induction "length buf" arbitrary: a buf s rule: less_induct)
  case less
  show ?case
  proof (cases "buf = []")
    case False
    let ?w = "if length buf > 48 then 48 else length buf"
    obtain d where rd: "flash_read D a ?w s = (d, s)"
      by (metis flash_read_snd prod.collapse)
    have "mem (snd (write_check_loop D (a + of_nat ?w) (drop ?w buf) s)) = mem s"
      by (rule less) (use False in auto)
    then show ?thesis
      using False by (subst write_check_loop.simps) (unfold Let_def rd, auto)
  qed (simp add: write_check_loop.simps)
qed

lemma mem_writeWithCheck [simp]: "mem (snd (flash_writeWithCheck D a buf s)) = mem s"
  by (simp add: flash_writeWithCheck_def Let_def)

lemma mem_status_rmw:
  "mem (snd (status_rmw8 D data msk s)) = mem s" "mem (snd (flash_write_status_mid146085 D data' msk' s)) = mem s"
  by (simp_all add: status_rmw8_def flash_write_status_mid146085_def flash_read_status_mid146085_def
      flash_read_status_def flash_write_status_def flash_mspi_read_ram_eq flash_mspi_write_ram_eq Let_def case_prod_beta)

lemma mem_lock_fp: "mem (snd (lock_fp M D b s)) = mem s" "mem (snd (unlock_fp M D s)) = mem s"
  by (cases M; simp add: flash_fp_defs write_status_mid8 write_status_mid1570cd_eq mem_status_rmw)+

lemma mem_flash_lock [simp]: "mem (flash_lock D s) = mem s" "mem (flash_unlock D s) = mem s"
  using mem_lock_fp(1) [of _ D _ s] mem_lock_fp(2) [of _ D s]
  by (simp_all add: flash_lock_def flash_unlock_def Let_def case_prod_beta split: option.splits)

text \<open>What the timer service leaves alone.\<close>

definition same_app :: "'a sdk_state_scheme \<Rightarrow> 'a sdk_state_scheme \<Rightarrow> bool" where
  "same_app s s' \<longleftrightarrow> fl s' = fl s \<and> g_zbMacPib s' = g_zbMacPib s \<and> outs s' = outs s \<and>
     sdk_state.more s' = sdk_state.more s"

lemma same_app_refl [simp]: "same_app s s"
  by (simp add: same_app_def)

lemma same_app_trans: "same_app s t \<Longrightarrow> same_app t u \<Longrightarrow> same_app s u"
  by (simp add: same_app_def)

definition timers_ok :: "sdk_env \<Rightarrow> 'a sdk_state_scheme \<Rightarrow> bool" where
  "timers_ok E s \<longleftrightarrow> pool_ok (evt_pool E) \<and> own_event (evt_pool E) (otaQueryTimer E) \<and>
     (\<exists>xs. timer_inv (evt_pool E) s xs)"

lemma timers_ok_put_flash [simp]: "mem f = mem s \<Longrightarrow> timers_ok E (put_flash f s) = timers_ok E s"
  by (simp add: timers_ok_def timer_inv_def used_slots_def)

lemma timers_ok_emit [simp]: "timers_ok E (emit x s) = timers_ok E s"
  by (simp add: timers_ok_def timer_inv_def used_slots_def emit_def)

lemma ev_unon_timer_more: "ev_unon_timer B e s = Some s' \<Longrightarrow> tmr_state.more s' = tmr_state.more s"
  by (auto simp: ev_unon_timer_def ev_timer_poolDelUpdate_def ev_timer_nearestUpdate_def drv_disable_irq_def
      drv_restore_irq_def sys_exceptionPost_def Let_def split: option.splits if_splits)

lemma ev_on_timer_more: "ev_on_timer clk e tmo s = Some s' \<Longrightarrow> tmr_state.more s' = tmr_state.more s"
  by (auto simp: ev_on_timer_def ev_timer_nearestUpdate_def drv_disable_irq_def LIST_ADD_def
      drv_restore_irq_def sys_exceptionPost_def Let_def split: option.splits if_splits)

lemma free_get_loop_more: "tmr_state.more (snd (free_get_loop B is s)) = tmr_state.more s"
  by (induction "is") (auto simp: Let_def)

lemma ev_timer_taskPost_more:
  "ev_timer_taskPost clk B f d tmo s = Some (e, s') \<Longrightarrow> tmr_state.more s' = tmr_state.more s"
  using free_get_loop_more [of B "[0..<unat g_ev_timer_maxNum]" "s\<lparr>reg_irq_en := 0\<rparr>"]
  by (auto simp: ev_timer_taskPost_def ev_timer_add_def ev_timer_freeGet_def drv_disable_irq_def
      drv_restore_irq_def sys_exceptionPost_def Let_def dest!: ev_on_timer_more split: prod.splits if_splits)

lemma same_app_more: "tmr_state.more s' = tmr_state.more s \<Longrightarrow> same_app s s'"
  by (cases s, cases s') (simp add: same_app_def)

lemma same_app_tick: "tmr_state.more s' = tmr_state.more (snd (clock_time s)) \<Longrightarrow> same_app s s'"
  by (cases s, cases s') (simp add: same_app_def clock_time_def)

lemma timer_inv_clock [simp]: "timer_inv B (snd (clock_time s)) xs = timer_inv B s xs"
  by (simp add: timer_inv_def used_slots_def clock_time_def)

lemma exist_list: "timer_inv B s xs \<Longrightarrow> ev_timer_exist e s = Some (e \<in> set xs)"
  using timer_exist_loop_chain by (simp add: timer_inv_def ev_timer_exist_def)

lemma schedule_ok:
  assumes "timers_ok E s"
  shows "\<exists>e s'. TL_ZB_TIMER_SCHEDULE E f tmo s = Some (e, s') \<and> timers_ok E s' \<and> same_app s s' \<and>
           (\<forall>q. ev_timer_exist q s = Some True \<longrightarrow> ev_timer_exist q s' = Some True)"
proof -
  let ?B = "evt_pool E" and ?s = "snd (clock_time s)"
  let ?i = "?s\<lparr>reg_irq_en := 0\<rparr>"
  obtain xs where p: "pool_ok ?B" and inv: "timer_inv ?B ?s xs"
    using assms by (auto simp: timers_ok_def)
  then have inv': "timer_inv ?B ?i xs" and invs: "timer_inv ?B s xs"
    by simp_all
  have "\<exists>e s1 ys. ev_timer_add (fst (clock_time s)) ?B f NULL tmo ?i = Some (e, s1) \<and> timer_inv ?B s1 ys \<and> set xs \<subseteq> set ys"
  proof (cases "used_slots ?B ?i = {..<24}")
    case True
    then show ?thesis
      using ev_timer_add_full [OF inv' True] inv' by fastforce
  next
    case False
    then show ?thesis
      using ev_timer_add_slot [OF inv' p False] by (meson set_subset_Cons)
  qed
  then obtain e s1 ys where r: "ev_timer_add (fst (clock_time s)) ?B f NULL tmo ?i = Some (e, s1)"
      and ys: "timer_inv ?B s1 ys" "set xs \<subseteq> set ys"
    by blast
  let ?t = "drv_restore_irq (ucast (reg_irq_en ?s)) s1"
  have post: "ev_timer_taskPost (fst (clock_time s)) ?B f NULL tmo ?s = Some (e, ?t)"
    using r by (simp add: ev_timer_taskPost_def drv_disable_irq_def)
  have t: "timer_inv ?B ?t ys"
    using ys(1) by (simp add: drv_restore_irq_def)
  have "same_app s ?t"
    using ev_timer_taskPost_more [OF post] by (rule same_app_tick)
  moreover have "timers_ok E ?t"
    using t assms by (auto simp: timers_ok_def)
  moreover have "ev_timer_exist q s = Some True \<longrightarrow> ev_timer_exist q ?t = Some True" for q
    using exist_list [OF invs] exist_list [OF t] ys(2) by auto
  ultimately show ?thesis
    using post by (simp add: TL_ZB_TIMER_SCHEDULE_def case_prod_beta Let_def)
qed

lemma cancel_ok:
  assumes "timers_ok E s"
  shows "\<exists>e' s'. TL_ZB_TIMER_CANCEL E e s = Some (e', s') \<and> timers_ok E s' \<and> same_app s s' \<and>
           (\<forall>q. q \<noteq> e \<longrightarrow> ev_timer_exist q s = Some True \<longrightarrow> ev_timer_exist q s' = Some True)"
proof -
  let ?B = "evt_pool E"
  obtain xs where p: "pool_ok ?B" and inv: "timer_inv ?B s xs"
    using assms by (auto simp: timers_ok_def)
  obtain s' where s': "ev_unon_timer ?B e s = Some s'" "timer_inv ?B s' (remove1 e xs)"
    using ev_unon_timer_inv [OF inv p] by blast
  then have "same_app s s'" "timers_ok E s'"
    using ev_unon_timer_more [OF s'(1)] assms by (auto simp: timers_ok_def intro: same_app_more)
  moreover have "q \<noteq> e \<longrightarrow> ev_timer_exist q s = Some True \<longrightarrow> ev_timer_exist q s' = Some True" for q
    using exist_list [OF inv] exist_list [OF s'(2)] by (simp add: in_set_remove1)
  ultimately show ?thesis
    using s' assms by (auto simp: TL_ZB_TIMER_CANCEL_def ev_timer_taskCancel_def)
qed

lemma exist_ok: "timers_ok E s \<Longrightarrow> \<exists>b. ev_timer_exist e s = Some b"
  using exist_list by (fastforce simp: timers_ok_def)

lemma start_ok:
  assumes "timers_ok E s"
  shows "\<exists>s'. start_timer E (otaQueryTimer E) tmo s = Some s' \<and> timers_ok E s' \<and> same_app s s' \<and>
           ev_timer_exist (otaQueryTimer E) s' = Some True"
proof -
  let ?B = "evt_pool E" and ?s = "snd (clock_time s)" and ?q = "otaQueryTimer E"
  obtain xs where p: "pool_ok ?B" and own: "own_event ?B ?q" and inv: "timer_inv ?B ?s xs"
    using assms by (auto simp: timers_ok_def)
  have c: "chain (mem ?s) (timer_head ?s) xs"
    using inv by (simp add: timer_inv_def)
  obtain s' ys where r: "ev_on_timer (fst (clock_time s)) ?q tmo ?s = Some s'"
      and ys: "timer_inv ?B s' ys" "?q \<in> set ys"
  proof (cases "?q \<in> set xs")
    case True
    then show ?thesis
      using ev_on_timer_restart [OF c True] timer_inv_restarted [OF inv] that by blast
  next
    case False
    have "?q \<noteq> NULL"
      using own by (simp add: own_event_def)
    then show ?thesis
      using ev_on_timer_new [OF c _ False] timer_inv_started [OF inv _ False p own] that by (metis list.set_intros(1))
  qed
  have "same_app s s'"
    using ev_on_timer_more [OF r] by (rule same_app_tick)
  moreover have "ev_timer_exist ?q s' = Some True"
    using exist_list [OF ys(1)] ys(2) by simp
  moreover have "timers_ok E s'"
    using ys p own by (auto simp: timers_ok_def)
  ultimately show ?thesis
    using r by (simp add: start_timer_def case_prod_beta Let_def)
qed

section \<open>A concrete state\<close>

definition demo_sdk :: sdk_state where
  "demo_sdk = \<lparr>mem = (\<lambda>_. 0), reg_irq_en = 1, T_evtExcept = [0, 0, 0, 0], g_sysExceptCallback = 0, exc_calls = [],
     tev = (\<lambda>_. \<lparr>evt_cb = 0, evt_data = 0, timeout = 0, period = 0, curSysTick = 0, isRunning = 0, used = 0\<rparr>),
     timer_head = 0, timer_nearest = 0, used_num = 0, prevSysTick = 0, remSysTick = 0,
     fl = \<lparr>fp_bufGroups = [], fp_chip = chip demo_flash_state, fp_locked = False, fp_opt = None, fp_optMid = 0,
           fp_adc = 3000\<rparr>,
     g_zbMacPib = (\<lambda>_. 0), ticks = (\<lambda>_. 0), outs = []\<rparr>"

end
