(* ===== verification/Mac_Pib.thy ===== *)
theory Mac_Pib
  imports Sdk_State
begin

text \<open>
  The MAC's information base, \<^verbatim>\<open>ieee802154/mac/mac_pib.c\<close>: reading and writing attributes by identifier,
  and the tables of keys, devices and security levels. The structure \<^verbatim>\<open>tl_zb_mac_pib_t\<close> is its bytes,
  because the code copies bytes at table offsets; \<open>pib_layout\<close> gives the fields in order with their
  sizes, which are such that no padding occurs. The list and pool functions \<^verbatim>\<open>tn_list_*\<close> and
  \<^verbatim>\<open>tn_mem_*\<close> are in the binary library: they are the parameter \<open>L\<close>.
\<close>

section \<open>The structure\<close>

datatype pib_field =
    beaconTxTime | coordExtAddress | extAddress | ackWaitDuration | coordShortAddress | panId | shortAddress
  | superframeOrder | transactionPersistenceTime | frameTotalWaitTime | syncSymbolOffset | beaconPayload
  | beaconPayloadLen | associationPermit | associatedPanCoord | autoReq | battLifeExt | battLifeExtPeriods
  | beaconOrder | beaconSeqNum | seqNum | frameRetryNum | respWaitTime | maxCsmaBackoffs | promiscuousMode
  | timeStampSupported | securityEnabled | gtsPermit | minBe | maxBe | phyPageCur | phyChannelCur | rxOnWhenIdle
  | txPower | resv | keyTable | devTable | secLvlTable | keyTableEntries | devTableEntries | secLvlTableEntries
  | autoReqSecLvl | frameCounter | autoReqKeySource | autoReqKeyIdMode | autoReqKeyIndex | panCoordShortAddr
  | defaultKeySource | panCoordExtAddr

definition pib_layout :: "(pib_field \<times> nat) list" where
  "pib_layout =
     [(beaconTxTime, 4), (coordExtAddress, 8), (extAddress, 8), (ackWaitDuration, 2), (coordShortAddress, 2),
      (panId, 2), (shortAddress, 2), (superframeOrder, 2), (transactionPersistenceTime, 2), (frameTotalWaitTime, 2),
      (syncSymbolOffset, 2), (beaconPayload, 15), (beaconPayloadLen, 1), (associationPermit, 1),
      (associatedPanCoord, 1), (autoReq, 1), (battLifeExt, 1), (battLifeExtPeriods, 1), (beaconOrder, 1),
      (beaconSeqNum, 1), (seqNum, 1), (frameRetryNum, 1), (respWaitTime, 1), (maxCsmaBackoffs, 1),
      (promiscuousMode, 1), (timeStampSupported, 1), (securityEnabled, 1), (gtsPermit, 1), (minBe, 1), (maxBe, 1),
      (phyPageCur, 1), (phyChannelCur, 1), (rxOnWhenIdle, 1), (txPower, 1), (resv, 3), (keyTable, 4), (devTable, 4),
      (secLvlTable, 4), (keyTableEntries, 1), (devTableEntries, 1), (secLvlTableEntries, 1), (autoReqSecLvl, 1),
      (frameCounter, 4), (autoReqKeySource, 8), (autoReqKeyIdMode, 1), (autoReqKeyIndex, 1), (panCoordShortAddr, 2),
      (defaultKeySource, 8), (panCoordExtAddr, 8)]"

fun field_offset :: "pib_field \<Rightarrow> (pib_field \<times> nat) list \<Rightarrow> nat" where
  "field_offset f [] = 0"
| "field_offset f ((g, n) # xs) = (if g = f then 0 else n + field_offset f xs)"

definition OFFSETOF :: "pib_field \<Rightarrow> nat" where
  "OFFSETOF f = field_offset f pib_layout"

definition pib_u8 :: "pib_field \<Rightarrow> 'a sdk_state_scheme \<Rightarrow> u8" where
  "pib_u8 f s = g_zbMacPib s (OFFSETOF f)"

definition pib_set_u8 :: "pib_field \<Rightarrow> u8 \<Rightarrow> 'a sdk_state_scheme \<Rightarrow> 'a sdk_state_scheme" where
  "pib_set_u8 f v s = s\<lparr>g_zbMacPib := (g_zbMacPib s)(OFFSETOF f := v)\<rparr>"

definition le16 :: "(nat \<Rightarrow> u8) \<Rightarrow> nat \<Rightarrow> u16" where
  "le16 b i = ucast (b i) OR push_bit 8 (ucast (b (i + 1)))"

definition le32 :: "(nat \<Rightarrow> u8) \<Rightarrow> nat \<Rightarrow> u32" where
  "le32 b i = ucast (b i) OR push_bit 8 (ucast (b (i + 1))) OR push_bit 16 (ucast (b (i + 2)))
     OR push_bit 24 (ucast (b (i + 3)))"

definition pib_ptr :: "pib_field \<Rightarrow> 'a sdk_state_scheme \<Rightarrow> addr" where
  "pib_ptr f s = le32 (g_zbMacPib s) (OFFSETOF f)"

definition pib_set_ptr :: "pib_field \<Rightarrow> addr \<Rightarrow> 'a sdk_state_scheme \<Rightarrow> 'a sdk_state_scheme" where
  "pib_set_ptr f v s = s\<lparr>g_zbMacPib := (g_zbMacPib s)(OFFSETOF f := ucast v, OFFSETOF f + 1 := ucast (drop_bit 8 v),
     OFFSETOF f + 2 := ucast (drop_bit 16 v), OFFSETOF f + 3 := ucast (drop_bit 24 v))\<rparr>"

definition copy_bytes :: "(nat \<Rightarrow> u8) \<Rightarrow> nat \<Rightarrow> (nat \<Rightarrow> u8) \<Rightarrow> nat \<Rightarrow> nat \<Rightarrow> nat \<Rightarrow> u8" where
  "copy_bytes dst d src k n = (\<lambda>i. if d \<le> i \<and> i < d + n then src (k + (i - d)) else dst i)"

section \<open>The attribute table\<close>

record mac_pibTbl_t =
  tbl_offset :: nat
  tbl_len :: u16
  tbl_min :: u32
  tbl_max :: u32

definition tbl :: "pib_field \<Rightarrow> u16 \<Rightarrow> u32 \<Rightarrow> u32 \<Rightarrow> mac_pibTbl_t" where
  "tbl f n lo hi = \<lparr>tbl_offset = OFFSETOF f, tbl_len = n, tbl_min = lo, tbl_max = hi\<rparr>"

definition g_zbMacPibTbl :: "mac_pibTbl_t list" where
  "g_zbMacPibTbl =
     [tbl ackWaitDuration 1 54 54, tbl associationPermit 1 0 1, tbl autoReq 1 0 1, tbl battLifeExt 1 0 1,
      tbl battLifeExtPeriods 1 6 6, tbl beaconPayload 15 0 0, tbl beaconPayloadLen 1 0 52, tbl beaconOrder 1 0 15,
      tbl beaconTxTime 4 1 1, tbl beaconSeqNum 1 0 0xFF, tbl coordExtAddress 8 0 0, tbl coordShortAddress 2 0 0,
      tbl seqNum 1 0 0xFF, tbl gtsPermit 1 0 1, tbl maxCsmaBackoffs 1 0 254, tbl minBe 1 0 8, tbl panId 2 0 0,
      tbl promiscuousMode 1 0 1, tbl rxOnWhenIdle 1 0 1, tbl shortAddress 2 0 0, tbl superframeOrder 1 0 15,
      tbl transactionPersistenceTime 2 0 0, tbl associatedPanCoord 1 0 1, tbl maxBe 1 0 8,
      tbl frameTotalWaitTime 2 0 0xFF, tbl frameRetryNum 1 0 7, tbl respWaitTime 1 2 64, tbl syncSymbolOffset 1 0 0,
      tbl timeStampSupported 1 0 1, tbl securityEnabled 1 0 1, tbl extAddress 8 0 1, tbl txPower 1 0 11,
      tbl keyTable 4 0 0, tbl keyTableEntries 1 0 16, tbl devTable 4 0 0, tbl devTableEntries 1 0 16,
      tbl secLvlTable 4 0 0, tbl secLvlTableEntries 1 0 6, tbl frameCounter 4 0 0xFFFFFFFF, tbl autoReqSecLvl 1 0 7,
      tbl autoReqKeyIdMode 1 0 3, tbl autoReqKeySource 8 0 0, tbl autoReqKeyIndex 1 1 0xFF, tbl defaultKeySource 8 0 0,
      tbl panCoordExtAddr 8 0 0, tbl panCoordShortAddr 2 0 0]"

definition MAC_PHY_ATTR_CURRENT_CHANNEL :: u8 where "MAC_PHY_ATTR_CURRENT_CHANNEL = 0x00"
definition MAC_PIB_ATTRIBUTE_START :: u8 where "MAC_PIB_ATTRIBUTE_START = 0x40"
definition MAC_ATTR_BEACON_PAYLOAD :: u8 where "MAC_ATTR_BEACON_PAYLOAD = 0x45"
definition MAC_ATTR_COORDINATOR_EXTENDED_ADDRESS :: u8 where "MAC_ATTR_COORDINATOR_EXTENDED_ADDRESS = 0x4A"
definition MAC_ATTR_COORDINATOR_SHORT_ADDRESS :: u8 where "MAC_ATTR_COORDINATOR_SHORT_ADDRESS = 0x4B"
definition MAC_ATTR_PAN_ID :: u8 where "MAC_ATTR_PAN_ID = 0x50"
definition MAC_ATTR_SECURITY_ENABLED :: u8 where "MAC_ATTR_SECURITY_ENABLED = 0x5D"
definition MAC_TX_POWER :: u8 where "MAC_TX_POWER = 0x5F"
definition MAC_KEY_TABLE :: u8 where "MAC_KEY_TABLE = 0x71"
definition MAC_DEVICE_TABLE :: u8 where "MAC_DEVICE_TABLE = 0x73"
definition MAC_SECURITY_LEVEL_TABLE :: u8 where "MAC_SECURITY_LEVEL_TABLE = 0x75"
definition MAC_DEFAULT_KEY_SOURCE :: u8 where "MAC_DEFAULT_KEY_SOURCE = 0x7C"
definition MAC_PIB_ATTRIBUTE_STOP :: u8 where "MAC_PIB_ATTRIBUTE_STOP = 0x7F"
definition MAC_SUCCESS :: u8 where "MAC_SUCCESS = 0"
definition MAC_STA_INVALID_PARAMETER :: u8 where "MAC_STA_INVALID_PARAMETER = 0xE8"

lemmas mac_attr_defs =
  MAC_PHY_ATTR_CURRENT_CHANNEL_def MAC_PIB_ATTRIBUTE_START_def MAC_ATTR_BEACON_PAYLOAD_def
  MAC_ATTR_COORDINATOR_EXTENDED_ADDRESS_def MAC_ATTR_COORDINATOR_SHORT_ADDRESS_def MAC_ATTR_PAN_ID_def
  MAC_ATTR_SECURITY_ENABLED_def MAC_TX_POWER_def MAC_KEY_TABLE_def MAC_DEVICE_TABLE_def
  MAC_SECURITY_LEVEL_TABLE_def MAC_DEFAULT_KEY_SOURCE_def MAC_PIB_ATTRIBUTE_STOP_def

section \<open>The library's lists and pools\<close>

record tn_lib =
  tn_list_init :: "addr \<Rightarrow> wmem \<Rightarrow> wmem"
  tn_list_head :: "addr \<Rightarrow> wmem \<Rightarrow> addr"
  tn_list_item_next :: "addr \<Rightarrow> wmem \<Rightarrow> addr"
  tn_list_add :: "addr \<Rightarrow> addr \<Rightarrow> wmem \<Rightarrow> wmem"
  tn_list_push :: "addr \<Rightarrow> addr \<Rightarrow> wmem \<Rightarrow> wmem"
  tn_list_insert :: "addr \<Rightarrow> addr \<Rightarrow> addr \<Rightarrow> wmem \<Rightarrow> wmem"
  tn_list_remove :: "addr \<Rightarrow> addr \<Rightarrow> wmem \<Rightarrow> wmem"
  tn_list_pop :: "addr \<Rightarrow> wmem \<Rightarrow> addr \<times> wmem"
  tn_mem_init :: "addr \<Rightarrow> wmem \<Rightarrow> wmem"
  tn_mem_alloc :: "addr \<Rightarrow> wmem \<Rightarrow> addr \<times> wmem"
  tn_mem_free :: "addr \<Rightarrow> addr \<Rightarrow> wmem \<Rightarrow> u8 \<times> wmem"

text \<open>Where the linker puts the static pools and list variables.\<close>

record sec_vars =
  macKeyIDMem :: addr
  macDeviceMem :: addr
  macKeyUsageMem :: addr
  macSecLvlMem :: addr
  macKeyMem :: addr
  macKeyDevMem :: addr
  macKeyTable :: addr
  macDevTable :: addr
  macSecLvlTable :: addr
  macKeyDevTable :: addr

datatype mac_secMaterial_t =
    MAC_SECMATERIAL_KEYID_LOOKUP_DESC | MAC_SECMATERIAL_DEVICE_DESC | MAC_SECMATERIAL_KEYUSAGE_DESC
  | MAC_SECMATERIAL_SECLEVEL_DESC | MAC_SECMATERIAL_KEY_DESC | MAC_SECMATERIAL_KEYDEV_DESC

primrec material_pool :: "sec_vars \<Rightarrow> mac_secMaterial_t \<Rightarrow> addr" where
  "material_pool V MAC_SECMATERIAL_KEYID_LOOKUP_DESC = macKeyIDMem V"
| "material_pool V MAC_SECMATERIAL_DEVICE_DESC = macDeviceMem V"
| "material_pool V MAC_SECMATERIAL_KEYUSAGE_DESC = macKeyUsageMem V"
| "material_pool V MAC_SECMATERIAL_SECLEVEL_DESC = macSecLvlMem V"
| "material_pool V MAC_SECMATERIAL_KEY_DESC = macKeyMem V"
| "material_pool V MAC_SECMATERIAL_KEYDEV_DESC = macKeyDevMem V"

definition mac_secMaterial_Init :: "tn_lib \<Rightarrow> sec_vars \<Rightarrow> u8 \<Rightarrow> 'a sdk_state_scheme \<Rightarrow> 'a sdk_state_scheme" where
  "mac_secMaterial_Init L V coldReset s =
     (let s1 = (if coldReset \<noteq> 0 then
                  let m1 = fold (tn_mem_init L)
                        [macKeyIDMem V, macDeviceMem V, macKeyUsageMem V, macSecLvlMem V, macKeyMem V, macKeyDevMem V]
                        (mem s)
                  in s\<lparr>mem := fold (tn_list_init L)
                        [macKeyTable V, macDevTable V, macSecLvlTable V, macKeyDevTable V] m1\<rparr>
                else s)
      in pib_set_ptr secLvlTable (macSecLvlTable V)
           (pib_set_ptr devTable (macDevTable V) (pib_set_ptr keyTable (macKeyTable V) s1)))"

definition mac_secMaterial_alloc ::
  "tn_lib \<Rightarrow> sec_vars \<Rightarrow> mac_secMaterial_t \<Rightarrow> 'a sdk_state_scheme \<Rightarrow> addr \<times> 'a sdk_state_scheme" where
  "mac_secMaterial_alloc L V t s = (let (p, m) = tn_mem_alloc L (material_pool V t) (mem s) in (p, s\<lparr>mem := m\<rparr>))"

definition mac_secMaterial_free ::
  "tn_lib \<Rightarrow> sec_vars \<Rightarrow> mac_secMaterial_t \<Rightarrow> addr \<Rightarrow> 'a sdk_state_scheme \<Rightarrow> u8 \<times> 'a sdk_state_scheme" where
  "mac_secMaterial_free L V t item s =
     (let (r, m) = tn_mem_free L (material_pool V t) item (mem s) in (r, s\<lparr>mem := m\<rparr>))"

text \<open>
  Byte \<open>k\<close> of the word at \<open>a\<close>. The three counters of a key descriptor are the first bytes of its word at
  offset 44, its list pointers the words at offsets 8, 16 and 24.
\<close>

definition mem_byte :: "wmem \<Rightarrow> addr \<Rightarrow> nat \<Rightarrow> u8" where
  "mem_byte m a k = ucast (drop_bit (8 * k) (m a))"

definition set_mem_byte :: "wmem \<Rightarrow> addr \<Rightarrow> nat \<Rightarrow> u8 \<Rightarrow> wmem" where
  "set_mem_byte m a k v = m(a := m a AND NOT (push_bit (8 * k) 0xFF) OR push_bit (8 * k) (ucast v))"

partial_function (option) key_free_loop :: "tn_lib \<Rightarrow> addr \<Rightarrow> addr \<Rightarrow> addr \<Rightarrow> nat \<Rightarrow> wmem \<Rightarrow> wmem option" where
  "key_free_loop L pool key off k m =
     (let v = mem_byte m (key + 44) k; m1 = set_mem_byte m (key + 44) k (v - 1)
      in if v \<noteq> 0 then
           let (item, m2) = tn_list_pop L (m1 (key + off)) m1
           in key_free_loop L pool key off k (snd (tn_mem_free L pool item m2))
         else Some m1)"

definition mac_key_free :: "tn_lib \<Rightarrow> sec_vars \<Rightarrow> addr \<Rightarrow> wmem \<Rightarrow> wmem option" where
  "mac_key_free L V key m =
     do {
       m1 \<leftarrow> key_free_loop L (macKeyIDMem V) key 8 0 m;
       m2 \<leftarrow> key_free_loop L (macKeyDevMem V) key 16 1 m1;
       m3 \<leftarrow> key_free_loop L (macKeyUsageMem V) key 24 2 m2;
       Some (snd (tn_mem_free L (macKeyMem V) key m3))
     }"

section \<open>Tables by index\<close>

text \<open>\<^verbatim>\<open>while (pibIndex--)\<close>: the item at the index and the one before it.\<close>

primrec walk_items :: "tn_lib \<Rightarrow> wmem \<Rightarrow> nat \<Rightarrow> addr \<Rightarrow> addr \<Rightarrow> addr \<times> addr" where
  "walk_items L m 0 prev item = (prev, item)"
| "walk_items L m (Suc n) prev item = walk_items L m n item (tn_list_item_next L item m)"

text \<open>
  What the three branches for the tables of \<^verbatim>\<open>tl_zbMacAttrSet\<close> do, with the table's list pointer \<open>lf\<close>, its
  counter \<open>ef\<close> and the release of a replaced entry.
\<close>

definition sec_table_set ::
  "tn_lib \<Rightarrow> pib_field \<Rightarrow> pib_field \<Rightarrow> (addr \<Rightarrow> wmem \<Rightarrow> wmem option) \<Rightarrow> addr \<Rightarrow> u8 \<Rightarrow> 'a sdk_state_scheme
   \<Rightarrow> (u8 \<times> 'a sdk_state_scheme) option" where
  "sec_table_set L lf ef rel val pibIndex s =
     (if pibIndex > pib_u8 ef s then Some (MAC_STA_INVALID_PARAMETER, s)
      else if pibIndex = pib_u8 ef s then
        let s1 = s\<lparr>mem := tn_list_add L (pib_ptr lf s) val (mem s)\<rparr>
        in Some (MAC_SUCCESS, pib_set_u8 ef (pib_u8 ef s1 + 1) s1)
      else
        let lst = pib_ptr lf s;
            (item2, item) = walk_items L (mem s) (unat pibIndex) NULL (tn_list_head L lst (mem s));
            m1 = tn_list_remove L lst item (mem s);
            m2 = (if item2 \<noteq> NULL then tn_list_insert L lst item2 val m1 else tn_list_push L lst val m1)
        in do { m3 \<leftarrow> rel item m2; Some (MAC_SUCCESS, s\<lparr>mem := m3\<rparr>) })"

definition sec_table_get :: "tn_lib \<Rightarrow> pib_field \<Rightarrow> pib_field \<Rightarrow> u8 \<Rightarrow> 'a sdk_state_scheme \<Rightarrow> addr option" where
  "sec_table_get L lf ef pibIndex s =
     (if pibIndex \<ge> pib_u8 ef s then None
      else Some (snd (walk_items L (mem s) (unat pibIndex) NULL (tn_list_head L (pib_ptr lf s) (mem s)))))"

definition sec_table_del ::
  "tn_lib \<Rightarrow> pib_field \<Rightarrow> pib_field \<Rightarrow> (addr \<Rightarrow> wmem \<Rightarrow> wmem option) \<Rightarrow> u8 \<Rightarrow> 'a sdk_state_scheme
   \<Rightarrow> (u8 \<times> 'a sdk_state_scheme) option" where
  "sec_table_del L lf ef rel pibIndex s =
     (if pibIndex \<ge> pib_u8 ef s then Some (MAC_STA_INVALID_PARAMETER, s)
      else
        let lst = pib_ptr lf s;
            item = snd (walk_items L (mem s) (unat pibIndex) NULL (tn_list_head L lst (mem s)));
            s1 = s\<lparr>mem := tn_list_remove L lst item (mem s)\<rparr>;
            s2 = pib_set_u8 ef (pib_u8 ef s1 - 1) s1
        in do { m3 \<leftarrow> rel item (mem s2); Some (MAC_SUCCESS, s2\<lparr>mem := m3\<rparr>) })"

abbreviation rel_dev :: "tn_lib \<Rightarrow> sec_vars \<Rightarrow> addr \<Rightarrow> wmem \<Rightarrow> wmem option" where
  "rel_dev L V item m \<equiv> Some (snd (tn_mem_free L (macDeviceMem V) item m))"

abbreviation rel_lvl :: "tn_lib \<Rightarrow> sec_vars \<Rightarrow> addr \<Rightarrow> wmem \<Rightarrow> wmem option" where
  "rel_lvl L V item m \<equiv> Some (snd (tn_mem_free L (macSecLvlMem V) item m))"

section \<open>The attribute functions\<close>

text \<open>
  \<open>val\<close> is the pointer, \<open>buf\<close> the bytes it points to; the result is the status, the bytes afterwards and
  the state. The result \<open>None\<close> stands for an index outside \<^verbatim>\<open>g_zbMacPibTbl\<close>, whose outcome C leaves
  undefined (and for a key whose release does not end).
\<close>

definition attr_set_index :: "u8 \<Rightarrow> nat" where
  "attr_set_index attribute =
     (let off = (if attribute \<ge> MAC_KEY_TABLE then MAC_KEY_TABLE - MAC_TX_POWER - 1 else 0)
      in unat (attribute - MAC_PIB_ATTRIBUTE_START - off))"

definition attr_get_index :: "u8 \<Rightarrow> nat" where
  "attr_get_index attribute = unat (attribute - MAC_PIB_ATTRIBUTE_START)"

definition tl_zbMacAttrSet ::
  "tn_lib \<Rightarrow> sec_vars \<Rightarrow> u8 \<Rightarrow> addr \<Rightarrow> (nat \<Rightarrow> u8) \<Rightarrow> u8 \<Rightarrow> 'a sdk_state_scheme
   \<Rightarrow> (u8 \<times> (nat \<Rightarrow> u8) \<times> 'a sdk_state_scheme) option" where
  "tl_zbMacAttrSet L V attribute val buf index s =
     (if attribute = MAC_TX_POWER then
        let buf1 = (if buf 0 > 11 then buf(0 := 11) else buf)
        in Some (MAC_SUCCESS, buf1, emit (RadioTxPower (buf1 0)) s)
      else if attribute = MAC_PHY_ATTR_CURRENT_CHANNEL then
        Some (MAC_SUCCESS, buf, pib_set_u8 phyChannelCur (buf 0) s)
      else if attribute > MAC_PIB_ATTRIBUTE_STOP \<or> attribute < MAC_PIB_ATTRIBUTE_START then
        Some (MAC_STA_INVALID_PARAMETER, buf, s)
      else if attribute = MAC_KEY_TABLE then
        map_option (\<lambda>(r, s'). (r, buf, s')) (sec_table_set L keyTable keyTableEntries (mac_key_free L V) val index s)
      else if attribute = MAC_DEVICE_TABLE then
        map_option (\<lambda>(r, s'). (r, buf, s')) (sec_table_set L devTable devTableEntries (rel_dev L V) val index s)
      else if attribute = MAC_SECURITY_LEVEL_TABLE then
        map_option (\<lambda>(r, s'). (r, buf, s')) (sec_table_set L secLvlTable secLvlTableEntries (rel_lvl L V) val index s)
      else
        let i = attr_set_index attribute
        in if i \<ge> length g_zbMacPibTbl then None
           else if ucast index > tbl_len (g_zbMacPibTbl ! i) then Some (MAC_STA_INVALID_PARAMETER, buf, s)
           else Some (MAC_SUCCESS, buf,
                  s\<lparr>g_zbMacPib := copy_bytes (g_zbMacPib s) (tbl_offset (g_zbMacPibTbl ! i)) buf 0 (unat index)\<rparr>))"

text \<open>A pointer as the four bytes that storing it writes.\<close>

definition put_ptr :: "addr \<Rightarrow> (nat \<Rightarrow> u8) \<Rightarrow> nat \<Rightarrow> u8" where
  "put_ptr p buf = buf(0 := ucast p, 1 := ucast (drop_bit 8 p), 2 := ucast (drop_bit 16 p), 3 := ucast (drop_bit 24 p))"

definition table_result :: "(nat \<Rightarrow> u8) \<Rightarrow> u8 \<Rightarrow> addr option \<Rightarrow> u8 \<times> (nat \<Rightarrow> u8) \<times> u8" where
  "table_result buf index r =
     (case r of None \<Rightarrow> (MAC_STA_INVALID_PARAMETER, buf, index) | Some p \<Rightarrow> (MAC_SUCCESS, put_ptr p buf, index))"

definition tl_zbMacAttrGet ::
  "tn_lib \<Rightarrow> u8 \<Rightarrow> (nat \<Rightarrow> u8) \<Rightarrow> u8 \<Rightarrow> 'a sdk_state_scheme \<Rightarrow> (u8 \<times> (nat \<Rightarrow> u8) \<times> u8) option" where
  "tl_zbMacAttrGet L attribute buf index s =
     (if attribute = MAC_PHY_ATTR_CURRENT_CHANNEL then
        Some (MAC_SUCCESS, buf(0 := pib_u8 phyChannelCur s), 1)
      else if attribute > MAC_PIB_ATTRIBUTE_STOP \<or> attribute < MAC_PIB_ATTRIBUTE_START then
        Some (MAC_STA_INVALID_PARAMETER, buf, index)
      else if attribute = MAC_KEY_TABLE then Some (table_result buf index (sec_table_get L keyTable keyTableEntries index s))
      else if attribute = MAC_DEVICE_TABLE then
        Some (table_result buf index (sec_table_get L devTable devTableEntries index s))
      else if attribute = MAC_SECURITY_LEVEL_TABLE then
        Some (table_result buf index (sec_table_get L secLvlTable secLvlTableEntries index s))
      else
        let i = attr_get_index attribute
        in if i \<ge> length g_zbMacPibTbl then None
           else
             let len = ucast (tbl_len (g_zbMacPibTbl ! i)) :: u8;
                 buf1 = copy_bytes buf 0 (g_zbMacPib s) (tbl_offset (g_zbMacPibTbl ! i)) (unat len);
                 len1 = (if attribute = MAC_ATTR_BEACON_PAYLOAD \<and> pib_u8 beaconPayloadLen s \<le> len
                         then pib_u8 beaconPayloadLen s else len)
             in Some (MAC_SUCCESS, buf1, len1))"

definition tl_zbMacSecAttrDel ::
  "tn_lib \<Rightarrow> sec_vars \<Rightarrow> u8 \<Rightarrow> u8 \<Rightarrow> 'a sdk_state_scheme \<Rightarrow> (u8 \<times> 'a sdk_state_scheme) option" where
  "tl_zbMacSecAttrDel L V pibAttribute pibIndex s =
     (if pibAttribute = MAC_KEY_TABLE then sec_table_del L keyTable keyTableEntries (mac_key_free L V) pibIndex s
      else if pibAttribute = MAC_DEVICE_TABLE then sec_table_del L devTable devTableEntries (rel_dev L V) pibIndex s
      else if pibAttribute = MAC_SECURITY_LEVEL_TABLE then
        sec_table_del L secLvlTable secLvlTableEntries (rel_lvl L V) pibIndex s
      else Some (MAC_STA_INVALID_PARAMETER, s))"

definition updateKeyDevTable :: "tn_lib \<Rightarrow> sec_vars \<Rightarrow> addr \<Rightarrow> 'a sdk_state_scheme \<Rightarrow> 'a sdk_state_scheme" where
  "updateKeyDevTable L V desc s = s\<lparr>mem := tn_list_add L (macKeyDevTable V) desc (mem s)\<rparr>"

section \<open>The table evaluated\<close>

fun ranges_disjoint :: "(nat \<times> nat) list \<Rightarrow> bool" where
  "ranges_disjoint [] = True"
| "ranges_disjoint ((a, n) # xs) = (list_all (\<lambda>(b, k). a + n \<le> b \<or> b + k \<le> a) xs \<and> ranges_disjoint xs)"

definition tbl_ranges :: "(nat \<times> nat) list" where
  "tbl_ranges = map (\<lambda>e. (tbl_offset e, unat (tbl_len e))) g_zbMacPibTbl"

lemma tbl_ranges_eval:
  "tbl_ranges =
     [(20, 1), (52, 1), (54, 1), (55, 1), (56, 1), (36, 15), (51, 1), (57, 1), (0, 4), (58, 1), (4, 8), (22, 2),
      (59, 1), (66, 1), (62, 1), (67, 1), (24, 2), (63, 1), (71, 1), (26, 2), (28, 1), (30, 2), (53, 1), (68, 1),
      (32, 2), (60, 1), (61, 1), (34, 1), (64, 1), (65, 1), (12, 8), (72, 1), (76, 4), (88, 1), (80, 4), (89, 1),
      (84, 4), (90, 1), (92, 4), (91, 1), (104, 1), (96, 8), (105, 1), (108, 8), (116, 8), (106, 2)]"
  by (simp add: tbl_ranges_def g_zbMacPibTbl_def tbl_def OFFSETOF_def pib_layout_def)

lemma length_tbl [simp]: "length g_zbMacPibTbl = 46"
  by (simp add: g_zbMacPibTbl_def)

lemma ranges_disjoint_nth:
  assumes "ranges_disjoint xs" "i < length xs" "j < length xs" "i \<noteq> j"
  shows "fst (xs ! i) + snd (xs ! i) \<le> fst (xs ! j) \<or> fst (xs ! j) + snd (xs ! j) \<le> fst (xs ! i)"
  using assms
proof (induction xs arbitrary: i j rule: ranges_disjoint.induct)
  case (2 a n xs)
  show ?case
  proof (cases i)
    case 0
    then obtain k where "j = Suc k" "k < length xs"
      using 2 by (cases j) auto
    then show ?thesis
      using 2(2) 0 by (auto simp: list_all_length case_prod_beta)
  next
    case (Suc i')
    show ?thesis
    proof (cases j)
      case 0
      then show ?thesis
        using 2 Suc by (auto simp: list_all_length case_prod_beta)
    next
      case (Suc j')
      then show ?thesis
        using 2 \<open>i = Suc i'\<close> by simp
    qed
  qed
qed simp

lemma tbl_disjoint: "ranges_disjoint tbl_ranges"
  unfolding tbl_ranges_eval by simp

lemma tbl_apart:
  assumes "i < 46" "j < 46" "i \<noteq> j"
  shows "tbl_offset (g_zbMacPibTbl ! i) + unat (tbl_len (g_zbMacPibTbl ! i)) \<le> tbl_offset (g_zbMacPibTbl ! j) \<or>
         tbl_offset (g_zbMacPibTbl ! j) + unat (tbl_len (g_zbMacPibTbl ! j)) \<le> tbl_offset (g_zbMacPibTbl ! i)"
  using ranges_disjoint_nth [OF tbl_disjoint, of i j] assms by (simp add: tbl_ranges_def)

lemma tbl_len_bounds:
  assumes "i < 46"
  shows "0 < unat (tbl_len (g_zbMacPibTbl ! i))" "unat (tbl_len (g_zbMacPibTbl ! i)) \<le> 15"
proof -
  have "list_all (\<lambda>(a, n). 0 < n \<and> n \<le> 15) tbl_ranges"
    unfolding tbl_ranges_eval by simp
  then have "\<forall>i<46. case tbl_ranges ! i of (a, n) \<Rightarrow> 0 < n \<and> n \<le> 15"
    by (simp add: list_all_length tbl_ranges_def)
  then show "0 < unat (tbl_len (g_zbMacPibTbl ! i))" "unat (tbl_len (g_zbMacPibTbl ! i)) \<le> 15"
    using assms by (auto simp: tbl_ranges_def)
qed

section \<open>Attributes by identifier\<close>

text \<open>The identifiers 0x40 to 0x5E, which are plain valueues for reading and writing alike.\<close>

definition plain_attr :: "u8 \<Rightarrow> bool" where
  "plain_attr a \<longleftrightarrow> 0x40 \<le> a \<and> a < 0x5F"

lemma plain_attr_index:
  assumes "plain_attr a"
  shows "attr_set_index a = unat a - 64" "attr_get_index a = unat a - 64" "64 \<le> unat a" "unat a < 95"
proof -
  have le: "0x40 \<le> a" and u: "64 \<le> unat a" "unat a < 95"
    using assms by (simp_all add: plain_attr_def word_le_nat_alt word_less_nat_alt)
  have "unat (a - 0x40) = unat a - 64"
    using unat_sub [OF le] by simp
  moreover have "\<not> MAC_KEY_TABLE \<le> a"
    using u by (simp add: word_le_nat_alt MAC_KEY_TABLE_def)
  ultimately show "attr_set_index a = unat a - 64" "attr_get_index a = unat a - 64" "64 \<le> unat a" "unat a < 95"
    using u by (simp_all add: attr_set_index_def attr_get_index_def MAC_PIB_ATTRIBUTE_START_def)
qed

lemma plain_attr_ne:
  assumes "plain_attr a"
  shows "a \<noteq> MAC_TX_POWER" "a \<noteq> MAC_PHY_ATTR_CURRENT_CHANNEL" "\<not> a > MAC_PIB_ATTRIBUTE_STOP" "\<not> a < MAC_PIB_ATTRIBUTE_START"
    "a \<noteq> MAC_KEY_TABLE" "a \<noteq> MAC_DEVICE_TABLE" "a \<noteq> MAC_SECURITY_LEVEL_TABLE"
  using assms by (auto simp: plain_attr_def mac_attr_defs word_less_nat_alt word_le_nat_alt)

lemma set_plain:
  assumes "plain_attr a" "unat index \<le> unat (tbl_len (g_zbMacPibTbl ! (unat a - 64)))"
  shows "tl_zbMacAttrSet L V a val buf index s =
    Some (MAC_SUCCESS, buf, s\<lparr>g_zbMacPib :=
      copy_bytes (g_zbMacPib s) (tbl_offset (g_zbMacPibTbl ! (unat a - 64))) buf 0 (unat index)\<rparr>)"
proof -
  have "unat (ucast index :: u16) = unat index"
    using unsigned_less [of index, where 'a = nat] by (simp add: unsigned_ucast_eq take_bit_nat_eq_self)
  then have "\<not> ucast index > tbl_len (g_zbMacPibTbl ! (unat a - 64))"
    using assms(2) by (simp add: word_less_nat_alt)
  then show ?thesis
    using plain_attr_ne [OF assms(1)] plain_attr_index [OF assms(1)]
    by (simp add: tl_zbMacAttrSet_def Let_def)
qed

lemma get_plain:
  assumes "plain_attr a"
  defines "e \<equiv> g_zbMacPibTbl ! (unat a - 64)"
  shows "\<exists>len. tl_zbMacAttrGet L a buf index s =
      Some (MAC_SUCCESS, copy_bytes buf 0 (g_zbMacPib s) (tbl_offset e) (unat (tbl_len e)), len) \<and>
      (a \<noteq> MAC_ATTR_BEACON_PAYLOAD \<longrightarrow> unat len = unat (tbl_len e))"
proof -
  have "unat a - 64 < 46"
    using plain_attr_index(4) [OF assms(1)] by simp
  then have "unat (tbl_len e) < 2 ^ 8"
    using tbl_len_bounds(2) by (fastforce simp: e_def)
  then have "unat (ucast (tbl_len e) :: u8) = unat (tbl_len e)"
    by (simp add: unsigned_ucast_eq take_bit_nat_eq_self)
  then show ?thesis
    using plain_attr_ne [OF assms(1)] plain_attr_index [OF assms(1)]
    by (simp add: tl_zbMacAttrGet_def Let_def e_def)
qed

section \<open>The tables as lists\<close>

text \<open>
  The contract of the library's lists: \<open>rep m l xs\<close> says that in memory \<open>m\<close> the list variable \<open>l\<close> holds the
  items \<open>xs\<close>. Releasing an item that is not on a list leaves the list alone.
\<close>

locale tn_lists =
  fixes L :: tn_lib and rep :: "wmem \<Rightarrow> addr \<Rightarrow> addr list \<Rightarrow> bool"
  assumes rep_distinct: "rep m l xs \<Longrightarrow> distinct xs \<and> NULL \<notin> set xs"
    and head: "rep m l xs \<Longrightarrow> tn_list_head L l m = (if xs = [] then NULL else hd xs)"
    and item_next: "rep m l (as @ x # y # bs) \<Longrightarrow> tn_list_item_next L x m = y"
    and add: "rep m l xs \<Longrightarrow> x \<noteq> NULL \<Longrightarrow> x \<notin> set xs \<Longrightarrow> x \<noteq> l \<Longrightarrow> rep (tn_list_add L l x m) l (xs @ [x])"
    and push: "rep m l xs \<Longrightarrow> x \<noteq> NULL \<Longrightarrow> x \<notin> set xs \<Longrightarrow> x \<noteq> l \<Longrightarrow> rep (tn_list_push L l x m) l (x # xs)"
    and ins: "rep m l (as @ p # bs) \<Longrightarrow> x \<noteq> NULL \<Longrightarrow> x \<notin> set (as @ p # bs) \<Longrightarrow> x \<noteq> l \<Longrightarrow>
              rep (tn_list_insert L l p x m) l (as @ p # x # bs)"
    and remove: "rep m l (as @ x # bs) \<Longrightarrow> rep (tn_list_remove L l x m) l (as @ bs)"
    and release: "rep m l xs \<Longrightarrow> x \<notin> set xs \<Longrightarrow> rep (snd (tn_mem_free L d x m)) l xs"

definition table_rep ::
  "(wmem \<Rightarrow> addr \<Rightarrow> addr list \<Rightarrow> bool) \<Rightarrow> pib_field \<Rightarrow> pib_field \<Rightarrow> 'a sdk_state_scheme \<Rightarrow> addr list \<Rightarrow> bool" where
  "table_rep rep lf ef s xs \<longleftrightarrow> rep (mem s) (pib_ptr lf s) xs \<and> unat (pib_u8 ef s) = length xs"

text \<open>What the three operations do to a table, as a list.\<close>

definition spec_set :: "nat \<Rightarrow> addr \<Rightarrow> addr list \<Rightarrow> u8 \<times> addr list" where
  "spec_set i x xs =
     (if i > length xs then (MAC_STA_INVALID_PARAMETER, xs)
      else if i = length xs then (MAC_SUCCESS, xs @ [x]) else (MAC_SUCCESS, xs[i := x]))"

definition spec_get :: "nat \<Rightarrow> addr list \<Rightarrow> addr option" where
  "spec_get i xs = (if i < length xs then Some (xs ! i) else None)"

definition spec_del :: "nat \<Rightarrow> addr list \<Rightarrow> u8 \<times> addr list" where
  "spec_del i xs =
     (if i < length xs then (MAC_SUCCESS, take i xs @ drop (Suc i) xs) else (MAC_STA_INVALID_PARAMETER, xs))"

text \<open>The counters do not overlap the list pointers.\<close>

definition table_fields :: "pib_field \<Rightarrow> pib_field \<Rightarrow> bool" where
  "table_fields lf ef \<longleftrightarrow> OFFSETOF ef < OFFSETOF lf \<or> OFFSETOF lf + 3 < OFFSETOF ef"

lemma table_fields_of:
  "table_fields keyTable keyTableEntries" "table_fields devTable devTableEntries"
  "table_fields secLvlTable secLvlTableEntries"
  by (simp_all add: table_fields_def OFFSETOF_def pib_layout_def)

lemma pib_set_u8_sel [simp]:
  "mem (pib_set_u8 f v s) = mem s" "pib_u8 f (pib_set_u8 f v s) = v"
  by (simp_all add: pib_set_u8_def pib_u8_def)

lemma pib_ptr_set_u8 [simp]: "table_fields lf ef \<Longrightarrow> pib_ptr lf (pib_set_u8 ef v s) = pib_ptr lf s"
  by (auto simp: pib_ptr_def pib_set_u8_def table_fields_def le32_def)

lemma pib_mem_upd [simp]:
  "pib_u8 f (s\<lparr>mem := m\<rparr>) = pib_u8 f s" "pib_ptr f (s\<lparr>mem := m\<rparr>) = pib_ptr f s"
  by (simp_all add: pib_u8_def pib_ptr_def)

lemma nth_notin_rest:
  assumes "distinct xs" "n < length xs"
  shows "xs ! n \<notin> set (take n xs @ drop (Suc n) xs)"
proof -
  have "distinct (take n xs @ xs ! n # drop (Suc n) xs)"
    using assms by (simp only: id_take_nth_drop [symmetric])
  then show ?thesis
    by auto
qed

context tn_lists
begin

lemma walk_from:
  "rep m l (as @ x # bs) \<Longrightarrow> n \<le> length bs \<Longrightarrow>
   walk_items L m n p x = (if n = 0 then p else (x # bs) ! (n - 1), (x # bs) ! n)"
proof (induction n arbitrary: as x bs p)
  case (Suc n)
  then obtain y ys where bs: "bs = y # ys"
    by (cases bs) auto
  have nx: "tn_list_item_next L x m = y"
    using item_next Suc.prems bs by blast
  have "walk_items L m n x y = (if n = 0 then x else (y # ys) ! (n - 1), (y # ys) ! n)"
    by (rule Suc.IH [of "as @ [x]"]) (use Suc.prems bs in auto)
  then show ?case
    using nx bs by (cases n) auto
qed simp

lemma walk:
  assumes "rep m l xs" "n < length xs"
  shows "walk_items L m n NULL (tn_list_head L l m) = (if n = 0 then NULL else xs ! (n - 1), xs ! n)"
proof (cases xs)
  case (Cons x bs)
  then show ?thesis
    using walk_from [of m l "[]" x bs n NULL] head [OF assms(1)] assms by simp
qed (use assms in simp)

lemma walk_item:
  assumes "rep m l xs" "n < length xs"
  shows "snd (walk_items L m n NULL (tn_list_head L l m)) = xs ! n"
  by (simp add: walk [OF assms])

lemma table_get:
  "table_rep rep lf ef s xs \<Longrightarrow> sec_table_get L lf ef i s = spec_get (unat i) xs"
  by (auto simp: table_rep_def sec_table_get_def spec_get_def walk word_le_nat_alt)

lemma table_set:
  assumes "table_rep rep lf ef s xs" "table_fields lf ef" "length xs < 255"
    and x: "x \<noteq> NULL" "x \<notin> set xs" "x \<noteq> pib_ptr lf s"
  shows "\<exists>s'. sec_table_set L lf ef (\<lambda>item m. Some (snd (tn_mem_free L d item m))) x i s =
           Some (fst (spec_set (unat i) x xs), s') \<and> table_rep rep lf ef s' (snd (spec_set (unat i) x xs))"
proof -
  let ?l = "pib_ptr lf s"
  have r: "rep (mem s) ?l xs" and n: "unat (pib_u8 ef s) = length xs"
    using assms(1) by (auto simp: table_rep_def)
  consider "unat i > length xs" | "unat i = length xs" | "unat i < length xs"
    by linarith
  then show ?thesis
  proof cases
    case 1
    then show ?thesis
      using assms(1) n by (simp add: sec_table_set_def spec_set_def word_less_nat_alt)
  next
    case 2
    have "unat (pib_u8 ef s + 1) = length xs + 1"
      using unat_inc_no_wrap [of "pib_u8 ef s"] n assms(3) by simp
    then show ?thesis
      using 2 n assms(2) add [OF r x]
      by (simp add: sec_table_set_def spec_set_def word_less_nat_alt table_rep_def word_unat_eq_iff)
  next
    case 3
    let ?n = "unat i"
    have w: "walk_items L (mem s) ?n NULL (tn_list_head L ?l (mem s)) = (if ?n = 0 then NULL else xs ! (?n - 1), xs ! ?n)"
      by (rule walk [OF r 3])
    have xs: "xs = take ?n xs @ xs ! ?n # drop (Suc ?n) xs"
      using 3 by (simp add: id_take_nth_drop)
    have d: "distinct xs" "NULL \<notin> set xs"
      using rep_distinct [OF r] by auto
    let ?m1 = "tn_list_remove L ?l (xs ! ?n) (mem s)"
    have m1: "rep ?m1 ?l (take ?n xs @ drop (Suc ?n) xs)"
      using remove r xs by metis
    let ?m2 = "if ?n \<noteq> 0 then tn_list_insert L ?l (xs ! (?n - 1)) x ?m1 else tn_list_push L ?l x ?m1"
    have upd: "xs[?n := x] = take ?n xs @ x # drop (Suc ?n) xs"
      using 3 by (simp add: upd_conv_take_nth_drop)
    have fresh: "x \<notin> set (take ?n xs @ drop (Suc ?n) xs)"
      using x(2) by (auto dest: in_set_takeD in_set_dropD)
    have m2: "rep ?m2 ?l (xs[?n := x])"
    proof (cases "?n = 0")
      case True
      then show ?thesis
        using push [OF m1 x(1) fresh x(3)] upd by simp
    next
      case False
      then have t: "take ?n xs = take (?n - 1) xs @ [xs ! (?n - 1)]"
        using 3 take_Suc_conv_app_nth [of "?n - 1" xs] by simp
      then show ?thesis
        using ins [of ?m1 ?l "take (?n - 1) xs" "xs ! (?n - 1)" "drop (Suc ?n) xs" x] m1 fresh x upd False
        by simp
    qed
    have "xs ! ?n \<noteq> x"
      using x(2) 3 nth_mem by metis
    then have "xs ! ?n \<notin> set (xs[?n := x])"
      using nth_notin_rest [OF d(1) 3] upd by simp
    then have "rep (snd (tn_mem_free L d (xs ! ?n) ?m2)) ?l (xs[?n := x])"
      by (rule release [OF m2])
    moreover have "xs ! (?n - 1) \<noteq> NULL"
      using d(2) 3 by (metis less_imp_diff_less nth_mem)
    then have "sec_table_set L lf ef (\<lambda>item m. Some (snd (tn_mem_free L d item m))) x i s =
        Some (MAC_SUCCESS, s\<lparr>mem := snd (tn_mem_free L d (xs ! ?n) ?m2)\<rparr>)"
      using 3 n w by (auto simp: sec_table_set_def word_less_nat_alt word_unat_eq_iff Let_def)
    ultimately show ?thesis
      using 3 n by (simp add: spec_set_def table_rep_def)
  qed
qed

lemma table_del:
  assumes "table_rep rep lf ef s xs" "table_fields lf ef"
  shows "\<exists>s'. sec_table_del L lf ef (\<lambda>item m. Some (snd (tn_mem_free L d item m))) i s =
           Some (fst (spec_del (unat i) xs), s') \<and> table_rep rep lf ef s' (snd (spec_del (unat i) xs))"
proof (cases "unat i < length xs")
  case True
  let ?n = "unat i" and ?l = "pib_ptr lf s"
  have r: "rep (mem s) ?l xs" and n: "unat (pib_u8 ef s) = length xs"
    using assms(1) by (auto simp: table_rep_def)
  have xs: "xs = take ?n xs @ xs ! ?n # drop (Suc ?n) xs"
    using True by (simp add: id_take_nth_drop)
  have "rep (tn_list_remove L ?l (xs ! ?n) (mem s)) ?l (take ?n xs @ drop (Suc ?n) xs)"
    using remove r xs by metis
  moreover have "xs ! ?n \<notin> set (take ?n xs @ drop (Suc ?n) xs)"
    using nth_notin_rest rep_distinct [OF r] True by blast
  ultimately have "rep (snd (tn_mem_free L d (xs ! ?n) (tn_list_remove L ?l (xs ! ?n) (mem s)))) ?l
      (take ?n xs @ drop (Suc ?n) xs)"
    by (rule release)
  moreover have "unat (pib_u8 ef s - 1) = length xs - 1"
    using n True unat_dec [of "pib_u8 ef s"] by (cases "pib_u8 ef s = 0") auto
  ultimately show ?thesis
    using True n assms(2) walk_item [OF r True]
    by (simp add: sec_table_del_def spec_del_def table_rep_def word_le_nat_alt Let_def min_def)
qed (use assms in \<open>auto simp: sec_table_del_def spec_del_def table_rep_def word_le_nat_alt\<close>)

end

text \<open>
  The functions of \<^verbatim>\<open>proj/common/list.c\<close> meet the contract. The contract says nothing of the element pools of the
  library, and the pool functions of this instance do nothing.
\<close>

definition list_c_lib :: tn_lib where
  "list_c_lib =
     \<lparr>tn_list_init = listInit, tn_list_head = listHead, tn_list_item_next = (\<lambda>x m. m x),
      tn_list_add = (\<lambda>l x m. case listAdd l x m of Some m' \<Rightarrow> m' | None \<Rightarrow> m),
      tn_list_push = listPush, tn_list_insert = listInsert,
      tn_list_remove = (\<lambda>l x m. case listRemove l x m of Some m' \<Rightarrow> m' | None \<Rightarrow> m),
      tn_list_pop = (\<lambda>l m. (listHead l m, snd (listPop l m))),
      tn_mem_init = (\<lambda>d m. m), tn_mem_alloc = (\<lambda>d m. (NULL, m)), tn_mem_free = (\<lambda>d x m. (0, m))\<rparr>"

interpretation lc: tn_lists list_c_lib list_rep
proof unfold_locales
  show "distinct xs \<and> NULL \<notin> set xs" if "list_rep m l xs" for m l xs
    using list_rep_distinct [OF that] that seg_nonnull by (auto simp: list_rep_def)
  show "tn_list_head list_c_lib l m = (if xs = [] then NULL else hd xs)" if "list_rep m l xs" for m l xs
    using listHead_rep [OF that] by (simp add: list_c_lib_def)
  show "tn_list_item_next list_c_lib x m = y" if "list_rep m l (as @ x # y # bs)" for m l as x y bs
    using that by (auto simp: list_c_lib_def list_rep_def seg_append)
  show "list_rep (tn_list_add list_c_lib l x m) l (xs @ [x])"
    if "list_rep m l xs" "x \<noteq> NULL" "x \<notin> set xs" "x \<noteq> l" for m l xs x
    using listAdd_rep [OF that] by (auto simp: list_c_lib_def)
  show "list_rep (tn_list_push list_c_lib l x m) l (x # xs)"
    if "list_rep m l xs" "x \<noteq> NULL" "x \<notin> set xs" "x \<noteq> l" for m l xs x
    using listPush_rep [OF that] by (simp add: list_c_lib_def)
  show "list_rep (tn_list_insert list_c_lib l p x m) l (as @ p # x # bs)"
    if "list_rep m l (as @ p # bs)" "x \<noteq> NULL" "x \<notin> set (as @ p # bs)" "x \<noteq> l" for m l as p bs x
    using listInsert_after [OF that] by (simp add: list_c_lib_def)
  show "list_rep (tn_list_remove list_c_lib l x m) l (as @ bs)" if "list_rep m l (as @ x # bs)" for m l as x bs
    using listRemove_present [OF that] by (auto simp: list_c_lib_def)
qed (simp add: list_c_lib_def)

section \<open>Properties\<close>

text \<open>
  C39. The attribute table is well formed: every entry describes a range of bytes inside the 124-byte PIB
  structure that lies in one field of it, and the ranges of different entries do not overlap.
\<close>

theorem pib_table_wellformed:
  "(\<forall>i < 46. tbl_offset (g_zbMacPibTbl ! i) + unat (tbl_len (g_zbMacPibTbl ! i)) \<le> sum_list (map snd pib_layout)) \<and>
   (\<forall>i < 46. \<exists>(f, n) \<in> set pib_layout.
      tbl_offset (g_zbMacPibTbl ! i) = OFFSETOF f \<and> unat (tbl_len (g_zbMacPibTbl ! i)) \<le> n) \<and>
   (\<forall>i < 46. \<forall>j < 46. i \<noteq> j \<longrightarrow>
      tbl_offset (g_zbMacPibTbl ! i) + unat (tbl_len (g_zbMacPibTbl ! i)) \<le> tbl_offset (g_zbMacPibTbl ! j) \<or>
      tbl_offset (g_zbMacPibTbl ! j) + unat (tbl_len (g_zbMacPibTbl ! j)) \<le> tbl_offset (g_zbMacPibTbl ! i))"
proof -
  have "list_all (\<lambda>(a, n). a + n \<le> 124) tbl_ranges"
    unfolding tbl_ranges_eval by simp
  then have 1: "\<forall>i < 46. tbl_offset (g_zbMacPibTbl ! i) + unat (tbl_len (g_zbMacPibTbl ! i)) \<le> 124"
    by (simp add: list_all_length tbl_ranges_def)
  have "list_all (\<lambda>e. \<exists>(f, n) \<in> set pib_layout. tbl_offset e = OFFSETOF f \<and> unat (tbl_len e) \<le> n) g_zbMacPibTbl"
    unfolding g_zbMacPibTbl_def tbl_def by (simp add: pib_layout_def)
  then have 2: "\<forall>i < 46. \<exists>(f, n) \<in> set pib_layout.
      tbl_offset (g_zbMacPibTbl ! i) = OFFSETOF f \<and> unat (tbl_len (g_zbMacPibTbl ! i)) \<le> n"
    by (simp add: list_all_length)
  have 3: "sum_list (map snd pib_layout) = 124"
    by (simp add: pib_layout_def)
  show ?thesis
    unfolding 3 using 1 2 tbl_apart by blast
qed

text \<open>
  C37. Writing a plain attribute with its full length and reading it back gives the bytes written; every
  other plain attribute reads the same bytes as before.
\<close>

theorem pib_set_get:
  assumes "plain_attr a" "unat index = unat (tbl_len (g_zbMacPibTbl ! (unat a - 64)))"
  shows "\<exists>s'. tl_zbMacAttrSet L V a val buf index s = Some (MAC_SUCCESS, buf, s') \<and>
    (\<exists>buf' len. tl_zbMacAttrGet L a out i s' = Some (MAC_SUCCESS, buf', len) \<and> (\<forall>k < unat index. buf' k = buf k)) \<and>
    (\<forall>b. plain_attr b \<longrightarrow> b \<noteq> a \<longrightarrow>
       map_option (\<lambda>(r, d, n). (r, d)) (tl_zbMacAttrGet L b out i s') =
       map_option (\<lambda>(r, d, n). (r, d)) (tl_zbMacAttrGet L b out i s))"
proof -
  let ?e = "g_zbMacPibTbl ! (unat a - 64)"
  let ?s = "s\<lparr>g_zbMacPib := copy_bytes (g_zbMacPib s) (tbl_offset ?e) buf 0 (unat index)\<rparr>"
  have "\<exists>buf' len. tl_zbMacAttrGet L a out i ?s = Some (MAC_SUCCESS, buf', len) \<and> (\<forall>k < unat index. buf' k = buf k)"
    using get_plain [OF assms(1), of L out i ?s] assms(2) by (auto simp: copy_bytes_def)
  moreover have "map_option (\<lambda>(r, d, n). (r, d)) (tl_zbMacAttrGet L b out i ?s) =
       map_option (\<lambda>(r, d, n). (r, d)) (tl_zbMacAttrGet L b out i s)" if b: "plain_attr b" "b \<noteq> a" for b
  proof -
    let ?f = "g_zbMacPibTbl ! (unat b - 64)"
    have "unat a - 64 \<noteq> unat b - 64"
      using plain_attr_index(3) [OF assms(1)] plain_attr_index(3) [OF b(1)] b(2)
      by (metis le_add_diff_inverse2 word_unat_eq_iff)
    then have ap: "tbl_offset ?e + unat (tbl_len ?e) \<le> tbl_offset ?f \<or> tbl_offset ?f + unat (tbl_len ?f) \<le> tbl_offset ?e"
      using tbl_apart plain_attr_index [OF assms(1)] plain_attr_index [OF b(1)] by simp
    then have "copy_bytes out 0 (g_zbMacPib ?s) (tbl_offset ?f) (unat (tbl_len ?f)) =
          copy_bytes out 0 (g_zbMacPib s) (tbl_offset ?f) (unat (tbl_len ?f))"
      using assms(2) by (auto simp: copy_bytes_def fun_eq_iff)
    then show ?thesis
      using get_plain [OF b(1), of L out i ?s] get_plain [OF b(1), of L out i s] by auto
  qed
  ultimately show ?thesis
    using set_plain [OF assms(1), of index L V val buf s] assms(2) by auto
qed

text \<open>
  C38. Reading differs from writing in the range of the security attributes: \<^verbatim>\<open>tl_zbMacAttrGet\<close> lacks the
  index correction for identifiers from 0x71 on that \<^verbatim>\<open>tl_zbMacAttrSet\<close> applies, so every security
  attribute that is not one of the three tables (0x72, 0x74 and 0x76 to 0x7F) indexes past the end of
  \<^verbatim>\<open>g_zbMacPibTbl\<close> when it is read, while writing does so only for 0x7F; both do for 0x6E to 0x70.
\<close>

theorem pib_get_overrun:
  "(tl_zbMacAttrGet L a buf i s = None \<longleftrightarrow>
      0x6E \<le> a \<and> a \<le> 0x7F \<and> a \<noteq> MAC_KEY_TABLE \<and> a \<noteq> MAC_DEVICE_TABLE \<and> a \<noteq> MAC_SECURITY_LEVEL_TABLE) \<and>
   (a \<noteq> MAC_KEY_TABLE \<and> a \<noteq> MAC_DEVICE_TABLE \<and> a \<noteq> MAC_SECURITY_LEVEL_TABLE \<longrightarrow>
      (tl_zbMacAttrSet L V a val buf i s = None \<longleftrightarrow> 0x6E \<le> a \<and> a \<le> 0x70 \<or> a = 0x7F))"
proof -
  have ug: "46 \<le> attr_get_index a \<longleftrightarrow> 0x6E \<le> a" if "0x40 \<le> a"
    using unat_sub [OF that] that
    by (simp add: attr_get_index_def MAC_PIB_ATTRIBUTE_START_def word_le_nat_alt le_diff_conv2)
  have us: "46 \<le> attr_set_index a \<longleftrightarrow> 0x6E \<le> a \<and> a \<le> 0x70 \<or> a = 0x7F" if r: "0x40 \<le> a" "a \<le> 0x7F"
  proof (cases "0x71 \<le> a")
    case True
    have "0x51 \<le> a"
      using True by (simp add: word_le_nat_alt)
    then have "attr_set_index a = unat a - 81"
      using True unat_sub [of "0x51" a] by (simp add: attr_set_index_def mac_attr_defs)
    then show ?thesis
      using True r by (auto simp: word_le_nat_alt word_unat_eq_iff)
  next
    case False
    then have "attr_set_index a = unat a - 64"
      using r unat_sub [of "0x40" a] by (simp add: attr_set_index_def mac_attr_defs)
    then show ?thesis
      using False r by (auto simp: word_le_nat_alt word_unat_eq_iff)
  qed
  have "tl_zbMacAttrGet L a buf i s = None \<longleftrightarrow>
      0x6E \<le> a \<and> a \<le> 0x7F \<and> a \<noteq> MAC_KEY_TABLE \<and> a \<noteq> MAC_DEVICE_TABLE \<and> a \<noteq> MAC_SECURITY_LEVEL_TABLE"
    using ug by (auto simp: tl_zbMacAttrGet_def Let_def mac_attr_defs word_le_nat_alt word_less_nat_alt)
  moreover have "tl_zbMacAttrSet L V a val buf i s = None \<longleftrightarrow> 0x6E \<le> a \<and> a \<le> 0x70 \<or> a = 0x7F"
    if "a \<noteq> MAC_KEY_TABLE \<and> a \<noteq> MAC_DEVICE_TABLE \<and> a \<noteq> MAC_SECURITY_LEVEL_TABLE"
    using us that
    by (auto simp: tl_zbMacAttrSet_def Let_def mac_attr_defs word_le_nat_alt word_less_nat_alt)
  ultimately show ?thesis
    by blast
qed

text \<open>
  C12. The device table behaves as a list: with the library's lists as documented, writing entry \<open>i\<close> appends
  at the end, replaces (and releases) an existing entry or is refused beyond the end, reading returns
  the entry or is refused, deleting removes the entry or is refused, and the counter
  \<^verbatim>\<open>devTableEntries\<close> is the number of entries afterwards.
\<close>

theorem pib_device_table_refines:
  assumes "tn_lists L rep" "table_rep rep devTable devTableEntries s xs" "length xs < 255"
    and "x \<noteq> NULL" "x \<notin> set xs" "x \<noteq> pib_ptr devTable s"
  shows "(\<exists>s'. tl_zbMacAttrSet L V MAC_DEVICE_TABLE x buf i s = Some (fst (spec_set (unat i) x xs), buf, s') \<and>
            table_rep rep devTable devTableEntries s' (snd (spec_set (unat i) x xs))) \<and>
         tl_zbMacAttrGet L MAC_DEVICE_TABLE buf i s = Some (table_result buf i (spec_get (unat i) xs)) \<and>
         (\<exists>s'. tl_zbMacSecAttrDel L V MAC_DEVICE_TABLE i s = Some (fst (spec_del (unat i) xs), s') \<and>
            table_rep rep devTable devTableEntries s' (snd (spec_del (unat i) xs)))"
  using tn_lists.table_set [OF assms(1,2) table_fields_of(2) assms(3-6), of "macDeviceMem V" i]
    tn_lists.table_get [OF assms(1,2), of i]
    tn_lists.table_del [OF assms(1,2) table_fields_of(2), of "macDeviceMem V" i]
  by (auto simp: tl_zbMacAttrSet_def tl_zbMacAttrGet_def tl_zbMacSecAttrDel_def mac_attr_defs)

definition demo_vars :: sec_vars where
  "demo_vars = \<lparr>macKeyIDMem = 0x900, macDeviceMem = 0x910, macKeyUsageMem = 0x920, macSecLvlMem = 0x930,
     macKeyMem = 0x940, macKeyDevMem = 0x950, macKeyTable = 0x960, macDevTable = 0x970, macSecLvlTable = 0x980,
     macKeyDevTable = 0x990\<rparr>"

text \<open>A device table with the two entries at 0x200 and 0x300.\<close>

definition demo_pib :: sdk_state where
  "demo_pib = demo_sdk\<lparr>mem := (\<lambda>_. 0)(0x100 := 0x200, 0x200 := 0x300),
     g_zbMacPib := (\<lambda>_. 0)(81 := 1, 89 := 2)\<rparr>"

lemma demo_pib_ptr: "pib_ptr devTable demo_pib = 0x100" "pib_u8 devTableEntries demo_pib = 2"
  by (simp_all add: demo_pib_def pib_ptr_def pib_u8_def le32_def OFFSETOF_def pib_layout_def)

lemma demo_pib_rep: "table_rep list_rep devTable devTableEntries demo_pib [0x200, 0x300]"
  unfolding table_rep_def demo_pib_ptr by (simp add: demo_pib_def list_rep_def)

theorem pib_device_table_refines_witness:
  "\<exists>s'. tl_zbMacAttrSet list_c_lib demo_vars MAC_DEVICE_TABLE 0x400 (\<lambda>_. 0) 0 demo_pib = Some (MAC_SUCCESS, \<lambda>_. 0, s') \<and>
     table_rep list_rep devTable devTableEntries s' [0x400, 0x300]"
  using pib_device_table_refines [OF lc.tn_lists_axioms demo_pib_rep, of "0x400" demo_vars "\<lambda>_. 0" 0] demo_pib_ptr
  by (simp add: spec_set_def)

theorem pib_table_wellformed_witness:
  "tbl_offset (g_zbMacPibTbl ! 0) + unat (tbl_len (g_zbMacPibTbl ! 0)) \<le> tbl_offset (g_zbMacPibTbl ! 16) \<or>
   tbl_offset (g_zbMacPibTbl ! 16) + unat (tbl_len (g_zbMacPibTbl ! 16)) \<le> tbl_offset (g_zbMacPibTbl ! 0)"
proof -
  have "(0::nat) < 46" "(16::nat) < 46" "(0::nat) \<noteq> 16"
    by simp_all
  then show ?thesis
    using pib_table_wellformed by blast
qed

theorem pib_set_get_witness:
  "\<exists>s' buf' len. tl_zbMacAttrSet list_c_lib demo_vars MAC_ATTR_PAN_ID 0x700 (\<lambda>i. of_nat (i + 7)) 2 demo_sdk =
       Some (MAC_SUCCESS, \<lambda>i. of_nat (i + 7), s') \<and>
     tl_zbMacAttrGet list_c_lib MAC_ATTR_PAN_ID (\<lambda>_. 0) 0 s' = Some (MAC_SUCCESS, buf', len) \<and> buf' 1 = 8"
proof -
  have "plain_attr MAC_ATTR_PAN_ID"
    by (simp add: plain_attr_def MAC_ATTR_PAN_ID_def)
  moreover have "unat (2 :: u8) = unat (tbl_len (g_zbMacPibTbl ! (unat MAC_ATTR_PAN_ID - 64)))"
    by (simp add: MAC_ATTR_PAN_ID_def g_zbMacPibTbl_def tbl_def)
  ultimately show ?thesis
    using pib_set_get [of MAC_ATTR_PAN_ID 2 list_c_lib demo_vars "0x700" "\<lambda>i. of_nat (i + 7)" demo_sdk "\<lambda>_. 0" 0]
    by fastforce
qed

theorem pib_get_overrun_witness:
  "tl_zbMacAttrGet list_c_lib 0x77 (\<lambda>_. 0) 4 demo_sdk = None \<and>
   tl_zbMacAttrSet list_c_lib demo_vars 0x77 0x700 (\<lambda>_. 0) 4 demo_sdk \<noteq> None"
  using pib_get_overrun [of list_c_lib "0x77" "\<lambda>_. 0" 4 demo_sdk demo_vars "0x700"] by (simp add: mac_attr_defs)

end
