(* ===== verification/Mac_Phy.thy ===== *)
theory Mac_Phy
  imports Mac_Pib "HOL-Library.Signed_Division"
begin

text \<open>
  The physical layer, \<^verbatim>\<open>ieee802154/mac/mac_phy.c\<close>, with the radio macros that
  \<^verbatim>\<open>proj/drivers/drv_radio.h\<close> gives for the 8278: transceiver state, channel and power, energy detection,
  clear channel assessment, transmission, and the two interrupt handlers with the immediate
  acknowledgement. The radio driver (\<^verbatim>\<open>rf_trx_state_set\<close> and the other external functions of
  \<^verbatim>\<open>rf_drv.h\<close>) and the MAC (filter, receive buffers, pending data) are binaries: what the code asks of
  them is recorded in order in \<open>radio\<close>, and what they answer is a function of the calls made so far, the
  parameter \<open>M\<close>. A read of a volatile register takes the next value of that register's sequence.
\<close>

section \<open>State\<close>

type_synonym s8 = "8 word"
type_synonym s32 = "32 word"

definition RF_STATE_TX :: u8 where "RF_STATE_TX = 0"
definition RF_STATE_RX :: u8 where "RF_STATE_RX = 1"
definition RF_STATE_ED :: u8 where "RF_STATE_ED = 2"
definition RF_STATE_OFF :: u8 where "RF_STATE_OFF = 3"
definition RF_MODE_TX :: u8 where "RF_MODE_TX = 0"
definition RF_MODE_RX :: u8 where "RF_MODE_RX = 1"
definition RF_MODE_OFF :: u8 where "RF_MODE_OFF = 3"
definition TX_BUSY :: u8 where "TX_BUSY = 2"
definition PHY_CCA_IDLE :: u8 where "PHY_CCA_IDLE = 4"
definition PHY_CCA_BUSY :: u8 where "PHY_CCA_BUSY = 0"
definition RF_PKT_BUFF_LEN :: nat where "RF_PKT_BUFF_LEN = 144"
definition TL_ZB_MAC_CHANNEL_START :: u8 where "TL_ZB_MAC_CHANNEL_START = 11"
definition TL_ZB_MAC_CHANNEL_STOP :: u8 where "TL_ZB_MAC_CHANNEL_STOP = 26"
definition RF_POWER_INDEX_P0p52dBm :: u8 where "RF_POWER_INDEX_P0p52dBm = 31"
definition FLD_DMA_CHN_RF_RX :: u8 where "FLD_DMA_CHN_RF_RX = 4"
definition FLD_DMA_CHN_RF_TX :: u8 where "FLD_DMA_CHN_RF_TX = 8"
definition FLD_RF_IRQ_RX :: u16 where "FLD_RF_IRQ_RX = 1"
definition FLD_RF_IRQ_TX :: u16 where "FLD_RF_IRQ_TX = 2"
definition FLD_IRQ_ZB_RT_EN :: u32 where "FLD_IRQ_ZB_RT_EN = 0x2000"
definition MAC_FCF_ACK_REQ_BIT :: u8 where "MAC_FCF_ACK_REQ_BIT = 0x20"
definition MAC_FCF_SRC_ADDR_BIT :: u8 where "MAC_FCF_SRC_ADDR_BIT = 0xc0"
definition MAC_FRAME_COMMAND :: u8 where "MAC_FRAME_COMMAND = 3"
definition MAC_CMD_DATA_REQUEST :: u8 where "MAC_CMD_DATA_REQUEST = 4"
definition ZB_ADDR_NO_ADDR :: u8 where "ZB_ADDR_NO_ADDR = 0"

lemmas phy_consts =
  RF_STATE_TX_def RF_STATE_RX_def RF_STATE_ED_def RF_STATE_OFF_def RF_MODE_TX_def RF_MODE_RX_def RF_MODE_OFF_def
  TL_ZB_MAC_CHANNEL_START_def TL_ZB_MAC_CHANNEL_STOP_def

text \<open>The counters of \<^verbatim>\<open>g_sysDiags\<close> that this layer raises.\<close>

record sys_diagnostics_t =
  macRxCrcFail :: u32
  phytoMACqueuelimitreached :: u16
  macTxIrqCnt :: u8
  macRxIrqCnt :: u8

text \<open>
  What leaves the code: calls of the radio driver and of the MAC, writes of command registers, pins and
  busy waiting. \<open>RfTxPkt\<close> carries the bytes of the buffer handed to the radio.
\<close>

datatype phy_call =
    RfTrxStateSet u8 s8
  | RfPowerIndex u8
  | RfRxCfg nat
  | RfTxPkt "u8 list"
  | WriteReg8 u16 u8
  | GpioFunc u32
  | GpioOutputEn u32 u8
  | GpioWrite u32 u8
  | WaitUs u32
  | MacDataFilter addr u8
  | GetRxBuf
  | PendingDataCheck u8 addr u8
  | MacDataRecv addr addr u8 u8 u32 s8
  | MacDataSend

record phy_state = sdk_state +
  g_zb_txPowerSet :: u8
  rf_tx_buf :: "u8 list"
  rf_ack_buf :: "u8 list"
  rf_rxBuf :: addr
  rfMode :: u8
  rf_busyFlag :: u8
  soft_rssi :: s8
  sum_rssi :: s32
  cnt_rssi :: s32
  fPaEn :: u8
  rf_pa_txen_pin :: u32
  rf_pa_rxen_pin :: u32
  ccaThres :: s8
  turnArnd :: u16
  g_sysDiags :: sys_diagnostics_t
  ev_poll :: poll_table
  ram :: "addr \<Rightarrow> u8"
  reg_dma_chn_en :: u8
  reg_dma_chn_irq_msk :: u8
  reg_dma2_addr :: u16
  reg_rf_irq_mask :: u16
  reg_irq_mask :: u32
  hw_in :: "u16 \<Rightarrow> nat \<Rightarrow> u8"
  radio :: "phy_call list"

text \<open>The answers of the binaries, from the calls so far and what they can read.\<close>

record phy_lib =
  rf_trx_state_get :: "phy_call list \<Rightarrow> u8"
  tl_getRxBuf :: "phy_call list \<Rightarrow> addr"
  zb_macDataFilter :: "phy_call list \<Rightarrow> (addr \<Rightarrow> u8) \<Rightarrow> (nat \<Rightarrow> u8) \<Rightarrow> addr \<Rightarrow> u8 \<Rightarrow> addr \<times> u8 \<times> u8"
  tl_zbMacHdrSize :: "u16 \<Rightarrow> u8"
  mac_getAuxSecurityHeaderLen :: "u8 \<Rightarrow> u8"
  tl_zbMacPendingDataCheck :: "phy_call list \<Rightarrow> (addr \<Rightarrow> u8) \<Rightarrow> u8 \<Rightarrow> addr \<Rightarrow> u8 \<Rightarrow> u8"

definition do_call :: "phy_call \<Rightarrow> 'a phy_state_scheme \<Rightarrow> 'a phy_state_scheme" where
  "do_call c s = s\<lparr>radio := radio s @ [c]\<rparr>"

definition read_reg8 :: "u16 \<Rightarrow> 'a phy_state_scheme \<Rightarrow> u8 \<times> 'a phy_state_scheme" where
  "read_reg8 r s = (hw_in s r 0, s\<lparr>hw_in := (hw_in s)(r := \<lambda>i. hw_in s r (Suc i))\<rparr>)"

section \<open>The radio interface of the 8278\<close>

definition LOGICCHANNEL_TO_PHYSICAL :: "u8 \<Rightarrow> s8" where
  "LOGICCHANNEL_TO_PHYSICAL p = (p - 10) * 5"

definition is_rf_receiving_pkt :: "'a phy_state_scheme \<Rightarrow> bool \<times> 'a phy_state_scheme" where
  "is_rf_receiving_pkt s = (let (v, s1) = read_reg8 0x448 s in (drop_bit 5 v AND 1 = 1, s1))"

definition rf_rssi_get_154 :: "'a phy_state_scheme \<Rightarrow> s8 \<times> 'a phy_state_scheme" where
  "rf_rssi_get_154 s = (let (v, s1) = read_reg8 0x441 s in (v - 110, s1))"

definition rf_tx_finish :: "'a phy_state_scheme \<Rightarrow> bool \<times> 'a phy_state_scheme" where
  "rf_tx_finish s = (let (v, s1) = read_reg8 0xf20 s in (v AND 2 = 2, s1))"

definition rf_tx_finish_clear_flag :: "'a phy_state_scheme \<Rightarrow> 'a phy_state_scheme" where
  "rf_tx_finish_clear_flag = do_call (WriteReg8 0xf20 2)"

definition rf_rx_finish_clear_flag :: "'a phy_state_scheme \<Rightarrow> 'a phy_state_scheme" where
  "rf_rx_finish_clear_flag = do_call (WriteReg8 0xf20 1)"

definition rf_rx_buffer_reconfig :: "addr \<Rightarrow> 'a phy_state_scheme \<Rightarrow> 'a phy_state_scheme" where
  "rf_rx_buffer_reconfig a s = s\<lparr>reg_dma2_addr := ucast a\<rparr>"

definition RFDMA_RX_ENABLE :: "'a phy_state_scheme \<Rightarrow> 'a phy_state_scheme" where
  "RFDMA_RX_ENABLE s = s\<lparr>reg_dma_chn_en := reg_dma_chn_en s OR FLD_DMA_CHN_RF_RX\<rparr>"

definition RFDMA_RX_DISABLE :: "'a phy_state_scheme \<Rightarrow> 'a phy_state_scheme" where
  "RFDMA_RX_DISABLE s = s\<lparr>reg_dma_chn_en := reg_dma_chn_en s AND NOT FLD_DMA_CHN_RF_RX\<rparr>"

definition RFDMA_TX_ENABLE :: "'a phy_state_scheme \<Rightarrow> 'a phy_state_scheme" where
  "RFDMA_TX_ENABLE s = s\<lparr>reg_dma_chn_en := reg_dma_chn_en s OR FLD_DMA_CHN_RF_TX\<rparr>"

definition irq_set_mask :: "u32 \<Rightarrow> 'a phy_state_scheme \<Rightarrow> 'a phy_state_scheme" where
  "irq_set_mask msk s = s\<lparr>reg_irq_mask := reg_irq_mask s OR msk\<rparr>"

definition irq_clr_mask :: "u32 \<Rightarrow> 'a phy_state_scheme \<Rightarrow> 'a phy_state_scheme" where
  "irq_clr_mask msk s = s\<lparr>reg_irq_mask := reg_irq_mask s AND NOT msk\<rparr>"

definition dma_irq_disable :: "u8 \<Rightarrow> 'a phy_state_scheme \<Rightarrow> 'a phy_state_scheme" where
  "dma_irq_disable msk s = s\<lparr>reg_dma_chn_irq_msk := reg_dma_chn_irq_msk s AND NOT msk\<rparr>"

definition rf_irq_enable :: "u16 \<Rightarrow> 'a phy_state_scheme \<Rightarrow> 'a phy_state_scheme" where
  "rf_irq_enable msk s = s\<lparr>reg_rf_irq_mask := reg_rf_irq_mask s OR msk\<rparr>"

definition ZB_RADIO_TRX_CFG :: "nat \<Rightarrow> 'a phy_state_scheme \<Rightarrow> 'a phy_state_scheme" where
  "ZB_RADIO_TRX_CFG n s =
     irq_set_mask FLD_IRQ_ZB_RT_EN (rf_irq_enable (FLD_RF_IRQ_RX OR FLD_RF_IRQ_TX)
       (dma_irq_disable (FLD_DMA_CHN_RF_RX OR FLD_DMA_CHN_RF_TX) (do_call (RfRxCfg n) s)))"

definition ZB_TIMESTAMP_ENABLE :: "'a phy_state_scheme \<Rightarrow> 'a phy_state_scheme" where
  "ZB_TIMESTAMP_ENABLE s = (let (v, s1) = read_reg8 0x430 s in do_call (WriteReg8 0x430 (v OR 2)) s1)"

text \<open>Writing through a null pointer has no result.\<close>

definition ZB_RADIO_RX_BUF_CLEAR :: "addr \<Rightarrow> 'a phy_state_scheme \<Rightarrow> 'a phy_state_scheme option" where
  "ZB_RADIO_RX_BUF_CLEAR p s = (if p = NULL then None else Some (s\<lparr>ram := (ram s)(p := 0, p + 4 := 0)\<rparr>))"

definition ZB_RADIO_DMA_HDR_BUILD :: "u8 list \<Rightarrow> u8 \<Rightarrow> u8 list" where
  "ZB_RADIO_DMA_HDR_BUILD p len = p[0 := len + 1, 1 := 0, 2 := 0, 3 := 0]"

definition ZB_RADIO_TX_HDR_LEN :: nat where "ZB_RADIO_TX_HDR_LEN = 5"
definition ZB_RADIO_RX_HDR_LEN :: addr where "ZB_RADIO_RX_HDR_LEN = 5"

definition RF_ZIGBEE_PACKET_LENGTH_OK :: "(addr \<Rightarrow> u8) \<Rightarrow> addr \<Rightarrow> bool" where
  "RF_ZIGBEE_PACKET_LENGTH_OK m p \<longleftrightarrow> unat (m p) = unat (m (p + 4)) + 9"

definition RF_ZIGBEE_PACKET_CRC_OK :: "(addr \<Rightarrow> u8) \<Rightarrow> addr \<Rightarrow> bool" where
  "RF_ZIGBEE_PACKET_CRC_OK m p \<longleftrightarrow> m (p + ucast (m p) + 3) AND 0x51 = 0x10"

definition RF_ZIGBEE_PACKET_RSSI_GET :: "(addr \<Rightarrow> u8) \<Rightarrow> addr \<Rightarrow> u8" where
  "RF_ZIGBEE_PACKET_RSSI_GET m p = m (p + ucast (m p) + 2)"

definition RF_ZIGBEE_PACKET_TIMESTAMP_GET :: "(addr \<Rightarrow> u8) \<Rightarrow> addr \<Rightarrow> u32" where
  "RF_ZIGBEE_PACKET_TIMESTAMP_GET m p = (let q = p + ucast (m p) in
     ucast (m (q - 4)) OR push_bit 8 (ucast (m (q - 3))) OR push_bit 16 (ucast (m (q - 2)))
       OR push_bit 24 (ucast (m (q - 1))))"

definition RF_ZIGBEE_PACKET_PAYLOAD_LENGTH_GET :: "(addr \<Rightarrow> u8) \<Rightarrow> addr \<Rightarrow> u8" where
  "RF_ZIGBEE_PACKET_PAYLOAD_LENGTH_GET m p = m (p + 4)"

definition ZB_RADIO_RSSI_TO_LQI :: "s8 \<Rightarrow> u8" where
  "ZB_RADIO_RSSI_TO_LQI rssi =
     (let minEd = - 99; maxEd = - 15;
          r1 = (if sint rssi > maxEd then maxEd else sint rssi);
          r2 = (if r1 < minEd then minEd else r1)
      in word_of_int (255 * (r2 - minEd) sdiv (maxEd - minEd)))"

definition clock_time_exceed :: "u32 \<Rightarrow> u32 \<Rightarrow> 'a phy_state_scheme \<Rightarrow> bool \<times> 'a phy_state_scheme" where
  "clock_time_exceed ref us s = (let (t, s1) = clock_time s in (t - ref > us * 16, s1))"

section \<open>Operations\<close>

definition rf_getChannel :: "'a phy_state_scheme \<Rightarrow> u8" where
  "rf_getChannel s = pib_u8 phyChannelCur s"

definition pa_pins :: "u8 \<Rightarrow> u8 \<Rightarrow> 'a phy_state_scheme \<Rightarrow> 'a phy_state_scheme" where
  "pa_pins txen rxen s =
     (if fPaEn s \<noteq> 0 then do_call (GpioWrite (rf_pa_rxen_pin s) rxen) (do_call (GpioWrite (rf_pa_txen_pin s) txen) s)
      else s)"

definition ZB_SWITCH_TO_TXMODE :: "'a phy_state_scheme \<Rightarrow> 'a phy_state_scheme" where
  "ZB_SWITCH_TO_TXMODE s = (let s1 = pa_pins 1 0 s in
     do_call (RfTrxStateSet RF_MODE_TX (LOGICCHANNEL_TO_PHYSICAL (rf_getChannel s1))) s1)"

definition ZB_SWITCH_TO_RXMODE :: "'a phy_state_scheme \<Rightarrow> 'a phy_state_scheme" where
  "ZB_SWITCH_TO_RXMODE s = (let s1 = pa_pins 0 1 s in
     do_call (RfTrxStateSet RF_MODE_RX (LOGICCHANNEL_TO_PHYSICAL (rf_getChannel s1))) s1)"

definition rf_paInit :: "u32 \<Rightarrow> u32 \<Rightarrow> 'a phy_state_scheme \<Rightarrow> 'a phy_state_scheme" where
  "rf_paInit TXEN_pin RXEN_pin s =
     (let s1 = s\<lparr>rf_pa_txen_pin := TXEN_pin, rf_pa_rxen_pin := RXEN_pin\<rparr>;
          s2 = do_call (GpioWrite TXEN_pin 0) (do_call (GpioOutputEn TXEN_pin 1) (do_call (GpioFunc TXEN_pin) s1));
          s3 = do_call (GpioWrite RXEN_pin 1) (do_call (GpioOutputEn RXEN_pin 1) (do_call (GpioFunc RXEN_pin) s2))
      in s3\<lparr>fPaEn := 1\<rparr>)"

definition rf_paShutDown :: "'a phy_state_scheme \<Rightarrow> 'a phy_state_scheme" where
  "rf_paShutDown s = pa_pins 0 0 s"

text \<open>
  The two gain settings that the receive branch chooses between are empty macros on the 8278, so the MAC's
  scan state, which selects them, is not read.
\<close>

definition rf_setTrxState :: "u8 \<Rightarrow> 'a phy_state_scheme \<Rightarrow> 'a phy_state_scheme" where
  "rf_setTrxState state s =
     (if state = RF_STATE_RX \<or> state = RF_STATE_ED then (ZB_SWITCH_TO_RXMODE s)\<lparr>rfMode := RF_STATE_RX\<rparr>
      else if state = RF_STATE_TX then
        let s1 = ZB_SWITCH_TO_TXMODE s
        in (do_call (WaitUs (ucast (turnArnd s1))) s1)\<lparr>rfMode := RF_STATE_TX\<rparr>
      else
        let s1 = rf_paShutDown s
        in (do_call (RfTrxStateSet RF_MODE_OFF (LOGICCHANNEL_TO_PHYSICAL (rf_getChannel s1))) s1)\<lparr>rfMode := RF_STATE_OFF\<rparr>)"

definition rf_TrxStateGet :: "'a phy_state_scheme \<Rightarrow> u8" where
  "rf_TrxStateGet s = rfMode s"

definition rf_setChannel :: "phy_lib \<Rightarrow> u8 \<Rightarrow> 'a phy_state_scheme \<Rightarrow> 'a phy_state_scheme" where
  "rf_setChannel M chn s =
     (if chn < TL_ZB_MAC_CHANNEL_START \<or> chn > TL_ZB_MAC_CHANNEL_STOP then s
      else
        let s1 = pib_set_u8 phyChannelCur chn s
        in do_call (RfTrxStateSet (rf_trx_state_get M (radio s1)) (LOGICCHANNEL_TO_PHYSICAL chn)) s1)"

definition rf_setTxPower :: "u8 \<Rightarrow> 'a phy_state_scheme \<Rightarrow> 'a phy_state_scheme" where
  "rf_setTxPower pwr s =
     (if fPaEn s \<noteq> 0 then do_call (RfPowerIndex RF_POWER_INDEX_P0p52dBm) s else do_call (RfPowerIndex pwr) s)"

definition get_rx_buf :: "phy_lib \<Rightarrow> 'a phy_state_scheme \<Rightarrow> addr \<times> 'a phy_state_scheme" where
  "get_rx_buf M s = (tl_getRxBuf M (radio s), do_call GetRxBuf s)"

definition rf_setRxBuf :: "addr \<Rightarrow> 'a phy_state_scheme \<Rightarrow> 'a phy_state_scheme option" where
  "rf_setRxBuf pBuf s =
     (let s1 = s\<lparr>rf_rxBuf := pBuf\<rparr>
      in do { s2 \<leftarrow> ZB_RADIO_RX_BUF_CLEAR (rf_rxBuf s1) s1; Some (rf_rx_buffer_reconfig (rf_rxBuf s2) s2) })"

definition rf_reset :: "phy_lib \<Rightarrow> 'a phy_state_scheme \<Rightarrow> 'a phy_state_scheme option" where
  "rf_reset M s =
     (let s1 = rf_setTrxState RF_STATE_TX s;
          s2 = rf_setTxPower (g_zb_txPowerSet s1) s1;
          s3 = rf_setChannel M (pib_u8 phyChannelCur s2) s2
      in do {
        s4 \<leftarrow> (if rf_rxBuf s3 \<noteq> NULL then rf_setRxBuf (rf_rxBuf s3) s3
               else let (b, s') = get_rx_buf M s3 in rf_setRxBuf b s');
        Some (ZB_TIMESTAMP_ENABLE (RFDMA_TX_ENABLE (RFDMA_RX_ENABLE (ZB_RADIO_TRX_CFG RF_PKT_BUFF_LEN s4))))
      })"

definition rf_mac_ack_build :: "'a phy_state_scheme \<Rightarrow> 'a phy_state_scheme" where
  "rf_mac_ack_build s =
     s\<lparr>rf_ack_buf := (ZB_RADIO_DMA_HDR_BUILD (replicate 12 0 @ drop 12 (rf_ack_buf s)) 3)[4 := 5, 5 := 2, 6 := 0]\<rparr>"

text \<open>\<open>ed_at\<close> is the address of \<^verbatim>\<open>rf_edDetect\<close>.\<close>

definition rf_init :: "addr \<Rightarrow> phy_lib \<Rightarrow> 'a phy_state_scheme \<Rightarrow> 'a phy_state_scheme option" where
  "rf_init ed_at M s =
     do {
       s1 \<leftarrow> rf_reset M s;
       let s2 = rf_mac_ack_build s1;
       let s3 = s2\<lparr>ev_poll := ev_on_poll EV_POLL_ED_DETECT ed_at (ev_poll s2)\<rparr>;
       Some (s3\<lparr>ev_poll := ev_disable_poll EV_POLL_ED_DETECT (ev_poll s3)\<rparr>)
     }"

section \<open>Energy detection and clear channel assessment\<close>

text \<open>Division of two signed numbers as in C.\<close>

definition c_div :: "s32 \<Rightarrow> s32 \<Rightarrow> s32" where
  "c_div a b = word_of_int (sint a sdiv sint b)"

definition rf_edDetect :: "'a phy_state_scheme \<Rightarrow> 'a phy_state_scheme" where
  "rf_edDetect s =
     (let (rssi, s1) = rf_rssi_get_154 s;
          s2 = s1\<lparr>sum_rssi := sum_rssi s1 + scast rssi, cnt_rssi := cnt_rssi s1 + 1\<rparr>
      in if sint (cnt_rssi s2) \<ge> 0xfffffe
         then s2\<lparr>sum_rssi := c_div (sum_rssi s2) (cnt_rssi s2), cnt_rssi := 1\<rparr> else s2)"

definition rf_getLqi :: "s8 \<Rightarrow> u8" where
  "rf_getLqi rssi = ZB_RADIO_RSSI_TO_LQI rssi"

definition rf_startEDScan :: "'a phy_state_scheme \<Rightarrow> 'a phy_state_scheme" where
  "rf_startEDScan s =
     (let s1 = s\<lparr>soft_rssi := - 110, sum_rssi := 0, cnt_rssi := 0\<rparr>
      in rf_setTrxState RF_STATE_ED (s1\<lparr>ev_poll := ev_enable_poll EV_POLL_ED_DETECT (ev_poll s1)\<rparr>))"

definition rf_stopEDScan :: "'a phy_state_scheme \<Rightarrow> u8 \<times> 'a phy_state_scheme" where
  "rf_stopEDScan s =
     (let s1 = (if cnt_rssi s = 0 then s\<lparr>cnt_rssi := 1\<rparr> else s);
          s2 = s1\<lparr>soft_rssi := scast (c_div (sum_rssi s1) (cnt_rssi s1))\<rparr>;
          s3 = s2\<lparr>ev_poll := ev_disable_poll EV_POLL_ED_DETECT (ev_poll s2)\<rparr>
      in (rf_getLqi (soft_rssi s3), s3))"

partial_function (option) cca_loop ::
  "u32 \<Rightarrow> s32 \<Rightarrow> s32 \<Rightarrow> 'a phy_state_scheme \<Rightarrow> (s32 \<times> s32 \<times> 'a phy_state_scheme) option" where
  "cca_loop t1 rssiSum cnt s =
     (let (ex, s1) = clock_time_exceed t1 128 s in
      if ex then Some (rssiSum, cnt, s1)
      else let (rssi_cur, s2) = rf_rssi_get_154 s1 in cca_loop t1 (rssiSum + scast rssi_cur) (cnt + 1) s2)"

definition rf_performCCA :: "'a phy_state_scheme \<Rightarrow> (u8 \<times> 'a phy_state_scheme) option" where
  "rf_performCCA s =
     (let (t1, s1) = clock_time s;
          (rssi_cur, s2) = rf_rssi_get_154 s1
      in do {
        (rssiSum, cnt, s3) \<leftarrow> cca_loop t1 (scast rssi_cur) 1 s2;
        let rssi_peak = (scast (c_div rssiSum cnt) :: s8);
        Some (if sint rssi_peak > sint (ccaThres s3) \<or> rf_busyFlag s3 AND TX_BUSY \<noteq> 0
              then PHY_CCA_BUSY else PHY_CCA_IDLE, s3)
      })"

section \<open>Transmission\<close>

text \<open>
  \<^verbatim>\<open>memcpy\<close> into the 132-byte buffer from index 5 on; a frame of more than 127 bytes runs past its end, which
  has no result.
\<close>

definition rf802154_tx_ready :: "(nat \<Rightarrow> u8) \<Rightarrow> u8 \<Rightarrow> 'a phy_state_scheme \<Rightarrow> 'a phy_state_scheme option" where
  "rf802154_tx_ready buf len s =
     (let b1 = (ZB_RADIO_DMA_HDR_BUILD (rf_tx_buf s) len)[4 := len + 2]
      in if 5 + unat len \<le> length b1
         then Some (s\<lparr>rf_tx_buf := take 5 b1 @ map buf [0..<unat len] @ drop (5 + unat len) b1\<rparr>)
         else None)"

definition rf802154_tx :: "'a phy_state_scheme \<Rightarrow> 'a phy_state_scheme" where
  "rf802154_tx s =
     (let s1 = rf_rx_finish_clear_flag (rf_tx_finish_clear_flag (rf_setTrxState RF_STATE_TX s))
      in do_call (RfTxPkt (rf_tx_buf s1)) s1)"

section \<open>Interrupt handlers\<close>

text \<open>Giving up on a frame: the buffer is cleared and reception goes on in it.\<close>

definition rx_drop :: "'a phy_state_scheme \<Rightarrow> 'a phy_state_scheme option" where
  "rx_drop s = do { s1 \<leftarrow> ZB_RADIO_RX_BUF_CLEAR (rf_rxBuf s) s; Some (RFDMA_RX_ENABLE s1) }"

text \<open>
  The frame pending bit of the acknowledgement (coordinators and routers): set for a data request command
  from a device for which the MAC has data.
\<close>

definition ack_pending :: "phy_lib \<Rightarrow> addr \<Rightarrow> addr \<Rightarrow> 'a phy_state_scheme \<Rightarrow> 'a phy_state_scheme" where
  "ack_pending M macPld pSrcAddr s =
     (let m = ram s;
          fcf = (push_bit 8 (ucast (m (macPld + 1))) OR ucast (m macPld)) :: u16;
          pldOft = tl_zbMacHdrSize M fcf;
          frameType = ucast (fcf AND 7) :: u8;
          pldOft' = (if fcf AND 8 \<noteq> 0
                     then pldOft + mac_getAuxSecurityHeaderLen M (drop_bit 3 (m (macPld + ucast pldOft) AND 0x18))
                     else pldOft);
          cmdDataReq = (frameType = MAC_FRAME_COMMAND \<and> m (macPld + ucast pldOft') = MAC_CMD_DATA_REQUEST);
          srcAddrMode = (if m (macPld + 1) AND MAC_FCF_SRC_ADDR_BIT = 0x80 then ZB_ADDR_16BIT_DEV_OR_BROADCAST
                         else if m (macPld + 1) AND MAC_FCF_SRC_ADDR_BIT = 0xc0 then ZB_ADDR_64BIT_DEV
                         else ZB_ADDR_NO_ADDR)
      in if cmdDataReq \<and> srcAddrMode \<noteq> 0 then
           let r = tl_zbMacPendingDataCheck M (radio s) m srcAddrMode pSrcAddr 1;
               s1 = do_call (PendingDataCheck srcAddrMode pSrcAddr 1) s
           in if r = MAC_SUCCESS
              then s1\<lparr>rf_ack_buf := (rf_ack_buf s1)[ZB_RADIO_TX_HDR_LEN := rf_ack_buf s1 ! ZB_RADIO_TX_HDR_LEN OR 0x10]\<rparr>
              else s1
         else s)"

partial_function (option) tx_done_loop :: "u32 \<Rightarrow> 'a phy_state_scheme \<Rightarrow> 'a phy_state_scheme option" where
  "tx_done_loop cur_tick s =
     (let (fin, s1) = rf_tx_finish s in
      if fin then Some s1
      else let (ex, s2) = clock_time_exceed cur_tick 1000 s1 in
           if ex then Some s2 else tx_done_loop cur_tick s2)"

text \<open>\<open>us\<close> is \<^verbatim>\<open>S_TIMER_CLOCK_1US\<close>; \<open>ffd\<close> tells a coordinator or router build.\<close>

definition send_ack ::
  "u32 \<Rightarrow> bool \<Rightarrow> phy_lib \<Rightarrow> addr \<Rightarrow> addr \<Rightarrow> u32 \<Rightarrow> 'a phy_state_scheme \<Rightarrow> 'a phy_state_scheme option" where
  "send_ack us ffd M macPld pSrcAddr txTime s =
     (let s1 = s\<lparr>rf_ack_buf := (rf_ack_buf s)[ZB_RADIO_TX_HDR_LEN + 2 := ram s (macPld + 2), ZB_RADIO_TX_HDR_LEN := 2]\<rparr>;
          s2 = (if ffd then ack_pending M macPld pSrcAddr s1 else s1);
          (t, s3) = clock_time s2;
          txDelayUs = (t - txTime) div us;
          s4 = (if sint txDelayUs < uint (turnArnd s3)
                then do_call (WaitUs (ucast (turnArnd s3) - txDelayUs)) s3 else s3);
          s5 = irq_clr_mask FLD_IRQ_ZB_RT_EN s4;
          s6 = do_call (RfTxPkt (rf_ack_buf s5)) s5;
          (cur_tick, s7) = clock_time s6
      in do {
        s8 \<leftarrow> tx_done_loop cur_tick s7;
        Some (ZB_SWITCH_TO_RXMODE (irq_set_mask FLD_IRQ_ZB_RT_EN (rf_tx_finish_clear_flag s8)))
      })"

definition rf_rx_irq_handler :: "u32 \<Rightarrow> bool \<Rightarrow> phy_lib \<Rightarrow> 'a phy_state_scheme \<Rightarrow> 'a phy_state_scheme option" where
  "rf_rx_irq_handler us ffd M s =
     (let p = rf_rxBuf s; (busy, s1) = is_rf_receiving_pkt s in
      if busy then Some s1
      else if p = NULL then None
      else
        let s2 = RFDMA_RX_DISABLE s1;
            s3 = s2\<lparr>g_sysDiags := (g_sysDiags s2)\<lparr>macRxIrqCnt := macRxIrqCnt (g_sysDiags s2) + 1\<rparr>\<rparr>
        in if \<not> RF_ZIGBEE_PACKET_CRC_OK (ram s3) p \<or> \<not> RF_ZIGBEE_PACKET_LENGTH_OK (ram s3) p
              \<or> rf_busyFlag s3 AND TX_BUSY \<noteq> 0
           then rx_drop (s3\<lparr>g_sysDiags := (g_sysDiags s3)\<lparr>macRxCrcFail := macRxCrcFail (g_sysDiags s3) + 1\<rparr>\<rparr>)
           else
             let len = RF_ZIGBEE_PACKET_PAYLOAD_LENGTH_GET (ram s3) p;
                 macPld = p + ZB_RADIO_RX_HDR_LEN;
                 (pSrcAddr, fDrop, fAck) = zb_macDataFilter M (radio s3) (ram s3) (g_zbMacPib s3) macPld len;
                 s4 = do_call (MacDataFilter macPld len) s3
             in if fDrop \<noteq> 0 then rx_drop s4
                else
                  let ackReq = (ram s4 macPld AND MAC_FCF_ACK_REQ_BIT \<noteq> 0);
                      (txTime, s5) = (if ackReq then clock_time (ZB_SWITCH_TO_TXMODE s4) else (0, s4));
                      (rxNextBuf, s6) = get_rx_buf M s5
                  in if rxNextBuf = NULL then
                       let s7 = (if ackReq then ZB_SWITCH_TO_RXMODE s6 else s6)
                       in rx_drop (s7\<lparr>g_sysDiags := (g_sysDiags s7)\<lparr>phytoMACqueuelimitreached :=
                            phytoMACqueuelimitreached (g_sysDiags s7) + 1\<rparr>\<rparr>)
                     else do {
                       s7 \<leftarrow> rf_setRxBuf rxNextBuf s6;
                       s8 \<leftarrow> (if ram s7 macPld AND MAC_FCF_ACK_REQ_BIT \<noteq> 0 then send_ack us ffd M macPld pSrcAddr txTime s7 else Some s7);
                       let s9 = RFDMA_RX_ENABLE s8;
                       Some (do_call (MacDataRecv p macPld len fAck (RF_ZIGBEE_PACKET_TIMESTAMP_GET (ram s9) p)
                                        (RF_ZIGBEE_PACKET_RSSI_GET (ram s9) p - 110)) s9)
                     })"

definition rf_tx_irq_handler :: "'a phy_state_scheme \<Rightarrow> 'a phy_state_scheme" where
  "rf_tx_irq_handler s =
     (let s1 = s\<lparr>rf_busyFlag := rf_busyFlag s AND NOT TX_BUSY\<rparr>;
          s2 = s1\<lparr>g_sysDiags := (g_sysDiags s1)\<lparr>macTxIrqCnt := macTxIrqCnt (g_sysDiags s1) + 1\<rparr>\<rparr>;
          s3 = ZB_SWITCH_TO_RXMODE (s2\<lparr>rfMode := RF_STATE_RX\<rparr>)
      in do_call MacDataSend s3)"

section \<open>What the operations leave alone\<close>

lemma do_call_sel [simp]:
  "radio (do_call c s) = radio s @ [c]" "ram (do_call c s) = ram s" "rf_rxBuf (do_call c s) = rf_rxBuf s"
  "g_zbMacPib (do_call c s) = g_zbMacPib s" "ticks (do_call c s) = ticks s" "hw_in (do_call c s) = hw_in s"
  "reg_dma_chn_en (do_call c s) = reg_dma_chn_en s" "reg_irq_mask (do_call c s) = reg_irq_mask s"
  "rf_ack_buf (do_call c s) = rf_ack_buf s" "rf_tx_buf (do_call c s) = rf_tx_buf s" "fPaEn (do_call c s) = fPaEn s"
  "rf_pa_txen_pin (do_call c s) = rf_pa_txen_pin s" "rf_pa_rxen_pin (do_call c s) = rf_pa_rxen_pin s"
  "g_sysDiags (do_call c s) = g_sysDiags s" "rfMode (do_call c s) = rfMode s" "turnArnd (do_call c s) = turnArnd s"
  "rf_busyFlag (do_call c s) = rf_busyFlag s" "pib_u8 f (do_call c s) = pib_u8 f s" "ev_poll (do_call c s) = ev_poll s"
  "sum_rssi (do_call c s) = sum_rssi s" "cnt_rssi (do_call c s) = cnt_rssi s" "ccaThres (do_call c s) = ccaThres s"
  "g_zb_txPowerSet (do_call c s) = g_zb_txPowerSet s"
  by (simp_all add: do_call_def pib_u8_def)

text \<open>The calls of a switch of the transceiver.\<close>

definition switch_calls :: "u8 \<Rightarrow> u8 \<Rightarrow> u8 \<Rightarrow> 'a phy_state_scheme \<Rightarrow> phy_call list" where
  "switch_calls md txen rxen s =
     (if fPaEn s \<noteq> 0 then [GpioWrite (rf_pa_txen_pin s) txen, GpioWrite (rf_pa_rxen_pin s) rxen] else []) @
     [RfTrxStateSet md (LOGICCHANNEL_TO_PHYSICAL (pib_u8 phyChannelCur s))]"

lemma switch_eq:
  "ZB_SWITCH_TO_TXMODE s = s\<lparr>radio := radio s @ switch_calls RF_MODE_TX 1 0 s\<rparr>"
  "ZB_SWITCH_TO_RXMODE s = s\<lparr>radio := radio s @ switch_calls RF_MODE_RX 0 1 s\<rparr>"
  by (simp_all add: ZB_SWITCH_TO_TXMODE_def ZB_SWITCH_TO_RXMODE_def pa_pins_def switch_calls_def do_call_def
      Let_def rf_getChannel_def pib_u8_def)

lemma rf_setTrxState_eq:
  "rf_setTrxState st s =
     (if st = RF_STATE_RX \<or> st = RF_STATE_ED
      then s\<lparr>radio := radio s @ switch_calls RF_MODE_RX 0 1 s, rfMode := RF_STATE_RX\<rparr>
      else if st = RF_STATE_TX
      then s\<lparr>radio := radio s @ switch_calls RF_MODE_TX 1 0 s @ [WaitUs (ucast (turnArnd s))], rfMode := RF_STATE_TX\<rparr>
      else s\<lparr>radio := radio s @ switch_calls RF_MODE_OFF 0 0 s, rfMode := RF_STATE_OFF\<rparr>)"
  by (simp add: rf_setTrxState_def switch_eq rf_paShutDown_def pa_pins_def switch_calls_def do_call_def Let_def
      rf_getChannel_def pib_u8_def)

section \<open>Link quality\<close>

lemma rf_getLqi_uint:
  "uint (rf_getLqi r) = 255 * (max (- 99) (min (- 15) (sint r)) + 99) div 84"
proof -
  let ?x = "max (- 99) (min (- 15) (sint r)) + 99"
  have x: "0 \<le> ?x" "?x \<le> 84" by simp_all
  then have q: "0 \<le> 255 * ?x div 84" "255 * ?x div 84 \<le> 255"
    using zdiv_mono1 [of "255 * ?x" "255 * 84" 84] by (simp_all add: pos_imp_zdiv_nonneg_iff)
  have "(255 * ?x) sdiv 84 = 255 * ?x div 84"
    using x(1) by (simp add: signed_divide_int_def sgn_if)
  then have "rf_getLqi r = word_of_int (255 * ?x div 84)"
    by (auto simp: rf_getLqi_def ZB_RADIO_RSSI_TO_LQI_def Let_def max_def min_def)
  then show ?thesis
    using q by (simp add: uint_word_of_int)
qed

text \<open>
  Link quality grows with the received power: it is monotone in the signed RSSI, it reaches 255 exactly
  from -15 dBm on and it is 0 exactly from -99 dBm down.\<close>

theorem rf_getLqi_monotone:
  assumes "sint a \<le> sint b"
  shows "rf_getLqi a \<le> rf_getLqi b \<and> (rf_getLqi b = 255 \<longleftrightarrow> - 15 \<le> sint b) \<and> (rf_getLqi a = 0 \<longleftrightarrow> sint a \<le> - 99)"
proof (intro conjI)
  show "rf_getLqi a \<le> rf_getLqi b"
    unfolding word_le_def rf_getLqi_uint using assms by (intro zdiv_mono1) auto
  show "rf_getLqi b = 255 \<longleftrightarrow> - 15 \<le> sint b"
    unfolding word_uint_eq_iff rf_getLqi_uint by (auto simp: max_def min_def)
  show "rf_getLqi a = 0 \<longleftrightarrow> sint a \<le> - 99"
    unfolding word_uint_eq_iff rf_getLqi_uint by (auto simp: max_def min_def)
qed

theorem rf_getLqi_monotone_witness:
  "rf_getLqi (- 50) \<le> rf_getLqi (- 10) \<and> rf_getLqi (- 10) = 255"
  using rf_getLqi_monotone [of "- 50" "- 10"] by auto

section \<open>Sums of signed samples\<close>

text \<open>The value that the i-th read of the RSSI register gives.\<close>

definition rssi_at :: "'a phy_state_scheme \<Rightarrow> nat \<Rightarrow> s8" where
  "rssi_at s i = hw_in s 0x441 i - 110"

definition rssi_sum :: "'a phy_state_scheme \<Rightarrow> nat \<Rightarrow> int" where
  "rssi_sum s n = (\<Sum>i<n. sint (rssi_at s i))"

lemma rf_rssi_get_154_eq:
  "rf_rssi_get_154 s = (rssi_at s 0, s\<lparr>hw_in := (hw_in s)(0x441 := \<lambda>i. hw_in s 0x441 (Suc i))\<rparr>)"
  by (simp add: rf_rssi_get_154_def read_reg8_def rssi_at_def)

lemma sint_s8_range: "- 128 \<le> sint (r :: s8)" "sint (r :: s8) \<le> 127"
  using sint_range_size [of r] by (simp_all add: word_size)

lemma rssi_sum_range: "- (128 * int n) \<le> rssi_sum s n" "rssi_sum s n \<le> 127 * int n"
proof (induction n)
  case (Suc n)
  { case 1 show ?case using Suc(1) sint_s8_range [of "rssi_at s n"] by (simp add: rssi_sum_def) }
  { case 2 show ?case using Suc(2) sint_s8_range [of "rssi_at s n"] by (simp add: rssi_sum_def) }
qed (simp_all add: rssi_sum_def)

lemma sint_s32: "- (2 ^ 31) \<le> x \<Longrightarrow> x < 2 ^ 31 \<Longrightarrow> sint (word_of_int x :: s32) = x"
  by (simp add: sint_sbintrunc' signed_take_bit_int_eq_self)

lemma mean_range:
  assumes "0 < n"
  shows "- 128 \<le> rssi_sum s n sdiv int n \<and> rssi_sum s n sdiv int n \<le> 127"
proof (cases "0 \<le> rssi_sum s n")
  case True
  then have "rssi_sum s n sdiv int n = rssi_sum s n div int n"
    using assms by (simp add: signed_divide_int_def sgn_if)
  moreover have "rssi_sum s n div int n \<le> 127 * int n div int n"
    using assms rssi_sum_range(2) [where s = s and n = n] by (intro zdiv_mono1) simp_all
  moreover have "0 \<le> rssi_sum s n div int n"
    using True assms by (simp add: pos_imp_zdiv_nonneg_iff)
  ultimately show ?thesis
    using assms by simp
next
  case False
  then have "rssi_sum s n sdiv int n = - (- rssi_sum s n div int n)"
    using assms by (simp add: signed_divide_int_def sgn_if)
  moreover have "- rssi_sum s n div int n \<le> 128 * int n div int n"
    using assms rssi_sum_range(1) [where s = s and n = n] by (intro zdiv_mono1) simp_all
  moreover have "0 \<le> - rssi_sum s n div int n"
    using False assms by (subst pos_imp_zdiv_nonneg_iff) simp_all
  ultimately show ?thesis
    using assms by simp
qed

text \<open>The mean that the code computes from a sum and a count that both fit.\<close>

lemma mean_value:
  assumes "n < 0xffffff" "0 < n"
  shows "(scast (c_div (word_of_int (rssi_sum s n)) (word_of_int (int n))) :: s8) = word_of_int (rssi_sum s n sdiv int n)"
proof -
  have "- (2 ^ 31) \<le> rssi_sum s n" "rssi_sum s n < 2 ^ 31"
    using rssi_sum_range [where s = s and n = n] assms(1) by simp_all
  moreover have "sint (word_of_int (rssi_sum s n sdiv int n) :: s32) = rssi_sum s n sdiv int n"
    using mean_range [OF assms(2), of s] by (intro sint_s32) simp_all
  ultimately show ?thesis
    using assms(1) sint_s32 [of "rssi_sum s n"] sint_s32 [of "int n"] by (simp add: c_div_def scast_eq)
qed

lemma sint_mean: "0 < n \<Longrightarrow> sint (word_of_int (rssi_sum s n sdiv int n) :: s8) = rssi_sum s n sdiv int n"
  using mean_range [of n s] by (simp add: sint_sbintrunc' signed_take_bit_int_eq_self)

section \<open>Energy detection\<close>

lemma rf_edDetect_adds:
  assumes "sint (cnt_rssi s + 1) < 0xfffffe"
  shows "rf_edDetect s = s\<lparr>hw_in := (hw_in s)(0x441 := \<lambda>i. hw_in s 0x441 (Suc i)),
           sum_rssi := sum_rssi s + scast (rssi_at s 0), cnt_rssi := cnt_rssi s + 1\<rparr>"
  using assms by (simp add: rf_edDetect_def rf_rssi_get_154_eq)

lemma sint_count: "n + 1 < 0xfffffe \<Longrightarrow> sint (word_of_int (int n) + 1 :: s32) = int n + 1"
  using sint_s32 [of "int n + 1"] by (simp del: of_int_of_nat_eq)

text \<open>
  One round of polling while a scan runs: entry 0 calls \<^verbatim>\<open>rf_edDetect\<close>, the others call what the
  application registered.
\<close>

definition poll_dispatch ::
  "addr \<Rightarrow> (addr \<Rightarrow> poll_table \<times> 'a phy_state_scheme \<Rightarrow> poll_table \<times> 'a phy_state_scheme) \<Rightarrow>
   addr \<Rightarrow> poll_table \<times> 'a phy_state_scheme \<Rightarrow> poll_table \<times> 'a phy_state_scheme" where
  "poll_dispatch ed_at other f ts = (if f = ed_at then (fst ts, rf_edDetect (snd ts)) else other f ts)"

definition poll_round ::
  "addr \<Rightarrow> (addr \<Rightarrow> poll_table \<times> 'a phy_state_scheme \<Rightarrow> poll_table \<times> 'a phy_state_scheme) \<Rightarrow>
   'a phy_state_scheme \<Rightarrow> 'a phy_state_scheme" where
  "poll_round ed_at other s =
     (let (t, s1) = ev_poll_process (poll_dispatch ed_at other) (ev_poll s, s) in s1\<lparr>ev_poll := t\<rparr>)"

text \<open>A callback that has nothing to do with the scan.\<close>

definition scan_neutral ::
  "(addr \<Rightarrow> poll_table \<times> 'a phy_state_scheme \<Rightarrow> poll_table \<times> 'a phy_state_scheme) \<Rightarrow> bool" where
  "scan_neutral other \<longleftrightarrow> (\<forall>f t s. map cb (fst (other f (t, s))) = map cb t \<and> valid (fst (other f (t, s)) ! 0) = valid (t ! 0) \<and>
     sum_rssi (snd (other f (t, s))) = sum_rssi s \<and> cnt_rssi (snd (other f (t, s))) = cnt_rssi s \<and>
     hw_in (snd (other f (t, s))) 0x441 = hw_in s 0x441)"

definition scanning :: "addr \<Rightarrow> int \<Rightarrow> nat \<Rightarrow> (nat \<Rightarrow> u8) \<Rightarrow> poll_table \<Rightarrow> 'a phy_state_scheme \<Rightarrow> bool" where
  "scanning ed_at S n h t s \<longleftrightarrow> sum_rssi s = word_of_int S \<and> cnt_rssi s = word_of_int (int n) \<and> hw_in s 0x441 = h \<and>
     (\<exists>b c. map cb t = [ed_at, b, c] \<and> b \<noteq> ed_at \<and> c \<noteq> ed_at) \<and> valid (t ! 0) = 1"

lemma scanning_other:
  assumes "scan_neutral other" "scanning ed_at S n h t s" "i \<in> {1, 2}"
  shows "case (if valid (t ! i) \<noteq> 0 then poll_dispatch ed_at other (cb (t ! i)) (t, s) else (t, s)) of
           (t', s') \<Rightarrow> scanning ed_at S n h t' s'"
proof -
  obtain b c where t: "map cb t = [ed_at, b, c]" "b \<noteq> ed_at" "c \<noteq> ed_at"
    using assms(2) by (auto simp: scanning_def)
  then obtain x y z where "t = [x, y, z]" "cb y = b" "cb z = c"
    by auto
  then have "cb (t ! i) \<noteq> ed_at"
    using t(2,3) assms(3) by auto
  then have "poll_dispatch ed_at other (cb (t ! i)) (t, s) = other (cb (t ! i)) (t, s)"
    by (simp add: poll_dispatch_def)
  moreover have "scanning ed_at S n h (fst (other f (t, s))) (snd (other f (t, s)))" for f
    using assms(1,2) unfolding scan_neutral_def scanning_def by simp
  ultimately show ?thesis
    using assms(2) by (simp add: case_prod_beta)
qed

lemma scanning_detect:
  assumes "scanning ed_at S n h t s" "n + 1 < 0xfffffe"
  shows "scanning ed_at (S + sint (h 0 - 110)) (n + 1) (\<lambda>i. h (Suc i)) t (rf_edDetect s)"
proof -
  have c: "sum_rssi s = word_of_int S" "cnt_rssi s = word_of_int (int n)" "hw_in s 0x441 = h"
    using assms(1) by (simp_all add: scanning_def)
  have "sint (cnt_rssi s + 1) < 0xfffffe"
    unfolding c(2) sint_count [OF assms(2)] using assms(2) by simp
  then show ?thesis
    using assms(1) c by (simp add: rf_edDetect_adds scanning_def rssi_at_def)
qed

lemma scanning_head: "scanning ed_at S n h t s \<Longrightarrow> cb (t ! 0) = ed_at \<and> valid (t ! 0) \<noteq> 0"
  by (auto simp: scanning_def)

lemma poll_round_scanning:
  assumes "scan_neutral other" "scanning ed_at S n h (ev_poll s) s" "n + 1 < 0xfffffe"
  shows "scanning ed_at (S + sint (h 0 - 110)) (n + 1) (\<lambda>i. h (Suc i)) (ev_poll (poll_round ed_at other s)) (poll_round ed_at other s)"
proof -
  let ?d = "poll_dispatch ed_at other" and ?t = "ev_poll s" and ?h = "\<lambda>i. h (Suc i)" and ?S = "S + sint (h 0 - 110)"
  have c0: "cb (?t ! 0) = ed_at" "valid (?t ! 0) \<noteq> 0"
    using scanning_head [OF assms(2)] by simp_all
  have 1: "scanning ed_at ?S (n + 1) ?h ?t (rf_edDetect s)"
    by (rule scanning_detect [OF assms(2,3)])
  obtain t2 s2 where 2: "(if valid (?t ! 1) \<noteq> 0 then ?d (cb (?t ! 1)) (?t, rf_edDetect s) else (?t, rf_edDetect s)) = (t2, s2)"
    by (rule prod.exhaust)
  have s2: "scanning ed_at ?S (n + 1) ?h t2 s2"
    using scanning_other [OF assms(1) 1, of 1] unfolding 2 by simp
  obtain t3 s3 where 3: "(if valid (t2 ! 2) \<noteq> 0 then ?d (cb (t2 ! 2)) (t2, s2) else (t2, s2)) = (t3, s3)"
    by (rule prod.exhaust)
  have s3: "scanning ed_at ?S (n + 1) ?h t3 s3"
    using scanning_other [OF assms(1) s2, of 2] unfolding 3 by simp
  have u: "[0..<EV_POLL_MAX] = [0, 1, 2]"
    by (simp add: EV_POLL_MAX_def upt_rec)
  have "?d (cb (?t ! 0)) (?t, s) = (?t, rf_edDetect s)"
    using c0(1) by (simp add: poll_dispatch_def)
  then have "ev_poll_process ?d (?t, s) = poll_loop ?d [1, 2] (?t, rf_edDetect s)"
    using c0(2) by (simp add: ev_poll_process_def u)
  also have "\<dots> = poll_loop ?d [2] (t2, s2)"
    unfolding poll_loop.simps(2) [of _ 1] fst_conv 2 ..
  also have "\<dots> = (t3, s3)"
    unfolding poll_loop.simps fst_conv 3 ..
  finally show ?thesis
    using s3 by (simp add: poll_round_def scanning_def)
qed

lemma poll_rounds_scanning:
  assumes "scan_neutral other" "scanning ed_at 0 0 h (ev_poll s) s" "n < 0xfffffe"
  shows "scanning ed_at (\<Sum>i<n. sint (h i - 110)) n (\<lambda>i. h (i + n)) (ev_poll ((poll_round ed_at other ^^ n) s))
           ((poll_round ed_at other ^^ n) s)"
  using assms(3)
proof (induction n)
  case (Suc n)
  then show ?case
    using poll_round_scanning [OF assms(1) Suc.IH] by simp
qed (use assms(2) in simp)

lemma startEDScan_scanning:
  assumes "map cb (ev_poll s) = [ed_at, b, c]" "b \<noteq> ed_at" "c \<noteq> ed_at"
  shows "scanning ed_at 0 0 (hw_in s 0x441) (ev_poll (rf_startEDScan s)) (rf_startEDScan s)"
proof -
  obtain x y z where "ev_poll s = [x, y, z]" "cb x = ed_at" "cb y = b" "cb z = c"
    using assms(1) by auto
  then show ?thesis
    using assms(2,3) by (auto simp: rf_startEDScan_def rf_setTrxState_eq scanning_def ev_enable_poll_def phy_consts Let_def)
qed

text \<open>
  C21. Energy detection reports the link quality of the mean of the samples: after a scan is started and the
  main loop has polled n times, whatever the other poll entries do, stopping it returns the LQI of the mean
  RSSI, truncated toward zero, of the n values read; a scan stopped before the first poll reports the LQI
  of 0 dBm, the highest there is.\<close>

theorem ed_scan_mean:
  assumes "map cb (ev_poll s) = [ed_at, b, c]" "b \<noteq> ed_at" "c \<noteq> ed_at" "scan_neutral other" "n < 0xfffffe"
  shows "fst (rf_stopEDScan ((poll_round ed_at other ^^ n) (rf_startEDScan s))) =
         (if n = 0 then 255 else rf_getLqi (word_of_int (rssi_sum s n sdiv int n)))"
proof -
  let ?s = "(poll_round ed_at other ^^ n) (rf_startEDScan s)"
  have "scanning ed_at (rssi_sum s n) n (\<lambda>i. hw_in s 0x441 (i + n)) (ev_poll ?s) ?s"
    using poll_rounds_scanning [OF assms(4) startEDScan_scanning [OF assms(1-3)] assms(5)]
    by (simp add: rssi_sum_def rssi_at_def)
  then have c: "sum_rssi ?s = word_of_int (rssi_sum s n)" "cnt_rssi ?s = word_of_int (int n)"
    by (simp_all add: scanning_def)
  have stop: "fst (rf_stopEDScan ?s) = rf_getLqi (scast (c_div (sum_rssi ?s) (if cnt_rssi ?s = 0 then 1 else cnt_rssi ?s)))"
    by (simp add: rf_stopEDScan_def Let_def)
  show ?thesis
  proof (cases "n = 0")
    case True
    have "rf_getLqi 0 = 255"
      unfolding word_uint_eq_iff rf_getLqi_uint by simp
    then show ?thesis
      using True unfolding stop c by (simp add: rssi_sum_def c_div_def)
  next
    case False
    have "(word_of_int (int n) :: s32) \<noteq> 0"
      using sint_s32 [of "int n"] assms(5) False by (auto simp del: of_int_of_nat_eq dest!: arg_cong [of _ _ sint])
    then show ?thesis
      using False mean_value [of n s] assms(5) unfolding stop c by simp
  qed
qed

definition demo_phy :: phy_state where
  "demo_phy = sdk_state.extend demo_sdk \<lparr>g_zb_txPowerSet = 0, rf_tx_buf = replicate 132 0, rf_ack_buf = replicate 12 0,
     rf_rxBuf = 0, rfMode = 0, rf_busyFlag = 0, soft_rssi = 0, sum_rssi = 0, cnt_rssi = 1, fPaEn = 0, rf_pa_txen_pin = 0,
     rf_pa_rxen_pin = 0, ccaThres = - 70, turnArnd = 120,
     g_sysDiags = \<lparr>macRxCrcFail = 0, phytoMACqueuelimitreached = 0, macTxIrqCnt = 0, macRxIrqCnt = 0\<rparr>,
     ev_poll = [\<lparr>cb = 0x1000, valid = 0\<rparr>, \<lparr>cb = 0, valid = 0\<rparr>, \<lparr>cb = 0, valid = 0\<rparr>], ram = (\<lambda>_. 0),
     reg_dma_chn_en = 0, reg_dma_chn_irq_msk = 0, reg_dma2_addr = 0, reg_rf_irq_mask = 0, reg_irq_mask = 0,
     hw_in = (\<lambda>r i. if r = 0x441 then 50 + of_nat i else 0), radio = []\<rparr>"

text \<open>Samples of -60, -59 and -58 dBm.\<close>

theorem ed_scan_mean_witness:
  "fst (rf_stopEDScan ((poll_round 0x1000 (\<lambda>_ ts. ts) ^^ 3) (rf_startEDScan demo_phy))) = 121"
proof -
  have "rssi_sum demo_phy 3 = - 177"
    by (simp add: rssi_sum_def rssi_at_def demo_phy_def sdk_state.defs phy_state.defs eval_nat_numeral)
  moreover have "rf_getLqi (word_of_int ((- 177) sdiv 3)) = 121"
    unfolding word_uint_eq_iff rf_getLqi_uint by simp
  ultimately show ?thesis
    using ed_scan_mean [of demo_phy "0x1000" 0 0 "\<lambda>_ ts. ts" 3]
    by (simp add: scan_neutral_def demo_phy_def sdk_state.defs phy_state.defs)
qed

section \<open>Clear channel assessment\<close>

text \<open>The state after k reads of the clock and m reads of the RSSI register.\<close>

definition after_reads :: "nat \<Rightarrow> nat \<Rightarrow> 'a phy_state_scheme \<Rightarrow> 'a phy_state_scheme" where
  "after_reads k m s = s\<lparr>ticks := \<lambda>i. ticks s (i + k), hw_in := (hw_in s)(0x441 := \<lambda>i. hw_in s 0x441 (i + m))\<rparr>"

lemma after_reads_sel [simp]:
  "ccaThres (after_reads k m s) = ccaThres s" "rf_busyFlag (after_reads k m s) = rf_busyFlag s"
  by (simp_all add: after_reads_def)

lemma clock_time_after: "clock_time (after_reads k m s) = (ticks s k, after_reads (Suc k) m s)"
  by (simp add: clock_time_def after_reads_def)

lemma rssi_get_after: "rf_rssi_get_154 (after_reads k m s) = (rssi_at s m, after_reads k (Suc m) s)"
  by (simp add: rf_rssi_get_154_eq rssi_at_def after_reads_def)

lemma cca_loop_sum:
  assumes "ticks s (j + d) - t > 128 * 16" "\<forall>i < d. \<not> ticks s (j + i) - t > 128 * 16"
  shows "cca_loop t (word_of_int (rssi_sum s m)) (word_of_int (int m)) (after_reads j m s) =
           Some (word_of_int (rssi_sum s (m + d)), word_of_int (int (m + d)), after_reads (j + d + 1) (m + d) s)"
  using assms
proof (induction d arbitrary: j m)
  case 0
  then show ?case
    by (subst cca_loop.simps) (simp add: clock_time_exceed_def clock_time_after)
next
  case (Suc d)
  have "\<not> ticks s j - t > 128 * 16"
    using Suc.prems(2) [rule_format, of 0] by simp
  moreover have "cca_loop t (word_of_int (rssi_sum s (Suc m))) (word_of_int (int (Suc m))) (after_reads (Suc j) (Suc m) s) =
      Some (word_of_int (rssi_sum s (Suc m + d)), word_of_int (int (Suc m + d)), after_reads (Suc j + d + 1) (Suc m + d) s)"
    using Suc.prems(1) Suc.prems(2) [rule_format, of "Suc i" for i] by (intro Suc.IH) auto
  moreover have "word_of_int (rssi_sum s (Suc m)) = word_of_int (rssi_sum s m) + (scast (rssi_at s m) :: s32)"
    by (simp add: rssi_sum_def)
  ultimately show ?case
    by (subst cca_loop.simps) (simp add: clock_time_exceed_def clock_time_after rssi_get_after add.commute)
qed

text \<open>
  C22. Clear channel assessment ends and compares the mean power with the threshold: if the clock passes 128
  microseconds after the start with its (d+1)st further reading, the routine returns after d+1 samples and
  reports a busy channel exactly when their mean, truncated toward zero, is above the threshold or a
  transmission is under way.\<close>

theorem rf_performCCA_mean:
  assumes "ticks s (d + 1) - ticks s 0 > 128 * 16" "\<forall>i < d. \<not> ticks s (i + 1) - ticks s 0 > 128 * 16" "d + 1 < 0xffffff"
  shows "\<exists>s'. rf_performCCA s =
           Some (if rssi_sum s (d + 1) sdiv int (d + 1) > sint (ccaThres s) \<or> bit (rf_busyFlag s) 1
                 then PHY_CCA_BUSY else PHY_CCA_IDLE, s')"
proof -
  have 0: "s = after_reads 0 0 s"
    by (simp add: after_reads_def)
  have c: "clock_time s = (ticks s 0, after_reads 1 0 s)"
    by (subst 0) (simp add: clock_time_after)
  have one: "(scast (rssi_at s 0) :: s32) = word_of_int (rssi_sum s 1)" "(1 :: s32) = word_of_int (int 1)"
    by (simp_all add: rssi_sum_def)
  have l: "cca_loop (ticks s 0) (scast (rssi_at s 0)) 1 (after_reads 1 (Suc 0) s) =
      Some (word_of_int (rssi_sum s (1 + d)), word_of_int (int (1 + d)), after_reads (1 + d + 1) (1 + d) s)"
    using cca_loop_sum [of s 1 d "ticks s 0" 1] assms(1,2) unfolding one by (simp add: add.commute)
  have m: "(scast (c_div (word_of_int (rssi_sum s (1 + d))) (word_of_int (int (1 + d)))) :: s8) =
      word_of_int (rssi_sum s (1 + d) sdiv int (1 + d))"
    using assms(3) by (intro mean_value) simp_all
  have b: "rf_busyFlag s AND TX_BUSY \<noteq> 0 \<longleftrightarrow> bit (rf_busyFlag s) 1"
    by (simp add: TX_BUSY_def and_exp_eq_0_iff_not_bit [of _ 1, simplified])
  show ?thesis
    unfolding rf_performCCA_def Let_def c prod.case rssi_get_after l bind.bind_lunit m sint_mean [of "1 + d" s, simplified]
    using sint_mean [of "Suc d" s] by (simp add: b)
qed

theorem rf_performCCA_mean_witness:
  "\<exists>s'. rf_performCCA (demo_phy\<lparr>ticks := \<lambda>i. of_nat i * 1500\<rparr>) = Some (PHY_CCA_BUSY, s')"
proof -
  let ?s = "demo_phy\<lparr>ticks := \<lambda>i. of_nat i * 1500\<rparr>"
  have "rssi_sum ?s (Suc (Suc 0)) = - 119" "sint (ccaThres ?s) = - 70"
    by (simp_all add: rssi_sum_def rssi_at_def demo_phy_def sdk_state.defs phy_state.defs eval_nat_numeral)
  then show ?thesis
    using rf_performCCA_mean [of ?s 1] by simp
qed

end
