(* ===== verification/Phy_Rx.thy ===== *)
theory Phy_Rx
  imports Mac_Phy
begin

text \<open>
  What the receive interrupt of \<^verbatim>\<open>mac_phy.c\<close> does with a frame: a classification of frames by what becomes
  of them, the acknowledgement that is due, and the theorem that the handler does exactly that and leaves
  the receiver running; then the invariant of the radio's state over any sequence of operations.
\<close>

section \<open>What is due to a frame\<close>

definition good_frame :: "'a phy_state_scheme \<Rightarrow> bool" where
  "good_frame s \<longleftrightarrow> RF_ZIGBEE_PACKET_CRC_OK (ram s) (rf_rxBuf s) \<and> RF_ZIGBEE_PACKET_LENGTH_OK (ram s) (rf_rxBuf s) \<and>
     \<not> bit (rf_busyFlag s) 1"

text \<open>The frame in the buffer: where it is, its length, and whether it asks for an acknowledgement.\<close>

definition frame_at :: "'a phy_state_scheme \<Rightarrow> addr" where
  "frame_at s = rf_rxBuf s + 5"

definition frame_len :: "'a phy_state_scheme \<Rightarrow> u8" where
  "frame_len s = ram s (rf_rxBuf s + 4)"

definition wants_ack :: "'a phy_state_scheme \<Rightarrow> bool" where
  "wants_ack s \<longleftrightarrow> bit (ram s (frame_at s)) 5"

definition filter_result :: "phy_lib \<Rightarrow> 'a phy_state_scheme \<Rightarrow> addr \<times> u8 \<times> u8" where
  "filter_result M s = zb_macDataFilter M (radio s) (ram s) (g_zbMacPib s) (frame_at s) (frame_len s)"

text \<open>The calls made before the next buffer is asked for, and that buffer.\<close>

definition rx_hist :: "'a phy_state_scheme \<Rightarrow> phy_call list" where
  "rx_hist s = radio s @ [MacDataFilter (frame_at s) (frame_len s)] @
     (if wants_ack s then switch_calls RF_MODE_TX 1 0 s else [])"

definition next_buf :: "phy_lib \<Rightarrow> 'a phy_state_scheme \<Rightarrow> addr" where
  "next_buf M s = tl_getRxBuf M (rx_hist s)"

text \<open>
  Taking the next buffer clears two of its bytes. \<open>seen\<close> is the memory after that, from which the handler reads
  the frame a second time.
\<close>

definition cleared :: "addr \<Rightarrow> (addr \<Rightarrow> u8) \<Rightarrow> addr \<Rightarrow> u8" where
  "cleared p m = m(p := 0, p + 4 := 0)"

definition seen :: "phy_lib \<Rightarrow> 'a phy_state_scheme \<Rightarrow> addr \<Rightarrow> u8" where
  "seen M s = cleared (next_buf M s) (ram s)"

datatype rx_fate = Rx_Bad | Rx_Filtered | Rx_NoBuffer | Rx_Taken

definition rx_fate :: "phy_lib \<Rightarrow> 'a phy_state_scheme \<Rightarrow> rx_fate" where
  "rx_fate M s =
     (if \<not> good_frame s then Rx_Bad else if fst (snd (filter_result M s)) \<noteq> 0 then Rx_Filtered
      else if next_buf M s = NULL then Rx_NoBuffer else Rx_Taken)"

text \<open>
  The acknowledgement: frame type 2, the sequence number of the frame, and the pending bit. The pending bit is
  due to a data request command with a source address (mode 2 or 3) for which the MAC holds data.
\<close>

definition ack_frame :: "u8 \<Rightarrow> bool \<Rightarrow> u8 list" where
  "ack_frame seq pend = [4, 0, 0, 0, 5, if pend then 0x12 else 0x02, 0, seq, 0, 0, 0, 0]"

definition cmd_offset :: "phy_lib \<Rightarrow> 'a phy_state_scheme \<Rightarrow> u8" where
  "cmd_offset M s =
     (let hdr = tl_zbMacHdrSize M (push_bit 8 (ucast (seen M s (frame_at s + 1))) OR ucast (seen M s (frame_at s)))
      in if bit (seen M s (frame_at s)) 3
         then hdr + mac_getAuxSecurityHeaderLen M (drop_bit 3 (seen M s (frame_at s + ucast hdr) AND 0x18)) else hdr)"

definition data_request :: "phy_lib \<Rightarrow> 'a phy_state_scheme \<Rightarrow> bool" where
  "data_request M s \<longleftrightarrow> seen M s (frame_at s) AND 7 = 3 \<and> seen M s (frame_at s + ucast (cmd_offset M s)) = 4 \<and>
     bit (seen M s (frame_at s + 1)) 7"

definition pending_due :: "bool \<Rightarrow> phy_lib \<Rightarrow> 'a phy_state_scheme \<Rightarrow> bool" where
  "pending_due ffd M s \<longleftrightarrow> ffd \<and> data_request M s \<and>
     tl_zbMacPendingDataCheck M (rx_hist s @ [GetRxBuf]) (seen M s)
       (drop_bit 6 (seen M s (frame_at s + 1))) (fst (filter_result M s)) 1 = MAC_SUCCESS"

text \<open>
  The buffer the library handed out last, read off the calls made: \<open>g\<close> is what \<^verbatim>\<open>tl_getRxBuf\<close> returns after
  the calls before it, and a null result changes nothing.
\<close>

fun handed_out :: "(phy_call list \<Rightarrow> addr) \<Rightarrow> phy_call list \<Rightarrow> addr \<Rightarrow> phy_call list \<Rightarrow> addr" where
  "handed_out g pre b [] = b"
| "handed_out g pre b (c # cs) =
     handed_out g (pre @ [c]) (if c = GetRxBuf \<and> g pre \<noteq> NULL then g pre else b) cs"

definition buffer_of :: "phy_lib \<Rightarrow> phy_call list \<Rightarrow> addr" where
  "buffer_of M cs = handed_out (tl_getRxBuf M) [] NULL cs"

lemma handed_out_append: "handed_out g pre b (xs @ ys) = handed_out g (pre @ xs) (handed_out g pre b xs) ys"
  by (induction g pre b xs rule: handed_out.induct) simp_all

lemma handed_out_other: "GetRxBuf \<notin> set xs \<Longrightarrow> handed_out g pre b xs = b"
  by (induction g pre b xs rule: handed_out.induct) auto

lemma buffer_of_other [simp]: "GetRxBuf \<notin> set xs \<Longrightarrow> buffer_of M (cs @ xs) = buffer_of M cs"
  by (simp add: buffer_of_def handed_out_append handed_out_other)

lemma buffer_of_Get:
  "buffer_of M (cs @ GetRxBuf # xs) =
     (if GetRxBuf \<notin> set xs then if tl_getRxBuf M cs \<noteq> NULL then tl_getRxBuf M cs else buffer_of M cs
      else buffer_of M (cs @ GetRxBuf # xs))"
  by (simp add: buffer_of_def handed_out_append handed_out_other)

lemma switch_calls_Get [simp]: "GetRxBuf \<notin> set (switch_calls a b c s)"
  by (simp add: switch_calls_def)

fun packets :: "phy_call list \<Rightarrow> u8 list list" where
  "packets [] = []"
| "packets (RfTxPkt b # cs) = b # packets cs"
| "packets (_ # cs) = packets cs"

fun received :: "phy_call list \<Rightarrow> phy_call list" where
  "received [] = []"
| "received (MacDataRecv p f n a t r # cs) = MacDataRecv p f n a t r # received cs"
| "received (_ # cs) = received cs"

lemma packets_append [simp]: "packets (xs @ ys) = packets xs @ packets ys"
  by (induction xs rule: packets.induct) simp_all

lemma received_append [simp]: "received (xs @ ys) = received xs @ received ys"
  by (induction xs rule: received.induct) simp_all

lemma switch_calls_silent [simp]: "packets (switch_calls a b c s) = []" "received (switch_calls a b c s) = []"
  by (simp_all add: switch_calls_def)

section \<open>The wait for the end of the acknowledgement\<close>

text \<open>The clock does not stop: from any reading on, a later one is more than a millisecond ahead.\<close>

definition clock_runs :: "'a phy_state_scheme \<Rightarrow> bool" where
  "clock_runs s \<longleftrightarrow> (\<forall>j. \<exists>k. ticks s (j + Suc k) - ticks s j > 16000)"

lemma ticks_hw_in:
  "(s :: 'a phy_state_scheme)\<lparr>hw_in := h, ticks := t\<rparr> = s\<lparr>ticks := t, hw_in := h\<rparr>"
  "(s :: 'a phy_state_scheme)\<lparr>hw_in := h\<rparr> = s\<lparr>ticks := ticks s, hw_in := h\<rparr>"
  by (cases s, simp)+

lemma tx_done_loop_ends:
  assumes "ticks s k - cur > 16000"
  shows "\<exists>t h. tx_done_loop cur s = Some (s\<lparr>ticks := t, hw_in := h\<rparr>)"
  using assms
proof (induction k arbitrary: s)
  case 0
  then show ?case
    by (subst tx_done_loop.simps)
      (auto simp: rf_tx_finish_def read_reg8_def clock_time_exceed_def clock_time_def ticks_hw_in(1) intro: ticks_hw_in(2))
next
  case (Suc k)
  let ?h = "(hw_in s)(0xf20 := \<lambda>i. hw_in s 0xf20 (Suc i))" and ?t = "\<lambda>i. ticks s (Suc i)"
  obtain t h where "tx_done_loop cur (s\<lparr>ticks := ?t, hw_in := ?h\<rparr>) = Some ((s\<lparr>ticks := ?t, hw_in := ?h\<rparr>)\<lparr>ticks := t, hw_in := h\<rparr>)"
    using Suc.IH [of "s\<lparr>ticks := ?t, hw_in := ?h\<rparr>"] Suc.prems by auto
  moreover have "(s\<lparr>ticks := ?t, hw_in := ?h\<rparr>)\<lparr>ticks := t, hw_in := h\<rparr> = s\<lparr>ticks := t, hw_in := h\<rparr>"
    by (cases s) simp
  ultimately show ?case
    by (subst tx_done_loop.simps)
      (auto simp: rf_tx_finish_def read_reg8_def clock_time_exceed_def clock_time_def ticks_hw_in(1) intro: ticks_hw_in(2))
qed

section \<open>The fields of the frame control\<close>

lemma fcf_type: "ucast ((push_bit 8 (ucast (b :: u8)) OR ucast (a :: u8) :: u16) AND 7) = (a AND 7 :: u8)"
proof -
  have m: "(7 :: u16) = mask 3" "(7 :: u8) = mask 3"
    by (simp_all add: mask_eq_exp_minus_1)
  show ?thesis
    unfolding m by (rule bit_word_eqI) (auto simp: bit_simps)
qed

lemma fcf_sec: "(push_bit 8 (ucast (b :: u8)) OR ucast (a :: u8) :: u16) AND 8 \<noteq> 0 \<longleftrightarrow> bit a 3"
  using and_exp_eq_0_iff_not_bit [of "push_bit 8 (ucast b) OR ucast a :: u16" 3] by (simp add: bit_simps)

lemma src_mode_eq:
  fixes x :: u8
  shows "(if x AND 0xc0 = 0x80 then 2 else if x AND 0xc0 = 0xc0 then 3 else 0) = (if bit x 7 then drop_bit 6 x else 0)"
proof -
  have m: "(0xc0 :: u8) = push_bit 6 (mask 2)"
    by (simp add: mask_eq_exp_minus_1 push_bit_eq_mult)
  have x: "x AND 0xc0 = push_bit 6 (drop_bit 6 x)"
    unfolding m by (rule bit_word_eqI) (auto simp: bit_simps)
  have "bit x 7 \<longleftrightarrow> bit (drop_bit 6 x) 1"
    by (simp add: bit_simps)
  moreover have "unat x < 2 ^ LENGTH(8)"
    by (rule unsigned_less)
  then have "unat (drop_bit 6 x) < 4"
    by (simp add: drop_bit_eq_div unat_div less_mult_imp_div_less)
  then have "unat (drop_bit 6 x) \<in> {0, 1, 2, 3}"
    by auto
  then have "drop_bit 6 x \<in> {0, 1, 2, 3}"
    by (auto simp: word_unat_eq_iff)
  ultimately show ?thesis
    unfolding x by (auto simp: push_bit_eq_mult)
qed

section \<open>Sending the acknowledgement\<close>

text \<open>The state in which the acknowledgement is prepared: the frame, seen from the state before the interrupt.\<close>

definition ack_stage :: "phy_lib \<Rightarrow> 'a phy_state_scheme \<Rightarrow> 'a phy_state_scheme \<Rightarrow> bool" where
  "ack_stage M s t \<longleftrightarrow> ram t = seen M s \<and> radio t = rx_hist s @ [GetRxBuf]"

lemma drop_bit_6_nz: "bit (x :: u8) 7 \<Longrightarrow> drop_bit 6 x \<noteq> 0"
  by (auto simp: bit_eq_iff bit_simps intro!: exI [of _ 1])

lemma ack_buf_set:
  "(ack_frame q False)[ZB_RADIO_TX_HDR_LEN := ack_frame q False ! ZB_RADIO_TX_HDR_LEN OR 0x10] = ack_frame q True"
  by (simp add: ack_frame_def ZB_RADIO_TX_HDR_LEN_def)

lemma ack_pending_eq:
  assumes "ack_stage M s t" "rf_ack_buf t = ack_frame q False"
  shows "ack_pending M (frame_at s) (fst (filter_result M s)) t =
    (if data_request M s then
       t\<lparr>radio := radio t @ [PendingDataCheck (drop_bit 6 (seen M s (frame_at s + 1))) (fst (filter_result M s)) 1],
         rf_ack_buf := ack_frame q (pending_due True M s)\<rparr>
     else t)"
proof -
  let ?off = "if bit (seen M s (frame_at s)) 3
    then tl_zbMacHdrSize M (push_bit 8 (ucast (seen M s (frame_at s + 1))) OR ucast (seen M s (frame_at s))) +
      mac_getAuxSecurityHeaderLen M (drop_bit 3 (seen M s (frame_at s + ucast
        (tl_zbMacHdrSize M (push_bit 8 (ucast (seen M s (frame_at s + 1))) OR ucast (seen M s (frame_at s))))) AND 0x18))
    else tl_zbMacHdrSize M (push_bit 8 (ucast (seen M s (frame_at s + 1))) OR ucast (seen M s (frame_at s)))"
  let ?mode = "if bit (seen M s (frame_at s + 1)) 7 then drop_bit 6 (seen M s (frame_at s + 1)) else 0"
  have h: "radio t = rx_hist s @ [GetRxBuf]" "ram t = seen M s"
    using assms(1) unfolding ack_stage_def by blast+
  have o: "?off = cmd_offset M s"
    by (simp only: cmd_offset_def Let_def)
  have d: "(seen M s (frame_at s) AND 7 = MAC_FRAME_COMMAND \<and> seen M s (frame_at s + ucast (cmd_offset M s)) = MAC_CMD_DATA_REQUEST)
      \<and> ?mode \<noteq> 0 \<longleftrightarrow> data_request M s"
    using drop_bit_6_nz by (auto simp: data_request_def MAC_FRAME_COMMAND_def MAC_CMD_DATA_REQUEST_def)
  have p: "pending_due True M s \<longleftrightarrow>
      tl_zbMacPendingDataCheck M (radio t) (ram t) ?mode (fst (filter_result M s)) 1 = MAC_SUCCESS" if "data_request M s"
    using that unfolding pending_due_def h data_request_def by simp
  have b: "rf_ack_buf t = ack_frame q False"
    by (rule assms(2))
  have "ack_pending M (frame_at s) (fst (filter_result M s)) t =
    (if data_request M s then
       let s1 = do_call (PendingDataCheck ?mode (fst (filter_result M s)) 1) t
       in if tl_zbMacPendingDataCheck M (radio t) (ram t) ?mode (fst (filter_result M s)) 1 = MAC_SUCCESS
          then s1\<lparr>rf_ack_buf := (rf_ack_buf s1)[ZB_RADIO_TX_HDR_LEN := rf_ack_buf s1 ! ZB_RADIO_TX_HDR_LEN OR 0x10]\<rparr> else s1
     else t)"
    unfolding ack_pending_def Let_def fcf_type fcf_sec h ZB_ADDR_16BIT_DEV_OR_BROADCAST_def ZB_ADDR_64BIT_DEV_def
      ZB_ADDR_NO_ADDR_def MAC_FCF_SRC_ADDR_BIT_def src_mode_eq o d ..
  moreover have "?mode = drop_bit 6 (seen M s (frame_at s + 1))" if "data_request M s"
    using that by (simp add: data_request_def)
  moreover have "t\<lparr>radio := R\<rparr> = t\<lparr>radio := R, rf_ack_buf := ack_frame q False\<rparr>" for R
    using b by (cases t) simp
  ultimately show ?thesis
    using b p by (simp add: Let_def ack_buf_set do_call_def)
qed

lemma irq_mask_back: "(x AND NOT k) OR k = x OR (k :: u32)"
  by (rule bit_word_eqI) (auto simp: bit_simps)

lemma ack_seq_set: "(ack_frame q b)[ZB_RADIO_TX_HDR_LEN + 2 := v, ZB_RADIO_TX_HDR_LEN := 2] = ack_frame v False"
  by (simp add: ack_frame_def ZB_RADIO_TX_HDR_LEN_def)

lemma ack_stage_buf [simp]: "ack_stage M s (t\<lparr>rf_ack_buf := b\<rparr>) = ack_stage M s t"
  by (simp add: ack_stage_def)

lemma clock_advance:
  assumes "clock_runs s" "ticks t = (\<lambda>i. ticks s (i + n))"
  shows "\<exists>k. ticks t (Suc k) - ticks t 0 > 16000"
  using assms(1) [unfolded clock_runs_def, rule_format, of n] by (simp add: assms(2) add.commute)

text \<open>
  Sending the acknowledgement transmits one frame, puts the interrupt mask and the receive mode back, and
  touches nothing else.
\<close>

lemma send_ack_ok:
  assumes "ack_stage M s t" "clock_runs t" "rf_ack_buf t = ack_frame q b"
    and A_def: "A = ack_frame (seen M s (frame_at s + 2)) (pending_due ffd M s)"
  shows "\<exists>tk h R. send_ack us ffd M (frame_at s) (fst (filter_result M s)) txt0 t =
           Some (t\<lparr>ticks := tk, hw_in := h, radio := radio t @ R @ switch_calls RF_MODE_RX 0 1 t, rf_ack_buf := A,
                   reg_irq_mask := reg_irq_mask t OR FLD_IRQ_ZB_RT_EN\<rparr>) \<and>
           packets R = [A] \<and> received R = [] \<and> GetRxBuf \<notin> set R"
proof -
  let ?q = "seen M s (frame_at s + 2)" and ?src = "fst (filter_result M s)"
  let ?s1 = "t\<lparr>rf_ack_buf := ack_frame ?q False\<rparr>"
  obtain P where s2: "(if ffd then ack_pending M (frame_at s) ?src ?s1 else ?s1) = t\<lparr>radio := radio t @ P, rf_ack_buf := A\<rparr>"
    and P: "packets P = []" "received P = []" "GetRxBuf \<notin> set P"
  proof (cases "ffd \<and> data_request M s")
    case True
    then show thesis
      using ack_pending_eq [of M s ?s1 ?q] assms(1)
      by (intro that [of "[PendingDataCheck (drop_bit 6 (seen M s (frame_at s + 1))) ?src 1]"])
        (simp_all add: A_def pending_due_def)
  next
    case False
    then have "A = ack_frame ?q False"
      by (auto simp: A_def pending_due_def)
    then show thesis
      using False ack_pending_eq [of M s ?s1 ?q] assms(1) by (intro that [of "[]"]) auto
  qed
  let ?s3 = "t\<lparr>radio := radio t @ P, rf_ack_buf := A, ticks := \<lambda>i. ticks t (Suc i)\<rparr>"
  let ?d = "(ticks t 0 - txt0) div us"
  define W where "W = (if sint ?d < uint (turnArnd t) then [WaitUs (ucast (turnArnd t) - ?d)] else [])"
  let ?s7 = "t\<lparr>radio := radio t @ P @ W @ [RfTxPkt A], rf_ack_buf := A, ticks := \<lambda>i. ticks t (Suc (Suc i)),
      reg_irq_mask := reg_irq_mask t AND NOT FLD_IRQ_ZB_RT_EN\<rparr>"
  obtain k where "ticks t (Suc (Suc k)) - ticks t (Suc 0) > 16000"
    using clock_advance [OF assms(2), of ?s3 1] by auto
  then obtain tk h where l: "tx_done_loop (ticks t (Suc 0)) ?s7 = Some (?s7\<lparr>ticks := tk, hw_in := h\<rparr>)"
    using tx_done_loop_ends [of ?s7 k "ticks t (Suc 0)"] by auto
  have "send_ack us ffd M (frame_at s) ?src txt0 t =
      map_option (\<lambda>s8. ZB_SWITCH_TO_RXMODE (irq_set_mask FLD_IRQ_ZB_RT_EN (rf_tx_finish_clear_flag s8)))
        (tx_done_loop (ticks t (Suc 0)) ?s7)"
  proof -
    have s1: "t\<lparr>rf_ack_buf := (rf_ack_buf t)[ZB_RADIO_TX_HDR_LEN + 2 := ram t (frame_at s + 2), ZB_RADIO_TX_HDR_LEN := 2]\<rparr> = ?s1"
      using assms(1,3) by (simp only: ack_stage_def ack_seq_set)
    let ?s5 = "?s3\<lparr>radio := radio t @ P @ W, reg_irq_mask := reg_irq_mask t AND NOT FLD_IRQ_ZB_RT_EN\<rparr>"
    have sel: "ticks (t\<lparr>radio := radio t @ P, rf_ack_buf := A\<rparr>) = ticks t" "turnArnd ?s3 = turnArnd t"
      by simp_all
    have s5: "irq_clr_mask FLD_IRQ_ZB_RT_EN (if sint ?d < uint (turnArnd t)
        then do_call (WaitUs (ucast (turnArnd t) - ?d)) ?s3 else ?s3) = ?s5"
      by (simp add: W_def irq_clr_mask_def do_call_def)
    have s7: "(do_call (RfTxPkt (rf_ack_buf ?s5)) ?s5)\<lparr>ticks := \<lambda>i. ticks (do_call (RfTxPkt (rf_ack_buf ?s5)) ?s5) (Suc i)\<rparr> = ?s7"
        "ticks (do_call (RfTxPkt (rf_ack_buf ?s5)) ?s5) 0 = ticks t (Suc 0)"
      by (cases t; simp add: do_call_def)+
    have "x \<bind> (\<lambda>s8. Some (f s8)) = map_option f x" for x :: "'b option" and f :: "'b \<Rightarrow> 'c"
      by (cases x) simp_all
    then show ?thesis
      unfolding send_ack_def Let_def s1 s2 clock_time_def prod.case sel s5 s7 .
  qed
  also have "\<dots> = Some (t\<lparr>ticks := tk, hw_in := h, radio := radio t @ (P @ W @ [RfTxPkt A, WriteReg8 0xf20 2]) @
      switch_calls RF_MODE_RX 0 1 t, rf_ack_buf := A, reg_irq_mask := reg_irq_mask t OR FLD_IRQ_ZB_RT_EN\<rparr>)"
    unfolding l by (cases t) (simp add: switch_eq switch_calls_def irq_set_mask_def rf_tx_finish_clear_flag_def do_call_def
      pib_u8_def irq_mask_back)
  finally show ?thesis
    using P by (intro exI conjI) (assumption | simp add: W_def)+
qed

section \<open>The receive interrupt\<close>

text \<open>The state once the frame has been counted, with reception off.\<close>

definition rx_begin :: "'a phy_state_scheme \<Rightarrow> 'a phy_state_scheme" where
  "rx_begin s = s\<lparr>hw_in := (hw_in s)(0x448 := \<lambda>i. hw_in s 0x448 (Suc i)),
     reg_dma_chn_en := reg_dma_chn_en s AND NOT FLD_DMA_CHN_RF_RX,
     g_sysDiags := (g_sysDiags s)\<lparr>macRxIrqCnt := macRxIrqCnt (g_sysDiags s) + 1\<rparr>\<rparr>"

lemma rx_begin_sel [simp]:
  "ram (rx_begin s) = ram s" "rf_rxBuf (rx_begin s) = rf_rxBuf s" "radio (rx_begin s) = radio s"
  "g_zbMacPib (rx_begin s) = g_zbMacPib s" "rf_busyFlag (rx_begin s) = rf_busyFlag s" "ticks (rx_begin s) = ticks s"
  "fPaEn (rx_begin s) = fPaEn s" "rf_pa_txen_pin (rx_begin s) = rf_pa_txen_pin s"
  "rf_pa_rxen_pin (rx_begin s) = rf_pa_rxen_pin s" "pib_u8 f (rx_begin s) = pib_u8 f s"
  "rf_ack_buf (rx_begin s) = rf_ack_buf s" "reg_irq_mask (rx_begin s) = reg_irq_mask s" "rfMode (rx_begin s) = rfMode s"
  "reg_dma_chn_en (rx_begin s) = reg_dma_chn_en s AND NOT FLD_DMA_CHN_RF_RX" "rf_tx_buf (rx_begin s) = rf_tx_buf s"
  "switch_calls a b c (rx_begin s) = switch_calls a b c s"
  by (simp_all add: rx_begin_def pib_u8_def switch_calls_def)

text \<open>The counters after a frame of each kind.\<close>

definition rx_diags :: "rx_fate \<Rightarrow> sys_diagnostics_t \<Rightarrow> sys_diagnostics_t" where
  "rx_diags f d = d\<lparr>macRxIrqCnt := macRxIrqCnt d + 1,
     macRxCrcFail := macRxCrcFail d + (if f = Rx_Bad then 1 else 0),
     phytoMACqueuelimitreached := phytoMACqueuelimitreached d + (if f = Rx_NoBuffer then 1 else 0)\<rparr>"

lemma rx_drop_eq:
  "rf_rxBuf s \<noteq> NULL \<Longrightarrow> rx_drop s =
     Some (s\<lparr>ram := cleared (rf_rxBuf s) (ram s), reg_dma_chn_en := reg_dma_chn_en s OR FLD_DMA_CHN_RF_RX\<rparr>)"
  by (simp add: rx_drop_def ZB_RADIO_RX_BUF_CLEAR_def RFDMA_RX_ENABLE_def cleared_def)

lemma rx_handler_begin:
  assumes "rf_rxBuf s \<noteq> NULL" "\<not> bit (hw_in s 0x448 0) 5"
  shows "rf_rx_irq_handler us ffd M s =
    (if \<not> good_frame s then
       rx_drop ((rx_begin s)\<lparr>g_sysDiags := (g_sysDiags (rx_begin s))\<lparr>macRxCrcFail := macRxCrcFail (g_sysDiags s) + 1\<rparr>\<rparr>)
     else
       let s4 = do_call (MacDataFilter (frame_at s) (frame_len s)) (rx_begin s)
       in if fst (snd (filter_result M s)) \<noteq> 0 then rx_drop s4
          else
            let (txTime, s5) = (if wants_ack s then clock_time (ZB_SWITCH_TO_TXMODE s4) else (0, s4));
                s6 = do_call GetRxBuf s5
            in if next_buf M s = NULL then
                 let s7 = (if wants_ack s then ZB_SWITCH_TO_RXMODE s6 else s6)
                 in rx_drop (s7\<lparr>g_sysDiags := (g_sysDiags s7)\<lparr>phytoMACqueuelimitreached :=
                      phytoMACqueuelimitreached (g_sysDiags s7) + 1\<rparr>\<rparr>)
               else do {
                 s7 \<leftarrow> rf_setRxBuf (next_buf M s) s6;
                 s8 \<leftarrow> (if bit (ram s7 (frame_at s)) 5
                        then send_ack us ffd M (frame_at s) (fst (filter_result M s)) txTime s7 else Some s7);
                 Some (do_call (MacDataRecv (rf_rxBuf s) (frame_at s) (frame_len s) (snd (snd (filter_result M s)))
                   (RF_ZIGBEE_PACKET_TIMESTAMP_GET (ram s8) (rf_rxBuf s)) (RF_ZIGBEE_PACKET_RSSI_GET (ram s8) (rf_rxBuf s) - 110))
                   (RFDMA_RX_ENABLE s8))
               })"
proof -
  have busy: "is_rf_receiving_pkt s = (False, s\<lparr>hw_in := (hw_in s)(0x448 := \<lambda>i. hw_in s 0x448 (Suc i))\<rparr>)"
    using assms(2) by (simp add: is_rf_receiving_pkt_def read_reg8_def and_one_eq odd_iff_mod_2_eq_one [symmetric] bit_iff_odd_drop_bit)
  have ack: "x AND MAC_FCF_ACK_REQ_BIT \<noteq> 0 \<longleftrightarrow> bit x 5" for x :: u8
    using and_exp_eq_0_iff_not_bit [of x 5] by (simp add: MAC_FCF_ACK_REQ_BIT_def)
  have tb: "x AND TX_BUSY \<noteq> 0 \<longleftrightarrow> bit x 1" for x :: u8
    using and_exp_eq_0_iff_not_bit [of x 1] by (simp add: TX_BUSY_def)
  have beg: "(RFDMA_RX_DISABLE (s\<lparr>hw_in := (hw_in s)(0x448 := \<lambda>i. hw_in s 0x448 (Suc i))\<rparr>))\<lparr>g_sysDiags :=
      (g_sysDiags (RFDMA_RX_DISABLE (s\<lparr>hw_in := (hw_in s)(0x448 := \<lambda>i. hw_in s 0x448 (Suc i))\<rparr>)))\<lparr>macRxIrqCnt :=
        macRxIrqCnt (g_sysDiags (RFDMA_RX_DISABLE (s\<lparr>hw_in := (hw_in s)(0x448 := \<lambda>i. hw_in s 0x448 (Suc i))\<rparr>))) + 1\<rparr>\<rparr>
      = rx_begin s"
    by (simp add: RFDMA_RX_DISABLE_def rx_begin_def)
  have cnt: "macRxCrcFail (g_sysDiags (rx_begin s)) = macRxCrcFail (g_sysDiags s)"
    by (simp add: rx_begin_def)
  have p5: "rf_rxBuf s + ZB_RADIO_RX_HDR_LEN = frame_at s"
    by (simp add: frame_at_def ZB_RADIO_RX_HDR_LEN_def)
  have len: "RF_ZIGBEE_PACKET_PAYLOAD_LENGTH_GET (ram s) (rf_rxBuf s) = frame_len s"
    by (simp add: frame_len_def RF_ZIGBEE_PACKET_PAYLOAD_LENGTH_GET_def)
  have good: "\<not> RF_ZIGBEE_PACKET_CRC_OK (ram s) (rf_rxBuf s) \<or> \<not> RF_ZIGBEE_PACKET_LENGTH_OK (ram s) (rf_rxBuf s) \<or>
      bit (rf_busyFlag s) 1 \<longleftrightarrow> \<not> good_frame s"
    by (auto simp: good_frame_def)
  obtain src drp ac where fr: "filter_result M s = (src, drp, ac)"
    by (rule prod_cases3)
  have fr': "zb_macDataFilter M (radio s) (ram s) (g_zbMacPib s) (frame_at s) (frame_len s) = (src, drp, ac)"
    using fr by (simp add: filter_result_def)
  let ?s4 = "do_call (MacDataFilter (frame_at s) (frame_len s)) (rx_begin s)"
  have wa: "bit (ram ?s4 (frame_at s)) 5 \<longleftrightarrow> wants_ack s"
    by (simp add: wants_ack_def)
  have nb: "tl_getRxBuf M (radio (snd (if wants_ack s then clock_time (ZB_SWITCH_TO_TXMODE ?s4) else (0, ?s4)))) = next_buf M s"
    by (simp add: next_buf_def rx_hist_def switch_eq clock_time_def) (simp add: switch_calls_def)
  have en: "ram (RFDMA_RX_ENABLE x) = ram x" for x :: "'a phy_state_scheme"
    by (simp add: RFDMA_RX_ENABLE_def)
  show ?thesis
    unfolding rf_rx_irq_handler_def Let_def busy prod.case if_False assms(1) beg rx_begin_sel tb good cnt p5 len fr' fr
      fst_conv snd_conv ack wa get_rx_buf_def en
    using assms(1) nb
    by (cases "wants_ack s") (simp_all add: clock_time_def case_prod_beta en)
qed

text \<open>The mode and channel the transceiver is in after a sequence of calls.\<close>

fun trx_after :: "(u8 \<times> s8) option \<Rightarrow> phy_call list \<Rightarrow> (u8 \<times> s8) option" where
  "trx_after x [] = x"
| "trx_after x (RfTrxStateSet md c # cs) = trx_after (Some (md, c)) cs"
| "trx_after x (_ # cs) = trx_after x cs"

lemma trx_after_append [simp]: "trx_after x (xs @ ys) = trx_after (trx_after x xs) ys"
  by (induction x xs rule: trx_after.induct) simp_all

lemma trx_after_switch [simp]:
  "trx_after x (switch_calls md a b s) = Some (md, LOGICCHANNEL_TO_PHYSICAL (pib_u8 phyChannelCur s))"
  by (simp add: switch_calls_def)

definition rx_trx :: "'a phy_state_scheme \<Rightarrow> phy_call list \<Rightarrow> bool" where
  "rx_trx s R \<longleftrightarrow> (\<forall>x. trx_after x R \<in> {x, Some (RF_MODE_RX, LOGICCHANNEL_TO_PHYSICAL (pib_u8 phyChannelCur s))})"

lemma switch_calls_call [simp]: "switch_calls md a b (do_call c s) = switch_calls md a b s"
  by (simp add: switch_calls_def)

lemma switch_calls_radio [simp]: "switch_calls md a b (s\<lparr>radio := R\<rparr>) = switch_calls md a b s"
  by (simp add: switch_calls_def pib_u8_def)

lemma switch_calls_ticks [simp]: "switch_calls md a b (s\<lparr>ticks := t\<rparr>) = switch_calls md a b s"
  by (simp add: switch_calls_def pib_u8_def)

text \<open>A frame that is not taken leaves the receiver as it was, with the same buffer.\<close>

lemma rx_dropped:
  assumes "rf_rxBuf s \<noteq> NULL" "\<not> bit (hw_in s 0x448 0) 5" "rx_fate M s \<noteq> Rx_Taken"
  shows "\<exists>tk R. rf_rx_irq_handler us ffd M s =
           Some (s\<lparr>ticks := tk, hw_in := (hw_in s)(0x448 := \<lambda>i. hw_in s 0x448 (Suc i)), radio := radio s @ R,
                   ram := cleared (rf_rxBuf s) (ram s), reg_dma_chn_en := reg_dma_chn_en s OR FLD_DMA_CHN_RF_RX,
                   g_sysDiags := rx_diags (rx_fate M s) (g_sysDiags s)\<rparr>) \<and>
           packets R = [] \<and> received R = [] \<and> rx_trx s R \<and> buffer_of M (radio s @ R) = buffer_of M (radio s)"
proof -
  let ?C = "[MacDataFilter (frame_at s) (frame_len s)]"
  have bk: "x AND NOT k OR k = x OR (k :: u8)" for x k
    by (rule bit_word_eqI) (auto simp: bit_simps)
  note h = rx_handler_begin [OF assms(1,2), of us ffd M]
  consider "\<not> good_frame s" | "good_frame s" "fst (snd (filter_result M s)) \<noteq> 0"
    | "good_frame s" "fst (snd (filter_result M s)) = 0" "next_buf M s = NULL"
    using assms(3) by (auto simp: rx_fate_def split: if_splits)
  then show ?thesis
  proof cases
    case 1
    then have "rx_fate M s = Rx_Bad" by (simp add: rx_fate_def)
    then show ?thesis
      using 1 assms(1) unfolding h
      by (intro exI [of _ "ticks s"] exI [of _ "[]"])
        (cases s, simp add: rx_drop_eq rx_begin_def rx_diags_def bk rx_trx_def)
  next
    case 2
    then have "rx_fate M s = Rx_Filtered" by (simp add: rx_fate_def)
    then show ?thesis
      using 2 assms(1) unfolding h
      by (intro exI [of _ "ticks s"] exI [of _ ?C])
        (cases s, simp add: rx_drop_eq rx_begin_def rx_diags_def bk rx_trx_def do_call_def)
  next
    case 3
    then have f: "rx_fate M s = Rx_NoBuffer" by (simp add: rx_fate_def)
    show ?thesis
    proof (cases "wants_ack s")
      case True
      let ?R = "?C @ switch_calls RF_MODE_TX 1 0 s @ [GetRxBuf] @ switch_calls RF_MODE_RX 0 1 s"
      let ?s6 = "do_call GetRxBuf ((ZB_SWITCH_TO_TXMODE (do_call (hd ?C) (rx_begin s)))\<lparr>ticks := \<lambda>i. ticks s (Suc i)\<rparr>)"
      let ?s7 = "ZB_SWITCH_TO_RXMODE ?s6"
      let ?X = "?s7\<lparr>g_sysDiags := (g_sysDiags ?s7)\<lparr>phytoMACqueuelimitreached := phytoMACqueuelimitreached (g_sysDiags ?s7) + 1\<rparr>\<rparr>"
      have e: "rf_rx_irq_handler us ffd M s = rx_drop ?X"
        using 3 True unfolding h by (simp add: clock_time_def switch_eq)
      have "rf_rx_irq_handler us ffd M s = Some (s\<lparr>ticks := \<lambda>i. ticks s (Suc i),
          hw_in := (hw_in s)(0x448 := \<lambda>i. hw_in s 0x448 (Suc i)), radio := radio s @ ?R,
          ram := cleared (rf_rxBuf s) (ram s), reg_dma_chn_en := reg_dma_chn_en s OR FLD_DMA_CHN_RF_RX,
          g_sysDiags := rx_diags Rx_NoBuffer (g_sysDiags s)\<rparr>)" (is "_ = Some ?Y")
      proof -
        have "rx_drop ?X = Some (?X\<lparr>ram := cleared (rf_rxBuf ?X) (ram ?X), reg_dma_chn_en := reg_dma_chn_en ?X OR FLD_DMA_CHN_RF_RX\<rparr>)"
          using assms(1) by (intro rx_drop_eq) (simp add: switch_eq)
        moreover have "?X\<lparr>ram := cleared (rf_rxBuf ?X) (ram ?X), reg_dma_chn_en := reg_dma_chn_en ?X OR FLD_DMA_CHN_RF_RX\<rparr> = ?Y"
          by (rule phy_state.equality) (simp_all add: rx_begin_def rx_diags_def bk do_call_def switch_eq switch_calls_def pib_u8_def)
        ultimately show ?thesis unfolding e by simp
      qed
      moreover have "packets ?R = []" "received ?R = []" "rx_trx s ?R"
        by (simp_all add: rx_trx_def)
      moreover have "buffer_of M (rx_hist s @ GetRxBuf # switch_calls RF_MODE_RX 0 1 s) = buffer_of M (rx_hist s)"
        using 3(3) by (subst buffer_of_Get) (simp add: next_buf_def)
      then have "buffer_of M (radio s @ ?R) = buffer_of M (radio s)"
        using True by (simp add: rx_hist_def)
      ultimately show ?thesis
        unfolding f by (intro exI conjI)
    next
      case False
      then show ?thesis
        using 3 f assms(1) buffer_of_Get [of M "rx_hist s" "[]"] unfolding h
        by (intro exI [of _ "ticks s"] exI [of _ "?C @ [GetRxBuf]"])
          (simp add: rx_trx_def rx_hist_def next_buf_def, cases s, simp add: rx_drop_eq rx_begin_def rx_diags_def bk do_call_def)
    qed
  qed
qed

lemma rx_begin_clock: "clock_runs (rx_begin s) = clock_runs s"
  by (simp add: clock_runs_def)

text \<open>
  The receive buffers are elements of the pool array \<^verbatim>\<open>g_mPool.pool\<close> of 36 structures \<^verbatim>\<open>zb_buf_t\<close>: 192 bytes
  of data, a header of 4 bytes, a link and two counters, 208 bytes in all. Two different elements are a
  multiple of that apart.
\<close>

definition ZB_BUF_POOL_NUM :: nat where
  "ZB_BUF_POOL_NUM = 36"

definition zb_buf_t_size :: nat where
  "zb_buf_t_size = (160 + 32) + 4 + 4 + 4 + 4"

definition other_element :: "addr \<Rightarrow> addr \<Rightarrow> bool" where
  "other_element p q \<longleftrightarrow>
     (\<exists>k\<in>{1..<ZB_BUF_POOL_NUM}. q = p + of_nat (k * zb_buf_t_size) \<or> p = q + of_nat (k * zb_buf_t_size))"

lemma pool_sizes [simp]: "zb_buf_t_size = 208" "ZB_BUF_POOL_NUM = 36"
  by (simp_all add: zb_buf_t_size_def ZB_BUF_POOL_NUM_def)

lemma of_nat_u32_inj: "(of_nat m :: u32) = of_nat n \<Longrightarrow> m < 2 ^ 32 \<Longrightarrow> n < 2 ^ 32 \<Longrightarrow> m = n"
  by (drule arg_cong [of _ _ unat]) (simp add: unat_of_nat)

text \<open>Clearing one element leaves every byte of another as it was.\<close>

lemma other_element_apart:
  assumes "other_element p q" "i < 208"
  shows "q \<noteq> p + of_nat i" "q + 4 \<noteq> p + of_nat i"
proof -
  obtain k where k: "1 \<le> k" "k < 36" "q = p + of_nat (k * 208) \<or> p = q + of_nat (k * 208)"
    using assms(1) by (auto simp: other_element_def)
  then have kb: "k * 208 < 36 * 208" "208 \<le> k * 208" by simp_all
  have *: "q + of_nat c \<noteq> p + of_nat i" if c: "c \<in> {0, 4}" for c
  proof
    assume e: "q + of_nat c = p + of_nat i"
    from k(3) have "k * 208 + c = i \<or> c = k * 208 + i"
    proof
      assume "q = p + of_nat (k * 208)"
      then have "(of_nat (k * 208 + c) :: u32) = of_nat i" using e by (simp add: add.assoc)
      then show ?thesis using c kb assms(2) of_nat_u32_inj [of "k * 208 + c" i] by auto
    next
      assume "p = q + of_nat (k * 208)"
      then have "(of_nat c :: u32) = of_nat (k * 208 + i)" using e by (simp add: add.assoc)
      then show ?thesis using c kb assms(2) of_nat_u32_inj [of c "k * 208 + i"] by auto
    qed
    then show False using c kb assms(2) by auto
  qed
  show "q \<noteq> p + of_nat i" "q + 4 \<noteq> p + of_nat i" using * [of 0] * [of 4] by simp_all
qed

lemma seen_frame:
  assumes "other_element (rf_rxBuf s) (next_buf M s)" "i < 208"
  shows "seen M s (rf_rxBuf s + of_nat i) = ram s (rf_rxBuf s + of_nat i)"
  using other_element_apart [OF assms] by (simp add: seen_def cleared_def)

text \<open>What the MAC is handed for a frame.\<close>

definition rx_report :: "phy_lib \<Rightarrow> 'a phy_state_scheme \<Rightarrow> phy_call" where
  "rx_report M s = MacDataRecv (rf_rxBuf s) (frame_at s) (frame_len s) (snd (snd (filter_result M s)))
     (RF_ZIGBEE_PACKET_TIMESTAMP_GET (seen M s) (rf_rxBuf s)) (RF_ZIGBEE_PACKET_RSSI_GET (seen M s) (rf_rxBuf s) - 110)"

definition due_acks :: "bool \<Rightarrow> phy_lib \<Rightarrow> 'a phy_state_scheme \<Rightarrow> u8 list list" where
  "due_acks ffd M s =
     (if rx_fate M s = Rx_Taken \<and> wants_ack s then [ack_frame (seen M s (frame_at s + 2)) (pending_due ffd M s)] else [])"

lemma rx_taken:
  assumes "rf_rxBuf s \<noteq> NULL" "\<not> bit (hw_in s 0x448 0) 5" "rx_fate M s = Rx_Taken" "clock_runs s"
    and "rf_ack_buf s = ack_frame q b" "other_element (rf_rxBuf s) (next_buf M s)"
  shows "\<exists>tk h R q' b' i. rf_rx_irq_handler us ffd M s =
           Some (s\<lparr>ticks := tk, hw_in := h, radio := radio s @ R, rf_ack_buf := ack_frame q' b', rf_rxBuf := next_buf M s,
                   reg_dma2_addr := ucast (next_buf M s), ram := cleared (next_buf M s) (ram s),
                   reg_dma_chn_en := reg_dma_chn_en s OR FLD_DMA_CHN_RF_RX, reg_irq_mask := i,
                   g_sysDiags := rx_diags Rx_Taken (g_sysDiags s)\<rparr>) \<and>
           (i = reg_irq_mask s \<or> i = reg_irq_mask s OR FLD_IRQ_ZB_RT_EN) \<and>
           packets R = due_acks ffd M s \<and> received R = [rx_report M s] \<and> rx_trx s R \<and>
           buffer_of M (radio s @ R) = next_buf M s"
proof -
  let ?nb = "next_buf M s" and ?C = "MacDataFilter (frame_at s) (frame_len s)"
  have g: "good_frame s" "fst (snd (filter_result M s)) = 0" "?nb \<noteq> NULL"
    using assms(3) by (auto simp: rx_fate_def split: if_splits)
  have bk: "x AND NOT k OR k = x OR (k :: u8)" for x k
    by (rule bit_word_eqI) (auto simp: bit_simps)
  note h = rx_handler_begin [OF assms(1,2), of us ffd M]
  have set: "rf_setRxBuf ?nb x = Some (x\<lparr>rf_rxBuf := ?nb, ram := cleared ?nb (ram x), reg_dma2_addr := ucast ?nb\<rparr>)"
    for x :: "'a phy_state_scheme"
    using g(3) by (simp add: rf_setRxBuf_def ZB_RADIO_RX_BUF_CLEAR_def rf_rx_buffer_reconfig_def cleared_def)
  have at: "cleared ?nb (ram s) (frame_at s) = ram s (frame_at s)"
    using seen_frame [OF assms(6), of 5] by (simp add: frame_at_def seen_def)
  have got: "buffer_of M (rx_hist s @ GetRxBuf # xs) = ?nb" if "GetRxBuf \<notin> set xs" for xs
    using that g(3) by (subst buffer_of_Get) (simp add: next_buf_def)
  show ?thesis
  proof (cases "wants_ack s")
    case False
    then have a: "due_acks ffd M s = []" "\<not> bit (ram s (frame_at s)) 5"
      by (simp_all add: due_acks_def wants_ack_def)
    show ?thesis
      using False g a at assms(5) got [of "[rx_report M s]"] unfolding h
      by (intro exI [of _ "ticks s"] exI [of _ "(hw_in s)(0x448 := \<lambda>i. hw_in s 0x448 (Suc i))"]
            exI [of _ "[?C, GetRxBuf, rx_report M s]"] exI [of _ q] exI [of _ b] exI [of _ "reg_irq_mask s"])
        (simp add: rx_trx_def rx_report_def seen_def set rx_hist_def,
         cases s, simp add: rx_begin_def rx_diags_def bk do_call_def RFDMA_RX_ENABLE_def)
  next
    case True
    then have a: "bit (ram s (frame_at s)) 5"
      by (simp add: wants_ack_def)
    let ?s6 = "do_call GetRxBuf ((ZB_SWITCH_TO_TXMODE (do_call ?C (rx_begin s)))\<lparr>ticks := \<lambda>i. ticks s (Suc i)\<rparr>)"
    let ?s7 = "?s6\<lparr>rf_rxBuf := ?nb, ram := cleared ?nb (ram s), reg_dma2_addr := ucast ?nb\<rparr>"
    have r6: "radio ?s6 = rx_hist s @ [GetRxBuf]" "ticks ?s6 = (\<lambda>i. ticks s (Suc i))"
      using True by (simp_all add: switch_eq rx_hist_def)
    have "ack_stage M s ?s7"
      using r6(1) by (simp add: ack_stage_def seen_def)
    moreover have "clock_runs ?s7"
      using assms(4) r6(2) by (simp add: clock_runs_def) (metis add_Suc)
    moreover have "rf_ack_buf ?s7 = ack_frame q b"
      using assms(5) by (simp add: switch_eq)
    ultimately obtain tk hh R where sa: "send_ack us ffd M (frame_at s) (fst (filter_result M s)) (ticks s 0) ?s7 =
           Some (?s7\<lparr>ticks := tk, hw_in := hh, radio := radio ?s7 @ R @ switch_calls RF_MODE_RX 0 1 ?s7,
                   rf_ack_buf := ack_frame (seen M s (frame_at s + 2)) (pending_due ffd M s),
                   reg_irq_mask := reg_irq_mask ?s7 OR FLD_IRQ_ZB_RT_EN\<rparr>)"
        and R: "packets R = [ack_frame (seen M s (frame_at s + 2)) (pending_due ffd M s)]" "received R = []" "GetRxBuf \<notin> set R"
      using send_ack_ok [of M s ?s7 q b _ ffd us "ticks s 0"] by blast
    let ?A = "ack_frame (seen M s (frame_at s + 2)) (pending_due ffd M s)"
    let ?s8 = "?s7\<lparr>ticks := tk, hw_in := hh, radio := radio ?s7 @ R @ switch_calls RF_MODE_RX 0 1 ?s7,
        rf_ack_buf := ?A, reg_irq_mask := reg_irq_mask ?s7 OR FLD_IRQ_ZB_RT_EN\<rparr>"
    let ?R = "[?C] @ switch_calls RF_MODE_TX 1 0 s @ [GetRxBuf] @ R @ switch_calls RF_MODE_RX 0 1 s @ [rx_report M s]"
    have r8: "ram ?s8 = cleared ?nb (ram s)"
      by simp
    have c5: "clock_time (ZB_SWITCH_TO_TXMODE (do_call ?C (rx_begin s))) =
        (ticks s 0, (ZB_SWITCH_TO_TXMODE (do_call ?C (rx_begin s)))\<lparr>ticks := \<lambda>i. ticks s (Suc i)\<rparr>)"
      by (simp add: clock_time_def switch_eq)
    have s7: "rf_setRxBuf ?nb ?s6 = Some ?s7"
      unfolding set by (simp add: switch_eq)
    have "rf_rx_irq_handler us ffd M s = Some (do_call (rx_report M s) (RFDMA_RX_ENABLE ?s8))"
      using True g a at unfolding h Let_def c5 if_P [OF True] prod.case s7 bind.bind_lunit
      by (simp add: sa rx_report_def seen_def)
    moreover have "do_call (rx_report M s) (RFDMA_RX_ENABLE ?s8) =
        s\<lparr>ticks := tk, hw_in := hh, radio := radio s @ ?R, rf_ack_buf := ?A, rf_rxBuf := ?nb,
           reg_dma2_addr := ucast ?nb, ram := cleared ?nb (ram s), reg_dma_chn_en := reg_dma_chn_en s OR FLD_DMA_CHN_RF_RX,
           reg_irq_mask := reg_irq_mask s OR FLD_IRQ_ZB_RT_EN, g_sysDiags := rx_diags Rx_Taken (g_sysDiags s)\<rparr>"
      by (rule phy_state.equality)
        (simp_all add: rx_begin_def rx_diags_def bk do_call_def switch_eq switch_calls_def pib_u8_def RFDMA_RX_ENABLE_def)
    moreover have "packets ?R = due_acks ffd M s" "received ?R = [rx_report M s]" "rx_trx s ?R"
      using R True assms(3) by (simp_all add: rx_trx_def due_acks_def rx_report_def)
    moreover have "buffer_of M (radio s @ ?R) = ?nb"
      using got [of "R @ switch_calls RF_MODE_RX 0 1 s @ [rx_report M s]"] R(3) True by (simp add: rx_hist_def rx_report_def)
    ultimately show ?thesis
      by (intro exI conjI) (assumption | simp)+
  qed
qed

lemma rx_receiving:
  assumes "bit (hw_in s 0x448 0) 5"
  shows "rf_rx_irq_handler us ffd M s = Some (s\<lparr>hw_in := (hw_in s)(0x448 := \<lambda>i. hw_in s 0x448 (Suc i))\<rparr>)"
  using assms by (simp add: rf_rx_irq_handler_def Let_def is_rf_receiving_pkt_def read_reg8_def and_one_eq
      odd_iff_mod_2_eq_one [symmetric] bit_iff_odd_drop_bit)

text \<open>
  C3. The receive interrupt does what is due to the frame and nothing else. While the radio is still
  receiving (bit 5 of register 0x448) the handler returns at once and changes nothing. Otherwise a frame
  with a bad checksum or length or one that arrives during a transmission is dropped, as is one the MAC filter
  rejects or one for which no further buffer is to be had; every other frame is handed to the MAC exactly
  once, with its time stamp and power. An acknowledgement is sent exactly for the frames that ask for one and
  are handed to the MAC; it has the frame's sequence number, and its pending bit is set exactly when the frame
  is a data request of an addressed device for which the MAC has data (on coordinators and routers). The
  handler ends, and afterwards reception is enabled into a cleared buffer, the transceiver is left as it was
  or in the receive mode on the current channel, the radio interrupt is unmasked again, and the diagnostics
  count the frame under what became of it. What is relied on: a receive buffer is in place, the
  acknowledgement frame was built, the clock runs on (it bounds the wait for the end of the acknowledgement),
  and the buffer that \<^verbatim>\<open>tl_getRxBuf\<close> hands out for the next frame is another element of the pool than the one in
  use, the neighbouring one included. The bytes of the frame are then, over the 208 bytes of its own element,
  the ones that were received.
\<close>

theorem rf_rx_irq_handler_exact:
  assumes "rf_rxBuf s \<noteq> NULL" "clock_runs s" "rf_ack_buf s = ack_frame q b"
    and "rx_fate M s = Rx_Taken \<Longrightarrow> other_element (rf_rxBuf s) (next_buf M s)"
  shows "if bit (hw_in s 0x448 0) 5
         then rf_rx_irq_handler us ffd M s = Some (s\<lparr>hw_in := (hw_in s)(0x448 := \<lambda>i. hw_in s 0x448 (Suc i))\<rparr>)
         else \<exists>s' R. rf_rx_irq_handler us ffd M s = Some s' \<and> radio s' = radio s @ R \<and>
           packets R = due_acks ffd M s \<and> received R = (if rx_fate M s = Rx_Taken then [rx_report M s] else []) \<and>
           rf_rxBuf s' = (if rx_fate M s = Rx_Taken then next_buf M s else rf_rxBuf s) \<and>
           reg_dma2_addr s' = (if rx_fate M s = Rx_Taken then ucast (next_buf M s) else reg_dma2_addr s) \<and>
           ram s' = cleared (rf_rxBuf s') (ram s) \<and> reg_dma_chn_en s' = reg_dma_chn_en s OR FLD_DMA_CHN_RF_RX \<and>
           rx_trx s R \<and> (bit (reg_irq_mask s) 13 \<longrightarrow> bit (reg_irq_mask s') 13) \<and>
           g_sysDiags s' = rx_diags (rx_fate M s) (g_sysDiags s) \<and>
           (rx_fate M s = Rx_Taken \<longrightarrow>
             (\<forall>i<zb_buf_t_size. seen M s (rf_rxBuf s + of_nat i) = ram s (rf_rxBuf s + of_nat i)))"
proof (cases "bit (hw_in s 0x448 0) 5")
  case True
  then show ?thesis using rx_receiving by simp
next
  case idle: False
  show ?thesis
  proof (cases "rx_fate M s = Rx_Taken")
    case True
    obtain tk h R q' b' i where "rf_rx_irq_handler us ffd M s =
             Some (s\<lparr>ticks := tk, hw_in := h, radio := radio s @ R, rf_ack_buf := ack_frame q' b', rf_rxBuf := next_buf M s,
                     reg_dma2_addr := ucast (next_buf M s), ram := cleared (next_buf M s) (ram s),
                     reg_dma_chn_en := reg_dma_chn_en s OR FLD_DMA_CHN_RF_RX, reg_irq_mask := i,
                     g_sysDiags := rx_diags Rx_Taken (g_sysDiags s)\<rparr>)"
        "i = reg_irq_mask s \<or> i = reg_irq_mask s OR FLD_IRQ_ZB_RT_EN"
        "packets R = due_acks ffd M s" "received R = [rx_report M s]" "rx_trx s R"
      using rx_taken [OF assms(1) idle True assms(2,3) assms(4) [OF True], of us ffd] by (elim exE conjE)
    then show ?thesis
      using True idle seen_frame [OF assms(4) [OF True]] by (auto simp: bit_or_iff)
  next
    case False
    obtain tk R where "rf_rx_irq_handler us ffd M s =
             Some (s\<lparr>ticks := tk, hw_in := (hw_in s)(0x448 := \<lambda>i. hw_in s 0x448 (Suc i)), radio := radio s @ R,
                     ram := cleared (rf_rxBuf s) (ram s), reg_dma_chn_en := reg_dma_chn_en s OR FLD_DMA_CHN_RF_RX,
                     g_sysDiags := rx_diags (rx_fate M s) (g_sysDiags s)\<rparr>)"
        "packets R = []" "received R = []" "rx_trx s R"
      using rx_dropped [OF assms(1) idle False, of us ffd] by (elim exE conjE)
    then show ?thesis
      using False idle by (auto simp: due_acks_def)
  qed
qed

text \<open>
  A data request with sequence number 7 from a short address, in the buffer at 0x2000, and a MAC that accepts
  every frame, hands out the element after it and it in turn, and holds data for every device.
\<close>

definition demo_frame :: "u8 list" where
  "demo_frame = [21, 0, 0, 0, 12, 0x63, 0x88, 7, 0x34, 0x12, 0, 0, 0x21, 0x43, 4, 0, 0, 1, 0, 0, 0, 0, 0, 60, 0x10]"

definition demo_lib :: phy_lib where
  "demo_lib = \<lparr>rf_trx_state_get = (\<lambda>cs. case trx_after None cs of None \<Rightarrow> RF_MODE_OFF | Some (md, _) \<Rightarrow> md),
     tl_getRxBuf = (\<lambda>cs. if even (length (filter (\<lambda>c. c = GetRxBuf) cs)) then 0x20d0 else 0x2000), zb_macDataFilter = (\<lambda>_ _ _ f _. (f + 7, 0, 0)), tl_zbMacHdrSize = (\<lambda>_. 9),
     mac_getAuxSecurityHeaderLen = (\<lambda>_. 0), tl_zbMacPendingDataCheck = (\<lambda>_ _ _ _ _. 0)\<rparr>"

definition demo_rx :: phy_state where
  "demo_rx = demo_phy\<lparr>rf_rxBuf := 0x2000, rf_ack_buf := ack_frame 0 False, rfMode := RF_STATE_RX,
     ram := (\<lambda>a. if 0x2000 \<le> a \<and> a < 0x2019 then demo_frame ! unat (a - 0x2000) else 0),
     ticks := (\<lambda>i. of_nat i * 20000)\<rparr>"

theorem rf_rx_irq_handler_exact_witness:
  "\<exists>s' R. rf_rx_irq_handler 16 True demo_lib demo_rx = Some s' \<and> radio s' = radio demo_rx @ R \<and>
     packets R = [[4, 0, 0, 0, 5, 0x12, 0, 7, 0, 0, 0, 0]] \<and> rf_rxBuf s' = 0x20d0"
proof -
  have sel: "rf_rxBuf demo_rx = 0x2000" "hw_in demo_rx 0x448 0 = 0" "ticks demo_rx = (\<lambda>i. of_nat i * 20000)"
      "rf_ack_buf demo_rx = ack_frame 0 False" "rf_busyFlag demo_rx = 0" "radio demo_rx = []"
    by (simp_all add: demo_rx_def demo_phy_def sdk_state.defs phy_state.defs)
  have m: "ram demo_rx = (\<lambda>a. if 0x2000 \<le> a \<and> a < 0x2019 then demo_frame ! unat (a - 0x2000) else 0)"
    by (simp add: demo_rx_def)
  have nb: "next_buf demo_lib demo_rx = 0x20d0"
    by (simp add: next_buf_def rx_hist_def sel demo_lib_def switch_calls_def)
  have ck: "clock_runs demo_rx"
  proof -
    have "ticks demo_rx (j + Suc 0) - ticks demo_rx j = 20000" for j
      by (simp add: sel algebra_simps)
    moreover have "(16000 :: u32) < 20000"
      by simp
    ultimately show ?thesis
      unfolding clock_runs_def by metis
  qed
  have ap: "other_element (rf_rxBuf demo_rx) (next_buf demo_lib demo_rx)"
    unfolding sel nb other_element_def by (rule bexI [of _ 1]) simp_all
  have g: "good_frame demo_rx"
    by (simp add: good_frame_def RF_ZIGBEE_PACKET_CRC_OK_def RF_ZIGBEE_PACKET_LENGTH_OK_def sel m demo_frame_def)
  have fl: "fst (snd (filter_result demo_lib demo_rx)) = 0"
    by (simp add: filter_result_def demo_lib_def)
  have f: "rx_fate demo_lib demo_rx = Rx_Taken"
    using g fl nb by (simp add: rx_fate_def)
  have fa: "frame_at demo_rx = 0x2005"
    by (simp add: frame_at_def sel)
  have byt: "ram demo_rx 0x2005 = 0x63" "ram demo_rx 0x2006 = 0x88" "ram demo_rx 0x2007 = 7" "ram demo_rx 0x200e = 4"
    by (simp_all add: m demo_frame_def)
  have sn: "seen demo_lib demo_rx 0x2005 = 0x63" "seen demo_lib demo_rx 0x2006 = 0x88" "seen demo_lib demo_rx 0x2007 = 7"
      "seen demo_lib demo_rx 0x200e = 4"
    by (simp_all add: seen_def nb cleared_def byt)
  have w: "wants_ack demo_rx"
    by (simp add: wants_ack_def fa byt)
  have "cmd_offset demo_lib demo_rx = 9"
    by (simp add: cmd_offset_def fa sn) (simp add: demo_lib_def)
  then have d: "data_request demo_lib demo_rx"
    by (simp add: data_request_def fa sn)
  have p: "pending_due True demo_lib demo_rx"
    using d by (simp add: pending_due_def) (simp add: demo_lib_def MAC_SUCCESS_def)
  show ?thesis
    using rf_rx_irq_handler_exact [of demo_rx 0 False demo_lib 16 True] sel ck ap f w p
    by (auto simp: due_acks_def fa sn ack_frame_def nb)
qed

section \<open>The radio over any sequence of operations\<close>

text \<open>
  What the radio driver promises: it reports the mode that was set last.
\<close>

locale trx_driver =
  fixes M :: phy_lib
  assumes state_get: "trx_after None cs = Some (md, c) \<Longrightarrow> rf_trx_state_get M cs = md"
begin

lemma setChannel_trx:
  assumes "trx_after None (radio s) = Some (md, c)" "11 \<le> chn" "chn \<le> 26"
  shows "trx_after None (radio (rf_setChannel M chn s)) = Some (md, LOGICCHANNEL_TO_PHYSICAL chn)"
  using assms state_get [OF assms(1)] by (auto simp: rf_setChannel_def pib_set_u8_def phy_consts Let_def)

end

text \<open>
  What the MAC's buffers promise besides: every buffer handed out for reception is an element of the pool
  array, and never the one that was handed out last, which the radio layer still holds.
\<close>

locale rx_pool = trx_driver +
  fixes pool :: addr
  assumes element: "tl_getRxBuf M cs \<noteq> NULL \<Longrightarrow> \<exists>i<ZB_BUF_POOL_NUM. tl_getRxBuf M cs = pool + of_nat (i * zb_buf_t_size)"
    and fresh: "tl_getRxBuf M cs \<noteq> NULL \<Longrightarrow> tl_getRxBuf M cs \<noteq> buffer_of M cs"
begin

lemma buffer_of_element:
  "buffer_of M cs = NULL \<or> (\<exists>i<ZB_BUF_POOL_NUM. buffer_of M cs = pool + of_nat (i * zb_buf_t_size))"
proof (induction cs rule: rev_induct)
  case Nil
  then show ?case by (simp add: buffer_of_def)
next
  case (snoc c cs)
  have "buffer_of M (cs @ [c]) = (if c = GetRxBuf \<and> tl_getRxBuf M cs \<noteq> NULL then tl_getRxBuf M cs else buffer_of M cs)"
    by (simp add: buffer_of_def handed_out_append)
  then show ?case using snoc element [of cs] by (auto split: if_splits)
qed

lemma next_other:
  assumes "tl_getRxBuf M cs \<noteq> NULL" "buffer_of M cs \<noteq> NULL"
  shows "other_element (buffer_of M cs) (tl_getRxBuf M cs)"
proof -
  obtain i j where i: "i < 36" "buffer_of M cs = pool + of_nat (i * 208)"
      and j: "j < 36" "tl_getRxBuf M cs = pool + of_nat (j * 208)"
    using element [OF assms(1)] buffer_of_element [of cs] assms(2) by auto
  have "i \<noteq> j" using fresh [OF assms(1)] i j by auto
  then consider "i < j" | "j < i" by linarith
  then show ?thesis
  proof cases
    case 1
    then have "(of_nat (j * 208) :: u32) = of_nat (i * 208) + of_nat ((j - i) * 208)"
      by (simp add: diff_mult_distrib flip: of_nat_add)
    then show ?thesis
      unfolding other_element_def using i(2) j(2) by (intro bexI [of _ "j - i"]) (use 1 i(1) j(1) in \<open>auto simp: add.assoc\<close>)
  next
    case 2
    then have "(of_nat (i * 208) :: u32) = of_nat (j * 208) + of_nat ((i - j) * 208)"
      by (simp add: diff_mult_distrib flip: of_nat_add)
    then show ?thesis
      unfolding other_element_def using i(2) j(2) by (intro bexI [of _ "i - j"]) (use 2 i(1) j(1) in \<open>auto simp: add.assoc\<close>)
  qed
qed

end

lemma demo_buffers:
  "buffer_of demo_lib cs = (if cs = [] \<or> filter (\<lambda>c. c = GetRxBuf) cs = [] then NULL
     else if even (length (filter (\<lambda>c. c = GetRxBuf) cs)) then 0x2000 else 0x20d0)"
proof (induction cs rule: rev_induct)
  case Nil
  then show ?case by (simp add: buffer_of_def)
next
  case (snoc c cs)
  have "buffer_of demo_lib (cs @ [c]) = (if c = GetRxBuf then tl_getRxBuf demo_lib cs else buffer_of demo_lib cs)"
    by (simp add: buffer_of_def handed_out_append demo_lib_def)
  then show ?case using snoc by (auto simp: demo_lib_def)
qed

interpretation demo_rx_pool: rx_pool demo_lib "0x2000"
proof
  fix cs md c
  show "trx_after None cs = Some (md, c) \<Longrightarrow> rf_trx_state_get demo_lib cs = md"
    by (simp add: demo_lib_def)
  show "tl_getRxBuf demo_lib cs \<noteq> NULL \<Longrightarrow> \<exists>i<ZB_BUF_POOL_NUM. tl_getRxBuf demo_lib cs = 0x2000 + of_nat (i * zb_buf_t_size)"
    by (cases "even (length (filter (\<lambda>c. c = GetRxBuf) cs))") (auto simp: demo_lib_def intro: exI [of _ 0] exI [of _ 1])
  show "tl_getRxBuf demo_lib cs \<noteq> NULL \<Longrightarrow> tl_getRxBuf demo_lib cs \<noteq> buffer_of demo_lib cs"
    unfolding demo_buffers by (auto simp: demo_lib_def)
qed

text \<open>
  The state of a working radio: there is a receive buffer, the acknowledgement and transmit buffers have their
  form, both DMA channels and the radio interrupt are on, the channel is one of the band's, and the
  transceiver is in the mode the layer reports, on that channel.
\<close>

definition ack_form :: "u8 list \<Rightarrow> bool" where
  "ack_form xs \<longleftrightarrow> (\<exists>q b. xs = ack_frame q b)"

lemma ack_form_frame [simp]: "ack_form (ack_frame q b)"
  by (auto simp: ack_form_def)

definition chan_ok :: "u8 \<Rightarrow> bool" where
  "chan_ok c \<longleftrightarrow> 11 \<le> c \<and> c \<le> 26"

definition phy_inv :: "'a phy_state_scheme \<Rightarrow> bool" where
  "phy_inv s \<longleftrightarrow> rf_rxBuf s \<noteq> NULL \<and> ack_form (rf_ack_buf s) \<and> length (rf_tx_buf s) = 132 \<and>
     bit (reg_dma_chn_en s) 2 \<and> bit (reg_dma_chn_en s) 3 \<and> bit (reg_irq_mask s) 13 \<and>
     chan_ok (rf_getChannel s) \<and> rfMode s \<in> {RF_STATE_TX, RF_STATE_RX, RF_STATE_OFF} \<and>
     trx_after None (radio s) = Some (rf_TrxStateGet s, LOGICCHANNEL_TO_PHYSICAL (rf_getChannel s))"

text \<open>The radio layer receives into the buffer handed out last; before the first one it has none.\<close>

definition holds_buffer :: "phy_lib \<Rightarrow> 'a phy_state_scheme \<Rightarrow> bool" where
  "holds_buffer M s \<longleftrightarrow> rf_rxBuf s = buffer_of M (radio s)"

text \<open>
  A run of the radio from \<^verbatim>\<open>rf_init\<close> on: interrupts, requests of the MAC, polls of the energy detection, and
  what happens in between, when the DMA writes memory, the MAC marks a transmission, and time passes.
\<close>

inductive phy_run :: "u32 \<Rightarrow> bool \<Rightarrow> addr \<Rightarrow> phy_lib \<Rightarrow> 'a phy_state_scheme \<Rightarrow> bool" for us ffd ed_at M where
  start: "chan_ok (rf_getChannel s) \<Longrightarrow> length (rf_tx_buf s) = 132 \<Longrightarrow> length (rf_ack_buf s) = 12 \<Longrightarrow> holds_buffer M s \<Longrightarrow>
      rf_init ed_at M s = Some s' \<Longrightarrow> phy_run us ffd ed_at M s'"
| rx: "phy_run us ffd ed_at M s \<Longrightarrow> rfMode s = RF_STATE_RX \<Longrightarrow> clock_runs s \<Longrightarrow>
      rf_rx_irq_handler us ffd M s = Some s' \<Longrightarrow> phy_run us ffd ed_at M s'"
| txirq: "phy_run us ffd ed_at M s \<Longrightarrow> phy_run us ffd ed_at M (rf_tx_irq_handler s)"
| set_state: "phy_run us ffd ed_at M s \<Longrightarrow> phy_run us ffd ed_at M (rf_setTrxState st s)"
| set_chan: "phy_run us ffd ed_at M s \<Longrightarrow> phy_run us ffd ed_at M (rf_setChannel M chn s)"
| set_power: "phy_run us ffd ed_at M s \<Longrightarrow> phy_run us ffd ed_at M (rf_setTxPower pw s)"
| pa_init: "phy_run us ffd ed_at M s \<Longrightarrow> phy_run us ffd ed_at M (rf_paInit tp rp s)"
| reset: "phy_run us ffd ed_at M s \<Longrightarrow> rf_reset M s = Some s' \<Longrightarrow> phy_run us ffd ed_at M s'"
| ready: "phy_run us ffd ed_at M s \<Longrightarrow> rf802154_tx_ready buf len s = Some s' \<Longrightarrow> phy_run us ffd ed_at M s'"
| send: "phy_run us ffd ed_at M s \<Longrightarrow> phy_run us ffd ed_at M (rf802154_tx s)"
| ed_start: "phy_run us ffd ed_at M s \<Longrightarrow> phy_run us ffd ed_at M (rf_startEDScan s)"
| ed_poll: "phy_run us ffd ed_at M s \<Longrightarrow> phy_run us ffd ed_at M (rf_edDetect s)"
| ed_stop: "phy_run us ffd ed_at M s \<Longrightarrow> phy_run us ffd ed_at M (snd (rf_stopEDScan s))"
| cca: "phy_run us ffd ed_at M s \<Longrightarrow> rf_performCCA s = Some (r, s') \<Longrightarrow> phy_run us ffd ed_at M s'"
| env: "phy_run us ffd ed_at M s \<Longrightarrow> phy_run us ffd ed_at M (s\<lparr>ticks := t, ram := m, rf_busyFlag := b, hw_in := h\<rparr>)"

lemma cca_loop_env:
  assumes "cca_loop t a c s = Some (x, y, s')"
  shows "\<exists>tk h. s' = s\<lparr>ticks := tk, hw_in := h\<rparr>"
proof -
  have "(\<lambda>(x, y, s'). \<exists>tk h. s' = s\<lparr>ticks := tk, hw_in := h\<rparr>) (x, y, s')"
  proof (rule cca_loop.raw_induct [OF _ assms], goal_cases)
    case (1 cl t a c s r)
    let ?t = "\<lambda>i. ticks s (Suc i)" and ?h = "(hw_in s)(0x441 := \<lambda>i. hw_in s 0x441 (Suc i))"
    show ?case
    proof (cases "ticks s 0 - t > 128 * 16")
      case True
      then obtain x y where r: "r = (x, y, s\<lparr>ticks := ?t\<rparr>)"
        using 1(2) by (auto simp: clock_time_exceed_def clock_time_def)
      have "s\<lparr>ticks := ?t\<rparr> = s\<lparr>ticks := ?t, hw_in := hw_in s\<rparr>"
        by (cases s) simp
      then show ?thesis
        unfolding r prod.case by (intro exI)
    next
      case False
      then have "cl t (a + scast (rssi_at s 0)) (c + 1) (s\<lparr>ticks := ?t, hw_in := ?h\<rparr>) = Some r"
        using 1(2) by (simp add: clock_time_exceed_def clock_time_def rf_rssi_get_154_eq rssi_at_def)
      then have "case r of (x, y, s') \<Rightarrow> \<exists>tk h. s' = (s\<lparr>ticks := ?t, hw_in := ?h\<rparr>)\<lparr>ticks := tk, hw_in := h\<rparr>"
        by (rule 1(1))
      moreover have "(s\<lparr>ticks := ?t, hw_in := ?h\<rparr>)\<lparr>ticks := tk, hw_in := h\<rparr> = s\<lparr>ticks := tk, hw_in := h\<rparr>" for tk h
        by (cases s) simp
      ultimately show ?thesis by simp
    qed
  qed
  then show ?thesis by simp
qed

lemmas phy_inv_simps = phy_inv_def rf_getChannel_def pib_u8_def rf_TrxStateGet_def

lemma phy_inv_env [simp]:
  "phy_inv (s\<lparr>ticks := t\<rparr>) = phy_inv s" "phy_inv (s\<lparr>hw_in := h\<rparr>) = phy_inv s" "phy_inv (s\<lparr>ram := m\<rparr>) = phy_inv s"
  "phy_inv (s\<lparr>rf_busyFlag := b\<rparr>) = phy_inv s" "phy_inv (s\<lparr>g_sysDiags := d\<rparr>) = phy_inv s"
  "phy_inv (s\<lparr>ev_poll := p\<rparr>) = phy_inv s" "phy_inv (s\<lparr>soft_rssi := v\<rparr>) = phy_inv s"
  "phy_inv (s\<lparr>sum_rssi := sm\<rparr>) = phy_inv s" "phy_inv (s\<lparr>cnt_rssi := n\<rparr>) = phy_inv s"
  "phy_inv (s\<lparr>fPaEn := pa\<rparr>) = phy_inv s" "phy_inv (s\<lparr>rf_pa_txen_pin := tp\<rparr>) = phy_inv s"
  "phy_inv (s\<lparr>rf_pa_rxen_pin := rp\<rparr>) = phy_inv s"
  by (simp_all add: phy_inv_simps)

lemma phy_inv_call [simp]: "(\<And>x. trx_after x [c] = x) \<Longrightarrow> phy_inv (do_call c s) = phy_inv s"
  by (simp add: phy_inv_simps do_call_def)

lemma setTrxState_inv: "phy_inv s \<Longrightarrow> phy_inv (rf_setTrxState st s)"
  by (simp add: rf_setTrxState_eq phy_inv_simps phy_consts)

lemma performCCA_inv: "phy_inv s \<Longrightarrow> rf_performCCA s = Some (r, s') \<Longrightarrow> phy_inv s'"
  by (auto simp: rf_performCCA_def clock_time_def rf_rssi_get_154_eq Let_def bind_eq_Some_conv dest!: cca_loop_env)

lemma edDetect_inv: "phy_inv s \<Longrightarrow> phy_inv (rf_edDetect s)"
  by (simp add: rf_edDetect_def rf_rssi_get_154_eq Let_def)

lemma tx_irq_inv: "phy_inv s \<Longrightarrow> phy_inv (rf_tx_irq_handler s)"
  by (simp add: rf_tx_irq_handler_def Let_def switch_eq phy_inv_simps do_call_def phy_consts)

lemma tx_ready_inv: "phy_inv s \<Longrightarrow> rf802154_tx_ready buf len s = Some s' \<Longrightarrow> phy_inv s'"
  by (auto simp: rf802154_tx_ready_def ZB_RADIO_DMA_HDR_BUILD_def Let_def phy_inv_simps split: if_splits)

lemma rx_irq_inv:
  assumes "phy_inv s" "rfMode s = RF_STATE_RX" "clock_runs s" "rx_fate M s = Rx_Taken \<Longrightarrow> other_element (rf_rxBuf s) (next_buf M s)"
    and "rf_rx_irq_handler us ffd M s = Some s'"
  shows "phy_inv s'"
proof (cases "bit (hw_in s 0x448 0) 5")
  case True
  then show ?thesis using assms(1,5) rx_receiving [OF True, of us ffd M] by auto
next
  case False
  have b: "rf_rxBuf s \<noteq> NULL" and tr: "trx_after None (radio s) = Some (1, LOGICCHANNEL_TO_PHYSICAL (pib_u8 phyChannelCur s))"
    using assms(1,2) by (simp_all add: phy_inv_simps phy_consts)
  have R: "trx_after None (radio s @ R) = Some (1, LOGICCHANNEL_TO_PHYSICAL (pib_u8 phyChannelCur s))" if "rx_trx s R" for R
    using that tr by (auto simp: rx_trx_def phy_consts)
  have dma: "bit (x OR FLD_DMA_CHN_RF_RX) 2" "bit (x OR FLD_DMA_CHN_RF_RX) 3 = bit x 3" for x
    by (simp_all add: bit_or_iff FLD_DMA_CHN_RF_RX_def)
  obtain q b where a: "rf_ack_buf s = ack_frame q b"
    using assms(1) by (auto simp: phy_inv_def ack_form_def)
  show ?thesis
  proof (cases "rx_fate M s = Rx_Taken")
    case True
    then have "next_buf M s \<noteq> NULL"
      by (auto simp: rx_fate_def split: if_splits)
    then show ?thesis
      using rx_taken [OF b False True assms(3) a assms(4) [OF True], of us ffd] assms(1,2,5) R dma
      by (auto simp: phy_inv_simps bit_or_iff phy_consts)
  next
    case F: False
    then show ?thesis
      using rx_dropped [OF b False F, of us ffd] assms(1,2,5) R dma by (auto simp: phy_inv_simps phy_consts)
  qed
qed

text \<open>Every operation that does not ask for a buffer keeps the one the layer has.\<close>

lemma holds_buffer_env [simp]:
  "holds_buffer M (s\<lparr>ticks := t\<rparr>) = holds_buffer M s" "holds_buffer M (s\<lparr>hw_in := h\<rparr>) = holds_buffer M s"
  "holds_buffer M (s\<lparr>ram := m\<rparr>) = holds_buffer M s" "holds_buffer M (s\<lparr>rf_busyFlag := b\<rparr>) = holds_buffer M s"
  "holds_buffer M (s\<lparr>g_sysDiags := d\<rparr>) = holds_buffer M s" "holds_buffer M (s\<lparr>ev_poll := p\<rparr>) = holds_buffer M s"
  "holds_buffer M (s\<lparr>soft_rssi := v\<rparr>) = holds_buffer M s" "holds_buffer M (s\<lparr>sum_rssi := sm\<rparr>) = holds_buffer M s"
  "holds_buffer M (s\<lparr>cnt_rssi := n\<rparr>) = holds_buffer M s" "holds_buffer M (s\<lparr>fPaEn := pa\<rparr>) = holds_buffer M s"
  "holds_buffer M (s\<lparr>rf_pa_txen_pin := tp\<rparr>) = holds_buffer M s" "holds_buffer M (s\<lparr>rf_pa_rxen_pin := rp\<rparr>) = holds_buffer M s"
  "holds_buffer M (s\<lparr>rfMode := md\<rparr>) = holds_buffer M s" "holds_buffer M (s\<lparr>g_zbMacPib := pb\<rparr>) = holds_buffer M s"
  "holds_buffer M (s\<lparr>rf_tx_buf := tb\<rparr>) = holds_buffer M s" "holds_buffer M (s\<lparr>rf_ack_buf := ab\<rparr>) = holds_buffer M s"
  "holds_buffer M (s\<lparr>reg_dma_chn_en := de\<rparr>) = holds_buffer M s" "holds_buffer M (s\<lparr>reg_irq_mask := im\<rparr>) = holds_buffer M s"
  by (simp_all add: holds_buffer_def)

lemma holds_buffer_call [simp]: "c \<noteq> GetRxBuf \<Longrightarrow> holds_buffer M (do_call c s) = holds_buffer M s"
  by (simp add: holds_buffer_def)

lemma holds_buffer_switch [simp]:
  "holds_buffer M (ZB_SWITCH_TO_TXMODE s) = holds_buffer M s" "holds_buffer M (ZB_SWITCH_TO_RXMODE s) = holds_buffer M s"
  by (simp_all add: switch_eq holds_buffer_def)

lemma holds_buffer_ops:
  "holds_buffer M s \<Longrightarrow> holds_buffer M (rf_setTrxState st s)" "holds_buffer M s \<Longrightarrow> holds_buffer M (rf_tx_irq_handler s)"
  "holds_buffer M s \<Longrightarrow> holds_buffer M (rf_edDetect s)" "holds_buffer M s \<Longrightarrow> holds_buffer M (rf_setChannel M' chn s)"
  "holds_buffer M s \<Longrightarrow> holds_buffer M (rf_setTxPower pw s)" "holds_buffer M s \<Longrightarrow> holds_buffer M (rf_paInit tp rp s)"
  "holds_buffer M s \<Longrightarrow> holds_buffer M (rf802154_tx s)" "holds_buffer M s \<Longrightarrow> holds_buffer M (rf_startEDScan s)"
  "holds_buffer M s \<Longrightarrow> holds_buffer M (snd (rf_stopEDScan s))"
proof -
  show st: "holds_buffer M s \<Longrightarrow> holds_buffer M (rf_setTrxState st s)" for st :: u8 and s :: "'a phy_state_scheme"
    by (simp add: rf_setTrxState_def rf_paShutDown_def pa_pins_def Let_def)
  then show "holds_buffer M s \<Longrightarrow> holds_buffer M (rf802154_tx s)"
    by (simp add: rf802154_tx_def rf_tx_finish_clear_flag_def rf_rx_finish_clear_flag_def Let_def)
  show "holds_buffer M s \<Longrightarrow> holds_buffer M (rf_startEDScan s)"
    by (simp add: rf_startEDScan_def Let_def st)
qed (simp_all add: rf_tx_irq_handler_def rf_edDetect_def rf_rssi_get_154_eq rf_setChannel_def pib_set_u8_def rf_setTxPower_def
    rf_paInit_def rf_stopEDScan_def Let_def)

lemma tx_ready_buffer: "holds_buffer M s \<Longrightarrow> rf802154_tx_ready buf len s = Some s' \<Longrightarrow> holds_buffer M s'"
  by (auto simp: rf802154_tx_ready_def ZB_RADIO_DMA_HDR_BUILD_def Let_def split: if_splits)

lemma performCCA_buffer: "holds_buffer M s \<Longrightarrow> rf_performCCA s = Some (r, s') \<Longrightarrow> holds_buffer M s'"
  by (auto simp: rf_performCCA_def clock_time_def rf_rssi_get_154_eq Let_def bind_eq_Some_conv dest!: cca_loop_env)

lemma rx_irq_buffer:
  assumes "phy_inv s" "holds_buffer M s" "clock_runs s" "rx_fate M s = Rx_Taken \<Longrightarrow> other_element (rf_rxBuf s) (next_buf M s)"
    and "rf_rx_irq_handler us ffd M s = Some s'"
  shows "holds_buffer M s'"
proof (cases "bit (hw_in s 0x448 0) 5")
  case True
  then show ?thesis using assms(2,5) rx_receiving [OF True, of us ffd M] by auto
next
  case False
  obtain q b where b: "rf_rxBuf s \<noteq> NULL" and a: "rf_ack_buf s = ack_frame q b"
    using assms(1) by (auto simp: phy_inv_def ack_form_def)
  show ?thesis
  proof (cases "rx_fate M s = Rx_Taken")
    case True
    then show ?thesis
      using rx_taken [OF b False True assms(3) a assms(4) [OF True], of us ffd] assms(5) by (auto simp: holds_buffer_def)
  next
    case F: False
    then show ?thesis
      using rx_dropped [OF b False F, of us ffd] assms(2,5) by (auto simp: holds_buffer_def)
  qed
qed

lemma setChannel_same:
  assumes "pib_u8 phyChannelCur s = chn" "chan_ok chn"
  shows "rf_setChannel M chn s = do_call (RfTrxStateSet (rf_trx_state_get M (radio s)) (LOGICCHANNEL_TO_PHYSICAL chn)) s"
proof -
  have "pib_set_u8 phyChannelCur chn s = s"
    using assms(1) by (cases s) (auto simp: pib_set_u8_def pib_u8_def)
  then show ?thesis
    using assms(2) by (simp add: rf_setChannel_def chan_ok_def phy_consts not_less [symmetric])
qed

text \<open>\<^verbatim>\<open>rf_reset\<close> brings up the radio from any state in which the channel is valid.\<close>

lemma reset_up:
  assumes "rf_reset M s = Some s'" "chan_ok (rf_getChannel s)"
  shows "rf_rxBuf s' \<noteq> NULL \<and> rf_ack_buf s' = rf_ack_buf s \<and> rf_tx_buf s' = rf_tx_buf s \<and>
     bit (reg_dma_chn_en s') 2 \<and> bit (reg_dma_chn_en s') 3 \<and> bit (reg_irq_mask s') 13 \<and> rf_getChannel s' = rf_getChannel s \<and>
     rfMode s' = RF_STATE_TX \<and>
     trx_after None (radio s') = Some (rf_trx_state_get M (radio (rf_setTxPower (g_zb_txPowerSet s) (rf_setTrxState RF_STATE_TX s))),
       LOGICCHANNEL_TO_PHYSICAL (rf_getChannel s))"
proof -
  let ?s2 = "rf_setTxPower (g_zb_txPowerSet (rf_setTrxState RF_STATE_TX s)) (rf_setTrxState RF_STATE_TX s)"
  let ?s3 = "rf_setChannel M (pib_u8 phyChannelCur ?s2) ?s2"
  have g: "g_zb_txPowerSet (rf_setTrxState RF_STATE_TX s) = g_zb_txPowerSet s"
    by (simp add: rf_setTrxState_eq phy_consts)
  have c: "pib_u8 phyChannelCur ?s2 = rf_getChannel s"
    by (simp add: rf_setTxPower_def rf_setTrxState_eq rf_getChannel_def pib_u8_def phy_consts)
  have s3: "?s3 = do_call (RfTrxStateSet (rf_trx_state_get M (radio ?s2)) (LOGICCHANNEL_TO_PHYSICAL (rf_getChannel s))) ?s2"
    unfolding c by (rule setChannel_same [OF c assms(2)])
  define s3 where "s3 = ?s3"
  have sel: "rf_ack_buf s3 = rf_ack_buf s" "rf_tx_buf s3 = rf_tx_buf s" "rf_getChannel s3 = rf_getChannel s" "rfMode s3 = RF_STATE_TX"
     "trx_after None (radio s3) = Some (rf_trx_state_get M (radio ?s2), LOGICCHANNEL_TO_PHYSICAL (rf_getChannel s))"
    unfolding s3_def s3
    by (simp_all add: rf_setTxPower_def rf_setTrxState_eq rf_getChannel_def pib_u8_def phy_consts do_call_def)
  have buf: "rf_setRxBuf b x = Some y \<Longrightarrow>
      y = x\<lparr>rf_rxBuf := b, ram := cleared b (ram x), reg_dma2_addr := ucast b\<rparr> \<and> b \<noteq> NULL" for b and x y :: "'a phy_state_scheme"
    by (auto simp: rf_setRxBuf_def ZB_RADIO_RX_BUF_CLEAR_def rf_rx_buffer_reconfig_def cleared_def Let_def split: if_splits)
  obtain s4 where s4: "(if rf_rxBuf s3 \<noteq> NULL then rf_setRxBuf (rf_rxBuf s3) s3
      else let (b, s') = get_rx_buf M s3 in rf_setRxBuf b s') = Some s4"
    and s': "ZB_TIMESTAMP_ENABLE (RFDMA_TX_ENABLE (RFDMA_RX_ENABLE (ZB_RADIO_TRX_CFG RF_PKT_BUFF_LEN s4))) = s'"
    using assms(1) unfolding rf_reset_def Let_def s3_def [symmetric] bind_eq_Some_conv option.inject
    by (elim exE conjE)
  have "rf_rxBuf s4 \<noteq> NULL \<and> rf_ack_buf s4 = rf_ack_buf s \<and> rf_tx_buf s4 = rf_tx_buf s \<and> rf_getChannel s4 = rf_getChannel s \<and>
      rfMode s4 = RF_STATE_TX \<and> trx_after None (radio s4) = trx_after None (radio s3)"
  proof (cases "rf_rxBuf s3 = NULL")
    case True
    then have "rf_setRxBuf (tl_getRxBuf M (radio s3)) (do_call GetRxBuf s3) = Some s4"
      using s4 by (simp add: get_rx_buf_def)
    from buf [OF this] show ?thesis
      using sel by (simp add: rf_getChannel_def pib_u8_def)
  next
    case False
    then have "rf_setRxBuf (rf_rxBuf s3) s3 = Some s4"
      using s4 by simp
    from buf [OF this] show ?thesis
      using sel by (simp add: rf_getChannel_def pib_u8_def)
  qed
  then show ?thesis
    using sel(5) unfolding s' [symmetric] g
    by (simp add: ZB_TIMESTAMP_ENABLE_def RFDMA_TX_ENABLE_def RFDMA_RX_ENABLE_def ZB_RADIO_TRX_CFG_def irq_set_mask_def
        rf_irq_enable_def dma_irq_disable_def read_reg8_def do_call_def rf_getChannel_def pib_u8_def
        FLD_DMA_CHN_RF_RX_def FLD_DMA_CHN_RF_TX_def FLD_IRQ_ZB_RT_EN_def bit_or_iff)
qed

lemma reset_buffer:
  assumes "rf_reset M s = Some s'" "holds_buffer M s"
  shows "holds_buffer M s'"
proof -
  let ?s2 = "rf_setTxPower (g_zb_txPowerSet (rf_setTrxState RF_STATE_TX s)) (rf_setTrxState RF_STATE_TX s)"
  define s3 where "s3 = rf_setChannel M (pib_u8 phyChannelCur ?s2) ?s2"
  have h3: "holds_buffer M s3" unfolding s3_def by (intro holds_buffer_ops assms(2))
  have tail: "holds_buffer M (ZB_TIMESTAMP_ENABLE (RFDMA_TX_ENABLE (RFDMA_RX_ENABLE (ZB_RADIO_TRX_CFG n x)))) = holds_buffer M x"
    for n and x :: "'a phy_state_scheme"
    by (simp add: holds_buffer_def ZB_TIMESTAMP_ENABLE_def RFDMA_TX_ENABLE_def RFDMA_RX_ENABLE_def ZB_RADIO_TRX_CFG_def
        irq_set_mask_def rf_irq_enable_def dma_irq_disable_def read_reg8_def)
  have buf: "rf_setRxBuf b x = Some y \<Longrightarrow> b \<noteq> NULL \<and> rf_rxBuf y = b \<and> radio y = radio x" for b and x y :: "'a phy_state_scheme"
    by (auto simp: rf_setRxBuf_def ZB_RADIO_RX_BUF_CLEAR_def rf_rx_buffer_reconfig_def Let_def split: if_splits)
  obtain s4 where s4: "(if rf_rxBuf s3 \<noteq> NULL then rf_setRxBuf (rf_rxBuf s3) s3
      else let (b, s') = get_rx_buf M s3 in rf_setRxBuf b s') = Some s4"
    and s': "ZB_TIMESTAMP_ENABLE (RFDMA_TX_ENABLE (RFDMA_RX_ENABLE (ZB_RADIO_TRX_CFG RF_PKT_BUFF_LEN s4))) = s'"
    using assms(1) unfolding rf_reset_def Let_def s3_def [symmetric] bind_eq_Some_conv option.inject
    by (elim exE conjE)
  have "holds_buffer M s4"
  proof (cases "rf_rxBuf s3 = NULL")
    case True
    then have "rf_setRxBuf (tl_getRxBuf M (radio s3)) (do_call GetRxBuf s3) = Some s4"
      using s4 by (simp add: get_rx_buf_def)
    from buf [OF this] show ?thesis
      using buffer_of_Get [of M "radio s3" "[]"] by (simp add: holds_buffer_def)
  next
    case False
    then have "rf_setRxBuf (rf_rxBuf s3) s3 = Some s4"
      using s4 by simp
    from buf [OF this] show ?thesis
      using h3 by (simp add: holds_buffer_def)
  qed
  then show ?thesis unfolding s' [symmetric] tail .
qed

context rx_pool
begin

lemma next_buf_other:
  assumes "holds_buffer M s" "rf_rxBuf s \<noteq> NULL" "rx_fate M s = Rx_Taken"
  shows "other_element (rf_rxBuf s) (next_buf M s)"
proof -
  have "buffer_of M (rx_hist s) = rf_rxBuf s"
    using assms(1) by (simp add: rx_hist_def holds_buffer_def)
  moreover have "next_buf M s \<noteq> NULL"
    using assms(3) by (auto simp: rx_fate_def split: if_splits)
  ultimately show ?thesis
    using next_other [of "rx_hist s"] assms(2) by (simp add: next_buf_def)
qed

lemma reset_inv_parts:
  assumes "rf_reset M s = Some s'" "chan_ok (rf_getChannel s)" "ack_form a" "length (rf_tx_buf s) = 132"
  shows "phy_inv (s'\<lparr>rf_ack_buf := a\<rparr>)"
proof -
  have "trx_after None (radio (rf_setTxPower (g_zb_txPowerSet s) (rf_setTrxState RF_STATE_TX s))) =
      Some (RF_STATE_TX, LOGICCHANNEL_TO_PHYSICAL (rf_getChannel s))"
    by (simp add: rf_setTxPower_def rf_setTrxState_eq phy_consts rf_getChannel_def)
  from state_get [OF this] show ?thesis
    using reset_up [OF assms(1,2)] assms(2-4) by (simp add: phy_inv_simps)
qed

lemma run_inv: "phy_run us ffd ed_at M s \<Longrightarrow> phy_inv s \<and> holds_buffer M s"
proof (induction rule: phy_run.induct)
  case (start s s')
  let ?a = "(ZB_RADIO_DMA_HDR_BUILD (replicate 12 0 @ drop 12 (rf_ack_buf s)) 3)[4 := 5, 5 := 2, 6 := 0]"
  have a: "?a = ack_frame 0 False"
    using start(3) by (simp add: ZB_RADIO_DMA_HDR_BUILD_def ack_frame_def numeral_eq_Suc)
  obtain s1 where r: "rf_reset M s = Some s1" 
    and s': "s' = (s1\<lparr>rf_ack_buf := ?a\<rparr>)\<lparr>ev_poll := ev_disable_poll EV_POLL_ED_DETECT (ev_on_poll EV_POLL_ED_DETECT ed_at (ev_poll s1))\<rparr>"
    using start(5) by (auto simp: rf_init_def rf_mac_ack_build_def bind_eq_Some_conv reset_up [OF _ start(1)] Let_def)
  then show ?case
    using reset_inv_parts [OF r start(1) _ start(2), of ?a] reset_buffer [OF r start(4)] a by auto
next
  case (rx s s')
  then have "rx_fate M s = Rx_Taken \<Longrightarrow> other_element (rf_rxBuf s) (next_buf M s)"
    using next_buf_other unfolding phy_inv_def by blast
  then show ?case using rx rx_irq_inv rx_irq_buffer by blast
next
  case (set_chan s chn)
  then obtain md where md: "trx_after None (radio s) = Some (md, LOGICCHANNEL_TO_PHYSICAL (rf_getChannel s))" "md = rfMode s"
    by (simp add: phy_inv_simps)
  have hb: "holds_buffer M (rf_setChannel M chn s)"
    using set_chan.IH by (intro holds_buffer_ops) simp
  show ?case
  proof (cases "chan_ok chn")
    case True
    moreover from this have "\<not> (chn < 11 \<or> 26 < chn)"
      by (simp add: chan_ok_def not_less)
    ultimately show ?thesis
      using set_chan.IH setChannel_trx [OF md(1), of chn] md(2) hb
      by (simp add: phy_inv_simps chan_ok_def rf_setChannel_def phy_consts pib_set_u8_def Let_def do_call_def)
  next
    case False
    then show ?thesis
      using set_chan.IH by (auto simp: rf_setChannel_def chan_ok_def phy_consts not_le)
  qed
next
  case (reset s s')
  then have i: "chan_ok (rf_getChannel s)" "ack_form (rf_ack_buf s)" "length (rf_tx_buf s) = 132"
    by (simp_all add: phy_inv_def)
  have "s'\<lparr>rf_ack_buf := rf_ack_buf s\<rparr> = s'"
    using reset_up [OF reset(2) i(1)] by (cases s') simp
  then show ?case
    using reset_inv_parts [OF reset(2) i] reset_buffer [OF reset(2)] reset.IH by simp
next
  case (ready s buf len s')
  then show ?case using tx_ready_inv tx_ready_buffer by blast
next
  case (cca s r s')
  then show ?case using performCCA_inv performCCA_buffer by blast
qed (simp_all add: holds_buffer_ops tx_irq_inv setTrxState_inv edDetect_inv rf_setTxPower_def rf_paInit_def rf802154_tx_def rf_startEDScan_def
    rf_stopEDScan_def rf_tx_finish_clear_flag_def rf_rx_finish_clear_flag_def Let_def)

end

text \<open>
  C9. The radio's state stays consistent. Over any sequence, from \<^verbatim>\<open>rf_init\<close> on, of interrupts, state and channel
  changes, energy scans, channel assessments, transmissions and resets, with arbitrary changes of memory, busy
  flag, clock and registers in between: the transceiver is always in the mode the layer reports and on the
  channel the information base holds, which is one of 11 to 26; a receive buffer is always in place, and it is
  the one the library handed out last; both DMA channels and the radio interrupt are on; the acknowledgement
  frame has its form. The receive interrupt is taken in the receive state, with a clock that runs on. What is
  relied on (\<open>rx_pool\<close>): the radio driver reports the mode set last, and the receive buffers handed out are
  elements of the pool array, the one in use never among them.
\<close>

theorem phy_run_inv:
  assumes "rx_pool M pool" "phy_run us ffd ed_at M s"
  shows "phy_inv s \<and> holds_buffer M s"
  by (rule rx_pool.run_inv [OF assms])

text \<open>
  A run that goes to the receive state, receives and acknowledges a data request, goes to channel 26 and
  transmits a frame of 20 bytes. \<open>dma_frame\<close> is a reception: the DMA writes a frame into the buffer in place.
\<close>

definition dma_frame :: "u8 list \<Rightarrow> phy_state \<Rightarrow> phy_state" where
  "dma_frame xs s = s\<lparr>ticks := (\<lambda>i. of_nat i * 20000),
     ram := (\<lambda>a. if unat (a - rf_rxBuf s) < length xs then xs ! unat (a - rf_rxBuf s) else ram s a),
     rf_busyFlag := 0, hw_in := (\<lambda>_ _. 0)\<rparr>"

definition demo_run :: "phy_state option" where
  "demo_run = do {
     s1 \<leftarrow> rf_init 0x1000 demo_lib (pib_set_u8 phyChannelCur 11 demo_phy);
     s2 \<leftarrow> rf_rx_irq_handler 16 True demo_lib (dma_frame demo_frame (rf_setTrxState RF_STATE_RX s1));
     s3 \<leftarrow> rf802154_tx_ready (\<lambda>i. of_nat i) 20 (rf_setChannel demo_lib 26 s2);
     Some (rf_tx_irq_handler (rf802154_tx s3))
   }"

lemma dma_frame_clock: "clock_runs (dma_frame xs s)"
proof -
  have "ticks (dma_frame xs s) (j + Suc 0) - ticks (dma_frame xs s) j = 20000" for j
    by (simp add: dma_frame_def algebra_simps)
  moreover have "(16000 :: u32) < 20000" by simp
  ultimately show ?thesis unfolding clock_runs_def by metis
qed

lemma dma_frame_taken: "rx_fate demo_lib (dma_frame demo_frame s) = Rx_Taken"
proof -
  let ?s = "dma_frame demo_frame s" and ?p = "rf_rxBuf s"
  have sel: "rf_rxBuf ?s = ?p" "rf_busyFlag ?s = 0" by (simp_all add: dma_frame_def)
  have byt: "ram ?s (?p + of_nat i) = demo_frame ! i" if "i < 25" for i
    using that by (simp add: dma_frame_def demo_frame_def unat_of_nat)
  have b: "ram ?s ?p = 21" "ram ?s (?p + 4) = 12" "ram ?s (?p + 24) = 0x10"
    using byt [of 0] byt [of 4] byt [of 24] by (simp_all add: demo_frame_def)
  have "good_frame ?s"
    using b by (simp add: good_frame_def RF_ZIGBEE_PACKET_CRC_OK_def RF_ZIGBEE_PACKET_LENGTH_OK_def sel add.assoc)
  then show ?thesis by (simp add: rx_fate_def filter_result_def next_buf_def demo_lib_def)
qed

lemma tx_ready_radio: "rf802154_tx_ready buf len s = Some s' \<Longrightarrow> radio s' = radio s"
  by (auto simp: rf802154_tx_ready_def ZB_RADIO_DMA_HDR_BUILD_def Let_def split: if_splits)

lemma demo_init: "\<exists>s1. rf_init 0x1000 demo_lib (pib_set_u8 phyChannelCur 11 demo_phy) = Some s1"
proof -
  let ?s0 = "pib_set_u8 phyChannelCur 11 demo_phy"
  have nb: "tl_getRxBuf demo_lib cs \<noteq> NULL" for cs
    by (simp add: demo_lib_def)
  have bf: "b \<noteq> NULL \<Longrightarrow> rf_setRxBuf b x = Some (x\<lparr>rf_rxBuf := b, ram := cleared b (ram x), reg_dma2_addr := ucast b\<rparr>)"
    for b and x :: phy_state
    by (simp add: rf_setRxBuf_def ZB_RADIO_RX_BUF_CLEAR_def rf_rx_buffer_reconfig_def cleared_def Let_def)
  have "rf_rxBuf (rf_setChannel demo_lib c (rf_setTxPower p (rf_setTrxState RF_STATE_TX ?s0))) = NULL" for c p
    by (simp add: rf_setChannel_def rf_setTxPower_def rf_setTrxState_eq phy_consts pib_set_u8_def Let_def demo_phy_def
        sdk_state.defs phy_state.defs)
  then show ?thesis
    by (simp add: rf_init_def rf_reset_def get_rx_buf_def nb bf Let_def)
qed

theorem phy_run_inv_witness:
  "\<exists>s. demo_run = Some s \<and> phy_run 16 True 0x1000 demo_lib s \<and> phy_inv s \<and> holds_buffer demo_lib s \<and> received (radio s) \<noteq> []"
proof -
  let ?s0 = "pib_set_u8 phyChannelCur 11 demo_phy"
  note inv = phy_run_inv [OF demo_rx_pool.rx_pool_axioms]
  have s0: "chan_ok (rf_getChannel ?s0)" "length (rf_tx_buf ?s0) = 132" "length (rf_ack_buf ?s0) = 12" "holds_buffer demo_lib ?s0"
    by (simp_all add: chan_ok_def rf_getChannel_def pib_u8_def pib_set_u8_def holds_buffer_def buffer_of_def demo_phy_def
        sdk_state.defs phy_state.defs)
  obtain s1 where s1: "rf_init 0x1000 demo_lib ?s0 = Some s1" using demo_init ..
  let ?d = "dma_frame demo_frame (rf_setTrxState RF_STATE_RX s1)"
  have rd: "phy_run 16 True 0x1000 demo_lib ?d"
    unfolding dma_frame_def by (intro phy_run.env phy_run.set_state phy_run.start [OF s0 s1])
  have d: "rf_rxBuf ?d \<noteq> NULL" "holds_buffer demo_lib ?d" "\<not> bit (hw_in ?d 0x448 0) 5" "rfMode ?d = RF_STATE_RX"
    using inv [OF rd] by (simp_all add: phy_inv_def) (simp_all add: dma_frame_def rf_setTrxState_eq phy_consts)
  obtain q b where a: "rf_ack_buf ?d = ack_frame q b"
    using inv [OF rd] by (auto simp: phy_inv_def ack_form_def)
  obtain s2 R where s2: "rf_rx_irq_handler 16 True demo_lib ?d = Some s2" "radio s2 = radio ?d @ R" "received R \<noteq> []"
    using rx_taken [OF d(1,3) dma_frame_taken dma_frame_clock a demo_rx_pool.next_buf_other [OF d(2,1) dma_frame_taken], of 16 True]
    by auto
  have r2: "phy_run 16 True 0x1000 demo_lib (rf_setChannel demo_lib 26 s2)"
    by (rule phy_run.set_chan [OF phy_run.rx [OF rd d(4) dma_frame_clock s2(1)]])
  then obtain s3 where s3: "rf802154_tx_ready (\<lambda>i. of_nat i) 20 (rf_setChannel demo_lib 26 s2) = Some s3"
    using inv [OF r2] by (simp add: phy_inv_def rf802154_tx_ready_def ZB_RADIO_DMA_HDR_BUILD_def Let_def)
  let ?s = "rf_tx_irq_handler (rf802154_tx s3)"
  have rs: "phy_run 16 True 0x1000 demo_lib ?s"
    by (intro phy_run.txirq phy_run.send phy_run.ready [OF r2 s3])
  have "received (radio ?s) \<noteq> []"
    using s2(2,3) tx_ready_radio [OF s3]
    by (simp add: rf_tx_irq_handler_def rf802154_tx_def rf_setChannel_def rf_tx_finish_clear_flag_def rf_rx_finish_clear_flag_def
        rf_setTrxState_eq switch_eq phy_consts pib_set_u8_def Let_def)
  then show ?thesis
    using s1 s2(1) s3 rs inv [OF rs] by (simp add: demo_run_def)
qed

end
