(* ===== verification/Drv_Timer.thy ===== *)
theory Drv_Timer
  imports Mac_Phy
begin

text \<open>
  The hardware timers, \<^verbatim>\<open>proj/drivers/drv_timer.c\<close> for the 8278: four timers with a 64-bit expiry, a callback
  and a status, set, cancelled and driven by their interrupts. \<^verbatim>\<open>timer_start\<close>, \<^verbatim>\<open>timer_stop\<close> and
  \<^verbatim>\<open>timer_set_mode\<close> are in the chip's library: calls of them are recorded. A callback is called through
  \<open>call\<close>, which gives its result and its effect on the whole state.
\<close>

section \<open>State\<close>

definition TIMER_IDX_0 :: u8 where "TIMER_IDX_0 = 0"
definition TIMER_IDX_1 :: u8 where "TIMER_IDX_1 = 1"
definition TIMER_IDX_3 :: u8 where "TIMER_IDX_3 = 3"
definition TIMER_NUM :: u8 where "TIMER_NUM = 4"
definition TIMER_IDLE :: u8 where "TIMER_IDLE = 0"
definition TIMER_WOF :: u8 where "TIMER_WOF = 1"
definition TIMER_WTO :: u8 where "TIMER_WTO = 2"
definition TIMER_OVERFLOW_VALUE :: u32 where "TIMER_OVERFLOW_VALUE = 0xFFFFFFFE"
definition FLD_IRQ_SYSTEM_TIMER :: u32 where "FLD_IRQ_SYSTEM_TIMER = 0x100000"
definition FLD_SYSTEM_TIMER_AUTO_EN :: u8 where "FLD_SYSTEM_TIMER_AUTO_EN = 4"

lemmas timer_consts = TIMER_IDX_0_def TIMER_IDX_1_def TIMER_IDX_3_def TIMER_NUM_def TIMER_IDLE_def TIMER_WOF_def TIMER_WTO_def

record ext_clk_t =
  low :: u32
  high :: u32

datatype hw_timer_sts_t = HW_TIMER_SUCC | HW_TIMER_IS_RUNNING | HW_TIMER_INVALID

record hwTmr_info_t =
  expireInfo :: ext_clk_t
  tmr_cb :: addr
  tmr_arg :: addr
  tmr_status :: u8

definition tmr_zero :: hwTmr_info_t where
  "tmr_zero = \<lparr>expireInfo = \<lparr>low = 0, high = 0\<rparr>, tmr_cb = NULL, tmr_arg = NULL, tmr_status = 0\<rparr>"

datatype timer_call = TimerSetMode u8 u8 | TimerStart u8 | TimerStop u8

record hwt_state = phy_state +
  timerInfo :: "hwTmr_info_t list"
  reg_tmr_tick :: "u8 \<Rightarrow> u32"
  reg_tmr_capt :: "u8 \<Rightarrow> u32"
  reg_system_tick_irq_level :: u32
  reg_system_irq_mask :: u8
  tmr_calls :: "timer_call list"

text \<open>The clock of the timers in ticks per microsecond: of the processor, and of the system timer.\<close>

record tmr_clk =
  H_TIMER_CLOCK_1US :: u32
  S_TIMER_CLOCK_1US :: u32

definition TIMER_TICK_1US_GET :: "tmr_clk \<Rightarrow> u8 \<Rightarrow> u32" where
  "TIMER_TICK_1US_GET C idx = (if idx < TIMER_IDX_3 then H_TIMER_CLOCK_1US C else S_TIMER_CLOCK_1US C)"

definition TIMER_SAFE_BOUNDARY_IN_US :: "u32 \<Rightarrow> u32" where
  "TIMER_SAFE_BOUNDARY_IN_US v = 10 * v"

definition tmr :: "u8 \<Rightarrow> 'a hwt_state_scheme \<Rightarrow> hwTmr_info_t" where
  "tmr idx s = timerInfo s ! unat idx"

definition set_tmr :: "u8 \<Rightarrow> hwTmr_info_t \<Rightarrow> 'a hwt_state_scheme \<Rightarrow> 'a hwt_state_scheme" where
  "set_tmr idx t s = s\<lparr>timerInfo := (timerInfo s)[unat idx := t]\<rparr>"

section \<open>The timer registers\<close>

definition tmr_call :: "timer_call \<Rightarrow> 'a hwt_state_scheme \<Rightarrow> 'a hwt_state_scheme" where
  "tmr_call c s = s\<lparr>tmr_calls := tmr_calls s @ [c]\<rparr>"

definition timer_set_init_tick :: "u8 \<Rightarrow> u32 \<Rightarrow> 'a hwt_state_scheme \<Rightarrow> 'a hwt_state_scheme" where
  "timer_set_init_tick ty v s = s\<lparr>reg_tmr_tick := (reg_tmr_tick s)(ty := v)\<rparr>"

definition timer_set_cap_tick :: "u8 \<Rightarrow> u32 \<Rightarrow> 'a hwt_state_scheme \<Rightarrow> 'a hwt_state_scheme" where
  "timer_set_cap_tick ty v s = s\<lparr>reg_tmr_capt := (reg_tmr_capt s)(ty := v)\<rparr>"

definition timer_irq_enable :: "u8 \<Rightarrow> 'a hwt_state_scheme \<Rightarrow> 'a hwt_state_scheme" where
  "timer_irq_enable ty s = s\<lparr>reg_irq_mask := reg_irq_mask s OR push_bit (unat ty) 1\<rparr>"

definition stimer_irq_enable :: "'a hwt_state_scheme \<Rightarrow> 'a hwt_state_scheme" where
  "stimer_irq_enable s = s\<lparr>reg_system_irq_mask := reg_system_irq_mask s OR FLD_SYSTEM_TIMER_AUTO_EN\<rparr>"

definition stimer_set_irq_capture :: "u32 \<Rightarrow> 'a hwt_state_scheme \<Rightarrow> 'a hwt_state_scheme" where
  "stimer_set_irq_capture tick s = s\<lparr>reg_system_tick_irq_level := tick AND NOT 7\<rparr>"

definition stimer_set_irq_mask :: "'a hwt_state_scheme \<Rightarrow> 'a hwt_state_scheme" where
  "stimer_set_irq_mask s = s\<lparr>reg_irq_mask := reg_irq_mask s OR FLD_IRQ_SYSTEM_TIMER\<rparr>"

definition stimer_clr_irq_mask :: "'a hwt_state_scheme \<Rightarrow> 'a hwt_state_scheme" where
  "stimer_clr_irq_mask s = s\<lparr>reg_irq_mask := reg_irq_mask s AND NOT FLD_IRQ_SYSTEM_TIMER\<rparr>"

section \<open>Operations\<close>

definition hwTimerInit :: "u8 \<Rightarrow> u8 \<Rightarrow> 'a hwt_state_scheme \<Rightarrow> 'a hwt_state_scheme" where
  "hwTimerInit tmrIdx md s =
     (if tmrIdx < TIMER_IDX_3
      then timer_irq_enable tmrIdx (tmr_call (TimerSetMode tmrIdx md) (timer_set_init_tick tmrIdx 0 s))
      else stimer_irq_enable s)"

definition hwTimerSet :: "u8 \<Rightarrow> u32 \<Rightarrow> 'a hwt_state_scheme \<Rightarrow> 'a hwt_state_scheme" where
  "hwTimerSet tmrIdx tick s =
     (if tmrIdx < TIMER_IDX_3 then timer_set_cap_tick tmrIdx tick s
      else let (t, s1) = clock_time s in stimer_set_irq_capture (tick + t) s1)"

definition hwTimerStart :: "u8 \<Rightarrow> 'a hwt_state_scheme \<Rightarrow> 'a hwt_state_scheme" where
  "hwTimerStart tmrIdx s = (if tmrIdx < TIMER_IDX_3 then tmr_call (TimerStart tmrIdx) s else stimer_set_irq_mask s)"

definition hwTimerStop :: "u8 \<Rightarrow> 'a hwt_state_scheme \<Rightarrow> 'a hwt_state_scheme" where
  "hwTimerStop tmrIdx s = (if tmrIdx < TIMER_IDX_3 then tmr_call (TimerStop tmrIdx) s else stimer_clr_irq_mask s)"

definition next_capture :: "u8 \<Rightarrow> 'a hwt_state_scheme \<Rightarrow> u32" where
  "next_capture tmrIdx s =
     (if high (expireInfo (tmr tmrIdx s)) \<noteq> 0 then TIMER_OVERFLOW_VALUE else low (expireInfo (tmr tmrIdx s)))"

definition hwTmr_setAbs ::
  "tmr_clk \<Rightarrow> (addr \<Rightarrow> addr \<Rightarrow> 'a hwt_state_scheme \<Rightarrow> int \<times> 'a hwt_state_scheme) \<Rightarrow> u8 \<Rightarrow> ext_clk_t \<Rightarrow> addr \<Rightarrow> addr \<Rightarrow>
   'a hwt_state_scheme \<Rightarrow> hw_timer_sts_t \<times> 'a hwt_state_scheme" where
  "hwTmr_setAbs C call tmrIdx absTimer func arg s =
     (if tmr_status (tmr tmrIdx s) \<noteq> TIMER_IDLE then (HW_TIMER_IS_RUNNING, s)
      else
        let (r, s1) = drv_disable_irq s;
            t = \<lparr>expireInfo = absTimer, tmr_cb = func, tmr_arg = arg,
                 tmr_status = (if high absTimer \<noteq> 0 then TIMER_WOF else TIMER_WTO)\<rparr>;
            s2 = set_tmr tmrIdx t s1
        in if high absTimer = 0 \<and> low absTimer < TIMER_SAFE_BOUNDARY_IN_US (TIMER_TICK_1US_GET C tmrIdx)
           then
             let s3 = set_tmr tmrIdx tmr_zero (drv_restore_irq r s2)
             in (HW_TIMER_SUCC, if func \<noteq> NULL then snd (call func arg s3) else s3)
           else (HW_TIMER_SUCC, drv_restore_irq r (hwTimerStart tmrIdx (hwTimerSet tmrIdx (next_capture tmrIdx s2) s2))))"

definition drv_hwTmr_irq_process ::
  "tmr_clk \<Rightarrow> (addr \<Rightarrow> addr \<Rightarrow> 'a hwt_state_scheme \<Rightarrow> int \<times> 'a hwt_state_scheme) \<Rightarrow> u8 \<Rightarrow> 'a hwt_state_scheme \<Rightarrow> 'a hwt_state_scheme" where
  "drv_hwTmr_irq_process C call tmrIdx s =
     (if tmr_status (tmr tmrIdx s) = TIMER_WTO then
        if tmr_cb (tmr tmrIdx s) \<noteq> NULL then
          let (t, s1) = call (tmr_cb (tmr tmrIdx s)) (tmr_arg (tmr tmrIdx s)) s in
          if t < 0 then set_tmr tmrIdx tmr_zero (hwTimerStop tmrIdx s1)
          else if t = 0 then
            if tmrIdx < TIMER_IDX_3 then s1 else hwTimerSet tmrIdx (next_capture tmrIdx s1) s1
          else
            let s2 = set_tmr tmrIdx ((tmr tmrIdx s1)\<lparr>expireInfo :=
                       (expireInfo (tmr tmrIdx s1))\<lparr>low := word_of_int t * TIMER_TICK_1US_GET C tmrIdx\<rparr>\<rparr>) s1
            in hwTimerSet tmrIdx (next_capture tmrIdx s2) s2
        else s
      else
        let e = expireInfo (tmr tmrIdx s);
            s1 = set_tmr tmrIdx ((tmr tmrIdx s)\<lparr>expireInfo := e\<lparr>high := high e - 1\<rparr>\<rparr>) s
        in if high e - 1 \<noteq> 0 then hwTimerSet tmrIdx TIMER_OVERFLOW_VALUE s1
           else let s2 = hwTimerSet tmrIdx (low e) s1
                in set_tmr tmrIdx ((tmr tmrIdx s2)\<lparr>tmr_status := TIMER_WTO\<rparr>) s2)"

definition hwTimerInfoReset :: "u8 \<Rightarrow> 'a hwt_state_scheme \<Rightarrow> 'a hwt_state_scheme" where
  "hwTimerInfoReset tmrIdx s = set_tmr tmrIdx tmr_zero s"

definition drv_hwTmr_init :: "u8 \<Rightarrow> u8 \<Rightarrow> 'a hwt_state_scheme \<Rightarrow> 'a hwt_state_scheme" where
  "drv_hwTmr_init tmrIdx md s =
     (if tmrIdx \<ge> TIMER_NUM then s else hwTimerInit tmrIdx md (hwTimerInfoReset tmrIdx s))"

definition drv_hwTmr_cancel :: "u8 \<Rightarrow> 'a hwt_state_scheme \<Rightarrow> 'a hwt_state_scheme" where
  "drv_hwTmr_cancel tmrIdx s =
     (if tmrIdx \<ge> TIMER_NUM then s
      else let (r, s1) = drv_disable_irq s
           in drv_restore_irq r (set_tmr tmrIdx tmr_zero (hwTimerStop tmrIdx s1)))"

definition drv_hwTmr_set ::
  "tmr_clk \<Rightarrow> (addr \<Rightarrow> addr \<Rightarrow> 'a hwt_state_scheme \<Rightarrow> int \<times> 'a hwt_state_scheme) \<Rightarrow> u8 \<Rightarrow> u32 \<Rightarrow> addr \<Rightarrow> addr \<Rightarrow>
   'a hwt_state_scheme \<Rightarrow> hw_timer_sts_t \<times> 'a hwt_state_scheme" where
  "drv_hwTmr_set C call tmrIdx t_us func arg s =
     (if tmrIdx \<ge> TIMER_NUM then (HW_TIMER_INVALID, s)
      else hwTmr_setAbs C call tmrIdx \<lparr>low = t_us * TIMER_TICK_1US_GET C tmrIdx, high = 0\<rparr> func arg s)"

definition drv_timer_irq0_handler where "drv_timer_irq0_handler C call s = drv_hwTmr_irq_process C call TIMER_IDX_0 s"
definition drv_timer_irq1_handler where "drv_timer_irq1_handler C call s = drv_hwTmr_irq_process C call TIMER_IDX_1 s"
definition drv_timer_irq3_handler where "drv_timer_irq3_handler C call s = drv_hwTmr_irq_process C call TIMER_IDX_3 s"

section \<open>Setting a timer\<close>

lemma clock_time_hwt [simp]:
  "timerInfo (snd (clock_time s)) = timerInfo s" "reg_irq_en (snd (clock_time s)) = reg_irq_en s"
  by (simp_all add: clock_time_def)

lemma idx_cases: "(idx :: u8) < 4 \<Longrightarrow> unat idx < 4"
  by (simp add: word_less_nat_alt)

lemma timerInfo_regs [simp]:
  "timerInfo (hwTimerSet idx t s) = timerInfo s" "timerInfo (hwTimerStart idx s) = timerInfo s"
  "timerInfo (hwTimerStop idx s) = timerInfo s" "timerInfo (hwTimerInit idx md s) = timerInfo s"
  "timerInfo (drv_restore_irq r s) = timerInfo s" "timerInfo (snd (drv_disable_irq s)) = timerInfo s"
  by (simp_all add: hwTimerSet_def hwTimerStart_def hwTimerStop_def hwTimerInit_def timer_set_cap_tick_def
      stimer_set_irq_capture_def tmr_call_def stimer_set_irq_mask_def stimer_clr_irq_mask_def timer_irq_enable_def
      timer_set_init_tick_def stimer_irq_enable_def drv_restore_irq_def drv_disable_irq_def case_prod_beta)

lemma tmr_set_tmr [simp]: "unat idx < length (timerInfo s) \<Longrightarrow> tmr idx (set_tmr idx t s) = t"
  by (simp add: tmr_def set_tmr_def)

lemma timerInfo_set_tmr [simp]: "timerInfo (set_tmr idx t s) = (timerInfo s)[unat idx := t]"
  by (simp add: set_tmr_def)

text \<open>
  The hardware has been programmed to interrupt after \<open>n\<close> ticks. Timers 0 to 2 count from zero to their capture
  register and are started. The system timer's capture is an absolute reading, counted from the reading
  \<open>now\<close>, of which the hardware ignores the low three bits, and its interrupt is unmasked.
\<close>

definition armed :: "u8 \<Rightarrow> u32 \<Rightarrow> u32 \<Rightarrow> 'a hwt_state_scheme \<Rightarrow> bool" where
  "armed idx n now s \<longleftrightarrow>
     (if idx < TIMER_IDX_3 then reg_tmr_capt s idx = n \<and> (\<exists>cs. tmr_calls s = cs @ [TimerStart idx])
      else reg_system_tick_irq_level s = (n + now) AND NOT 7 \<and> bit (reg_irq_mask s) 20)"

lemma armed_start: "armed idx n (ticks s 0) (hwTimerStart idx (hwTimerSet idx n s))"
  by (simp add: armed_def hwTimerStart_def hwTimerSet_def timer_set_cap_tick_def tmr_call_def stimer_set_irq_mask_def
      stimer_set_irq_capture_def clock_time_def bit_or_iff FLD_IRQ_SYSTEM_TIMER_def)

lemma reg_irq_en_regs [simp]:
  "reg_irq_en (hwTimerSet idx t s) = reg_irq_en s" "reg_irq_en (hwTimerStart idx s) = reg_irq_en s"
  "reg_irq_en (hwTimerStop idx s) = reg_irq_en s" "reg_irq_en (set_tmr idx x s) = reg_irq_en s"
  by (simp_all add: hwTimerSet_def hwTimerStart_def hwTimerStop_def timer_set_cap_tick_def stimer_set_irq_capture_def
      tmr_call_def stimer_set_irq_mask_def stimer_clr_irq_mask_def clock_time_def set_tmr_def)

lemma setAbs_armed:
  assumes "tmr_status (tmr idx s) = TIMER_IDLE" "unat idx < length (timerInfo s)"
    and "TIMER_SAFE_BOUNDARY_IN_US (TIMER_TICK_1US_GET C idx) \<le> n"
  shows "\<exists>s1. hwTmr_setAbs C call idx \<lparr>low = n, high = 0\<rparr> func arg s = (HW_TIMER_SUCC, s1) \<and>
           tmr idx s1 = \<lparr>expireInfo = \<lparr>low = n, high = 0\<rparr>, tmr_cb = func, tmr_arg = arg, tmr_status = TIMER_WTO\<rparr> \<and>
           (\<forall>j. j \<noteq> idx \<longrightarrow> tmr j s1 = tmr j s) \<and> armed idx n (ticks s 0) s1 \<and> reg_irq_en s1 = reg_irq_en s"
proof -
  let ?t = "\<lparr>expireInfo = \<lparr>low = n, high = 0\<rparr>, tmr_cb = func, tmr_arg = arg, tmr_status = TIMER_WTO\<rparr>"
  let ?s2 = "set_tmr idx ?t (snd (drv_disable_irq s))"
  let ?s4 = "hwTimerStart idx (hwTimerSet idx n ?s2)"
  let ?s1 = "drv_restore_irq (fst (drv_disable_irq s)) ?s4"
  have len: "unat idx < length (timerInfo (snd (drv_disable_irq s)))"
    using assms(2) by simp
  have "next_capture idx ?s2 = n"
    using len by (simp add: next_capture_def)
  then have "hwTmr_setAbs C call idx \<lparr>low = n, high = 0\<rparr> func arg s = (HW_TIMER_SUCC, ?s1)"
    using assms(1,3) by (simp add: hwTmr_setAbs_def case_prod_beta Let_def not_less [symmetric])
  moreover have "tmr idx ?s1 = ?t"
    using assms(2) by (simp add: tmr_def)
  moreover have "\<forall>j. j \<noteq> idx \<longrightarrow> tmr j ?s1 = tmr j s"
    by (simp add: tmr_def word_unat_eq_iff nth_list_update)
  moreover have "armed idx n (ticks s 0) ?s1"
  proof -
    have "ticks ?s2 0 = ticks s 0"
      by (simp add: set_tmr_def drv_disable_irq_def)
    then show ?thesis
      using armed_start [of idx n ?s2] by (simp add: armed_def drv_restore_irq_def)
  qed
  moreover have "reg_irq_en ?s1 = reg_irq_en s"
    by (simp add: drv_restore_irq_def drv_disable_irq_def)
  ultimately show ?thesis
    by blast
qed

lemma not_soon:
  assumes "10 \<le> unat t_us" "unat t_us * unat k < 2 ^ 32"
  shows "TIMER_SAFE_BOUNDARY_IN_US k \<le> t_us * (k :: u32)"
proof -
  have "unat (t_us * k) = unat t_us * unat k"
    using assms(2) by (simp add: unat_word_ariths)
  moreover have le: "10 * unat k \<le> unat t_us * unat k"
    using assms(1) by simp
  moreover have "unat (10 * k) = 10 * unat k"
    using less_le_trans [OF le_less_trans [OF le assms(2)] order_refl] by (simp add: unat_word_ariths)
  ultimately show ?thesis
    by (simp add: TIMER_SAFE_BOUNDARY_IN_US_def word_le_nat_alt)
qed

text \<open>What the interrupt does with the result of the callback.\<close>

definition after_irq :: "tmr_clk \<Rightarrow> u8 \<Rightarrow> int \<Rightarrow> hwTmr_info_t \<Rightarrow> hwTmr_info_t" where
  "after_irq C idx t x =
     (if t < 0 then tmr_zero else if t = 0 then x
      else x\<lparr>expireInfo := (expireInfo x)\<lparr>low := word_of_int t * TIMER_TICK_1US_GET C idx\<rparr>\<rparr>)"

lemma irq_process_tmr:
  assumes "tmr_status (tmr idx s) = TIMER_WTO" "tmr_cb (tmr idx s) \<noteq> NULL" "unat idx < length (timerInfo s2)"
    and "call (tmr_cb (tmr idx s)) (tmr_arg (tmr idx s)) s = (t, s2)"
  shows "timerInfo (drv_hwTmr_irq_process C call idx s) = (timerInfo s2)[unat idx := after_irq C idx t (tmr idx s2)]"
  using assms by (simp add: drv_hwTmr_irq_process_def after_irq_def Let_def) (simp add: tmr_def)

text \<open>
  The registers after the interrupt, given those the callback left and its result \<open>t\<close>: after a negative
  result the timer is stopped (the system timer's interrupt masked); after zero the timers 0 to 2 go on by
  themselves and the system timer is set again for its period \<open>n\<close>; after a positive result the capture is set
  for that many microseconds. Nothing else changes.
\<close>

definition timer_regs :: "'a hwt_state_scheme \<Rightarrow> (u8 \<Rightarrow> u32) \<times> timer_call list \<times> u32 \<times> u32" where
  "timer_regs s = (reg_tmr_capt s, tmr_calls s, reg_system_tick_irq_level s, reg_irq_mask s)"

definition regs_due ::
  "tmr_clk \<Rightarrow> u8 \<Rightarrow> int \<Rightarrow> u32 \<Rightarrow> 'a hwt_state_scheme \<Rightarrow> (u8 \<Rightarrow> u32) \<times> timer_call list \<times> u32 \<times> u32" where
  "regs_due C idx t n s =
     (let n' = (if t = 0 then n else word_of_int t * TIMER_TICK_1US_GET C idx) in
      if idx < TIMER_IDX_3 then
        (if t > 0 then (reg_tmr_capt s)(idx := n') else reg_tmr_capt s,
         if t < 0 then tmr_calls s @ [TimerStop idx] else tmr_calls s, reg_system_tick_irq_level s, reg_irq_mask s)
      else
        (reg_tmr_capt s, tmr_calls s,
         if t \<ge> 0 then (n' + ticks s 0) AND NOT 7 else reg_system_tick_irq_level s,
         if t < 0 then reg_irq_mask s AND NOT FLD_IRQ_SYSTEM_TIMER else reg_irq_mask s))"

lemma timer_regs_ops:
  "timer_regs (set_tmr idx x s) = timer_regs s"
  "timer_regs (hwTimerStop idx s) = regs_due C idx (- 1) n s"
  "\<not> idx < TIMER_IDX_3 \<Longrightarrow> timer_regs (hwTimerSet idx n s) = regs_due C idx 0 n s"
  "t > 0 \<Longrightarrow> timer_regs (hwTimerSet idx (word_of_int t * TIMER_TICK_1US_GET C idx) s) = regs_due C idx t n s"
  by (simp_all add: timer_regs_def set_tmr_def regs_due_def hwTimerStop_def hwTimerSet_def tmr_call_def stimer_clr_irq_mask_def
      timer_set_cap_tick_def clock_time_def stimer_set_irq_capture_def Let_def)

lemma regs_due_set_tmr [simp]: "regs_due C idx t n (set_tmr j x s) = regs_due C idx t n s"
  by (simp add: regs_due_def set_tmr_def)

lemma regs_due_negative: "t < 0 \<Longrightarrow> regs_due C idx t n s = regs_due C idx (- 1) m s"
  by (simp add: regs_due_def Let_def)

lemma irq_process_regs:
  assumes "tmr_status (tmr idx s) = TIMER_WTO" "tmr_cb (tmr idx s) \<noteq> NULL" "unat idx < length (timerInfo s2)"
    and "call (tmr_cb (tmr idx s)) (tmr_arg (tmr idx s)) s = (t, s2)" "expireInfo (tmr idx s2) = \<lparr>low = n, high = 0\<rparr>"
  shows "timer_regs (drv_hwTmr_irq_process C call idx s) = regs_due C idx t n s2"
proof -
  let ?p = "drv_hwTmr_irq_process C call idx s"
  consider "t < 0" | "t = 0" "idx < TIMER_IDX_3" | "t = 0" "\<not> idx < TIMER_IDX_3" | "t > 0" by linarith
  then show ?thesis
  proof cases
    case 1
    then have "?p = set_tmr idx tmr_zero (hwTimerStop idx s2)"
      using assms(1,2,4) by (simp add: drv_hwTmr_irq_process_def)
    then show ?thesis
      using 1 timer_regs_ops(2) [of idx s2 C n] regs_due_negative [of t C idx n s2 n] by (simp add: timer_regs_ops(1))
  next
    case 2
    then show ?thesis
      using assms(1,2,4) by (simp add: drv_hwTmr_irq_process_def regs_due_def timer_regs_def)
  next
    case 3
    then have "?p = hwTimerSet idx n s2"
      using assms by (simp add: drv_hwTmr_irq_process_def next_capture_def)
    then show ?thesis
      using 3 timer_regs_ops(3) by simp
  next
    case 4
    let ?n = "word_of_int t * TIMER_TICK_1US_GET C idx"
    have "?p = hwTimerSet idx ?n (set_tmr idx ((tmr idx s2)\<lparr>expireInfo := \<lparr>low = ?n, high = 0\<rparr>\<rparr>) s2)"
      using 4 assms by (simp add: drv_hwTmr_irq_process_def next_capture_def Let_def)
    then show ?thesis
      by (simp only: timer_regs_ops(4) [OF 4, of idx C _ n] regs_due_set_tmr)
  qed
qed

text \<open>The system timer's capture is at most seven ticks before the reading asked for.\<close>

lemma capture_early: "x - (x AND NOT 7) \<le> (7 :: u32)"
proof -
  have "x - (x AND NOT 7) = x AND NOT (x AND NOT 7)"
    by (rule disjunctive_diff_eq_and_not) (simp flip: and.assoc)
  also have "\<dots> = x AND 7"
    by (rule bit_word_eqI) (auto simp: bit_simps)
  finally show ?thesis by (simp add: word_and_le1)
qed

text \<open>
  C19. A hardware timer fires its callback when it is due and obeys the result. Setting an idle timer to at
  least ten microseconds, with a product of time and clock that fits in 32 bits, arms the hardware for that
  many ticks from now (exactly, on timers 0 to 2; on the system timer, whose capture register drops the low
  three bits, for up to seven ticks less), leaves the other timers and the interrupt flag as they were, and
  refuses to be set again. Its interrupt calls the callback with its argument; for a callback that does not
  itself change the timers, the timer is then idle and its hardware stopped after a negative result, keeps
  its period after zero (the system timer being armed again for it, the others going on by themselves),
  and takes a positive result as the new period, for which the hardware is armed; the other timers and
  registers are as the callback left them.
\<close>

theorem drv_hwTmr_set_fires:
  assumes "unat idx < 4" "length (timerInfo s) = 4" "tmr_status (tmr idx s) = TIMER_IDLE" "func \<noteq> NULL"
    and "10 \<le> unat t_us" "unat t_us * unat (TIMER_TICK_1US_GET C idx) < 2 ^ 32"
    and "\<And>x. timerInfo (snd (call func arg x)) = timerInfo x"
  shows "\<exists>s1 t s2. drv_hwTmr_set C call idx t_us func arg s = (HW_TIMER_SUCC, s1) \<and>
           armed idx (t_us * TIMER_TICK_1US_GET C idx) (ticks s 0) s1 \<and>
           (idx = TIMER_IDX_3 \<longrightarrow>
             t_us * TIMER_TICK_1US_GET C idx + ticks s 0 - reg_system_tick_irq_level s1 \<le> 7) \<and>
           (\<forall>j. j \<noteq> idx \<longrightarrow> tmr j s1 = tmr j s) \<and> reg_irq_en s1 = reg_irq_en s \<and>
           drv_hwTmr_set C call idx t' f' a' s1 = (HW_TIMER_IS_RUNNING, s1) \<and>
           call func arg s1 = (t, s2) \<and>
           timerInfo (drv_hwTmr_irq_process C call idx s1) = (timerInfo s2)[unat idx := after_irq C idx t (tmr idx s2)] \<and>
           timer_regs (drv_hwTmr_irq_process C call idx s1) = regs_due C idx t (t_us * TIMER_TICK_1US_GET C idx) s2"
proof -
  let ?n = "t_us * TIMER_TICK_1US_GET C idx"
  have i: "\<not> idx \<ge> TIMER_NUM"
    using assms(1) by (simp add: TIMER_NUM_def word_le_nat_alt)
  obtain s1 where s1: "hwTmr_setAbs C call idx \<lparr>low = ?n, high = 0\<rparr> func arg s = (HW_TIMER_SUCC, s1)"
      and t: "tmr idx s1 = \<lparr>expireInfo = \<lparr>low = ?n, high = 0\<rparr>, tmr_cb = func, tmr_arg = arg, tmr_status = TIMER_WTO\<rparr>"
      and o: "\<forall>j. j \<noteq> idx \<longrightarrow> tmr j s1 = tmr j s" "armed idx ?n (ticks s 0) s1" "reg_irq_en s1 = reg_irq_en s"
    using setAbs_armed [OF assms(3) _ not_soon [OF assms(5,6)], of call func arg] assms(1,2) by auto
  obtain r s2 where c: "call func arg s1 = (r, s2)" by fastforce
  have ti: "timerInfo s2 = timerInfo s1" "tmr idx s2 = tmr idx s1"
    using assms(7) [of s1] c by (simp_all add: tmr_def)
  have "length (timerInfo s1) = 4"
    using s1 assms(2,3) not_soon [OF assms(5,6)]
    by (auto simp: hwTmr_setAbs_def case_prod_beta Let_def not_less [symmetric] split: if_splits)
  then have len: "unat idx < length (timerInfo s2)" using ti assms(1) by simp
  have "timerInfo (drv_hwTmr_irq_process C call idx s1) = (timerInfo s2)[unat idx := after_irq C idx r (tmr idx s2)]"
    using t assms(4) c len by (intro irq_process_tmr) simp_all
  moreover have "timer_regs (drv_hwTmr_irq_process C call idx s1) = regs_due C idx r ?n s2"
    using t assms(4) c len ti by (intro irq_process_regs) simp_all
  moreover have "drv_hwTmr_set C call idx t' f' a' s1 = (HW_TIMER_IS_RUNNING, s1)"
    using i t by (simp add: drv_hwTmr_set_def hwTmr_setAbs_def timer_consts)
  moreover have "idx = TIMER_IDX_3 \<longrightarrow> ?n + ticks s 0 - reg_system_tick_irq_level s1 \<le> 7"
    using o(2) capture_early by (auto simp: armed_def)
  ultimately show ?thesis
    using s1 o i c by (simp add: drv_hwTmr_set_def)
qed

definition demo_tmr :: hwt_state where
  "demo_tmr = phy_state.extend demo_phy \<lparr>timerInfo = replicate 4 tmr_zero, reg_tmr_tick = (\<lambda>_. 0), reg_tmr_capt = (\<lambda>_. 0),
     reg_system_tick_irq_level = 0, reg_system_irq_mask = 0, tmr_calls = []\<rparr>"

definition demo_clk :: tmr_clk where
  "demo_clk = \<lparr>H_TIMER_CLOCK_1US = 48, S_TIMER_CLOCK_1US = 16\<rparr>"

theorem drv_hwTmr_set_fires_witness:
  "\<exists>s1. drv_hwTmr_set demo_clk (\<lambda>_ _ x. (- 1, x)) 0 1000 0x1000 7 demo_tmr = (HW_TIMER_SUCC, s1) \<and>
     reg_tmr_capt s1 0 = 48000 \<and> tmr 0 (drv_hwTmr_irq_process demo_clk (\<lambda>_ _ x. (- 1, x)) 0 s1) = tmr_zero \<and>
     tmr_calls (drv_hwTmr_irq_process demo_clk (\<lambda>_ _ x. (- 1, x)) 0 s1) = tmr_calls s1 @ [TimerStop 0]"
proof -
  have d: "length (timerInfo demo_tmr) = 4" "tmr_status (tmr 0 demo_tmr) = TIMER_IDLE" "TIMER_TICK_1US_GET demo_clk 0 = 48"
    by (simp_all add: demo_tmr_def tmr_def tmr_zero_def timer_consts TIMER_TICK_1US_GET_def demo_clk_def
        phy_state.defs hwt_state.defs)
  then obtain s1 t s2 where
      s1: "drv_hwTmr_set demo_clk (\<lambda>_ _ x. (- 1, x)) 0 1000 0x1000 7 demo_tmr = (HW_TIMER_SUCC, s1)"
      and a: "armed 0 48000 (ticks demo_tmr 0) s1" and c: "((- 1 :: int), s1) = (t, s2)"
      and p: "timerInfo (drv_hwTmr_irq_process demo_clk (\<lambda>_ _ x. (- 1, x)) 0 s1) = (timerInfo s2)[0 := after_irq demo_clk 0 t (tmr 0 s2)]"
        "timer_regs (drv_hwTmr_irq_process demo_clk (\<lambda>_ _ x. (- 1, x)) 0 s1) = regs_due demo_clk 0 t 48000 s2"
    using drv_hwTmr_set_fires [of 0 demo_tmr "0x1000" 1000 demo_clk "\<lambda>_ _ x. (- 1, x)" 7 0 0 0] by auto
  have "timerInfo s1 \<noteq> []"
    using s1 d by (auto simp: drv_hwTmr_set_def hwTmr_setAbs_def timer_consts case_prod_beta Let_def split: if_splits)
  then show ?thesis
    using s1 a p c by (auto simp: armed_def timer_consts after_irq_def tmr_def timer_regs_def regs_due_def)
qed

text \<open>
  C36. A long timeout is not a long wait. The driver multiplies the time by the clock in 32 bits: on the system
  timer, at its 16 ticks per microsecond, a time whose remainder modulo 2^28 microseconds (268 s) is below
  ten is taken for one that has passed, and the callback runs at once, before the function returns.\<close>

theorem drv_hwTmr_set_wraps:
  assumes "S_TIMER_CLOCK_1US C = 16" "length (timerInfo s) = 4" "tmr_status (tmr TIMER_IDX_3 s) = TIMER_IDLE" "func \<noteq> NULL"
    and "unat t_us mod 2 ^ 28 < 10"
  shows "\<exists>s1. drv_hwTmr_set C call TIMER_IDX_3 t_us func arg s = (HW_TIMER_SUCC, snd (call func arg s1)) \<and>
           tmr TIMER_IDX_3 s1 = tmr_zero \<and> reg_irq_en s1 = reg_irq_en s"
proof -
  have "unat (t_us * 16) = unat t_us * 16 mod 2 ^ 32"
    by (simp add: unat_word_ariths)
  also have "\<dots> = (unat t_us mod 2 ^ 28) * 16"
    using mult_mod_left [of "unat t_us" "2 ^ 28" 16] by simp
  finally have "t_us * 16 < TIMER_SAFE_BOUNDARY_IN_US 16"
    using assms(5) by (simp add: TIMER_SAFE_BOUNDARY_IN_US_def word_less_nat_alt)
  then show ?thesis
    using assms by (auto simp: drv_hwTmr_set_def hwTmr_setAbs_def timer_consts TIMER_TICK_1US_GET_def case_prod_beta Let_def
        tmr_def drv_restore_irq_def drv_disable_irq_def set_tmr_def)
qed

theorem drv_hwTmr_set_wraps_witness:
  "\<exists>s1. drv_hwTmr_set demo_clk (\<lambda>_ _ x. (0, x)) TIMER_IDX_3 0x10000000 0x1000 0 demo_tmr = (HW_TIMER_SUCC, s1) \<and>
     tmr TIMER_IDX_3 s1 = tmr_zero"
  using drv_hwTmr_set_wraps [of demo_clk demo_tmr "0x1000" "0x10000000" "\<lambda>_ _ x. (0, x)" 0]
  by (auto simp: demo_tmr_def tmr_def tmr_zero_def timer_consts demo_clk_def phy_state.defs hwt_state.defs)

section \<open>The timers over any sequence of operations\<close>

definition hwt_inv :: "'a hwt_state_scheme \<Rightarrow> bool" where
  "hwt_inv s \<longleftrightarrow> length (timerInfo s) = 4 \<and>
     (\<forall>t \<in> set (timerInfo s). tmr_status t \<in> {TIMER_IDLE, TIMER_WTO} \<and> high (expireInfo t) = 0)"

inductive hwt_run ::
  "tmr_clk \<Rightarrow> (addr \<Rightarrow> addr \<Rightarrow> 'a hwt_state_scheme \<Rightarrow> int \<times> 'a hwt_state_scheme) \<Rightarrow> 'a hwt_state_scheme \<Rightarrow> bool"
  for C call where
  start: "timerInfo s = replicate 4 tmr_zero \<Longrightarrow> hwt_run C call s"
| init: "hwt_run C call s \<Longrightarrow> hwt_run C call (drv_hwTmr_init idx md s)"
| set: "hwt_run C call s \<Longrightarrow> hwt_run C call (snd (drv_hwTmr_set C call idx t_us func arg s))"
| cancel: "hwt_run C call s \<Longrightarrow> hwt_run C call (drv_hwTmr_cancel idx s)"
| irq: "hwt_run C call s \<Longrightarrow> unat idx < 4 \<Longrightarrow> tmr_status (tmr idx s) \<noteq> TIMER_IDLE \<Longrightarrow>
      hwt_run C call (drv_hwTmr_irq_process C call idx s)"

lemma hwt_inv_same: "timerInfo s' = timerInfo s \<Longrightarrow> hwt_inv s' = hwt_inv s"
  by (simp add: hwt_inv_def)

lemma hwt_inv_update:
  assumes "hwt_inv s" "timerInfo s' = (timerInfo s)[unat idx := t]" "tmr_status t \<in> {TIMER_IDLE, TIMER_WTO}" "high (expireInfo t) = 0"
  shows "hwt_inv s'"
  using assms set_update_subset_insert [of "timerInfo s" "unat idx" t] by (auto simp: hwt_inv_def)

lemma tmr_zero_sel: "tmr_status tmr_zero = TIMER_IDLE" "high (expireInfo tmr_zero) = 0"
  by (simp_all add: tmr_zero_def TIMER_IDLE_def)

lemma hwt_inv_zero: "hwt_inv s \<Longrightarrow> timerInfo s' = (timerInfo s)[unat idx := tmr_zero] \<Longrightarrow> hwt_inv s'"
  using hwt_inv_update [of s s' idx tmr_zero] by (simp add: tmr_zero_sel)

lemma hwt_inv_tmr: "hwt_inv s \<Longrightarrow> unat idx < 4 \<Longrightarrow> tmr_status (tmr idx s) \<in> {TIMER_IDLE, TIMER_WTO} \<and> high (expireInfo (tmr idx s)) = 0"
  by (simp add: hwt_inv_def tmr_def)

lemma setAbs_inv:
  assumes "hwt_inv s" "\<And>f a x. hwt_inv x \<Longrightarrow> hwt_inv (snd (call f a x))"
  shows "hwt_inv (snd (hwTmr_setAbs C call idx \<lparr>low = n, high = 0\<rparr> func arg s))"
proof -
  let ?t = "\<lparr>expireInfo = \<lparr>low = n, high = 0\<rparr>, tmr_cb = func, tmr_arg = arg, tmr_status = TIMER_WTO\<rparr>"
  have 1: "hwt_inv (set_tmr idx ?t (snd (drv_disable_irq s)))"
    using assms(1) by (rule hwt_inv_update [where idx = idx and t = ?t]) simp_all
  have 2: "hwt_inv (set_tmr idx tmr_zero (drv_restore_irq r (set_tmr idx ?t (snd (drv_disable_irq s)))))" for r
    using 1 by (rule hwt_inv_zero [where idx = idx]) simp
  have "hwt_inv (drv_restore_irq r (hwTimerStart idx (hwTimerSet idx k (set_tmr idx ?t (snd (drv_disable_irq s))))))" for r k
    by (rule iffD2 [OF hwt_inv_same 1]) simp
  then show ?thesis
    using 2 assms by (cases "func = NULL") (simp_all add: hwTmr_setAbs_def case_prod_beta Let_def)
qed

lemma irq_process_inv:
  assumes "hwt_inv s" "\<And>f a x. hwt_inv x \<Longrightarrow> hwt_inv (snd (call f a x))" "unat idx < 4" "tmr_status (tmr idx s) \<noteq> TIMER_IDLE"
  shows "hwt_inv (drv_hwTmr_irq_process C call idx s)"
proof -
  have w: "tmr_status (tmr idx s) = TIMER_WTO"
    using hwt_inv_tmr [OF assms(1,3)] assms(4) by simp
  let ?s1 = "snd (call (tmr_cb (tmr idx s)) (tmr_arg (tmr idx s)) s)"
  have 1: "hwt_inv ?s1"
    by (rule assms(2) [OF assms(1)])
  have 2: "hwt_inv (set_tmr idx tmr_zero (hwTimerStop idx ?s1))"
    using 1 by (rule hwt_inv_zero [where idx = idx]) simp
  have 3: "hwt_inv (hwTimerSet idx k (set_tmr idx ((tmr idx ?s1)\<lparr>expireInfo := (expireInfo (tmr idx ?s1))\<lparr>low := v\<rparr>\<rparr>) ?s1))" for k v
    using 1 by (rule hwt_inv_update [where idx = idx and t = "(tmr idx ?s1)\<lparr>expireInfo := (expireInfo (tmr idx ?s1))\<lparr>low := v\<rparr>\<rparr>"])
      (use hwt_inv_tmr [OF 1 assms(3)] in simp_all)
  have 4: "hwt_inv (hwTimerSet idx k ?s1)" for k
    by (rule iffD2 [OF hwt_inv_same 1]) simp
  show ?thesis
    using w assms(1) 1 2 3 4 by (simp add: drv_hwTmr_irq_process_def case_prod_beta Let_def)
qed

text \<open>
  C20. The overflow state is never entered. Whatever sequence of initialising, setting, cancelling and
  interrupts of running timers happens, with callbacks that keep to it, every timer is idle or waiting for
  its time-out and the upper half of its expiry is zero: the code that counts overflows of a 64-bit expiry is
  unreachable from the interface of the driver.\<close>

theorem hwt_run_inv:
  assumes "hwt_run C call s" "\<And>f a x. hwt_inv x \<Longrightarrow> hwt_inv (snd (call f a x))"
  shows "hwt_inv s"
  using assms(1)
proof (induction rule: hwt_run.induct)
  case (start s)
  then show ?case by (simp add: hwt_inv_def tmr_zero_def timer_consts)
next
  case (init s idx md)
  then show ?case
    by (auto simp: drv_hwTmr_init_def hwTimerInfoReset_def intro: hwt_inv_zero [where idx = idx])
next
  case (set s idx t_us func arg)
  then show ?case
    using setAbs_inv [of s call] assms(2) by (simp add: drv_hwTmr_set_def)
next
  case (cancel s idx)
  then show ?case
    by (auto simp: drv_hwTmr_cancel_def case_prod_beta Let_def intro: hwt_inv_zero [where idx = idx])
next
  case (irq s idx)
  then show ?case
    using irq_process_inv [of s call idx C] assms(2) by simp
qed

theorem hwt_run_inv_witness:
  "hwt_inv (snd (drv_hwTmr_set demo_clk (\<lambda>_ _ x. (0, x)) 1 5000 0x1000 0 (drv_hwTmr_init 1 0 demo_tmr)))"
proof -
  have "timerInfo demo_tmr = replicate 4 tmr_zero"
    by (simp add: demo_tmr_def phy_state.defs hwt_state.defs)
  then have "hwt_run demo_clk (\<lambda>_ _ x. (0, x)) (snd (drv_hwTmr_set demo_clk (\<lambda>_ _ x. (0, x)) 1 5000 0x1000 0 (drv_hwTmr_init 1 0 demo_tmr)))"
    by (intro hwt_run.set hwt_run.init hwt_run.start)
  then show ?thesis
    by (rule hwt_run_inv) simp
qed

end
