(* ===== verification/Drv_Gpio.thy ===== *)
theory Drv_Gpio
  imports Ev_Buffer "HOL-Library.Monad_Syntax"
begin

text \<open>
  The GPIO driver, \<^verbatim>\<open>proj/drivers/drv_gpio.c\<close> for the 8278: the registration of interrupt callbacks, kept in an
  intrusive list of nodes from the event buffers, the dispatch of the three GPIO interrupts, and the
  wrappers of the chip's GPIO functions, which are recorded. The build packs structures and makes
  enumerations one byte wide, so a node has 14 bytes: the link, the callback, the pin, the mode at 12 and
  the polarity at 13. Each field is a cell of the memory, by its address.
\<close>

section \<open>State\<close>

datatype gpio_call =
    GpioSetFunc u32 | GpioSetOutputEn u32 u32 | GpioSetInputEn u32 u32 | GpioSetupUpDown u32 u8
  | GpioWritePin u32 u32 | GpioSetInterrupt u32 u32 | GpioSetInterruptRisc0 u32 u32 | GpioSetInterruptRisc1 u32 u32
  | GpioEnInterrupt u32 u32 | GpioEnInterruptRisc0 u32 u32 | GpioEnInterruptRisc1 u32 u32

record gpio_state = ev_state +
  gpio_calls :: "gpio_call list"

definition GPIO_IRQ_MODE :: u32 where "GPIO_IRQ_MODE = 1"
definition GPIO_IRQ_RISC0_MODE :: u32 where "GPIO_IRQ_RISC0_MODE = 2"
definition GPIO_IRQ_RISC1_MODE :: u32 where "GPIO_IRQ_RISC1_MODE = 3"
definition GPIO_IRQ_HANDLER_Q_NUM :: int where "GPIO_IRQ_HANDLER_Q_NUM = 3"

record gpio_conf =
  gpio_irq_callback :: addr
  gpio_pin :: u32
  gpio_mode :: u32
  polarity :: u32

definition node_conf :: "wmem \<Rightarrow> addr \<Rightarrow> gpio_conf" where
  "node_conf m p = \<lparr>gpio_irq_callback = m (p + 4), gpio_pin = m (p + 8), gpio_mode = m (p + 12), polarity = m (p + 13)\<rparr>"

definition gpio_call :: "gpio_call \<Rightarrow> 'a gpio_state_scheme \<Rightarrow> 'a gpio_state_scheme" where
  "gpio_call c s = s\<lparr>gpio_calls := gpio_calls s @ [c]\<rparr>"

section \<open>The chip's functions\<close>

definition drv_gpio_func_set :: "u32 \<Rightarrow> 'a gpio_state_scheme \<Rightarrow> 'a gpio_state_scheme" where
  "drv_gpio_func_set pin = gpio_call (GpioSetFunc pin)"

definition drv_gpio_output_en :: "u32 \<Rightarrow> u32 \<Rightarrow> 'a gpio_state_scheme \<Rightarrow> 'a gpio_state_scheme" where
  "drv_gpio_output_en pin en = gpio_call (GpioSetOutputEn pin en)"

definition drv_gpio_input_en :: "u32 \<Rightarrow> u32 \<Rightarrow> 'a gpio_state_scheme \<Rightarrow> 'a gpio_state_scheme" where
  "drv_gpio_input_en pin en = gpio_call (GpioSetInputEn pin en)"

definition drv_gpio_up_down_resistor :: "u32 \<Rightarrow> u8 \<Rightarrow> 'a gpio_state_scheme \<Rightarrow> 'a gpio_state_scheme" where
  "drv_gpio_up_down_resistor pin res = gpio_call (GpioSetupUpDown pin res)"

definition drv_gpio_write :: "u32 \<Rightarrow> u32 \<Rightarrow> 'a gpio_state_scheme \<Rightarrow> 'a gpio_state_scheme" where
  "drv_gpio_write pin v = gpio_call (GpioWritePin pin v)"

definition drv_gpio_irq_set :: "u32 \<Rightarrow> u32 \<Rightarrow> 'a gpio_state_scheme \<Rightarrow> 'a gpio_state_scheme" where
  "drv_gpio_irq_set pin pol = gpio_call (GpioSetInterrupt pin pol)"

definition drv_gpio_irq_risc0_set :: "u32 \<Rightarrow> u32 \<Rightarrow> 'a gpio_state_scheme \<Rightarrow> 'a gpio_state_scheme" where
  "drv_gpio_irq_risc0_set pin pol = gpio_call (GpioSetInterruptRisc0 pin pol)"

definition drv_gpio_irq_risc1_set :: "u32 \<Rightarrow> u32 \<Rightarrow> 'a gpio_state_scheme \<Rightarrow> 'a gpio_state_scheme" where
  "drv_gpio_irq_risc1_set pin pol = gpio_call (GpioSetInterruptRisc1 pin pol)"

definition drv_gpio_irq_en :: "u32 \<Rightarrow> 'a gpio_state_scheme \<Rightarrow> 'a gpio_state_scheme" where
  "drv_gpio_irq_en pin = gpio_call (GpioEnInterrupt pin 1)"

definition drv_gpio_irq_risc0_en :: "u32 \<Rightarrow> 'a gpio_state_scheme \<Rightarrow> 'a gpio_state_scheme" where
  "drv_gpio_irq_risc0_en pin = gpio_call (GpioEnInterruptRisc0 pin 1)"

definition drv_gpio_irq_risc1_en :: "u32 \<Rightarrow> 'a gpio_state_scheme \<Rightarrow> 'a gpio_state_scheme" where
  "drv_gpio_irq_risc1_en pin = gpio_call (GpioEnInterruptRisc1 pin 1)"

definition drv_gpio_irq_dis :: "u32 \<Rightarrow> 'a gpio_state_scheme \<Rightarrow> 'a gpio_state_scheme" where
  "drv_gpio_irq_dis pin = gpio_call (GpioEnInterrupt pin 0)"

definition drv_gpio_irq_risc0_dis :: "u32 \<Rightarrow> 'a gpio_state_scheme \<Rightarrow> 'a gpio_state_scheme" where
  "drv_gpio_irq_risc0_dis pin = gpio_call (GpioEnInterruptRisc0 pin 0)"

definition drv_gpio_irq_risc1_dis :: "u32 \<Rightarrow> 'a gpio_state_scheme \<Rightarrow> 'a gpio_state_scheme" where
  "drv_gpio_irq_risc1_dis pin = gpio_call (GpioEnInterruptRisc1 pin 0)"

section \<open>Registration and dispatch\<close>

text \<open>\<open>Q\<close> is the address of the list handle \<^verbatim>\<open>gpioIrqHandlerQ\<close>.\<close>

partial_function (option) config_loop :: "u32 \<Rightarrow> u32 \<Rightarrow> u32 \<Rightarrow> addr \<Rightarrow> addr \<Rightarrow> wmem \<Rightarrow> (bool \<times> wmem) option" where
  "config_loop md pin pol cbk pList m =
     (if pList \<noteq> NULL then
        if m (pList + 12) = md \<and> m (pList + 8) = pin then
          let m1 = (if m (pList + 13) \<noteq> pol then m(pList + 13 := pol) else m);
              m2 = (if m1 (pList + 4) \<noteq> cbk then m1(pList + 4 := cbk) else m1)
          in Some (True, m2)
        else config_loop md pin pol cbk (m pList) m
      else Some (False, m))"

definition irq_set :: "u32 \<Rightarrow> u32 \<Rightarrow> u32 \<Rightarrow> 'a gpio_state_scheme \<Rightarrow> 'a gpio_state_scheme" where
  "irq_set md pin pol s =
     (if md = GPIO_IRQ_MODE then drv_gpio_irq_set pin pol s
      else if md = GPIO_IRQ_RISC0_MODE then drv_gpio_irq_risc0_set pin pol s
      else if md = GPIO_IRQ_RISC1_MODE then drv_gpio_irq_risc1_set pin pol s
      else s)"

definition new_node :: "u32 \<Rightarrow> u32 \<Rightarrow> u32 \<Rightarrow> addr \<Rightarrow> addr \<Rightarrow> wmem \<Rightarrow> wmem" where
  "new_node md pin pol cbk p m =
     (m(p := 0, p + 4 := 0, p + 8 := 0, p + 12 := 0, p + 13 := 0))
       (p + 12 := md, p + 8 := pin, p + 13 := pol, p + 4 := cbk)"

definition drv_gpio_irq_config ::
  "addr \<Rightarrow> u32 \<Rightarrow> u32 \<Rightarrow> u32 \<Rightarrow> addr \<Rightarrow> 'a gpio_state_scheme \<Rightarrow> (int \<times> 'a gpio_state_scheme) option" where
  "drv_gpio_irq_config Q md pin pol cbk s =
     do {
       n \<leftarrow> listLength Q (mem s);
       (searched, m) \<leftarrow> (if n \<noteq> 0 then config_loop md pin pol cbk (listHead Q (mem s)) (mem s) else Some (False, mem s));
       let s1 = s\<lparr>mem := m\<rparr>;
       if \<not> searched then do {
         n1 \<leftarrow> listLength Q (mem s1);
         if n1 \<ge> GPIO_IRQ_HANDLER_Q_NUM then Some (- 1, s1)
         else
           let (p, s2) = ev_buf_allocate 14 s1 in
           if p = NULL then Some (- 1, s2)
           else do {
             m3 \<leftarrow> listAdd Q p (new_node md pin pol cbk p (mem s2));
             Some (0, irq_set md pin pol (s2\<lparr>mem := m3\<rparr>))
           }
       } else Some (0, irq_set md pin pol s1)
     }"

partial_function (option) irq_process_loop ::
  "(addr \<Rightarrow> 'a gpio_state_scheme \<Rightarrow> 'a gpio_state_scheme) \<Rightarrow> u32 \<Rightarrow> addr \<Rightarrow> 'a gpio_state_scheme \<Rightarrow> 'a gpio_state_scheme option" where
  "irq_process_loop call md pList s =
     (if pList \<noteq> NULL then
        if mem s (pList + 12) = md \<and> mem s (pList + 4) \<noteq> NULL then Some (call (mem s (pList + 4)) s)
        else irq_process_loop call md (mem s pList) s
      else Some s)"

definition drv_gpio_irq_process ::
  "addr \<Rightarrow> (addr \<Rightarrow> 'a gpio_state_scheme \<Rightarrow> 'a gpio_state_scheme) \<Rightarrow> u32 \<Rightarrow> 'a gpio_state_scheme \<Rightarrow> 'a gpio_state_scheme option" where
  "drv_gpio_irq_process Q call md s =
     do {
       n \<leftarrow> listLength Q (mem s);
       if n \<noteq> 0 then irq_process_loop call md (listHead Q (mem s)) s else Some s
     }"

definition drv_gpio_irq_handler where
  "drv_gpio_irq_handler Q call s = drv_gpio_irq_process Q call GPIO_IRQ_MODE s"

definition drv_gpio_irq_risc0_handler where
  "drv_gpio_irq_risc0_handler Q call s = drv_gpio_irq_process Q call GPIO_IRQ_RISC0_MODE s"

definition drv_gpio_irq_risc1_handler where
  "drv_gpio_irq_risc1_handler Q call s = drv_gpio_irq_process Q call GPIO_IRQ_RISC1_MODE s"

section \<open>The words of a node\<close>

lemma payload_word:
  assumes "layout_ok L" "k < 4" "b \<in> set (blocks L k)" "i < grp_size k"
  shows "unat (b + of_nat i) = unat b + i" "unat b + i \<in> region L k"
proof -
  obtain n where n: "n < grp_num k" "unat b = unat (pool_mem L ! k) + n * grp_size k"
    using block_region [OF assms(1-3)] by blast
  have "n * grp_size k + grp_size k \<le> grp_size k * grp_num k"
    using n(1) by (metis Suc_leI add.commute mult.commute mult_Suc mult_le_mono1)
  then show r: "unat b + i \<in> region L k"
    using n(2) assms(4) by (simp add: region_def)
  then have "unat b + i < 2 ^ 32"
    using layout_okD(2) [OF assms(1,2,2)] by (simp add: region_def)
  then show "unat (b + of_nat i) = unat b + i"
    by (simp add: unat_word_ariths unat_of_nat)
qed

lemma payload_inj:
  assumes "layout_ok L" "j < 4" "k < 4" "b \<in> set (blocks L j)" "c \<in> set (blocks L k)" "i < grp_size j" "n < grp_size k"
    and "b + of_nat i = c + of_nat n"
  shows "b = c \<and> i = n"
proof -
  have u: "unat b + i = unat c + n"
    using payload_word(1) [OF assms(1,2,4,6)] payload_word(1) [OF assms(1,3,5,7)] assms(8) by simp
  have jk: "j = k"
    using layout_okD(5) [OF assms(1-3)] payload_word(2) [OF assms(1,2,4,6)] payload_word(2) [OF assms(1,3,5,7)] u by auto
  obtain x y where "unat b = unat (pool_mem L ! k) + x * grp_size k" "unat c = unat (pool_mem L ! k) + y * grp_size k"
    using block_region [OF assms(1,2,4)] block_region [OF assms(1,3,5)] jk by blast
  moreover from this have e: "x * grp_size k + i = y * grp_size k + n"
    using u by simp
  moreover have "(x * grp_size k + i) mod grp_size k = i" "(y * grp_size k + n) mod grp_size k = n"
    using assms(6,7) jk by simp_all
  ultimately have "i = n" "unat b = unat c"
    by simp_all
  then show ?thesis
    by (simp add: word_unat_eq_iff)
qed

definition node_ok :: "ev_layout \<Rightarrow> (nat \<Rightarrow> addr list) \<Rightarrow> addr \<Rightarrow> bool" where
  "node_ok L fr n \<longleftrightarrow> (\<exists>k<4. \<exists>b \<in> set (blocks L k) - set (fr k). n = b + 8 \<and> 22 \<le> grp_size k)"

definition node_words :: "addr \<Rightarrow> addr set" where
  "node_words n = {n, n + 4, n + 8, n + 12, n + 13}"

lemma node_wordE:
  assumes "w \<in> node_words (b + 8)"
  obtains i where "w = b + of_nat i" "8 \<le> i" "i < 22"
proof -
  have "w = b + of_nat 8 \<or> w = b + of_nat 12 \<or> w = b + of_nat 16 \<or> w = b + of_nat 20 \<or> w = b + of_nat 21"
    using assms by (auto simp: node_words_def add.assoc)
  then show thesis
    by (elim disjE) (rule that, assumption, simp, simp)+
qed

lemma node_sep:
  assumes "layout_ok L" "node_ok L fr n" "node_ok L fr' p" "w \<in> node_words n" "w \<in> node_words p"
  shows "n = p"
proof -
  obtain j b where b: "j < 4" "b \<in> set (blocks L j)" "n = b + 8" "22 \<le> grp_size j"
    using assms(2) by (auto simp: node_ok_def)
  obtain k c where c: "k < 4" "c \<in> set (blocks L k)" "p = c + 8" "22 \<le> grp_size k"
    using assms(3) by (auto simp: node_ok_def)
  obtain i where "w = b + of_nat i" "i < 22"
    using assms(4) b(3) by (auto elim: node_wordE)
  moreover obtain i' where "w = c + of_nat i'" "i' < 22"
    using assms(5) c(3) by (auto elim: node_wordE)
  ultimately show ?thesis
    using payload_inj [OF assms(1) b(1) c(1) b(2) c(2), of i i'] b(3,4) c(3,4) by auto
qed

lemma node_header_sep:
  assumes "layout_ok L" "node_ok L fr n" "w \<in> node_words n" "k < 4"
  shows "w \<noteq> pool_var L ! k" "c \<in> set (blocks L k) \<Longrightarrow> w \<noteq> c \<and> w \<noteq> c + 4"
proof -
  obtain j b where b: "j < 4" "b \<in> set (blocks L j)" "n = b + 8" "22 \<le> grp_size j"
    using assms(2) by (auto simp: node_ok_def)
  obtain i where i: "w = b + of_nat i" "8 \<le> i" "i < 22"
    using assms(3) b(3) by (auto elim: node_wordE)
  have "unat w \<in> region L j"
    using payload_word [OF assms(1) b(1,2), of i] i b(4) by simp
  then show "w \<noteq> pool_var L ! k"
    using layout_okD(1) [OF assms(1,4) b(1)] by auto
  show "w \<noteq> c \<and> w \<noteq> c + 4" if c: "c \<in> set (blocks L k)"
    using payload_inj [OF assms(1) b(1) assms(4) b(2) c, of i 0] payload_inj [OF assms(1) b(1) assms(4) b(2) c, of i 4]
      i b(4) grp_size_facts(1) [OF assms(4)] by auto
qed

text \<open>The buffers do not notice writes outside their headers.\<close>

lemma buf_inv_frame:
  assumes "buf_inv L fr s" "bufGroups s' = bufGroups s"
    and "\<And>k a. k < 4 \<Longrightarrow> a = pool_var L ! k \<or> (\<exists>c \<in> set (blocks L k). a = c \<or> a = c + 4) \<Longrightarrow> mem s' a = mem s a"
  shows "buf_inv L fr s'"
proof -
  have "group_ok L fr k s'" if k: "k < 4" for k
  proof -
    have "group_ok L fr k s' = group_ok L fr k s"
      using assms(2,3) k by (intro group_ok_cong) auto
    then show ?thesis
      using assms(1) k by (simp add: buf_inv_def)
  qed
  then show ?thesis
    using assms(1,2) by (simp add: buf_inv_def)
qed

section \<open>The registry\<close>

text \<open>
  The list of nodes with its handle outside the buffer memory; the registry is the list of the nodes'
  contents, in order of registration.
\<close>

definition gpio_rep :: "ev_layout \<Rightarrow> addr \<Rightarrow> (nat \<Rightarrow> addr list) \<Rightarrow> 'a gpio_state_scheme \<Rightarrow> addr list \<Rightarrow> gpio_conf list \<Rightarrow> bool" where
  "gpio_rep L Q fr s nodes xs \<longleftrightarrow> list_rep (mem s) Q nodes \<and> (\<forall>n \<in> set nodes. node_ok L fr n) \<and>
     (\<forall>k<4. unat Q \<notin> region L k \<and> Q \<noteq> pool_var L ! k) \<and> map (node_conf (mem s)) nodes = xs"

definition is_conf :: "u32 \<Rightarrow> u32 \<Rightarrow> gpio_conf \<Rightarrow> bool" where
  "is_conf md pin x \<longleftrightarrow> gpio_mode x = md \<and> gpio_pin x = pin"

fun upd_conf :: "u32 \<Rightarrow> u32 \<Rightarrow> u32 \<Rightarrow> addr \<Rightarrow> gpio_conf list \<Rightarrow> gpio_conf list" where
  "upd_conf md pin pol cbk [] = []"
| "upd_conf md pin pol cbk (x # xs) =
     (if is_conf md pin x then x\<lparr>polarity := pol, gpio_irq_callback := cbk\<rparr> # xs else x # upd_conf md pin pol cbk xs)"

lemma config_loop_chain:
  assumes "chain m p nodes"
  shows "config_loop md pin pol cbk p m =
           (case find (\<lambda>n. is_conf md pin (node_conf m n)) nodes of
              None \<Rightarrow> Some (False, m) | Some n \<Rightarrow> Some (True, m(n + 13 := pol, n + 4 := cbk)))"
  using assms
proof (induction nodes arbitrary: p)
  case Nil
  then show ?case by (simp add: config_loop.simps)
next
  case (Cons n ns)
  then have p: "p = n" "n \<noteq> NULL" "chain m (m n) ns"
    by auto
  have c: "is_conf md pin (node_conf m n) \<longleftrightarrow> m (n + 12) = md \<and> m (n + 8) = pin"
    by (simp add: is_conf_def node_conf_def)
  have "n + 13 \<noteq> n + 4"
    by simp
  then show ?case
    using p Cons.IH [OF p(3)] c by (subst config_loop.simps) (auto simp: Let_def fun_eq_iff)
qed

section \<open>Configuration refines the registry\<close>

text \<open>What the driver promises of the registry, the room for another node being an argument.\<close>

definition reg_config :: "u32 \<Rightarrow> u32 \<Rightarrow> u32 \<Rightarrow> addr \<Rightarrow> bool \<Rightarrow> gpio_conf list \<Rightarrow> int \<times> gpio_conf list" where
  "reg_config md pin pol cbk room xs =
     (if list_ex (is_conf md pin) xs then (0, upd_conf md pin pol cbk xs)
      else if length xs \<ge> 3 \<or> \<not> room then (- 1, xs)
      else (0, xs @ [\<lparr>gpio_irq_callback = cbk, gpio_pin = pin, gpio_mode = md, polarity = pol\<rparr>]))"

definition irq_set_calls :: "u32 \<Rightarrow> u32 \<Rightarrow> u32 \<Rightarrow> gpio_call list" where
  "irq_set_calls md pin pol =
     (if md = 1 then [GpioSetInterrupt pin pol] else if md = 2 then [GpioSetInterruptRisc0 pin pol]
      else if md = 3 then [GpioSetInterruptRisc1 pin pol] else [])"

lemma irq_set_frame [simp]:
  "mem (irq_set md pin pol s) = mem s" "bufGroups (irq_set md pin pol s) = bufGroups s"
  "gpio_calls (irq_set md pin pol s) = gpio_calls s @ irq_set_calls md pin pol"
  by (simp_all add: irq_set_def drv_gpio_irq_set_def drv_gpio_irq_risc0_set_def drv_gpio_irq_risc1_set_def gpio_call_def
      GPIO_IRQ_MODE_def GPIO_IRQ_RISC0_MODE_def GPIO_IRQ_RISC1_MODE_def irq_set_calls_def)

lemma gpio_rep_cong: "mem s' = mem s \<Longrightarrow> gpio_rep L Q fr s' ns xs = gpio_rep L Q fr s ns xs"
  by (simp add: gpio_rep_def)

lemma buf_inv_cong: "buf_inv L fr s \<Longrightarrow> mem s' = mem s \<Longrightarrow> bufGroups s' = bufGroups s \<Longrightarrow> buf_inv L fr s'"
  by (rule buf_inv_frame) simp_all

lemma node_region:
  assumes "layout_ok L" "node_ok L fr n" "w \<in> node_words n"
  shows "\<exists>j<4. unat w \<in> region L j"
proof -
  obtain j b where b: "j < 4" "b \<in> set (blocks L j)" "n = b + 8" "22 \<le> grp_size j"
    using assms(2) by (auto simp: node_ok_def)
  obtain i where i: "w = b + of_nat i" "8 \<le> i" "i < 22"
    using assms(3) b(3) by (auto elim: node_wordE)
  then show ?thesis
    using payload_word [OF assms(1) b(1,2), of i] b(1,4) by auto
qed

lemma node_words_simps [simp]:
  "n \<in> node_words n" "n + 4 \<in> node_words n" "n + 8 \<in> node_words n" "n + 12 \<in> node_words n" "n + 13 \<in> node_words n"
  by (simp_all add: node_words_def)

lemma node_conf_frame: "(\<And>w. w \<in> node_words p \<Longrightarrow> m' w = m w) \<Longrightarrow> node_conf m' p = node_conf m p"
  by (simp add: node_conf_def)

lemma chain_frame: "(\<And>a. a \<in> set xs \<Longrightarrow> m' a = m a) \<Longrightarrow> chain m' p xs = chain m p xs"
  by (induction xs arbitrary: p) auto

text \<open>Writes to a registered node other than to its link keep the list and the other nodes.\<close>

lemma gpio_rep_write:
  assumes "layout_ok L" "gpio_rep L Q fr s ns xs" "n \<in> set ns"
    and "\<And>a. a \<notin> node_words n - {n} \<Longrightarrow> mem s' a = mem s a"
  shows "list_rep (mem s') Q ns" "p \<in> set ns \<Longrightarrow> p \<noteq> n \<Longrightarrow> node_conf (mem s') p = node_conf (mem s) p"
proof -
  have ok: "node_ok L fr p" if "p \<in> set ns" for p
    using assms(2) that by (simp add: gpio_rep_def)
  have same: "mem s' w = mem s w" if "p \<in> set ns" "w \<in> node_words p" "p \<noteq> n" for p w
    using node_sep [OF assms(1) ok ok] that assms(3) by (intro assms(4)) blast
  have "mem s' p = mem s p" if "p \<in> set ns" for p
    using that same [of p p] assms(4) by (cases "p = n") auto
  moreover have "mem s' Q = mem s Q"
    using assms(2) node_region [OF assms(1) ok [OF assms(3)], of Q] by (intro assms(4)) (auto simp: gpio_rep_def)
  ultimately show "list_rep (mem s') Q ns"
    using assms(2) chain_frame [of ns "mem s'" "mem s"] by (simp add: gpio_rep_def list_rep_def)
  show "node_conf (mem s') p = node_conf (mem s) p" if "p \<in> set ns" "p \<noteq> n"
    using same that by (intro node_conf_frame) simp
qed

lemma upd_conf_map:
  assumes "find (\<lambda>n. is_conf md pin (f n)) ns = Some n" "distinct ns"
    and "\<And>p. p \<in> set ns \<Longrightarrow> p \<noteq> n \<Longrightarrow> g p = f p" "g n = (f n)\<lparr>polarity := pol, gpio_irq_callback := cbk\<rparr>"
  shows "map g ns = upd_conf md pin pol cbk (map f ns)"
  using assms
proof (induction ns)
  case (Cons a ns)
  show ?case
  proof (cases "is_conf md pin (f a)")
    case True
    then show ?thesis using Cons.prems by auto
  next
    case False
    then have "find (\<lambda>n. is_conf md pin (f n)) ns = Some n" "a \<noteq> n"
      using Cons.prems(1) by (auto simp: find_Some_iff)
    then show ?thesis using False Cons by auto
  qed
qed simp

lemma find_list_ex: "find P (ns :: 'a list) = None \<longleftrightarrow> \<not> list_ex P ns"
  by (auto simp: find_None_iff list_ex_iff)

lemma config_found:
  assumes "layout_ok L" "buf_inv L fr s" "gpio_rep L Q fr s ns xs" "list_ex (is_conf md pin) xs"
  shows "\<exists>s'. drv_gpio_irq_config Q md pin pol cbk s = Some (0, s') \<and> buf_inv L fr s' \<and>
           gpio_rep L Q fr s' ns (upd_conf md pin pol cbk xs) \<and> gpio_calls s' = gpio_calls s @ irq_set_calls md pin pol"
proof -
  have rep: "list_rep (mem s) Q ns" "map (node_conf (mem s)) ns = xs"
    using assms(3) by (simp_all add: gpio_rep_def)
  then have "list_ex (\<lambda>n. is_conf md pin (node_conf (mem s) n)) ns"
    using assms(4) by (auto simp: list_ex_iff)
  then obtain n where n: "find (\<lambda>n. is_conf md pin (node_conf (mem s) n)) ns = Some n"
    using find_list_ex by (metis not_None_eq)
  have ns: "n \<in> set ns" "ns \<noteq> []"
    using n by (auto simp: find_Some_iff)
  let ?m = "(mem s)(n + 13 := pol, n + 4 := cbk)"
  let ?s1 = "s\<lparr>mem := ?m\<rparr>"
  have "chain (mem s) (listHead Q (mem s)) ns"
    using rep(1) by (simp add: list_rep_def listHead_def)
  then have c: "drv_gpio_irq_config Q md pin pol cbk s = Some (0, irq_set md pin pol ?s1)"
    using listLength_rep [OF rep(1)] ns(2) n by (simp add: drv_gpio_irq_config_def config_loop_chain)
  have w: "mem ?s1 a = mem s a" if "a \<notin> node_words n - {n}" for a
    using that by (auto simp: node_words_def)
  have "node_conf ?m n = (node_conf (mem s) n)\<lparr>polarity := pol, gpio_irq_callback := cbk\<rparr>"
    by (simp add: node_conf_def)
  then have "map (node_conf ?m) ns = upd_conf md pin pol cbk xs"
    using upd_conf_map [OF n list_rep_distinct [OF rep(1)], of "node_conf ?m"] rep(2) gpio_rep_write(2) [OF assms(1,3) ns(1) w] by simp
  then have r: "gpio_rep L Q fr ?s1 ns (upd_conf md pin pol cbk xs)"
    using assms(3) gpio_rep_write(1) [OF assms(1,3) ns(1) w] by (simp add: gpio_rep_def)
  have ok: "node_ok L fr n"
    using assms(3) ns(1) by (simp add: gpio_rep_def)
  have "buf_inv L fr ?s1"
    using node_header_sep [OF assms(1) ok] w by (intro buf_inv_frame [OF assms(2)]) (simp, blast)
  then show ?thesis
    using c r by (auto simp: gpio_rep_cong [where s' = "irq_set md pin pol ?s1" and s = ?s1] intro: buf_inv_cong)
qed

text \<open>A new node: the block leaves its free list and the node is linked at the end.\<close>

lemma node_ok_mono: "node_ok L fr n \<Longrightarrow> (\<And>k. set (fr' k) \<subseteq> set (fr k)) \<Longrightarrow> node_ok L fr' n"
  unfolding node_ok_def by blast

lemma new_node_ok:
  assumes "layout_ok L" "buf_inv L fr s" "k < 4" "fr k = b # bs" "14 \<le> grp_size k - 8"
  shows "node_ok L (fr(k := bs)) (b + 8)" "node_ok L fr n \<Longrightarrow> n \<noteq> b + 8"
proof -
  have b: "b \<in> set (blocks L k)" "b \<notin> set bs"
    using free_block [OF assms(2,3)] free_list_bound(2) [OF assms(1-3)] assms(4) by auto
  then show "node_ok L (fr(k := bs)) (b + 8)"
    using assms(3,5) by (auto simp: node_ok_def intro!: exI [of _ k])
  show "n \<noteq> b + 8" if n: "node_ok L fr n"
  proof
    assume e: "n = b + 8"
    obtain j c where c: "j < 4" "c \<in> set (blocks L j)" "c \<notin> set (fr j)" "n = c + 8" "22 \<le> grp_size j"
      using n by (auto simp: node_ok_def)
    have j: "b = c"
      using e c(4) by simp
    have "unat b + 0 \<in> region L j" "unat b + 0 \<in> region L k"
      using payload_word(2) [OF assms(1) c(1,2), of 0] payload_word(2) [OF assms(1,3) b(1), of 0] j c(5) assms(5) by auto
    then have "j = k"
      using layout_okD(5) [OF assms(1) c(1) assms(3)] by auto
    then show False
      using c(3) j assms(4) by simp
  qed
qed

lemma new_node_frame: "a \<notin> node_words p \<Longrightarrow> new_node md pin pol cbk p m a = m a"
  by (auto simp: new_node_def node_words_def)

lemma new_node_conf:
  "node_conf (new_node md pin pol cbk p m) p = \<lparr>gpio_irq_callback = cbk, gpio_pin = pin, gpio_mode = md, polarity = pol\<rparr>"
  by (simp add: node_conf_def new_node_def)

lemma header_outside:
  assumes "layout_ok L" "k < 4" "a = pool_var L ! k \<or> (\<exists>c \<in> set (blocks L k). a = c \<or> a = c + 4)"
    and "unat Q \<notin> region L k \<and> Q \<noteq> pool_var L ! k"
  shows "a \<noteq> Q"
proof
  assume "a = Q"
  then obtain c where "c \<in> set (blocks L k)" "Q = c \<or> Q = c + 4"
    using assms(3,4) by blast
  then show False
    using payload_word [OF assms(1,2), of c 0] payload_word [OF assms(1,2), of c 4] grp_size_facts(1) [OF assms(2)] assms(4) by auto
qed

lemma config_new:
  assumes "gpio_rep L Q fr s ns xs" "\<not> list_ex (is_conf md pin) xs"
  shows "drv_gpio_irq_config Q md pin pol cbk s =
           (if length xs \<ge> 3 then Some (- 1, s)
            else let (p, s2) = ev_buf_allocate 14 s in
              if p = NULL then Some (- 1, s2)
              else do { m3 \<leftarrow> listAdd Q p (new_node md pin pol cbk p (mem s2)); Some (0, irq_set md pin pol (s2\<lparr>mem := m3\<rparr>)) })"
proof -
  have rep: "list_rep (mem s) Q ns" "map (node_conf (mem s)) ns = xs"
    using assms(1) by (simp_all add: gpio_rep_def)
  then have "find (\<lambda>n. is_conf md pin (node_conf (mem s) n)) ns = None"
    using assms(2) by (auto simp: find_None_iff list_ex_iff)
  moreover have "chain (mem s) (listHead Q (mem s)) ns"
    using rep(1) by (simp add: list_rep_def listHead_def)
  moreover have "length ns = length xs"
    using rep(2) by auto
  ultimately show ?thesis
    using listLength_rep [OF rep(1)] by (simp add: drv_gpio_irq_config_def config_loop_chain GPIO_IRQ_HANDLER_Q_NUM_def Let_def)
qed

lemma config_append:
  assumes "layout_ok L" "buf_inv L fr s" "gpio_rep L Q fr s ns xs" "\<not> list_ex (is_conf md pin) xs" "length xs < 3"
    and "fit_group fr 14 = Some k" "fr k = b # bs"
  shows "\<exists>s'. drv_gpio_irq_config Q md pin pol cbk s = Some (0, s') \<and> buf_inv L (fr(k := bs)) s' \<and>
           gpio_rep L Q (fr(k := bs)) s' (ns @ [b + 8]) (xs @ [\<lparr>gpio_irq_callback = cbk, gpio_pin = pin, gpio_mode = md, polarity = pol\<rparr>]) \<and>
           gpio_calls s' = gpio_calls s @ irq_set_calls md pin pol"
proof -
  have rep: "list_rep (mem s) Q ns" "map (node_conf (mem s)) ns = xs"
    and ok: "\<And>n. n \<in> set ns \<Longrightarrow> node_ok L fr n"
    and Q: "\<And>k. k < 4 \<Longrightarrow> unat Q \<notin> region L k \<and> Q \<noteq> pool_var L ! k"
    using assms(3) by (simp_all add: gpio_rep_def)
  let ?p = "b + 8" and ?fr = "fr(k := bs)" and ?s2 = "take_block L k b s"
  have k: "k < 4" "14 \<le> grp_size k - 8"
    using fit_group_lt [OF assms(6)] by auto
  have al: "ev_buf_allocate 14 s = (?p, ?s2)"
    using ev_buf_allocate_some [OF assms(1,2) _ _ assms(6)] assms(7) by (simp add: MAX_BUFFER_SIZE_def BUFFER_GROUP_def)
  have b: "b \<in> set (blocks L k)"
    using free_block [OF assms(2) k(1)] assms(7) by simp
  have p: "?p \<noteq> NULL" "node_ok L ?fr ?p" "?p \<notin> set ns"
    using block_nonnull [OF assms(1) k(1) b] new_node_ok [OF assms(1,2) k(1) assms(7) k(2)] ok by auto
  have ok': "node_ok L ?fr n" if "n \<in> set (ns @ [?p])" for n
  proof (cases "n = ?p")
    case False
    then show ?thesis using that assms(7) by (intro node_ok_mono [OF ok]) auto
  qed (simp add: p(2))
  have f2: "mem ?s2 a = mem s a" if "a \<noteq> pool_var L ! k" "a \<noteq> b + 4" for a
    using mp.alloc_frame that by (simp add: take_block_def)
  have [simp]: "gpio_calls ?s2 = gpio_calls s"
    by (simp add: take_block_def)
  have inv2: "buf_inv L ?fr ?s2"
    by (rule take_block_inv [OF assms(1,2) k(1) assms(7)])
  let ?m = "new_node md pin pol cbk ?p (mem ?s2)"
  have old: "?m w = mem s w" if "n \<in> set ns" "w \<in> node_words n" for n w
  proof -
    have "w \<notin> node_words ?p"
      using node_sep [OF assms(1) ok [OF that(1)] p(2) that(2)] p(3) that(1) by auto
    moreover have "mem ?s2 w = mem s w"
      using node_header_sep [OF assms(1) ok [OF that(1)] that(2) k(1)] b by (intro f2) auto
    ultimately show ?thesis by (simp add: new_node_frame)
  qed
  have Qp: "Q \<notin> node_words n" if "node_ok L fr' n" for n fr'
    using node_region [OF assms(1) that] Q by blast
  have "Q \<noteq> b + 4"
    using payload_word [OF assms(1) k(1) b, of 4] Q [OF k(1)] k(2) by auto
  then have "?m Q = mem s Q"
    using Qp [OF p(2)] Q [OF k(1)] f2 by (simp add: new_node_frame)
  then have "list_rep ?m Q ns"
    using rep(1) chain_frame [of ns ?m "mem s"] old by (simp add: list_rep_def)
  then obtain m3 where m3: "listAdd Q ?p ?m = Some m3" "list_rep m3 Q (ns @ [?p])"
    "\<And>a. a \<notin> insert Q (insert ?p (set ns)) \<Longrightarrow> m3 a = ?m a"
    using listAdd_rep [of ?m Q ns ?p] p(1,3) Qp [OF p(2)] node_words_simps(1) [of ?p] by metis
  let ?s3 = "?s2\<lparr>mem := m3\<rparr>"
  have nl: "n + d \<notin> insert Q (insert ?p (set ns))" if "n \<in> set (ns @ [?p])" "d \<noteq> 0" "n + d \<in> node_words n" for n d
    using node_sep [OF assms(1) ok' [OF that(1)] ok' that(3) node_words_simps(1)] Qp [OF ok' [OF that(1)]] that by auto
  have "m3 (n + d) = ?m (n + d)" if "n \<in> set (ns @ [?p])" "d \<noteq> 0" "n + d \<in> node_words n" for n d
    by (rule m3(3) [OF nl [OF that]])
  then have "node_conf m3 n = node_conf ?m n" if "n \<in> set (ns @ [?p])" for n
    using that by (simp add: node_conf_def)
  moreover have "node_conf ?m n = node_conf (mem s) n" if "n \<in> set ns" for n
    using old [OF that] by (rule node_conf_frame)
  ultimately have "map (node_conf m3) (ns @ [?p]) = xs @ [\<lparr>gpio_irq_callback = cbk, gpio_pin = pin, gpio_mode = md, polarity = pol\<rparr>]"
    using rep(2) new_node_conf by auto
  then have r: "gpio_rep L Q ?fr ?s3 (ns @ [?p]) (xs @ [\<lparr>gpio_irq_callback = cbk, gpio_pin = pin, gpio_mode = md, polarity = pol\<rparr>])"
    unfolding gpio_rep_def using m3(2) ok' Q by simp
  have "m3 a = mem ?s2 a" if a: "j < 4" "a = pool_var L ! j \<or> (\<exists>c \<in> set (blocks L j). a = c \<or> a = c + 4)" for j a
  proof -
    have nw: "a \<notin> node_words n" if "n \<in> set (ns @ [?p])" for n
      using node_header_sep [OF assms(1) ok' [OF that] _ a(1)] a(2) by blast
    have "a \<noteq> Q"
      using header_outside [OF assms(1) a] Q [OF a(1)] by blast
    then have "m3 a = ?m a"
      using nw [of a] node_words_simps(1) [of a] by (intro m3(3)) auto
    then show ?thesis
      using nw [of ?p] by (simp add: new_node_frame)
  qed
  then have "buf_inv L ?fr ?s3"
    by (intro buf_inv_frame [OF inv2]) auto
  moreover have "drv_gpio_irq_config Q md pin pol cbk s = Some (0, irq_set md pin pol ?s3)"
    using config_new [OF assms(3,4), of pol cbk] assms(5) al p(1) m3(1) by simp
  ultimately show ?thesis
    using r gpio_rep_cong [of "irq_set md pin pol ?s3" ?s3] by (auto intro: buf_inv_cong)
qed

text \<open>The registry keeps at most three entries, of distinct pins within a mode.\<close>

definition reg_ok :: "gpio_conf list \<Rightarrow> bool" where
  "reg_ok xs \<longleftrightarrow> length xs \<le> 3 \<and> distinct (map (\<lambda>x. (gpio_mode x, gpio_pin x)) xs)"

lemma upd_conf_keys: "map (\<lambda>x. (gpio_mode x, gpio_pin x)) (upd_conf md pin pol cbk xs) = map (\<lambda>x. (gpio_mode x, gpio_pin x)) xs"
  by (induction xs) auto

lemma reg_config_ok: "reg_ok xs \<Longrightarrow> reg_ok (snd (reg_config md pin pol cbk room xs))"
proof -
  assume a: "reg_ok xs"
  have "length (upd_conf md pin pol cbk xs) = length xs"
    by (induction xs) auto
  moreover have "(md, pin) \<notin> (\<lambda>x. (gpio_mode x, gpio_pin x)) ` set xs" if "\<not> list_ex (is_conf md pin) xs"
    using that by (auto simp: list_ex_iff is_conf_def)
  ultimately show ?thesis
    using a by (auto simp: reg_config_def reg_ok_def upd_conf_keys)
qed

text \<open>
  C23. Configuring a GPIO interrupt always returns, and does to the registry what it promises: a pin already
  registered in that mode gets the new polarity and callback in place; otherwise it is refused with -1 when
  three are registered or no buffer fits, leaving everything as it was, and registered at the end otherwise.
  The chip is programmed exactly on success. The event buffers stay well-formed and the registry keeps at
  most three entries with distinct pins per mode.
\<close>

theorem drv_gpio_irq_config_refines:
  assumes "layout_ok L" "buf_inv L fr s" "gpio_rep L Q fr s ns xs" "reg_ok xs"
    and "reg_config md pin pol cbk (fit_group fr 14 \<noteq> None) xs = (r, xs')"
  shows "\<exists>s' fr' ns'. drv_gpio_irq_config Q md pin pol cbk s = Some (r, s') \<and>
           buf_inv L fr' s' \<and> gpio_rep L Q fr' s' ns' xs' \<and> reg_ok xs' \<and> (r = - 1 \<longrightarrow> s' = s) \<and>
           gpio_calls s' = gpio_calls s @ (if r = 0 then irq_set_calls md pin pol else [])"
proof -
  have ok: "reg_ok xs'"
    using reg_config_ok [OF assms(4)] assms(5) by (metis snd_conv)
  consider (upd) "list_ex (is_conf md pin) xs"
    | (no) "\<not> list_ex (is_conf md pin) xs" "length xs \<ge> 3 \<or> fit_group fr 14 = None"
    | (app) k where "\<not> list_ex (is_conf md pin) xs" "length xs < 3" "fit_group fr 14 = Some k"
    by fastforce
  then show ?thesis
  proof cases
    case upd
    then have "r = 0" "xs' = upd_conf md pin pol cbk xs"
      using assms(5) by (simp_all add: reg_config_def)
    then show ?thesis
      using config_found [OF assms(1-3) upd, of pol cbk] ok by auto
  next
    case no
    then have "r = - 1" "xs' = xs"
      using assms(5) by (auto simp: reg_config_def)
    moreover have "drv_gpio_irq_config Q md pin pol cbk s = Some (- 1, s)"
      using config_new [OF assms(3) no(1)] no(2) ev_buf_allocate_none [OF assms(2), of 14] by auto
    ultimately show ?thesis
      using assms(2,3) ok by auto
  next
    case app
    obtain b bs where b: "fr k = b # bs"
      using fit_group_lt [OF app(3)] by (cases "fr k") auto
    have "r = 0" "xs' = xs @ [\<lparr>gpio_irq_callback = cbk, gpio_pin = pin, gpio_mode = md, polarity = pol\<rparr>]"
      using assms(5) app by (simp_all add: reg_config_def)
    then show ?thesis
      using config_append [OF assms(1-3) app b, of pol cbk] ok by auto
  qed
qed

section \<open>Dispatch\<close>

text \<open>What the interrupt of a mode does, by the registry: the callback of the first entry of that mode that has one.\<close>

definition reg_dispatch :: "u32 \<Rightarrow> gpio_conf list \<Rightarrow> addr option" where
  "reg_dispatch md xs = map_option gpio_irq_callback (find (\<lambda>x. gpio_mode x = md \<and> gpio_irq_callback x \<noteq> NULL) xs)"

lemma reg_dispatch_simps [simp]:
  "reg_dispatch md [] = None"
  "reg_dispatch md (x # xs) =
     (if gpio_mode x = md \<and> gpio_irq_callback x \<noteq> NULL then Some (gpio_irq_callback x) else reg_dispatch md xs)"
  by (simp_all add: reg_dispatch_def)

lemma reg_dispatch_skip: "\<forall>u \<in> set us. gpio_mode u \<noteq> md \<Longrightarrow> reg_dispatch md (us @ xs) = reg_dispatch md xs"
  by (induction us) auto

lemma node_conf_cells: "gpio_mode (node_conf m n) = m (n + 12)" "gpio_irq_callback (node_conf m n) = m (n + 4)"
  by (simp_all add: node_conf_def)

lemma irq_process_loop_chain:
  assumes "chain (mem s) p ns"
  shows "irq_process_loop call md p s =
           Some (case reg_dispatch md (map (node_conf (mem s)) ns) of None \<Rightarrow> s | Some c \<Rightarrow> call c s)"
  using assms
proof (induction ns arbitrary: p)
  case Nil
  then show ?case by (simp add: irq_process_loop.simps)
next
  case (Cons n ns)
  then have p: "p = n" "n \<noteq> NULL" "chain (mem s) (mem s n) ns"
    by auto
  show ?case
    using p Cons.IH [OF p(3)] node_conf_cells [of "mem s" n] by (subst irq_process_loop.simps) auto
qed

lemma drv_gpio_irq_process_rep:
  assumes "gpio_rep L Q fr s ns xs"
  shows "drv_gpio_irq_process Q call md s = Some (case reg_dispatch md xs of None \<Rightarrow> s | Some c \<Rightarrow> call c s)"
proof -
  have rep: "list_rep (mem s) Q ns" "map (node_conf (mem s)) ns = xs"
    using assms by (simp_all add: gpio_rep_def)
  then have "chain (mem s) (listHead Q (mem s)) ns"
    by (simp add: list_rep_def listHead_def)
  then show ?thesis
    using listLength_rep [OF rep(1)] rep(2) irq_process_loop_chain [of s _ ns call md]
    by (auto simp: drv_gpio_irq_process_def reg_dispatch_def)
qed

text \<open>
  C24. The three GPIO interrupts: each handler returns after running at most one callback, the one of the
  first entry registered for its mode that has a callback. The pin is not consulted, so with two pins
  registered for the same mode the callback of the second never runs.
\<close>

theorem gpio_irq_process_first:
  assumes "gpio_rep L Q fr s ns xs"
  shows "drv_gpio_irq_handler Q call s = Some (case reg_dispatch 1 xs of None \<Rightarrow> s | Some c \<Rightarrow> call c s) \<and>
         drv_gpio_irq_risc0_handler Q call s = Some (case reg_dispatch 2 xs of None \<Rightarrow> s | Some c \<Rightarrow> call c s) \<and>
         drv_gpio_irq_risc1_handler Q call s = Some (case reg_dispatch 3 xs of None \<Rightarrow> s | Some c \<Rightarrow> call c s) \<and>
         (\<forall>us x vs. xs = us @ x # vs \<and> (\<forall>u \<in> set us. gpio_mode u \<noteq> gpio_mode x) \<and> gpio_irq_callback x \<noteq> NULL \<longrightarrow>
            drv_gpio_irq_process Q call (gpio_mode x) s = Some (call (gpio_irq_callback x) s))"
proof -
  note rep = drv_gpio_irq_process_rep [OF assms]
  have "drv_gpio_irq_process Q call (gpio_mode x) s = Some (call (gpio_irq_callback x) s)"
    if "xs = us @ x # vs" "\<forall>u \<in> set us. gpio_mode u \<noteq> gpio_mode x" "gpio_irq_callback x \<noteq> NULL" for us x vs
    using that reg_dispatch_skip [OF that(2), of "x # vs"] by (simp add: rep)
  moreover have "drv_gpio_irq_handler Q call s = Some (case reg_dispatch 1 xs of None \<Rightarrow> s | Some c \<Rightarrow> call c s)"
    by (simp only: drv_gpio_irq_handler_def rep GPIO_IRQ_MODE_def)
  moreover have "drv_gpio_irq_risc0_handler Q call s = Some (case reg_dispatch 2 xs of None \<Rightarrow> s | Some c \<Rightarrow> call c s)"
    by (simp only: drv_gpio_irq_risc0_handler_def rep GPIO_IRQ_RISC0_MODE_def)
  moreover have "drv_gpio_irq_risc1_handler Q call s = Some (case reg_dispatch 3 xs of None \<Rightarrow> s | Some c \<Rightarrow> call c s)"
    by (simp only: drv_gpio_irq_risc1_handler_def rep GPIO_IRQ_RISC1_MODE_def)
  ultimately show ?thesis by blast
qed

text \<open>A handle below the buffer memory and an empty registry.\<close>

definition demo_gpio :: gpio_state where
  "demo_gpio = (let s = ev_buf_init demo_layout \<lparr>mem = (\<lambda>_. 0), reg_irq_en = 1, T_evtExcept = [0, 0, 0, 0],
                  g_sysExceptCallback = 0, exc_calls = [], bufGroups = [], gpio_calls = []\<rparr>
                in s\<lparr>mem := listInit 0x840100 (mem s)\<rparr>)"

lemma demo_handle: "k < 4 \<Longrightarrow> unat (0x840100 :: u32) \<notin> region demo_layout k \<and> 0x840100 \<noteq> pool_var demo_layout ! k"
  using lt4_cases [of k] by (auto simp: demo_layout_def region_def)

lemma demo_gpio_rep:
  "buf_inv demo_layout (blocks demo_layout) demo_gpio" "gpio_rep demo_layout 0x840100 (blocks demo_layout) demo_gpio [] []"
proof -
  have "a \<noteq> 0x840100" if "k < 4" "a = pool_var demo_layout ! k \<or> (\<exists>c \<in> set (blocks demo_layout k). a = c \<or> a = c + 4)" for k a
    using header_outside [OF demo_layout_ok that demo_handle [OF that(1)]] .
  then show "buf_inv demo_layout (blocks demo_layout) demo_gpio"
    unfolding demo_gpio_def Let_def
    by (intro buf_inv_frame [OF ev_buf_init_inv [OF demo_layout_ok]]) (simp_all add: listInit_def)
  show "gpio_rep demo_layout 0x840100 (blocks demo_layout) demo_gpio [] []"
    using demo_handle by (simp add: gpio_rep_def demo_gpio_def Let_def listInit_rep)
qed

lemma demo_gpio_calls: "gpio_calls demo_gpio = []"
  by (simp add: demo_gpio_def Let_def ev_buf_init_def ev_buf_reset_def DEFAULT_BUFFER_GROUP_NUM_def upt_rec reset_group_def case_prod_beta)

text \<open>Registering a callback for pin 0x201 in the plain mode, on the empty registry.\<close>

theorem drv_gpio_irq_config_refines_witness:
  "\<exists>s'. drv_gpio_irq_config 0x840100 1 0x201 1 0x5000 demo_gpio = Some (0, s') \<and> gpio_calls s' = [GpioSetInterrupt 0x201 1]"
proof -
  have "fit_group (blocks demo_layout) 14 \<noteq> None"
    by (simp add: fit_group_def upt_rec BUFFER_GROUP_def BUFFER_NUM_IN_GROUP_def pool_blocks_def)
  then have r: "reg_config 1 0x201 1 0x5000 (fit_group (blocks demo_layout) 14 \<noteq> None) [] =
      (0, [\<lparr>gpio_irq_callback = 0x5000, gpio_pin = 0x201, gpio_mode = 1, polarity = 1\<rparr>])"
    by (simp add: reg_config_def)
  have "reg_ok []"
    by (simp add: reg_ok_def)
  then show ?thesis
    using drv_gpio_irq_config_refines [OF demo_layout_ok demo_gpio_rep _ r] by (auto simp: demo_gpio_calls irq_set_calls_def)
qed

text \<open>Two pins of the plain mode: the interrupt runs the callback registered first, whatever pin caused it.\<close>

definition demo_gpio2 :: gpio_state where
  "demo_gpio2 = demo_gpio\<lparr>mem := (\<lambda>_. 0)(0x840100 := 0x841008, 0x841008 := 0x841020, 0x84100C := 0x5000, 0x841010 := 0x201, 0x841014 := 1,
     0x841024 := 0x6000, 0x841028 := 0x202, 0x84102C := 1)\<rparr>"

lemma demo_gpio2_rep:
  "gpio_rep demo_layout 0x840100 (\<lambda>_. []) demo_gpio2 [0x841008, 0x841020]
     [\<lparr>gpio_irq_callback = 0x5000, gpio_pin = 0x201, gpio_mode = 1, polarity = 0\<rparr>,
      \<lparr>gpio_irq_callback = 0x6000, gpio_pin = 0x202, gpio_mode = 1, polarity = 0\<rparr>]"
proof -
  have b: "(0x841000 :: u32) \<in> set (blocks demo_layout 0)" "(0x841018 :: u32) \<in> set (blocks demo_layout 0)"
    by (simp_all add: pool_blocks_def upt_rec demo_layout_def BUFFER_GROUP_def BUFFER_NUM_IN_GROUP_def)
  have "node_ok demo_layout (\<lambda>_. []) (c + 8)" if "c \<in> set (blocks demo_layout 0)" for c
    using that unfolding node_ok_def by (intro exI [of _ 0] conjI bexI [of _ c]) (simp_all add: BUFFER_GROUP_def)
  from this [OF b(1)] this [OF b(2)]
  have "node_ok demo_layout (\<lambda>_. []) 0x841008" "node_ok demo_layout (\<lambda>_. []) 0x841020"
    by simp_all
  then show ?thesis
    unfolding gpio_rep_def using demo_handle by (simp add: list_rep_def node_conf_def demo_gpio2_def)
qed

theorem gpio_irq_process_first_witness:
  "drv_gpio_irq_handler 0x840100 (\<lambda>c s. s\<lparr>gpio_calls := [GpioWritePin c 1]\<rparr>) demo_gpio2 = Some (demo_gpio2\<lparr>gpio_calls := [GpioWritePin 0x5000 1]\<rparr>)"
  using gpio_irq_process_first [OF demo_gpio2_rep] by simp

end
