(* ===== verification/Drv_Keyboard.thy ===== *)
theory Drv_Keyboard
  imports Tl_Prelude
begin

text \<open>
  The keyboard driver, \<^verbatim>\<open>proj/drivers/drv_keyboard.c\<close>, in the configuration of the 8278 dongle of both demos: one drive
  line and two scan lines, the pins of the buttons, in line mode and active low
  (\<^verbatim>\<open>KB_LINE_MODE\<close> 1, \<^verbatim>\<open>KB_LINE_HIGH_VALID\<close> 0). The input levels of the ports are a sequence in the state, one
  element per reading of all ports. The indices of the matrix buffer are signed in the code; they are
  only masked and compared, so their bits are kept as a word.
\<close>

section \<open>Configuration and state\<close>

definition GPIO_PD5 :: u32 where "GPIO_PD5 = 0x320"
definition GPIO_PD6 :: u32 where "GPIO_PD6 = 0x340"
definition BUTTON1 :: u32 where "BUTTON1 = GPIO_PD6"
definition BUTTON2 :: u32 where "BUTTON2 = GPIO_PD5"
definition VK_SW1 :: u8 where "VK_SW1 = 1"
definition VK_SW2 :: u8 where "VK_SW2 = 2"
definition drive_pins :: "u32 list" where "drive_pins = [0]"
definition scan_pins :: "u32 list" where "scan_pins = [BUTTON1, BUTTON2]"
definition kb_map_normal :: "u8 list list" where "kb_map_normal = [[VK_SW1], [VK_SW2]]"
definition KB_RETURN_KEY_MAX :: nat where "KB_RETURN_KEY_MAX = 6"
definition KB_NUMLOCK_STATUS_INVALID :: u32 where "KB_NUMLOCK_STATUS_INVALID = 0x80"

record kb_data_t =
  kb_cnt :: u8
  ctrl_key :: u8
  keycode :: "u8 list"

record kb_state =
  kb_event :: kb_data_t
  kb_is_fn_pressed :: u8
  scan_pin_need :: u32
  release_cnt :: u8
  ret_last :: u32
  mtrx_pre :: "u32 list"
  mtrx_last :: "u32 list"
  matrix_buff :: "u32 list list"
  matrix_wptr :: u32
  matrix_rptr :: u32
  gpio_in :: "nat \<Rightarrow> nat \<Rightarrow> u8"

section \<open>Reading the pins\<close>

definition gpio_read_cache :: "u32 \<Rightarrow> (nat \<Rightarrow> u8) \<Rightarrow> u8" where
  "gpio_read_cache pin p = p (unat (drop_bit 8 pin)) AND ucast (pin AND 0xff)"

definition gpio_read_all :: "(nat \<Rightarrow> u8) \<Rightarrow> kb_state \<Rightarrow> (nat \<Rightarrow> u8) \<times> kb_state" where
  "gpio_read_all p s = (\<lambda>i. if i < 4 then gpio_in s 0 i else p i, s\<lparr>gpio_in := \<lambda>n. gpio_in s (Suc n)\<rparr>)"

definition kb_key_pressed :: "(nat \<Rightarrow> u8) \<Rightarrow> kb_state \<Rightarrow> u32 \<times> (nat \<Rightarrow> u8) \<times> kb_state" where
  "kb_key_pressed p s =
     (let (gpio, s1) = gpio_read_all p s;
          (ret, s2) = fold (\<lambda>i (ret, s). if gpio_read_cache (scan_pins ! i) gpio = 0
                                         then (ret OR push_bit i 1, s\<lparr>release_cnt := 6, ret_last := ret OR push_bit i 1\<rparr>)
                                         else (ret, s)) [0..<length scan_pins] (0, s1)
      in if release_cnt s2 \<noteq> 0 then (ret_last s2, gpio, s2\<lparr>release_cnt := release_cnt s2 - 1\<rparr>) else (ret, gpio, s2))"

text \<open>In line mode the drive line is not driven; the row is computed from the levels read before, and new ones are read.\<close>

definition kb_scan_row :: "(nat \<Rightarrow> u8) \<Rightarrow> kb_state \<Rightarrow> u32 \<times> (nat \<Rightarrow> u8) \<times> kb_state" where
  "kb_scan_row gpio s =
     (let matrix = fold (\<lambda>j m. if scan_pin_need s AND push_bit j 1 \<noteq> 0 \<and> gpio_read_cache (scan_pins ! j) gpio = 0
                                then m OR push_bit j 1 else m) [0..<length scan_pins] 0
      in (matrix, gpio_read_all gpio s))"

section \<open>Filters\<close>

text \<open>
  \<^verbatim>\<open>kb_rmv_ghost_key\<close> clears the crossings of rows that share columns. It is compiled in every
  configuration, but called only with \<^verbatim>\<open>KB_RM_GHOST_KEY_EN\<close>, which the demos leave 0.
\<close>

definition BIT_IS_POW2 :: "u32 \<Rightarrow> bool" where
  "BIT_IS_POW2 x \<longleftrightarrow> x AND (x - 1) = 0"

definition kb_rmv_ghost_key :: "u32 list \<Rightarrow> u32 list" where
  "kb_rmv_ghost_key pressed_matrix =
     snd (fold (\<lambda>i (mix_final, pm).
       let mf = fold (\<lambda>j mf.
                  let mix = pm ! i AND pm ! j
                  in if mix \<noteq> 0 \<and> (\<not> BIT_IS_POW2 mix \<or> pm ! i XOR pm ! j \<noteq> 0) then mf OR mix else mf)
                [i + 1..<length drive_pins] mix_final
       in (mf, pm[i := pm ! i AND NOT mf])) [0..<length drive_pins] (0, pressed_matrix))"

definition key_debounce_filter :: "u32 list \<Rightarrow> u32 \<Rightarrow> kb_state \<Rightarrow> u32 \<times> u32 list \<times> kb_state" where
  "key_debounce_filter mtrx_cur filt_en s =
     fold (\<lambda>i (kc, cur, s).
       let tmp = cur ! i;
           c = (if filt_en \<noteq> 0
                then (NOT (mtrx_last s ! i) AND (mtrx_pre s ! i AND tmp)) OR (mtrx_last s ! i AND (mtrx_pre s ! i OR tmp))
                else tmp);
           kc' = (if c \<noteq> mtrx_last s ! i then 1 else kc)
       in (kc', cur[i := c], s\<lparr>mtrx_pre := (mtrx_pre s)[i := tmp], mtrx_last := (mtrx_last s)[i := c]\<rparr>))
     [0..<length drive_pins] (0, mtrx_cur, s)"

section \<open>Key codes\<close>

definition push_key :: "u8 \<Rightarrow> kb_data_t \<Rightarrow> kb_data_t" where
  "push_key kc d = d\<lparr>keycode := (keycode d)[unat (kb_cnt d) := kc], kb_cnt := kb_cnt d + 1\<rparr>"

text \<open>The loop over the scan lines; \<open>i\<close> is the line, \<open>m\<close> the rest of the row.\<close>

fun remap_row_loop :: "nat \<Rightarrow> nat \<Rightarrow> nat list \<Rightarrow> u32 \<Rightarrow> kb_data_t \<Rightarrow> kb_data_t" where
  "remap_row_loop drv_ind key_max [] m d = d"
| "remap_row_loop drv_ind key_max (i # is) m d =
     (let d' = (if m AND 1 \<noteq> 0 then push_key (kb_map_normal ! i ! drv_ind) d else d)
      in if m AND 1 \<noteq> 0 \<and> unat (kb_cnt d') \<ge> key_max then d'
         else if drop_bit 1 m = 0 then d'
         else remap_row_loop drv_ind key_max is (drop_bit 1 m) d')"

definition kb_remap_key_row :: "nat \<Rightarrow> u32 \<Rightarrow> nat \<Rightarrow> kb_data_t \<Rightarrow> kb_data_t" where
  "kb_remap_key_row drv_ind m key_max d = remap_row_loop drv_ind key_max [0..<length scan_pins] m d"

fun remap_code_loop :: "u32 list \<Rightarrow> nat \<Rightarrow> nat list \<Rightarrow> kb_data_t \<Rightarrow> kb_data_t" where
  "remap_code_loop pm key_max [] d = d"
| "remap_code_loop pm key_max (i # is) d =
     (if pm ! i = 0 then remap_code_loop pm key_max is d
      else let d' = kb_remap_key_row i (pm ! i) key_max d
           in if unat (kb_cnt d') \<ge> key_max then d' else remap_code_loop pm key_max is d')"

definition kb_remap_key_code :: "u32 list \<Rightarrow> nat \<Rightarrow> kb_data_t \<Rightarrow> kb_data_t" where
  "kb_remap_key_code pm key_max d = remap_code_loop pm key_max [0..<length drive_pins] d"

section \<open>The scan\<close>

text \<open>Into the buffer of four matrices, over the oldest if it is full.\<close>

definition push_matrix :: "u32 list \<Rightarrow> kb_state \<Rightarrow> kb_state" where
  "push_matrix pm s =
     (let w = (matrix_wptr s + 1) AND 7
      in s\<lparr>matrix_buff := (matrix_buff s)[unat (matrix_wptr s AND 3) := pm], matrix_wptr := w,
          matrix_rptr := (if (w - matrix_rptr s) AND 7 > 4 then (w - 4) AND 7 else matrix_rptr s)\<rparr>)"

text \<open>The rows are read one reading late, so the loop runs once more than there are drive lines.\<close>

definition scan_rows :: "(nat \<Rightarrow> u8) \<Rightarrow> kb_state \<Rightarrow> u32 list \<times> kb_state" where
  "scan_rows gpio s =
     (let (_, gpio1, s1) = kb_scan_row gpio s;
          (pm, _, s2) = fold (\<lambda>i (pm, gpio, s). let (r, gpio', s') = kb_scan_row gpio s
                                                in (if i \<noteq> 0 then pm[i - 1 := r] else pm, gpio', s'))
                          [0..<length drive_pins + 1] (replicate (length drive_pins) 0, gpio1, s1)
      in (pm, s2))"

definition kb_scan_key :: "u32 \<Rightarrow> u32 \<Rightarrow> kb_state \<Rightarrow> u32 \<times> kb_state" where
  "kb_scan_key numlock_status read_key s =
     (let (need, gpio, s1) = kb_key_pressed (\<lambda>_. 0) s;
          s2 = s1\<lparr>scan_pin_need := need\<rparr>
      in if need \<noteq> 0 then
           let s3 = s2\<lparr>kb_event := (kb_event s2)\<lparr>kb_cnt := 0, ctrl_key := 0\<rparr>, kb_is_fn_pressed := 0\<rparr>;
               (pm, s4) = scan_rows gpio s3;
               (key_changed, pm1, s5) = key_debounce_filter pm 1 s4;
               s6 = (if key_changed \<noteq> 0 then push_matrix pm1 s5 else s5)
           in if numlock_status AND KB_NUMLOCK_STATUS_INVALID \<noteq> 0 then (1, s6)
              else if matrix_wptr s6 = matrix_rptr s6 \<or> read_key = 0 then (0, s6)
              else let pd = matrix_buff s6 ! unat (matrix_rptr s6 AND 3)
                   in (1, s6\<lparr>matrix_rptr := (matrix_rptr s6 + 1) AND 7,
                             kb_event := kb_remap_key_code pd KB_RETURN_KEY_MAX (kb_event s6)\<rparr>)
         else (0, s2))"

section \<open>Comparison of events\<close>

definition kb_is_data_same :: "kb_data_t option \<Rightarrow> kb_data_t option \<Rightarrow> bool" where
  "kb_is_data_same pa pb =
     (case (pa, pb) of
        (Some a, Some b) \<Rightarrow> kb_cnt a = kb_cnt b \<and> ctrl_key a = ctrl_key b \<and>
                            (\<forall>i \<in> set [0..<unat (kb_cnt a)]. keycode a ! i = keycode b ! i)
      | _ \<Rightarrow> False)"

definition kb_is_key_valid :: "kb_data_t \<Rightarrow> bool" where
  "kb_is_key_valid p \<longleftrightarrow> kb_cnt p \<noteq> 0 \<or> ctrl_key p \<noteq> 0"

definition kb_set_key_invalid :: "kb_data_t \<Rightarrow> kb_data_t" where
  "kb_set_key_invalid p = p\<lparr>kb_cnt := 0, ctrl_key := 0\<rparr>"

section \<open>The reference\<close>

text \<open>
  Each line on its own: the reported level is the majority of the level reported before and the last two
  samples, so it changes when two samples in a row differ from it.
\<close>

definition majority :: "u32 \<Rightarrow> u32 \<Rightarrow> u32 \<Rightarrow> u32" where
  "majority l p t = (l AND p) OR (l AND t) OR (p AND t)"

fun debounced :: "u32 \<Rightarrow> u32 \<Rightarrow> u32 list \<Rightarrow> u32 list" where
  "debounced l p [] = []"
| "debounced l p (t # ts) = majority l p t # debounced (majority l p t) t ts"

definition keys :: "u32 \<Rightarrow> u8 list" where
  "keys f = (if bit f 0 then [VK_SW1] else []) @ (if bit f 1 then [VK_SW2] else [])"

fun changes :: "u32 \<Rightarrow> u32 list \<Rightarrow> u8 list option list" where
  "changes l [] = []"
| "changes l (f # fs) = (if f \<noteq> l then Some (keys f) else None) # changes f fs"

text \<open>The buttons that are down when the ports have the levels \<open>g\<close>.\<close>

definition down :: "(nat \<Rightarrow> u8) \<Rightarrow> u32" where
  "down g = of_bool (\<not> bit (g 3) 6) OR push_bit 1 (of_bool (\<not> bit (g 3) 5))"

text \<open>Successive scans, the levels steady during each: the key codes of the events they return.\<close>

fun kb_calls :: "(nat \<Rightarrow> u8) list \<Rightarrow> kb_state \<Rightarrow> u8 list option list" where
  "kb_calls [] s = []"
| "kb_calls (g # gs) s =
     (let (r, s1) = kb_scan_key 0 1 (s\<lparr>gpio_in := \<lambda>_. g\<rparr>)
      in (if r \<noteq> 0 then Some (take (unat (kb_cnt (kb_event s1))) (keycode (kb_event s1))) else None) # kb_calls gs s1)"

definition kb_reset :: kb_state where
  "kb_reset = \<lparr>kb_event = \<lparr>kb_cnt = 0, ctrl_key = 0, keycode = replicate 6 0\<rparr>, kb_is_fn_pressed = 0, scan_pin_need = 0, release_cnt = 0,
     ret_last = 0, mtrx_pre = [0], mtrx_last = [0], matrix_buff = replicate 4 [0], matrix_wptr = 0, matrix_rptr = 0, gpio_in = (\<lambda>_ _. 0)\<rparr>"

section \<open>One scan\<close>

lemma and_pow_u8: "(x :: u8) AND 0x40 = 0 \<longleftrightarrow> \<not> bit x 6" "(x :: u8) AND 0x20 = 0 \<longleftrightarrow> \<not> bit x 5"
  using bit_iff_and_push_bit_not_eq_0 [of x 6] bit_iff_and_push_bit_not_eq_0 [of x 5] by (simp_all add: push_bit_eq_mult)

lemma pins_down:
  "gpio_read_cache (scan_pins ! 0) p = 0 \<longleftrightarrow> \<not> bit (p 3) 6" "gpio_read_cache (scan_pins ! Suc 0) p = 0 \<longleftrightarrow> \<not> bit (p 3) 5"
  by (simp_all add: gpio_read_cache_def scan_pins_def BUTTON1_def BUTTON2_def GPIO_PD5_def GPIO_PD6_def drop_bit_eq_div and_pow_u8)

lemma pins_num: "[0..<length scan_pins] = [0, Suc 0]" "[0..<length drive_pins] = [0]" "[0..<length drive_pins + 1] = [0, Suc 0]" "length drive_pins = 1"
  by (simp_all add: scan_pins_def drive_pins_def upt_rec)

lemma down_cases:
  obtains "down g = 0" "bit (g 3) 6" "bit (g 3) 5" | "down g = 1" "\<not> bit (g 3) 6" "bit (g 3) 5"
    | "down g = 2" "bit (g 3) 6" "\<not> bit (g 3) 5" | "down g = 3" "\<not> bit (g 3) 6" "\<not> bit (g 3) 5"
  by (cases "bit (g 3) 6"; cases "bit (g 3) 5") (simp_all add: down_def)

definition cache :: "(nat \<Rightarrow> u8) \<Rightarrow> nat \<Rightarrow> u8" where
  "cache g = (\<lambda>i. if i < 4 then g i else 0)"

lemma cache_bits [simp]: "cache g 3 = g 3"
  by (simp add: cache_def)

lemma read_steady: "gpio_in s = (\<lambda>_. g) \<Longrightarrow> gpio_read_all p s = (\<lambda>i. if i < 4 then g i else p i, s)"
  by (simp add: gpio_read_all_def cong: if_cong)

lemma cache_cache [simp]: "(\<lambda>i. if i < 4 then g i else cache g i) = cache g" "(\<lambda>i. if i < 4 then g i else 0) = cache g"
  by (auto simp: cache_def)

lemma key_pressed_steady:
  assumes "gpio_in s = (\<lambda>_. g)"
  shows "kb_key_pressed (\<lambda>_. 0) s =
    (if down g \<noteq> 0 then (down g, cache g, s\<lparr>release_cnt := 5, ret_last := down g\<rparr>)
     else if release_cnt s \<noteq> 0 then (ret_last s, cache g, s\<lparr>release_cnt := release_cnt s - 1\<rparr>)
     else (0, cache g, s))"
  using assms by (cases g rule: down_cases) (simp_all add: kb_key_pressed_def read_steady pins_num pins_down)

lemma scan_row_steady:
  assumes "gpio_in s = (\<lambda>_. g)" "down g = 0 \<or> scan_pin_need s = down g"
  shows "kb_scan_row (cache g) s = (down g, cache g, s)"
  using assms by (cases g rule: down_cases) (auto simp: kb_scan_row_def read_steady pins_num pins_down)

lemma scan_rows_steady:
  assumes "gpio_in s = (\<lambda>_. g)" "down g = 0 \<or> scan_pin_need s = down g"
  shows "scan_rows (cache g) s = ([down g], s)"
  by (simp add: scan_rows_def scan_row_steady [OF assms] pins_num)

lemma debounce_majority:
  assumes "mtrx_last s = [l]" "mtrx_pre s = [p]"
  shows "key_debounce_filter [t] 1 s =
    (of_bool (majority l p t \<noteq> l), [majority l p t], s\<lparr>mtrx_pre := [t], mtrx_last := [majority l p t]\<rparr>)"
proof -
  have "(NOT l AND (p AND t)) OR (l AND (p OR t)) = majority l p t"
    unfolding majority_def by (rule bit_word_eqI) (auto simp: bit_simps)
  then show ?thesis
    using assms by (simp add: key_debounce_filter_def pins_num Let_def)
qed

lemma remap_keys:
  assumes "f < 4" "length (keycode d) = 6" "kb_cnt d = 0"
  shows "take (unat (kb_cnt (kb_remap_key_code [f] KB_RETURN_KEY_MAX d))) (keycode (kb_remap_key_code [f] KB_RETURN_KEY_MAX d)) = keys f"
    "length (keycode (kb_remap_key_code [f] KB_RETURN_KEY_MAX d)) = 6"
proof -
  obtain a b c x y z where k: "keycode d = [a, b, c, x, y, z]"
    using assms(2) by (auto simp: eval_nat_numeral length_Suc_conv)
  have "unat f \<in> {0, 1, 2, 3}"
    using assms(1) by (auto simp: word_less_nat_alt)
  then consider "f = 0" | "f = 1" | "f = 2" | "f = 3"
    by (auto simp: word_unat_eq_iff)
  then show "take (unat (kb_cnt (kb_remap_key_code [f] KB_RETURN_KEY_MAX d))) (keycode (kb_remap_key_code [f] KB_RETURN_KEY_MAX d)) = keys f"
    "length (keycode (kb_remap_key_code [f] KB_RETURN_KEY_MAX d)) = 6"
    using assms(3) k
    by (cases; simp add: kb_remap_key_code_def kb_remap_key_row_def pins_num push_key_def KB_RETURN_KEY_MAX_def keys_def kb_map_normal_def
        drop_bit_eq_div)+
qed

lemma ring_step:
  fixes w :: u32
  assumes "w < 8"
  shows "(w + 1) AND 7 \<noteq> w" "((w + 1) AND 7) - w AND 7 = 1" "(w + 1) AND 7 < 8" "unat (w AND 3) < 4"
proof -
  have "unat w \<in> {0, 1, 2, 3, 4, 5, 6, 7}"
    using assms by (auto simp: word_less_nat_alt)
  then have "w \<in> {0, 1, 2, 3, 4, 5, 6, 7}"
    by (auto simp: word_unat_eq_iff)
  then show "(w + 1) AND 7 \<noteq> w" "((w + 1) AND 7) - w AND 7 = 1" "(w + 1) AND 7 < 8" "unat (w AND 3) < 4"
    by auto
qed

lemma small_iff: "(x :: u32) < 4 \<longleftrightarrow> take_bit 2 x = x"
  by (simp add: word_less_nat_alt word_unat_eq_iff unsigned_take_bit_eq take_bit_nat_eq_self_iff)

lemma majority_small: "l < 4 \<Longrightarrow> p < 4 \<Longrightarrow> t < 4 \<Longrightarrow> majority l p t < 4"
  by (simp add: small_iff majority_def)

lemma down_small: "down g < 4"
  by (cases g rule: down_cases) simp_all

text \<open>
  Between scans the buffer of matrices is empty. \<^verbatim>\<open>release_cnt\<close> counts the scans that are still made after the
  last one with a button down: at 4 the last sample was empty, at 3 the last two were.
\<close>

definition kb_inv :: "u32 \<Rightarrow> u32 \<Rightarrow> kb_state \<Rightarrow> bool" where
  "kb_inv l p s \<longleftrightarrow> mtrx_last s = [l] \<and> mtrx_pre s = [p] \<and> l < 4 \<and> p < 4 \<and>
     matrix_wptr s = matrix_rptr s \<and> matrix_rptr s < 8 \<and> length (matrix_buff s) = 4 \<and> length (keycode (kb_event s)) = 6 \<and>
     release_cnt s \<le> 5 \<and> (release_cnt s \<noteq> 0 \<longrightarrow> ret_last s \<noteq> 0) \<and> (release_cnt s \<le> 4 \<longrightarrow> p = 0) \<and> (release_cnt s \<le> 3 \<longrightarrow> l = 0)"

lemma scan_active:
  assumes "kb_inv l p s" "gpio_in s = (\<lambda>_. g)" "kb_key_pressed (\<lambda>_. 0) s = (need, cache g, s\<lparr>release_cnt := c, ret_last := q\<rparr>)"
    and "need \<noteq> 0" "down g = 0 \<or> need = down g"
  shows "\<exists>s'. kb_scan_key 0 1 s = (of_bool (majority l p (down g) \<noteq> l), s') \<and> mtrx_last s' = [majority l p (down g)] \<and> mtrx_pre s' = [down g] \<and>
    matrix_wptr s' = matrix_rptr s' \<and> matrix_rptr s' < 8 \<and> length (matrix_buff s') = 4 \<and> length (keycode (kb_event s')) = 6 \<and>
    release_cnt s' = c \<and> ret_last s' = q \<and>
    (majority l p (down g) \<noteq> l \<longrightarrow> take (unat (kb_cnt (kb_event s'))) (keycode (kb_event s')) = keys (majority l p (down g)))"
proof -
  let ?f = "majority l p (down g)"
  let ?s3 = "s\<lparr>release_cnt := c, ret_last := q, scan_pin_need := need, kb_event := (kb_event s)\<lparr>kb_cnt := 0, ctrl_key := 0\<rparr>, kb_is_fn_pressed := 0\<rparr>"
  have i: "mtrx_last s = [l]" "mtrx_pre s = [p]" "l < 4" "p < 4" "matrix_wptr s = matrix_rptr s" "matrix_rptr s < 8" "length (matrix_buff s) = 4"
      "length (keycode (kb_event s)) = 6"
    using assms(1) by (simp_all add: kb_inv_def)
  have "scan_rows (cache g) ?s3 = ([down g], ?s3)"
    using assms(2,5) by (intro scan_rows_steady) auto
  moreover have "key_debounce_filter [down g] 1 ?s3 = (of_bool (?f \<noteq> l), [?f], ?s3\<lparr>mtrx_pre := [down g], mtrx_last := [?f]\<rparr>)"
    using i by (intro debounce_majority) simp_all
  moreover have "?f < 4"
    using i(3,4) down_small by (rule majority_small)
  ultimately show ?thesis
    using assms(3,4) i ring_step [OF i(6)]
      remap_keys [of ?f "(kb_event s)\<lparr>kb_cnt := 0, ctrl_key := 0\<rparr>"]
    by (cases "?f = l") (auto simp: kb_scan_key_def push_matrix_def Let_def KB_NUMLOCK_STATUS_INVALID_def)
qed

lemma majority_simps [simp]: "majority 0 0 t = 0" "majority l 0 0 = 0"
  by (simp_all add: majority_def)

lemma scan_step:
  assumes inv: "kb_inv l p s" and g: "gpio_in s = (\<lambda>_. g)"
  defines "f \<equiv> majority l p (down g)"
  shows "\<exists>s'. kb_scan_key 0 1 s = (of_bool (f \<noteq> l), s') \<and> kb_inv f (down g) s' \<and>
    (f \<noteq> l \<longrightarrow> take (unat (kb_cnt (kb_event s'))) (keycode (kb_event s')) = keys f)"
proof -
  have small: "f < 4" "down g < 4"
    using inv down_small by (auto simp: kb_inv_def f_def intro: majority_small)
  consider (down) "down g \<noteq> 0" | (after) "down g = 0" "release_cnt s \<noteq> 0" | (idle) "down g = 0" "release_cnt s = 0"
    by blast
  then show ?thesis
  proof cases
    case down
    then have "kb_key_pressed (\<lambda>_. 0) s = (down g, cache g, s\<lparr>release_cnt := 5, ret_last := down g\<rparr>)"
      using key_pressed_steady [OF g] by simp
    from scan_active [OF inv g this down] show ?thesis
      using small down by (auto simp: kb_inv_def f_def)
  next
    case after
    then have k: "kb_key_pressed (\<lambda>_. 0) s = (ret_last s, cache g, s\<lparr>release_cnt := release_cnt s - 1, ret_last := ret_last s\<rparr>)"
      using key_pressed_steady [OF g] by simp
    have u: "unat (release_cnt s - 1) = unat (release_cnt s) - 1"
      using after(2) by (rule unat_minus_one)
    have c: "unat (release_cnt s) \<le> 5" "ret_last s \<noteq> 0"
        "unat (release_cnt s) \<le> 4 \<Longrightarrow> p = 0"
      using inv after by (auto simp: kb_inv_def word_le_nat_alt unat_eq_0)
    have "release_cnt s - 1 \<le> 5" "release_cnt s - 1 \<le> 3 \<Longrightarrow> f = 0"
      using u c after(1) by (auto simp: word_le_nat_alt f_def)
    then show ?thesis
      using scan_active [OF inv g k c(2)] small after(1) c(2) by (auto simp: kb_inv_def f_def)
  next
    case idle
    then have l: "l = 0" "p = 0" "f = 0"
      using inv by (auto simp: kb_inv_def f_def)
    have "kb_scan_key 0 1 s = (0, s\<lparr>scan_pin_need := 0\<rparr>)"
      using key_pressed_steady [OF g] idle by (simp add: kb_scan_key_def)
    then show ?thesis
      using inv l idle by (auto simp: kb_inv_def)
  qed
qed

lemma kb_calls_inv: "kb_inv l p s \<Longrightarrow> kb_calls gs s = changes l (debounced l p (map down gs))"
proof (induction gs arbitrary: l p s)
  case (Cons g gs)
  have "kb_inv l p (s\<lparr>gpio_in := \<lambda>_. g\<rparr>)"
    using Cons.prems by (simp add: kb_inv_def)
  from scan_step [OF this, of g] obtain s' where "kb_scan_key 0 1 (s\<lparr>gpio_in := \<lambda>_. g\<rparr>) = (of_bool (majority l p (down g) \<noteq> l), s')"
      "kb_inv (majority l p (down g)) (down g) s'"
      "majority l p (down g) \<noteq> l \<longrightarrow> take (unat (kb_cnt (kb_event s'))) (keycode (kb_event s')) = keys (majority l p (down g))"
    by auto
  then show ?case
    using Cons.IH by auto
qed simp

section \<open>Properties\<close>

text \<open>
  C16. Scanning is equivalent to a per-line filter that looks at every sample. The driver samples the lines only
  while a button is down and for a few scans afterwards, and passes the filtered matrices through a
  ring buffer; yet for every sequence of input levels, from the state after reset, each scan returns an event exactly
  when the majority of the level reported before and the last two samples changes, and the event
  has the codes of exactly the keys that are down after the change. So a disturbance of a single sample is never reported, and
  every press and every release that lasts two scans is.\<close>

theorem kb_scan_key_debounces:
  "kb_calls gs kb_reset = changes 0 (debounced 0 0 (map down gs))"
  by (rule kb_calls_inv) (simp add: kb_inv_def kb_reset_def)

end
