(* ===== verification/App_Sec.thy ===== *)
theory App_Sec
  imports Mac_Pib
begin

text \<open>
  The security descriptors that both demo applications build: device, key, key usage and key identifier
  descriptors. \<^verbatim>\<open>mac_deviceDesc_alloc\<close> and the other functions of \<^verbatim>\<open>ieee802154/mac/includes/mac_security.h\<close> are in
  the MAC library, a binary: they are the parameter \<open>D\<close>, functions of the memory. Their contract is the
  locale \<open>mac_descs\<close>. The fields of a device descriptor are read from memory by their offsets.
\<close>

section \<open>The library's descriptors\<close>

record sec_lib =
  mac_keyidDesc_alloc :: "wmem \<Rightarrow> addr \<times> wmem"
  mac_deviceDesc_alloc :: "wmem \<Rightarrow> addr \<times> wmem"
  mac_keydevDesc_alloc :: "wmem \<Rightarrow> addr \<times> wmem"
  mac_keyusageDesc_alloc :: "wmem \<Rightarrow> addr \<times> wmem"
  mac_keyDesc_alloc :: "wmem \<Rightarrow> addr \<times> wmem"
  mac_keyidDesc_set :: "addr \<Rightarrow> u8 \<Rightarrow> u8 list \<Rightarrow> wmem \<Rightarrow> wmem"
  mac_deviceDesc_set :: "addr \<Rightarrow> u16 \<Rightarrow> u16 \<Rightarrow> u8 list \<Rightarrow> u32 \<Rightarrow> bool \<Rightarrow> wmem \<Rightarrow> wmem"
  mac_deviceDesc_reset :: "addr \<Rightarrow> u16 \<Rightarrow> u16 \<Rightarrow> u8 list \<Rightarrow> u32 \<Rightarrow> bool \<Rightarrow> wmem \<Rightarrow> wmem"
  mac_keydevDesc_set :: "addr \<Rightarrow> addr \<Rightarrow> bool \<Rightarrow> bool \<Rightarrow> wmem \<Rightarrow> wmem"
  mac_keyusageDesc_set :: "addr \<Rightarrow> u8 \<Rightarrow> u8 \<Rightarrow> wmem \<Rightarrow> wmem"
  mac_keyDesc_set :: "addr \<Rightarrow> addr list \<Rightarrow> addr list \<Rightarrow> addr list \<Rightarrow> u8 list \<Rightarrow> wmem \<Rightarrow> wmem"

text \<open>
  \<^verbatim>\<open>mac_deviceDesc_t\<close>, packed: the link at 0, the frame counter at 4, the PAN identifier and the short address
  in the word at 8, the long address in the words at 12 and 16.
\<close>

definition short_address :: "wmem \<Rightarrow> addr \<Rightarrow> u16" where
  "short_address m p = ucast (drop_bit 16 (m (p + 8)))"

definition long_address :: "wmem \<Rightarrow> addr \<Rightarrow> u8 list" where
  "long_address m p = map (mem_byte m (p + 12)) [0..<4] @ map (mem_byte m (p + 16)) [0..<4]"

text \<open>The key material of the demos.\<close>

definition LOOKUP_DATA_SIZE_9 :: u8 where "LOOKUP_DATA_SIZE_9 = 1"
definition default_key_source :: "u8 list" where "default_key_source = [0, 1, 2, 3, 4, 5, 6, 7]"
definition default_key_index :: u8 where "default_key_index = 0xa5"
definition test_key :: "u8 list" where
  "test_key = [0x00, 0x11, 0x22, 0x33, 0x44, 0x55, 0x66, 0x77, 0x88, 0x99, 0xaa, 0xbb, 0xcc, 0xdd, 0xee, 0xff]"
definition ZB_MAC_SECURITY :: u8 where "ZB_MAC_SECURITY = 1"

text \<open>
  The descriptors that all keys share, allocated by \<^verbatim>\<open>dev_config\<close> and \<^verbatim>\<open>coor_config\<close>: two key usage
  descriptors and the key identifier. An allocation that fails stops the program for good
  (\<^verbatim>\<open>while(1)\<close>), the result \<open>None\<close>.
\<close>

definition common_material :: "sec_lib \<Rightarrow> wmem \<Rightarrow> (addr list \<times> addr \<times> wmem) option" where
  "common_material D m =
     (let (u0, m1) = mac_keyusageDesc_alloc D m in
      if u0 = NULL then None
      else
        let m2 = mac_keyusageDesc_set D u0 1 0 m1; (u1, m3) = mac_keyusageDesc_alloc D m2 in
        if u1 = NULL then None
        else
          let m4 = mac_keyusageDesc_set D u1 3 4 m3; (k, m5) = mac_keyidDesc_alloc D m4 in
          if k = NULL then None
          else Some ([u0, u1], k, mac_keyidDesc_set D k LOOKUP_DATA_SIZE_9 (default_key_source @ [default_key_index]) m5))"

section \<open>Attributes as bytes\<close>

text \<open>The bytes of entry \<open>j\<close> of the attribute table in the PIB, and of a plain attribute.\<close>

definition entry_bytes :: "nat \<Rightarrow> 'a sdk_state_scheme \<Rightarrow> u8 list" where
  "entry_bytes j s = map (\<lambda>k. g_zbMacPib s (tbl_offset (g_zbMacPibTbl ! j) + k)) [0..<unat (tbl_len (g_zbMacPibTbl ! j))]"

definition attr_bytes :: "u8 \<Rightarrow> 'a sdk_state_scheme \<Rightarrow> u8 list" where
  "attr_bytes a s = entry_bytes (unat a - 64) s"

lemma entry_bytes_cong: "g_zbMacPib t = g_zbMacPib s \<Longrightarrow> entry_bytes j t = entry_bytes j s"
  by (simp add: entry_bytes_def)

lemma attr_bytes_cong: "g_zbMacPib t = g_zbMacPib s \<Longrightarrow> attr_bytes a t = attr_bytes a s"
  unfolding attr_bytes_def by (rule entry_bytes_cong)

lemma attr_set:
  assumes "plain_attr a" "unat n = unat (tbl_len (g_zbMacPibTbl ! (unat a - 64)))"
  shows "\<exists>P. tl_zbMacAttrSet L V a v buf n s = Some (MAC_SUCCESS, buf, s\<lparr>g_zbMacPib := P\<rparr>) \<and>
    attr_bytes a (s\<lparr>g_zbMacPib := P\<rparr>) = map buf [0..<unat n] \<and>
    (\<forall>j<46. j \<noteq> unat a - 64 \<longrightarrow> entry_bytes j (s\<lparr>g_zbMacPib := P\<rparr>) = entry_bytes j s)"
proof -
  let ?e = "g_zbMacPibTbl ! (unat a - 64)"
  let ?P = "copy_bytes (g_zbMacPib s) (tbl_offset ?e) buf 0 (unat n)"
  have "unat a - 64 < 46"
    using plain_attr_index(4) [OF assms(1)] by simp
  then have "entry_bytes j (s\<lparr>g_zbMacPib := ?P\<rparr>) = entry_bytes j s" if "j < 46" "j \<noteq> unat a - 64" for j
  proof -
    let ?f = "g_zbMacPibTbl ! j"
    have "tbl_offset ?f + unat (tbl_len ?f) \<le> tbl_offset ?e \<or> tbl_offset ?e + unat n \<le> tbl_offset ?f"
      unfolding assms(2) by (rule tbl_apart) fact+
    then have "\<not> (tbl_offset ?e \<le> tbl_offset ?f + k \<and> tbl_offset ?f + k < tbl_offset ?e + unat n)" if "k < unat (tbl_len ?f)" for k
      using that by linarith
    then show ?thesis
      unfolding entry_bytes_def copy_bytes_def by (intro map_cong) auto
  qed
  moreover have "attr_bytes a (s\<lparr>g_zbMacPib := ?P\<rparr>) = map buf [0..<unat n]"
    using assms(2) by (simp add: attr_bytes_def entry_bytes_def copy_bytes_def)
  ultimately show ?thesis
    using set_plain [OF assms(1), of n L V v buf s] assms(2) by auto
qed

lemma attr_get:
  assumes "plain_attr a"
  shows "\<exists>d l. tl_zbMacAttrGet L a b i s = Some (MAC_SUCCESS, d, l) \<and> (\<forall>k < length (attr_bytes a s). d k = attr_bytes a s ! k)"
  using get_plain [OF assms, of L b i s] by (auto simp: attr_bytes_def entry_bytes_def copy_bytes_def)

lemma attr_lens:
  "unat (tbl_len (g_zbMacPibTbl ! (unat MAC_ATTR_PAN_ID - 64))) = 2"
  "unat (tbl_len (g_zbMacPibTbl ! (unat MAC_ATTR_COORDINATOR_SHORT_ADDRESS - 64))) = 2"
  "unat (tbl_len (g_zbMacPibTbl ! (unat MAC_ATTR_COORDINATOR_EXTENDED_ADDRESS - 64))) = 8"
  by (simp_all add: mac_attr_defs g_zbMacPibTbl_def tbl_def)

lemma plain_attrs:
  "plain_attr MAC_ATTR_PAN_ID" "plain_attr MAC_ATTR_COORDINATOR_SHORT_ADDRESS" "plain_attr MAC_ATTR_COORDINATOR_EXTENDED_ADDRESS"
  by (simp_all add: plain_attr_def mac_attr_defs)

section \<open>The contract of the library\<close>

definition dev_desc :: "wmem \<Rightarrow> addr \<Rightarrow> u8 list \<times> u16" where
  "dev_desc m p = (long_address m p, short_address m p)"

text \<open>
  What a call leaves alone: the memory outside \<open>own\<close>, the lists with a head in \<open>heads\<close> and items in \<open>nodes\<close>,
  and the addresses in the descriptors \<open>devs\<close>.
\<close>

definition keeps ::
  "(wmem \<Rightarrow> addr \<Rightarrow> addr list \<Rightarrow> bool) \<Rightarrow> addr set \<Rightarrow> addr set \<Rightarrow> addr set \<Rightarrow> addr set \<Rightarrow> wmem \<Rightarrow> wmem \<Rightarrow> bool" where
  "keeps rep own heads nodes devs m m' \<longleftrightarrow>
     (\<forall>a. a \<notin> own \<longrightarrow> m' a = m a) \<and>
     (\<forall>l xs. l \<in> heads \<and> set xs \<subseteq> nodes \<and> rep m l xs \<longrightarrow> rep m' l xs) \<and>
     (\<forall>p \<in> devs. dev_desc m' p = dev_desc m p)"

lemma keepsD:
  assumes "keeps rep own heads nodes devs m m'"
  shows "l \<in> heads \<Longrightarrow> set xs \<subseteq> nodes \<Longrightarrow> rep m l xs \<Longrightarrow> rep m' l xs" "p \<in> devs \<Longrightarrow> dev_desc m' p = dev_desc m p"
    "a \<notin> own \<Longrightarrow> m' a = m a"
  using assms by (simp_all add: keeps_def)

text \<open>
  The descriptors are taken from three pools, of device, key device and key descriptors. \<open>dfree\<close>, \<open>kdfree\<close>
  and \<open>kfree\<close> are the unused ones: an allocation takes one of them or fails when there is none. Filling in a
  descriptor changes that descriptor only. Adding an item to a table changes links only. None of
  this depends on memory outside \<open>own\<close>.
\<close>

locale mac_descs = tn_lists L rep for L :: tn_lib and rep :: "wmem \<Rightarrow> addr \<Rightarrow> addr list \<Rightarrow> bool" +
  fixes D :: sec_lib
    and own heads slots kdslots kslots :: "addr set"
    and dfree kdfree kfree :: "wmem \<Rightarrow> addr set"
  assumes pools: "NULL \<notin> slots \<union> kdslots \<union> kslots" "heads \<inter> (slots \<union> kslots) = {}" "slots \<inter> kslots = {}"
      "dfree m \<subseteq> slots" "kdfree m \<subseteq> kdslots" "kfree m \<subseteq> kslots"
    and dev_alloc: "mac_deviceDesc_alloc D m = (p, m') \<Longrightarrow>
      (if dfree m = {} then p = NULL else p \<in> dfree m) \<and> dfree m' = dfree m - {p} \<and> kdfree m' = kdfree m \<and> kfree m' = kfree m \<and>
      keeps rep own heads (slots - dfree m \<union> (kslots - kfree m)) (slots - dfree m) m m'"
    and kd_alloc: "mac_keydevDesc_alloc D m = (p, m') \<Longrightarrow>
      (if kdfree m = {} then p = NULL else p \<in> kdfree m) \<and> dfree m' = dfree m \<and> kdfree m' = kdfree m - {p} \<and> kfree m' = kfree m \<and>
      keeps rep own heads (slots - dfree m \<union> (kslots - kfree m)) (slots - dfree m) m m'"
    and key_alloc: "mac_keyDesc_alloc D m = (p, m') \<Longrightarrow>
      (if kfree m = {} then p = NULL else p \<in> kfree m) \<and> dfree m' = dfree m \<and> kdfree m' = kdfree m \<and> kfree m' = kfree m - {p} \<and>
      keeps rep own heads (slots - dfree m \<union> (kslots - kfree m)) (slots - dfree m) m m'"
    and dev_set: "p \<in> slots \<Longrightarrow> length ext = 8 \<Longrightarrow> m' = mac_deviceDesc_set D p pan sh ext fc ex m \<Longrightarrow>
      dev_desc m' p = (ext, sh) \<and> dfree m' = dfree m \<and> kdfree m' = kdfree m \<and> kfree m' = kfree m \<and>
      keeps rep own heads (slots \<union> kslots) (slots - {p}) m m'"
    and dev_reset: "p \<in> slots \<Longrightarrow> length ext = 8 \<Longrightarrow> m' = mac_deviceDesc_reset D p pan sh ext fc ex m \<Longrightarrow>
      dev_desc m' p = (ext, sh) \<and> dfree m' = dfree m \<and> kdfree m' = kdfree m \<and> kfree m' = kfree m \<and>
      keeps rep own heads (slots \<union> kslots) (slots - {p}) m m'"
    and kd_set: "p \<in> kdslots \<Longrightarrow> m' = mac_keydevDesc_set D p dev u b m \<Longrightarrow>
      dfree m' = dfree m \<and> kdfree m' = kdfree m \<and> kfree m' = kfree m \<and> keeps rep own heads (slots \<union> kslots) slots m m'"
    and key_set: "p \<in> kslots \<Longrightarrow> m' = mac_keyDesc_set D p ids kds us key m \<Longrightarrow>
      dfree m' = dfree m \<and> kdfree m' = kdfree m \<and> kfree m' = kfree m \<and> keeps rep own heads (slots \<union> kslots) slots m m'"
    and table_add: "l \<in> heads \<Longrightarrow> rep m l xs \<Longrightarrow> set (x # xs) \<subseteq> slots \<union> kslots \<Longrightarrow> x \<notin> set xs \<Longrightarrow> m' = tn_list_add L l x m \<Longrightarrow>
      dfree m' = dfree m \<and> kdfree m' = kdfree m \<and> kfree m' = kfree m \<and>
      keeps rep own (heads - {l}) (slots \<union> kslots - set (x # xs)) slots m m'"
    and outside: "(\<And>a. a \<in> own \<Longrightarrow> m' a = m a) \<Longrightarrow>
      dfree m' = dfree m \<and> kdfree m' = kdfree m \<and> kfree m' = kfree m \<and> keeps rep UNIV heads (slots \<union> kslots) slots m m'"

section \<open>An implementation of the contract\<close>

text \<open>Three pools of sixteen descriptors, each handed out in order, and lists as in \<^verbatim>\<open>proj/common/list.c\<close>.\<close>

definition bump :: "addr \<Rightarrow> u32 \<Rightarrow> addr \<Rightarrow> wmem \<Rightarrow> addr \<times> wmem" where
  "bump c sz base m = (if m c < 16 then (base + sz * m c, m(c := m c + 1)) else (NULL, m))"

definition unused :: "addr \<Rightarrow> u32 \<Rightarrow> addr \<Rightarrow> wmem \<Rightarrow> addr set" where
  "unused c sz base m = {base + sz * i | i. m c \<le> i \<and> i < 16}"

definition demo_heads :: "addr set" where "demo_heads = {0x960, 0x970}"
definition demo_own :: "addr set" where "demo_own = {0x900000..<0x904000} \<union> demo_heads"
definition demo_slots :: "addr set" where "demo_slots = {0x901000 + 24 * i | i. i < 16}"
definition demo_kdslots :: "addr set" where "demo_kdslots = {0x902000 + 16 * i | i. i < 16}"
definition demo_kslots :: "addr set" where "demo_kslots = {0x903000 + 48 * i | i. i < 16}"

definition demo_dev_set :: "addr \<Rightarrow> u16 \<Rightarrow> u16 \<Rightarrow> u8 list \<Rightarrow> u32 \<Rightarrow> bool \<Rightarrow> wmem \<Rightarrow> wmem" where
  "demo_dev_set p pan sh ext fc ex m =
     m(p + 4 := fc, p + 8 := ucast pan OR push_bit 16 (ucast sh), p + 12 := le32 (nth ext) 0, p + 16 := le32 (nth ext) 4)"

definition demo_sec_lib :: sec_lib where
  "demo_sec_lib =
     \<lparr>mac_keyidDesc_alloc = (\<lambda>m. (0x904000, m)), mac_deviceDesc_alloc = bump 0x900000 24 0x901000,
      mac_keydevDesc_alloc = bump 0x900004 16 0x902000, mac_keyusageDesc_alloc = (\<lambda>m. (0x904100, m)),
      mac_keyDesc_alloc = bump 0x900008 48 0x903000, mac_keyidDesc_set = (\<lambda>p sz d m. m),
      mac_deviceDesc_set = demo_dev_set, mac_deviceDesc_reset = demo_dev_set,
      mac_keydevDesc_set = (\<lambda>p dev u b m. m(p + 4 := dev, p + 8 := of_bool u OR push_bit 8 (of_bool b))),
      mac_keyusageDesc_set = (\<lambda>p t c m. m),
      mac_keyDesc_set = (\<lambda>p ids kds us key m. m(p + 8 := hd ids, p + 16 := hd kds, p + 24 := hd us))\<rparr>"

lemma slot_addr:
  fixes b sz i :: u32
  assumes "i < 16" "unat b + unat sz * 16 < 2 ^ 32"
  shows "unat (b + sz * i) = unat b + unat sz * unat i"
proof -
  have "unat i \<le> 16" using assms(1) by (simp add: word_less_nat_alt)
  then have "unat sz * unat i \<le> unat sz * 16" by (rule mult_le_mono2)
  then have lt: "unat b + unat sz * unat i < 2 ^ 32" using assms(2) by (rule le_less_trans [OF add_left_mono])
  then have "unat (sz * i) = unat sz * unat i" by (simp add: unat_word_ariths)
  then show ?thesis using lt by (simp add: unat_word_ariths)
qed

lemma slot_unat:
  "p \<in> demo_slots \<Longrightarrow> \<exists>i<16. unat p = 0x901000 + 24 * i"
  "p \<in> demo_kdslots \<Longrightarrow> \<exists>i<16. unat p = 0x902000 + 16 * i"
  "p \<in> demo_kslots \<Longrightarrow> \<exists>i<16. unat p = 0x903000 + 48 * i"
  using slot_addr [of _ "0x901000" 24] slot_addr [of _ "0x902000" 16] slot_addr [of _ "0x903000" 48]
  by (force simp: demo_slots_def demo_kdslots_def demo_kslots_def word_less_nat_alt)+

lemma slot_inj:
  fixes b sz i j :: u32
  assumes "b + sz * i = b + sz * j" "i < 16" "j < 16" "unat sz * 16 < 2 ^ 32" "sz \<noteq> 0"
  shows "i = j"
proof -
  have "unat (0 + sz * i) = unat (0 + sz * j)"
    using assms(1) by simp
  then have "unat sz * unat i = unat sz * unat j"
    using slot_addr [OF assms(2), of 0 sz] slot_addr [OF assms(3), of 0 sz] assms(4) by simp
  then show ?thesis
    using assms(5) by (simp add: word_unat_eq_iff)
qed

lemma bump_unused:
  assumes "bump c sz base m = (p, m')" "unat sz * 16 < 2 ^ 32" "sz \<noteq> 0"
  shows "if unused c sz base m = {} then p = NULL else p \<in> unused c sz base m" "unused c sz base m' = unused c sz base m - {p}"
    "\<And>a. a \<noteq> c \<Longrightarrow> m' a = m a"
proof -
  have e: "unused c sz base m = {} \<longleftrightarrow> \<not> m c < 16"
    unfolding unused_def by (auto intro: leD)
  show "if unused c sz base m = {} then p = NULL else p \<in> unused c sz base m"
    using assms(1) e by (auto simp: bump_def unused_def split: if_splits)
  show "m' a = m a" if "a \<noteq> c" for a
    using assms(1) that by (auto simp: bump_def split: if_splits)
  show "unused c sz base m' = unused c sz base m - {p}"
  proof (cases "m c < 16")
    case True
    then have p: "p = base + sz * m c" "m' c = m c + 1"
      using assms(1) by (auto simp: bump_def)
    have "unat (m c + 1) = unat (m c) + 1"
      using True by (intro unat_inc_no_wrap) (auto simp: word_less_nat_alt)
    then have "m c + 1 \<le> i \<longleftrightarrow> m c \<le> i \<and> i \<noteq> m c" if "i < 16" for i
      by (auto simp: word_le_nat_alt word_unat_eq_iff)
    then have "base + sz * i \<in> unused c sz base m' \<longleftrightarrow> base + sz * i \<in> unused c sz base m \<and> base + sz * i \<noteq> p" if "i < 16" for i
      using that True slot_inj [OF _ that _ assms(2,3)] by (auto simp: unused_def p)
    moreover have "\<exists>i<16. x = base + sz * i" if "x \<in> unused c sz base n" for x n
      using that by (auto simp: unused_def)
    ultimately show ?thesis
      by blast
  next
    case False
    then show ?thesis
      using assms(1) e by (auto simp: bump_def)
  qed
qed

lemma keeps_writes:
  assumes "\<And>a. a \<notin> W \<Longrightarrow> m' a = m a" "W \<subseteq> own" "W \<inter> (heads \<union> nodes) = {}"
    and "\<And>p. p \<in> devs \<Longrightarrow> p + 8 \<notin> W \<and> p + 12 \<notin> W \<and> p + 16 \<notin> W"
  shows "keeps list_rep own heads nodes devs m m'"
proof -
  have "list_rep m' l xs" if "l \<in> heads" "set xs \<subseteq> nodes" "list_rep m l xs" for l xs
  proof -
    have "m' a = m a" if "a \<in> insert l (set xs)" for a
      using that \<open>l \<in> heads\<close> \<open>set xs \<subseteq> nodes\<close> assms(3) by (intro assms(1)) auto
    moreover have "chain m' p xs = chain m p xs" if "\<And>a. a \<in> set xs \<Longrightarrow> m' a = m a" for p
      using that by (induction xs arbitrary: p) auto
    ultimately show ?thesis
      using that(3) by (simp add: list_rep_def)
  qed
  moreover have "dev_desc m' p = dev_desc m p" if "p \<in> devs" for p
    using assms(1) assms(4) [OF that] by (simp add: dev_desc_def long_address_def short_address_def mem_byte_def)
  ultimately show ?thesis
    using assms(1,2) unfolding keeps_def by blast
qed

lemma demo_pool_sets:
  assumes "p \<in> demo_slots \<union> demo_kdslots \<union> demo_kslots"
  shows "0x901000 \<le> unat p" "unat p + 24 < 0x904000"
  using assms slot_unat by force+

lemma demo_off:
  assumes "p \<in> demo_slots \<union> demo_kdslots \<union> demo_kslots" "unat d \<le> 24"
  shows "unat (p + d) = unat p + unat d"
  using demo_pool_sets [OF assms(1)] assms(2) by (simp add: unat_word_ariths)

text \<open>Writes to the counters or to fields keep the lists; the fields of two device descriptors are apart.\<close>

lemma demo_keeps:
  assumes "\<And>a. a \<notin> W \<Longrightarrow> m' a = m a" "\<And>w. w \<in> W \<Longrightarrow> 0x900000 \<le> unat w \<and> unat w < 0x904000 \<and> w \<notin> demo_slots \<union> demo_kslots"
    and "nodes \<subseteq> demo_slots \<union> demo_kslots" "\<And>p. p \<in> devs \<Longrightarrow> p + 8 \<notin> W \<and> p + 12 \<notin> W \<and> p + 16 \<notin> W"
  shows "keeps list_rep demo_own demo_heads nodes devs m m'"
proof (rule keeps_writes)
  show "W \<subseteq> demo_own"
    using assms(2) by (auto simp: demo_own_def word_le_nat_alt word_less_nat_alt)
  have "unat w \<noteq> 0x960 \<and> unat w \<noteq> 0x970" if "w \<in> W" for w
    using assms(2) [OF that] by auto
  then show "W \<inter> (demo_heads \<union> nodes) = {}"
    using assms(2,3) by (fastforce simp: demo_heads_def)
qed (use assms in auto)

lemma demo_counter_keeps:
  assumes "\<And>a. a \<noteq> c \<Longrightarrow> m' a = m a" "c \<in> {0x900000, 0x900004, 0x900008}" "nodes \<subseteq> demo_slots \<union> demo_kslots" "devs \<subseteq> demo_slots"
  shows "keeps list_rep demo_own demo_heads nodes devs m m'"
proof (rule demo_keeps [of "{c}"])
  have c: "0x900000 \<le> unat c" "unat c < 0x901000"
    using assms(2) by auto
  then show "0x900000 \<le> unat w \<and> unat w < 0x904000 \<and> w \<notin> demo_slots \<union> demo_kslots" if "w \<in> {c}" for w
    using that demo_pool_sets(1) [of w] by auto
  show "p + 8 \<notin> {c} \<and> p + 12 \<notin> {c} \<and> p + 16 \<notin> {c}" if "p \<in> devs" for p
  proof -
    have p: "p \<in> demo_slots \<union> demo_kdslots \<union> demo_kslots"
      using that assms(4) by auto
    have "unat (p + d) \<noteq> unat c" if "unat d \<le> 24" for d
      using demo_off [OF p that] demo_pool_sets(1) [OF p] c by simp
    from this [of 8] this [of 12] this [of 16] show ?thesis
      by auto
  qed
qed (use assms in auto)

lemma unused_cong: "m' c = m c \<Longrightarrow> unused c sz base m' = unused c sz base m"
  by (simp add: unused_def)

lemma demo_alloc:
  assumes "bump c sz base m = (p, m')" "(c, sz, base) \<in> {(0x900000, 24, 0x901000), (0x900004, 16, 0x902000), (0x900008, 48, 0x903000)}"
  shows "if unused c sz base m = {} then p = NULL else p \<in> unused c sz base m" "unused c sz base m' = unused c sz base m - {p}"
    "c' \<noteq> c \<Longrightarrow> unused c' sz' base' m' = unused c' sz' base' m"
    "keeps list_rep demo_own demo_heads (demo_slots - A \<union> (demo_kslots - B)) (demo_slots - A) m m'"
proof -
  have s: "unat sz * 16 < 2 ^ 32" "sz \<noteq> 0"
    using assms(2) by auto
  show "if unused c sz base m = {} then p = NULL else p \<in> unused c sz base m" "unused c sz base m' = unused c sz base m - {p}"
    "c' \<noteq> c \<Longrightarrow> unused c' sz' base' m' = unused c' sz' base' m"
    using bump_unused [OF assms(1) s] unused_cong [of m' c' m] by auto
  show "keeps list_rep demo_own demo_heads (demo_slots - A \<union> (demo_kslots - B)) (demo_slots - A) m m'"
    using assms(2) by (intro demo_counter_keeps [OF bump_unused(3) [OF assms(1) s]]) auto
qed

lemma le32_byte: "k < 4 \<Longrightarrow> ucast (drop_bit (8 * k) (le32 f n)) = f (n + k)"
proof -
  assume "k < 4"
  then consider "k = 0" | "k = 1" | "k = 2" | "k = 3" by linarith
  then show ?thesis
    unfolding le32_def by cases (rule bit_word_eqI, auto simp: bit_simps dest: bit_imp_le_length)+
qed

lemma le32_put_ptr: "le32 (put_ptr p b) 0 = p"
  by (simp add: le32_def put_ptr_def) (rule bit_word_eqI, auto simp: bit_simps not_less, rule ccontr, simp)

lemma short_half: "ucast (drop_bit 16 (ucast (pan :: u16) OR push_bit 16 (ucast sh) :: u32)) = (sh :: u16)"
  by (rule bit_word_eqI) (auto simp: bit_simps dest: bit_imp_le_length)

lemma demo_dev_set_desc: "length ext = 8 \<Longrightarrow> dev_desc (demo_dev_set p pan sh ext fc ex m) p = (ext, sh)"
proof -
  assume "length ext = 8"
  then have "ext = map (nth ext) [0..<4] @ map (\<lambda>k. ext ! (4 + k)) [0..<4]"
    by (intro nth_equalityI) (auto simp: nth_append)
  moreover have "long_address (demo_dev_set p pan sh ext fc ex m) p = map (nth ext) [0..<4] @ map (\<lambda>k. ext ! (4 + k)) [0..<4]"
    by (simp add: long_address_def demo_dev_set_def mem_byte_def le32_byte)
  moreover have "demo_dev_set p pan sh ext fc ex m (p + 8) = ucast pan OR push_bit 16 (ucast sh)"
    by (simp add: demo_dev_set_def)
  then have "short_address (demo_dev_set p pan sh ext fc ex m) p = sh"
    by (simp only: short_address_def short_half)
  ultimately show ?thesis
    by (simp add: dev_desc_def)
qed

lemma demo_dev_set_keeps:
  assumes "p \<in> demo_slots" "\<And>a. a \<notin> {p + 4, p + 8, p + 12, p + 16} \<Longrightarrow> m' a = m a"
  shows "unused 0x900000 24 0x901000 m' = unused 0x900000 24 0x901000 m" "unused 0x900004 16 0x902000 m' = unused 0x900004 16 0x902000 m"
    "unused 0x900008 48 0x903000 m' = unused 0x900008 48 0x903000 m"
    "keeps list_rep demo_own demo_heads (demo_slots \<union> demo_kslots) (demo_slots - {p}) m m'"
proof -
  obtain i where i: "i < 16" "unat p = 0x901000 + 24 * i"
    using slot_unat(1) [OF assms(1)] by blast
  have u: "unat (p + 4) = unat p + 4" "unat (p + 8) = unat p + 8" "unat (p + 12) = unat p + 12" "unat (p + 16) = unat p + 16"
    using demo_off [of p] assms(1) by simp_all
  have c: "m' a = m a" if "unat a < 0x901000" for a
    using that u i by (intro assms(2)) auto
  show "unused 0x900000 24 0x901000 m' = unused 0x900000 24 0x901000 m" "unused 0x900004 16 0x902000 m' = unused 0x900004 16 0x902000 m"
    "unused 0x900008 48 0x903000 m' = unused 0x900008 48 0x903000 m"
    by (rule unused_cong, rule c, simp)+
  show "keeps list_rep demo_own demo_heads (demo_slots \<union> demo_kslots) (demo_slots - {p}) m m'"
  proof (rule demo_keeps [OF assms(2)])
    fix w assume "w \<in> {p + 4, p + 8, p + 12, p + 16}"
    then have w: "unat w \<in> {unat p + 4, unat p + 8, unat p + 12, unat p + 16}"
      using u by auto
    have "w \<notin> demo_slots \<union> demo_kslots"
    proof
      assume "w \<in> demo_slots \<union> demo_kslots"
      then obtain j where "j < 16" "unat w = 0x901000 + 24 * j \<or> unat w = 0x903000 + 48 * j"
        using slot_unat [of w] by blast
      then show False
        using w i by auto presburger+
    qed
    then show "0x900000 \<le> unat w \<and> unat w < 0x904000 \<and> w \<notin> demo_slots \<union> demo_kslots"
      using w i by auto
  next
    fix q assume q: "q \<in> demo_slots - {p}"
    then obtain j where j: "j < 16" "unat q = 0x901000 + 24 * j" "i \<noteq> j"
      using slot_unat(1) [of q] i by (auto simp: word_unat_eq_iff)
    have v: "unat (q + 8) = unat q + 8" "unat (q + 12) = unat q + 12" "unat (q + 16) = unat q + 16"
      using demo_off [of q] q by simp_all
    have "unat a \<noteq> unat b" if "a \<in> {q + 8, q + 12, q + 16}" "b \<in> {p + 4, p + 8, p + 12, p + 16}" for a b
      using that u v i j by auto
    then show "q + 8 \<notin> {p + 4, p + 8, p + 12, p + 16} \<and> q + 12 \<notin> {p + 4, p + 8, p + 12, p + 16} \<and> q + 16 \<notin> {p + 4, p + 8, p + 12, p + 16}"
      by blast
  qed auto
qed

lemma demo_slot_low: "p \<in> demo_slots \<Longrightarrow> unat p + 24 < 0x902000"
  using slot_unat(1) [of p] by auto

lemma demo_high_keeps:
  assumes "\<And>a. a \<notin> W \<Longrightarrow> m' a = m a" "\<And>w. w \<in> W \<Longrightarrow> 0x902000 \<le> unat w \<and> unat w < 0x904000 \<and> w \<notin> demo_kslots"
  shows "unused 0x900000 24 0x901000 m' = unused 0x900000 24 0x901000 m \<and> unused 0x900004 16 0x902000 m' = unused 0x900004 16 0x902000 m \<and>
    unused 0x900008 48 0x903000 m' = unused 0x900008 48 0x903000 m \<and>
    keeps list_rep demo_own demo_heads (demo_slots \<union> demo_kslots) demo_slots m m'"
proof -
  have low: "a \<notin> W" if "unat a < 0x902000" for a
    using that assms(2) [of a] by auto
  have c: "m' a = m a" if "unat a < 0x902000" for a
    using assms(1) [OF low [OF that]] .
  have "keeps list_rep demo_own demo_heads (demo_slots \<union> demo_kslots) demo_slots m m'"
  proof (rule demo_keeps [OF assms(1)])
    show "0x900000 \<le> unat w \<and> unat w < 0x904000 \<and> w \<notin> demo_slots \<union> demo_kslots" if "w \<in> W" for w
      using assms(2) [OF that] demo_slot_low [of w] by auto
    show "p + 8 \<notin> W \<and> p + 12 \<notin> W \<and> p + 16 \<notin> W" if "p \<in> demo_slots" for p
      using demo_slot_low [OF that] demo_off [of p] that by (auto intro!: low)
  qed auto
  then show ?thesis
    using unused_cong [where m' = m' and m = m, OF c] by simp
qed

lemma demo_table_add:
  assumes "l \<in> demo_heads" "list_rep m l xs" "set (x # xs) \<subseteq> demo_slots \<union> demo_kslots" "x \<notin> set xs" "m' = tn_list_add list_c_lib l x m"
  shows "unused 0x900000 24 0x901000 m' = unused 0x900000 24 0x901000 m \<and> unused 0x900004 16 0x902000 m' = unused 0x900004 16 0x902000 m \<and>
    unused 0x900008 48 0x903000 m' = unused 0x900008 48 0x903000 m \<and>
    keeps list_rep demo_own (demo_heads - {l}) (demo_slots \<union> demo_kslots - set (x # xs)) demo_slots m m'"
proof -
  have l: "unat l < 0x1000"
    using assms(1) by (auto simp: demo_heads_def)
  have nodes: "0x901000 \<le> unat a" "unat a + 24 < 0x904000" if "a \<in> set (x # xs)" for a
    using demo_pool_sets [of a] that assms(3) by auto
  have "x \<noteq> NULL" "x \<noteq> l"
    using nodes(1) [of x] l by auto
  then obtain m1 where "listAdd l x m = Some m1" "\<forall>a. a \<notin> insert l (insert x (set xs)) \<longrightarrow> m1 a = m a"
    using listAdd_rep [OF assms(2) _ assms(4)] by blast
  then have fr: "m' a = m a" if "a \<notin> insert l (set (x # xs))" for a
    using that assms(5) by (simp add: list_c_lib_def)
  have low: "m' a = m a" if "0x900000 \<le> unat a" "unat a < 0x901000" for a
    using nodes(1) [of a] that l by (intro fr) auto
  have "keeps list_rep demo_own (demo_heads - {l}) (demo_slots \<union> demo_kslots - set (x # xs)) demo_slots m m'"
  proof (rule keeps_writes [OF fr])
    have "set (x # xs) \<subseteq> {0x900000..<0x904000}"
      using nodes by (fastforce simp: word_le_nat_alt word_less_nat_alt)
    then show "insert l (set (x # xs)) \<subseteq> demo_own"
      using assms(1) by (auto simp: demo_own_def)
    have "unat a < 0x1000" if "a \<in> demo_heads" for a
      using that by (auto simp: demo_heads_def)
    then show "insert l (set (x # xs)) \<inter> (demo_heads - {l} \<union> (demo_slots \<union> demo_kslots - set (x # xs))) = {}"
      using nodes(1) demo_pool_sets(1) [of l] l by fastforce
  next
    fix p assume p: "p \<in> demo_slots"
    then obtain i where i: "i < 16" "unat p = 0x901000 + 24 * i"
      using slot_unat(1) by blast
    have "p + d \<notin> insert l (set (x # xs))" if d: "d \<in> {8, 12, 16}" for d
    proof
      have u: "unat (p + d) = unat p + unat d" "unat d \<in> {8, 12, 16}"
        using demo_off [of p d] p d by auto
      assume "p + d \<in> insert l (set (x # xs))"
      then have "p + d \<in> demo_slots \<union> demo_kslots"
        using assms(3) u l i by auto
      then obtain j where "j < 16" "unat (p + d) = 0x901000 + 24 * j \<or> unat (p + d) = 0x903000 + 48 * j"
        using slot_unat [of "p + d"] by blast
      then show False
        using u i by auto presburger+
    qed
    then show "p + 8 \<notin> insert l (set (x # xs)) \<and> p + 12 \<notin> insert l (set (x # xs)) \<and> p + 16 \<notin> insert l (set (x # xs))"
      by blast
  qed
  then show ?thesis
    using unused_cong [where m' = m' and m = m, OF low] by simp
qed

interpretation demo_descs: mac_descs list_c_lib list_rep demo_sec_lib demo_own demo_heads demo_slots demo_kdslots demo_kslots
  "unused 0x900000 24 0x901000" "unused 0x900004 16 0x902000" "unused 0x900008 48 0x903000"
proof (unfold_locales, goal_cases)
  case 1
  have "unat (0 :: u32) = 0" by simp
  then show ?case using demo_pool_sets(1) by fastforce
next
  case 2
  have "unat a < 0x1000" if "a \<in> demo_heads" for a
    using that by (auto simp: demo_heads_def)
  then show ?case using demo_pool_sets(1) by fastforce
next
  case 3
  then show ?case using slot_unat(1,3) by fastforce
next
  case (4 m)
  then show ?case by (auto simp: unused_def demo_slots_def)
next
  case (5 m)
  then show ?case by (auto simp: unused_def demo_kdslots_def)
next
  case (6 m)
  then show ?case by (auto simp: unused_def demo_kslots_def)
next
  case (7 m p m')
  then have "bump 0x900000 24 0x901000 m = (p, m')" by (simp add: demo_sec_lib_def)
  then show ?case using demo_alloc by simp
next
  case (8 m p m')
  then have "bump 0x900004 16 0x902000 m = (p, m')" by (simp add: demo_sec_lib_def)
  then show ?case using demo_alloc by simp
next
  case (9 m p m')
  then have "bump 0x900008 48 0x903000 m = (p, m')" by (simp add: demo_sec_lib_def)
  then show ?case using demo_alloc by simp
next
  case (10 p ext m' pan sh fc ex m)
  then show ?case
    using demo_dev_set_keeps [OF 10(1), of m' m] demo_dev_set_desc [OF 10(2)] by (simp add: demo_sec_lib_def demo_dev_set_def)
next
  case (11 p ext m' pan sh fc ex m)
  then show ?case
    using demo_dev_set_keeps [OF 11(1), of m' m] demo_dev_set_desc [OF 11(2)] by (simp add: demo_sec_lib_def demo_dev_set_def)
next
  case (12 p m' dev u b m)
  obtain i where i: "i < 16" "unat p = 0x902000 + 16 * i"
    using slot_unat(2) [OF 12(1)] by blast
  have "unat (p + 4) = unat p + 4" "unat (p + 8) = unat p + 8"
    using demo_off [of p] 12(1) by simp_all
  then show ?case
    using 12 i by (intro demo_high_keeps [of "{p + 4, p + 8}"]) (auto simp: demo_sec_lib_def dest: slot_unat(3))
next
  case (13 p m' ids kds us key m)
  obtain i where i: "i < 16" "unat p = 0x903000 + 48 * i"
    using slot_unat(3) [OF 13(1)] by blast
  have u: "unat (p + 8) = unat p + 8" "unat (p + 16) = unat p + 16" "unat (p + 24) = unat p + 24"
    using demo_off [of p] 13(1) by simp_all
  have "w \<notin> demo_kslots" if "w \<in> {p + 8, p + 16, p + 24}" for w
  proof
    assume "w \<in> demo_kslots"
    then obtain j where "unat w = 0x903000 + 48 * j"
      using slot_unat(3) by blast
    then show False
      using that u i by (cases "i < j") auto
  qed
  moreover have "0x902000 \<le> unat w \<and> unat w < 0x904000" if "w \<in> {p + 8, p + 16, p + 24}" for w
    using that u i by auto
  moreover have "m' a = m a" if "a \<notin> {p + 8, p + 16, p + 24}" for a
    using that unfolding 13(2) by (simp add: demo_sec_lib_def)
  ultimately show ?case
    by (intro demo_high_keeps [of "{p + 8, p + 16, p + 24}"]) blast+
next
  case (14 l m xs x m')
  then show ?case by (rule demo_table_add)
next
  case (15 m' m)
  have own: "a \<in> demo_own" if "0x900000 \<le> unat a" "unat a < 0x904000" for a
    using that by (simp add: demo_own_def word_le_nat_alt word_less_nat_alt)
  have "keeps list_rep UNIV demo_heads (demo_slots \<union> demo_kslots) demo_slots m m'"
  proof (rule keeps_writes [of "- demo_own"])
    show "- demo_own \<inter> (demo_heads \<union> (demo_slots \<union> demo_kslots)) = {}"
      using own demo_pool_sets by (fastforce simp: demo_own_def)
    show "p + 8 \<notin> - demo_own \<and> p + 12 \<notin> - demo_own \<and> p + 16 \<notin> - demo_own" if "p \<in> demo_slots" for p
      using that demo_off [of p] demo_pool_sets [of p] by (auto intro!: own)
  qed (use 15 in auto)
  then show ?case
    using unused_cong [where m' = m' and m = m, OF 15 [OF own]] by simp
qed

end
