(* ===== verification/Ota_Device.thy ===== *)
theory Ota_Device
  imports Mac_Pib Ota_Crc
begin

text \<open>
  The upgrade client of \<^verbatim>\<open>demo/app_common/ota/tl_specific_data_ota.c\<close> (the \<^verbatim>\<open>ZB_ED_ROLE\<close> branch), with
  the frame dispatch of \<^verbatim>\<open>tl_specific_data.c\<close> and the poll timer of \<^verbatim>\<open>demo/associate_dev/app.c\<close> that it
  drives, in the 8278 configuration (image type 0x7852, flash protection on, no frame security). A
  received frame is the memory from its first byte on, \<open>nat \<Rightarrow> u8\<close>, because the code reads and
  writes it through pointers without a length check. A handler's result \<open>None\<close> stands for a walk of
  the timer list that does not end.
\<close>

section \<open>Frames\<close>

record ota_preamble_t =
  fileVer :: u32
  imageType :: u16
  manufaurerCode :: u16
  imageSize :: u32

definition preamble_zero :: ota_preamble_t where
  "preamble_zero = \<lparr>fileVer = 0, imageType = 0, manufaurerCode = 0, imageSize = 0\<rparr>"

definition preamble_at :: "(nat \<Rightarrow> u8) \<Rightarrow> ota_preamble_t" where
  "preamble_at pd = \<lparr>fileVer = le32 pd 0, imageType = le16 pd 4, manufaurerCode = le16 pd 6, imageSize = le32 pd 8\<rparr>"

definition bytes16 :: "u16 \<Rightarrow> u8 list" where
  "bytes16 w = [ucast w, ucast (drop_bit 8 w)]"

definition bytes32 :: "u32 \<Rightarrow> u8 list" where
  "bytes32 w = [ucast w, ucast (drop_bit 8 w), ucast (drop_bit 16 w), ucast (drop_bit 24 w)]"

definition preamble_bytes :: "ota_preamble_t \<Rightarrow> u8 list" where
  "preamble_bytes p = bytes32 (fileVer p) @ bytes16 (imageType p) @ bytes16 (manufaurerCode p) @ bytes32 (imageSize p)"

definition TL_SPECIFIC_ID_OTA :: u8 where "TL_SPECIFIC_ID_OTA = 0x01"
definition TL_CMD_OTA_START_REQ :: u8 where "TL_CMD_OTA_START_REQ = 0x01"
definition TL_CMD_OTA_START_RSP :: u8 where "TL_CMD_OTA_START_RSP = 0x02"
definition TL_CMD_OTA_STOP_REQ :: u8 where "TL_CMD_OTA_STOP_REQ = 0x03"
definition TL_CMD_OTA_STOP_RSP :: u8 where "TL_CMD_OTA_STOP_RSP = 0x04"
definition TL_CMD_OTA_DATA_REQ :: u8 where "TL_CMD_OTA_DATA_REQ = 0x05"
definition TL_CMD_OTA_DATA_RSP :: u8 where "TL_CMD_OTA_DATA_RSP = 0x06"

lemmas ota_cmd_defs =
  TL_SPECIFIC_ID_OTA_def TL_CMD_OTA_START_REQ_def TL_CMD_OTA_START_RSP_def TL_CMD_OTA_STOP_REQ_def
  TL_CMD_OTA_STOP_RSP_def TL_CMD_OTA_DATA_REQ_def TL_CMD_OTA_DATA_RSP_def

text \<open>The header \<^verbatim>\<open>tl_appFrameHdr_t\<close> is appId, seqNo, cmdId, len; an \<^verbatim>\<open>ota_cmd_t\<close> is it and a preamble.\<close>

definition ota_cmd_bytes :: "u8 \<Rightarrow> u8 \<Rightarrow> ota_preamble_t \<Rightarrow> u8 list" where
  "ota_cmd_bytes seqNo cmdId p = [TL_SPECIFIC_ID_OTA, seqNo, cmdId, 12] @ preamble_bytes p"

section \<open>State\<close>

datatype tl_otaState_e = OTA_STA_IDLE | OTA_STA_STARTING | OTA_STA_DATAING | OTA_STA_END

text \<open>The two functions \<^verbatim>\<open>ota_dataCb\<close> is set to.\<close>

datatype ota_periodiccallback_t = Cb_ota_dataReq | Cb_ota_stopReq

record ota_dev = sdk_state +
  g_tlAppDataSeqNo :: u8
  dev_otaInfo :: ota_preamble_t
  mcuBootAddr :: u8
  binInfo :: ota_preamble_t
  otaDataReqTimer :: addr
  ota_state :: tl_otaState_e
  ota_reqRetryCnt :: u8
  blockDataCount :: u32
  ota_headercnt :: u32
  ota_headersize :: u32
  crcValue :: u32
  flashOffsetAddr :: u32
  ota_dataCb :: "ota_periodiccallback_t option"
  PollDataTimer :: addr
  poll_cnt :: u32
  tdebug_cnt_poll_req :: u32

definition FLASH_OTA_NEWIMAGE_ADDR :: u32 where "FLASH_OTA_NEWIMAGE_ADDR = 0x40000"
definition OTA_TLNK_KEYWORD_ADDROFFSET :: u32 where "OTA_TLNK_KEYWORD_ADDROFFSET = 8"
definition OTA_MAX_IMAGE_SIZE :: u32 where "OTA_MAX_IMAGE_SIZE = 0x30000"
definition OTA_FRAMESIZE :: nat where "OTA_FRAMESIZE = 0x30"
definition FLASH_SECTOR_SIZE :: u32 where "FLASH_SECTOR_SIZE = 4096"
definition FILE_VERSION :: u32 where "FILE_VERSION = 0x10400000"
definition IMAGE_TYPE :: u16 where "IMAGE_TYPE = 0x7852"
definition MANUFACTURER_CODE :: u16 where "MANUFACTURER_CODE = 0x1141"
definition OTA_MAX_IMAGE_BLOCK_RETRIES :: u8 where "OTA_MAX_IMAGE_BLOCK_RETRIES = 10"
definition OTA_MAX_IMAGE_BLOCK_RSP_WAIT_TIME :: u16 where "OTA_MAX_IMAGE_BLOCK_RSP_WAIT_TIME = 1"
definition NORMAL_POLL_RATE :: u32 where "NORMAL_POLL_RATE = 1000"
definition OTA_POLL_RATE :: u32 where "OTA_POLL_RATE = 200"
definition QUERY_RATE :: u16 where "QUERY_RATE = 30"
definition OTA_HEAD_LENGTH :: u32 where "OTA_HEAD_LENGTH = 0x06"
definition OTA_HEAD_MAUNCODE :: u32 where "OTA_HEAD_MAUNCODE = 0x0a"
definition OTA_HEAD_IMAGETYPE :: u32 where "OTA_HEAD_IMAGETYPE = 0x0c"
definition OTA_HEAD_FILEVER :: u32 where "OTA_HEAD_FILEVER = 0x0e"
definition OTA_HEAD_IMAGESIZE :: u32 where "OTA_HEAD_IMAGESIZE = 0x3a"

lemmas ota_head_defs =
  OTA_HEAD_LENGTH_def OTA_HEAD_MAUNCODE_def OTA_HEAD_IMAGETYPE_def OTA_HEAD_FILEVER_def OTA_HEAD_IMAGESIZE_def

definition SUCCESS :: u8 where "SUCCESS = 0"
definition INVALID_EVENT_ID :: u8 where "INVALID_EVENT_ID = 0x06"

section \<open>Polling (app.c)\<close>

definition poll_data_req_send :: "tn_lib \<Rightarrow> 'a ota_dev_scheme \<Rightarrow> 'a ota_dev_scheme option" where
  "poll_data_req_send L s =
     do {
       (_, ext, _) \<leftarrow> tl_zbMacAttrGet L MAC_ATTR_COORDINATOR_EXTENDED_ADDRESS (\<lambda>_. 0) 0 s;
       (_, pan, _) \<leftarrow> tl_zbMacAttrGet L MAC_ATTR_PAN_ID (\<lambda>_. 0) 0 s;
       let s1 = emit (MlmePollRequest \<lparr>coordAddrMode = ZB_ADDR_64BIT_DEV, pollCoordAddr = map ext [0..<8],
                                       pollCoordPanId = le16 pan 0\<rparr>) s;
       Some (s1\<lparr>tdebug_cnt_poll_req := tdebug_cnt_poll_req s1 + 1\<rparr>)
     }"

definition PollDataTimerCb :: "tn_lib \<Rightarrow> 'a ota_dev_scheme \<Rightarrow> (int \<times> 'a ota_dev_scheme) option" where
  "PollDataTimerCb L s = do { s1 \<leftarrow> poll_data_req_send L s; Some (0, s1\<lparr>poll_cnt := poll_cnt s1 + 1\<rparr>) }"

definition mac_set_pollRate :: "sdk_env \<Rightarrow> u32 \<Rightarrow> 'a ota_dev_scheme \<Rightarrow> 'a ota_dev_scheme option" where
  "mac_set_pollRate E newRate s =
     (if pib_u8 rxOnWhenIdle s \<noteq> 0 then Some s
      else if newRate \<noteq> 0 then
        do {
          s1 \<leftarrow> (if PollDataTimer s \<noteq> NULL
                 then do { (e, s') \<leftarrow> TL_ZB_TIMER_CANCEL E (PollDataTimer s) s; Some (s'\<lparr>PollDataTimer := e\<rparr>) }
                 else Some s);
          (e, s2) \<leftarrow> TL_ZB_TIMER_SCHEDULE E (PollDataTimerCb_at E) newRate s1;
          Some (s2\<lparr>PollDataTimer := e\<rparr>)
        }
      else Some s)"

section \<open>Requests\<close>

text \<open>
  The part the three requests share: the next sequence number, the addresses from the PIB and the call
  of the MAC library.
\<close>

definition ota_send :: "tn_lib \<Rightarrow> u8 \<Rightarrow> ota_preamble_t \<Rightarrow> 'a ota_dev_scheme \<Rightarrow> 'a ota_dev_scheme option" where
  "ota_send L cmdId pay s =
     do {
       let seqNo = g_tlAppDataSeqNo s;
       let s1 = s\<lparr>g_tlAppDataSeqNo := g_tlAppDataSeqNo s + 1\<rparr>;
       (_, pan, _) \<leftarrow> tl_zbMacAttrGet L MAC_ATTR_PAN_ID (\<lambda>_. 0) 0 s1;
       (_, ext, _) \<leftarrow> tl_zbMacAttrGet L MAC_ATTR_COORDINATOR_EXTENDED_ADDRESS (\<lambda>_. 0) 2 s1;
       let msg = data_req_zero\<lparr>srcAddr := addr_zero\<lparr>addrMode := ZB_ADDR_16BIT_DEV_OR_BROADCAST\<rparr>,
                   dstAddr := \<lparr>addr_bytes = map ext [0..<8], addrMode = ZB_ADDR_64BIT_DEV\<rparr>,
                   dstPanId := le16 pan 0, msduHandle := 0, txOptions := MAC_TX_OPTION_ACKNOWLEDGED_BIT\<rparr>;
       Some (emit (McpsDataRequest msg (ota_cmd_bytes seqNo cmdId pay)) s1)
     }"

definition ota_startReq :: "tn_lib \<Rightarrow> 'a ota_dev_scheme \<Rightarrow> 'a ota_dev_scheme option" where
  "ota_startReq L s =
     ota_send L TL_CMD_OTA_START_REQ
       \<lparr>fileVer = FILE_VERSION, imageType = IMAGE_TYPE, manufaurerCode = MANUFACTURER_CODE, imageSize = 0\<rparr> s"

definition ota_dataReq :: "tn_lib \<Rightarrow> 'a ota_dev_scheme \<Rightarrow> 'a ota_dev_scheme option" where
  "ota_dataReq L s =
     ota_send L TL_CMD_OTA_DATA_REQ
       \<lparr>fileVer = fileVer (dev_otaInfo s), imageType = imageType (dev_otaInfo s),
        manufaurerCode = manufaurerCode (dev_otaInfo s), imageSize = blockDataCount s\<rparr> s"

definition ota_stopReq :: "tn_lib \<Rightarrow> 'a ota_dev_scheme \<Rightarrow> 'a ota_dev_scheme option" where
  "ota_stopReq L s =
     ota_send L TL_CMD_OTA_STOP_REQ
       \<lparr>fileVer = fileVer (binInfo s), imageType = imageType (binInfo s),
        manufaurerCode = manufaurerCode (binInfo s), imageSize = imageSize (binInfo s) + ota_headersize s\<rparr> s"

section \<open>Initialisation, retries and reboot\<close>

definition mcuBootAddrGet :: "sdk_env \<Rightarrow> 'a ota_dev_scheme \<Rightarrow> u8 \<times> 'a ota_dev_scheme" where
  "mcuBootAddrGet E s =
     (let (b, s1) = flash_val (flash_read (bus E) OTA_TLNK_KEYWORD_ADDROFFSET 1) s
      in (if hd b = 0x4b then 0 else 1, s1))"

definition ota_init :: "sdk_env \<Rightarrow> 'a ota_dev_scheme \<Rightarrow> 'a ota_dev_scheme" where
  "ota_init E s =
     (let s1 = s\<lparr>dev_otaInfo := preamble_zero, binInfo := preamble_zero, crcValue := 0xffffffff, flashOffsetAddr := 0,
                 blockDataCount := 0\<rparr>;
          (b, s2) = mcuBootAddrGet E s1
      in s2\<lparr>mcuBootAddr := b\<rparr>)"

definition ota_base :: "'a ota_dev_scheme \<Rightarrow> u32" where
  "ota_base s = (if mcuBootAddr s \<noteq> 0 then 0 else FLASH_OTA_NEWIMAGE_ADDR)"

definition ota_mcuReboot :: "sdk_env \<Rightarrow> 'a ota_dev_scheme \<Rightarrow> 'a ota_dev_scheme" where
  "ota_mcuReboot E s =
     (let s1 = on_flash (flash_unlock (bus E)) s;
          baseAddr = (if mcuBootAddr s1 \<noteq> 0 then FLASH_OTA_NEWIMAGE_ADDR else 0);
          newAddr = (if mcuBootAddr s1 \<noteq> 0 then 0 else FLASH_OTA_NEWIMAGE_ADDR);
          s2 = on_flash (flash_write (bus E) (newAddr + OTA_TLNK_KEYWORD_ADDROFFSET) [0x4b]) s1;
          s3 = on_flash (flash_write (bus E) (baseAddr + OTA_TLNK_KEYWORD_ADDROFFSET) [0]) s2;
          s4 = on_flash (flash_lock (bus E)) s3
      in emit SystemReset s4)"

definition cancel_dataReq :: "sdk_env \<Rightarrow> 'a ota_dev_scheme \<Rightarrow> 'a ota_dev_scheme option" where
  "cancel_dataReq E s =
     (if otaDataReqTimer s \<noteq> NULL
      then do { (e, s1) \<leftarrow> TL_ZB_TIMER_CANCEL E (otaDataReqTimer s) s; Some (s1\<lparr>otaDataReqTimer := e\<rparr>) }
      else Some s)"

definition ota_dataReqRetry :: "sdk_env \<Rightarrow> u16 \<Rightarrow> 'a ota_dev_scheme \<Rightarrow> 'a ota_dev_scheme option" where
  "ota_dataReqRetry E seconds s =
     (let s1 = s\<lparr>ota_reqRetryCnt := 0\<rparr> in
      if seconds \<noteq> 0 then
        do {
          s2 \<leftarrow> cancel_dataReq E s1;
          (e, s3) \<leftarrow> TL_ZB_TIMER_SCHEDULE E (ota_periodicDataServerCb_at E) (ucast seconds * 1000) s2;
          Some (s3\<lparr>otaDataReqTimer := e\<rparr>)
        }
      else Some s1)"

definition ota_queryStart :: "sdk_env \<Rightarrow> u16 \<Rightarrow> 'a ota_dev_scheme \<Rightarrow> 'a ota_dev_scheme option" where
  "ota_queryStart E seconds s =
     (let s1 = (ota_init E s)\<lparr>ota_state := OTA_STA_IDLE\<rparr> in
      do {
        ex \<leftarrow> ev_timer_exist (otaQueryTimer E) s1;
        (if \<not> ex then
           start_timer E (otaQueryTimer E) (ucast seconds * 1000)
             (upd_evt (otaQueryTimer E) (\<lambda>t. t\<lparr>evt_cb := ota_periodicQueryServerCb_at E, evt_data := NULL\<rparr>) s1)
         else Some s1)
      })"

definition ota_periodicQueryServerCb :: "tn_lib \<Rightarrow> 'a ota_dev_scheme \<Rightarrow> (int \<times> 'a ota_dev_scheme) option" where
  "ota_periodicQueryServerCb L s = do { s1 \<leftarrow> ota_startReq L s; Some (0, s1) }"

definition run_dataCb :: "tn_lib \<Rightarrow> 'a ota_dev_scheme \<Rightarrow> 'a ota_dev_scheme option" where
  "run_dataCb L s =
     (case ota_dataCb s of None \<Rightarrow> Some s | Some Cb_ota_dataReq \<Rightarrow> ota_dataReq L s | Some Cb_ota_stopReq \<Rightarrow> ota_stopReq L s)"

definition ota_periodicDataServerCb ::
  "sdk_env \<Rightarrow> tn_lib \<Rightarrow> 'a ota_dev_scheme \<Rightarrow> (int \<times> 'a ota_dev_scheme) option" where
  "ota_periodicDataServerCb E L s =
     (let s1 = s\<lparr>ota_reqRetryCnt := ota_reqRetryCnt s + 1\<rparr> in
      if ota_reqRetryCnt s1 \<ge> OTA_MAX_IMAGE_BLOCK_RETRIES then
        do {
          s2 \<leftarrow> ota_queryStart E QUERY_RATE (s1\<lparr>ota_reqRetryCnt := 0\<rparr>);
          s3 \<leftarrow> mac_set_pollRate E NORMAL_POLL_RATE s2;
          Some (-1, s3\<lparr>otaDataReqTimer := NULL\<rparr>)
        }
      else do { s2 \<leftarrow> run_dataCb L s1; Some (0, s2) })"

section \<open>Responses\<close>

definition erase_sectors :: "sdk_env \<Rightarrow> u32 \<Rightarrow> u16 \<Rightarrow> 'a ota_dev_scheme \<Rightarrow> 'a ota_dev_scheme" where
  "erase_sectors E baseAddr sectorNumUsed s =
     fold (\<lambda>i. on_flash (flash_erase (bus E) (baseAddr + of_nat i * FLASH_SECTOR_SIZE))) [0..<unat sectorNumUsed] s"

definition ota_startRspHandler :: "sdk_env \<Rightarrow> tn_lib \<Rightarrow> (nat \<Rightarrow> u8) \<Rightarrow> 'a ota_dev_scheme \<Rightarrow> 'a ota_dev_scheme option" where
  "ota_startRspHandler E L pd s =
     (let pHdr = preamble_at pd in
      if manufaurerCode pHdr = MANUFACTURER_CODE \<and> imageType pHdr = IMAGE_TYPE \<and> fileVer pHdr > FILE_VERSION \<and>
         ota_state s = OTA_STA_IDLE \<and> imageSize pHdr > 0 \<and> imageSize pHdr < OTA_MAX_IMAGE_SIZE
      then
        let s1 = s\<lparr>dev_otaInfo := pHdr\<rparr>;
            sectorNumUsed = ucast (imageSize pHdr div FLASH_SECTOR_SIZE + 1);
            s2 = (erase_sectors E (ota_base s1) sectorNumUsed s1)\<lparr>ota_state := OTA_STA_STARTING\<rparr>
        in do {
             ex \<leftarrow> ev_timer_exist (otaQueryTimer E) s2;
             s3 \<leftarrow> (if ex then ev_unon_timer (evt_pool E) (otaQueryTimer E) s2 else Some s2);
             s4 \<leftarrow> ota_dataReq L s3;
             s5 \<leftarrow> mac_set_pollRate E OTA_POLL_RATE s4;
             ota_dataReqRetry E OTA_MAX_IMAGE_BLOCK_RSP_WAIT_TIME (s5\<lparr>ota_dataCb := Some Cb_ota_dataReq\<rparr>)
           }
      else Some s)"

text \<open>Going back to the idle state after a failure: the steps that four places of the code share.\<close>

definition ota_abort :: "sdk_env \<Rightarrow> 'a ota_dev_scheme \<Rightarrow> 'a ota_dev_scheme option" where
  "ota_abort E s =
     do {
       s1 \<leftarrow> cancel_dataReq E (s\<lparr>ota_state := OTA_STA_IDLE\<rparr>);
       s2 \<leftarrow> ota_queryStart E QUERY_RATE s1;
       mac_set_pollRate E NORMAL_POLL_RATE s2
     }"

definition ota_stopRspHandler :: "sdk_env \<Rightarrow> (nat \<Rightarrow> u8) \<Rightarrow> 'a ota_dev_scheme \<Rightarrow> 'a ota_dev_scheme option" where
  "ota_stopRspHandler E pd s =
     (if ota_state s \<noteq> OTA_STA_END then Some s
      else
        let pHdr = preamble_at pd in
        if manufaurerCode pHdr = manufaurerCode (binInfo s) \<and> imageType pHdr = imageType (binInfo s) \<and>
           fileVer pHdr = fileVer (binInfo s) \<and> imageSize pHdr = imageSize (binInfo s) + ota_headersize s
        then Some (ota_mcuReboot E (s\<lparr>ota_state := OTA_STA_IDLE\<rparr>))
        else ota_abort E s)"

text \<open>One byte of the file header, at index \<open>i\<close> of the payload.\<close>

definition header_byte :: "(nat \<Rightarrow> u8) \<Rightarrow> nat \<Rightarrow> 'a ota_dev_scheme \<Rightarrow> 'a ota_dev_scheme" where
  "header_byte pData i s =
     (if ota_headercnt s = OTA_HEAD_LENGTH then s\<lparr>ota_headersize := ucast (le16 pData i) + 6\<rparr>
      else if ota_headercnt s = OTA_HEAD_MAUNCODE then s\<lparr>binInfo := (binInfo s)\<lparr>manufaurerCode := le16 pData i\<rparr>\<rparr>
      else if ota_headercnt s = OTA_HEAD_IMAGETYPE then s\<lparr>binInfo := (binInfo s)\<lparr>imageType := le16 pData i\<rparr>\<rparr>
      else if ota_headercnt s = OTA_HEAD_FILEVER then s\<lparr>binInfo := (binInfo s)\<lparr>fileVer := le32 pData i\<rparr>\<rparr>
      else if ota_headercnt s = OTA_HEAD_IMAGESIZE then s\<lparr>binInfo := (binInfo s)\<lparr>imageSize := le32 pData i\<rparr>\<rparr>
      else if ota_headercnt s = ota_headersize s \<and> ota_headersize s \<noteq> 0 then s\<lparr>ota_state := OTA_STA_DATAING\<rparr>
      else s)"

text \<open>The loop over the payload with \<open>n\<close> bytes left; it is left early when the data begins.\<close>

primrec header_loop :: "(nat \<Rightarrow> u8) \<Rightarrow> nat \<Rightarrow> nat \<Rightarrow> 'a ota_dev_scheme \<Rightarrow> nat \<times> 'a ota_dev_scheme" where
  "header_loop pData 0 i s = (i, s)"
| "header_loop pData (Suc n) i s =
     (let s1 = header_byte pData i s in
      if ota_state s1 = OTA_STA_DATAING then (i, s1)
      else header_loop pData n (i + 1) (s1\<lparr>ota_headercnt := ota_headercnt s1 + 1\<rparr>))"

text \<open>How many of the \<open>datalen\<close> bytes before position \<open>cnt\<close> enter the checksum, which stops four bytes before the end.\<close>

definition crc_part :: "u32 \<Rightarrow> u32 \<Rightarrow> u32 \<Rightarrow> u8 \<Rightarrow> u8" where
  "crc_part tot headerbuf cnt datalen =
     (let lim = tot - 4 in
      if cnt \<ge> lim then
        if headerbuf \<ge> lim then 0
        else let offset = ucast (cnt - lim) :: u16
             in if ucast datalen > offset then datalen - ucast offset else 0
      else datalen)"

text \<open>
  The image bytes \<^verbatim>\<open>pData[i], ..., pData[i + datalen - 1]\<close>: they are written with the boot flag masked, checked,
  and enter the checksum.
\<close>

definition ota_image_data ::
  "sdk_env \<Rightarrow> u8 \<Rightarrow> nat \<Rightarrow> (nat \<Rightarrow> u8) \<Rightarrow> 'a ota_dev_scheme \<Rightarrow> ((nat \<Rightarrow> u8) \<times> 'a ota_dev_scheme) option" where
  "ota_image_data E datalen i pData s1 =
     (let headerbuf = ota_headercnt s1;
          s2 = s1\<lparr>ota_headercnt := ota_headercnt s1 + ucast datalen\<rparr>;
          k = i + 8 - unat (flashOffsetAddr s2);
          flag = (flashOffsetAddr s2 \<le> OTA_TLNK_KEYWORD_ADDROFFSET \<and>
                  ucast datalen + flashOffsetAddr s2 \<ge> OTA_TLNK_KEYWORD_ADDROFFSET \<and> datalen > 0);
          p1 = (if flag then pData(k := 0xff) else pData);
          (ok, s3) = flash_val (flash_writeWithCheck (bus E) (ota_base s2 + flashOffsetAddr s2)
                                  (map p1 [i..<i + unat datalen])) s2
      in if \<not> ok then map_option (Pair p1) (ota_abort E s3)
         else
           let p2 = (if flag then p1(k := 0x4b) else p1);
               s4 = s3\<lparr>flashOffsetAddr := flashOffsetAddr s3 + ucast datalen\<rparr>;
               n = crc_part (imageSize (binInfo s4) + ota_headersize s4) headerbuf (ota_headercnt s4) datalen
           in Some (p2, if n \<noteq> 0 then s4\<lparr>crcValue := xcrc32 (map p2 [i..<i + unat n]) (crcValue s4)\<rparr> else s4))"

definition ota_DataProcess ::
  "sdk_env \<Rightarrow> u8 \<Rightarrow> (nat \<Rightarrow> u8) \<Rightarrow> 'a ota_dev_scheme \<Rightarrow> ((nat \<Rightarrow> u8) \<times> 'a ota_dev_scheme) option" where
  "ota_DataProcess E len pData s =
     (let (i, s1) = (if ota_state s = OTA_STA_STARTING then header_loop pData (unat len) 0 s else (0, s)) in
      if ota_state s1 = OTA_STA_DATAING \<and> len > 0 then ota_image_data E (len - of_nat i) i pData s1
      else Some (pData, s1))"

definition ota_finish :: "sdk_env \<Rightarrow> tn_lib \<Rightarrow> 'a ota_dev_scheme \<Rightarrow> 'a ota_dev_scheme option" where
  "ota_finish E L s =
     (let (b, s1) = flash_val (flash_read (bus E) (ota_base s + imageSize (dev_otaInfo s) - ota_headersize s - 4) 4) s
      in if le32 (\<lambda>i. b ! i) 0 = crcValue s1 then
           do {
             s2 \<leftarrow> ota_stopReq L (s1\<lparr>ota_state := OTA_STA_END\<rparr>);
             ota_dataReqRetry E OTA_MAX_IMAGE_BLOCK_RSP_WAIT_TIME (s2\<lparr>ota_dataCb := Some Cb_ota_stopReq\<rparr>)
           }
         else ota_abort E (s1\<lparr>dev_otaInfo := (dev_otaInfo s1)\<lparr>imageSize := 0\<rparr>\<rparr>))"

definition ota_dataRspHandler :: "sdk_env \<Rightarrow> tn_lib \<Rightarrow> (nat \<Rightarrow> u8) \<Rightarrow> 'a ota_dev_scheme \<Rightarrow> 'a ota_dev_scheme option" where
  "ota_dataRspHandler E L pd s =
     (if ota_state s = OTA_STA_IDLE then Some s
      else
        let pHdr = preamble_at pd in
        if manufaurerCode pHdr = manufaurerCode (dev_otaInfo s) \<and> imageType pHdr = imageType (dev_otaInfo s) \<and>
           fileVer pHdr = fileVer (dev_otaInfo s) \<and> imageSize pHdr = blockDataCount s
        then
          if pd 12 = 0 then ota_abort E s
          else
            do {
              (_, s1) \<leftarrow> ota_DataProcess E (pd 12) (\<lambda>i. pd (i + 13)) (on_flash (flash_unlock (bus E)) s);
              let s2 = on_flash (flash_lock (bus E)) s1;
              let s3 = s2\<lparr>blockDataCount := blockDataCount s2 + 1\<rparr>;
              (if ota_headercnt s3 \<ge> imageSize (dev_otaInfo s3) then ota_finish E L s3
               else
                 do {
                   s4 \<leftarrow> ota_dataReq L s3;
                   ota_dataReqRetry E OTA_MAX_IMAGE_BLOCK_RSP_WAIT_TIME (s4\<lparr>ota_dataCb := Some Cb_ota_dataReq\<rparr>)
                 })
            }
        else Some s)"

section \<open>Dispatch\<close>

definition tl_appOtaCmdHandler ::
  "sdk_env \<Rightarrow> tn_lib \<Rightarrow> (nat \<Rightarrow> u8) \<Rightarrow> 'a ota_dev_scheme \<Rightarrow> (u8 \<times> 'a ota_dev_scheme) option" where
  "tl_appOtaCmdHandler E L pd s =
     (let cmdId = pd 2; pld = (\<lambda>i. pd (i + 4)) in
      if cmdId = TL_CMD_OTA_START_RSP then map_option (Pair SUCCESS) (ota_startRspHandler E L pld s)
      else if cmdId = TL_CMD_OTA_STOP_RSP then map_option (Pair SUCCESS) (ota_stopRspHandler E pld s)
      else if cmdId = TL_CMD_OTA_DATA_RSP then map_option (Pair SUCCESS) (ota_dataRspHandler E L pld s)
      else Some (INVALID_EVENT_ID, s))"

definition tl_appDataIndicate ::
  "sdk_env \<Rightarrow> tn_lib \<Rightarrow> (nat \<Rightarrow> u8) \<Rightarrow> 'a ota_dev_scheme \<Rightarrow> (u8 \<times> 'a ota_dev_scheme) option" where
  "tl_appDataIndicate E L pd s =
     (if pd 0 = TL_SPECIFIC_ID_OTA then do { (_, s1) \<leftarrow> tl_appOtaCmdHandler E L pd s; Some (SUCCESS, s1) }
      else Some (INVALID_EVENT_ID, s))"

end
