(* ===== verification/Ota_Run.thy ===== *)
theory Ota_Run
  imports Ota_Device
begin

text \<open>
  The upgrade client as a reactive program: every handler and timer callback returns in every state of
  the timer service, whatever frame it is given; unanswered requests are retried a bounded number of
  times; and what aborting, starting and rebooting do.
\<close>

section \<open>Running handlers\<close>

definition runs :: "sdk_env \<Rightarrow> 'a ota_dev_scheme option \<Rightarrow> bool" where
  "runs E r \<longleftrightarrow> (\<exists>s'. r = Some s' \<and> timers_ok E s')"

lemma runs_Some [simp]: "runs E (Some s) = timers_ok E s"
  by (simp add: runs_def)

lemma runs_bind: "runs E r \<Longrightarrow> (\<And>s'. timers_ok E s' \<Longrightarrow> runs E (f s')) \<Longrightarrow> runs E (r \<bind> f)"
  by (auto simp: runs_def)

lemma timers_ok_cong:
  "mem s' = mem s \<Longrightarrow> timer_head s' = timer_head s \<Longrightarrow> used_num s' = used_num s \<Longrightarrow> tev s' = tev s \<Longrightarrow>
   timers_ok E s' = timers_ok E s"
  by (simp add: timers_ok_def timer_inv_def used_slots_def)

lemma timers_ok_upd [simp]:
  "timers_ok E (s\<lparr>g_tlAppDataSeqNo := a1\<rparr>) = timers_ok E s" "timers_ok E (s\<lparr>dev_otaInfo := a2\<rparr>) = timers_ok E s"
  "timers_ok E (s\<lparr>mcuBootAddr := a3\<rparr>) = timers_ok E s" "timers_ok E (s\<lparr>binInfo := a4\<rparr>) = timers_ok E s"
  "timers_ok E (s\<lparr>otaDataReqTimer := a5\<rparr>) = timers_ok E s" "timers_ok E (s\<lparr>ota_state := a6\<rparr>) = timers_ok E s"
  "timers_ok E (s\<lparr>ota_reqRetryCnt := a7\<rparr>) = timers_ok E s" "timers_ok E (s\<lparr>blockDataCount := a8\<rparr>) = timers_ok E s"
  "timers_ok E (s\<lparr>ota_headercnt := a9\<rparr>) = timers_ok E s" "timers_ok E (s\<lparr>ota_headersize := b1\<rparr>) = timers_ok E s"
  "timers_ok E (s\<lparr>crcValue := b2\<rparr>) = timers_ok E s" "timers_ok E (s\<lparr>flashOffsetAddr := b3\<rparr>) = timers_ok E s"
  "timers_ok E (s\<lparr>ota_dataCb := b4\<rparr>) = timers_ok E s" "timers_ok E (s\<lparr>PollDataTimer := b5\<rparr>) = timers_ok E s"
  "timers_ok E (s\<lparr>poll_cnt := b6\<rparr>) = timers_ok E s" "timers_ok E (s\<lparr>tdebug_cnt_poll_req := b7\<rparr>) = timers_ok E s"
  by (rule timers_ok_cong; simp)+

lemma timers_ok_evt [simp]:
  "timers_ok E (upd_evt (otaQueryTimer E) (\<lambda>t. t\<lparr>evt_cb := c, evt_data := d\<rparr>) s) = timers_ok E s"
proof -
  have "used_slots B (upd_evt (otaQueryTimer E) (\<lambda>t. t\<lparr>evt_cb := c, evt_data := d\<rparr>) s) = used_slots B s" for B
    by (auto simp: used_slots_def)
  then show ?thesis
    by (simp add: timers_ok_def timer_inv_def)
qed

lemma timers_ok_on_flash:
  "mem (f (flash_of s)) = mem s \<Longrightarrow> timers_ok E (on_flash f s) = timers_ok E s"
  by (simp add: on_flash_def)

lemma timers_ok_flash_ops [simp]:
  "timers_ok E (on_flash (flash_unlock D) s) = timers_ok E s" "timers_ok E (on_flash (flash_lock D) s) = timers_ok E s"
  "timers_ok E (on_flash (flash_write D a buf) s) = timers_ok E s"
  "timers_ok E (on_flash (flash_erase D a) s) = timers_ok E s"
  by (simp_all add: timers_ok_on_flash)

lemma flash_val_read [simp]: "flash_val (flash_read D a n) s = (fst (flash_read D a n (flash_of s)), s)"
  by (simp add: flash_val_def case_prod_beta)

lemma timers_ok_write_check [simp]:
  "timers_ok E (snd (flash_val (flash_writeWithCheck D a buf) s)) = timers_ok E s"
  by (simp add: flash_val_def case_prod_beta)

lemma emit_ota [simp]:
  "g_tlAppDataSeqNo (emit x s) = g_tlAppDataSeqNo s" "dev_otaInfo (emit x s) = dev_otaInfo s" "mcuBootAddr (emit x s) = mcuBootAddr s"
  "binInfo (emit x s) = binInfo s" "otaDataReqTimer (emit x s) = otaDataReqTimer s" "ota_state (emit x s) = ota_state s"
  "ota_reqRetryCnt (emit x s) = ota_reqRetryCnt s" "blockDataCount (emit x s) = blockDataCount s" "ota_headercnt (emit x s) = ota_headercnt s"
  "ota_headersize (emit x s) = ota_headersize s" "crcValue (emit x s) = crcValue s" "flashOffsetAddr (emit x s) = flashOffsetAddr s"
  "ota_dataCb (emit x s) = ota_dataCb s" "PollDataTimer (emit x s) = PollDataTimer s"
  by (simp_all add: emit_def)

lemma put_flash_ota [simp]:
  "g_tlAppDataSeqNo (put_flash f s) = g_tlAppDataSeqNo s" "dev_otaInfo (put_flash f s) = dev_otaInfo s" "mcuBootAddr (put_flash f s) = mcuBootAddr s"
  "binInfo (put_flash f s) = binInfo s" "otaDataReqTimer (put_flash f s) = otaDataReqTimer s" "ota_state (put_flash f s) = ota_state s"
  "ota_reqRetryCnt (put_flash f s) = ota_reqRetryCnt s" "blockDataCount (put_flash f s) = blockDataCount s" "ota_headercnt (put_flash f s) = ota_headercnt s"
  "ota_headersize (put_flash f s) = ota_headersize s" "crcValue (put_flash f s) = crcValue s" "flashOffsetAddr (put_flash f s) = flashOffsetAddr s"
  "ota_dataCb (put_flash f s) = ota_dataCb s" "PollDataTimer (put_flash f s) = PollDataTimer s"
  by (simp_all add: put_flash_def)

lemma on_flash_ota [simp]:
  "g_tlAppDataSeqNo (on_flash f s) = g_tlAppDataSeqNo s" "dev_otaInfo (on_flash f s) = dev_otaInfo s" "mcuBootAddr (on_flash f s) = mcuBootAddr s"
  "binInfo (on_flash f s) = binInfo s" "otaDataReqTimer (on_flash f s) = otaDataReqTimer s" "ota_state (on_flash f s) = ota_state s"
  "ota_reqRetryCnt (on_flash f s) = ota_reqRetryCnt s" "blockDataCount (on_flash f s) = blockDataCount s" "ota_headercnt (on_flash f s) = ota_headercnt s"
  "ota_headersize (on_flash f s) = ota_headersize s" "crcValue (on_flash f s) = crcValue s" "flashOffsetAddr (on_flash f s) = flashOffsetAddr s"
  "ota_dataCb (on_flash f s) = ota_dataCb s" "PollDataTimer (on_flash f s) = PollDataTimer s"
  by (simp_all add: on_flash_def)

lemma on_flash_sel [simp]:
  "outs (on_flash f s) = outs s" "g_zbMacPib (on_flash f s) = g_zbMacPib s" "flash_of (on_flash f s) = f (flash_of s)"
  by (simp_all add: on_flash_def)

lemma flash_of_ota_upd [simp]:
  "flash_of (s\<lparr>g_tlAppDataSeqNo := x0\<rparr>) = flash_of s" "flash_of (s\<lparr>dev_otaInfo := x1\<rparr>) = flash_of s"
  "flash_of (s\<lparr>mcuBootAddr := x2\<rparr>) = flash_of s" "flash_of (s\<lparr>binInfo := x3\<rparr>) = flash_of s"
  "flash_of (s\<lparr>otaDataReqTimer := x4\<rparr>) = flash_of s" "flash_of (s\<lparr>ota_state := x5\<rparr>) = flash_of s"
  "flash_of (s\<lparr>ota_reqRetryCnt := x6\<rparr>) = flash_of s" "flash_of (s\<lparr>blockDataCount := x7\<rparr>) = flash_of s"
  "flash_of (s\<lparr>ota_headercnt := x8\<rparr>) = flash_of s" "flash_of (s\<lparr>ota_headersize := x9\<rparr>) = flash_of s"
  "flash_of (s\<lparr>crcValue := x10\<rparr>) = flash_of s" "flash_of (s\<lparr>flashOffsetAddr := x11\<rparr>) = flash_of s"
  "flash_of (s\<lparr>ota_dataCb := x12\<rparr>) = flash_of s" "flash_of (s\<lparr>PollDataTimer := x13\<rparr>) = flash_of s"
  by (simp_all add: flash_of_def)

lemma plain_pan: "plain_attr MAC_ATTR_PAN_ID" "plain_attr MAC_ATTR_COORDINATOR_EXTENDED_ADDRESS"
  by (simp_all add: plain_attr_def mac_attr_defs)

lemma get_pan: "\<exists>buf len. tl_zbMacAttrGet L MAC_ATTR_PAN_ID b i s = Some (MAC_SUCCESS, buf, len)"
  using get_plain [OF plain_pan(1)] by blast

lemma get_coord: "\<exists>buf len. tl_zbMacAttrGet L MAC_ATTR_COORDINATOR_EXTENDED_ADDRESS b i s = Some (MAC_SUCCESS, buf, len)"
  using get_plain [OF plain_pan(2)] by blast

text \<open>A request is one call of the MAC library with the frame, and one sequence number.\<close>

lemma ota_send_eq:
  "\<exists>msg. ota_send L c p s =
     Some (emit (McpsDataRequest msg (ota_cmd_bytes (g_tlAppDataSeqNo s) c p)) (s\<lparr>g_tlAppDataSeqNo := g_tlAppDataSeqNo s + 1\<rparr>))"
proof -
  let ?s = "s\<lparr>g_tlAppDataSeqNo := g_tlAppDataSeqNo s + 1\<rparr>"
  obtain pan l1 where "tl_zbMacAttrGet L MAC_ATTR_PAN_ID (\<lambda>_. 0) 0 ?s = Some (MAC_SUCCESS, pan, l1)"
    using get_pan by blast
  moreover obtain ext l2 where
    "tl_zbMacAttrGet L MAC_ATTR_COORDINATOR_EXTENDED_ADDRESS (\<lambda>_. 0) 2 ?s = Some (MAC_SUCCESS, ext, l2)"
    using get_coord by blast
  ultimately show ?thesis
    by (simp add: ota_send_def Let_def) blast
qed

lemma ota_dataReq_eq:
  "\<exists>msg. ota_dataReq L s =
     Some (emit (McpsDataRequest msg (ota_cmd_bytes (g_tlAppDataSeqNo s) TL_CMD_OTA_DATA_REQ ((dev_otaInfo s)\<lparr>imageSize := blockDataCount s\<rparr>)))
       (s\<lparr>g_tlAppDataSeqNo := g_tlAppDataSeqNo s + 1\<rparr>))"
proof -
  have "\<lparr>fileVer = fileVer (dev_otaInfo s), imageType = imageType (dev_otaInfo s), manufaurerCode = manufaurerCode (dev_otaInfo s),
      imageSize = blockDataCount s\<rparr> = (dev_otaInfo s)\<lparr>imageSize := blockDataCount s\<rparr>"
    by simp
  then show ?thesis
    unfolding ota_dataReq_def by (simp only: ota_send_eq)
qed

lemma runs_send [simp]: "timers_ok E s \<Longrightarrow> runs E (ota_send L c p s)"
  using ota_send_eq [of L c p s] by auto

lemma runs_requests:
  "timers_ok E s \<Longrightarrow> runs E (ota_startReq L s)" "timers_ok E s \<Longrightarrow> runs E (ota_dataReq L s)"
  "timers_ok E s \<Longrightarrow> runs E (ota_stopReq L s)"
  by (simp_all add: ota_startReq_def ota_dataReq_def ota_stopReq_def)

lemma runs_cancel: "timers_ok E s \<Longrightarrow> runs E (cancel_dataReq E s)"
  using cancel_ok [of E s "otaDataReqTimer s"] by (auto simp: cancel_dataReq_def)

lemma runs_schedule:
  assumes "timers_ok E s" "\<And>e s'. timers_ok E s' \<Longrightarrow> runs E (f (e, s'))"
  shows "runs E (TL_ZB_TIMER_SCHEDULE E c tmo s \<bind> f)"
  using schedule_ok [OF assms(1), of c tmo] assms(2) by auto

lemma runs_pollRate: "timers_ok E s \<Longrightarrow> runs E (mac_set_pollRate E r s)"
  using cancel_ok [of E s "PollDataTimer s"]
  by (auto simp: mac_set_pollRate_def intro!: runs_schedule runs_bind)

lemma runs_retry: "timers_ok E s \<Longrightarrow> runs E (ota_dataReqRetry E n s)"
  by (auto simp: ota_dataReqRetry_def Let_def intro!: runs_bind runs_cancel runs_schedule)

lemma ota_init_eq:
  "ota_init E s = s\<lparr>dev_otaInfo := preamble_zero, binInfo := preamble_zero, crcValue := 0xffffffff,
     flashOffsetAddr := 0, blockDataCount := 0,
     mcuBootAddr := if hd (fst (flash_read (bus E) OTA_TLNK_KEYWORD_ADDROFFSET 1 (flash_of s))) = 0x4b then 0 else 1\<rparr>"
  by (simp add: ota_init_def mcuBootAddrGet_def Let_def flash_of_def)

lemma timers_ok_init [simp]: "timers_ok E (ota_init E s) = timers_ok E s"
  by (simp add: ota_init_eq)

text \<open>Afterwards the query timer runs, whether it ran before or not.\<close>

lemma queryStart_ok:
  assumes "timers_ok E s"
  shows "\<exists>s'. ota_queryStart E n s = Some s' \<and> timers_ok E s' \<and>
    same_app ((ota_init E s)\<lparr>ota_state := OTA_STA_IDLE\<rparr>) s' \<and> ev_timer_exist (otaQueryTimer E) s' = Some True"
proof -
  define t where "t = (ota_init E s)\<lparr>ota_state := OTA_STA_IDLE\<rparr>"
  define u where "u = upd_evt (otaQueryTimer E) (\<lambda>x. x\<lparr>evt_cb := ota_periodicQueryServerCb_at E, evt_data := NULL\<rparr>) t"
  have t: "timers_ok E t"
    using assms by (simp add: t_def)
  then have ok: "timers_ok E t" "timers_ok E u"
    unfolding u_def by (simp_all only: timers_ok_evt)
  obtain b where b: "ev_timer_exist (otaQueryTimer E) t = Some b"
    using exist_ok [OF ok(1)] by blast
  have q: "ota_queryStart E n s = (if \<not> b then start_timer E (otaQueryTimer E) (ucast n * 1000) u else Some t)"
    using b by (simp add: ota_queryStart_def Let_def t_def u_def)
  have tu: "same_app t u"
    by (simp add: same_app_def u_def)
  show ?thesis
    using start_ok [OF ok(2), of "ucast n * 1000"] b ok(1) same_app_trans [OF tu]
    unfolding q t_def [symmetric] by (cases b) auto
qed

lemma runs_queryStart: "timers_ok E s \<Longrightarrow> runs E (ota_queryStart E n s)"
  using queryStart_ok by (fastforce simp: runs_def)

lemma runs_abort: "timers_ok E s \<Longrightarrow> runs E (ota_abort E s)"
  by (simp add: ota_abort_def runs_bind runs_cancel runs_queryStart runs_pollRate)

lemma timers_ok_reboot [simp]: "timers_ok E (ota_mcuReboot E s) = timers_ok E s"
  by (simp add: ota_mcuReboot_def Let_def)

lemma timers_ok_erase [simp]: "timers_ok E (erase_sectors E a n s) = timers_ok E s"
proof -
  have "timers_ok E (fold (\<lambda>i. on_flash (flash_erase (bus E) (a + of_nat i * FLASH_SECTOR_SIZE))) xs s) = timers_ok E s" for xs
    by (induction xs arbitrary: s) simp_all
  then show ?thesis
    by (simp add: erase_sectors_def)
qed

lemma runs_unon:
  assumes "timers_ok E s"
  shows "runs E (ev_unon_timer (evt_pool E) e s)"
proof -
  obtain xs where "pool_ok (evt_pool E)" "timer_inv (evt_pool E) s xs"
    using assms by (auto simp: timers_ok_def)
  then obtain s' where "ev_unon_timer (evt_pool E) e s = Some s'" "timer_inv (evt_pool E) s' (remove1 e xs)"
    using ev_unon_timer_inv by blast
  then show ?thesis
    using assms by (auto simp: runs_def timers_ok_def)
qed

lemma runs_stop_query:
  fixes s :: "'a ota_dev_scheme"
  assumes "timers_ok E s" "\<And>s'. timers_ok E s' \<Longrightarrow> runs E (f s')"
  shows "runs E (ev_timer_exist e s \<bind> (\<lambda>ex. (if ex then ev_unon_timer (evt_pool E) e s else Some s) \<bind> f))"
  using exist_ok [OF assms(1), of e] assms runs_unon [OF assms(1), of e] by (auto intro!: runs_bind)

lemma runs_startRsp: "timers_ok E s \<Longrightarrow> runs E (ota_startRspHandler E L pd s)"
  by (auto simp: ota_startRspHandler_def Let_def
      intro!: runs_stop_query runs_bind runs_requests runs_pollRate runs_retry)

lemma runs_stopRsp: "timers_ok E s \<Longrightarrow> runs E (ota_stopRspHandler E pd s)"
  by (simp add: ota_stopRspHandler_def Let_def runs_abort)

lemma timers_ok_header_loop: "timers_ok E (snd (header_loop pData n i s)) = timers_ok E s"
proof (induction n arbitrary: i s)
  case (Suc n)
  have "timers_ok E (header_byte pData i s) = timers_ok E s"
    by (simp add: header_byte_def)
  then show ?case
    by (simp add: Let_def Suc)
qed simp

lemma runs_DataProcess:
  assumes "timers_ok E s"
  shows "\<exists>p s'. ota_DataProcess E len pData s = Some (p, s') \<and> timers_ok E s'"
proof -
  obtain i s1 where is1: "(if ota_state s = OTA_STA_STARTING then header_loop pData (unat len) 0 s else (0, s)) = (i, s1)"
    by (meson surj_pair)
  then have ok: "timers_ok E s1"
    using assms timers_ok_header_loop [of E pData "unat len" 0 s] by (auto split: if_splits)
  have "runs E (ota_abort E (snd (flash_val (flash_writeWithCheck D a buf) (s1\<lparr>ota_headercnt := c\<rparr>))))" for D a buf c
    by (rule runs_abort) (use ok in simp)
  moreover have "timers_ok E (snd (flash_val (flash_writeWithCheck D a buf) (s1\<lparr>ota_headercnt := c\<rparr>)))" for D a buf c
    using ok by simp
  ultimately show ?thesis
    using ok unfolding ota_DataProcess_def is1 ota_image_data_def by (fastforce simp: Let_def case_prod_beta runs_def)
qed

lemma runs_finish: "timers_ok E s \<Longrightarrow> runs E (ota_finish E L s)"
  by (auto simp: ota_finish_def Let_def intro!: runs_bind runs_requests runs_retry runs_abort)

lemma runs_dataRsp:
  assumes "timers_ok E s"
  shows "runs E (ota_dataRspHandler E L pd s)"
proof -
  obtain p s1 where dp: "ota_DataProcess E (pd 12) (\<lambda>i. pd (i + 13)) (on_flash (flash_unlock (bus E)) s) = Some (p, s1)"
      and ok: "timers_ok E s1"
    using runs_DataProcess [of E "on_flash (flash_unlock (bus E)) s" "pd 12" "\<lambda>i. pd (i + 13)"] assms by auto
  show ?thesis
    using assms ok unfolding ota_dataRspHandler_def
    by (auto simp: Let_def dp intro!: runs_abort runs_finish runs_bind runs_requests runs_retry)
qed

section \<open>What the timer service leaves alone\<close>

lemma same_app_ota:
  assumes "same_app s s'"
  shows "g_tlAppDataSeqNo s' = g_tlAppDataSeqNo s" "dev_otaInfo s' = dev_otaInfo s" "mcuBootAddr s' = mcuBootAddr s"
    "binInfo s' = binInfo s" "otaDataReqTimer s' = otaDataReqTimer s" "ota_state s' = ota_state s"
    "ota_reqRetryCnt s' = ota_reqRetryCnt s" "blockDataCount s' = blockDataCount s" "ota_headercnt s' = ota_headercnt s"
    "ota_headersize s' = ota_headersize s" "crcValue s' = crcValue s" "flashOffsetAddr s' = flashOffsetAddr s"
    "ota_dataCb s' = ota_dataCb s" "PollDataTimer s' = PollDataTimer s" "outs s' = outs s" "fl s' = fl s"
    "g_zbMacPib s' = g_zbMacPib s"
  using assms by (cases s, cases s', simp add: same_app_def)+

lemma exist_upd [simp]:
  "ev_timer_exist e (s\<lparr>PollDataTimer := a\<rparr>) = ev_timer_exist e s"
  "ev_timer_exist e (s\<lparr>otaDataReqTimer := b\<rparr>) = ev_timer_exist e s"
  "ev_timer_exist e (s\<lparr>ota_reqRetryCnt := c\<rparr>) = ev_timer_exist e s"
  "ev_timer_exist e (s\<lparr>ota_state := d\<rparr>) = ev_timer_exist e s"
  by (simp_all add: ev_timer_exist_def)

lemma same_app_upd:
  "same_app s s' \<Longrightarrow> same_app (s\<lparr>PollDataTimer := a\<rparr>) (s'\<lparr>PollDataTimer := a\<rparr>)"
  "same_app s s' \<Longrightarrow> same_app (s\<lparr>otaDataReqTimer := b\<rparr>) (s'\<lparr>otaDataReqTimer := b\<rparr>)"
  by (cases s, cases s', simp add: same_app_def)+

lemma pollRate_ok:
  assumes "timers_ok E s"
  shows "\<exists>s' p. mac_set_pollRate E r s = Some s' \<and> timers_ok E s' \<and> same_app (s\<lparr>PollDataTimer := p\<rparr>) s' \<and>
    (\<forall>q. PollDataTimer s \<noteq> q \<longrightarrow> ev_timer_exist q s = Some True \<longrightarrow> ev_timer_exist q s' = Some True)"
proof -
  have sched: "\<exists>s' p. do { (e, s2) \<leftarrow> TL_ZB_TIMER_SCHEDULE E c r t; Some (s2\<lparr>PollDataTimer := e\<rparr>) } = Some s' \<and>
      timers_ok E s' \<and> same_app (s\<lparr>PollDataTimer := p\<rparr>) s' \<and>
      (\<forall>q. ev_timer_exist q t = Some True \<longrightarrow> ev_timer_exist q s' = Some True)"
    if t: "timers_ok E t" "same_app (s\<lparr>PollDataTimer := p0\<rparr>) t" for t p0 c
  proof -
    obtain e s2 where "TL_ZB_TIMER_SCHEDULE E c r t = Some (e, s2)" "timers_ok E s2" "same_app t s2"
        "\<forall>q. ev_timer_exist q t = Some True \<longrightarrow> ev_timer_exist q s2 = Some True"
      using schedule_ok [OF t(1)] by blast
    then show ?thesis
      using same_app_upd(1) [OF same_app_trans [OF t(2)], of s2 e] by auto
  qed
  have s0: "same_app (s\<lparr>PollDataTimer := PollDataTimer s\<rparr>) s"
    by simp
  consider "pib_u8 rxOnWhenIdle s \<noteq> 0 \<or> r = 0"
    | "pib_u8 rxOnWhenIdle s = 0" "r \<noteq> 0" "PollDataTimer s = NULL"
    | "pib_u8 rxOnWhenIdle s = 0" "r \<noteq> 0" "PollDataTimer s \<noteq> NULL" by blast
  then show ?thesis
  proof cases
    case 1
    then have "mac_set_pollRate E r s = Some s"
      by (auto simp: mac_set_pollRate_def)
    then show ?thesis
      using assms s0 by blast
  next
    case 2
    then have "mac_set_pollRate E r s =
        do { (e, s2) \<leftarrow> TL_ZB_TIMER_SCHEDULE E (PollDataTimerCb_at E) r s; Some (s2\<lparr>PollDataTimer := e\<rparr>) }"
      by (simp add: mac_set_pollRate_def)
    then show ?thesis
      using sched [OF assms s0, of "PollDataTimerCb_at E"] by auto
  next
    case 3
    obtain e s1 where c: "TL_ZB_TIMER_CANCEL E (PollDataTimer s) s = Some (e, s1)" "timers_ok E s1" "same_app s s1"
        "\<forall>q. q \<noteq> PollDataTimer s \<longrightarrow> ev_timer_exist q s = Some True \<longrightarrow> ev_timer_exist q s1 = Some True"
      using cancel_ok [OF assms, of "PollDataTimer s"] by blast
    then have "mac_set_pollRate E r s = do { (e', s2) \<leftarrow> TL_ZB_TIMER_SCHEDULE E (PollDataTimerCb_at E) r (s1\<lparr>PollDataTimer := e\<rparr>);
          Some (s2\<lparr>PollDataTimer := e'\<rparr>) }"
      using 3 by (simp add: mac_set_pollRate_def)
    moreover obtain s' p where "do { (e', s2) \<leftarrow> TL_ZB_TIMER_SCHEDULE E (PollDataTimerCb_at E) r (s1\<lparr>PollDataTimer := e\<rparr>);
          Some (s2\<lparr>PollDataTimer := e'\<rparr>) } = Some s'" "timers_ok E s'" "same_app (s\<lparr>PollDataTimer := p\<rparr>) s'"
        "\<forall>q. ev_timer_exist q s1 = Some True \<longrightarrow> ev_timer_exist q s' = Some True"
      using sched [of "s1\<lparr>PollDataTimer := e\<rparr>" e "PollDataTimerCb_at E"] same_app_upd(1) [OF c(3), of e] c(2) by auto
    ultimately show ?thesis
      using c(4) by auto
  qed
qed

lemma cancelReq_ok:
  assumes "timers_ok E s"
  shows "\<exists>s' e. cancel_dataReq E s = Some s' \<and> timers_ok E s' \<and> same_app (s\<lparr>otaDataReqTimer := e\<rparr>) s' \<and>
    (\<forall>q. otaDataReqTimer s \<noteq> q \<longrightarrow> ev_timer_exist q s = Some True \<longrightarrow> ev_timer_exist q s' = Some True)"
proof (cases "otaDataReqTimer s = NULL")
  case True
  have "same_app (s\<lparr>otaDataReqTimer := otaDataReqTimer s\<rparr>) s"
    by simp
  then show ?thesis
    using assms True unfolding cancel_dataReq_def by auto
next
  case False
  obtain e s1 where "TL_ZB_TIMER_CANCEL E (otaDataReqTimer s) s = Some (e, s1)" "timers_ok E s1" "same_app s s1"
      "\<forall>q. q \<noteq> otaDataReqTimer s \<longrightarrow> ev_timer_exist q s = Some True \<longrightarrow> ev_timer_exist q s1 = Some True"
    using cancel_ok [OF assms, of "otaDataReqTimer s"] by blast
  then show ?thesis
    using False same_app_upd(2) [of s s1 e] by (auto simp: cancel_dataReq_def)
qed

lemma retry_ok:
  assumes "timers_ok E s" "n \<noteq> 0"
  shows "\<exists>s' e. ota_dataReqRetry E n s = Some s' \<and> timers_ok E s' \<and>
    same_app (s\<lparr>ota_reqRetryCnt := 0, otaDataReqTimer := e\<rparr>) s'"
proof -
  let ?s = "s\<lparr>ota_reqRetryCnt := 0\<rparr>"
  have "timers_ok E ?s"
    using assms by simp
  then obtain t e where t: "cancel_dataReq E ?s = Some t" "timers_ok E t" "same_app (?s\<lparr>otaDataReqTimer := e\<rparr>) t"
    using cancelReq_ok by blast
  obtain e' u where u: "TL_ZB_TIMER_SCHEDULE E (ota_periodicDataServerCb_at E) (ucast n * 1000) t = Some (e', u)"
      "timers_ok E u" "same_app t u"
    using schedule_ok [OF t(2)] by blast
  have "same_app (?s\<lparr>otaDataReqTimer := e'\<rparr>) (u\<lparr>otaDataReqTimer := e'\<rparr>)"
    using same_app_upd(2) [OF same_app_trans [OF t(3) u(3)], of e'] by simp
  then show ?thesis
    using t(1) u(1,2) assms(2) by (auto simp: ota_dataReqRetry_def Let_def)
qed

lemma stop_query_ok:
  fixes s :: "'a ota_dev_scheme"
  assumes "timers_ok E s"
  shows "\<exists>b s'. ev_timer_exist e s = Some b \<and> (if b then ev_unon_timer (evt_pool E) e s else Some s) = Some s' \<and>
    timers_ok E s' \<and> same_app s s'"
proof -
  obtain b where b: "ev_timer_exist e s = Some b"
    using exist_ok [OF assms] by blast
  obtain s' where s': "ev_unon_timer (evt_pool E) e s = Some s'" "timers_ok E s'"
    using runs_unon [OF assms, of e] by (auto simp: runs_def)
  then show ?thesis
    using b assms ev_unon_timer_more [OF s'(1)] by (cases b) (auto intro: same_app_more)
qed

lemma run_dataCb_eq:
  assumes "ota_dataCb s \<noteq> None"
  shows "\<exists>x. run_dataCb L s = Some (emit x (s\<lparr>g_tlAppDataSeqNo := g_tlAppDataSeqNo s + 1\<rparr>))"
proof (cases "ota_dataCb s")
  case (Some c)
  have "\<exists>x. ota_send L k p s = Some (emit x (s\<lparr>g_tlAppDataSeqNo := g_tlAppDataSeqNo s + 1\<rparr>))" for k p
    using ota_send_eq by blast
  then show ?thesis
    using Some by (cases c) (simp_all add: run_dataCb_def ota_dataReq_def ota_stopReq_def)
qed (use assms in simp)

text \<open>
  \<open>n\<close> expiries of the data timer in a row without any frame received; the service removes the timer when
  the callback returns a negative value.
\<close>

primrec silent_ticks :: "sdk_env \<Rightarrow> tn_lib \<Rightarrow> nat \<Rightarrow> 'a ota_dev_scheme \<Rightarrow> 'a ota_dev_scheme option" where
  "silent_ticks E L 0 s = Some s"
| "silent_ticks E L (Suc n) s =
     do { (r, s1) \<leftarrow> ota_periodicDataServerCb E L s; (if r < 0 then Some s1 else silent_ticks E L n s1) }"

lemma silent_last:
  assumes "timers_ok E s" "ota_reqRetryCnt s + 1 \<ge> OTA_MAX_IMAGE_BLOCK_RETRIES" "PollDataTimer s \<noteq> otaQueryTimer E"
  shows "\<exists>s'. ota_periodicDataServerCb E L s = Some (-1, s') \<and> timers_ok E s' \<and> outs s' = outs s \<and>
           ota_state s' = OTA_STA_IDLE \<and> otaDataReqTimer s' = NULL \<and> dev_otaInfo s' = preamble_zero \<and>
           ev_timer_exist (otaQueryTimer E) s' = Some True"
proof -
  define t where "t = s\<lparr>ota_reqRetryCnt := 0\<rparr>"
  have t: "timers_ok E t"
    using assms(1) by (simp add: t_def)
  obtain s2 where s2: "ota_queryStart E QUERY_RATE t = Some s2" "timers_ok E s2"
      "same_app ((ota_init E t)\<lparr>ota_state := OTA_STA_IDLE\<rparr>) s2" "ev_timer_exist (otaQueryTimer E) s2 = Some True"
    using queryStart_ok [OF t] by blast
  note f = same_app_ota [OF s2(3)]
  have "PollDataTimer s2 \<noteq> otaQueryTimer E"
    using f assms(3) by (simp add: ota_init_eq t_def)
  then obtain s3 p where s3: "mac_set_pollRate E NORMAL_POLL_RATE s2 = Some s3" "timers_ok E s3"
      "ev_timer_exist (otaQueryTimer E) s3 = Some True" "same_app (s2\<lparr>PollDataTimer := p\<rparr>) s3"
    using pollRate_ok [OF s2(2)] s2(4) by metis
  have "ota_periodicDataServerCb E L s = Some (-1, s3\<lparr>otaDataReqTimer := NULL\<rparr>)"
    using assms(2) s2(1) s3(1) by (simp add: ota_periodicDataServerCb_def Let_def t_def)
  then show ?thesis
    using s3(2,3) f same_app_ota [OF s3(4)] by (simp add: ota_init_eq t_def)
qed

lemma silent_more:
  assumes "timers_ok E s" "\<not> ota_reqRetryCnt s + 1 \<ge> OTA_MAX_IMAGE_BLOCK_RETRIES" "ota_dataCb s \<noteq> None"
  shows "\<exists>x s'. ota_periodicDataServerCb E L s = Some (0, s') \<and> timers_ok E s' \<and> outs s' = outs s @ [x] \<and>
           ota_reqRetryCnt s' = ota_reqRetryCnt s + 1 \<and> ota_dataCb s' = ota_dataCb s \<and> PollDataTimer s' = PollDataTimer s"
proof -
  let ?s = "s\<lparr>ota_reqRetryCnt := ota_reqRetryCnt s + 1\<rparr>"
  obtain x where "run_dataCb L ?s = Some (emit x (?s\<lparr>g_tlAppDataSeqNo := g_tlAppDataSeqNo ?s + 1\<rparr>))"
    using run_dataCb_eq [of ?s L] assms(3) by auto
  then show ?thesis
    using assms(1,2) by (simp add: ota_periodicDataServerCb_def Let_def)
qed

lemma silent_run:
  assumes "timers_ok E s" "ota_dataCb s \<noteq> None" "PollDataTimer s \<noteq> otaQueryTimer E"
    and "unat (ota_reqRetryCnt s) + k = 9"
  shows "\<exists>s' reqs. silent_ticks E L (Suc k) s = Some s' \<and> length reqs = k \<and> outs s' = outs s @ reqs \<and>
           timers_ok E s' \<and> ota_state s' = OTA_STA_IDLE \<and> otaDataReqTimer s' = NULL \<and>
           dev_otaInfo s' = preamble_zero \<and> ev_timer_exist (otaQueryTimer E) s' = Some True"
  using assms
proof (induction k arbitrary: s)
  case 0
  have "unat (ota_reqRetryCnt s + 1) = 10"
    using unat_inc_no_wrap [of "ota_reqRetryCnt s"] 0(4) by simp
  then have "ota_reqRetryCnt s + 1 \<ge> OTA_MAX_IMAGE_BLOCK_RETRIES"
    by (simp add: OTA_MAX_IMAGE_BLOCK_RETRIES_def word_le_nat_alt)
  then show ?case
    using silent_last [OF 0(1) _ 0(3), of L] by auto
next
  case (Suc k)
  have u: "unat (ota_reqRetryCnt s + 1) = unat (ota_reqRetryCnt s) + 1"
    using unat_inc_no_wrap [of "ota_reqRetryCnt s"] Suc.prems(4) by simp
  then have "\<not> ota_reqRetryCnt s + 1 \<ge> OTA_MAX_IMAGE_BLOCK_RETRIES"
    using Suc.prems(4) by (simp add: OTA_MAX_IMAGE_BLOCK_RETRIES_def word_le_nat_alt)
  then obtain x t where t: "ota_periodicDataServerCb E L s = Some (0, t)" "timers_ok E t" "outs t = outs s @ [x]"
      "ota_reqRetryCnt t = ota_reqRetryCnt s + 1" "ota_dataCb t = ota_dataCb s" "PollDataTimer t = PollDataTimer s"
    using silent_more [OF Suc.prems(1)] Suc.prems(2) by blast
  have "unat (ota_reqRetryCnt t) + k = 9"
    using t(4) u Suc.prems(4) by simp
  with Suc.IH [of t] t Suc.prems obtain s' reqs where "silent_ticks E L (Suc k) t = Some s'" "length reqs = k"
      "outs s' = outs t @ reqs" "timers_ok E s'" "ota_state s' = OTA_STA_IDLE" "otaDataReqTimer s' = NULL"
      "dev_otaInfo s' = preamble_zero" "ev_timer_exist (otaQueryTimer E) s' = Some True"
    by auto
  moreover have "silent_ticks E L (Suc (Suc k)) s = silent_ticks E L (Suc k) t"
    using t(1) by (subst silent_ticks.simps) simp
  ultimately show ?case
    using t(3) by (intro exI [of _ s'] exI [of _ "x # reqs"]) simp
qed

section \<open>The flash under the upgrade\<close>

definition set_chip :: "flash_chip \<Rightarrow> 'a sdk_state_scheme \<Rightarrow> 'a sdk_state_scheme" where
  "set_chip c s = s\<lparr>fl := (fl s)\<lparr>fp_chip := c\<rparr>\<rparr>"

abbreviation fmem_of :: "'a sdk_state_scheme \<Rightarrow> addr \<Rightarrow> u8" where
  "fmem_of s \<equiv> fmem (fp_chip (fl s))"

lemma put_flash_chip: "put_flash ((flash_of s)\<lparr>chip := c\<rparr>) s = set_chip c s"
  by (simp add: put_flash_def flash_of_def set_chip_def)

lemma set_chip_sel [simp]:
  "fp_chip (fl (set_chip c s)) = c" "fp_adc (fl (set_chip c s)) = fp_adc (fl s)"
  "fp_locked (fl (set_chip c s)) = fp_locked (fl s)" "fp_opt (fl (set_chip c s)) = fp_opt (fl s)"
  "set_chip c (set_chip d s) = set_chip c s"
  by (simp_all add: set_chip_def)

text \<open>Voltage is sufficient and no write is enabled.\<close>

definition flash_ready :: "'a sdk_state_scheme \<Rightarrow> bool" where
  "flash_ready s \<longleftrightarrow> \<not> fp_adc (fl s) < BATTERY_SAFETY_THRESHOLD \<and> \<not> wel (fp_chip (fl s))"

lemma on_flash_erase:
  assumes "nor_flash (bus E) wr prot" "flash_ready s" "unat a < 2 ^ 24"
  shows "on_flash (flash_erase (bus E) a) s =
    set_chip ((fp_chip (fl s))\<lparr>fmem := if prot (fstat (fp_chip (fl s))) a then fmem_of s else erased (fmem_of s) a\<rparr>) s"
  using nor_flash.drv_erase [OF assms(1,3), of "flash_of s"] assms(2)
  by (simp add: on_flash_def flash_ready_def put_flash_chip)

lemma erase_sectors_eq:
  assumes "nor_flash (bus E) wr prot" "flash_ready s" "unat a = 4096 * q" "4096 * (q + unat n) \<le> 2 ^ 24"
    and "\<forall>i < unat n. prot (fstat (fp_chip (fl s))) (a + of_nat i * FLASH_SECTOR_SIZE) = p"
  shows "erase_sectors E a n s =
    set_chip ((fp_chip (fl s))\<lparr>fmem := if p then fmem_of s else wiped (fmem_of s) (4096 * q) (4096 * (q + unat n))\<rparr>) s"
proof -
  have "fold (\<lambda>i. on_flash (flash_erase (bus E) (a + of_nat i * FLASH_SECTOR_SIZE))) [0..<k] s =
    set_chip ((fp_chip (fl s))\<lparr>fmem := if p then fmem_of s else wiped (fmem_of s) (4096 * q) (4096 * (q + k))\<rparr>) s"
    if "k \<le> unat n" for k
    using that
  proof (induction k)
    case 0
    have "wiped m l l = m" for m l
      by (auto simp: wiped_def fun_eq_iff)
    then show ?case
      by (simp add: set_chip_def)
  next
    case (Suc k)
    let ?a = "a + of_nat k * FLASH_SECTOR_SIZE"
    let ?t = "set_chip ((fp_chip (fl s))\<lparr>fmem := if p then fmem_of s else wiped (fmem_of s) (4096 * q) (4096 * (q + k))\<rparr>) s"
    have "(of_nat k * FLASH_SECTOR_SIZE :: addr) = of_nat (4096 * k)"
      by (simp add: FLASH_SECTOR_SIZE_def)
    moreover have "unat (of_nat (4096 * k) :: addr) = 4096 * k"
      using Suc.prems assms(4) by (simp add: unat_of_nat del: of_nat_mult)
    ultimately have ua: "unat ?a = 4096 * (q + k)"
      using unat_add_no_wrap [of a "of_nat (4096 * k)"] assms(3,4) Suc.prems by simp
    have "on_flash (flash_erase (bus E) ?a) ?t =
      set_chip ((fp_chip (fl ?t))\<lparr>fmem := if prot (fstat (fp_chip (fl ?t))) ?a then fmem_of ?t else erased (fmem_of ?t) ?a\<rparr>) ?t"
      by (rule on_flash_erase [OF assms(1)]) (use assms(2,4) ua Suc.prems in \<open>simp_all add: flash_ready_def\<close>)
    moreover have "erased (wiped (fmem_of s) (4096 * q) (4096 * (q + k))) ?a =
        wiped (fmem_of s) (4096 * q) (4096 * (q + Suc k))"
      using erased_wiped [OF ua] wiped_wiped [of "4096 * q" "4096 * (q + k)" "4096 * (q + k + 1)" "fmem_of s"] by simp
    moreover have "prot (fstat (fp_chip (fl s))) ?a = p"
      using assms(5) Suc.prems by simp
    ultimately show ?case
      using Suc by (simp del: of_nat_Suc)
  qed
  then show ?thesis
    by (simp add: erase_sectors_def)
qed

text \<open>Whatever is protected, erasing changes the contents of the flash only.\<close>

lemma erase_sectors_mem:
  assumes "nor_flash (bus E) wr prot" "flash_ready s" "unat a + 4096 * unat n \<le> 2 ^ 24"
  shows "\<exists>m. erase_sectors E a n s = set_chip ((fp_chip (fl s))\<lparr>fmem := m\<rparr>) s"
proof -
  have "\<exists>m. fold (\<lambda>i. on_flash (flash_erase (bus E) (a + of_nat i * FLASH_SECTOR_SIZE))) [0..<k] s =
      set_chip ((fp_chip (fl s))\<lparr>fmem := m\<rparr>) s" if "k \<le> unat n" for k
    using that
  proof (induction k)
    case 0
    then show ?case by (auto simp: set_chip_def intro: exI [of _ "fmem_of s"])
  next
    case (Suc k)
    then obtain m where m: "fold (\<lambda>i. on_flash (flash_erase (bus E) (a + of_nat i * FLASH_SECTOR_SIZE))) [0..<k] s =
        set_chip ((fp_chip (fl s))\<lparr>fmem := m\<rparr>) s" (is "_ = ?t")
      by auto
    let ?a = "a + of_nat k * FLASH_SECTOR_SIZE"
    have "(of_nat k * FLASH_SECTOR_SIZE :: addr) = of_nat (4096 * k)"
      by (simp add: FLASH_SECTOR_SIZE_def)
    moreover have "unat (of_nat (4096 * k) :: addr) = 4096 * k"
      using Suc.prems assms(3) by (simp add: unat_of_nat del: of_nat_mult)
    ultimately have "unat ?a < 2 ^ 24"
      using unat_add_no_wrap [of a "of_nat (4096 * k)"] assms(3) Suc.prems by simp
    moreover have "flash_ready ?t" using assms(2) by (simp add: flash_ready_def)
    ultimately show ?case
      using on_flash_erase [OF assms(1), of ?t ?a] m by auto
  qed
  then show ?thesis by (auto simp: erase_sectors_def)
qed

text \<open>Erasing sectors that are blank changes nothing, protected or not.\<close>

lemma erase_sectors_blank:
  assumes nor: "nor_flash (bus E) wr prot" and rdy: "flash_ready s" and a: "unat a = 4096 * q" "4096 * (q + unat n) \<le> 2 ^ 24"
    and blank: "\<forall>x. 4096 * q \<le> unat x \<and> unat x < 4096 * (q + unat n) \<longrightarrow> fmem_of s x = 0xFF"
  shows "erase_sectors E a n s = s"
proof -
  have "on_flash (flash_erase (bus E) (a + of_nat i * FLASH_SECTOR_SIZE)) s = s" if i: "i < unat n" for i
  proof -
    let ?a = "a + of_nat i * FLASH_SECTOR_SIZE"
    have "(of_nat i * FLASH_SECTOR_SIZE :: addr) = of_nat (4096 * i)"
      by (simp add: FLASH_SECTOR_SIZE_def)
    moreover have "unat (of_nat (4096 * i) :: addr) = 4096 * i"
      using i a(2) by (simp add: unat_of_nat del: of_nat_mult)
    ultimately have ua: "unat ?a = 4096 * (q + i)"
      using unat_add_no_wrap [of a "of_nat (4096 * i)"] a i by simp
    have "erased (fmem_of s) ?a = fmem_of s"
      unfolding erased_wiped [OF ua] using blank i by (auto simp: wiped_def fun_eq_iff)
    then show ?thesis
      using on_flash_erase [OF nor rdy, of ?a] ua a(2) i by (simp add: set_chip_def)
  qed
  then have "fold (\<lambda>i. on_flash (flash_erase (bus E) (a + of_nat i * FLASH_SECTOR_SIZE))) [0..<k] s = s" if "k \<le> unat n" for k
    using that by (induction k) simp_all
  then show ?thesis by (simp add: erase_sectors_def)
qed

text \<open>A start response that the client accepts.\<close>

definition start_accepted :: "ota_preamble_t \<Rightarrow> bool" where
  "start_accepted p \<longleftrightarrow> manufaurerCode p = MANUFACTURER_CODE \<and> imageType p = IMAGE_TYPE \<and> fileVer p > FILE_VERSION \<and>
     imageSize p > 0 \<and> imageSize p < OTA_MAX_IMAGE_SIZE"

definition image_sectors :: "ota_preamble_t \<Rightarrow> nat" where
  "image_sectors p = unat (imageSize p) div 4096 + 1"

lemma unat_sectors:
  assumes "start_accepted p"
  shows "unat (ucast (imageSize p div FLASH_SECTOR_SIZE + 1) :: u16) = image_sectors p" "image_sectors p \<le> 48"
proof -
  have i: "unat (imageSize p) < 0x30000"
    using assms by (simp add: start_accepted_def OTA_MAX_IMAGE_SIZE_def word_less_nat_alt)
  then have n: "unat (imageSize p) div 4096 < 48"
    by (simp add: less_mult_imp_div_less)
  have d: "unat (imageSize p div FLASH_SECTOR_SIZE) = unat (imageSize p) div 4096"
    by (simp add: FLASH_SECTOR_SIZE_def unat_div)
  have "unat (imageSize p div FLASH_SECTOR_SIZE + 1) = unat (imageSize p) div 4096 + 1"
    using unat_inc_no_wrap [of "imageSize p div FLASH_SECTOR_SIZE"] d n by simp
  then show "unat (ucast (imageSize p div FLASH_SECTOR_SIZE + 1) :: u16) = image_sectors p" "image_sectors p \<le> 48"
    using n by (simp_all add: image_sectors_def unsigned_ucast_eq take_bit_nat_eq_self)
qed

lemma set_chip_ota [simp]:
  "g_tlAppDataSeqNo (set_chip c s) = g_tlAppDataSeqNo s" "dev_otaInfo (set_chip c s) = dev_otaInfo s" "mcuBootAddr (set_chip c s) = mcuBootAddr s"
  "binInfo (set_chip c s) = binInfo s" "otaDataReqTimer (set_chip c s) = otaDataReqTimer s" "ota_state (set_chip c s) = ota_state s"
  "ota_reqRetryCnt (set_chip c s) = ota_reqRetryCnt s" "blockDataCount (set_chip c s) = blockDataCount s" "ota_headercnt (set_chip c s) = ota_headercnt s"
  "ota_headersize (set_chip c s) = ota_headersize s" "crcValue (set_chip c s) = crcValue s" "flashOffsetAddr (set_chip c s) = flashOffsetAddr s"
  "ota_dataCb (set_chip c s) = ota_dataCb s" "PollDataTimer (set_chip c s) = PollDataTimer s" "outs (set_chip c s) = outs s"
  "g_zbMacPib (set_chip c s) = g_zbMacPib s"
  by (simp_all add: set_chip_def)

lemma timers_ok_set_chip [simp]: "timers_ok E (set_chip c s) = timers_ok E s"
  by (rule timers_ok_cong) (simp_all add: set_chip_def)

lemma set_chip_upd:
  "set_chip c (s\<lparr>dev_otaInfo := p\<rparr>) = (set_chip c s)\<lparr>dev_otaInfo := p\<rparr>"
  by (simp add: set_chip_def)

text \<open>What an accepted start response leads to when the erasing leaves the chip \<open>c\<close>.\<close>

lemma startRsp_frame:
  fixes s :: "'a ota_dev_scheme"
  assumes ok: "timers_ok E s" and idle: "ota_state s = OTA_STA_IDLE" and acc: "start_accepted (preamble_at pd)"
    and e: "erase_sectors E (ota_base s) (ucast (imageSize (preamble_at pd) div FLASH_SECTOR_SIZE + 1))
       (s\<lparr>dev_otaInfo := preamble_at pd\<rparr>) = set_chip c (s\<lparr>dev_otaInfo := preamble_at pd\<rparr>)"
  shows "\<exists>s' msg. ota_startRspHandler E L pd s = Some s' \<and> timers_ok E s' \<and> ota_state s' = OTA_STA_STARTING \<and>
    dev_otaInfo s' = preamble_at pd \<and> g_tlAppDataSeqNo s' = g_tlAppDataSeqNo s + 1 \<and>
    outs s' = outs s @ [McpsDataRequest msg (ota_cmd_bytes (g_tlAppDataSeqNo s) TL_CMD_OTA_DATA_REQ
      ((preamble_at pd)\<lparr>imageSize := blockDataCount s\<rparr>))] \<and>
    fl s' = (fl s)\<lparr>fp_chip := c\<rparr> \<and>
    ota_headercnt s' = ota_headercnt s \<and> ota_headersize s' = ota_headersize s \<and> crcValue s' = crcValue s \<and>
    flashOffsetAddr s' = flashOffsetAddr s \<and> binInfo s' = binInfo s \<and> blockDataCount s' = blockDataCount s \<and>
    mcuBootAddr s' = mcuBootAddr s \<and> ota_dataCb s' = Some Cb_ota_dataReq \<and> ota_reqRetryCnt s' = 0"
proof -
  define s1 where "s1 = s\<lparr>dev_otaInfo := preamble_at pd\<rparr>"
  have b: "ota_base s1 = ota_base s" by (simp add: s1_def ota_base_def)
  define s2 where "s2 = (set_chip c s1)\<lparr>ota_state := OTA_STA_STARTING\<rparr>"
  have "timers_ok E s2"
    using ok by (simp add: s2_def s1_def)
  then obtain ex s3 where s3: "ev_timer_exist (otaQueryTimer E) s2 = Some ex"
      "(if ex then ev_unon_timer (evt_pool E) (otaQueryTimer E) s2 else Some s2) = Some s3" "timers_ok E s3" "same_app s2 s3"
    using stop_query_ok by blast
  obtain msg where s4: "ota_dataReq L s3 =
      Some (emit (McpsDataRequest msg (ota_cmd_bytes (g_tlAppDataSeqNo s3) TL_CMD_OTA_DATA_REQ ((dev_otaInfo s3)\<lparr>imageSize := blockDataCount s3\<rparr>)))
        (s3\<lparr>g_tlAppDataSeqNo := g_tlAppDataSeqNo s3 + 1\<rparr>))" (is "_ = Some ?s4")
    using ota_dataReq_eq by blast
  have "timers_ok E ?s4"
    using s3(3) by simp
  then obtain s5 r where s5: "mac_set_pollRate E OTA_POLL_RATE ?s4 = Some s5" "timers_ok E s5"
      "same_app (?s4\<lparr>PollDataTimer := r\<rparr>) s5"
    using pollRate_ok by blast
  have "timers_ok E (s5\<lparr>ota_dataCb := Some Cb_ota_dataReq\<rparr>)"
    using s5(2) by simp
  moreover have "OTA_MAX_IMAGE_BLOCK_RSP_WAIT_TIME \<noteq> 0"
    by (simp add: OTA_MAX_IMAGE_BLOCK_RSP_WAIT_TIME_def)
  ultimately obtain s6 t where s6:
      "ota_dataReqRetry E OTA_MAX_IMAGE_BLOCK_RSP_WAIT_TIME (s5\<lparr>ota_dataCb := Some Cb_ota_dataReq\<rparr>) = Some s6"
      "timers_ok E s6" "same_app (s5\<lparr>ota_dataCb := Some Cb_ota_dataReq, ota_reqRetryCnt := 0, otaDataReqTimer := t\<rparr>) s6"
    using retry_ok by blast
  have "ota_startRspHandler E L pd s = Some s6"
    using acc idle s3(1,2) s4 s5(1) s6(1)
    unfolding ota_startRspHandler_def Let_def s1_def [symmetric] b e [folded s1_def] s2_def [symmetric] start_accepted_def by simp
  then show ?thesis
    using s6(2) same_app_ota [OF s6(3)] same_app_ota [OF s5(3)] same_app_ota [OF s3(4)]
    by (simp add: s2_def s1_def set_chip_def)
qed

text \<open>The same with \<open>p\<close> saying whether the image area is write protected.\<close>

lemma startRsp_eq:
  assumes nor: "nor_flash (bus E) wr prot" and ok: "timers_ok E s" and rdy: "flash_ready s"
    and idle: "ota_state s = OTA_STA_IDLE" and acc: "start_accepted (preamble_at pd)"
    and pr: "\<forall>i < image_sectors (preamble_at pd). prot (fstat (fp_chip (fl s))) (ota_base s + of_nat i * FLASH_SECTOR_SIZE) = p"
  shows "\<exists>s' msg. ota_startRspHandler E L pd s = Some s' \<and> timers_ok E s' \<and> ota_state s' = OTA_STA_STARTING \<and>
    dev_otaInfo s' = preamble_at pd \<and> g_tlAppDataSeqNo s' = g_tlAppDataSeqNo s + 1 \<and>
    outs s' = outs s @ [McpsDataRequest msg (ota_cmd_bytes (g_tlAppDataSeqNo s) TL_CMD_OTA_DATA_REQ
      ((preamble_at pd)\<lparr>imageSize := blockDataCount s\<rparr>))] \<and>
    fl s' = (fl s)\<lparr>fp_chip := (fp_chip (fl s))\<lparr>fmem := if p then fmem_of s
       else wiped (fmem_of s) (unat (ota_base s)) (unat (ota_base s) + 4096 * image_sectors (preamble_at pd))\<rparr>\<rparr> \<and>
    ota_headercnt s' = ota_headercnt s \<and> ota_headersize s' = ota_headersize s \<and> crcValue s' = crcValue s \<and>
    flashOffsetAddr s' = flashOffsetAddr s \<and> binInfo s' = binInfo s \<and> blockDataCount s' = blockDataCount s \<and>
    mcuBootAddr s' = mcuBootAddr s \<and> ota_dataCb s' = Some Cb_ota_dataReq \<and> ota_reqRetryCnt s' = 0"
proof (rule startRsp_frame [OF ok idle acc])
  let ?p = "preamble_at pd"
  let ?n = "ucast (imageSize ?p div FLASH_SECTOR_SIZE + 1) :: u16" and ?s1 = "s\<lparr>dev_otaInfo := ?p\<rparr>"
  have n: "unat ?n = image_sectors ?p" "image_sectors ?p \<le> 48"
    using unat_sectors [OF acc] by auto
  define q where "q = (if mcuBootAddr s \<noteq> 0 then 0 else 64 :: nat)"
  have b: "unat (ota_base s) = 4096 * q"
    by (simp add: ota_base_def FLASH_OTA_NEWIMAGE_ADDR_def q_def)
  show "erase_sectors E (ota_base s) ?n ?s1 = set_chip ((fp_chip (fl s))\<lparr>fmem := if p then fmem_of s
       else wiped (fmem_of s) (unat (ota_base s)) (unat (ota_base s) + 4096 * image_sectors ?p)\<rparr>) ?s1"
    using erase_sectors_eq [OF nor, of ?s1 "ota_base s" q ?n p] rdy b n pr
    by (simp add: flash_ready_def q_def add_mult_distrib2)
qed

text \<open>Whatever is protected, a start response keeps the counters of the last upgrade.\<close>

lemma startRsp_keeps:
  assumes nor: "nor_flash (bus E) wr prot" and ok: "timers_ok E s" and rdy: "flash_ready s"
    and idle: "ota_state s = OTA_STA_IDLE" and acc: "start_accepted (preamble_at pd)"
  shows "\<exists>s' m. ota_startRspHandler E L pd s = Some s' \<and> timers_ok E s' \<and> ota_state s' = OTA_STA_STARTING \<and>
    dev_otaInfo s' = preamble_at pd \<and> fl s' = (fl s)\<lparr>fp_chip := (fp_chip (fl s))\<lparr>fmem := m\<rparr>\<rparr> \<and>
    ota_headercnt s' = ota_headercnt s \<and> ota_headersize s' = ota_headersize s \<and> crcValue s' = crcValue s \<and>
    flashOffsetAddr s' = flashOffsetAddr s \<and> binInfo s' = binInfo s \<and> blockDataCount s' = blockDataCount s \<and>
    mcuBootAddr s' = mcuBootAddr s"
proof -
  let ?p = "preamble_at pd"
  let ?n = "ucast (imageSize ?p div FLASH_SECTOR_SIZE + 1) :: u16" and ?s1 = "s\<lparr>dev_otaInfo := ?p\<rparr>"
  have "unat (ota_base s) + 4096 * unat ?n \<le> 2 ^ 24"
    using unat_sectors [OF acc] by (simp add: ota_base_def FLASH_OTA_NEWIMAGE_ADDR_def)
  then obtain m where "erase_sectors E (ota_base s) ?n ?s1 = set_chip ((fp_chip (fl s))\<lparr>fmem := m\<rparr>) ?s1"
    using erase_sectors_mem [OF nor, of ?s1 "ota_base s" ?n] rdy by (auto simp: flash_ready_def)
  from startRsp_frame [OF ok idle acc this, of L] show ?thesis by blast
qed

section \<open>A concrete device\<close>

definition demo_ota :: ota_dev where
  "demo_ota = sdk_state.extend demo_sdk
     \<lparr>g_tlAppDataSeqNo = 0, dev_otaInfo = preamble_zero, mcuBootAddr = 0, binInfo = preamble_zero, otaDataReqTimer = 0,
      ota_state = OTA_STA_STARTING, ota_reqRetryCnt = 0, blockDataCount = 0, ota_headercnt = 0, ota_headersize = 0,
      crcValue = 0xffffffff, flashOffsetAddr = 0, ota_dataCb = Some Cb_ota_dataReq, PollDataTimer = 0, poll_cnt = 0,
      tdebug_cnt_poll_req = 0\<rparr>"

definition demo_env :: sdk_env where
  "demo_env = \<lparr>bus = dev_bus 0x9C prot_1460c8, evt_pool = 0x840100, otaQueryTimer = 0x500,
     ota_periodicQueryServerCb_at = 0x1000, ota_periodicDataServerCb_at = 0x1010, PollDataTimerCb_at = 0x1020,
     dev_activescan_callback_at = 0x1030\<rparr>"

lemma demo_ota_sel [simp]:
  "mem demo_ota = (\<lambda>_. 0)" "timer_head demo_ota = 0" "used_num demo_ota = 0" "outs demo_ota = []"
  "g_zbMacPib demo_ota = (\<lambda>_. 0)" "fl demo_ota = fl demo_sdk" "ota_state demo_ota = OTA_STA_STARTING"
  "ota_reqRetryCnt demo_ota = 0" "ota_dataCb demo_ota = Some Cb_ota_dataReq" "PollDataTimer demo_ota = 0"
  "mcuBootAddr demo_ota = 0" "tev demo_ota = tev demo_sdk" "dev_otaInfo demo_ota = preamble_zero"
  "ota_headercnt demo_ota = 0" "ota_headersize demo_ota = 0" "crcValue demo_ota = 0xffffffff"
  "flashOffsetAddr demo_ota = 0" "blockDataCount demo_ota = 0" "binInfo demo_ota = preamble_zero"
  by (simp_all add: demo_ota_def demo_sdk_def sdk_state.defs)

lemma demo_env_sel [simp]:
  "bus demo_env = dev_bus 0x9C prot_1460c8" "evt_pool demo_env = 0x840100" "otaQueryTimer demo_env = 0x500"
  by (simp_all add: demo_env_def)

lemma demo_timers_ok: "timers_ok demo_env demo_ota"
proof -
  have "timer_inv 0x840100 demo_ota []"
    by (simp add: timer_inv_def used_slots_def demo_sdk_def)
  moreover have "own_event 0x840100 0x500"
    by (simp add: own_event_def evt_addr_def)
  ultimately show ?thesis
    using demo_pool_ok by (auto simp: timers_ok_def)
qed

section \<open>Properties\<close>

text \<open>
  C27. The upgrade client never gets stuck: in every state whose timer list is well formed, the dispatch of
  any received frame and the three timer callbacks return, and the timer list is well formed
  afterwards.
\<close>

theorem ota_handlers_return:
  assumes "timers_ok E s"
  shows "(\<exists>r s'. tl_appDataIndicate E L pd s = Some (r, s') \<and> timers_ok E s') \<and>
         (\<exists>r s'. ota_periodicDataServerCb E L s = Some (r, s') \<and> timers_ok E s') \<and>
         (\<exists>r s'. ota_periodicQueryServerCb L s = Some (r, s') \<and> timers_ok E s') \<and>
         (\<exists>r s'. PollDataTimerCb L s = Some (r, s') \<and> timers_ok E s')"
proof (intro conjI)
  show "\<exists>r s'. tl_appDataIndicate E L pd s = Some (r, s') \<and> timers_ok E s'"
    using runs_startRsp [OF assms, of L "\<lambda>i. pd (i + 4)"] runs_stopRsp [OF assms, of "\<lambda>i. pd (i + 4)"]
      runs_dataRsp [OF assms, of L "\<lambda>i. pd (i + 4)"] assms
    by (auto simp: tl_appDataIndicate_def tl_appOtaCmdHandler_def Let_def runs_def)
  show "\<exists>r s'. ota_periodicQueryServerCb L s = Some (r, s') \<and> timers_ok E s'"
    using runs_requests(1) [OF assms, of L] by (auto simp: ota_periodicQueryServerCb_def runs_def)
  show "\<exists>r s'. PollDataTimerCb L s = Some (r, s') \<and> timers_ok E s'"
    using get_coord [of L "\<lambda>_. 0" 0 s] get_pan [of L "\<lambda>_. 0" 0 s] assms
    by (auto simp: PollDataTimerCb_def poll_data_req_send_def Let_def)
  show "\<exists>r s'. ota_periodicDataServerCb E L s = Some (r, s') \<and> timers_ok E s'"
  proof -
    have "runs E (ota_queryStart E QUERY_RATE (s\<lparr>ota_reqRetryCnt := 0\<rparr>) \<bind> mac_set_pollRate E NORMAL_POLL_RATE)"
      using assms by (auto intro!: runs_bind runs_queryStart runs_pollRate)
    moreover have "runs E (run_dataCb L t)" if "timers_ok E t" for t :: "'a ota_dev_scheme"
      using that runs_requests
      by (auto simp: run_dataCb_def split: option.splits ota_periodiccallback_t.splits)
    then have "runs E (run_dataCb L (s\<lparr>ota_reqRetryCnt := ota_reqRetryCnt s + 1\<rparr>))"
      using assms by simp
    ultimately show ?thesis
      by (fastforce simp: ota_periodicDataServerCb_def Let_def runs_def bind_eq_Some_conv)
  qed
qed

theorem ota_handlers_return_witness:
  "\<exists>r s'. tl_appDataIndicate demo_env list_c_lib (\<lambda>i. [1, 7, 6, 65] ! (i mod 4)) demo_ota = Some (r, s') \<and>
     timers_ok demo_env s'"
  using ota_handlers_return [OF demo_timers_ok, of list_c_lib "\<lambda>i. [1, 7, 6, 65] ! (i mod 4)"] by blast

text \<open>
  C18. A silent server is given up after a bounded number of retries: if no answer arrives, the timer sends
  the pending request again until the tenth expiry, and then the client is back in the idle state with
  its data timer gone, its upgrade information cleared and the query timer running, having sent
  exactly the retries still allowed.
\<close>

theorem ota_silent_server:
  assumes "timers_ok E s" "ota_dataCb s \<noteq> None" "PollDataTimer s \<noteq> otaQueryTimer E" "ota_reqRetryCnt s < 10"
  defines "k \<equiv> 9 - unat (ota_reqRetryCnt s)"
  shows "\<exists>s' reqs. silent_ticks E L (k + 1) s = Some s' \<and> length reqs = k \<and> outs s' = outs s @ reqs \<and>
           ota_state s' = OTA_STA_IDLE \<and> otaDataReqTimer s' = NULL \<and> dev_otaInfo s' = preamble_zero \<and>
           ev_timer_exist (otaQueryTimer E) s' = Some True \<and> timers_ok E s'"
proof -
  have "unat (ota_reqRetryCnt s) + k = 9"
    using assms(4) by (simp add: k_def word_less_nat_alt)
  then show ?thesis
    using silent_run [OF assms(1-3)] by fastforce
qed

theorem ota_silent_server_witness:
  "\<exists>s' reqs. silent_ticks demo_env list_c_lib 10 demo_ota = Some s' \<and> length reqs = 9 \<and> outs s' = reqs \<and>
     ota_state s' = OTA_STA_IDLE"
  using ota_silent_server [OF demo_timers_ok, of list_c_lib] by auto

text \<open>
  C26. An accepted start response puts the client into the starting state with the announced image and
  erases the sectors of the image area, provided they are not write protected. When the area is
  protected, as it is after \<^verbatim>\<open>drv_platform_init\<close> has locked the flash, nothing is erased, because
  \<^verbatim>\<open>ota_startRspHandler\<close> does not unlock the flash as the other handlers do, and the client goes on
  all the same.
\<close>

theorem ota_start_erases:
  assumes "nor_flash (bus E) wr prot" "timers_ok E s" "flash_ready s" "ota_state s = OTA_STA_IDLE"
    and "start_accepted (preamble_at pd)"
    and "\<forall>i < image_sectors (preamble_at pd). prot (fstat (fp_chip (fl s))) (ota_base s + of_nat i * FLASH_SECTOR_SIZE) = p"
  shows "\<exists>s'. ota_startRspHandler E L pd s = Some s' \<and> ota_state s' = OTA_STA_STARTING \<and> dev_otaInfo s' = preamble_at pd \<and>
    (\<forall>x. fmem_of s' x =
       (if \<not> p \<and> unat (ota_base s) \<le> unat x \<and> unat x < unat (ota_base s) + 4096 * image_sectors (preamble_at pd)
        then 0xFF else fmem_of s x))"
proof -
  obtain s' where "ota_startRspHandler E L pd s = Some s'" "ota_state s' = OTA_STA_STARTING" "dev_otaInfo s' = preamble_at pd"
      "fl s' = (fl s)\<lparr>fp_chip := (fp_chip (fl s))\<lparr>fmem := if p then fmem_of s
       else wiped (fmem_of s) (unat (ota_base s)) (unat (ota_base s) + 4096 * image_sectors (preamble_at pd))\<rparr>\<rparr>"
    using startRsp_eq [OF assms, of L] by blast
  then show ?thesis
    by (auto simp: wiped_def)
qed

text \<open>A start response for version 0x20000000 with 0x1000 bytes, and a device whose flash is locked.\<close>

definition demo_start :: "nat \<Rightarrow> u8" where
  "demo_start i = (if i < 12 then [0, 0, 0, 0x20, 0x52, 0x78, 0x41, 0x11, 0, 0x10, 0, 0] ! i else 0)"

definition demo_locked :: ota_dev where
  "demo_locked = demo_ota\<lparr>ota_state := OTA_STA_IDLE,
     fl := (fl demo_sdk)\<lparr>fp_chip := (fp_chip (fl demo_sdk))\<lparr>fstat := 0x1C\<rparr>\<rparr>\<rparr>"

lemma demo_start_preamble:
  "preamble_at demo_start = \<lparr>fileVer = 0x20000000, imageType = 0x7852, manufaurerCode = 0x1141, imageSize = 0x1000\<rparr>"
  by (simp add: preamble_at_def demo_start_def le32_def le16_def push_bit_eq_mult)

theorem ota_start_erases_witness:
  "\<exists>s'. ota_startRspHandler demo_env list_c_lib demo_start demo_locked = Some s' \<and> ota_state s' = OTA_STA_STARTING \<and>
     fmem_of s' = fmem_of demo_locked"
proof -
  have "timers_ok demo_env demo_locked"
    using demo_timers_ok by (subst timers_ok_cong [of _ demo_ota]) (simp_all add: demo_locked_def)
  moreover have "flash_ready demo_locked"
    by (simp add: flash_ready_def demo_locked_def demo_sdk_def demo_flash_state_def demo_hw_def flash_hw.defs blank_chip_def
        BATTERY_SAFETY_THRESHOLD_def)
  moreover have "start_accepted (preamble_at demo_start)"
    by (simp add: demo_start_preamble start_accepted_def MANUFACTURER_CODE_def IMAGE_TYPE_def FILE_VERSION_def
        OTA_MAX_IMAGE_SIZE_def)
  moreover have "prot_1460c8 0x1C a" for a
    by (simp add: prot_1460c8_def)
  ultimately show ?thesis
    using ota_start_erases [OF dev.nor_flash_axioms [of "0x9C" prot_1460c8, folded demo_env_sel(1)],
        of demo_locked demo_start True list_c_lib]
    by (auto simp: demo_locked_def fun_eq_iff)
qed

end
