(* ===== verification/App_Dev.thy ===== *)
theory App_Dev
  imports App_Sec Ota_Run
begin

text \<open>
  The demo end device, \<^verbatim>\<open>demo/associate_dev/app.c\<close>: scanning for coordinators, the choice among the beacons,
  association, the key material for the coordinator and the start of polling and upgrade queries. The
  upgrade client and the polling are in \<^verbatim>\<open>Ota_Device\<close>. The MAC library calls the \<^verbatim>\<open>My...Cb\<close> functions with
  a primitive; a null pointer is the argument \<open>None\<close>.
\<close>

section \<open>State\<close>

record my_pan_t =
  my_pan_id :: u16
  my_lqi :: u8
  my_channel :: u8
  coor_addr :: addr_t
  permitjoin :: u8

definition MAX_ED_SCAN_RESULTS_SUPPORTED :: nat where "MAX_ED_SCAN_RESULTS_SUPPORTED = 16"
definition DEFAULT_CHANNEL :: nat where "DEFAULT_CHANNEL = 24"
definition ACTIVE_SCAN :: u8 where "ACTIVE_SCAN = 1"

text \<open>\<^verbatim>\<open>received_coor\<close> is the array \<open>coor_beacon\<close> with its fill level \<open>coor_size\<close>.\<close>

record app_dev = ota_dev +
  BeaconReqTimer :: addr
  coor_ext_addr :: "u8 list"
  coor_addr_short :: u16
  pan_id :: u16
  pKeyUsgDesc :: "addr list"
  pKeyIDDesc :: addr
  coor_beacon :: "my_pan_t list"
  coor_size :: u32
  newDev :: bool
  dev_user_packet :: "u8 list"
  tdebug_cnt_poll_cnf :: u32

text \<open>The primitives, with the fields the application reads.\<close>

record mac_panDesc_t =
  pd_coordPanId :: u16
  pd_superframeSpec :: u16
  pd_coordAddr :: addr_t
  pd_logicalChannel :: u8
  pd_gtsPermit :: u8
  pd_linkQuality :: u8

record zb_mac_mlme_scan_conf_t =
  scan_status :: u8
  scan_type :: u8

record zb_mlme_associate_conf_t =
  parentAddress :: "u8 list"
  assoc_shortAddress :: u16
  assoc_status :: u8

text \<open>The bit field of \<^verbatim>\<open>zb_superframe_spec_t\<close>: the topmost bit of the 16.\<close>

definition associatePermit :: "u16 \<Rightarrow> bool" where
  "associatePermit frm \<longleftrightarrow> bit frm 15"

section \<open>Configuration and key material\<close>

definition dev_config :: "tn_lib \<Rightarrow> sec_vars \<Rightarrow> sec_lib \<Rightarrow> 'a app_dev_scheme \<Rightarrow> 'a app_dev_scheme option" where
  "dev_config L V D s =
     do {
       (_, _, s1) \<leftarrow> tl_zbMacAttrSet L V MAC_ATTR_SECURITY_ENABLED NULL (\<lambda>_. ZB_MAC_SECURITY) 1 s;
       (_, _, s2) \<leftarrow> tl_zbMacAttrSet L V MAC_DEFAULT_KEY_SOURCE NULL (nth default_key_source) 8 s1;
       (us, k, m) \<leftarrow> common_material D (mem s2);
       Some (s2\<lparr>mem := m, pKeyUsgDesc := us, pKeyIDDesc := k\<rparr>)
     }"

definition dev_add_key_material ::
  "tn_lib \<Rightarrow> sec_vars \<Rightarrow> sec_lib \<Rightarrow> 'a app_dev_scheme \<Rightarrow> (u8 \<times> 'a app_dev_scheme) option" where
  "dev_add_key_material L V D s =
     (let (pDevDesc, m1) = mac_deviceDesc_alloc D (mem s) in
      if pDevDesc = NULL then None
      else do {
        let m2 = mac_deviceDesc_set D pDevDesc (pan_id s) (coor_addr_short s) (coor_ext_addr s) 0 False m1;
        (_, _, s1) \<leftarrow> tl_zbMacAttrSet L V MAC_DEVICE_TABLE pDevDesc (\<lambda>_. 0) 0 (s\<lparr>mem := m2\<rparr>);
        let (pKeyDevDesc, m3) = mac_keydevDesc_alloc D (mem s1);
        if pKeyDevDesc = NULL then None
        else do {
          let m4 = mac_keydevDesc_set D pKeyDevDesc pDevDesc False False m3;
          let (pKeyDesc, m5) = mac_keyDesc_alloc D m4;
          if pKeyDesc = NULL then None
          else do {
            let m6 = mac_keyDesc_set D pKeyDesc [pKeyIDDesc s1] [pKeyDevDesc] (pKeyUsgDesc s1) test_key m5;
            (_, _, s2) \<leftarrow> tl_zbMacAttrSet L V MAC_KEY_TABLE pKeyDesc (\<lambda>_. 0) 0 (s1\<lparr>mem := m6\<rparr>);
            Some (1, s2)
          }
        }
      })"

section \<open>Scanning and association\<close>

definition dev_active_scan :: "'a app_dev_scheme \<Rightarrow> 'a app_dev_scheme" where
  "dev_active_scan s = emit (MlmeScanRequest ACTIVE_SCAN (push_bit DEFAULT_CHANNEL 1) 2) (s\<lparr>coor_size := 0\<rparr>)"

definition dev_activescan_callback :: "'a app_dev_scheme \<Rightarrow> int \<times> 'a app_dev_scheme" where
  "dev_activescan_callback s = (0, dev_active_scan s)"

definition cancel_beacon :: "sdk_env \<Rightarrow> 'a app_dev_scheme \<Rightarrow> 'a app_dev_scheme option" where
  "cancel_beacon E s =
     (if BeaconReqTimer s \<noteq> NULL
      then do { (e, s1) \<leftarrow> TL_ZB_TIMER_CANCEL E (BeaconReqTimer s) s; Some (s1\<lparr>BeaconReqTimer := e\<rparr>) }
      else Some s)"

definition dev_start_scan :: "sdk_env \<Rightarrow> 'a app_dev_scheme \<Rightarrow> 'a app_dev_scheme option" where
  "dev_start_scan E s =
     do {
       s1 \<leftarrow> cancel_beacon E s;
       (e, s2) \<leftarrow> TL_ZB_TIMER_SCHEDULE E (dev_activescan_callback_at E) (3 * 1000) s1;
       Some (s2\<lparr>BeaconReqTimer := e\<rparr>)
     }"

definition MyBeaconIndCb :: "mac_panDesc_t option \<Rightarrow> 'a app_dev_scheme \<Rightarrow> 'a app_dev_scheme" where
  "MyBeaconIndCb pData s =
     (case pData of None \<Rightarrow> s
      | Some d \<Rightarrow>
          if \<not> associatePermit (pd_superframeSpec d) then s
          else
            let sz = ucast (coor_size s + 1) :: u8 in
            if unat sz < MAX_ED_SCAN_RESULTS_SUPPORTED then
              s\<lparr>coor_beacon := (coor_beacon s)[unat (coor_size s) :=
                  \<lparr>my_pan_id = pd_coordPanId d, my_lqi = pd_linkQuality d, my_channel = pd_logicalChannel d,
                   coor_addr = pd_coordAddr d, permitjoin = pd_gtsPermit d\<rparr>],
                coor_size := coor_size s + 1\<rparr>
            else s)"

text \<open>The search of \<^verbatim>\<open>dev_start_associate\<close>, on indices into the array.\<close>

definition highest_lqi :: "my_pan_t list \<Rightarrow> nat \<Rightarrow> nat" where
  "highest_lqi bs n = fold (\<lambda>i h. if my_lqi (bs ! i) > my_lqi (bs ! h) then i else h) [0..<n] 0"

definition dev_start_associate :: "tn_lib \<Rightarrow> sec_vars \<Rightarrow> 'a app_dev_scheme \<Rightarrow> 'a app_dev_scheme option" where
  "dev_start_associate L V s =
     (if coor_size s = 0 then Some s
      else
        let pan = coor_beacon s ! highest_lqi (coor_beacon s) (unat (coor_size s));
            bytes = addr_bytes (coor_addr pan);
            req = \<lparr>assocCoordAddress = addr_zero, logicalChannel = my_channel pan, coordPanId = my_pan_id pan,
                   rcvOnWhenIdle = True, allocAddr = True\<rparr>
        in do {
          (req', s1) \<leftarrow>
            (if addrMode (coor_addr pan) = ZB_ADDR_64BIT_DEV then
               do {
                 (_, _, s') \<leftarrow> tl_zbMacAttrSet L V MAC_ATTR_COORDINATOR_EXTENDED_ADDRESS NULL (nth bytes) 8 s;
                 Some (req\<lparr>assocCoordAddress := \<lparr>addr_bytes = take 8 bytes, addrMode = ZB_ADDR_64BIT_DEV\<rparr>\<rparr>, s')
               }
             else
               do {
                 (_, _, s') \<leftarrow> tl_zbMacAttrSet L V MAC_ATTR_COORDINATOR_SHORT_ADDRESS NULL (nth bytes) 2 s;
                 Some (req\<lparr>assocCoordAddress := \<lparr>addr_bytes = take 2 bytes @ replicate 6 0,
                              addrMode = ZB_ADDR_16BIT_DEV_OR_BROADCAST\<rparr>\<rparr>, s')
               });
          (_, _, s2) \<leftarrow> tl_zbMacAttrSet L V MAC_ATTR_PAN_ID NULL (nth (bytes16 (my_pan_id pan))) 2 s1;
          Some (emit (MlmeAssociateRequest req') s2)
        })"

definition MyScanCnfCb ::
  "sdk_env \<Rightarrow> tn_lib \<Rightarrow> sec_vars \<Rightarrow> zb_mac_mlme_scan_conf_t option \<Rightarrow> 'a app_dev_scheme \<Rightarrow> 'a app_dev_scheme option" where
  "MyScanCnfCb E L V pData s =
     (case pData of None \<Rightarrow> Some s
      | Some pConf \<Rightarrow>
          if coor_size s \<noteq> 0 then do { s1 \<leftarrow> cancel_beacon E s; dev_start_associate L V s1 } else Some s)"

definition MyAssocCnfCb ::
  "sdk_env \<Rightarrow> tn_lib \<Rightarrow> sec_vars \<Rightarrow> sec_lib \<Rightarrow> zb_mlme_associate_conf_t option \<Rightarrow> 'a app_dev_scheme \<Rightarrow> 'a app_dev_scheme option" where
  "MyAssocCnfCb E L V D pData s =
     (case pData of None \<Rightarrow> Some s
      | Some pCnf \<Rightarrow>
          do {
            (_, _, s1) \<leftarrow> tl_zbMacAttrSet L V MAC_ATTR_COORDINATOR_EXTENDED_ADDRESS NULL (nth (parentAddress pCnf)) 8 s;
            (_, pan, _) \<leftarrow> tl_zbMacAttrGet L MAC_ATTR_PAN_ID (\<lambda>_. 0) 8 s1;
            (_, sh, _) \<leftarrow> tl_zbMacAttrGet L MAC_ATTR_COORDINATOR_SHORT_ADDRESS (\<lambda>_. 0) 8 s1;
            (_, s2) \<leftarrow> dev_add_key_material L V D
                         (s1\<lparr>pan_id := le16 pan 0, coor_addr_short := le16 sh 0, coor_ext_addr := parentAddress pCnf\<rparr>);
            if assoc_status pCnf = MAC_SUCCESS then
              do {
                s3 \<leftarrow> mac_set_pollRate E NORMAL_POLL_RATE ((emit Ieee802154InfoSave s2)\<lparr>newDev := False\<rparr>);
                ota_queryStart E QUERY_RATE s3
              }
            else Some s2
          })"

section \<open>Data and confirmations\<close>

definition dev_MyDataIndCb ::
  "sdk_env \<Rightarrow> tn_lib \<Rightarrow> (u8 \<times> (nat \<Rightarrow> u8)) option \<Rightarrow> 'a app_dev_scheme \<Rightarrow> 'a app_dev_scheme option" where
  "dev_MyDataIndCb E L pData s =
     (case pData of None \<Rightarrow> Some s
      | Some (msduLength, msdu) \<Rightarrow>
          do {
            (ret, s1) \<leftarrow> tl_appDataIndicate E L msdu s;
            (if ret \<noteq> SUCCESS then
               let len = (if unat msduLength > length (dev_user_packet s1) then length (dev_user_packet s1) else unat msduLength)
               in Some (s1\<lparr>dev_user_packet := map msdu [0..<len] @ drop len (dev_user_packet s1)\<rparr>)
             else Some s1)
          })"

definition MyPollCnfCb :: "u8 option \<Rightarrow> 'a app_dev_scheme \<Rightarrow> 'a app_dev_scheme" where
  "MyPollCnfCb pData s =
     (case pData of None \<Rightarrow> s | Some st \<Rightarrow> s\<lparr>tdebug_cnt_poll_cnf := tdebug_cnt_poll_cnf s + 1\<rparr>)"

definition dev_MyDataCnfCb :: "u8 option \<Rightarrow> 'a app_dev_scheme \<Rightarrow> 'a app_dev_scheme" where
  "dev_MyDataCnfCb arg s = s"

section \<open>Collecting beacons\<close>

definition pan_of :: "mac_panDesc_t \<Rightarrow> my_pan_t" where
  "pan_of d = \<lparr>my_pan_id = pd_coordPanId d, my_lqi = pd_linkQuality d, my_channel = pd_logicalChannel d,
     coor_addr = pd_coordAddr d, permitjoin = pd_gtsPermit d\<rparr>"

text \<open>The first fifteen coordinators that permit association.\<close>

definition offered :: "mac_panDesc_t list \<Rightarrow> my_pan_t list" where
  "offered ds = take 15 (map pan_of (filter (\<lambda>d. associatePermit (pd_superframeSpec d)) ds))"

lemma beacon_step:
  assumes "length (coor_beacon s) = 16" "unat (coor_size s) \<le> 15"
  shows "\<exists>B n. MyBeaconIndCb (Some d) s = s\<lparr>coor_beacon := B, coor_size := n\<rparr> \<and> length B = 16 \<and> unat n \<le> 15 \<and>
           take (unat n) B = (let ps = take (unat (coor_size s)) (coor_beacon s) in
             if associatePermit (pd_superframeSpec d) \<and> length ps < 15 then ps @ [pan_of d] else ps)"
proof -
  let ?n = "unat (coor_size s)"
  have u: "unat (coor_size s + 1) = ?n + 1"
    using assms(2) by (intro unat_inc_no_wrap) auto
  then have sz: "unat (ucast (coor_size s + 1) :: u8) = ?n + 1"
    using assms(2) by (simp add: unsigned_ucast_eq take_bit_nat_eq_self)
  consider (add) "associatePermit (pd_superframeSpec d)" "?n < 15" | (skip) "\<not> associatePermit (pd_superframeSpec d) \<or> ?n = 15"
    using assms(2) by linarith
  then show ?thesis
  proof cases
    case add
    have "take (?n + 1) ((coor_beacon s)[?n := pan_of d]) = take ?n (coor_beacon s) @ [pan_of d]"
      using add(2) assms(1) by (simp add: take_Suc_conv_app_nth)
    then show ?thesis
      using add assms u sz
      by (intro exI [of _ "(coor_beacon s)[?n := pan_of d]"] exI [of _ "coor_size s + 1"])
         (simp add: MyBeaconIndCb_def pan_of_def MAX_ED_SCAN_RESULTS_SUPPORTED_def)
  next
    case skip
    then show ?thesis
      using assms sz by (intro exI [of _ "coor_beacon s"] exI [of _ "coor_size s"])
        (auto simp: MyBeaconIndCb_def MAX_ED_SCAN_RESULTS_SUPPORTED_def Let_def)
  qed
qed

lemma beacon_fold:
  assumes "length (coor_beacon s) = 16" "unat (coor_size s) \<le> 15"
  shows "\<exists>B n. fold (\<lambda>d. MyBeaconIndCb (Some d)) ds s = s\<lparr>coor_beacon := B, coor_size := n\<rparr> \<and> length B = 16 \<and> unat n \<le> 15 \<and>
           take (unat n) B = take 15 (take (unat (coor_size s)) (coor_beacon s) @
             map pan_of (filter (\<lambda>d. associatePermit (pd_superframeSpec d)) ds))"
  using assms
proof (induction ds arbitrary: s)
  case Nil
  then show ?case
    by (intro exI [of _ "coor_beacon s"] exI [of _ "coor_size s"]) simp
next
  case (Cons d ds)
  obtain B n where s1: "MyBeaconIndCb (Some d) s = s\<lparr>coor_beacon := B, coor_size := n\<rparr>" and B: "length B = 16" "unat n \<le> 15"
    and t: "take (unat n) B = (let ps = take (unat (coor_size s)) (coor_beacon s) in
             if associatePermit (pd_superframeSpec d) \<and> length ps < 15 then ps @ [pan_of d] else ps)"
    using beacon_step [OF Cons.prems] by blast
  let ?s = "s\<lparr>coor_beacon := B, coor_size := n\<rparr>"
  obtain B' n' where r: "fold (\<lambda>d. MyBeaconIndCb (Some d)) ds ?s = ?s\<lparr>coor_beacon := B', coor_size := n'\<rparr>" "length B' = 16" "unat n' \<le> 15"
    and t': "take (unat n') B' = take 15 (take (unat n) B @ map pan_of (filter (\<lambda>d. associatePermit (pd_superframeSpec d)) ds))"
    using Cons.IH [of ?s] B by auto
  have "take (unat n') B' = take 15 (take (unat (coor_size s)) (coor_beacon s) @
             map pan_of (filter (\<lambda>d. associatePermit (pd_superframeSpec d)) (d # ds)))"
    unfolding t' t using Cons.prems by (auto simp: Let_def min_def take_Cons')
  then show ?case
    using r s1 by (intro exI [of _ B'] exI [of _ n']) simp
qed

section \<open>The choice\<close>

lemma highest_lqi_first_max:
  assumes "0 < n"
  shows "highest_lqi bs n < n \<and> (\<forall>i<n. my_lqi (bs ! i) \<le> my_lqi (bs ! highest_lqi bs n)) \<and>
    (\<forall>i < highest_lqi bs n. my_lqi (bs ! i) < my_lqi (bs ! highest_lqi bs n))"
  using assms
proof (induction n rule: nat_induct_non_zero)
  case 1
  then show ?case by (simp add: highest_lqi_def)
next
  case (Suc n)
  have st: "highest_lqi bs (Suc n) = (if my_lqi (bs ! n) > my_lqi (bs ! highest_lqi bs n) then n else highest_lqi bs n)"
    by (simp add: highest_lqi_def)
  show ?case
    using Suc unfolding st by (auto simp: less_Suc_eq intro: less_imp_le le_less_trans)
qed

section \<open>A round of scanning\<close>

lemma timers_ok_app [simp]:
  "timers_ok E (s\<lparr>BeaconReqTimer := a1\<rparr>) = timers_ok E s" "timers_ok E (s\<lparr>coor_ext_addr := a2\<rparr>) = timers_ok E s"
  "timers_ok E (s\<lparr>coor_addr_short := a3\<rparr>) = timers_ok E s" "timers_ok E (s\<lparr>pan_id := a4\<rparr>) = timers_ok E s"
  "timers_ok E (s\<lparr>coor_beacon := a5\<rparr>) = timers_ok E s" "timers_ok E (s\<lparr>coor_size := a6\<rparr>) = timers_ok E s"
  "timers_ok E (s\<lparr>newDev := a7\<rparr>) = timers_ok E s" "timers_ok E (s\<lparr>g_zbMacPib := a8\<rparr>) = timers_ok E s"
  by (rule timers_ok_cong; simp)+

lemma emit_app [simp]:
  "BeaconReqTimer (emit x s) = BeaconReqTimer s" "coor_beacon (emit x s) = coor_beacon s" "coor_size (emit x s) = coor_size s"
  "newDev (emit x s) = newDev s" "tev (emit x s) = tev s"
  by (simp_all add: emit_def)

text \<open>The request for the coordinator of a beacon.\<close>

definition assoc_request :: "my_pan_t \<Rightarrow> zb_mlme_associate_req_t" where
  "assoc_request pan =
     \<lparr>assocCoordAddress =
        (if addrMode (coor_addr pan) = ZB_ADDR_64BIT_DEV
         then \<lparr>addr_bytes = take 8 (addr_bytes (coor_addr pan)), addrMode = ZB_ADDR_64BIT_DEV\<rparr>
         else \<lparr>addr_bytes = take 2 (addr_bytes (coor_addr pan)) @ replicate 6 0, addrMode = ZB_ADDR_16BIT_DEV_OR_BROADCAST\<rparr>),
      logicalChannel = my_channel pan, coordPanId = my_pan_id pan, rcvOnWhenIdle = True, allocAddr = True\<rparr>"

text \<open>The PIB names the coordinator of a beacon: its PAN, and its address by the mode it announced.\<close>

definition joined_pib :: "my_pan_t \<Rightarrow> 'a sdk_state_scheme \<Rightarrow> bool" where
  "joined_pib pan s \<longleftrightarrow> attr_bytes MAC_ATTR_PAN_ID s = bytes16 (my_pan_id pan) \<and>
     (if addrMode (coor_addr pan) = ZB_ADDR_64BIT_DEV
      then attr_bytes MAC_ATTR_COORDINATOR_EXTENDED_ADDRESS s = take 8 (addr_bytes (coor_addr pan))
      else attr_bytes MAC_ATTR_COORDINATOR_SHORT_ADDRESS s = take 2 (addr_bytes (coor_addr pan)))"

lemma map_nth_take: "n \<le> length xs \<Longrightarrow> map ((!) xs) [0..<n] = take n xs"
  by (rule nth_equalityI) auto

lemma length_bytes16 [simp]: "length (bytes16 x) = 2"
  by (simp add: bytes16_def)

lemma attr_ids: "unat MAC_ATTR_PAN_ID - 64 = 16" "unat MAC_ATTR_COORDINATOR_SHORT_ADDRESS - 64 = 11"
  "unat MAC_ATTR_COORDINATOR_EXTENDED_ADDRESS - 64 = 10"
  by (simp_all add: mac_attr_defs)

lemma associate_best:
  fixes s :: "'a app_dev_scheme"
  defines "h \<equiv> coor_beacon s ! highest_lqi (coor_beacon s) (unat (coor_size s))"
  assumes "coor_size s \<noteq> 0" "length (addr_bytes (coor_addr h)) = 8"
  shows "\<exists>P. dev_start_associate L V s = Some (emit (MlmeAssociateRequest (assoc_request h)) (s\<lparr>g_zbMacPib := P\<rparr>)) \<and>
           joined_pib h (s\<lparr>g_zbMacPib := P\<rparr>)"
proof -
  let ?long = "addrMode (coor_addr h) = ZB_ADDR_64BIT_DEV"
  let ?a = "if ?long then MAC_ATTR_COORDINATOR_EXTENDED_ADDRESS else MAC_ATTR_COORDINATOR_SHORT_ADDRESS"
  let ?n = "if ?long then 8 else 2 :: u8" and ?b = "nth (addr_bytes (coor_addr h))"
  have a: "plain_attr ?a" "unat ?n = unat (tbl_len (g_zbMacPibTbl ! (unat ?a - 64)))"
    using plain_attrs attr_lens by auto
  obtain P1 where P1: "tl_zbMacAttrSet L V ?a NULL ?b ?n s = Some (MAC_SUCCESS, ?b, s\<lparr>g_zbMacPib := P1\<rparr>)"
    "attr_bytes ?a (s\<lparr>g_zbMacPib := P1\<rparr>) = map ?b [0..<unat ?n]"
    using attr_set [OF a, of L V NULL ?b s] by auto
  have p: "unat (2 :: u8) = unat (tbl_len (g_zbMacPibTbl ! (unat MAC_ATTR_PAN_ID - 64)))"
    using attr_lens by simp
  let ?s1 = "s\<lparr>g_zbMacPib := P1\<rparr>" and ?c = "nth (bytes16 (my_pan_id h))"
  obtain P2 where P2: "tl_zbMacAttrSet L V MAC_ATTR_PAN_ID NULL ?c 2 ?s1 = Some (MAC_SUCCESS, ?c, s\<lparr>g_zbMacPib := P2\<rparr>)"
    "attr_bytes MAC_ATTR_PAN_ID (s\<lparr>g_zbMacPib := P2\<rparr>) = map ?c [0..<2]"
    "\<forall>j<46. j \<noteq> 16 \<longrightarrow> entry_bytes j (s\<lparr>g_zbMacPib := P2\<rparr>) = entry_bytes j ?s1"
    using attr_set [OF plain_attrs(1) p, of L V NULL ?c ?s1] attr_ids by auto
  have "attr_bytes ?a (s\<lparr>g_zbMacPib := P2\<rparr>) = take (unat ?n) (addr_bytes (coor_addr h))"
    using P1(2) P2(3) assms(3) attr_ids by (auto simp: attr_bytes_def map_nth_take)
  then have "joined_pib h (s\<lparr>g_zbMacPib := P2\<rparr>)"
    using P2(2) map_nth_take [of 2 "bytes16 (my_pan_id h)"] by (auto simp: joined_pib_def)
  moreover have "dev_start_associate L V s = Some (emit (MlmeAssociateRequest (assoc_request h)) (s\<lparr>g_zbMacPib := P2\<rparr>))"
    using assms(2) P1(1) P2(1) unfolding h_def [symmetric] dev_start_associate_def
    by (auto simp: Let_def h_def [symmetric] assoc_request_def)
  ultimately show ?thesis by blast
qed

lemma cancel_beacon_ok:
  assumes "timers_ok E s" "BeaconReqTimer s \<noteq> NULL \<longrightarrow> used (tev s (BeaconReqTimer s)) \<noteq> 0"
  shows "\<exists>s'. cancel_beacon E s = Some s' \<and> timers_ok E s' \<and> BeaconReqTimer s' = NULL \<and>
           outs s' = outs s \<and> g_zbMacPib s' = g_zbMacPib s \<and> coor_beacon s' = coor_beacon s \<and> coor_size s' = coor_size s"
proof (cases "BeaconReqTimer s = NULL")
  case True
  then show ?thesis using assms(1) by (simp add: cancel_beacon_def)
next
  case False
  obtain e s' where c: "TL_ZB_TIMER_CANCEL E (BeaconReqTimer s) s = Some (e, s')" "timers_ok E s'" "same_app s s'"
    using cancel_ok [OF assms(1)] by blast
  have "e = NULL"
    using c(1) False assms(2) by (auto simp: TL_ZB_TIMER_CANCEL_def ev_timer_taskCancel_def)
  moreover have "coor_beacon s' = coor_beacon s" "coor_size s' = coor_size s"
    using c(3) by (cases s, cases s', simp add: same_app_def)+
  ultimately show ?thesis
    using c False by (simp add: cancel_beacon_def same_app_def)
qed

text \<open>One round: the scan request, the beacons it brings, and its confirmation.\<close>

definition scan_round ::
  "sdk_env \<Rightarrow> tn_lib \<Rightarrow> sec_vars \<Rightarrow> mac_panDesc_t list \<Rightarrow> zb_mac_mlme_scan_conf_t \<Rightarrow> 'a app_dev_scheme \<Rightarrow> 'a app_dev_scheme option" where
  "scan_round E L V ds cnf s =
     MyScanCnfCb E L V (Some cnf) (fold (\<lambda>d. MyBeaconIndCb (Some d)) ds (snd (dev_activescan_callback s)))"

text \<open>The confirmation of a scan that found networks: the table is kept, the scan timer is stopped, and the device asks to
  join the first entry of the greatest link quality.\<close>

lemma scan_cnf_associates:
  assumes "timers_ok E s" "BeaconReqTimer s \<noteq> NULL \<longrightarrow> used (tev s (BeaconReqTimer s)) \<noteq> 0"
    and ps: "length ps = unat (coor_size s)" "take (unat (coor_size s)) (coor_beacon s) = ps" "ps \<noteq> []"
    and addr: "\<forall>p \<in> set ps. length (addr_bytes (coor_addr p)) = 8"
  shows "\<exists>s' h. MyScanCnfCb E L V (Some cnf) s = Some s' \<and> timers_ok E s' \<and> coor_beacon s' = coor_beacon s \<and> coor_size s' = coor_size s \<and>
    h < length ps \<and> (\<forall>i < length ps. my_lqi (ps ! i) \<le> my_lqi (ps ! h)) \<and> (\<forall>i<h. my_lqi (ps ! i) < my_lqi (ps ! h)) \<and>
    outs s' = outs s @ [MlmeAssociateRequest (assoc_request (ps ! h))] \<and> BeaconReqTimer s' = NULL \<and> joined_pib (ps ! h) s'"
proof -
  let ?B = "coor_beacon s" and ?n = "coor_size s"
  have n0: "0 < unat ?n" "?n \<noteq> 0"
    using ps(1,3) by (cases ps; auto)+
  obtain s2 where s2: "cancel_beacon E s = Some s2" "timers_ok E s2" "BeaconReqTimer s2 = NULL"
    "outs s2 = outs s" "coor_beacon s2 = ?B" "coor_size s2 = ?n"
    using cancel_beacon_ok [OF assms(1)] assms(2) by auto
  let ?h = "highest_lqi ?B (unat ?n)"
  have nth: "?B ! i = ps ! i" if "i < unat ?n" for i
    using that ps(2) by (metis nth_take)
  note hm = highest_lqi_first_max [OF n0(1), of ?B]
  have "length (addr_bytes (coor_addr (ps ! ?h))) = 8"
    using addr hm ps(1) by simp
  then obtain P where P: "dev_start_associate L V s2 = Some (emit (MlmeAssociateRequest (assoc_request (ps ! ?h))) (s2\<lparr>g_zbMacPib := P\<rparr>))"
    "joined_pib (ps ! ?h) (s2\<lparr>g_zbMacPib := P\<rparr>)"
    using associate_best [of s2 L V] n0 s2(5,6) nth hm by auto
  let ?s3 = "emit (MlmeAssociateRequest (assoc_request (ps ! ?h))) (s2\<lparr>g_zbMacPib := P\<rparr>)"
  have "MyScanCnfCb E L V (Some cnf) s = Some ?s3"
    using n0(2) s2(1) P(1) by (simp add: MyScanCnfCb_def)
  moreover have "joined_pib (ps ! ?h) ?s3"
    using P(2) attr_bytes_cong [of ?s3 "s2\<lparr>g_zbMacPib := P\<rparr>"] by (simp add: joined_pib_def)
  moreover have "\<forall>i < length ps. my_lqi (ps ! i) \<le> my_lqi (ps ! ?h)" "\<forall>i < ?h. my_lqi (ps ! i) < my_lqi (ps ! ?h)"
    "?h < length ps"
    using hm nth ps(1) by auto
  ultimately show ?thesis
    using s2 by (intro exI [of _ ?s3] exI [of _ ?h]) simp
qed

text \<open>
  C7. A round of scanning returns whatever beacons it brings. Only coordinators that permit association are
  kept, in order, and at most fifteen, so the array of sixteen never overflows. Without any, the scan timer
  keeps running and nothing else happens. Otherwise the timer is cancelled and one association request goes
  out, to the first of the kept coordinators with the highest link quality, and the PIB then names that PAN
  and coordinator.
\<close>

theorem dev_scan_associates:
  assumes "timers_ok E s" "length (coor_beacon s) = 16" "\<forall>d \<in> set ds. length (addr_bytes (pd_coordAddr d)) = 8"
    and "BeaconReqTimer s \<noteq> NULL \<longrightarrow> used (tev s (BeaconReqTimer s)) \<noteq> 0"
  shows "\<exists>s'. scan_round E L V ds cnf s = Some s' \<and> timers_ok E s' \<and> length (coor_beacon s') = 16 \<and>
    take (unat (coor_size s')) (coor_beacon s') = offered ds \<and>
    (let scan = MlmeScanRequest 1 0x1000000 2; ps = offered ds in
     if ps = [] then outs s' = outs s @ [scan] \<and> BeaconReqTimer s' = BeaconReqTimer s \<and> g_zbMacPib s' = g_zbMacPib s
     else \<exists>h < length ps. (\<forall>i < length ps. my_lqi (ps ! i) \<le> my_lqi (ps ! h)) \<and> (\<forall>i<h. my_lqi (ps ! i) < my_lqi (ps ! h)) \<and>
       outs s' = outs s @ [scan, MlmeAssociateRequest (assoc_request (ps ! h))] \<and> BeaconReqTimer s' = NULL \<and> joined_pib (ps ! h) s')"
proof -
  let ?scan = "MlmeScanRequest 1 0x1000000 2" and ?ps = "offered ds"
  let ?s0 = "snd (dev_activescan_callback s)"
  have s0: "?s0 = emit ?scan (s\<lparr>coor_size := 0\<rparr>)"
    by (simp add: dev_activescan_callback_def dev_active_scan_def ACTIVE_SCAN_def DEFAULT_CHANNEL_def push_bit_eq_mult)
  obtain B n where f: "fold (\<lambda>d. MyBeaconIndCb (Some d)) ds ?s0 = ?s0\<lparr>coor_beacon := B, coor_size := n\<rparr>"
    and B: "length B = 16" "unat n \<le> 15" "take (unat n) B = ?ps"
    using beacon_fold [of ?s0 ds] assms(2) by (auto simp: s0 offered_def)
  let ?s1 = "?s0\<lparr>coor_beacon := B, coor_size := n\<rparr>"
  have ok: "timers_ok E ?s1" "BeaconReqTimer ?s1 = BeaconReqTimer s" "tev ?s1 = tev s" "outs ?s1 = outs s @ [?scan]"
      "g_zbMacPib ?s1 = g_zbMacPib s" "coor_beacon ?s1 = B" "coor_size ?s1 = n"
    using assms(1) by (simp_all add: s0)
  have len: "length ?ps = unat n"
    unfolding B(3) [symmetric] using B(1,2) by simp
  have r: "scan_round E L V ds cnf s = MyScanCnfCb E L V (Some cnf) ?s1"
    using f by (simp add: scan_round_def)
  show ?thesis
  proof (cases "?ps = []")
    case True
    then have "scan_round E L V ds cnf s = Some ?s1"
      using r len by (simp add: MyScanCnfCb_def unat_eq_0)
    then show ?thesis
      using ok B True by simp
  next
    case False
    have "\<forall>p \<in> set ?ps. length (addr_bytes (coor_addr p)) = 8"
      using assms(3) by (auto simp: offered_def pan_of_def dest!: in_set_takeD)
    then obtain s' h where s': "scan_round E L V ds cnf s = Some s'" "timers_ok E s'" "coor_beacon s' = B" "coor_size s' = n"
      and h: "h < length ?ps" "\<forall>i < length ?ps. my_lqi (?ps ! i) \<le> my_lqi (?ps ! h)" "\<forall>i<h. my_lqi (?ps ! i) < my_lqi (?ps ! h)"
        "outs s' = outs s @ [?scan, MlmeAssociateRequest (assoc_request (?ps ! h))]" "BeaconReqTimer s' = NULL" "joined_pib (?ps ! h) s'"
      using scan_cnf_associates [OF ok(1), of ?ps L V cnf] assms(4) B(3) len False unfolding r ok(2-) by auto
    show ?thesis
      unfolding Let_def if_not_P [OF False] by (rule exI [of _ s'], intro conjI exI [of _ h]) (use s' h B in simp_all)
  qed
qed

text \<open>Three coordinators: one that does not permit association, and two of which the second is heard better.\<close>

definition demo_dev :: app_dev where
  "demo_dev = ota_dev.extend demo_ota
     \<lparr>BeaconReqTimer = 0, coor_ext_addr = replicate 8 0, coor_addr_short = 0, pan_id = 0, pKeyUsgDesc = [0, 0], pKeyIDDesc = 0,
      coor_beacon = replicate 16 \<lparr>my_pan_id = 0, my_lqi = 0, my_channel = 0, coor_addr = addr_zero, permitjoin = 0\<rparr>,
      coor_size = 0, newDev = True, dev_user_packet = replicate 16 0, tdebug_cnt_poll_cnf = 0\<rparr>"

lemma demo_dev_sel [simp]:
  "mem demo_dev = (\<lambda>_. 0)" "timer_head demo_dev = 0" "used_num demo_dev = 0" "outs demo_dev = []" "tev demo_dev = tev demo_sdk"
  "g_zbMacPib demo_dev = (\<lambda>_. 0)" "BeaconReqTimer demo_dev = 0" "length (coor_beacon demo_dev) = 16"
  by (simp_all add: demo_dev_def demo_ota_def demo_sdk_def sdk_state.defs ota_dev.defs)

lemma demo_dev_timers: "timers_ok demo_env demo_dev"
  using demo_timers_ok by (subst timers_ok_cong [of _ demo_ota]) simp_all

definition demo_beacon :: "u16 \<Rightarrow> u16 \<Rightarrow> u8 \<Rightarrow> mac_panDesc_t" where
  "demo_beacon pan sf q = \<lparr>pd_coordPanId = pan, pd_superframeSpec = sf, pd_coordAddr = \<lparr>addr_bytes = [0x11, 0x22, 0, 0, 0, 0, 0, 0], addrMode = 2\<rparr>,
     pd_logicalChannel = 24, pd_gtsPermit = 0, pd_linkQuality = q\<rparr>"

lemma demo_beacon_addr [simp]: "length (addr_bytes (pd_coordAddr (demo_beacon pan sf q))) = 8"
  by (simp add: demo_beacon_def)

theorem dev_scan_associates_witness:
  "\<exists>s'. scan_round demo_env list_c_lib demo_vars [demo_beacon 1 0x4FFF 200, demo_beacon 2 0xCFFF 90, demo_beacon 3 0xCFFF 120]
      \<lparr>scan_status = 0, scan_type = 1\<rparr> demo_dev = Some s' \<and>
     outs s' = [MlmeScanRequest 1 0x1000000 2, MlmeAssociateRequest (assoc_request (pan_of (demo_beacon 3 0xCFFF 120)))]"
proof -
  let ?ds = "[demo_beacon 1 0x4FFF 200, demo_beacon 2 0xCFFF 90, demo_beacon 3 0xCFFF 120]"
  have o: "offered ?ds = [pan_of (demo_beacon 2 0xCFFF 90), pan_of (demo_beacon 3 0xCFFF 120)]"
    by (simp add: offered_def demo_beacon_def associatePermit_def bit_iff_odd_drop_bit drop_bit_eq_div)
  obtain s' h where s': "scan_round demo_env list_c_lib demo_vars ?ds \<lparr>scan_status = 0, scan_type = 1\<rparr> demo_dev = Some s'" "h < length (offered ?ds)"
      "\<forall>i < length (offered ?ds). my_lqi (offered ?ds ! i) \<le> my_lqi (offered ?ds ! h)"
      "outs s' = [MlmeScanRequest 1 0x1000000 2, MlmeAssociateRequest (assoc_request (offered ?ds ! h))]"
    using dev_scan_associates [OF demo_dev_timers demo_dev_sel(8), of ?ds list_c_lib demo_vars "\<lparr>scan_status = 0, scan_type = 1\<rparr>"]
    by (auto simp: o Let_def)
  have "h = 1"
    using s'(2) spec [OF s'(3), of 1] unfolding o by (cases h) (auto simp: pan_of_def demo_beacon_def)
  then show ?thesis
    using s'(1,4) o by simp
qed

end
