(* ===== verification/App_Buf.thy ===== *)
theory App_Buf
  imports Mac_Pib Ev_Buffer
begin

text \<open>
  Payloads in event buffers, as the applications use them: take a buffer, fill in bytes, hand it to the MAC,
  give it back (\<^verbatim>\<open>ev_buf_allocate\<close> and \<^verbatim>\<open>ev_buf_free\<close> of \<^verbatim>\<open>proj/os/ev_buffer.c\<close> on the state of the applications).
\<close>

definition buf_allocate :: "u16 \<Rightarrow> 'a sdk_state_scheme \<Rightarrow> addr \<times> 'a sdk_state_scheme" where
  "buf_allocate sz s = flash_val (ev_buf_allocate sz) s"

definition buf_free :: "ev_layout \<Rightarrow> addr \<Rightarrow> 'a sdk_state_scheme \<Rightarrow> 'a sdk_state_scheme option" where
  "buf_free B p s = map_option (\<lambda>(r, f). put_flash f s) (ev_buf_free B p (flash_of s))"

text \<open>Byte \<open>i\<close> of the payload at \<open>p\<close>.\<close>

definition payload_byte :: "wmem \<Rightarrow> addr \<Rightarrow> nat \<Rightarrow> u8" where
  "payload_byte m p i = mem_byte m (p + of_nat (4 * (i div 4))) (i mod 4)"

definition set_payload_byte :: "wmem \<Rightarrow> addr \<Rightarrow> nat \<Rightarrow> u8 \<Rightarrow> wmem" where
  "set_payload_byte m p i v = set_mem_byte m (p + of_nat (4 * (i div 4))) (i mod 4) v"

definition payload_words :: "addr \<Rightarrow> nat \<Rightarrow> addr set" where
  "payload_words p n = {p + of_nat (4 * j) | j. 4 * j < n}"

section \<open>Bytes of a payload\<close>

lemma mem_byte_set:
  assumes "k < 4" "l < 4"
  shows "mem_byte (set_mem_byte m a k v) a l = (if l = k then v else mem_byte m a l)"
proof -
  have m: "(0xFF :: u32) = mask 8"
    by (simp add: mask_eq_exp_minus_1)
  show ?thesis
  proof (rule bit_word_eqI)
    fix n assume "n < LENGTH(8)"
    then have n: "n < 8" by simp
    have "\<not> (8 * k \<le> 8 * l + n \<and> 8 * l + n - 8 * k < 8)" if "l \<noteq> k"
      using that n by auto
    moreover have "\<not> bit v i" if "\<not> i < 8" for i
      using that bit_imp_le_length [of v i] by auto
    ultimately show "bit (mem_byte (set_mem_byte m a k v) a l) n = bit (if l = k then v else mem_byte m a l) n"
      using n assms unfolding mem_byte_def set_mem_byte_def m by (auto simp: bit_simps add.commute)
  qed
qed

lemma word_offset_inj:
  assumes "i < 2 ^ 31" "j < 2 ^ 31" "(p :: addr) + of_nat i = p + of_nat j"
  shows "i = j"
proof -
  have "(of_nat i :: addr) = of_nat j" using assms(3) by simp
  then have "unat (of_nat i :: addr) = unat (of_nat j :: addr)" by simp
  then show ?thesis using assms(1,2) by (simp add: unat_of_nat)
qed

lemma payload_byte_set:
  assumes "i < 2 ^ 16" "j < 2 ^ 16"
  shows "payload_byte (set_payload_byte m p i v) p j = (if j = i then v else payload_byte m p j)"
proof (cases "i div 4 = j div 4")
  case True
  then have "j = i \<longleftrightarrow> j mod 4 = i mod 4"
    by (metis div_mult_mod_eq)
  then show ?thesis
    using True mem_byte_set [of "i mod 4" "j mod 4"] by (simp add: payload_byte_def set_payload_byte_def)
next
  case False
  then have "p + of_nat (4 * (i div 4)) \<noteq> p + of_nat (4 * (j div 4))"
    using word_offset_inj [of "4 * (i div 4)" "4 * (j div 4)" p] assms div_le_dividend [of i 4] div_le_dividend [of j 4] by fastforce
  then show ?thesis
    using False by (auto simp: payload_byte_def set_payload_byte_def mem_byte_def set_mem_byte_def)
qed

lemma set_payload_byte_frame: "i < n \<Longrightarrow> a \<notin> payload_words p n \<Longrightarrow> set_payload_byte m p i v a = m a"
proof -
  assume i: "i < n" and a: "a \<notin> payload_words p n"
  have "4 * (i div 4) < n" using i by (rule le_less_trans [rotated]) simp
  then have "a \<noteq> p + of_nat (4 * (i div 4))" using a by (auto simp: payload_words_def)
  then show ?thesis by (simp add: set_payload_byte_def set_mem_byte_def)
qed

text \<open>A loop that fills in the bytes from \<open>k\<close> to \<open>n - 1\<close>.\<close>

lemma payload_fill:
  fixes f :: "nat \<Rightarrow> u8" and m :: wmem and p :: addr
  assumes "n \<le> 2 ^ 16" "k \<le> n"
  defines "m' \<equiv> fold (\<lambda>i m. set_payload_byte m p i (f i)) [k..<n] m"
  shows "j < n \<Longrightarrow> payload_byte m' p j = (if k \<le> j then f j else payload_byte m p j)"
    and "a \<notin> payload_words p n \<Longrightarrow> m' a = m a"
proof -
  have "(\<forall>j < n. payload_byte (fold (\<lambda>i m. set_payload_byte m p i (f i)) [k..<l] m) p j =
           (if k \<le> j \<and> j < l then f j else payload_byte m p j)) \<and>
        (\<forall>a. a \<notin> payload_words p n \<longrightarrow> fold (\<lambda>i m. set_payload_byte m p i (f i)) [k..<l] m a = m a)" if "k \<le> l" "l \<le> n" for l
    using that
  proof (induction l rule: nat_induct_at_least)
    case (Suc l)
    then show ?case
      using assms(1) set_payload_byte_frame [of l n _ p] by (auto simp: payload_byte_set less_Suc_eq)
  qed auto
  from this [of n] show "j < n \<Longrightarrow> payload_byte m' p j = (if k \<le> j then f j else payload_byte m p j)"
      "a \<notin> payload_words p n \<Longrightarrow> m' a = m a"
    using assms(2) by (auto simp: m'_def)
qed

section \<open>A buffer for one request\<close>

lemma payload_word_region:
  assumes "layout_ok B" "k < 4" "b \<in> set (blocks B k)" "n \<le> grp_size k - 8" "a \<in> payload_words (b + 8) n"
  shows "unat a \<in> region B k" "j < 4 \<Longrightarrow> c \<in> set (blocks B j) \<Longrightarrow> a \<noteq> c \<and> a \<noteq> c + 4" "j < 4 \<Longrightarrow> a \<noteq> pool_var B ! j"
proof -
  obtain i where i: "i < grp_num k" "unat b = unat (pool_mem B ! k) + i * grp_size k"
    using block_region [OF assms(1-3)] by blast
  obtain w where w: "4 * w < n" "a = b + 8 + of_nat (4 * w)"
    using assms(5) by (auto simp: payload_words_def)
  have sz: "24 \<le> grp_size k" "grp_size k \<le> 1024"
    using grp_size_facts [OF assms(2)] by auto
  have o: "8 + 4 * w < grp_size k"
    using w(1) assms(4) sz(1) by linarith
  have e: "i * grp_size k + grp_size k \<le> grp_size k * grp_num k"
    using i(1) by (metis Suc_leI add.commute mult.commute mult_Suc mult_le_mono1)
  have lim: "unat b + (8 + 4 * w) < 2 ^ 32"
    using i(2) e o layout_okD(2) [OF assms(1,2,2)] by linarith
  have off: "unat (of_nat (8 + 4 * w) :: addr) = 8 + 4 * w"
    using o sz(2) by (subst unat_of_nat) simp
  have aa: "a = b + of_nat (8 + 4 * w)"
    using w(2) by (simp add: add.assoc)
  have ua: "unat a = unat b + (8 + 4 * w)"
    unfolding aa using lim unat_add_no_wrap [of b "of_nat (8 + 4 * w)"] off by simp
  show reg: "unat a \<in> region B k"
    using ua i(2) e o by (simp add: region_def)
  show "a \<noteq> c \<and> a \<noteq> c + 4" if j: "j < 4" "c \<in> set (blocks B j)"
  proof (cases "j = k")
    case False
    then show ?thesis
      using layout_okD(5) [OF assms(1) j(1) assms(2) False] block_words_in_region [OF assms(1) j] reg by blast
  next
    case True
    obtain x where x: "unat c = unat (pool_mem B ! k) + x * grp_size k" "unat (c + 4) = unat c + 4"
      using block_region [OF assms(1) j] True by blast
    have l: "(i * grp_size k + (8 + 4 * w)) mod grp_size k = 8 + 4 * w"
      using o by simp
    have r: "(x * grp_size k + d) mod grp_size k = d" if "d < 8" for d
      using that sz by simp
    have "i * grp_size k + (8 + 4 * w) \<noteq> x * grp_size k + d" if "d < 8" for d
    proof
      assume "i * grp_size k + (8 + 4 * w) = x * grp_size k + d"
      then show False using l r [OF that] that by simp
    qed
    from this [of 0] this [of 4] show ?thesis
      using ua i(2) x by auto
  qed
  show "a \<noteq> pool_var B ! j" if "j < 4"
    using layout_okD(1) [OF assms(1) that assms(2)] reg by auto
qed

text \<open>The memory of the buffers, and what an operation on them changes of the state.\<close>

definition buf_area :: "ev_layout \<Rightarrow> addr set" where
  "buf_area B = {a. \<exists>j<4. a = pool_var B ! j \<or> unat a \<in> region B j}"

definition buf_upd :: "ev_layout \<Rightarrow> 'a sdk_state_scheme \<Rightarrow> 'a sdk_state_scheme \<Rightarrow> bool" where
  "buf_upd B s s' \<longleftrightarrow> (\<exists>m gs. s' = s\<lparr>mem := m, fl := (fl s)\<lparr>fp_bufGroups := gs\<rparr>\<rparr>) \<and> (\<forall>a. a \<notin> buf_area B \<longrightarrow> mem s' a = mem s a)"

lemma payload_words_area:
  "layout_ok B \<Longrightarrow> k < 4 \<Longrightarrow> b \<in> set (blocks B k) \<Longrightarrow> n \<le> grp_size k - 8 \<Longrightarrow> payload_words (b + 8) n \<subseteq> buf_area B"
  using payload_word_region(1) [of B k b n] by (auto simp: buf_area_def)

lemma put_flash_buf:
  "put_flash ((flash_of s)\<lparr>mem := m, bufGroups := gs\<rparr>) s = s\<lparr>mem := m, fl := (fl s)\<lparr>fp_bufGroups := gs\<rparr>\<rparr>"
  by (simp add: put_flash_def flash_of_def)

lemma buf_inv_payload:
  assumes "layout_ok B" "buf_inv B fr f" "k < 4" "b \<in> set (blocks B k)" "n \<le> grp_size k - 8"
    and "bufGroups f' = bufGroups f" "\<And>a. a \<notin> payload_words (b + 8) n \<Longrightarrow> mem f' a = mem f a"
  shows "buf_inv B fr f'"
proof -
  have "group_ok B fr j f' = group_ok B fr j f" if "j < 4" for j
  proof (intro group_ok_cong)
    show "mem f' (pool_var B ! j) = mem f (pool_var B ! j)"
      using payload_word_region(3) [OF assms(1,3,4,5) _ that] by (intro assms(7)) blast
    show "mem f' c = mem f c \<and> mem f' (c + 4) = mem f (c + 4)" if c: "c \<in> set (blocks B j)" for c
      using payload_word_region(2) [OF assms(1,3,4,5) _ \<open>j < 4\<close> c] assms(7) by blast
  qed (simp_all add: assms(6))
  then show ?thesis
    using assms(2,6) by (simp add: buf_inv_def)
qed

lemma buf_allocate_none:
  "buf_inv B fr (flash_of s) \<Longrightarrow> fit_group fr sz = None \<Longrightarrow> buf_allocate sz s = (NULL, s)"
  using ev_buf_allocate_none [of B fr "flash_of s" sz] by (simp add: buf_allocate_def flash_val_def)

lemma buf_allocate_some:
  assumes L: "layout_ok B" and inv: "buf_inv B fr (flash_of s)" and sz: "sz \<noteq> 0" "sz \<le> MAX_BUFFER_SIZE" and fit: "fit_group fr sz = Some k"
  shows "\<exists>b bs s1. fr k = b # bs \<and> b \<in> set (blocks B k) \<and> k < 4 \<and> unat sz \<le> grp_size k - 8 \<and>
    buf_allocate sz s = (b + 8, s1) \<and> b + 8 \<noteq> NULL \<and> buf_upd B s s1 \<and> buf_inv B (fr(k := bs)) (flash_of s1)"
proof -
  have k: "k < 4" "fr k \<noteq> []" "unat sz \<le> grp_size k - 8"
    using fit_group_lt [OF fit] by auto
  then obtain b bs where fr: "fr k = b # bs"
    by (cases "fr k") auto
  have b: "b \<in> set (blocks B k)"
    using free_block [OF inv k(1)] fr by simp
  let ?f = "take_block B k b (flash_of s)"
  have a: "buf_allocate sz s = (b + 8, put_flash ?f s)"
    using ev_buf_allocate_some [OF L inv sz fit] fr by (simp add: buf_allocate_def flash_val_def)
  have "mem ?f x = mem s x" if "x \<notin> buf_area B" for x
    using that k(1) block_words_in_region [OF L k(1) b] mp.alloc_frame [of x "pool_var B ! k" "mem s"]
    by (auto simp: take_block_def buf_area_def)
  moreover have "put_flash ?f s = s\<lparr>mem := mem ?f, fl := (fl s)\<lparr>fp_bufGroups := bufGroups ?f\<rparr>\<rparr>"
    using put_flash_buf [where s = s and m = "mem ?f" and gs = "bufGroups ?f"] by (simp add: take_block_def)
  ultimately have "buf_upd B s (put_flash ?f s)"
    unfolding buf_upd_def by auto
  then show ?thesis
    using fr b k a block_nonnull [OF L k(1) b] take_block_inv [OF L inv k(1) fr] by auto
qed

lemma buf_free_some:
  assumes L: "layout_ok B" and inv: "buf_inv B (fr(k := bs)) (flash_of s)" and k: "k < 4" and b: "b \<in> set (blocks B k)" "b \<notin> set bs"
  shows "\<exists>s'. buf_free B (b + 8) s = Some s' \<and> buf_upd B s s' \<and> buf_inv B (fr(k := b # bs)) (flash_of s')"
proof -
  let ?f = "give_block B k b (flash_of s)"
  have nb: "b \<notin> set ((fr(k := bs)) k)"
    using b(2) by simp
  have a: "buf_free B (b + 8) s = Some (put_flash ?f s)"
    using ev_buf_free_allocated [OF L inv k b(1) nb] by (simp add: buf_free_def)
  have "mem ?f x = mem s x" if "x \<notin> buf_area B" for x
    using that k block_words_in_region [OF L k b(1)] mp.release_frame [of x "pool_var B ! k" "b" "mem s"]
    by (auto simp: give_block_def buf_area_def)
  moreover have "put_flash ?f s = s\<lparr>mem := mem ?f, fl := (fl s)\<lparr>fp_bufGroups := bufGroups ?f\<rparr>\<rparr>"
    using put_flash_buf [where s = s and m = "mem ?f" and gs = "bufGroups ?f"] by (simp add: give_block_def)
  ultimately have "buf_upd B s (put_flash ?f s)"
    unfolding buf_upd_def by auto
  moreover have "buf_inv B (fr(k := b # bs)) ?f"
    using give_block_inv [OF L inv k b(1) nb] by (simp only: fun_upd_same fun_upd_upd)
  ultimately show ?thesis
    using a by auto
qed

text \<open>
  One use of a buffer: it is taken, its payload is written and something else is done to the state, and it
  is given back. Afterwards the buffers are as before.
\<close>

lemma buf_round:
  assumes L: "layout_ok B" and inv: "buf_inv B fr (flash_of s)" and sz: "sz \<noteq> 0" "sz \<le> MAX_BUFFER_SIZE" and fit: "fit_group fr sz = Some k"
  obtains p s1 where "buf_allocate sz s = (p, s1)" "p \<noteq> NULL" "buf_upd B s s1" "payload_words p (unat sz) \<subseteq> buf_area B"
    "\<And>s2. fl s2 = fl s1 \<Longrightarrow> (\<And>a. a \<notin> payload_words p (unat sz) \<Longrightarrow> mem s2 a = mem s1 a) \<Longrightarrow>
       \<exists>s3. buf_free B p s2 = Some s3 \<and> buf_upd B s2 s3 \<and> buf_inv B fr (flash_of s3)"
proof -
  obtain b bs s1 where a: "fr k = b # bs" "b \<in> set (blocks B k)" "k < 4" "unat sz \<le> grp_size k - 8" "buf_allocate sz s = (b + 8, s1)"
      "b + 8 \<noteq> NULL" "buf_upd B s s1" "buf_inv B (fr(k := bs)) (flash_of s1)"
    using buf_allocate_some [OF assms] by blast
  have nb: "b \<notin> set bs"
    using inv a(1,3) list_rep_distinct by (fastforce simp: buf_inv_def group_ok_def)
  have fr: "fr(k := b # bs) = fr"
    using a(1) by auto
  have "\<exists>s3. buf_free B (b + 8) s2 = Some s3 \<and> buf_upd B s2 s3 \<and> buf_inv B fr (flash_of s3)"
    if s2: "fl s2 = fl s1" "\<And>x. x \<notin> payload_words (b + 8) (unat sz) \<Longrightarrow> mem s2 x = mem s1 x" for s2
  proof -
    have "buf_inv B (fr(k := bs)) (flash_of s2)"
      using s2 by (intro buf_inv_payload [OF L a(8,3,2,4)]) (simp_all add: flash_of_def)
    then show ?thesis
      using buf_free_some [OF L _ a(3,2) nb] fr by metis
  qed
  then show thesis
    using a payload_words_area [OF L a(3,2,4)] that by blast
qed

end
