(* ===== verification/Ota_Transfer.thy ===== *)
theory Ota_Transfer
  imports Ota_Run
begin

text \<open>
  Receiving an image: the client that gets the blocks of a well-formed upgrade file in order stores the
  image, verifies its checksum and asks for the end of the upgrade; rebooting then switches to the
  new image.
\<close>

section \<open>Unlocking and locking around a write\<close>

definition set_stat :: "u16 \<Rightarrow> bool \<Rightarrow> 'a sdk_state_scheme \<Rightarrow> 'a sdk_state_scheme" where
  "set_stat st l s = s\<lparr>fl := (fl s)\<lparr>fp_chip := (fp_chip (fl s))\<lparr>fstat := st\<rparr>, fp_locked := l\<rparr>\<rparr>"

text \<open>
  Unlocking opens the whole device: either the model is unknown and nothing is protected, or the bits of
  the known model are the only protection.
\<close>

definition can_open :: "u16 \<Rightarrow> (u16 \<Rightarrow> addr \<Rightarrow> bool) \<Rightarrow> 'a sdk_state_scheme \<Rightarrow> bool" where
  "can_open wr prot s =
     (case fp_opt (fl s) of
        None \<Rightarrow> (\<forall>a. \<not> prot (fstat (fp_chip (fl s))) a)
      | Some p \<Rightarrow> opt_ok wr p \<and> (\<forall>a. \<not> prot (fstat (fp_chip (fl s)) AND NOT (bp_mask (opt_fns p))) a) \<and>
                  (\<not> fp_locked (fl s) \<longrightarrow> (\<forall>a. \<not> prot (fstat (fp_chip (fl s))) a)))"

lemma fl_cong:
  "fl s' = fl s \<Longrightarrow> can_open wr prot s' = can_open wr prot s" "fl s' = fl s \<Longrightarrow> flash_ready s' = flash_ready s"
  by (simp_all add: can_open_def flash_ready_def split: option.split)

lemma put_flash_stat:
  "put_flash ((flash_of s)\<lparr>chip := (fp_chip (fl s))\<lparr>fstat := st\<rparr>, g_flashLocked := l\<rparr>) s = set_stat st l s"
  by (simp add: put_flash_def flash_of_def set_stat_def)

lemma set_stat_id: "set_stat (fstat (fp_chip (fl s))) (fp_locked (fl s)) s = s"
  by (simp add: set_stat_def)

lemma set_stat_sel [simp]:
  "fmem_of (set_stat st l s) = fmem_of s" "fstat (fp_chip (fl (set_stat st l s))) = st"
  "fp_locked (fl (set_stat st l s)) = l" "fp_opt (fl (set_stat st l s)) = fp_opt (fl s)"
  "flash_ready (set_stat st l s) = flash_ready s" "outs (set_stat st l s) = outs s"
  by (simp_all add: set_stat_def flash_ready_def)

lemma unlock_opens:
  assumes "nor_flash (bus E) wr prot" "can_open wr prot s" "\<not> wel (fp_chip (fl s))"
  shows "\<exists>st l. on_flash (flash_unlock (bus E)) s = set_stat st l s \<and> (\<forall>a. \<not> prot st a) \<and>
           can_open wr prot (set_stat st l s)"
proof (cases "fp_opt (fl s)")
  case None
  then have "on_flash (flash_unlock (bus E)) s = set_stat (fstat (fp_chip (fl s))) (fp_locked (fl s)) s"
    by (simp add: on_flash_def flash_unlock_def set_stat_id)
  then show ?thesis
    using None assms(2) by (fastforce simp: can_open_def)
next
  case (Some p)
  show ?thesis
  proof (cases "fp_locked (fl s)")
    case True
    have "flash_unlock (bus E) (flash_of s) =
        (flash_of s)\<lparr>chip := (fp_chip (fl s))\<lparr>fstat := fstat (fp_chip (fl s)) AND NOT (bp_mask (opt_fns p))\<rparr>, g_flashLocked := False\<rparr>"
      using nor_flash.unlock_known [OF assms(1), of "flash_of s" p] Some True assms(2,3) by (simp add: can_open_def)
    then have "on_flash (flash_unlock (bus E)) s = set_stat (fstat (fp_chip (fl s)) AND NOT (bp_mask (opt_fns p))) False s"
      by (simp add: on_flash_def put_flash_stat)
    then show ?thesis
      using Some assms(2) by (fastforce simp: can_open_def and.assoc)
  next
    case False
    then have "flash_unlock (bus E) (flash_of s) = flash_of s"
      using Some by (simp add: flash_unlock_def)
    then have "on_flash (flash_unlock (bus E)) s = set_stat (fstat (fp_chip (fl s))) (fp_locked (fl s)) s"
      unfolding set_stat_id by (simp add: on_flash_def)
    moreover have "\<forall>a. \<not> prot (fstat (fp_chip (fl s))) a"
      using Some False assms(2) by (simp add: can_open_def)
    ultimately show ?thesis
      using assms(2) by (metis set_stat_id)
  qed
qed

lemma lock_closes:
  assumes "nor_flash (bus E) wr prot" "can_open wr prot s" "\<not> wel (fp_chip (fl s))"
  shows "\<exists>st l. on_flash (flash_lock (bus E)) s = set_stat st l s \<and> can_open wr prot (set_stat st l s)"
proof (cases "fp_opt (fl s) = None \<or> fp_locked (fl s)")
  case True
  then have "on_flash (flash_lock (bus E)) s = set_stat (fstat (fp_chip (fl s))) (fp_locked (fl s)) s"
    by (auto simp: on_flash_def flash_lock_def set_stat_id split: option.splits)
  then show ?thesis
    using assms(2) by (metis set_stat_id)
next
  case False
  then obtain p where p: "fp_opt (fl s) = Some p" "\<not> fp_locked (fl s)"
    by auto
  let ?st = "fstat (fp_chip (fl s)) AND NOT (bp_mask (opt_fns p)) OR ucast (blockSize p)"
  have "flash_lock (bus E) (flash_of s) = (flash_of s)\<lparr>chip := (fp_chip (fl s))\<lparr>fstat := ?st\<rparr>, g_flashLocked := True\<rparr>"
    using nor_flash.lock_known [OF assms(1), of "flash_of s" p] p assms(2,3) by (simp add: can_open_def)
  then have "on_flash (flash_lock (bus E)) s = set_stat ?st True s"
    by (simp add: on_flash_def put_flash_stat)
  moreover have "?st AND NOT (bp_mask (opt_fns p)) = fstat (fp_chip (fl s)) AND NOT (bp_mask (opt_fns p))"
    using field_set(2) [OF ucast_field(1), of "blockSize p" "bp_mask (opt_fns p)"] assms(2) p
    by (simp add: can_open_def opt_ok_def)
  ultimately show ?thesis
    using p assms(2) by (fastforce simp: can_open_def)
qed

lemma on_flash_write:
  assumes "nor_flash (bus E) wr prot" "flash_ready s" "unat a + length buf \<le> 2 ^ 24" "buf \<noteq> []"
    and "\<forall>x. \<not> prot (fstat (fp_chip (fl s))) x"
  shows "on_flash (flash_write (bus E) a buf) s = set_chip ((fp_chip (fl s))\<lparr>fmem := and_bytes (fmem_of s) a buf\<rparr>) s"
  using nor_flash.drv_write [OF assms(1,3,4), of "flash_of s" False] assms(2,5)
  by (simp add: on_flash_def flash_ready_def put_flash_chip)

lemma set_stat_ota [simp]:
  "g_tlAppDataSeqNo (set_stat st l s) = g_tlAppDataSeqNo s" "dev_otaInfo (set_stat st l s) = dev_otaInfo s"
  "mcuBootAddr (set_stat st l s) = mcuBootAddr s" "binInfo (set_stat st l s) = binInfo s"
  "otaDataReqTimer (set_stat st l s) = otaDataReqTimer s" "ota_state (set_stat st l s) = ota_state s"
  "ota_reqRetryCnt (set_stat st l s) = ota_reqRetryCnt s" "blockDataCount (set_stat st l s) = blockDataCount s"
  "ota_headercnt (set_stat st l s) = ota_headercnt s" "ota_headersize (set_stat st l s) = ota_headersize s"
  "crcValue (set_stat st l s) = crcValue s" "flashOffsetAddr (set_stat st l s) = flashOffsetAddr s"
  "ota_dataCb (set_stat st l s) = ota_dataCb s" "PollDataTimer (set_stat st l s) = PollDataTimer s"
  by (simp_all add: set_stat_def)

section \<open>Rebooting\<close>

text \<open>Programming one byte.\<close>

lemma and_bytes_one: "and_bytes m a [b] = m(a := m a AND b)"
  by (auto simp: and_bytes_def fun_eq_iff unat_eq_zero)

lemma reboot_eq:
  assumes "nor_flash (bus E) wr prot" "can_open wr prot s" "flash_ready s"
  defines "old \<equiv> if mcuBootAddr s \<noteq> 0 then FLASH_OTA_NEWIMAGE_ADDR else 0"
  shows "fmem_of (ota_mcuReboot E s) =
    (fmem_of s)(ota_base s + 8 := fmem_of s (ota_base s + 8) AND 0x4b, old + 8 := 0) \<and>
    outs (ota_mcuReboot E s) = outs s @ [SystemReset]"
proof -
  have old: "old \<noteq> ota_base s" "unat (old + 8) + 1 \<le> 2 ^ 24" "unat (ota_base s + 8) + 1 \<le> 2 ^ 24"
    by (simp_all add: old_def ota_base_def FLASH_OTA_NEWIMAGE_ADDR_def)
  obtain st l where u: "on_flash (flash_unlock (bus E)) s = set_stat st l s" "\<forall>a. \<not> prot st a"
      "can_open wr prot (set_stat st l s)"
    using unlock_opens [OF assms(1,2)] assms(3) by (auto simp: flash_ready_def)
  define s1 where "s1 = set_stat st l s"
  have r1: "flash_ready s1" "\<forall>x. \<not> prot (fstat (fp_chip (fl s1))) x" "fmem_of s1 = fmem_of s"
    using assms(3) u by (simp_all add: s1_def)
  define s2 where "s2 = set_chip ((fp_chip (fl s1))\<lparr>fmem := and_bytes (fmem_of s1) (ota_base s + 8) [0x4b]\<rparr>) s1"
  have w2: "on_flash (flash_write (bus E) (ota_base s + 8) [0x4b]) s1 = s2"
    unfolding s2_def by (rule on_flash_write [OF assms(1)]) (use r1 old in simp_all)
  have r2: "flash_ready s2" "\<forall>x. \<not> prot (fstat (fp_chip (fl s2))) x"
    using r1 by (simp_all add: s2_def flash_ready_def)
  define s3 where "s3 = set_chip ((fp_chip (fl s2))\<lparr>fmem := and_bytes (fmem_of s2) (old + 8) [0]\<rparr>) s2"
  have w3: "on_flash (flash_write (bus E) (old + 8) [0]) s2 = s3"
    unfolding s3_def by (rule on_flash_write [OF assms(1)]) (use r2 old in simp_all)
  have "can_open wr prot s3" "\<not> wel (fp_chip (fl s3))"
    using u r1(1) by (auto simp: s3_def s2_def s1_def can_open_def flash_ready_def split: option.splits)
  then obtain st' l' where k: "on_flash (flash_lock (bus E)) s3 = set_stat st' l' s3"
    using lock_closes [OF assms(1)] by blast
  have "(if mcuBootAddr s1 \<noteq> 0 then 0 else FLASH_OTA_NEWIMAGE_ADDR) = ota_base s"
      "(if mcuBootAddr s1 \<noteq> 0 then FLASH_OTA_NEWIMAGE_ADDR else 0) = old"
    by (simp_all add: s1_def ota_base_def old_def)
  then have "ota_mcuReboot E s = emit SystemReset (set_stat st' l' s3)"
    unfolding ota_mcuReboot_def Let_def u(1) s1_def [symmetric] OTA_TLNK_KEYWORD_ADDROFFSET_def
    by (simp only: w2 w3 k)
  then show ?thesis
    using old(1) by (simp add: s3_def s2_def r1(3) and_bytes_one) (simp add: s1_def)
qed

section \<open>Upgrade files\<close>

text \<open>
  An upgrade file: the header with its length at offset 6, the tag and length of the image element in
  its last six bytes (so that the image begins at \<open>hs\<close>, six more than the header length says, and its
  size is at offset 58 of the usual 56-byte header), then the image, which carries the boot flag 0x4b
  at offset 8 and ends with the checksum of all before it.
\<close>

definition wf_file :: "u8 list \<Rightarrow> nat \<Rightarrow> bool" where
  "wf_file file hs \<longleftrightarrow> 62 \<le> hs \<and> hs + 16 \<le> length file \<and> length file < 0x30000 \<and>
     unat (le16 (nth file) 6) + 6 = hs \<and> unat (le32 (nth file) 58) + hs = length file \<and> file ! (hs + 8) = 0x4b \<and>
     le32 (\<lambda>i. file ! (length file - 4 + i)) 0 = xcrc32 (take (length file - hs - 4) (drop hs file)) 0xffffffff"

text \<open>The header fields known after \<open>c\<close> bytes of the file.\<close>

definition hdr_info :: "u8 list \<Rightarrow> nat \<Rightarrow> ota_preamble_t" where
  "hdr_info file c =
     \<lparr>fileVer = if c > 14 then le32 (nth file) 14 else 0, imageType = if c > 12 then le16 (nth file) 12 else 0,
      manufaurerCode = if c > 10 then le16 (nth file) 10 else 0, imageSize = if c > 58 then le32 (nth file) 58 else 0\<rparr>"

definition hstate :: "u8 list \<Rightarrow> nat \<Rightarrow> nat \<Rightarrow> 'a ota_dev_scheme \<Rightarrow> 'a ota_dev_scheme" where
  "hstate file hs c s = s\<lparr>ota_headercnt := of_nat c, ota_headersize := if c > 6 then of_nat hs else 0,
     binInfo := hdr_info file c\<rparr>"

text \<open>No header field is cut by the block of \<open>len\<close> bytes from \<open>c\<close> on.\<close>

definition fields_whole :: "nat \<Rightarrow> nat \<Rightarrow> bool" where
  "fields_whole c len \<longleftrightarrow>
     list_all (\<lambda>(p, w). c \<le> p \<and> p < c + len \<longrightarrow> p + w \<le> c + len) [(6, 2), (10, 2), (12, 2), (14, 4), (58, 4)]"

definition block_at :: "u8 list \<Rightarrow> nat \<Rightarrow> nat \<Rightarrow> nat \<Rightarrow> (nat \<Rightarrow> u8) \<Rightarrow> bool" where
  "block_at file c i len pData \<longleftrightarrow> (\<forall>k < len. pData (i + k) = file ! (c + k))"

lemma block_nth: "block_at file c i len pData \<Longrightarrow> k < len \<Longrightarrow> pData (i + k) = file ! (c + k)"
  by (simp add: block_at_def)

lemma block_le16:
  assumes "block_at file c i len pData" "2 \<le> len"
  shows "le16 pData i = le16 (nth file) c"
  using block_nth [OF assms(1), of 0] block_nth [OF assms(1), of 1] assms(2) by (simp add: le16_def)

lemma block_le32:
  assumes "block_at file c i len pData" "4 \<le> len"
  shows "le32 pData i = le32 (nth file) c"
  using block_nth [OF assms(1), of 0] block_nth [OF assms(1), of 1] block_nth [OF assms(1), of 2]
    block_nth [OF assms(1), of 3] assms(2) by (simp add: le32_def)

lemma headercnt_byte [simp]: "ota_headercnt (header_byte pData i s) = ota_headercnt s"
  by (simp add: header_byte_def)

lemma block_at_Suc: "block_at file c i (Suc n) pData \<Longrightarrow> block_at file (Suc c) (Suc i) n pData"
  by (auto simp: block_at_def)

lemma fields_whole_Suc: "fields_whole c (Suc n) \<Longrightarrow> fields_whole (Suc c) n"
  by (auto simp: fields_whole_def)

lemma of_nat_u32_eq: "c < 2 ^ 32 \<Longrightarrow> k < 2 ^ 32 \<Longrightarrow> (of_nat c :: u32) = of_nat k \<longleftrightarrow> c = k"
  by (simp add: word_unat_eq_iff unat_of_nat)

lemma hstate_sel [simp]:
  "ota_state (hstate file hs c s) = ota_state s" "ota_headercnt (hstate file hs c s) = of_nat c"
  by (simp_all add: hstate_def)

lemma header_step:
  assumes "wf_file file hs" "c < hs" "block_at file c i (Suc n) pData" "fields_whole c (Suc n)"
  shows "(header_byte pData i (hstate file hs c s))\<lparr>ota_headercnt := of_nat c + 1\<rparr> = hstate file hs (Suc c) s \<and>
         ota_state (header_byte pData i (hstate file hs c s)) = ota_state s"
proof -
  have c: "c < 2 ^ 32" "hs < 2 ^ 32"
    using assms(1,2) by (auto simp: wf_file_def)
  have n: "(of_nat c :: u32) = 6 \<longleftrightarrow> c = 6" "(of_nat c :: u32) = 10 \<longleftrightarrow> c = 10" "(of_nat c :: u32) = 12 \<longleftrightarrow> c = 12"
      "(of_nat c :: u32) = 14 \<longleftrightarrow> c = 14" "(of_nat c :: u32) = 58 \<longleftrightarrow> c = 58" "(of_nat c :: u32) = of_nat hs \<longleftrightarrow> c = hs"
    using of_nat_u32_eq [OF c(1), of 6] of_nat_u32_eq [OF c(1), of 10] of_nat_u32_eq [OF c(1), of 12]
      of_nat_u32_eq [OF c(1), of 14] of_nat_u32_eq [OF c(1), of 58] of_nat_u32_eq [OF c] by simp_all
  have w: "c = 6 \<Longrightarrow> 2 \<le> Suc n" "c = 10 \<Longrightarrow> 2 \<le> Suc n" "c = 12 \<Longrightarrow> 2 \<le> Suc n" "c = 14 \<Longrightarrow> 4 \<le> Suc n" "c = 58 \<Longrightarrow> 4 \<le> Suc n"
    using assms(4) by (auto simp: fields_whole_def)
  have six: "ucast (le16 (nth file) 6) + 6 = (of_nat hs :: u32)"
  proof -
    have "of_nat hs = (of_nat (unat (le16 (nth file) 6)) + 6 :: u32)"
      using assms(1) by (auto simp: wf_file_def)
    then show ?thesis
      by simp
  qed
  consider "c = 6" | "c = 10" | "c = 12" | "c = 14" | "c = 58" | "c \<notin> {6, 10, 12, 14, 58}"
    by blast
  then show ?thesis
  proof cases
    case 6
    then show ?thesis
      using n assms(2) by (auto simp: header_byte_def hstate_def hdr_info_def ota_head_defs)
  qed (use n w six block_le16 [OF assms(3)] block_le32 [OF assms(3)] in
      \<open>simp_all add: header_byte_def hstate_def hdr_info_def ota_head_defs\<close>)
qed

lemma header_run:
  assumes "wf_file file hs" "c \<le> hs" "block_at file c i n pData" "fields_whole c n" "ota_state s = OTA_STA_STARTING"
  shows "header_loop pData n i (hstate file hs c s) =
    (if c + n \<le> hs then (i + n, hstate file hs (c + n) s)
     else (i + (hs - c), (hstate file hs hs s)\<lparr>ota_state := OTA_STA_DATAING\<rparr>))"
  using assms(2-4)
proof (induction n arbitrary: c i)
  case (Suc n)
  show ?case
  proof (cases "c = hs")
    case True
    have "hs < 2 ^ 32" "62 \<le> hs"
      using assms(1) by (auto simp: wf_file_def)
    moreover have "(of_nat hs :: u32) \<noteq> of_nat k" if "k < 62" for k
      using of_nat_u32_eq [of hs k] that calculation by simp
    from this [of 6] this [of 10] this [of 12] this [of 14] this [of 58] this [of 0]
    have "header_byte pData i (hstate file hs hs s) = (hstate file hs hs s)\<lparr>ota_state := OTA_STA_DATAING\<rparr>"
      using \<open>62 \<le> hs\<close> by (simp add: header_byte_def hstate_def ota_head_defs)
    then show ?thesis
      using True by (simp add: Let_def)
  next
    case False
    then have lt: "c < hs"
      using Suc.prems by simp
    from header_step [OF assms(1) lt Suc.prems(2,3), of s]
    have st: "header_loop pData (Suc n) i (hstate file hs c s) = header_loop pData n (Suc i) (hstate file hs (Suc c) s)"
      using assms(5) by (simp add: Let_def)
    have "header_loop pData n (Suc i) (hstate file hs (Suc c) s) =
      (if Suc c + n \<le> hs then (Suc i + n, hstate file hs (Suc c + n) s)
       else (Suc i + (hs - Suc c), (hstate file hs hs s)\<lparr>ota_state := OTA_STA_DATAING\<rparr>))"
      by (rule Suc.IH) (use lt Suc.prems block_at_Suc fields_whole_Suc in auto)
    then show ?thesis
      using st lt by auto
  qed
qed simp

section \<open>Storing image bytes\<close>

text \<open>What the flash holds for byte \<open>j\<close> of the image before the boot flag is set.\<close>

definition img_byte :: "u8 list \<Rightarrow> nat \<Rightarrow> nat \<Rightarrow> u8" where
  "img_byte file hs j = (if j = 8 then 0xFF else file ! (hs + j))"

text \<open>The first \<open>k\<close> bytes of the image are stored at \<open>a\<close> and the rest of its area is erased.\<close>

definition stored :: "u8 list \<Rightarrow> nat \<Rightarrow> addr \<Rightarrow> nat \<Rightarrow> (addr \<Rightarrow> u8) \<Rightarrow> bool" where
  "stored file hs a k m \<longleftrightarrow>
     (\<forall>j < length file - hs. m (a + of_nat j) = (if j < k then img_byte file hs j else 0xFF))"

lemma unat_diff_less:
  fixes j k d :: nat
  assumes "j < 2 ^ 31" "k < 2 ^ 31" "d < 2 ^ 31"
  shows "unat (of_nat j - of_nat k :: u32) < d \<longleftrightarrow> k \<le> j \<and> j < k + d"
    and "k \<le> j \<Longrightarrow> unat (of_nat j - of_nat k :: u32) = j - k"
proof -
  let ?w = "of_nat j - of_nat k :: u32"
  have le: "unat ?w = j - k" if "k \<le> j"
  proof -
    have "?w = of_nat (j - k)"
      using that by (simp add: of_nat_diff)
    then show ?thesis
      using assms by (simp add: unat_of_nat)
  qed
  moreover have "k \<le> j" if "unat ?w < d"
  proof -
    have "unat (?w + of_nat k) = unat ?w + k"
      using unat_add_no_wrap [of ?w "of_nat k"] that assms by (simp add: unat_of_nat)
    then show ?thesis
      using assms by (simp add: unat_of_nat)
  qed
  ultimately show "unat ?w < d \<longleftrightarrow> k \<le> j \<and> j < k + d"
    by auto
  show "k \<le> j \<Longrightarrow> unat ?w = j - k"
    by (rule le)
qed

lemma stored_step:
  assumes "stored file hs a k m" "k + d \<le> length file - hs" "length file < 0x30000"
  defines "buf \<equiv> map (\<lambda>j. img_byte file hs (k + j)) [0..<d]"
  shows "stored file hs a (k + d) (and_bytes m (a + of_nat k) buf)"
    and "fbytes (and_bytes m (a + of_nat k) buf) (a + of_nat k) d = buf"
proof -
  have ab: "and_bytes m (a + of_nat k) buf (a + of_nat j) = (if j < k + d then img_byte file hs j else 0xFF)"
    if j: "j < length file - hs" for j
  proof -
    have x: "a + of_nat j - (a + of_nat k) = (of_nat j - of_nat k :: addr)"
      by simp
    have b: "j < 2 ^ 31" "k < 2 ^ 31" "d < 2 ^ 31"
      using j assms(2,3) by auto
    have "m (a + of_nat j) = (if j < k then img_byte file hs j else 0xFF)"
      using assms(1) j by (simp add: stored_def)
    then show ?thesis
      using unat_diff_less [OF b] unfolding and_bytes_def x by (auto simp: buf_def and_u8_ff)
  qed
  then show "stored file hs a (k + d) (and_bytes m (a + of_nat k) buf)"
    by (simp add: stored_def)
  show "fbytes (and_bytes m (a + of_nat k) buf) (a + of_nat k) d = buf"
  proof (rule nth_equalityI)
    fix j
    assume "j < length (fbytes (and_bytes m (a + of_nat k) buf) (a + of_nat k) d)"
    then have j: "j < d"
      by simp
    have e: "a + of_nat k + of_nat j = a + (of_nat (k + j) :: addr)"
      by (simp add: algebra_simps)
    show "fbytes (and_bytes m (a + of_nat k) buf) (a + of_nat k) d ! j = buf ! j"
      using ab [of "k + j"] j assms(2) by (simp add: e buf_def del: of_nat_add)
  qed (simp add: buf_def)
qed

lemma crc_part_unat:
  assumes "unat cnt = unat hb + unat dl" "unat cnt \<le> unat (tot - 4) + 4"
  shows "unat (crc_part tot hb cnt dl) =
    (if unat hb \<ge> unat (tot - 4) then 0 else min (unat dl) (unat (tot - 4) - unat hb))"
proof -
  define lim where "lim = tot - 4"
  show ?thesis
  proof (cases "cnt \<ge> lim \<and> hb < lim")
    case True
    define o16 where "o16 = (ucast (cnt - lim) :: u16)"
    have le: "unat lim \<le> unat cnt" "unat hb < unat lim"
      using True by (simp_all add: word_le_nat_alt word_less_nat_alt)
    have "unat (cnt - lim) = unat cnt - unat lim"
      using True unat_sub_no_wrap by blast
    then have o16: "unat o16 = unat cnt - unat lim" "unat o16 \<le> 4"
      using assms(2) by (simp_all add: o16_def lim_def unsigned_ucast_eq take_bit_nat_eq_self)
    then have o8: "unat (ucast o16 :: u8) = unat o16"
      by (simp add: unsigned_ucast_eq take_bit_nat_eq_self)
    have lt: "unat o16 < unat dl"
      using o16 le assms(1) by linarith
    then have "unat (dl - ucast o16) = unat dl - unat o16"
      using unat_sub_no_wrap [of "ucast o16" dl] o8 by (simp add: word_le_nat_alt)
    moreover have "crc_part tot hb cnt dl = dl - ucast o16"
      using True lt unfolding crc_part_def Let_def lim_def [symmetric] o16_def [symmetric]
      by (simp add: word_less_nat_alt word_le_nat_alt)
    ultimately show ?thesis
      unfolding lim_def [symmetric] using o16(1) le assms(1) by simp
  next
    case False
    then show ?thesis
      using assms(1) unfolding crc_part_def Let_def lim_def [symmetric]
      by (auto simp: word_le_nat_alt word_less_nat_alt)
  qed
qed

section \<open>One piece of the image\<close>

definition image_crc :: "u8 list \<Rightarrow> nat \<Rightarrow> nat \<Rightarrow> u32" where
  "image_crc file hs k = xcrc32 (take (min k (length file - hs - 4)) (drop hs file)) 0xffffffff"

lemma image_crc_step:
  assumes "hs + k + n \<le> length file - 4"
  shows "xcrc32 (map (\<lambda>j. file ! (hs + k + j)) [0..<n]) (image_crc file hs k) = image_crc file hs (k + n)"
proof -
  have "map (\<lambda>j. file ! (hs + k + j)) [0..<n] = take n (drop k (drop hs file))"
    using assms by (intro nth_equalityI) (simp_all add: algebra_simps)
  moreover have "take (k + n) (drop hs file) = take k (drop hs file) @ take n (drop k (drop hs file))"
    by (simp add: take_add)
  ultimately show ?thesis
    using assms by (simp add: image_crc_def min_absorb1 xcrc32_append)
qed

text \<open>The bytes written and the bytes checksummed: the boot flag is masked for the one and restored for the other.\<close>

lemma masked_bytes:
  assumes "block_at file (hs + k) i d pData" "file ! (hs + 8) = 0x4b" "n \<le> d"
  defines "flag \<equiv> k \<le> 8 \<and> 8 \<le> k + d"
  shows "map (if flag then pData(i + 8 - k := 0xff) else pData) [i..<i + d] = map (\<lambda>j. img_byte file hs (k + j)) [0..<d]"
    and "map (if flag then pData(i + 8 - k := 0xff, i + 8 - k := 0x4b) else pData) [i..<i + n] =
         map (\<lambda>j. file ! (hs + k + j)) [0..<n]"
proof -
  have b: "pData (i + j) = file ! (hs + (k + j))" if "j < d" for j
    using block_nth [OF assms(1) that] by (simp add: add.assoc)
  have eq: "i + j = i + 8 - k \<longleftrightarrow> k + j = 8" if "flag" for j
    using that by (auto simp: flag_def)
  show "map (if flag then pData(i + 8 - k := 0xff) else pData) [i..<i + d] = map (\<lambda>j. img_byte file hs (k + j)) [0..<d]"
  proof (rule nth_equalityI)
    fix j
    assume "j < length (map (if flag then pData(i + 8 - k := 0xff) else pData) [i..<i + d])"
    then have j: "j < d"
      by simp
    show "map (if flag then pData(i + 8 - k := 0xff) else pData) [i..<i + d] ! j =
        map (\<lambda>j. img_byte file hs (k + j)) [0..<d] ! j"
      using j b [OF j] eq [of j] by (cases "k + j = 8") (auto simp: img_byte_def flag_def)
  qed simp
  show "map (if flag then pData(i + 8 - k := 0xff, i + 8 - k := 0x4b) else pData) [i..<i + n] =
      map (\<lambda>j. file ! (hs + k + j)) [0..<n]"
  proof (rule nth_equalityI)
    fix j
    assume "j < length (map (if flag then pData(i + 8 - k := 0xff, i + 8 - k := 0x4b) else pData) [i..<i + n])"
    then have j: "j < n" "j < d"
      using assms(3) by auto
    show "map (if flag then pData(i + 8 - k := 0xff, i + 8 - k := 0x4b) else pData) [i..<i + n] ! j =
        map (\<lambda>j. file ! (hs + k + j)) [0..<n] ! j"
      using j b [OF j(2)] eq [of j] assms(2) by (cases "k + j = 8") (auto simp: add.assoc)
  qed simp
qed

lemma flash_val_write_check:
  assumes "nor_flash (bus E) wr prot" "flash_ready s" "\<forall>x. \<not> prot (fstat (fp_chip (fl s))) x"
    and "buf \<noteq> []" "unat a + length buf \<le> 2 ^ 24"
  shows "flash_val (flash_writeWithCheck (bus E) a buf) s =
    (fbytes (and_bytes (fmem_of s) a buf) a (length buf) = buf,
     set_chip ((fp_chip (fl s))\<lparr>fmem := and_bytes (fmem_of s) a buf\<rparr>) s)"
  using nor_flash.write_check_eq [OF assms(1,4,5), of "flash_of s" False] assms(2,3)
  by (simp add: flash_val_def flash_ready_def put_flash_chip)

lemma unat_hdr_total:
  assumes "wf_file file hs"
  shows "imageSize (hdr_info file hs) + of_nat hs = (of_nat (length file) :: u32)"
proof -
  have "unat (le32 (nth file) 58) + hs = length file" "58 < hs"
    using assms by (auto simp: wf_file_def)
  then have "of_nat (length file) = (of_nat (unat (le32 (nth file) 58)) + of_nat hs :: u32)"
    by (metis of_nat_add)
  then show ?thesis
    using \<open>58 < hs\<close> by (simp add: hdr_info_def)
qed

text \<open>The checksum after \<open>d\<close> more bytes, of which the last four of the file do not count.\<close>

lemma image_crc_data:
  assumes wf: "wf_file file hs" and d: "0 < d" "d \<le> 48" "hs + k + d \<le> length file"
  defines "n \<equiv> crc_part (of_nat (length file)) (of_nat (hs + k)) (of_nat (hs + k) + of_nat d) (of_nat d)"
  shows "unat n \<le> d"
    and "(if n \<noteq> 0 then xcrc32 (map (\<lambda>j. file ! (hs + k + j)) [0..<unat n]) (image_crc file hs k) else image_crc file hs k) =
      image_crc file hs (k + d)"
proof -
  have T: "length file < 0x30000" "hs + 16 \<le> length file"
    using wf by (auto simp: wf_file_def)
  have uu: "unat (of_nat n :: u32) = n" if "n < 0x30000" for n
    using that by (simp add: unat_of_nat)
  have ud: "unat (of_nat d :: u8) = d"
    using d by (simp add: unat_of_nat)
  have hkd: "of_nat (hs + k) + of_nat d = (of_nat (hs + k + d) :: u32)"
    by simp
  have lim: "unat (of_nat (length file) - 4 :: u32) = length file - 4"
  proof -
    have "of_nat (length file) - 4 = (of_nat (length file - 4) :: u32)"
      using T(2) by (simp add: of_nat_diff)
    then show ?thesis
      using uu [of "length file - 4"] T by simp
  qed
  have un: "unat n = (if hs + k \<ge> length file - 4 then 0 else min d (length file - 4 - (hs + k)))"
    unfolding n_def hkd
    by (subst crc_part_unat, unfold lim ud, use uu [of "hs + k"] uu [of "hs + k + d"] d(3) T in simp_all)
  then show "unat n \<le> d"
    by auto
  show "(if n \<noteq> 0 then xcrc32 (map (\<lambda>j. file ! (hs + k + j)) [0..<unat n]) (image_crc file hs k) else image_crc file hs k) =
      image_crc file hs (k + d)"
  proof (cases "hs + k \<ge> length file - 4")
    case True
    then have "min k (length file - hs - 4) = length file - hs - 4" "min (k + d) (length file - hs - 4) = length file - hs - 4"
      by auto
    then show ?thesis
      using True un by (simp add: image_crc_def unat_eq_zero)
  next
    case False
    then have "n \<noteq> 0" "hs + k + unat n \<le> length file - 4"
      using un d(1) by (auto simp: unat_eq_0 [symmetric] simp del: unat_eq_0)
    moreover have "image_crc file hs (k + unat n) = image_crc file hs (k + d)"
    proof -
      have "min (k + unat n) (length file - hs - 4) = min (k + d) (length file - hs - 4)"
        using False un by (auto simp: min_def)
      then show ?thesis
        by (simp add: image_crc_def)
    qed
    ultimately show ?thesis
      using image_crc_step by simp
  qed
qed

text \<open>Programming inside an area leaves the bytes outside it alone.\<close>

lemma and_bytes_beyond:
  assumes "k + d \<le> n" "n < 2 ^ 31" "n \<le> unat (x - a)" "length buf = d"
  shows "and_bytes m (a + of_nat k) buf x = m x"
proof -
  have k: "unat (of_nat k :: addr) = k"
    using assms by (simp add: unat_of_nat)
  have "unat (x - a - of_nat k) = unat (x - a) - k"
    using unat_sub_no_wrap [of "of_nat k" "x - a"] assms k by (simp add: word_le_nat_alt)
  then have "\<not> unat (x - (a + of_nat k)) < length buf"
    using assms by (simp add: diff_diff_eq)
  then show ?thesis
    by (simp add: and_bytes_def)
qed

lemma image_data_step:
  assumes nor: "nor_flash (bus E) wr prot" "flash_ready s" "\<forall>x. \<not> prot (fstat (fp_chip (fl s))) x"
    and wf: "wf_file file hs" and d: "0 < d" "d \<le> 48" "hs + k + d \<le> length file" and blk: "block_at file (hs + k) i d pData"
    and s: "ota_headercnt s = of_nat (hs + k)" "ota_headersize s = of_nat hs" "binInfo s = hdr_info file hs"
      "flashOffsetAddr s = of_nat k" "crcValue s = image_crc file hs k" "stored file hs (ota_base s) k (fmem_of s)"
  shows "\<exists>p m. ota_image_data E (of_nat d) i pData s =
      Some (p, (set_chip ((fp_chip (fl s))\<lparr>fmem := m\<rparr>) s)\<lparr>ota_headercnt := of_nat (hs + k + d),
        flashOffsetAddr := of_nat (k + d), crcValue := image_crc file hs (k + d)\<rparr>) \<and>
      stored file hs (ota_base s) (k + d) m \<and>
      (\<forall>x. length file - hs \<le> unat (x - ota_base s) \<longrightarrow> m x = fmem_of s x)"
proof -
  have T: "length file < 0x30000" "hs + 16 \<le> length file" "file ! (hs + 8) = 0x4b"
    using wf by (auto simp: wf_file_def)
  have uu: "unat (of_nat n :: u32) = n" if "n < 0x30000" for n
    using that by (simp add: unat_of_nat)
  have ud: "unat (of_nat d :: u8) = d" "ucast (of_nat d :: u8) = (of_nat d :: u32)" "(of_nat d :: u8) > 0"
    using d by (simp_all add: unat_of_nat word_unat_eq_iff word_less_nat_alt)
  have uk: "unat (of_nat k :: u32) = k"
    using d(3) T by (intro uu) simp
  define flag where "flag = (k \<le> 8 \<and> 8 \<le> k + d)"
  have ukd: "unat (of_nat d + of_nat k :: u32) = d + k"
  proof -
    have "unat (of_nat (d + k) :: u32) = d + k"
      using d T by (intro uu) simp
    then show ?thesis
      by simp
  qed
  have u8: "unat (8 :: u32) = 8"
    by simp
  have fl: "((of_nat k :: u32) \<le> 8 \<and> of_nat d + of_nat k \<ge> (8 :: u32) \<and> (of_nat d :: u8) > 0) = flag"
    unfolding word_le_nat_alt ukd uk u8 flag_def using ud(3) by (simp add: add.commute)
  define buf where "buf = map (\<lambda>j. img_byte file hs (k + j)) [0..<d]"
  define a where "a = ota_base s + of_nat k"
  define m where "m = and_bytes (fmem_of s) a buf"
  note st = stored_step [OF s(6), of d, folded buf_def a_def m_def]
  have kd: "k + d \<le> length file - hs"
    using d(3) by simp
  define s2 where "s2 = s\<lparr>ota_headercnt := of_nat (hs + k) + of_nat d\<rparr>"
  define p1 where "p1 = (if flag then pData(i + 8 - k := 0xff) else pData)"
  have mp1: "map p1 [i..<i + d] = buf"
    unfolding p1_def flag_def buf_def by (rule masked_bytes(1) [OF blk T(3) order_refl])
  have ua: "unat a + length buf \<le> 2 ^ 24"
  proof -
    have "unat (ota_base s) \<le> 0x40000"
      by (simp add: ota_base_def FLASH_OTA_NEWIMAGE_ADDR_def)
    then show ?thesis
      using unat_add_no_wrap [of "ota_base s" "of_nat k"] uk d(3) T(1) by (simp add: a_def buf_def)
  qed
  have w: "flash_val (flash_writeWithCheck (bus E) a buf) s2 = (True, set_chip ((fp_chip (fl s))\<lparr>fmem := m\<rparr>) s2)"
    using flash_val_write_check [OF nor(1), of s2 buf a] nor(2,3) ua d(1) st(2) [OF kd T(1)]
    by (simp add: s2_def flash_ready_def m_def buf_def)
  define n where "n = crc_part (of_nat (length file)) (of_nat (hs + k)) (of_nat (hs + k) + of_nat d) (of_nat d)"
  note nd = image_crc_data [OF wf d, folded n_def]
  have mp2: "map (if flag then p1(i + 8 - k := 0x4b) else p1) [i..<i + unat n] = map (\<lambda>j. file ! (hs + k + j)) [0..<unat n]"
    using masked_bytes(2) [OF blk T(3) nd(1)] unfolding p1_def flag_def by (auto split: if_splits)
  have "ota_image_data E (of_nat d) i pData s =
      Some (if flag then p1(i + 8 - k := 0x4b) else p1,
        (set_chip ((fp_chip (fl s))\<lparr>fmem := m\<rparr>) s)\<lparr>ota_headercnt := of_nat (hs + k + d),
          flashOffsetAddr := of_nat (k + d), crcValue := image_crc file hs (k + d)\<rparr>)"
  proof -
    have b2: "ota_base s2 + of_nat k = a" "flashOffsetAddr s2 = of_nat k"
      by (simp_all add: s2_def a_def s(4) ota_base_def)
    define s3 where "s3 = set_chip ((fp_chip (fl s))\<lparr>fmem := m\<rparr>) s2"
    have b3: "flashOffsetAddr s3 = of_nat k" "imageSize (binInfo s3) + ota_headersize s3 = of_nat (length file)"
        "ota_headercnt s3 = of_nat (hs + k) + of_nat d" "crcValue s3 = image_crc file hs k"
      using unat_hdr_total [OF wf] by (simp_all add: s3_def s2_def s set_chip_def)
    define s4 where "s4 = s3\<lparr>flashOffsetAddr := of_nat k + of_nat d\<rparr>"
    have b4: "imageSize (binInfo s4) + ota_headersize s4 = of_nat (length file)"
        "ota_headercnt s4 = of_nat (hs + k) + of_nat d" "crcValue s4 = image_crc file hs k"
      using b3 by (simp_all add: s4_def)
    have "ota_image_data E (of_nat d) i pData s =
        Some (if flag then p1(i + 8 - k := 0x4b) else p1,
          if n \<noteq> 0 then s4\<lparr>crcValue := xcrc32 (map (\<lambda>j. file ! (hs + k + j)) [0..<unat n]) (image_crc file hs k)\<rparr> else s4)"
      unfolding ota_image_data_def Let_def ud(1,2) s(1) s2_def [symmetric] b2 OTA_TLNK_KEYWORD_ADDROFFSET_def fl uk
        p1_def [symmetric] mp1 w prod.case not_True_eq_False if_False s3_def [symmetric] b3(1) s4_def [symmetric] b4
        n_def [symmetric] mp2 ..
    also have "(if n \<noteq> 0 then s4\<lparr>crcValue := xcrc32 (map (\<lambda>j. file ! (hs + k + j)) [0..<unat n]) (image_crc file hs k)\<rparr> else s4) =
        s4\<lparr>crcValue := image_crc file hs (k + d)\<rparr>"
      using nd(2) b4(3) by (cases "n = 0") (simp_all add: s4_def)
    also have "s4\<lparr>crcValue := image_crc file hs (k + d)\<rparr> =
        (set_chip ((fp_chip (fl s))\<lparr>fmem := m\<rparr>) s)\<lparr>ota_headercnt := of_nat (hs + k + d),
          flashOffsetAddr := of_nat (k + d), crcValue := image_crc file hs (k + d)\<rparr>"
      by (simp add: s4_def s3_def s2_def set_chip_def)
    finally show ?thesis .
  qed
  moreover have "\<forall>x. length file - hs \<le> unat (x - ota_base s) \<longrightarrow> m x = fmem_of s x"
    using and_bytes_beyond [of k d "length file - hs" _ "ota_base s" buf "fmem_of s"] kd T(1)
    by (simp add: m_def a_def buf_def)
  ultimately show ?thesis
    using st(1) [OF kd T(1), folded m_def] by blast
qed

section \<open>One block\<close>

text \<open>The client that has consumed \<open>n\<close> bytes of the file.\<close>

definition at_pos :: "u8 list \<Rightarrow> nat \<Rightarrow> nat \<Rightarrow> 'a ota_dev_scheme \<Rightarrow> 'a ota_dev_scheme" where
  "at_pos file hs n s = s\<lparr>ota_headercnt := of_nat n, ota_headersize := if n > 6 then of_nat hs else 0,
     binInfo := hdr_info file n, ota_state := if n \<le> hs then OTA_STA_STARTING else OTA_STA_DATAING,
     flashOffsetAddr := of_nat (n - hs), crcValue := image_crc file hs (n - hs)\<rparr>"

text \<open>Its flash, compared with the flash \<open>m0\<close> before the transfer.\<close>

definition flash_at :: "u8 list \<Rightarrow> nat \<Rightarrow> (addr \<Rightarrow> u8) \<Rightarrow> nat \<Rightarrow> 'a ota_dev_scheme \<Rightarrow> bool" where
  "flash_at file hs m0 n s \<longleftrightarrow> stored file hs (ota_base s) (n - hs) (fmem_of s) \<and>
     (\<forall>x. length file - hs \<le> unat (x - ota_base s) \<longrightarrow> fmem_of s x = m0 x)"

abbreviation with_mem :: "(addr \<Rightarrow> u8) \<Rightarrow> 'a sdk_state_scheme \<Rightarrow> 'a sdk_state_scheme" where
  "with_mem m s \<equiv> set_chip ((fp_chip (fl s))\<lparr>fmem := m\<rparr>) s"

lemma at_pos_at_pos [simp]: "at_pos file hs n (at_pos file hs k s) = at_pos file hs n s"
  by (simp add: at_pos_def)

lemma at_pos_sel [simp]:
  "ota_headercnt (at_pos file hs n s) = of_nat n" "binInfo (at_pos file hs n s) = hdr_info file n"
  "flashOffsetAddr (at_pos file hs n s) = of_nat (n - hs)" "crcValue (at_pos file hs n s) = image_crc file hs (n - hs)"
  "ota_headersize (at_pos file hs n s) = (if n > 6 then of_nat hs else 0)"
  "ota_state (at_pos file hs n s) = (if n \<le> hs then OTA_STA_STARTING else OTA_STA_DATAING)"
  "fl (at_pos file hs n s) = fl s" "dev_otaInfo (at_pos file hs n s) = dev_otaInfo s" "outs (at_pos file hs n s) = outs s"
  "mcuBootAddr (at_pos file hs n s) = mcuBootAddr s" "g_tlAppDataSeqNo (at_pos file hs n s) = g_tlAppDataSeqNo s" "blockDataCount (at_pos file hs n s) = blockDataCount s"
  "flash_ready (at_pos file hs n s) = flash_ready s" "timers_ok E (at_pos file hs n s) = timers_ok E s"
  "ota_base (at_pos file hs n s) = ota_base s"
  by (simp_all add: at_pos_def flash_ready_def ota_base_def)

lemma ota_base_chip [simp]: "ota_base (set_chip c s) = ota_base s" "ota_base (set_stat st l s) = ota_base s"
  by (simp_all add: ota_base_def)

lemma hdr_info_hs: "wf_file file hs \<Longrightarrow> hs \<le> n \<Longrightarrow> hdr_info file n = hdr_info file hs"
  by (auto simp: hdr_info_def wf_file_def)

lemma fields_whole_pre: "fields_whole c len \<Longrightarrow> c \<le> hs \<Longrightarrow> block_at file c 0 len pData \<Longrightarrow> hs < c + len \<Longrightarrow>
    block_at file hs (hs - c) (len - (hs - c)) pData"
  by (auto simp: block_at_def)

lemma DataProcess_image:
  assumes nor: "nor_flash (bus E) wr prot" "flash_ready s" "\<forall>x. \<not> prot (fstat (fp_chip (fl s))) x" and wf: "wf_file file hs"
    and d: "0 < d" "d \<le> 48" "hs + k + d \<le> length file" and blk: "block_at file (hs + k) i d pData"
    and s: "s = (at_pos file hs (hs + k) s)\<lparr>ota_state := OTA_STA_DATAING\<rparr>" "flash_at file hs m0 (hs + k) s"
  shows "\<exists>p m. ota_image_data E (of_nat d) i pData s = Some (p, at_pos file hs (hs + k + d) (with_mem m s)) \<and>
           flash_at file hs m0 (hs + k + d) (at_pos file hs (hs + k + d) (with_mem m s))"
proof -
  have hs: "62 \<le> hs"
    using wf by (simp add: wf_file_def)
  have f: "ota_headercnt s = of_nat (hs + k)" "ota_headersize s = of_nat hs" "binInfo s = hdr_info file hs"
      "flashOffsetAddr s = of_nat k" "crcValue s = image_crc file hs k" "ota_state s = OTA_STA_DATAING"
    using hs hdr_info_hs [OF wf, of "hs + k"] by (subst s(1), simp)+
  have st: "stored file hs (ota_base s) k (fmem_of s)"
    using s(2) by (simp add: flash_at_def)
  obtain p m where r: "ota_image_data E (of_nat d) i pData s = Some (p, (with_mem m s)\<lparr>ota_headercnt := of_nat (hs + k + d),
        flashOffsetAddr := of_nat (k + d), crcValue := image_crc file hs (k + d)\<rparr>)"
      "stored file hs (ota_base s) (k + d) m" "\<forall>x. length file - hs \<le> unat (x - ota_base s) \<longrightarrow> m x = fmem_of s x"
    using image_data_step [OF nor wf d blk f(1-5) st] by blast
  have "(with_mem m s)\<lparr>ota_headercnt := of_nat (hs + k + d), flashOffsetAddr := of_nat (k + d),
      crcValue := image_crc file hs (k + d)\<rparr> = at_pos file hs (hs + k + d) (with_mem m s)"
    using f hs hdr_info_hs [OF wf, of "hs + k + d"] d(1) by (simp add: at_pos_def set_chip_def add.assoc)
  then show ?thesis
    using r s(2) by (auto simp: flash_at_def add.assoc intro!: exI [of _ p] exI [of _ m])
qed

text \<open>A block of the file, whether it lies in the header, in the image, or across their boundary.\<close>

lemma DataProcess_step:
  assumes nor: "nor_flash (bus E) wr prot" "flash_ready s" "\<forall>x. \<not> prot (fstat (fp_chip (fl s))) x" and wf: "wf_file file hs"
    and d: "0 < d" "d \<le> 48" "n + d \<le> length file" and blk: "block_at file n 0 d pData" "fields_whole n d"
    and s: "s = at_pos file hs n s" "flash_at file hs m0 n s"
  shows "\<exists>p m. ota_DataProcess E (of_nat d) pData s = Some (p, at_pos file hs (n + d) (with_mem m s)) \<and>
           flash_at file hs m0 (n + d) (at_pos file hs (n + d) (with_mem m s))"
proof -
  have ud: "unat (of_nat d :: u8) = d" "(of_nat d :: u8) > 0"
    using d by (simp_all add: unat_of_nat word_less_nat_alt)
  have id: "set_chip (fp_chip (fl s)) s = s"
    by (simp add: set_chip_def)
  consider "n + d \<le> hs" | "n \<le> hs" "hs < n + d" | "hs < n"
    by linarith
  then show ?thesis
  proof cases
    case 1
    have st: "ota_state s = OTA_STA_STARTING"
      using 1 by (subst s(1)) simp
    have h: "hstate file hs n s = s" "hstate file hs (n + d) s = at_pos file hs (n + d) s"
      using 1 by (subst (2) s(1), subst (1) s(1), simp add: hstate_def at_pos_def)+
    have "ota_DataProcess E (of_nat d) pData s = Some (pData, at_pos file hs (n + d) s)"
      using header_run [OF wf _ blk st] h 1 st by (simp add: ota_DataProcess_def ud)
    then show ?thesis
      using s(2) 1 by (intro exI [of _ pData] exI [of _ "fmem_of s"]) (simp add: id flash_at_def)
  next
    case 2
    define i where "i = hs - n"
    define t where "t = (hstate file hs hs s)\<lparr>ota_state := OTA_STA_DATAING\<rparr>"
    have st: "ota_state s = OTA_STA_STARTING"
      using 2 by (subst s(1)) simp
    have h: "hstate file hs n s = s"
      using 2 by (subst (2) s(1), subst (1) s(1), simp add: hstate_def at_pos_def)
    have t: "t = (at_pos file hs (hs + 0) t)\<lparr>ota_state := OTA_STA_DATAING\<rparr>" "flash_at file hs m0 (hs + 0) t"
      "flash_ready t" "\<forall>x. \<not> prot (fstat (fp_chip (fl t))) x" "at_pos file hs (n + d) (with_mem m t) = at_pos file hs (n + d) (with_mem m s)" for m
      using 2 s(2) nor wf unfolding t_def
      by (subst s(1), simp add: hstate_def at_pos_def flash_at_def flash_ready_def set_chip_def ota_base_def wf_file_def)+
    have "i \<le> d"
      using 2 by (simp add: i_def)
    then have "ota_DataProcess E (of_nat d) pData s = ota_image_data E (of_nat (d - i)) i pData t"
      using header_run [OF wf _ blk st] h 2 st ud
      by (simp add: ota_DataProcess_def t_def [symmetric] i_def [symmetric] of_nat_diff) (simp add: t_def)
    moreover have "block_at file (hs + 0) i (d - i) pData"
      using fields_whole_pre [OF blk(2) 2(1) blk(1) 2(2)] by (simp add: i_def)
    then have "\<exists>p m. ota_image_data E (of_nat (d - i)) i pData t = Some (p, at_pos file hs (hs + 0 + (d - i)) (with_mem m t)) \<and>
           flash_at file hs m0 (hs + 0 + (d - i)) (at_pos file hs (hs + 0 + (d - i)) (with_mem m t))"
      by (intro DataProcess_image [OF nor(1) t(3,4) wf _ _ _ _ t(1,2)]) (use 2 d i_def in auto)
    moreover have "hs + 0 + (d - i) = n + d"
      using 2 by (simp add: i_def)
    ultimately show ?thesis
      using t(5) by simp
  next
    case 3
    then have st: "ota_state s = OTA_STA_DATAING"
      by (subst s(1)) simp
    then have "s = (at_pos file hs (hs + (n - hs)) s)\<lparr>ota_state := OTA_STA_DATAING\<rparr>"
      using 3 s(1) by (metis add_diff_inverse_nat not_less_iff_gr_or_eq ota_dev.surjective ota_dev.update_convs(6))
    moreover have "ota_DataProcess E (of_nat d) pData s = ota_image_data E (of_nat d) 0 pData s"
      using st ud(2) by (simp add: ota_DataProcess_def)
    ultimately show ?thesis
      using DataProcess_image [OF nor wf d(1,2), of "n - hs" 0 pData m0] 3 blk(1) d(3) s(2) by simp
  qed
qed

section \<open>All blocks\<close>

text \<open>The length of block \<open>b\<close>, and a data response that carries it: the preamble of \<open>info\<close> with the block number, the length, the data.\<close>

definition block_len :: "u8 list \<Rightarrow> nat \<Rightarrow> nat" where
  "block_len file b = min OTA_FRAMESIZE (length file - OTA_FRAMESIZE * b)"

definition data_rsp :: "u8 list \<Rightarrow> ota_preamble_t \<Rightarrow> nat \<Rightarrow> (nat \<Rightarrow> u8) \<Rightarrow> bool" where
  "data_rsp file info b pd \<longleftrightarrow> preamble_at pd = info\<lparr>imageSize := of_nat b\<rparr> \<and> pd 12 = of_nat (block_len file b) \<and>
     block_at file (OTA_FRAMESIZE * b) 0 (block_len file b) (\<lambda>i. pd (i + 13))"

text \<open>The client that has consumed \<open>b\<close> blocks.\<close>

definition receiving ::
  "sdk_env \<Rightarrow> u16 \<Rightarrow> (u16 \<Rightarrow> addr \<Rightarrow> bool) \<Rightarrow> u8 list \<Rightarrow> nat \<Rightarrow> (addr \<Rightarrow> u8) \<Rightarrow> ota_preamble_t \<Rightarrow> nat \<Rightarrow> 'a ota_dev_scheme \<Rightarrow> bool" where
  "receiving E wr prot file hs m0 info b s \<longleftrightarrow>
     timers_ok E s \<and> flash_ready s \<and> can_open wr prot s \<and> dev_otaInfo s = info \<and> blockDataCount s = of_nat b \<and>
     (let n = min (OTA_FRAMESIZE * b) (length file) in s = at_pos file hs n s \<and> flash_at file hs m0 n s)"

lemma can_open_upd [simp]:
  "can_open wr prot (with_mem m s) = can_open wr prot s" "can_open wr prot (at_pos file hs n t) = can_open wr prot t"
  "can_open wr prot (t\<lparr>blockDataCount := c\<rparr>) = can_open wr prot t"
  by (simp_all add: can_open_def split: option.split)

lemma flash_ready_upd [simp]:
  "flash_ready (with_mem m s) = flash_ready s" "flash_ready (t\<lparr>blockDataCount := c\<rparr>) = flash_ready t"
  by (simp_all add: flash_ready_def)

lemma at_pos_commute:
  "at_pos file hs n (set_stat st l s) = set_stat st l (at_pos file hs n s)"
  "at_pos file hs n (s\<lparr>blockDataCount := c\<rparr>) = (at_pos file hs n s)\<lparr>blockDataCount := c\<rparr>"
  by (simp_all add: at_pos_def set_stat_def)

lemma set_stat_flash [simp]:
  "flash_at file hs m0 n (set_stat st l s) = flash_at file hs m0 n s" "timers_ok E (set_stat st l s) = timers_ok E s"
  by (simp add: flash_at_def) (rule timers_ok_cong, simp_all add: set_stat_def)

lemma flash_at_at_pos [simp]: "flash_at file hs m0 n (at_pos file' hs' k s) = flash_at file hs m0 n s"
  by (simp add: flash_at_def)

lemma fields_whole_block:
  assumes "wf_file file hs"
  shows "fields_whole (OTA_FRAMESIZE * b) (block_len file b)"
proof -
  have "78 \<le> length file"
    using assms by (simp add: wf_file_def)
  consider "b = 0" | "b = 1" | "96 \<le> OTA_FRAMESIZE * b"
    unfolding OTA_FRAMESIZE_def by linarith
  then show ?thesis
    using \<open>78 \<le> length file\<close>
    by cases (simp_all add: fields_whole_def block_len_def OTA_FRAMESIZE_def, linarith)
qed

text \<open>The common part of every data response: unlock, store, lock, count.\<close>

lemma dataRsp_store:
  assumes nor: "nor_flash (bus E) wr prot" and wf: "wf_file file hs" and r: "receiving E wr prot file hs m0 info b s"
    and p: "data_rsp file info b pd" "OTA_FRAMESIZE * b < length file"
  shows "\<exists>s3. receiving E wr prot file hs m0 info (Suc b) s3 \<and> outs s3 = outs s \<and> mcuBootAddr s3 = mcuBootAddr s \<and>
    g_tlAppDataSeqNo s3 = g_tlAppDataSeqNo s \<and> ota_dataRspHandler E L pd s =
      (if of_nat (min (OTA_FRAMESIZE * Suc b) (length file)) \<ge> imageSize info then ota_finish E L s3
       else ota_dataReq L s3 \<bind> (\<lambda>s4. ota_dataReqRetry E OTA_MAX_IMAGE_BLOCK_RSP_WAIT_TIME (s4\<lparr>ota_dataCb := Some Cb_ota_dataReq\<rparr>)))"
proof -
  define n d where "n = OTA_FRAMESIZE * b" and "d = block_len file b"
  have n: "min (OTA_FRAMESIZE * b) (length file) = n" "min (OTA_FRAMESIZE * Suc b) (length file) = n + d"
      "0 < d" "d \<le> 48" "n + d \<le> length file"
    using p(2) by (auto simp: n_def d_def block_len_def OTA_FRAMESIZE_def)
  have s: "timers_ok E s" "flash_ready s" "can_open wr prot s" "dev_otaInfo s = info" "blockDataCount s = of_nat b"
      "s = at_pos file hs n s" "flash_at file hs m0 n s"
    using r unfolding receiving_def Let_def n(1) by auto
  have pr: "preamble_at pd = info\<lparr>imageSize := of_nat b\<rparr>" "pd 12 = of_nat d" "block_at file n 0 d (\<lambda>i. pd (i + 13))" "fields_whole n d"
    using p(1) fields_whole_block [OF wf] by (simp_all add: data_rsp_def n_def d_def)
  obtain st l where u: "on_flash (flash_unlock (bus E)) s = set_stat st l s" "\<forall>a. \<not> prot st a" "can_open wr prot (set_stat st l s)"
    using unlock_opens [OF nor s(3)] s(2) by (auto simp: flash_ready_def)
  define s0 where "s0 = set_stat st l s"
  have s0: "flash_ready s0" "\<forall>x. \<not> prot (fstat (fp_chip (fl s0))) x" "s0 = at_pos file hs n s0" "flash_at file hs m0 n s0"
    using s(2,7) u(2) arg_cong [OF s(6), of "set_stat st l"] by (simp_all add: s0_def at_pos_commute)
  obtain q m where dp: "ota_DataProcess E (of_nat d) (\<lambda>i. pd (i + 13)) s0 = Some (q, at_pos file hs (n + d) (with_mem m s0))"
      "flash_at file hs m0 (n + d) (at_pos file hs (n + d) (with_mem m s0))"
    using DataProcess_step [OF nor s0(1,2) wf n(3-5) pr(3,4) s0(3,4)] by blast
  define s1 where "s1 = at_pos file hs (n + d) (with_mem m s0)"
  have "can_open wr prot s1" "\<not> wel (fp_chip (fl s1))"
    using u(3) s0(1) by (simp_all add: s1_def s0_def flash_ready_def)
  then obtain st' l' where k: "on_flash (flash_lock (bus E)) s1 = set_stat st' l' s1" "can_open wr prot (set_stat st' l' s1)"
    using lock_closes [OF nor] by blast
  define s3 where "s3 = (set_stat st' l' s1)\<lparr>blockDataCount := of_nat b + 1\<rparr>"
  have a1: "s1 = at_pos file hs (n + d) s1"
    by (simp add: s1_def)
  have a3: "s3 = at_pos file hs (n + d) s3" "flash_at file hs m0 (n + d) s3"
    using arg_cong [OF a1, of "set_stat st' l'"] dp(2)
    by (simp_all add: s3_def at_pos_commute) (simp add: flash_at_def ota_base_def s1_def)
  have f3: "timers_ok E s3" "flash_ready s3" "can_open wr prot s3" "dev_otaInfo s3 = info" "outs s3 = outs s" "mcuBootAddr s3 = mcuBootAddr s"
      "g_tlAppDataSeqNo s3 = g_tlAppDataSeqNo s"
    using s(1-5) k(2) by (simp_all add: s3_def s1_def s0_def)
  have "receiving E wr prot file hs m0 info (Suc b) s3"
    using a3 f3 unfolding receiving_def Let_def n(2) by (simp add: s3_def)
  moreover have "ota_state s \<noteq> OTA_STA_IDLE"
    by (subst s(6)) simp
  moreover have "pd 12 \<noteq> 0"
    using pr(2) n(3,4) by (simp add: word_unat_eq_iff unat_of_nat)
  moreover have "ota_headercnt s1 = of_nat (n + d)" "dev_otaInfo s1 = info" "blockDataCount s1 = of_nat b"
    by (simp_all add: s1_def s0_def s(4,5))
  ultimately show ?thesis
    using f3 s(4,5) pr(1) u(1) dp(1) k(1) unfolding ota_dataRspHandler_def Let_def n(2)
    by (intro exI [of _ s3]) (simp add: pr(2) s0_def [symmetric] s1_def [symmetric] s3_def [symmetric] del: of_nat_add)
qed

lemma at_pos_iff:
  "s = at_pos file hs n s \<longleftrightarrow> ota_headercnt s = of_nat n \<and> ota_headersize s = (if n > 6 then of_nat hs else 0) \<and>
     binInfo s = hdr_info file n \<and> ota_state s = (if n \<le> hs then OTA_STA_STARTING else OTA_STA_DATAING) \<and>
     flashOffsetAddr s = of_nat (n - hs) \<and> crcValue s = image_crc file hs (n - hs)"
  (is "_ \<longleftrightarrow> ?fields")
proof
  assume s: "s = at_pos file hs n s"
  show ?fields
    by (intro conjI; subst s; simp)
next
  assume ?fields
  then show "s = at_pos file hs n s"
    by (simp add: at_pos_def)
qed

lemma receiving_cong:
  assumes "receiving E wr prot file hs m0 info b s" "timers_ok E s'" "fl s' = fl s" "dev_otaInfo s' = dev_otaInfo s"
    and "blockDataCount s' = blockDataCount s" "mcuBootAddr s' = mcuBootAddr s" "ota_headercnt s' = ota_headercnt s"
    and "ota_headersize s' = ota_headersize s" "binInfo s' = binInfo s" "ota_state s' = ota_state s"
    and "flashOffsetAddr s' = flashOffsetAddr s" "crcValue s' = crcValue s"
  shows "receiving E wr prot file hs m0 info b s'"
proof -
  have "flash_ready s' = flash_ready s" "can_open wr prot s' = can_open wr prot s" "flash_at file hs m0 n s' = flash_at file hs m0 n s" for n
    using assms(3,6) by (simp_all add: flash_ready_def can_open_def flash_at_def ota_base_def split: option.split)
  then show ?thesis
    using assms unfolding receiving_def Let_def at_pos_iff by simp
qed

text \<open>Sending a request and restarting the data timer.\<close>

lemma request_retry:
  assumes "timers_ok E s"
  shows "\<exists>s' msg e. (ota_send L c p s \<bind> (\<lambda>s4. ota_dataReqRetry E OTA_MAX_IMAGE_BLOCK_RSP_WAIT_TIME (s4\<lparr>ota_dataCb := dcb\<rparr>))) = Some s' \<and>
    timers_ok E s' \<and> same_app ((emit (McpsDataRequest msg (ota_cmd_bytes (g_tlAppDataSeqNo s) c p))
      (s\<lparr>g_tlAppDataSeqNo := g_tlAppDataSeqNo s + 1\<rparr>))\<lparr>ota_dataCb := dcb, ota_reqRetryCnt := 0, otaDataReqTimer := e\<rparr>) s'"
proof -
  obtain msg where m: "ota_send L c p s = Some (emit (McpsDataRequest msg (ota_cmd_bytes (g_tlAppDataSeqNo s) c p))
      (s\<lparr>g_tlAppDataSeqNo := g_tlAppDataSeqNo s + 1\<rparr>))" (is "_ = Some ?t")
    using ota_send_eq by blast
  have "timers_ok E (?t\<lparr>ota_dataCb := dcb\<rparr>)" "OTA_MAX_IMAGE_BLOCK_RSP_WAIT_TIME \<noteq> 0"
    using assms by (simp_all add: OTA_MAX_IMAGE_BLOCK_RSP_WAIT_TIME_def)
  from retry_ok [OF this] show ?thesis
    unfolding m bind.bind_lunit by blast
qed

lemma of_nat_file_le:
  assumes "wf_file file hs"
  shows "(of_nat (length file) :: u32) \<le> of_nat (min n (length file)) \<longleftrightarrow> length file \<le> n"
proof -
  have "length file < 0x30000"
    using assms by (simp add: wf_file_def)
  then have "unat (of_nat k :: u32) = k" if "k \<le> length file" for k
    using that by (simp add: unat_of_nat)
  then show ?thesis
    by (auto simp: word_le_nat_alt min_def)
qed

text \<open>The request for block \<open>b\<close>.\<close>

definition data_req :: "u8 \<Rightarrow> ota_preamble_t \<Rightarrow> nat \<Rightarrow> u8 list" where
  "data_req seqNo info b = ota_cmd_bytes seqNo TL_CMD_OTA_DATA_REQ (info\<lparr>imageSize := of_nat b\<rparr>)"

lemma dataRsp_more:
  assumes "nor_flash (bus E) wr prot" "wf_file file hs" "receiving E wr prot file hs m0 info b s" "data_rsp file info b pd"
    and "OTA_FRAMESIZE * Suc b < length file" "imageSize info = of_nat (length file)"
  shows "\<exists>s' msg. ota_dataRspHandler E L pd s = Some s' \<and> receiving E wr prot file hs m0 info (Suc b) s' \<and>
    outs s' = outs s @ [McpsDataRequest msg (data_req (g_tlAppDataSeqNo s) info (Suc b))] \<and>
    g_tlAppDataSeqNo s' = g_tlAppDataSeqNo s + 1 \<and> mcuBootAddr s' = mcuBootAddr s"
proof -
  have lt: "\<not> of_nat (min (OTA_FRAMESIZE * Suc b) (length file)) \<ge> imageSize info"
    unfolding assms(6) of_nat_file_le [OF assms(2)] using assms(5) by simp
  have "OTA_FRAMESIZE * b < length file"
    using assms(5) by simp
  from dataRsp_store [OF assms(1-4) this, of L]
  obtain s3 where s3: "receiving E wr prot file hs m0 info (Suc b) s3" "outs s3 = outs s" "mcuBootAddr s3 = mcuBootAddr s"
      "g_tlAppDataSeqNo s3 = g_tlAppDataSeqNo s" "ota_dataRspHandler E L pd s =
        (ota_dataReq L s3 \<bind> (\<lambda>s4. ota_dataReqRetry E OTA_MAX_IMAGE_BLOCK_RSP_WAIT_TIME (s4\<lparr>ota_dataCb := Some Cb_ota_dataReq\<rparr>)))"
    unfolding if_not_P [OF lt] by blast
  have t: "timers_ok E s3" "dev_otaInfo s3 = info" "blockDataCount s3 = of_nat (Suc b)"
    using s3(1) by (simp_all add: receiving_def)
  have "ota_dataReq L s3 = ota_send L TL_CMD_OTA_DATA_REQ (info\<lparr>imageSize := of_nat (Suc b)\<rparr>) s3"
    unfolding ota_dataReq_def t by (rule arg_cong [of _ _ "\<lambda>p. ota_send L TL_CMD_OTA_DATA_REQ p s3"]) simp
  with request_retry [OF t(1), of L TL_CMD_OTA_DATA_REQ "info\<lparr>imageSize := of_nat (Suc b)\<rparr>" "Some Cb_ota_dataReq"]
  obtain s' msg e where s': "ota_dataRspHandler E L pd s = Some s'" "timers_ok E s'"
      "same_app ((emit (McpsDataRequest msg (ota_cmd_bytes (g_tlAppDataSeqNo s3) TL_CMD_OTA_DATA_REQ (info\<lparr>imageSize := of_nat (Suc b)\<rparr>)))
        (s3\<lparr>g_tlAppDataSeqNo := g_tlAppDataSeqNo s3 + 1\<rparr>))\<lparr>ota_dataCb := Some Cb_ota_dataReq, ota_reqRetryCnt := 0, otaDataReqTimer := e\<rparr>) s'"
    unfolding s3(5) by auto
  note f = same_app_ota [OF s'(3)]
  have "receiving E wr prot file hs m0 info (Suc b) s'"
    by (rule receiving_cong [OF s3(1) s'(2)]) (use f in simp_all)
  then show ?thesis
    using s'(1) f s3(2-4) by (simp add: data_req_def)
qed

text \<open>The client that has verified the whole file and sent the stop request \<open>x\<close>.\<close>

definition verified ::
  "sdk_env \<Rightarrow> u16 \<Rightarrow> (u16 \<Rightarrow> addr \<Rightarrow> bool) \<Rightarrow> u8 list \<Rightarrow> nat \<Rightarrow> (addr \<Rightarrow> u8) \<Rightarrow> 'a ota_dev_scheme \<Rightarrow> bool" where
  "verified E wr prot file hs m0 s \<longleftrightarrow> timers_ok E s \<and> flash_ready s \<and> can_open wr prot s \<and> ota_state s = OTA_STA_END \<and>
     ota_dataCb s = Some Cb_ota_stopReq \<and> ota_headersize s = of_nat hs \<and> binInfo s = hdr_info file hs \<and>
     flash_at file hs m0 (length file) s"

definition stop_pay :: "u8 list \<Rightarrow> nat \<Rightarrow> ota_preamble_t" where
  "stop_pay file hs = (hdr_info file hs)\<lparr>imageSize := of_nat (length file)\<rparr>"

text \<open>The checksum read back from the flash is the one computed.\<close>

lemma stored_checksum:
  assumes "wf_file file hs" "flash_at file hs m0 (length file) s"
  shows "le32 (nth (fbytes (fmem_of s) (ota_base s + of_nat (length file) - of_nat hs - 4) 4)) 0 = image_crc file hs (length file - hs)"
proof -
  have w: "hs + 16 \<le> length file" "le32 (\<lambda>i. file ! (length file - 4 + i)) 0 = xcrc32 (take (length file - hs - 4) (drop hs file)) 0xffffffff"
    using assms(1) by (auto simp: wf_file_def)
  have a: "ota_base s + of_nat (length file) - of_nat hs - 4 = ota_base s + of_nat (length file - hs - 4)"
    using w(1) by (simp add: of_nat_diff)
  have "fmem_of s (ota_base s + of_nat (length file - hs - 4) + of_nat i) = file ! (length file - 4 + i)" if "i < 4" for i
  proof -
    define j where "j = length file - hs - 4 + i"
    have j: "j < length file - hs" "j \<noteq> 8" "hs + j = length file - 4 + i"
      using w(1) that by (auto simp: j_def)
    then have "fmem_of s (ota_base s + of_nat j) = file ! (length file - 4 + i)"
      using assms(2) by (simp add: flash_at_def stored_def img_byte_def)
    then show ?thesis
      by (simp only: j_def of_nat_add add.assoc)
  qed
  from this [of 0] this [of 1] this [of 2] this [of 3] show ?thesis
    using w(2) unfolding a by (simp add: le32_def fbytes_def image_crc_def numeral_2_eq_2 numeral_3_eq_3 upt_rec)
qed

lemma finish_ok:
  assumes nor: "nor_flash (bus E) wr prot" and wf: "wf_file file hs" and r: "receiving E wr prot file hs m0 info b s"
    and n: "length file \<le> OTA_FRAMESIZE * b" "imageSize info = of_nat (length file)"
  shows "\<exists>s' msg. ota_finish E L s = Some s' \<and> verified E wr prot file hs m0 s' \<and> mcuBootAddr s' = mcuBootAddr s \<and>
    outs s' = outs s @ [McpsDataRequest msg (ota_cmd_bytes (g_tlAppDataSeqNo s) TL_CMD_OTA_STOP_REQ (stop_pay file hs))]"
proof -
  have len: "62 \<le> hs" "hs < length file" "hs + 16 \<le> length file" "length file < 0x30000"
    using wf by (auto simp: wf_file_def)
  have s: "timers_ok E s" "flash_ready s" "can_open wr prot s" "dev_otaInfo s = info" "s = at_pos file hs (length file) s"
      "flash_at file hs m0 (length file) s"
    using r n(1) unfolding receiving_def Let_def by (simp_all add: min_absorb2)
  have f: "ota_headersize s = of_nat hs" "binInfo s = hdr_info file hs" "crcValue s = image_crc file hs (length file - hs)"
    using s(5) len hdr_info_hs [OF wf, of "length file"] unfolding at_pos_iff by auto
  have ub: "unat (ota_base s + of_nat (length file - hs - 4)) + 4 \<le> 2 ^ 24"
  proof -
    define j where "j = length file - hs - 4"
    have j: "j < 0x30000" "unat (ota_base s) \<le> 0x40000"
      using len by (auto simp: j_def ota_base_def FLASH_OTA_NEWIMAGE_ADDR_def)
    then have "unat (of_nat j :: addr) = j"
      by (simp add: unat_of_nat)
    with j show ?thesis
      unfolding j_def [symmetric] using unat_add_no_wrap [of "ota_base s" "of_nat j"] by simp
  qed
  have a: "ota_base s + of_nat (length file) - of_nat hs - 4 = ota_base s + of_nat (length file - hs - 4)"
    using len by (simp add: of_nat_diff)
  define t where "t = s\<lparr>ota_state := OTA_STA_END\<rparr>"
  have pay: "\<lparr>fileVer = fileVer (binInfo t), imageType = imageType (binInfo t), manufaurerCode = manufaurerCode (binInfo t),
      imageSize = imageSize (binInfo t) + ota_headersize t\<rparr> = stop_pay file hs"
    using unat_hdr_total [OF wf] by (simp add: t_def f stop_pay_def)
  have fin: "ota_finish E L s = (ota_send L TL_CMD_OTA_STOP_REQ (stop_pay file hs) t \<bind>
      (\<lambda>s4. ota_dataReqRetry E OTA_MAX_IMAGE_BLOCK_RSP_WAIT_TIME (s4\<lparr>ota_dataCb := Some Cb_ota_stopReq\<rparr>)))"
    using nor_flash.drv_read [OF nor ub, of "flash_of s"] stored_checksum [OF wf s(6)] f(3)
    unfolding ota_finish_def s(4) n(2) f(1) a ota_stopReq_def by (simp add: t_def [symmetric] pay)
  have "timers_ok E t"
    using s(1) by (simp add: t_def)
  from request_retry [OF this, of L TL_CMD_OTA_STOP_REQ "stop_pay file hs" "Some Cb_ota_stopReq"]
  obtain s' msg e where s': "ota_finish E L s = Some s'" "timers_ok E s'"
      "same_app ((emit (McpsDataRequest msg (ota_cmd_bytes (g_tlAppDataSeqNo t) TL_CMD_OTA_STOP_REQ (stop_pay file hs)))
        (t\<lparr>g_tlAppDataSeqNo := g_tlAppDataSeqNo t + 1\<rparr>))\<lparr>ota_dataCb := Some Cb_ota_stopReq, ota_reqRetryCnt := 0, otaDataReqTimer := e\<rparr>) s'"
    unfolding fin by blast
  note g = same_app_ota [OF s'(3)]
  have "can_open wr prot s' = can_open wr prot s" "flash_ready s' = flash_ready s"
      "flash_at file hs m0 (length file) s' = flash_at file hs m0 (length file) s"
    using g by (simp_all add: t_def can_open_def flash_ready_def flash_at_def ota_base_def split: option.split)
  then have "verified E wr prot file hs m0 s'"
    using s s'(2) g f by (simp add: verified_def t_def)
  then show ?thesis
    using s'(1) g by (auto simp: t_def)
qed

lemma dataRsp_last:
  assumes "nor_flash (bus E) wr prot" "wf_file file hs" "receiving E wr prot file hs m0 info b s" "data_rsp file info b pd"
    and "OTA_FRAMESIZE * b < length file" "length file \<le> OTA_FRAMESIZE * Suc b" "imageSize info = of_nat (length file)"
  shows "\<exists>s' msg. ota_dataRspHandler E L pd s = Some s' \<and> verified E wr prot file hs m0 s' \<and> mcuBootAddr s' = mcuBootAddr s \<and>
    outs s' = outs s @ [McpsDataRequest msg (ota_cmd_bytes (g_tlAppDataSeqNo s) TL_CMD_OTA_STOP_REQ (stop_pay file hs))]"
proof -
  have ge: "of_nat (min (OTA_FRAMESIZE * Suc b) (length file)) \<ge> imageSize info"
    unfolding assms(7) of_nat_file_le [OF assms(2)] by (rule assms(6))
  obtain s3 where s3: "receiving E wr prot file hs m0 info (Suc b) s3" "outs s3 = outs s" "mcuBootAddr s3 = mcuBootAddr s"
      "g_tlAppDataSeqNo s3 = g_tlAppDataSeqNo s" "ota_dataRspHandler E L pd s = ota_finish E L s3"
    using dataRsp_store [OF assms(1-5), of L] unfolding if_P [OF ge] by blast
  show ?thesis
    using finish_ok [OF assms(1,2) s3(1) assms(6,7), of L] s3(2-5) by simp
qed

text \<open>The responses to all requests, in order.\<close>

primrec data_run :: "sdk_env \<Rightarrow> tn_lib \<Rightarrow> (nat \<Rightarrow> u8) list \<Rightarrow> 'a ota_dev_scheme \<Rightarrow> 'a ota_dev_scheme option" where
  "data_run E L [] s = Some s"
| "data_run E L (pd # pds) s = do { (_, s1) \<leftarrow> tl_appDataIndicate E L pd s; data_run E L pds s1 }"

text \<open>A frame with application header and command \<open>c\<close>.\<close>

definition ota_frame :: "u8 \<Rightarrow> (nat \<Rightarrow> u8) \<Rightarrow> bool" where
  "ota_frame c pd \<longleftrightarrow> pd 0 = TL_SPECIFIC_ID_OTA \<and> pd 2 = c"

abbreviation payload :: "(nat \<Rightarrow> u8) \<Rightarrow> nat \<Rightarrow> u8" where
  "payload pd \<equiv> \<lambda>i. pd (i + 4)"

lemma indicate_data:
  "ota_frame TL_CMD_OTA_DATA_RSP pd \<Longrightarrow> ota_dataRspHandler E L (payload pd) s = Some s' \<Longrightarrow>
   tl_appDataIndicate E L pd s = Some (SUCCESS, s')"
  by (simp add: tl_appDataIndicate_def tl_appOtaCmdHandler_def ota_frame_def ota_cmd_defs)

lemma data_run_complete:
  assumes nor: "nor_flash (bus E) wr prot" and wf: "wf_file file hs" and info: "imageSize info = of_nat (length file)"
    and r: "receiving E wr prot file hs m0 info b s" "OTA_FRAMESIZE * b < length file"
    and pds: "\<forall>k < length pds. ota_frame TL_CMD_OTA_DATA_RSP (pds ! k) \<and> data_rsp file info (b + k) (payload (pds ! k))"
      "length file \<le> OTA_FRAMESIZE * (b + length pds)" "OTA_FRAMESIZE * (b + length pds) < length file + OTA_FRAMESIZE"
  shows "\<exists>s' reqs msg seq. data_run E L pds s = Some s' \<and> verified E wr prot file hs m0 s' \<and> mcuBootAddr s' = mcuBootAddr s \<and>
    length reqs + 1 = length pds \<and>
    outs s' = outs s @ reqs @ [McpsDataRequest msg (ota_cmd_bytes seq TL_CMD_OTA_STOP_REQ (stop_pay file hs))]"
  using r pds
proof (induction pds arbitrary: b s)
  case Nil
  then show ?case
    by simp
next
  case (Cons pd pds)
  have p: "ota_frame TL_CMD_OTA_DATA_RSP pd" "data_rsp file info b (payload pd)"
    using Cons.prems(3) by (metis add_0_right length_greater_0_conv list.distinct(1) nth_Cons_0)+
  have rest: "ota_frame TL_CMD_OTA_DATA_RSP (pds ! k) \<and> data_rsp file info (Suc b + k) (payload (pds ! k))" if "k < length pds" for k
    using Cons.prems(3) [rule_format, of "Suc k"] that by simp
  show ?case
  proof (cases "OTA_FRAMESIZE * Suc b < length file")
    case True
    obtain s1 x where s1: "ota_dataRspHandler E L (payload pd) s = Some s1" "receiving E wr prot file hs m0 info (Suc b) s1"
        "outs s1 = outs s @ [x]" "mcuBootAddr s1 = mcuBootAddr s"
      using dataRsp_more [OF nor wf Cons.prems(1) p(2) True info, of L] by blast
    have "\<exists>s' reqs msg seq. data_run E L pds s1 = Some s' \<and> verified E wr prot file hs m0 s' \<and> mcuBootAddr s' = mcuBootAddr s1 \<and>
        length reqs + 1 = length pds \<and>
        outs s' = outs s1 @ reqs @ [McpsDataRequest msg (ota_cmd_bytes seq TL_CMD_OTA_STOP_REQ (stop_pay file hs))]"
      by (rule Cons.IH [OF s1(2) True]) (use rest Cons.prems(4,5) in auto)
    then obtain s' reqs msg seq where "data_run E L pds s1 = Some s'" "verified E wr prot file hs m0 s'" "mcuBootAddr s' = mcuBootAddr s1"
        "length reqs + 1 = length pds"
        "outs s' = outs s1 @ reqs @ [McpsDataRequest msg (ota_cmd_bytes seq TL_CMD_OTA_STOP_REQ (stop_pay file hs))]"
      by blast
    then show ?thesis
      using indicate_data [OF p(1) s1(1)] s1(3,4)
      by (intro exI [of _ s'] exI [of _ "x # reqs"] exI [of _ msg] exI [of _ seq]) simp
  next
    case False
    have "pds = []"
      using False Cons.prems(5) by (cases pds) (auto simp: OTA_FRAMESIZE_def)
    moreover obtain s' msg where "ota_dataRspHandler E L (payload pd) s = Some s'" "verified E wr prot file hs m0 s'" "mcuBootAddr s' = mcuBootAddr s"
        "outs s' = outs s @ [McpsDataRequest msg (ota_cmd_bytes (g_tlAppDataSeqNo s) TL_CMD_OTA_STOP_REQ (stop_pay file hs))]"
      using dataRsp_last [OF nor wf Cons.prems(1) p(2) Cons.prems(2) _ info, of L] False by fastforce
    ultimately show ?thesis
      using indicate_data [OF p(1), of E L s s'] by auto
  qed
qed

section \<open>The whole upgrade\<close>

text \<open>The client before an upgrade, as \<^verbatim>\<open>ota_queryStart\<close> leaves it after power-on.\<close>

definition fresh :: "'a ota_dev_scheme \<Rightarrow> bool" where
  "fresh s \<longleftrightarrow> ota_state s = OTA_STA_IDLE \<and> ota_headercnt s = 0 \<and> ota_headersize s = 0 \<and> binInfo s = preamble_zero \<and>
     flashOffsetAddr s = 0 \<and> crcValue s = 0xffffffff \<and> blockDataCount s = 0"

text \<open>The flash after the sectors of the image area are erased.\<close>

definition erased_area :: "ota_preamble_t \<Rightarrow> 'a ota_dev_scheme \<Rightarrow> addr \<Rightarrow> u8" where
  "erased_area info s = wiped (fmem_of s) (unat (ota_base s)) (unat (ota_base s) + 4096 * image_sectors info)"

text \<open>
  The image area can be made blank by the start response: its sectors are not write protected, or they are
  blank already, as in a device that has not been upgraded before. The start response does not unlock the flash
  that \<^verbatim>\<open>drv_platform_init\<close> has locked.
\<close>

definition area_ready :: "(u16 \<Rightarrow> addr \<Rightarrow> bool) \<Rightarrow> ota_preamble_t \<Rightarrow> 'a ota_dev_scheme \<Rightarrow> bool" where
  "area_ready prot info s \<longleftrightarrow>
     (\<forall>i < image_sectors info. \<not> prot (fstat (fp_chip (fl s))) (ota_base s + of_nat i * FLASH_SECTOR_SIZE)) \<or>
     (\<forall>x. unat (ota_base s) \<le> unat x \<and> unat x < unat (ota_base s) + 4096 * image_sectors info \<longrightarrow> fmem_of s x = 0xFF)"

lemma start_erased:
  assumes nor: "nor_flash (bus E) wr prot" and s: "timers_ok E s" "flash_ready s" "ota_state s = OTA_STA_IDLE"
    and acc: "start_accepted (preamble_at pd)" and ar: "area_ready prot (preamble_at pd) s"
  shows "\<exists>s' msg. ota_startRspHandler E L pd s = Some s' \<and> timers_ok E s' \<and> ota_state s' = OTA_STA_STARTING \<and>
    dev_otaInfo s' = preamble_at pd \<and> g_tlAppDataSeqNo s' = g_tlAppDataSeqNo s + 1 \<and>
    outs s' = outs s @ [McpsDataRequest msg (ota_cmd_bytes (g_tlAppDataSeqNo s) TL_CMD_OTA_DATA_REQ
      ((preamble_at pd)\<lparr>imageSize := blockDataCount s\<rparr>))] \<and>
    fl s' = (fl s)\<lparr>fp_chip := (fp_chip (fl s))\<lparr>fmem := erased_area (preamble_at pd) s\<rparr>\<rparr> \<and>
    ota_headercnt s' = ota_headercnt s \<and> ota_headersize s' = ota_headersize s \<and> crcValue s' = crcValue s \<and>
    flashOffsetAddr s' = flashOffsetAddr s \<and> binInfo s' = binInfo s \<and> blockDataCount s' = blockDataCount s \<and>
    mcuBootAddr s' = mcuBootAddr s \<and> ota_dataCb s' = Some Cb_ota_dataReq \<and> ota_reqRetryCnt s' = 0"
proof (cases "\<forall>i < image_sectors (preamble_at pd). \<not> prot (fstat (fp_chip (fl s))) (ota_base s + of_nat i * FLASH_SECTOR_SIZE)")
  case True
  then show ?thesis
    using startRsp_eq [OF nor s acc, of False L, folded erased_area_def] by simp
next
  case False
  let ?p = "preamble_at pd"
  let ?n = "ucast (imageSize ?p div FLASH_SECTOR_SIZE + 1) :: u16" and ?s1 = "s\<lparr>dev_otaInfo := ?p\<rparr>"
  have n: "unat ?n = image_sectors ?p" "image_sectors ?p \<le> 48"
    using unat_sectors [OF acc] by auto
  define q where "q = (if mcuBootAddr s \<noteq> 0 then 0 else 64 :: nat)"
  have b: "unat (ota_base s) = 4096 * q" "4096 * (q + unat ?n) \<le> 2 ^ 24"
    using n by (simp_all add: ota_base_def FLASH_OTA_NEWIMAGE_ADDR_def q_def)
  have blank: "\<forall>x. 4096 * q \<le> unat x \<and> unat x < 4096 * (q + unat ?n) \<longrightarrow> fmem_of s x = 0xFF"
    using False ar n(1) b(1) by (auto simp: area_ready_def add_mult_distrib2)
  then have m: "erased_area ?p s = fmem_of s"
    using n(1) b(1) by (auto simp: erased_area_def wiped_def fun_eq_iff add_mult_distrib2)
  have "erase_sectors E (ota_base s) ?n ?s1 = ?s1"
    by (rule erase_sectors_blank [OF nor _ b]) (use s(2) blank in \<open>simp_all add: flash_ready_def\<close>)
  then have "erase_sectors E (ota_base s) ?n ?s1 = set_chip ((fp_chip (fl s))\<lparr>fmem := erased_area ?p s\<rparr>) ?s1"
    unfolding m by (simp add: set_chip_def)
  from startRsp_frame [OF s(1,3) acc this] show ?thesis .
qed

lemma start_receiving:
  assumes nor: "nor_flash (bus E) wr prot" and wf: "wf_file file hs" and s: "timers_ok E s" "flash_ready s" "can_open wr prot s" "fresh s"
    and info: "preamble_at pd = info" "start_accepted info" "imageSize info = of_nat (length file)"
    and pr: "area_ready prot info s"
  shows "\<exists>s' msg. ota_startRspHandler E L pd s = Some s' \<and> receiving E wr prot file hs (erased_area info s) info 0 s' \<and>
    mcuBootAddr s' = mcuBootAddr s \<and> g_tlAppDataSeqNo s' = g_tlAppDataSeqNo s + 1 \<and>
    outs s' = outs s @ [McpsDataRequest msg (data_req (g_tlAppDataSeqNo s) info 0)]"
proof -
  have len: "length file < 0x30000" "62 \<le> hs"
    using wf by (auto simp: wf_file_def)
  then have ul: "unat (of_nat (length file) :: u32) = length file"
    by (simp add: unat_of_nat)
  have idle: "ota_state s = OTA_STA_IDLE" and acc: "start_accepted (preamble_at pd)"
    using s(4) info by (simp_all add: fresh_def)
  from start_erased [OF nor s(1,2) idle acc pr [folded info(1)], of L]
  obtain s' msg where s': "ota_startRspHandler E L pd s = Some s'" "timers_ok E s'" "ota_state s' = OTA_STA_STARTING" "dev_otaInfo s' = info"
      "outs s' = outs s @ [McpsDataRequest msg (data_req (g_tlAppDataSeqNo s) info 0)]" "fl s' = (fl s)\<lparr>fp_chip := (fp_chip (fl s))\<lparr>fmem := erased_area info s\<rparr>\<rparr>"
      "ota_headercnt s' = 0" "ota_headersize s' = 0" "crcValue s' = 0xffffffff" "flashOffsetAddr s' = 0" "binInfo s' = preamble_zero"
      "blockDataCount s' = 0" "mcuBootAddr s' = mcuBootAddr s"
      "g_tlAppDataSeqNo s' = g_tlAppDataSeqNo s + 1"
    using s(4) unfolding info(1) fresh_def data_req_def by auto
  have "s' = at_pos file hs 0 s'"
    using s' by (simp add: at_pos_iff hdr_info_def preamble_zero_def image_crc_def)
  moreover have "erased_area info s (ota_base s + of_nat j) = 0xFF" if "j < length file - hs" for j
  proof -
    have "unat (of_nat j :: addr) = j" "unat (ota_base s) \<le> 0x40000" "j < 4096 * image_sectors info"
      using that len info(3) ul by (simp_all add: unat_of_nat ota_base_def FLASH_OTA_NEWIMAGE_ADDR_def image_sectors_def)
    then show ?thesis
      using unat_add_no_wrap [of "ota_base s" "of_nat j"] that len by (simp add: erased_area_def wiped_def)
  qed
  then have "flash_at file hs (erased_area info s) 0 s'"
    using s'(6,13) by (simp add: flash_at_def stored_def ota_base_def)
  moreover have "flash_ready s' = flash_ready s" "can_open wr prot s' = can_open wr prot s"
    using s'(6) by (simp_all add: flash_ready_def can_open_def split: option.split)
  ultimately show ?thesis
    using s' s(2,3) by (auto simp: receiving_def)
qed

lemma stop_reboots:
  assumes nor: "nor_flash (bus E) wr prot" and wf: "wf_file file hs" and v: "verified E wr prot file hs m0 s"
    and p: "preamble_at pd = stop_pay file hs"
  defines "old \<equiv> if mcuBootAddr s \<noteq> 0 then FLASH_OTA_NEWIMAGE_ADDR else 0"
  shows "\<exists>s'. ota_stopRspHandler E pd s = Some s' \<and> outs s' = outs s @ [SystemReset] \<and>
    (\<forall>j < length file - hs. fmem_of s' (ota_base s + of_nat j) = file ! (hs + j)) \<and> fmem_of s' (old + 8) = 0 \<and>
    (\<forall>x. length file - hs \<le> unat (x - ota_base s) \<longrightarrow> x \<noteq> old + 8 \<longrightarrow> fmem_of s' x = m0 x)"
proof -
  have len: "length file < 0x30000" "62 \<le> hs" "8 < length file - hs" "file ! (hs + 8) = 0x4b"
    using wf by (auto simp: wf_file_def)
  have vs: "flash_ready s" "can_open wr prot s" "ota_state s = OTA_STA_END" "ota_headersize s = of_nat hs" "binInfo s = hdr_info file hs"
      "flash_at file hs m0 (length file) s"
    using v by (simp_all add: verified_def)
  define t where "t = s\<lparr>ota_state := OTA_STA_IDLE\<rparr>"
  have t: "flash_ready t" "can_open wr prot t" "ota_base t = ota_base s" "mcuBootAddr t = mcuBootAddr s" "fl t = fl s" "outs t = outs s"
    using vs fl_cong [of t s] by (simp_all add: t_def ota_base_def)
  have h: "ota_stopRspHandler E pd s = Some (ota_mcuReboot E t)"
    using vs p unat_hdr_total [OF wf] by (simp add: ota_stopRspHandler_def stop_pay_def t_def)
  note rb = reboot_eq [OF nor t(2,1), unfolded t(3-6), folded old_def]
  have st: "fmem_of s (ota_base s + of_nat j) = img_byte file hs j" if "j < length file - hs" for j
    using vs(6) that by (simp add: flash_at_def stored_def)
  have neq: "ota_base s + of_nat j \<noteq> old + 8" if "j < length file - hs" for j
  proof -
    have "unat (of_nat j :: addr) = j" "j < 0x30000"
      using that len(1) by (simp_all add: unat_of_nat)
    then show ?thesis
      using unat_add_no_wrap [of "ota_base s" "of_nat j"]
      by (auto simp: old_def ota_base_def FLASH_OTA_NEWIMAGE_ADDR_def word_unat_eq_iff split: if_splits)
  qed
  have eight: "ota_base s + of_nat j = ota_base s + 8 \<longleftrightarrow> j = 8" if "j < length file - hs" for j
    using of_nat_u32_eq [of j 8] that len(1) by simp
  have b8: "fmem_of s (ota_base s + 8) AND 0x4b = 0x4b"
    using st [OF len(3)] by (simp add: img_byte_def)
  have "x \<noteq> ota_base s + 8" if "length file - hs \<le> unat (x - ota_base s)" for x
    using that len(3) by auto
  then show ?thesis
    using rb neq eight st b8 len(4) vs(6) unfolding h by (auto simp: img_byte_def flash_at_def)
qed

section \<open>Frames as byte lists\<close>

lemma le32_bytes [simp]: "le32 (nth (bytes32 w @ xs)) 0 = w"
  by (simp add: le32_def bytes32_def) (rule bit_word_eqI, auto simp: bit_simps not_less, rule ccontr, simp)

lemma le16_bytes [simp]: "le16 (nth (bytes16 w @ xs)) 0 = w"
  unfolding le16_def bytes16_def by (rule bit_word_eqI) (auto simp: bit_simps)

lemma le_shift: "le32 f n = le32 (\<lambda>i. f (i + n)) 0" "le16 f n = le16 (\<lambda>i. f (i + n)) 0"
  by (simp_all add: le32_def le16_def add.commute)

lemma length_bytes [simp]: "length (bytes32 w) = 4" "length (bytes16 h) = 2" "length (preamble_bytes p) = 12"
  by (simp_all add: bytes32_def bytes16_def preamble_bytes_def)

text \<open>Memory that begins with the bytes \<open>xs\<close>.\<close>

definition starts_with :: "u8 list \<Rightarrow> (nat \<Rightarrow> u8) \<Rightarrow> bool" where
  "starts_with xs pd \<longleftrightarrow> (\<forall>i < length xs. pd i = xs ! i)"

lemma starts_with_append:
  "starts_with (xs @ ys) pd \<longleftrightarrow> starts_with xs pd \<and> starts_with ys (\<lambda>i. pd (i + length xs))"
proof -
  have "(\<forall>i < n + m. P i) \<longleftrightarrow> (\<forall>i < n. P i) \<and> (\<forall>i < m. P (i + n))" for n m :: nat and P
    by (auto, metis add.commute add_diff_inverse_nat nat_add_left_cancel_less)
  then show ?thesis
    by (simp add: starts_with_def nth_append)
qed

lemma starts_with_Cons: "starts_with (x # xs) pd \<longleftrightarrow> pd 0 = x \<and> starts_with xs (\<lambda>i. pd (i + 1))"
  using starts_with_append [of "[x]" xs pd] by (simp add: starts_with_def)

lemma starts_le:
  "starts_with (bytes32 w) pd \<Longrightarrow> le32 pd 0 = w" "starts_with (bytes16 h) pd \<Longrightarrow> le16 pd 0 = h"
  using le32_bytes [of w "[]"] le16_bytes [of h "[]"] by (simp_all add: starts_with_def le32_def le16_def)

lemma preamble_parse: "starts_with (preamble_bytes p) pd \<Longrightarrow> preamble_at pd = p"
  using starts_le le_shift(1) [of pd 8] le_shift(2) [of pd 4] le_shift(2) [of pd 6]
  by (simp add: preamble_bytes_def starts_with_append preamble_at_def ac_simps)

lemma erased_area_beyond:
  assumes "start_accepted info" "imageSize info = of_nat n" "4096 * image_sectors info \<le> unat (x - ota_base s)"
  shows "erased_area info s x = fmem_of s x" "n < 0x30000 \<Longrightarrow> n < 4096 * image_sectors info"
proof -
  have u: "unat (x - ota_base s) = unat x - unat (ota_base s)" if "unat (ota_base s) \<le> unat x"
    using unat_sub_no_wrap [of "ota_base s" x] that by (simp add: word_le_nat_alt)
  then show "erased_area info s x = fmem_of s x"
    using assms(3) by (auto simp: erased_area_def wiped_def)
  show "n < 0x30000 \<Longrightarrow> n < 4096 * image_sectors info"
    using assms(2) by (simp add: image_sectors_def unat_of_nat)
qed

section \<open>A second upgrade\<close>

text \<open>Where a failure leads: everything is reset but the header counter and the header size.\<close>

lemma abort_idle:
  assumes "timers_ok E s"
  shows "\<exists>s'. ota_abort E s = Some s' \<and> ota_state s' = OTA_STA_IDLE \<and> dev_otaInfo s' = preamble_zero \<and> blockDataCount s' = 0 \<and>
    flashOffsetAddr s' = 0 \<and> ota_headercnt s' = ota_headercnt s \<and> ota_headersize s' = ota_headersize s \<and>
    timers_ok E s' \<and> fl s' = fl s \<and> binInfo s' = preamble_zero \<and> crcValue s' = 0xffffffff"
proof -
  have "timers_ok E (s\<lparr>ota_state := OTA_STA_IDLE\<rparr>)"
    using assms by simp
  then obtain s1 e where s1: "cancel_dataReq E (s\<lparr>ota_state := OTA_STA_IDLE\<rparr>) = Some s1" "timers_ok E s1"
      "same_app (s\<lparr>ota_state := OTA_STA_IDLE, otaDataReqTimer := e\<rparr>) s1"
    using cancelReq_ok by blast
  obtain s2 where s2: "ota_queryStart E QUERY_RATE s1 = Some s2" "timers_ok E s2"
      "same_app ((ota_init E s1)\<lparr>ota_state := OTA_STA_IDLE\<rparr>) s2"
    using queryStart_ok [OF s1(2)] by blast
  obtain s3 p where s3: "mac_set_pollRate E NORMAL_POLL_RATE s2 = Some s3" "same_app (s2\<lparr>PollDataTimer := p\<rparr>) s3" "timers_ok E s3"
    using pollRate_ok [OF s2(2)] by blast
  show ?thesis
    using s1(1) s2(1) s3(1,3) same_app_ota [OF s3(2)] same_app_ota [OF s2(3)] same_app_ota [OF s1(3)]
    by (simp add: ota_abort_def ota_init_eq)
qed

text \<open>A client whose header counter is past the header of an earlier file.\<close>

definition stale :: "'a ota_dev_scheme \<Rightarrow> bool" where
  "stale s \<longleftrightarrow> 62 \<le> unat (ota_headercnt s) \<and> unat (ota_headersize s) < unat (ota_headercnt s)"

lemma stale_byte:
  assumes "stale s"
  shows "header_byte pData i s = s"
proof -
  have "ota_headercnt s \<noteq> of_nat k" if "k < 62" for k
    using assms that by (auto simp: stale_def unat_of_nat)
  from this [of 6] this [of 10] this [of 12] this [of 14] this [of 58] show ?thesis
    using assms by (auto simp: header_byte_def ota_head_defs stale_def)
qed

lemma stale_loop:
  assumes "stale s" "unat (ota_headercnt s) + n < 2 ^ 32" "ota_state s = OTA_STA_STARTING"
  shows "header_loop pData n i s = (i + n, s\<lparr>ota_headercnt := ota_headercnt s + of_nat n\<rparr>)"
  using assms
proof (induction n arbitrary: i s)
  case (Suc n)
  let ?s = "s\<lparr>ota_headercnt := ota_headercnt s + 1\<rparr>"
  have u: "unat (ota_headercnt s + 1) = unat (ota_headercnt s) + 1"
    using unat_inc_no_wrap [of "ota_headercnt s"] Suc.prems(2) by simp
  then have "stale ?s"
    using Suc.prems(1) by (simp add: stale_def)
  then have "header_loop pData n (Suc i) ?s = (Suc i + n, ?s\<lparr>ota_headercnt := ota_headercnt ?s + of_nat n\<rparr>)"
    by (rule Suc.IH) (use u Suc.prems in simp_all)
  then show ?case
    using stale_byte [OF Suc.prems(1), of pData i] Suc.prems(3) by (simp add: Let_def add.assoc)
qed simp

text \<open>
  A client in a second upgrade that skips what it receives: it has consumed \<open>k\<close> blocks, its counter is \<open>cnt\<close>, past
  the header of the earlier file, and its flash still holds \<open>m\<close>.
\<close>

definition skipping ::
  "sdk_env \<Rightarrow> u16 \<Rightarrow> (u16 \<Rightarrow> addr \<Rightarrow> bool) \<Rightarrow> ota_preamble_t \<Rightarrow> (addr \<Rightarrow> u8) \<Rightarrow> nat \<Rightarrow> nat \<Rightarrow> 'a ota_dev_scheme \<Rightarrow> bool" where
  "skipping E wr prot info m k cnt s \<longleftrightarrow>
     timers_ok E s \<and> flash_ready s \<and> can_open wr prot s \<and> ota_state s = OTA_STA_STARTING \<and> dev_otaInfo s = info \<and>
     blockDataCount s = of_nat k \<and> ota_headercnt s = of_nat cnt \<and> stale s \<and> fmem_of s = m \<and>
     binInfo s = preamble_zero \<and> flashOffsetAddr s = 0 \<and> crcValue s = 0xffffffff"

text \<open>A data response of that upgrade: the number of the block, and some bytes.\<close>

definition some_block :: "ota_preamble_t \<Rightarrow> nat \<Rightarrow> (nat \<Rightarrow> u8) \<Rightarrow> bool" where
  "some_block info k pd \<longleftrightarrow> ota_frame TL_CMD_OTA_DATA_RSP pd \<and> preamble_at (payload pd) = info\<lparr>imageSize := of_nat k\<rparr> \<and> pd 16 \<noteq> 0"

lemma skip_block:
  assumes nor: "nor_flash (bus E) wr prot" and s: "skipping E wr prot info m k cnt s" and pd: "some_block info k pd"
    and lt: "cnt + unat (pd 16) < unat (imageSize info)"
  shows "\<exists>s'. tl_appDataIndicate E L pd s = Some (SUCCESS, s') \<and> skipping E wr prot info m (Suc k) (cnt + unat (pd 16)) s'"
proof -
  let ?len = "unat (pd 16)"
  have f: "timers_ok E s" "flash_ready s" "can_open wr prot s" "ota_state s = OTA_STA_STARTING" "dev_otaInfo s = info"
      "blockDataCount s = of_nat k" "ota_headercnt s = of_nat cnt" "stale s" "fmem_of s = m" "binInfo s = preamble_zero"
      "flashOffsetAddr s = 0" "crcValue s = 0xffffffff"
    using s by (simp_all add: skipping_def)
  have big: "cnt + ?len < 2 ^ 32"
    using lt unsigned_less [of "imageSize info", where 'a = nat] by simp
  then have c: "unat (of_nat cnt :: u32) = cnt" "unat (of_nat (cnt + ?len) :: u32) = cnt + ?len"
    by (simp_all add: unat_of_nat del: of_nat_add)
  obtain st l where u: "on_flash (flash_unlock (bus E)) s = set_stat st l s" "can_open wr prot (set_stat st l s)"
    using unlock_opens [OF nor f(3)] f(2) by (auto simp: flash_ready_def)
  define s0 where "s0 = set_stat st l s"
  define s1 where "s1 = s0\<lparr>ota_headercnt := of_nat (cnt + ?len)\<rparr>"
  have dp: "ota_DataProcess E (pd 16) (\<lambda>i. pd (17 + i)) s0 = Some (\<lambda>i. pd (17 + i), s1)"
    using stale_loop [of s0 ?len "\<lambda>i. pd (17 + i)" 0] f(4,7,8) big c(1)
    by (simp add: ota_DataProcess_def s0_def s1_def stale_def)
  have "can_open wr prot s1" using u(2) fl_cong(1) [of s1 s0] by (simp add: s1_def s0_def)
  moreover have "\<not> wel (fp_chip (fl s1))" using f(2) by (simp add: s1_def s0_def flash_ready_def set_stat_def)
  ultimately obtain st' l' where k': "on_flash (flash_lock (bus E)) s1 = set_stat st' l' s1" "can_open wr prot (set_stat st' l' s1)"
    using lock_closes [OF nor] by blast
  define s3 where "s3 = (set_stat st' l' s1)\<lparr>blockDataCount := of_nat (Suc k)\<rparr>"
  have t3: "timers_ok E s3" using f(1) by (simp add: s3_def s1_def s0_def)
  have go: "\<not> imageSize info \<le> ota_headercnt s3"
    using lt c(2) by (simp add: s3_def s1_def word_le_nat_alt del: of_nat_add)
  have rq: "ota_dataReq L s3 = ota_send L TL_CMD_OTA_DATA_REQ (info\<lparr>imageSize := of_nat (Suc k)\<rparr>) s3"
    unfolding ota_dataReq_def by (rule arg_cong [of _ _ "\<lambda>p. ota_send L TL_CMD_OTA_DATA_REQ p s3"])
      (simp add: s3_def s1_def s0_def f(5) del: of_nat_Suc)
  obtain s' msg e where s': "(ota_dataReq L s3 \<bind> (\<lambda>s4. ota_dataReqRetry E OTA_MAX_IMAGE_BLOCK_RSP_WAIT_TIME
        (s4\<lparr>ota_dataCb := Some Cb_ota_dataReq\<rparr>))) = Some s'" "timers_ok E s'"
      "same_app ((emit (McpsDataRequest msg (ota_cmd_bytes (g_tlAppDataSeqNo s3) TL_CMD_OTA_DATA_REQ (info\<lparr>imageSize := of_nat (Suc k)\<rparr>)))
        (s3\<lparr>g_tlAppDataSeqNo := g_tlAppDataSeqNo s3 + 1\<rparr>))\<lparr>ota_dataCb := Some Cb_ota_dataReq, ota_reqRetryCnt := 0, otaDataReqTimer := e\<rparr>) s'"
    using request_retry [OF t3] unfolding rq by blast
  note g = same_app_ota [OF s'(3)]
  have "ota_frame TL_CMD_OTA_DATA_RSP pd" using pd by (simp add: some_block_def)
  moreover have "ota_dataRspHandler E L (payload pd) s = Some s'"
    using f(4-6) pd u(1) dp k'(1) go s'(1)
    by (simp add: ota_dataRspHandler_def some_block_def s0_def [symmetric] s3_def [symmetric])
      (simp add: s3_def s1_def s0_def Let_def add.commute)
  moreover have "skipping E wr prot info m (Suc k) (cnt + ?len) s'"
  proof -
    have fl': "fl s' = fl (set_stat st' l' s1)" using g by (simp add: s3_def)
    have "flash_ready s'" "can_open wr prot s'"
      using fl_cong [OF fl'] k'(2) f(2) by (simp_all add: s1_def s0_def flash_ready_def set_stat_def)
    moreover have "stale s'"
      using f(7,8) c g by (simp add: stale_def s3_def s1_def s0_def del: of_nat_add)
    ultimately show ?thesis
      using s'(2) g f by (simp add: skipping_def s3_def s1_def s0_def)
  qed
  ultimately show ?thesis
    using indicate_data by blast
qed

lemma skip_run:
  assumes nor: "nor_flash (bus E) wr prot" and s: "skipping E wr prot info m k cnt s"
    and pds: "\<forall>j < length pds. some_block info (k + j) (pds ! j)"
      "cnt + sum_list (map (\<lambda>pd. unat (pd 16)) pds) < unat (imageSize info)"
  shows "\<exists>s'. data_run E L pds s = Some s' \<and>
    skipping E wr prot info m (k + length pds) (cnt + sum_list (map (\<lambda>pd. unat (pd 16)) pds)) s'"
  using s pds
proof (induction pds arbitrary: k cnt s)
  case (Cons pd pds)
  obtain s1 where s1: "tl_appDataIndicate E L pd s = Some (SUCCESS, s1)" "skipping E wr prot info m (Suc k) (cnt + unat (pd 16)) s1"
    using skip_block [OF nor Cons.prems(1), of pd L] Cons.prems(2) [rule_format, of 0] Cons.prems(3) by auto
  have "\<forall>j < length pds. some_block info (Suc k + j) (pds ! j)"
    using Cons.prems(2) by (auto dest: spec [of _ "Suc _"])
  then show ?case
    using Cons.IH [OF s1(2)] Cons.prems(3) s1(1) by (simp add: add.assoc)
qed simp

text \<open>The blocks of a file up to the one before the last.\<close>

lemma data_run_partial:
  assumes nor: "nor_flash (bus E) wr prot" and wf: "wf_file file hs" and info: "imageSize info = of_nat (length file)"
    and r: "receiving E wr prot file hs m0 info b s"
    and pds: "\<forall>k < length pds. ota_frame TL_CMD_OTA_DATA_RSP (pds ! k) \<and> data_rsp file info (b + k) (payload (pds ! k))"
      "OTA_FRAMESIZE * (b + length pds) < length file"
  shows "\<exists>s'. data_run E L pds s = Some s' \<and> receiving E wr prot file hs m0 info (b + length pds) s'"
  using r pds
proof (induction pds arbitrary: b s)
  case (Cons pd pds)
  have p: "ota_frame TL_CMD_OTA_DATA_RSP pd" "data_rsp file info b (payload pd)"
    using Cons.prems(2) [rule_format, of 0] by simp_all
  have "OTA_FRAMESIZE * Suc b < length file" using Cons.prems(3) by (simp add: OTA_FRAMESIZE_def)
  then obtain s1 where s1: "ota_dataRspHandler E L (payload pd) s = Some s1" "receiving E wr prot file hs m0 info (Suc b) s1"
    using dataRsp_more [OF nor wf Cons.prems(1) p(2) _ info, of L] by blast
  have "\<forall>k < length pds. ota_frame TL_CMD_OTA_DATA_RSP (pds ! k) \<and> data_rsp file info (Suc b + k) (payload (pds ! k))"
    using Cons.prems(2) by (auto dest: spec [of _ "Suc _"])
  then show ?case
    using Cons.IH [OF s1(2)] Cons.prems(3) indicate_data [OF p(1) s1(1)] by simp
qed simp

section \<open>Properties\<close>

lemma data_run_append: "data_run E L (xs @ ys) s = data_run E L xs s \<bind> data_run E L ys"
  by (induction xs arbitrary: s) (simp_all add: split_def Option.bind_assoc)

lemma indicate_ends:
  "ota_frame TL_CMD_OTA_START_RSP pd \<Longrightarrow> ota_startRspHandler E L (payload pd) s = Some s' \<Longrightarrow>
   tl_appDataIndicate E L pd s = Some (SUCCESS, s')"
  "ota_frame TL_CMD_OTA_STOP_RSP pd \<Longrightarrow> ota_stopRspHandler E (payload pd) s = Some s' \<Longrightarrow>
   tl_appDataIndicate E L pd s = Some (SUCCESS, s')"
  by (simp_all add: tl_appDataIndicate_def tl_appOtaCmdHandler_def ota_frame_def ota_cmd_defs)

text \<open>The responses of one upgrade: the start response, one data response per block, the stop response.\<close>

definition upgrade_frames ::
  "u8 list \<Rightarrow> nat \<Rightarrow> ota_preamble_t \<Rightarrow> (nat \<Rightarrow> u8) \<Rightarrow> (nat \<Rightarrow> u8) list \<Rightarrow> (nat \<Rightarrow> u8) \<Rightarrow> bool" where
  "upgrade_frames file hs info start pds stop \<longleftrightarrow>
     ota_frame TL_CMD_OTA_START_RSP start \<and> preamble_at (payload start) = info \<and>
     length pds = (length file + OTA_FRAMESIZE - 1) div OTA_FRAMESIZE \<and>
     (\<forall>k < length pds. ota_frame TL_CMD_OTA_DATA_RSP (pds ! k) \<and> data_rsp file info k (payload (pds ! k))) \<and>
     ota_frame TL_CMD_OTA_STOP_RSP stop \<and> preamble_at (payload stop) = stop_pay file hs"

lemma blocks_cover:
  "n \<le> OTA_FRAMESIZE * ((n + OTA_FRAMESIZE - 1) div OTA_FRAMESIZE)"
  "OTA_FRAMESIZE * ((n + OTA_FRAMESIZE - 1) div OTA_FRAMESIZE) < n + OTA_FRAMESIZE"
proof -
  have "48 * ((n + 47) div 48) + (n + 47) mod 48 = n + 47" "(n + 47) mod 48 < 48"
    by simp_all
  then show "n \<le> OTA_FRAMESIZE * ((n + OTA_FRAMESIZE - 1) div OTA_FRAMESIZE)"
    "OTA_FRAMESIZE * ((n + OTA_FRAMESIZE - 1) div OTA_FRAMESIZE) < n + OTA_FRAMESIZE"
    unfolding OTA_FRAMESIZE_def by simp_all
qed

text \<open>
  C2. A complete upgrade installs the new image. A client that has just been powered on and whose image area can
  be written receives the start response, the blocks of a well-formed upgrade file in order and the
  stop response: it returns from every frame, the image area holds exactly the image of the file, with its boot
  flag set, the boot flag of the running image is cleared, no other byte outside the erased sectors has
  changed, the chip is reset, and the boot address read after the reset is the other one.
\<close>

theorem ota_upgrade_complete:
  assumes "nor_flash (bus E) wr prot" "wf_file file hs" "timers_ok E s" "flash_ready s" "can_open wr prot s" "fresh s"
    and "start_accepted info" "imageSize info = of_nat (length file)" "upgrade_frames file hs info start pds stop"
    and "\<forall>i < image_sectors info. \<not> prot (fstat (fp_chip (fl s))) (ota_base s + of_nat i * FLASH_SECTOR_SIZE)"
  defines "old \<equiv> if mcuBootAddr s \<noteq> 0 then FLASH_OTA_NEWIMAGE_ADDR else 0"
  shows "\<exists>s'. data_run E L (start # pds @ [stop]) s = Some s' \<and> last (outs s') = SystemReset \<and>
    (\<forall>j < length file - hs. fmem_of s' (ota_base s + of_nat j) = file ! (hs + j)) \<and> fmem_of s' (old + 8) = 0 \<and>
    (\<forall>x. 4096 * image_sectors info \<le> unat (x - ota_base s) \<longrightarrow> x \<noteq> old + 8 \<longrightarrow> fmem_of s' x = fmem_of s x) \<and>
    fst (mcuBootAddrGet E s') = (if mcuBootAddr s = 0 then 1 else 0)"
proof -
  have len: "length file < 0x30000" "78 \<le> length file" "hs + 16 \<le> length file" "62 \<le> hs" "file ! (hs + 8) = 0x4b"
    using assms(2) by (auto simp: wf_file_def)
  have fr: "ota_frame TL_CMD_OTA_START_RSP start" "preamble_at (payload start) = info"
      "\<forall>k < length pds. ota_frame TL_CMD_OTA_DATA_RSP (pds ! k) \<and> data_rsp file info (0 + k) (payload (pds ! k))"
      "ota_frame TL_CMD_OTA_STOP_RSP stop" "preamble_at (payload stop) = stop_pay file hs"
      "length pds = (length file + OTA_FRAMESIZE - 1) div OTA_FRAMESIZE"
    using assms(9) by (simp_all add: upgrade_frames_def)
  have n: "length file \<le> OTA_FRAMESIZE * (0 + length pds)" "OTA_FRAMESIZE * (0 + length pds) < length file + OTA_FRAMESIZE"
      "OTA_FRAMESIZE * 0 < length file"
    using blocks_cover [of "length file"] len(2) unfolding fr(6) by (simp_all add: OTA_FRAMESIZE_def del: length_greater_0_conv)
  obtain s1 x where s1: "ota_startRspHandler E L (payload start) s = Some s1"
      "receiving E wr prot file hs (erased_area info s) info 0 s1" "mcuBootAddr s1 = mcuBootAddr s"
    using start_receiving [OF assms(1-6) fr(2) assms(7,8), of L] assms(10) by (auto simp: area_ready_def)
  obtain s2 where s2: "data_run E L pds s1 = Some s2" "verified E wr prot file hs (erased_area info s) s2" "mcuBootAddr s2 = mcuBootAddr s1"
    using data_run_complete [OF assms(1,2,8) s1(2) n(3) fr(3) n(1,2), of L] by blast
  have b: "ota_base s2 = ota_base s" "(if mcuBootAddr s2 \<noteq> 0 then FLASH_OTA_NEWIMAGE_ADDR else 0) = old"
    using s1(3) s2(3) by (simp_all add: ota_base_def old_def)
  obtain s' where s': "ota_stopRspHandler E (payload stop) s2 = Some s'" "outs s' = outs s2 @ [SystemReset]"
      "\<forall>j < length file - hs. fmem_of s' (ota_base s + of_nat j) = file ! (hs + j)" "fmem_of s' (old + 8) = 0"
      "\<forall>x. length file - hs \<le> unat (x - ota_base s) \<longrightarrow> x \<noteq> old + 8 \<longrightarrow> fmem_of s' x = erased_area info s x"
    using stop_reboots [OF assms(1,2) s2(2) fr(5), unfolded b] by blast
  have "data_run E L (start # pds @ [stop]) s = Some s'"
    using indicate_ends(1) [OF fr(1) s1(1)] indicate_ends(2) [OF fr(4) s'(1)] s2(1) by (simp add: data_run_append)
  moreover have "fmem_of s' x = fmem_of s x" if "4096 * image_sectors info \<le> unat (x - ota_base s)" "x \<noteq> old + 8" for x
    using s'(5) erased_area_beyond [OF assms(7,8), of x s] that len(1) by simp
  moreover have "fmem_of s' (ota_base s + of_nat 8) = file ! (hs + 8)"
    using s'(3) len(3) by (intro s'(3) [rule_format]) simp
  then have "fst (mcuBootAddrGet E s') = (if mcuBootAddr s = 0 then 1 else 0)"
    using nor_flash.drv_read [OF assms(1), of 8 1 "flash_of s'"] s'(4) len(5)
    by (simp add: mcuBootAddrGet_def OTA_TLNK_KEYWORD_ADDROFFSET_def fbytes_def ota_base_def old_def split: if_splits)
  ultimately show ?thesis
    using s'(2-4) by auto
qed

text \<open>The upgrade file of an image: a 56-byte header, the tag and length of the image element, the image and its checksum.\<close>

definition upgrade_file :: "u8 list \<Rightarrow> u8 list" where
  "upgrade_file img = [0x1e, 0xf1, 0xee, 0x0b, 0, 1, 56, 0, 0, 0, 0x41, 0x11, 0x52, 0x78, 0, 0, 0, 0x20, 2, 0] @ replicate 32 0x54 @
     bytes32 (of_nat (length img + 66)) @ [0, 0] @ bytes32 (of_nat (length img + 4)) @ img @ bytes32 (xcrc32 img 0xffffffff)"

lemma le_drop:
  "n + 4 \<le> length xs \<Longrightarrow> le32 (nth xs) n = le32 (nth (drop n xs)) 0"
  "n + 2 \<le> length xs \<Longrightarrow> le16 (nth xs) n = le16 (nth (drop n xs)) 0"
  by (simp_all add: le32_def le16_def add.commute)

lemma upgrade_file_drop:
  "length (upgrade_file img) = length img + 66"
  "drop 52 (upgrade_file img) = bytes32 (of_nat (length img + 66)) @ [0, 0] @ bytes32 (of_nat (length img + 4)) @ img @ bytes32 (xcrc32 img 0xffffffff)"
  "drop 58 (upgrade_file img) = bytes32 (of_nat (length img + 4)) @ img @ bytes32 (xcrc32 img 0xffffffff)"
  "drop 62 (upgrade_file img) = img @ bytes32 (xcrc32 img 0xffffffff)"
  by (simp_all add: upgrade_file_def)

lemma upgrade_file_wf:
  assumes "12 \<le> length img" "length img < 0x2FF00" "img ! 8 = 0x4b"
  shows "wf_file (upgrade_file img) 62" "le32 (nth (upgrade_file img)) 52 = of_nat (length (upgrade_file img))"
proof -
  let ?f = "upgrade_file img"
  note d = upgrade_file_drop [of img]
  show "le32 (nth ?f) 52 = of_nat (length ?f)"
    using le_drop(1) [of 52 ?f] le32_bytes by (simp only: d)
  have "le32 (nth ?f) 58 = of_nat (length img + 4)"
    using le_drop(1) [of 58 ?f] le32_bytes assms(1) by (simp only: d)
  moreover have "unat (of_nat (length img + 4) :: u32) = length img + 4"
    using assms(2) by (simp add: unat_of_nat del: of_nat_add)
  moreover have "le16 (nth ?f) 6 = 56"
    by (simp add: upgrade_file_def le16_def)
  moreover have "?f ! 70 = img ! 8"
    using nth_drop [of 62 ?f 8] assms(1) d(1) by (simp add: d(4) nth_append)
  moreover have "le32 (\<lambda>i. ?f ! (62 + length img + i)) 0 = xcrc32 img 0xffffffff"
  proof -
    have "drop (62 + length img) ?f = bytes32 (xcrc32 img 0xffffffff)"
      using d(4) by (simp add: add.commute flip: drop_drop)
    then show ?thesis
      using le_drop(1) [of "62 + length img" ?f] le_shift(1) [of "nth ?f" "62 + length img"] le32_bytes [of _ "[]"] d(1)
      by (simp add: ac_simps)
  qed
  ultimately show "wf_file ?f 62"
    using assms d(1,4) by (simp add: wf_file_def)
qed

definition demo_image :: "u8 list" where
  "demo_image = [0x26, 0x80, 0, 0, 0, 0, 0x5d, 2, 0x4b, 0x4e, 0x4c, 0x54]"

definition demo_file :: "u8 list" where
  "demo_file = upgrade_file demo_image"

definition demo_info :: ota_preamble_t where
  "demo_info = \<lparr>fileVer = 0x20000000, imageType = 0x7852, manufaurerCode = 0x1141, imageSize = 78\<rparr>"

definition mem_of :: "u8 list \<Rightarrow> nat \<Rightarrow> u8" where
  "mem_of xs i = (if i < length xs then xs ! i else 0)"

definition demo_data :: "nat \<Rightarrow> nat \<Rightarrow> u8" where
  "demo_data b = mem_of ([1, 0, 6, 0] @ preamble_bytes (demo_info\<lparr>imageSize := of_nat b\<rparr>) @
     [of_nat (block_len demo_file b)] @ take (block_len demo_file b) (drop (OTA_FRAMESIZE * b) demo_file))"

definition demo_start_rsp :: "nat \<Rightarrow> u8" where
  "demo_start_rsp = mem_of ([1, 0, 2, 12] @ preamble_bytes demo_info)"

definition demo_stop_rsp :: "nat \<Rightarrow> u8" where
  "demo_stop_rsp = mem_of ([1, 0, 4, 12] @ preamble_bytes (stop_pay demo_file 62))"

lemma starts_mem_of [simp]: "starts_with xs (mem_of xs)"
  by (simp add: starts_with_def mem_of_def)

lemma data_rsp_bytes:
  assumes "starts_with (preamble_bytes (info\<lparr>imageSize := of_nat b\<rparr>) @ [of_nat (block_len file b)] @
      take (block_len file b) (drop (OTA_FRAMESIZE * b) file)) pd"
  shows "data_rsp file info b pd"
proof -
  have s: "starts_with (preamble_bytes (info\<lparr>imageSize := of_nat b\<rparr>)) pd" "pd 12 = of_nat (block_len file b)"
      "starts_with (take (block_len file b) (drop (OTA_FRAMESIZE * b) file)) (\<lambda>i. pd (i + 13))"
    using assms by (simp_all add: starts_with_append starts_with_Cons ac_simps)
  have "block_at file (OTA_FRAMESIZE * b) 0 (block_len file b) (\<lambda>i. pd (i + 13))"
    using s(3) by (auto simp: block_at_def starts_with_def block_len_def)
  then show ?thesis
    using preamble_parse [OF s(1)] s(2) by (simp add: data_rsp_def)
qed

lemma demo_wf: "wf_file demo_file 62" "length demo_file = 78"
  using upgrade_file_wf(1) [of demo_image] upgrade_file_drop(1) [of demo_image] by (simp_all add: demo_file_def demo_image_def)

lemma demo_frames: "upgrade_frames demo_file 62 demo_info demo_start_rsp [demo_data 0, demo_data 1] demo_stop_rsp"
proof -
  have tail: "starts_with xs (payload (mem_of ([a, b, c, d] @ xs)))" for a b c d xs
    by (simp add: starts_with_def mem_of_def eval_nat_numeral)
  have hd: "mem_of ([a, b, c, d] @ xs) 0 = a" "mem_of ([a, b, c, d] @ xs) 2 = c" for a b c d xs
    by (simp_all add: mem_of_def)
  have "data_rsp demo_file demo_info k (payload (demo_data k))" "ota_frame TL_CMD_OTA_DATA_RSP (demo_data k)" for k
    using data_rsp_bytes [OF tail] hd by (simp_all add: demo_data_def ota_frame_def ota_cmd_defs)
  moreover have "preamble_at (payload demo_start_rsp) = demo_info" "preamble_at (payload demo_stop_rsp) = stop_pay demo_file 62"
    using preamble_parse [OF tail] by (simp_all add: demo_start_rsp_def demo_stop_rsp_def)
  moreover have "ota_frame TL_CMD_OTA_START_RSP demo_start_rsp" "ota_frame TL_CMD_OTA_STOP_RSP demo_stop_rsp"
    using hd by (simp_all add: demo_start_rsp_def demo_stop_rsp_def ota_frame_def ota_cmd_defs)
  ultimately show ?thesis
    using demo_wf(2) by (simp add: upgrade_frames_def OTA_FRAMESIZE_def less_Suc_eq nth_Cons')
qed

definition demo_idle :: ota_dev where
  "demo_idle = demo_ota\<lparr>ota_state := OTA_STA_IDLE\<rparr>"

theorem ota_upgrade_complete_witness:
  "\<exists>s'. data_run demo_env list_c_lib (demo_start_rsp # [demo_data 0, demo_data 1] @ [demo_stop_rsp]) demo_idle = Some s' \<and>
     (\<forall>j < 16. fmem_of s' (0x40000 + of_nat j) = demo_file ! (62 + j)) \<and> fmem_of s' 8 = 0 \<and> fst (mcuBootAddrGet demo_env s') = 1"
proof -
  have "timers_ok demo_env demo_idle"
    using demo_timers_ok by (simp add: demo_idle_def)
  moreover have "flash_ready demo_idle" "can_open 0x9C prot_1460c8 demo_idle" "\<not> prot_1460c8 (fstat (fp_chip (fl demo_idle))) a" for a
    by (simp_all add: flash_ready_def can_open_def demo_idle_def demo_sdk_def demo_flash_state_def demo_hw_def flash_hw.defs blank_chip_def
        BATTERY_SAFETY_THRESHOLD_def prot_1460c8_def)
  moreover have "fresh demo_idle" "ota_base demo_idle = 0x40000" "mcuBootAddr demo_idle = 0"
    by (simp_all add: fresh_def demo_idle_def ota_base_def FLASH_OTA_NEWIMAGE_ADDR_def)
  moreover have "start_accepted demo_info" "imageSize demo_info = of_nat (length demo_file)"
    using demo_wf(2) by (simp_all add: demo_info_def start_accepted_def MANUFACTURER_CODE_def IMAGE_TYPE_def FILE_VERSION_def
        OTA_MAX_IMAGE_SIZE_def)
  ultimately show ?thesis
    using ota_upgrade_complete [OF dev.nor_flash_axioms [of "0x9C" prot_1460c8, folded demo_env_sel(1)] demo_wf(1), of demo_idle demo_info
        demo_start_rsp "[demo_data 0, demo_data 1]" demo_stop_rsp list_c_lib] demo_frames demo_wf(2) by auto
qed

text \<open>
  C25. A second upgrade without a power cycle stores nothing. A client that has just been powered on, and whose
  image area can be written and is unprotected or blank, accepts an upgrade and receives blocks of a well-formed file beyond its header,
  but not all; then the server reports an error (a data response of length 0) and the client gives up: it is
  idle, with its flash offset, checksum and block counter reset. A new start response is accepted and puts it
  into the starting state again, but the header counter of the first file is still there. From then on the
  client takes block after block of the new file, of any contents, acknowledges each by asking for the next,
  and neither writes a byte of it to the flash nor reads a field of its header; it only counts, until the
  count reaches the announced size.
\<close>

theorem ota_restart_ignores_file:
  assumes "nor_flash (bus E) wr prot" "wf_file file hs" "timers_ok E s" "flash_ready s" "can_open wr prot s" "fresh s"
    and "start_accepted info" "imageSize info = of_nat (length file)"
    and "area_ready prot info s"
    and "ota_frame TL_CMD_OTA_START_RSP start" "preamble_at (payload start) = info"
    and "\<forall>k < length pds. ota_frame TL_CMD_OTA_DATA_RSP (pds ! k) \<and> data_rsp file info k (payload (pds ! k))"
    and "hs < OTA_FRAMESIZE * length pds" "OTA_FRAMESIZE * length pds < length file"
    and "ota_frame TL_CMD_OTA_DATA_RSP fail" "preamble_at (payload fail) = info\<lparr>imageSize := of_nat (length pds)\<rparr>" "fail 16 = 0"
    and "ota_frame TL_CMD_OTA_START_RSP start'" "preamble_at (payload start') = info'" "start_accepted info'"
    and "\<forall>j < length pds'. some_block info' j (pds' ! j)"
    and "OTA_FRAMESIZE * length pds + sum_list (map (\<lambda>pd. unat (pd 16)) pds') < unat (imageSize info')"
  shows "\<exists>s1 s2 s3. data_run E L (start # pds @ [fail]) s = Some s1 \<and> ota_state s1 = OTA_STA_IDLE \<and> flashOffsetAddr s1 = 0 \<and>
    data_run E L [start'] s1 = Some s2 \<and> ota_state s2 = OTA_STA_STARTING \<and> dev_otaInfo s2 = info' \<and>
    data_run E L pds' s2 = Some s3 \<and> fmem_of s3 = fmem_of s2 \<and> ota_state s3 = OTA_STA_STARTING \<and>
    flashOffsetAddr s3 = 0 \<and> binInfo s3 = preamble_zero \<and> crcValue s3 = 0xffffffff \<and>
    blockDataCount s3 = of_nat (length pds') \<and>
    ota_headercnt s3 = of_nat (OTA_FRAMESIZE * length pds + sum_list (map (\<lambda>pd. unat (pd 16)) pds'))"
proof -
  let ?n = "OTA_FRAMESIZE * length pds"
  have len: "length file < 0x30000" "62 \<le> hs"
    using assms(2) by (auto simp: wf_file_def)
  obtain s0 where s0: "ota_startRspHandler E L (payload start) s = Some s0" "receiving E wr prot file hs (erased_area info s) info 0 s0"
    using start_receiving [OF assms(1-6) assms(11) assms(7-9), of L] by blast
  obtain sb where sb: "data_run E L pds s0 = Some sb" "receiving E wr prot file hs (erased_area info s) info (length pds) sb"
    using data_run_partial [OF assms(1,2,8) s0(2), of pds L] assms(12,14) by auto
  have m: "min ?n (length file) = ?n" using assms(14) by simp
  have b: "timers_ok E sb" "flash_ready sb" "can_open wr prot sb" "dev_otaInfo sb = info" "blockDataCount sb = of_nat (length pds)"
      "ota_headercnt sb = of_nat ?n" "ota_headersize sb = of_nat hs" "ota_state sb = OTA_STA_DATAING"
    using sb(2) assms(13) len(2) unfolding receiving_def Let_def m at_pos_iff by auto
  obtain s1 where s1: "ota_abort E sb = Some s1" "ota_state s1 = OTA_STA_IDLE" "blockDataCount s1 = 0" "flashOffsetAddr s1 = 0"
      "ota_headercnt s1 = of_nat ?n" "ota_headersize s1 = of_nat hs" "timers_ok E s1" "fl s1 = fl sb" "binInfo s1 = preamble_zero"
      "crcValue s1 = 0xffffffff"
    using abort_idle [OF b(1)] b(6,7) by auto
  have "ota_dataRspHandler E L (payload fail) sb = Some s1"
    using b(4,5,8) s1(1) assms(16,17) by (simp add: ota_dataRspHandler_def)
  from indicate_data [OF assms(15) this] have r1: "data_run E L (start # pds @ [fail]) s = Some s1"
    using indicate_ends(1) [OF assms(10) s0(1)] sb(1) by (simp add: data_run_append)
  have f1: "flash_ready s1" "can_open wr prot s1" using fl_cong [OF s1(8)] b(2,3) by simp_all
  obtain s2 fm where s2: "ota_startRspHandler E L (payload start') s1 = Some s2" "timers_ok E s2" "ota_state s2 = OTA_STA_STARTING"
      "dev_otaInfo s2 = info'" "fl s2 = (fl s1)\<lparr>fp_chip := (fp_chip (fl s1))\<lparr>fmem := fm\<rparr>\<rparr>" "ota_headercnt s2 = of_nat ?n"
      "ota_headersize s2 = of_nat hs" "crcValue s2 = 0xffffffff" "flashOffsetAddr s2 = 0" "binInfo s2 = preamble_zero" "blockDataCount s2 = 0"
    using startRsp_keeps [OF assms(1) s1(7) f1(1) s1(2), of "payload start'" L] assms(19,20) s1 by auto
  have "flash_ready s2 = flash_ready s1" "can_open wr prot s2 = can_open wr prot s1"
    using s2(5) by (simp_all add: flash_ready_def can_open_def split: option.split)
  moreover have "stale s2"
    using assms(13,14) len s2(6,7) by (simp add: stale_def unat_of_nat del: of_nat_mult)
  ultimately have "skipping E wr prot info' (fmem_of s2) 0 ?n s2"
    using s2 f1 by (simp add: skipping_def)
  from skip_run [OF assms(1) this, of pds' L] obtain s3 where "data_run E L pds' s2 = Some s3"
      "skipping E wr prot info' (fmem_of s2) (length pds') (?n + sum_list (map (\<lambda>pd. unat (pd 16)) pds')) s3"
    using assms(21,22) by auto
  then show ?thesis
    using r1 s1(2,4) s2(3,4) indicate_ends(1) [OF assms(18) s2(1)] by (auto simp: skipping_def simp del: of_nat_add of_nat_mult)
qed

text \<open>
  A file of 118 bytes of which two blocks arrive, a response of length 0, and two blocks of an upgrade of
  400 bytes.
\<close>

definition long_file :: "u8 list" where
  "long_file = upgrade_file (demo_image @ replicate 40 0)"

definition rsp_info :: "u32 \<Rightarrow> ota_preamble_t" where
  "rsp_info n = demo_info\<lparr>imageSize := n\<rparr>"

definition rsp_start :: "u32 \<Rightarrow> nat \<Rightarrow> u8" where
  "rsp_start n = mem_of ([1, 0, 2, 12] @ preamble_bytes (rsp_info n))"

definition rsp_data :: "u32 \<Rightarrow> nat \<Rightarrow> u8 list \<Rightarrow> nat \<Rightarrow> u8" where
  "rsp_data n b xs = mem_of ([1, 0, 6, 0] @ preamble_bytes ((rsp_info n)\<lparr>imageSize := of_nat b\<rparr>) @ [of_nat (length xs)] @ xs)"

definition long_block :: "nat \<Rightarrow> u8 list" where
  "long_block b = take (block_len long_file b) (drop (OTA_FRAMESIZE * b) long_file)"

lemma rsp_frames:
  "ota_frame TL_CMD_OTA_START_RSP (rsp_start n)" "preamble_at (payload (rsp_start n)) = rsp_info n"
  "ota_frame TL_CMD_OTA_DATA_RSP (rsp_data n b xs)" "preamble_at (payload (rsp_data n b xs)) = (rsp_info n)\<lparr>imageSize := of_nat b\<rparr>"
  "rsp_data n b xs 16 = of_nat (length xs)"
proof -
  have tail: "starts_with xs (payload (mem_of ([a, b, c, d] @ xs)))" for a b c d xs
    by (simp add: starts_with_def mem_of_def eval_nat_numeral)
  show "preamble_at (payload (rsp_start n)) = rsp_info n"
    using preamble_parse [OF tail] by (simp add: rsp_start_def)
  have "starts_with (preamble_bytes ((rsp_info n)\<lparr>imageSize := of_nat b\<rparr>) @ [of_nat (length xs)] @ xs) (payload (rsp_data n b xs))"
    unfolding rsp_data_def by (rule tail)
  then show "preamble_at (payload (rsp_data n b xs)) = (rsp_info n)\<lparr>imageSize := of_nat b\<rparr>"
      "rsp_data n b xs 16 = of_nat (length xs)"
    using preamble_parse by (simp_all add: starts_with_append starts_with_Cons)
qed (simp_all add: rsp_start_def rsp_data_def ota_frame_def ota_cmd_defs mem_of_def)

lemma long_file_facts: "wf_file long_file 62" "length long_file = 118" "length (long_block b) = block_len long_file b"
  using upgrade_file_wf(1) [of "demo_image @ replicate 40 0"] upgrade_file_drop(1) [of "demo_image @ replicate 40 0"]
  by (simp_all add: long_file_def demo_image_def long_block_def block_len_def)

lemma rsp_data_long: "data_rsp long_file (rsp_info n) b (payload (rsp_data n b (long_block b)))"
proof (rule data_rsp_bytes)
  have tail: "starts_with xs (payload (mem_of ([a, b, c, d] @ xs)))" for a b c d xs
    by (simp add: starts_with_def mem_of_def eval_nat_numeral)
  show "starts_with (preamble_bytes ((rsp_info n)\<lparr>imageSize := of_nat b\<rparr>) @ [of_nat (block_len long_file b)] @
      take (block_len long_file b) (drop (OTA_FRAMESIZE * b) long_file)) (payload (rsp_data n b (long_block b)))"
    unfolding rsp_data_def long_file_facts(3) long_block_def [symmetric] by (rule tail)
qed

theorem ota_restart_ignores_file_witness:
  "\<exists>s1 s2 s3. data_run demo_env list_c_lib (rsp_start 118 # [rsp_data 118 0 (long_block 0), rsp_data 118 1 (long_block 1)] @
       [rsp_data 118 2 []]) demo_idle = Some s1 \<and> ota_state s1 = OTA_STA_IDLE \<and>
     data_run demo_env list_c_lib [rsp_start 400] s1 = Some s2 \<and> ota_state s2 = OTA_STA_STARTING \<and>
     data_run demo_env list_c_lib [rsp_data 400 0 (long_block 0), rsp_data 400 1 (long_block 1)] s2 = Some s3 \<and>
     fmem_of s3 = fmem_of s2 \<and> ota_headercnt s3 = 192"
proof -
  have d: "timers_ok demo_env demo_idle" "flash_ready demo_idle" "can_open 0x9C prot_1460c8 demo_idle" "fresh demo_idle"
      "\<not> prot_1460c8 (fstat (fp_chip (fl demo_idle))) a" for a
    using demo_timers_ok by (simp_all add: demo_idle_def flash_ready_def can_open_def demo_sdk_def demo_flash_state_def demo_hw_def
        flash_hw.defs blank_chip_def BATTERY_SAFETY_THRESHOLD_def prot_1460c8_def fresh_def)
  have acc: "start_accepted (rsp_info 118)" "start_accepted (rsp_info 400)" "imageSize (rsp_info n) = n" for n
    by (simp_all add: rsp_info_def demo_info_def start_accepted_def MANUFACTURER_CODE_def IMAGE_TYPE_def FILE_VERSION_def
        OTA_MAX_IMAGE_SIZE_def)
  have bl: "length (long_block 0) = 48" "length (long_block 1) = 48"
    by (simp_all add: long_file_facts block_len_def OTA_FRAMESIZE_def)
  let ?p = "[rsp_data 118 0 (long_block 0), rsp_data 118 1 (long_block 1)]"
  let ?q = "[rsp_data 400 0 (long_block 0), rsp_data 400 1 (long_block 1)]"
  have p: "\<forall>k < length ?p. ota_frame TL_CMD_OTA_DATA_RSP (?p ! k) \<and> data_rsp long_file (rsp_info 118) k (payload (?p ! k))"
    using rsp_data_long [of 118 0] rsp_data_long [of 118 1] by (auto simp: less_Suc_eq rsp_frames)
  have q: "\<forall>j < length ?q. some_block (rsp_info 400) j (?q ! j)"
    by (auto simp: less_Suc_eq some_block_def rsp_frames bl [simplified])
  have sz: "imageSize (rsp_info 118) = of_nat (length long_file)"
    by (simp add: acc long_file_facts)
  have pr: "area_ready prot_1460c8 (rsp_info 118) demo_idle"
    using d(5) by (simp add: area_ready_def)
  have z: "preamble_at (payload (rsp_data 118 2 [])) = (rsp_info 118)\<lparr>imageSize := of_nat (length ?p)\<rparr>" "rsp_data 118 2 [] 16 = 0"
    by (simp_all add: rsp_frames)
  have n: "62 < OTA_FRAMESIZE * length ?p" "OTA_FRAMESIZE * length ?p < length long_file"
      "OTA_FRAMESIZE * length ?p + sum_list (map (\<lambda>pd. unat (pd 16)) ?q) = 192" "unat (imageSize (rsp_info 400)) = 400"
    by (simp_all add: OTA_FRAMESIZE_def long_file_facts(2) rsp_frames bl [simplified] acc(3))
  show ?thesis
    using ota_restart_ignores_file [OF dev.nor_flash_axioms [of "0x9C" prot_1460c8, folded demo_env_sel(1)] long_file_facts(1) d(1-4) acc(1)
        sz pr rsp_frames(1,2) p n(1,2) rsp_frames(3) z rsp_frames(1,2) acc(2) q, of list_c_lib] unfolding n by auto
qed

end
