(* ===== verification/Ota_Coor.thy ===== *)
theory Ota_Coor
  imports Ota_Transfer
begin

text \<open>
  The upgrade server of \<^verbatim>\<open>demo/app_common/ota/tl_specific_data_ota.c\<close> (the \<^verbatim>\<open>ZB_COORDINATOR_ROLE\<close> branch), with the
  data indication of \<^verbatim>\<open>demo/associate_coor/app.c\<close> that feeds it, and its exchange with the client. The global
  variables that both roles declare carry the prefix \<open>c_\<close> here.
\<close>

section \<open>State\<close>

datatype tl_otabin_e = OTA_BIN_VALID | OTA_BIN_INVALID

record ota_coor = sdk_state +
  c_tlAppDataSeqNo :: u8
  c_otaInfo :: ota_preamble_t
  c_mcuBootAddr :: u8
  ota_bin_state :: tl_otabin_e
  c_headersize :: u32
  seq_number :: u16
  dev_src_addr :: addr_t
  user_packet :: "u8 list"

definition OTA_UPGRADE_FILE_ID :: u32 where "OTA_UPGRADE_FILE_ID = 0x0BEEF11E"

text \<open>The packed file header \<^verbatim>\<open>ota_hdrFields_t\<close>, 56 bytes, of which the server uses these fields.\<close>

record ota_hdrFields_t =
  h_otaHdrLen :: u16
  h_manufaurerCode :: u16
  h_imageType :: u16
  h_fileVer :: u32
  h_totalImageSize :: u32

definition hdrFields_at :: "u8 list \<Rightarrow> ota_hdrFields_t" where
  "hdrFields_at b = \<lparr>h_otaHdrLen = le16 (nth b) 6, h_manufaurerCode = le16 (nth b) 10, h_imageType = le16 (nth b) 12,
     h_fileVer = le32 (nth b) 14, h_totalImageSize = le32 (nth b) 52\<rparr>"

definition c_base :: "'a ota_coor_scheme \<Rightarrow> u32" where
  "c_base c = (if c_mcuBootAddr c \<noteq> 0 then 0 else FLASH_OTA_NEWIMAGE_ADDR)"

section \<open>Operations\<close>

definition c_mcuBootAddrGet :: "sdk_env \<Rightarrow> 'a ota_coor_scheme \<Rightarrow> u8 \<times> 'a ota_coor_scheme" where
  "c_mcuBootAddrGet E c =
     (let (b, c1) = flash_val (flash_read (bus E) OTA_TLNK_KEYWORD_ADDROFFSET 1) c
      in (if hd b = 0x4b then 0 else 1, c1))"

definition c_ota_init :: "sdk_env \<Rightarrow> 'a ota_coor_scheme \<Rightarrow> 'a ota_coor_scheme" where
  "c_ota_init E c =
     (let (b, c1) = c_mcuBootAddrGet E c;
          c2 = c1\<lparr>c_mcuBootAddr := b\<rparr>;
          flashAddr = c_base c2;
          (file_id, c3) = flash_val (flash_read (bus E) flashAddr 4) c2;
          c4 = c3\<lparr>ota_bin_state := OTA_BIN_INVALID, c_otaInfo := preamble_zero, c_headersize := 0\<rparr>
      in if le32 (nth file_id) 0 = OTA_UPGRADE_FILE_ID then
           let (hb, c5) = flash_val (flash_read (bus E) flashAddr 56) c4;
               headinfo = hdrFields_at hb
           in if h_totalImageSize headinfo \<ge> OTA_MAX_IMAGE_SIZE then c5\<lparr>ota_bin_state := OTA_BIN_INVALID\<rparr>
              else if ucast (h_otaHdrLen headinfo) < h_totalImageSize headinfo then
                let (_, c6) = flash_val (flash_read (bus E) (flashAddr + ucast (h_otaHdrLen headinfo)) 8) c5
                in if h_totalImageSize headinfo \<ge> OTA_MAX_IMAGE_SIZE then c6\<lparr>ota_bin_state := OTA_BIN_INVALID\<rparr>
                   else c6\<lparr>c_otaInfo := \<lparr>fileVer = h_fileVer headinfo, imageType = h_imageType headinfo,
                              manufaurerCode = h_manufaurerCode headinfo, imageSize = h_totalImageSize headinfo\<rparr>,
                            c_headersize := h_totalImageSize headinfo, ota_bin_state := OTA_BIN_VALID\<rparr>
              else c5\<lparr>ota_bin_state := OTA_BIN_INVALID\<rparr>
         else c4)"

text \<open>The part the three handlers share: the next sequence number, the addresses and the call of the MAC library.\<close>

definition c_send :: "tn_lib \<Rightarrow> (u8 \<Rightarrow> u8 list) \<Rightarrow> 'a ota_coor_scheme \<Rightarrow> 'a ota_coor_scheme option" where
  "c_send L frame c =
     do {
       let c1 = c\<lparr>c_tlAppDataSeqNo := c_tlAppDataSeqNo c + 1\<rparr>;
       (_, pan, _) \<leftarrow> tl_zbMacAttrGet L MAC_ATTR_PAN_ID (\<lambda>_. 0) 0 c1;
       let msg = data_req_zero\<lparr>srcAddr := addr_zero\<lparr>addrMode := ZB_ADDR_16BIT_DEV_OR_BROADCAST\<rparr>,
                   dstAddr := dev_src_addr c1, dstPanId := le16 pan 0, msduHandle := 0,
                   txOptions := MAC_TX_OPTION_ACKNOWLEDGED_BIT OR MAC_TX_OPTION_INDIRECT_TRANSMISSION_BIT\<rparr>;
       Some (emit (McpsDataRequest msg (frame (c_tlAppDataSeqNo c))) c1)
     }"

definition ota_startReqHandler :: "tn_lib \<Rightarrow> (nat \<Rightarrow> u8) \<Rightarrow> 'a ota_coor_scheme \<Rightarrow> 'a ota_coor_scheme option" where
  "ota_startReqHandler L pd c =
     (if manufaurerCode (preamble_at pd) \<noteq> manufaurerCode (c_otaInfo c) then Some c
      else c_send L (\<lambda>seqNo. ota_cmd_bytes seqNo TL_CMD_OTA_START_RSP (c_otaInfo c)) c)"

definition ota_stopReqHandler :: "tn_lib \<Rightarrow> (nat \<Rightarrow> u8) \<Rightarrow> 'a ota_coor_scheme \<Rightarrow> 'a ota_coor_scheme option" where
  "ota_stopReqHandler L pd c =
     (let pHdr = preamble_at pd in
      if fileVer pHdr = fileVer (c_otaInfo c) \<and> imageType pHdr = imageType (c_otaInfo c) \<and>
         manufaurerCode pHdr = manufaurerCode (c_otaInfo c) \<and> imageSize pHdr = imageSize (c_otaInfo c)
      then c_send L (\<lambda>seqNo. ota_cmd_bytes seqNo TL_CMD_OTA_STOP_RSP (c_otaInfo c)) c
      else Some c)"

definition ota_dataReqHandler :: "sdk_env \<Rightarrow> tn_lib \<Rightarrow> (nat \<Rightarrow> u8) \<Rightarrow> 'a ota_coor_scheme \<Rightarrow> 'a ota_coor_scheme option" where
  "ota_dataReqHandler E L pd c =
     (let pdHdr = preamble_at pd in
      if fileVer pdHdr = fileVer (c_otaInfo c) \<and> imageType pdHdr = imageType (c_otaInfo c) \<and>
         manufaurerCode pdHdr = manufaurerCode (c_otaInfo c) \<and> ota_bin_state c = OTA_BIN_VALID
      then
        let cnt = imageSize pdHdr * of_nat OTA_FRAMESIZE;
            read_len = (if cnt + of_nat OTA_FRAMESIZE < c_headersize c then of_nat OTA_FRAMESIZE
                        else ucast (c_headersize c mod of_nat OTA_FRAMESIZE)) :: u8;
            (block, c1) = flash_val (flash_read (bus E) (c_base c + cnt) (unat read_len)) c
        in c_send L (\<lambda>seqNo. [TL_SPECIFIC_ID_OTA, seqNo, TL_CMD_OTA_DATA_RSP, 13 + read_len] @
                       preamble_bytes ((c_otaInfo c1)\<lparr>imageSize := imageSize pdHdr\<rparr>) @ [read_len] @ block) c1
      else Some c)"

definition c_tl_appOtaCmdHandler ::
  "sdk_env \<Rightarrow> tn_lib \<Rightarrow> (nat \<Rightarrow> u8) \<Rightarrow> 'a ota_coor_scheme \<Rightarrow> (u8 \<times> 'a ota_coor_scheme) option" where
  "c_tl_appOtaCmdHandler E L pd c =
     (let cmdId = pd 2; pld = (\<lambda>i. pd (i + 4)) in
      if cmdId = TL_CMD_OTA_START_REQ then
        map_option (\<lambda>c1. (SUCCESS, c1\<lparr>seq_number := 0x100\<rparr>)) (ota_startReqHandler L pld c)
      else if cmdId = TL_CMD_OTA_STOP_REQ then map_option (Pair SUCCESS) (ota_stopReqHandler L pld c)
      else if cmdId = TL_CMD_OTA_DATA_REQ then
        if seq_number c \<noteq> ucast (pd 1) then
          map_option (Pair SUCCESS) (ota_dataReqHandler E L pld (c\<lparr>seq_number := ucast (pd 1)\<rparr>))
        else Some (SUCCESS, c)
      else Some (INVALID_EVENT_ID, c))"

definition c_tl_appDataIndicate ::
  "sdk_env \<Rightarrow> tn_lib \<Rightarrow> (nat \<Rightarrow> u8) \<Rightarrow> 'a ota_coor_scheme \<Rightarrow> (u8 \<times> 'a ota_coor_scheme) option" where
  "c_tl_appDataIndicate E L pd c =
     (if pd 0 = TL_SPECIFIC_ID_OTA then do { (_, c1) \<leftarrow> c_tl_appOtaCmdHandler E L pd c; Some (SUCCESS, c1) }
      else Some (INVALID_EVENT_ID, c))"

text \<open>The coordinator's data indication: it remembers the sender and keeps the beginning of any other packet.\<close>

definition c_MyDataIndCb ::
  "sdk_env \<Rightarrow> tn_lib \<Rightarrow> addr_t \<Rightarrow> u8 \<Rightarrow> (nat \<Rightarrow> u8) \<Rightarrow> 'a ota_coor_scheme \<Rightarrow> 'a ota_coor_scheme option" where
  "c_MyDataIndCb E L src msduLength msdu c =
     do {
       (ret, c1) \<leftarrow> c_tl_appDataIndicate E L msdu (c\<lparr>dev_src_addr := src\<rparr>);
       (if ret \<noteq> SUCCESS then
          let len = (if unat msduLength > length (user_packet c1) then length (user_packet c1) else unat msduLength)
          in Some (c1\<lparr>user_packet := map msdu [0..<len] @ drop len (user_packet c1)\<rparr>)
        else Some c1)
     }"

section \<open>The server's answers\<close>

lemma c_send_eq:
  "\<exists>msg. c_send L frame c =
     Some (emit (McpsDataRequest msg (frame (c_tlAppDataSeqNo c))) (c\<lparr>c_tlAppDataSeqNo := c_tlAppDataSeqNo c + 1\<rparr>))"
proof -
  obtain pan l where "tl_zbMacAttrGet L MAC_ATTR_PAN_ID (\<lambda>_. 0) 0 (c\<lparr>c_tlAppDataSeqNo := c_tlAppDataSeqNo c + 1\<rparr>) =
      Some (MAC_SUCCESS, pan, l)"
    using get_pan by blast
  then show ?thesis
    by (simp add: c_send_def Let_def) blast
qed

text \<open>The server offers \<open>file\<close>: it is in its flash, and \<open>info\<close> describes it.\<close>

definition offers :: "u8 list \<Rightarrow> ota_preamble_t \<Rightarrow> 'a ota_coor_scheme \<Rightarrow> bool" where
  "offers file info c \<longleftrightarrow> c_otaInfo c = info \<and> imageSize info = of_nat (length file) \<and> ota_bin_state c = OTA_BIN_VALID \<and>
     c_headersize c = of_nat (length file) \<and> (\<forall>j < length file. fmem_of c (c_base c + of_nat j) = file ! j)"

lemma emit_coor [simp]:
  "c_otaInfo (emit x c) = c_otaInfo c" "c_mcuBootAddr (emit x c) = c_mcuBootAddr c" "ota_bin_state (emit x c) = ota_bin_state c"
  "c_headersize (emit x c) = c_headersize c" "seq_number (emit x c) = seq_number c" "c_base (emit x c) = c_base c"
  "dev_src_addr (emit x c) = dev_src_addr c" "user_packet (emit x c) = user_packet c"
  by (simp_all add: emit_def c_base_def)

lemma offers_upd [simp]:
  "offers file info (emit x c) = offers file info c" "offers file info (c\<lparr>c_tlAppDataSeqNo := a\<rparr>) = offers file info c"
  "offers file info (c\<lparr>seq_number := b\<rparr>) = offers file info c"
  by (simp_all add: offers_def c_base_def)

text \<open>What the last transmission carried.\<close>

definition sent :: "'a sdk_state_scheme \<Rightarrow> u8 list" where
  "sent s = (case last (outs s) of McpsDataRequest _ bs \<Rightarrow> bs | _ \<Rightarrow> [])"

lemma sent_emit [simp]: "sent (emit (McpsDataRequest msg bs) s) = bs"
  by (simp add: sent_def)

lemma sent_last: "outs s' = xs @ [McpsDataRequest msg bs] \<Longrightarrow> sent s' = bs"
  by (simp add: sent_def)

lemma header_parse:
  assumes "starts_with ([a, b, c, d] @ xs) pd"
  shows "pd 0 = a" "pd 1 = b" "pd 2 = c" "starts_with xs (payload pd)"
  using assms by (auto simp: starts_with_Cons) (simp_all add: starts_with_def eval_nat_numeral)

lemma cmd_parse:
  assumes "starts_with (ota_cmd_bytes seqNo cmd p) pd"
  shows "pd 0 = TL_SPECIFIC_ID_OTA" "pd 1 = seqNo" "pd 2 = cmd" "preamble_at (payload pd) = p"
  using header_parse [OF assms [unfolded ota_cmd_bytes_def]] by (simp_all add: preamble_parse)

lemma coor_start:
  assumes "offers file info c" "starts_with (ota_cmd_bytes q TL_CMD_OTA_START_REQ p) pd" "manufaurerCode p = manufaurerCode info"
  shows "\<exists>c' k. c_tl_appDataIndicate E L pd c = Some (SUCCESS, c') \<and> offers file info c' \<and> seq_number c' = 0x100 \<and>
    sent c' = ota_cmd_bytes k TL_CMD_OTA_START_RSP info"
proof -
  obtain msg where "c_send L (\<lambda>seqNo. ota_cmd_bytes seqNo TL_CMD_OTA_START_RSP (c_otaInfo c)) c =
      Some (emit (McpsDataRequest msg (ota_cmd_bytes (c_tlAppDataSeqNo c) TL_CMD_OTA_START_RSP (c_otaInfo c)))
        (c\<lparr>c_tlAppDataSeqNo := c_tlAppDataSeqNo c + 1\<rparr>))" (is "_ = Some ?c")
    using c_send_eq by blast
  moreover have "c_otaInfo c = info"
    using assms(1) by (simp add: offers_def)
  ultimately have "c_tl_appDataIndicate E L pd c = Some (SUCCESS, ?c\<lparr>seq_number := 0x100\<rparr>)"
    using cmd_parse [OF assms(2)] assms(3)
    by (simp add: c_tl_appDataIndicate_def c_tl_appOtaCmdHandler_def ota_startReqHandler_def ota_cmd_defs)
  moreover have "sent (?c\<lparr>seq_number := 0x100\<rparr>) = sent ?c"
    by (simp add: sent_def)
  ultimately show ?thesis
    using assms(1) \<open>c_otaInfo c = info\<close> by auto
qed

lemma coor_stop:
  assumes "offers file info c" "starts_with (ota_cmd_bytes q TL_CMD_OTA_STOP_REQ info) pd"
  shows "\<exists>c' k. c_tl_appDataIndicate E L pd c = Some (SUCCESS, c') \<and> offers file info c' \<and>
    sent c' = ota_cmd_bytes k TL_CMD_OTA_STOP_RSP info"
proof -
  obtain msg where "c_send L (\<lambda>seqNo. ota_cmd_bytes seqNo TL_CMD_OTA_STOP_RSP (c_otaInfo c)) c =
      Some (emit (McpsDataRequest msg (ota_cmd_bytes (c_tlAppDataSeqNo c) TL_CMD_OTA_STOP_RSP (c_otaInfo c)))
        (c\<lparr>c_tlAppDataSeqNo := c_tlAppDataSeqNo c + 1\<rparr>))"
    using c_send_eq by blast
  moreover have "c_otaInfo c = info"
    using assms(1) by (simp add: offers_def)
  ultimately show ?thesis
    using cmd_parse [OF assms(2)] assms(1)
    by (simp add: c_tl_appDataIndicate_def c_tl_appOtaCmdHandler_def ota_stopReqHandler_def ota_cmd_defs) blast
qed

text \<open>The data response: the block, except that a full last block is sent with length 0.\<close>

definition answer_len :: "u8 list \<Rightarrow> nat \<Rightarrow> nat" where
  "answer_len file b = (if OTA_FRAMESIZE * Suc b = length file then 0 else block_len file b)"

lemma answer_read_len:
  assumes "OTA_FRAMESIZE * b < length file" "length file < 0x30000"
  defines "cnt \<equiv> of_nat b * of_nat OTA_FRAMESIZE :: u32"
  shows "cnt = of_nat (OTA_FRAMESIZE * b)"
    and "(if cnt + of_nat OTA_FRAMESIZE < of_nat (length file) then of_nat OTA_FRAMESIZE
      else ucast (of_nat (length file) mod of_nat OTA_FRAMESIZE :: u32)) = (of_nat (answer_len file b) :: u8)"
proof -
  show c: "cnt = of_nat (OTA_FRAMESIZE * b)"
    by (simp add: cnt_def mult.commute)
  have u: "unat (of_nat n :: u32) = n" if "n < 0x40000" for n
    using that by (simp add: unat_of_nat)
  have lt: "cnt + of_nat OTA_FRAMESIZE < of_nat (length file) \<longleftrightarrow> OTA_FRAMESIZE * Suc b < length file"
  proof -
    define n where "n = OTA_FRAMESIZE * Suc b"
    have "cnt + of_nat OTA_FRAMESIZE = of_nat n" "n < 0x40000"
      using assms(1,2) by (simp_all add: c n_def OTA_FRAMESIZE_def)
    then show ?thesis
      unfolding n_def [symmetric] using u assms(2) by (simp add: word_less_nat_alt)
  qed
  have m: "unat (of_nat (length file) mod of_nat OTA_FRAMESIZE :: u32) = length file mod 48"
    using u assms(2) by (simp add: unat_mod OTA_FRAMESIZE_def)
  have mm: "length file mod 48 = answer_len file b" if "\<not> OTA_FRAMESIZE * Suc b < length file"
  proof -
    define r where "r = length file - 48 * b"
    have "length file = 48 * b + r" "0 < r" "r \<le> 48"
      using that assms(1) by (simp_all add: OTA_FRAMESIZE_def r_def)
    then show ?thesis
      by (simp add: answer_len_def block_len_def OTA_FRAMESIZE_def)
  qed
  have "ucast (of_nat (length file) mod of_nat OTA_FRAMESIZE :: u32) = (of_nat (length file mod 48) :: u8)"
    unfolding m [symmetric] by (simp add: of_nat_unat)
  then show "(if cnt + of_nat OTA_FRAMESIZE < of_nat (length file) then of_nat OTA_FRAMESIZE
      else ucast (of_nat (length file) mod of_nat OTA_FRAMESIZE :: u32)) = (of_nat (answer_len file b) :: u8)"
    using lt mm by (auto simp: answer_len_def block_len_def OTA_FRAMESIZE_def)
qed

lemma coor_data:
  assumes nor: "nor_flash (bus E) wr prot" and o: "offers file info c" and l: "OTA_FRAMESIZE * b < length file" "length file < 0x30000"
    and pd: "starts_with (data_req q info b) pd" and fresh: "seq_number c \<noteq> ucast q"
  shows "\<exists>c' k. c_tl_appDataIndicate E L pd c = Some (SUCCESS, c') \<and> offers file info c' \<and> seq_number c' = ucast q \<and>
    sent c' = [TL_SPECIFIC_ID_OTA, k, TL_CMD_OTA_DATA_RSP, 13 + of_nat (answer_len file b)] @
      preamble_bytes (info\<lparr>imageSize := of_nat b\<rparr>) @ [of_nat (answer_len file b)] @
      take (answer_len file b) (drop (OTA_FRAMESIZE * b) file)"
proof -
  define c0 where "c0 = c\<lparr>seq_number := ucast q\<rparr>"
  have o0: "offers file info c0" "c_otaInfo c0 = info" "c_headersize c0 = of_nat (length file)" "ota_bin_state c0 = OTA_BIN_VALID"
    using o by (simp_all add: c0_def offers_def c_base_def)
  define n where "n = answer_len file b"
  have n: "n \<le> 48" "OTA_FRAMESIZE * b + n \<le> length file" "unat (of_nat n :: u8) = n"
    using l(1) by (auto simp: n_def answer_len_def block_len_def OTA_FRAMESIZE_def unat_of_nat)
  define a where "a = c_base c0 + of_nat (OTA_FRAMESIZE * b)"
  have ua: "unat a + n \<le> 2 ^ 24"
  proof -
    have "unat (c_base c0) \<le> 0x40000" "unat (of_nat (OTA_FRAMESIZE * b) :: u32) = OTA_FRAMESIZE * b"
      using l by (simp_all add: c_base_def FLASH_OTA_NEWIMAGE_ADDR_def unat_of_nat del: of_nat_mult)
    then show ?thesis
      using unat_add_no_wrap [of "c_base c0" "of_nat (OTA_FRAMESIZE * b)"] n(2) l unfolding a_def by simp
  qed
  have rd: "flash_val (flash_read (bus E) a n) c0 = (take n (drop (OTA_FRAMESIZE * b) file), c0)"
  proof -
    have "fbytes (fmem_of c0) a n = take n (drop (OTA_FRAMESIZE * b) file)"
    proof (rule nth_equalityI)
      fix j
      assume "j < length (fbytes (fmem_of c0) a n)"
      then have j: "j < n" "OTA_FRAMESIZE * b + j < length file"
        using n(2) by simp_all
      have "a + of_nat j = c_base c0 + of_nat (OTA_FRAMESIZE * b + j)"
        by (simp add: a_def)
      then show "fbytes (fmem_of c0) a n ! j = take n (drop (OTA_FRAMESIZE * b) file) ! j"
        using o0(1) j by (simp add: offers_def fbytes_def del: of_nat_add)
    qed (use n(2) in simp)
    then show ?thesis
      using nor_flash.drv_read [OF nor ua, of "flash_of c0"] by simp
  qed
  note h = cmd_parse [OF pd [unfolded data_req_def]]
  define frame where "frame = (\<lambda>k. [TL_SPECIFIC_ID_OTA, k, TL_CMD_OTA_DATA_RSP, 13 + of_nat n] @
      preamble_bytes (info\<lparr>imageSize := of_nat b\<rparr>) @ [of_nat n] @ take n (drop (OTA_FRAMESIZE * b) file))"
  have sel: "imageSize (info\<lparr>imageSize := x\<rparr>) = x" for x
    by simp
  have "ota_dataReqHandler E L (payload pd) c0 = c_send L frame c0"
    unfolding ota_dataReqHandler_def Let_def h(4) o0(2-4) sel answer_read_len(2) [OF l]
    unfolding answer_read_len(1) [OF l] n_def [symmetric] a_def [symmetric] n(3) rd prod.case o0(2) frame_def by simp
  moreover obtain msg where "c_send L frame c0 =
      Some (emit (McpsDataRequest msg (frame (c_tlAppDataSeqNo c0))) (c0\<lparr>c_tlAppDataSeqNo := c_tlAppDataSeqNo c0 + 1\<rparr>))" (is "_ = Some ?c")
    using c_send_eq by blast
  ultimately have "c_tl_appDataIndicate E L pd c = Some (SUCCESS, ?c)"
    using h(1-3) fresh unfolding c_tl_appDataIndicate_def c_tl_appOtaCmdHandler_def c0_def [symmetric]
    by (simp add: ota_cmd_defs c0_def [symmetric])
  then show ?thesis
    using o0(1) by (auto simp: frame_def n_def c0_def)
qed

section \<open>The exchange\<close>

text \<open>
  One round: the server receives what the client sent last, and the client receives what the server sent last. The radio delivers the
  bytes of a frame, whatever follows them in the receiver's buffer: \<open>air\<close> gives the buffer.
\<close>

definition ota_round ::
  "(u8 list \<Rightarrow> nat \<Rightarrow> u8) \<Rightarrow> sdk_env \<Rightarrow> sdk_env \<Rightarrow> tn_lib \<Rightarrow> 'a ota_coor_scheme \<times> 'b ota_dev_scheme \<Rightarrow>
   ('a ota_coor_scheme \<times> 'b ota_dev_scheme) option" where
  "ota_round air EC E L cs =
     do {
       (_, c1) \<leftarrow> c_tl_appDataIndicate EC L (air (sent (snd cs))) (fst cs);
       (_, s1) \<leftarrow> tl_appDataIndicate E L (air (sent c1)) (snd cs);
       Some (c1, s1)
     }"

primrec ota_session ::
  "(u8 list \<Rightarrow> nat \<Rightarrow> u8) \<Rightarrow> sdk_env \<Rightarrow> sdk_env \<Rightarrow> tn_lib \<Rightarrow> nat \<Rightarrow> 'a ota_coor_scheme \<times> 'b ota_dev_scheme \<Rightarrow>
   ('a ota_coor_scheme \<times> 'b ota_dev_scheme) option" where
  "ota_session air EC E L 0 cs = Some cs"
| "ota_session air EC E L (Suc n) cs = ota_round air EC E L cs \<bind> ota_session air EC E L n"

lemma ota_session_add: "ota_session air EC E L (m + n) cs = ota_session air EC E L m cs \<bind> ota_session air EC E L n"
proof (induction m arbitrary: cs)
  case (Suc m)
  then show ?case
    by (cases "ota_round air EC E L cs") simp_all
qed simp

lemma round_eq:
  "c_tl_appDataIndicate EC L (air (sent s)) c = Some (r, c1) \<Longrightarrow> tl_appDataIndicate E L (air (sent c1)) s = Some (q, s1) \<Longrightarrow>
   ota_round air EC E L (c, s) = Some (c1, s1)"
  by (simp add: ota_round_def)

text \<open>Between two rounds of the transfer: the client waits for block \<open>b\<close>, whose request the server has not seen.\<close>

definition linked ::
  "sdk_env \<Rightarrow> u16 \<Rightarrow> (u16 \<Rightarrow> addr \<Rightarrow> bool) \<Rightarrow> u8 list \<Rightarrow> nat \<Rightarrow> (addr \<Rightarrow> u8) \<Rightarrow> ota_preamble_t \<Rightarrow> u8 \<Rightarrow> nat \<Rightarrow>
   'a ota_coor_scheme \<times> 'b ota_dev_scheme \<Rightarrow> bool" where
  "linked E wr prot file hs m0 info boot b cs \<longleftrightarrow>
     offers file info (fst cs) \<and> receiving E wr prot file hs m0 info b (snd cs) \<and> mcuBootAddr (snd cs) = boot \<and>
     sent (snd cs) = data_req (g_tlAppDataSeqNo (snd cs) - 1) info b \<and>
     seq_number (fst cs) \<noteq> ucast (g_tlAppDataSeqNo (snd cs) - 1)"

lemma ucast_seq: "ucast (q :: u8) = (ucast p :: u16) \<longleftrightarrow> q = p"
proof
  assume e: "ucast q = (ucast p :: u16)"
  show "q = p"
  proof (rule bit_word_eqI)
    fix n
    assume "n < LENGTH(8)"
    then show "bit q n = bit p n"
      using arg_cong [OF e, of "\<lambda>w. bit w n"] by (simp add: bit_simps)
  qed
qed simp

lemma answer_parse:
  assumes "starts_with ([TL_SPECIFIC_ID_OTA, k, TL_CMD_OTA_DATA_RSP, l] @ preamble_bytes (info\<lparr>imageSize := of_nat b\<rparr>) @
      [of_nat (answer_len file b)] @ take (answer_len file b) (drop (OTA_FRAMESIZE * b) file)) pd"
  shows "ota_frame TL_CMD_OTA_DATA_RSP pd" "OTA_FRAMESIZE * Suc b \<noteq> length file \<Longrightarrow> data_rsp file info b (payload pd)"
    and "preamble_at (payload pd) = info\<lparr>imageSize := of_nat b\<rparr>" "payload pd 12 = of_nat (answer_len file b)"
proof -
  note h = header_parse [OF assms]
  show "ota_frame TL_CMD_OTA_DATA_RSP pd"
    using h by (simp add: ota_frame_def)
  show "OTA_FRAMESIZE * Suc b \<noteq> length file \<Longrightarrow> data_rsp file info b (payload pd)"
    using h(4) by (intro data_rsp_bytes) (simp add: answer_len_def)
  have "starts_with (preamble_bytes (info\<lparr>imageSize := of_nat b\<rparr>)) (payload pd)" "payload pd 12 = of_nat (answer_len file b)"
    using h(4) by (simp_all add: starts_with_append starts_with_Cons)
  then show "preamble_at (payload pd) = info\<lparr>imageSize := of_nat b\<rparr>" "payload pd 12 = of_nat (answer_len file b)"
    by (simp_all add: preamble_parse)
qed

lemma server_round:
  assumes "nor_flash (bus EC) wrc protc" "linked E wr prot file hs m0 info boot b (c, s)" "\<And>xs. starts_with xs (air xs)"
    and "OTA_FRAMESIZE * b < length file" "length file < 0x30000"
  shows "\<exists>c'. c_tl_appDataIndicate EC L (air (sent s)) c = Some (SUCCESS, c') \<and> offers file info c' \<and>
    seq_number c' = ucast (g_tlAppDataSeqNo s - 1) \<and> ota_frame TL_CMD_OTA_DATA_RSP (air (sent c')) \<and>
    (OTA_FRAMESIZE * Suc b \<noteq> length file \<longrightarrow> data_rsp file info b (payload (air (sent c')))) \<and>
    preamble_at (payload (air (sent c'))) = info\<lparr>imageSize := of_nat b\<rparr> \<and> air (sent c') 16 = of_nat (answer_len file b)"
proof -
  have l: "offers file info c" "starts_with (data_req (g_tlAppDataSeqNo s - 1) info b) (air (sent s))"
      "seq_number c \<noteq> ucast (g_tlAppDataSeqNo s - 1)"
    using assms(2) assms(3) [of "sent s"] by (simp_all add: linked_def)
  obtain c' k where c': "c_tl_appDataIndicate EC L (air (sent s)) c = Some (SUCCESS, c')" "offers file info c'"
      "seq_number c' = ucast (g_tlAppDataSeqNo s - 1)"
      "sent c' = [TL_SPECIFIC_ID_OTA, k, TL_CMD_OTA_DATA_RSP, 13 + of_nat (answer_len file b)] @
      preamble_bytes (info\<lparr>imageSize := of_nat b\<rparr>) @ [of_nat (answer_len file b)] @
      take (answer_len file b) (drop (OTA_FRAMESIZE * b) file)"
    using coor_data [OF assms(1) l(1) assms(4,5) l(2,3), of L] by blast
  note a = answer_parse [OF assms(3) [of "sent c'", unfolded c'(4)], folded c'(4)]
  have "air (sent c') 16 = of_nat (answer_len file b)"
    using a(4) by simp
  then show ?thesis
    by (intro exI [of _ c'] conjI impI) (rule c'(1-3) a(1-3) | assumption)+
qed

lemma data_round:
  assumes "nor_flash (bus EC) wrc protc" "nor_flash (bus E) wr prot" "wf_file file hs" "\<And>xs. starts_with xs (air xs)"
    and "linked E wr prot file hs m0 info boot b (c, s)" "OTA_FRAMESIZE * Suc b < length file"
  shows "\<exists>cs'. ota_round air EC E L (c, s) = Some cs' \<and> linked E wr prot file hs m0 info boot (Suc b) cs'"
proof -
  have l: "receiving E wr prot file hs m0 info b s" "mcuBootAddr s = boot" "imageSize info = of_nat (length file)"
    using assms(5) by (simp_all add: linked_def offers_def)
  have "OTA_FRAMESIZE * b < length file" "length file < 0x30000"
    using assms(3,6) by (simp_all add: wf_file_def)
  from server_round [OF assms(1,5,4) this, of L]
  obtain c' where c': "c_tl_appDataIndicate EC L (air (sent s)) c = Some (SUCCESS, c')" "offers file info c'"
      "seq_number c' = ucast (g_tlAppDataSeqNo s - 1)" "ota_frame TL_CMD_OTA_DATA_RSP (air (sent c'))"
      "OTA_FRAMESIZE * Suc b \<noteq> length file \<longrightarrow> data_rsp file info b (payload (air (sent c')))"
    by (elim exE conjE)
  have r: "data_rsp file info b (payload (air (sent c')))"
    using c'(5) assms(6) by simp
  obtain s' msg where s': "ota_dataRspHandler E L (payload (air (sent c'))) s = Some s'" "receiving E wr prot file hs m0 info (Suc b) s'"
      "outs s' = outs s @ [McpsDataRequest msg (data_req (g_tlAppDataSeqNo s) info (Suc b))]"
      "g_tlAppDataSeqNo s' = g_tlAppDataSeqNo s + 1" "mcuBootAddr s' = mcuBootAddr s"
    using dataRsp_more [OF assms(2,3) l(1) r assms(6) l(3), of L] by (elim exE conjE)
  have "g_tlAppDataSeqNo s - 1 \<noteq> g_tlAppDataSeqNo s"
    by simp
  then have "linked E wr prot file hs m0 info boot (Suc b) (c', s')"
    using c'(2,3) s'(2,4,5) l(2) sent_last [OF s'(3)] ucast_seq by (simp add: linked_def)
  then show ?thesis
    using round_eq [of EC L air s c SUCCESS c' E SUCCESS s', OF c'(1)] indicate_data [OF c'(4) s'(1)] by blast
qed

lemma data_rounds:
  assumes "nor_flash (bus EC) wrc protc" "nor_flash (bus E) wr prot" "wf_file file hs" "\<And>xs. starts_with xs (air xs)"
    and "linked E wr prot file hs m0 info boot b cs" "OTA_FRAMESIZE * (b + n) < length file"
  shows "\<exists>cs'. ota_session air EC E L n cs = Some cs' \<and> linked E wr prot file hs m0 info boot (b + n) cs'"
  using assms(5,6)
proof (induction n arbitrary: b cs)
  case (Suc n)
  have "OTA_FRAMESIZE * Suc b < length file"
    using Suc.prems(2) by (simp add: OTA_FRAMESIZE_def)
  then obtain cs1 where "ota_round air EC E L cs = Some cs1" "linked E wr prot file hs m0 info boot (Suc b) cs1"
    using data_round [OF assms(1-4), of m0 info boot b "fst cs" "snd cs" L] Suc.prems(1) by auto
  then show ?case
    using Suc.IH [of "Suc b" cs1] Suc.prems(2) by simp
qed simp

text \<open>The first round: the client's query is answered and it asks for block 0.\<close>

definition asking :: "ota_preamble_t \<Rightarrow> 'a ota_dev_scheme \<Rightarrow> bool" where
  "asking info s \<longleftrightarrow> (\<exists>q p. sent s = ota_cmd_bytes q TL_CMD_OTA_START_REQ p \<and> manufaurerCode p = manufaurerCode info)"

lemma start_round:
  assumes nor: "nor_flash (bus E) wr prot" and wf: "wf_file file hs" and air: "\<And>xs. starts_with xs (air xs)"
    and s: "timers_ok E s" "flash_ready s" "can_open wr prot s" "fresh s" "asking info s"
    and c: "offers file info c" "start_accepted info"
    and pr: "area_ready prot info s"
  shows "\<exists>cs'. ota_round air EC E L (c, s) = Some cs' \<and> linked E wr prot file hs (erased_area info s) info (mcuBootAddr s) 0 cs'"
proof -
  obtain q p where q: "sent s = ota_cmd_bytes q TL_CMD_OTA_START_REQ p" "manufaurerCode p = manufaurerCode info"
    using s(5) by (auto simp: asking_def)
  obtain c' k where c': "c_tl_appDataIndicate EC L (air (sent s)) c = Some (SUCCESS, c')" "offers file info c'" "seq_number c' = 0x100"
      "sent c' = ota_cmd_bytes k TL_CMD_OTA_START_RSP info"
    using coor_start [OF c(1) air [of "sent s", unfolded q(1)] q(2), of EC L] unfolding q(1) by blast
  note h = cmd_parse [OF air [of "sent c'", unfolded c'(4)], folded c'(4)]
  have i: "imageSize info = of_nat (length file)"
    using c(1) by (simp add: offers_def)
  obtain s' msg where s': "ota_startRspHandler E L (payload (air (sent c'))) s = Some s'"
      "receiving E wr prot file hs (erased_area info s) info 0 s'" "mcuBootAddr s' = mcuBootAddr s"
      "g_tlAppDataSeqNo s' = g_tlAppDataSeqNo s + 1" "outs s' = outs s @ [McpsDataRequest msg (data_req (g_tlAppDataSeqNo s) info 0)]"
    using start_receiving [OF nor wf s(1-4) h(4) c(2) i pr, of L] by (elim exE conjE)
  have "ota_frame TL_CMD_OTA_START_RSP (air (sent c'))"
    using h by (simp add: ota_frame_def)
  from indicate_ends(1) [OF this s'(1)] have r: "ota_round air EC E L (c, s) = Some (c', s')"
    by (rule round_eq [of EC L air s c SUCCESS c' E SUCCESS s', OF c'(1)])
  have "(0x100 :: u16) \<noteq> ucast (x :: u8)" for x
  proof
    assume "(0x100 :: u16) = ucast x"
    from arg_cong [OF this, of "\<lambda>w. bit w 8"] show False
      by (auto simp: bit_simps dest: bit_imp_le_length)
  qed
  then have "linked E wr prot file hs (erased_area info s) info (mcuBootAddr s) 0 (c', s')"
    using c'(2,3) s'(2-4) sent_last [OF s'(5)] by (simp add: linked_def)
  then show ?thesis
    using r by blast
qed

text \<open>The last two rounds, when the last block is not full.\<close>

lemma end_rounds:
  assumes nor: "nor_flash (bus EC) wrc protc" "nor_flash (bus E) wr prot" and wf: "wf_file file hs" and air: "\<And>xs. starts_with xs (air xs)"
    and l: "linked E wr prot file hs m0 info boot b (c, s)" and b: "OTA_FRAMESIZE * b < length file" "length file < OTA_FRAMESIZE * Suc b"
    and info: "stop_pay file hs = info"
  defines "base \<equiv> if boot \<noteq> 0 then 0 else FLASH_OTA_NEWIMAGE_ADDR" and "old \<equiv> if boot \<noteq> 0 then FLASH_OTA_NEWIMAGE_ADDR else 0"
  shows "\<exists>c' s'. ota_session air EC E L 2 (c, s) = Some (c', s') \<and> last (outs s') = SystemReset \<and>
    (\<forall>j < length file - hs. fmem_of s' (base + of_nat j) = file ! (hs + j)) \<and> fmem_of s' (old + 8) = 0 \<and>
    (\<forall>x. length file - hs \<le> unat (x - base) \<longrightarrow> x \<noteq> old + 8 \<longrightarrow> fmem_of s' x = m0 x)"
proof -
  have r: "receiving E wr prot file hs m0 info b s" "mcuBootAddr s = boot" "imageSize info = of_nat (length file)"
    using l by (simp_all add: linked_def offers_def)
  have "length file < 0x30000"
    using wf by (simp add: wf_file_def)
  from server_round [OF nor(1) l air b(1) this, of L]
  obtain c1 where c1: "c_tl_appDataIndicate EC L (air (sent s)) c = Some (SUCCESS, c1)" "offers file info c1"
      "ota_frame TL_CMD_OTA_DATA_RSP (air (sent c1))"
      "OTA_FRAMESIZE * Suc b \<noteq> length file \<longrightarrow> data_rsp file info b (payload (air (sent c1)))"
    by (elim exE conjE)
  have d: "data_rsp file info b (payload (air (sent c1)))"
    using c1(4) b(2) by simp
  obtain s1 msg where s1: "ota_dataRspHandler E L (payload (air (sent c1))) s = Some s1" "verified E wr prot file hs m0 s1"
      "mcuBootAddr s1 = mcuBootAddr s"
      "outs s1 = outs s @ [McpsDataRequest msg (ota_cmd_bytes (g_tlAppDataSeqNo s) TL_CMD_OTA_STOP_REQ (stop_pay file hs))]"
    using dataRsp_last [OF nor(2) wf r(1) d b(1) less_imp_le [OF b(2)] r(3), of L] by (elim exE conjE)
  note sn = sent_last [OF s1(4), unfolded info]
  have r1: "ota_round air EC E L (c, s) = Some (c1, s1)"
    by (rule round_eq [OF c1(1) indicate_data [OF c1(3) s1(1)]])
  obtain c2 k where c2: "c_tl_appDataIndicate EC L (air (sent s1)) c1 = Some (SUCCESS, c2)"
      "sent c2 = ota_cmd_bytes k TL_CMD_OTA_STOP_RSP info"
    using coor_stop [OF c1(2) air [of "sent s1", unfolded sn], of EC L] unfolding sn by blast
  note h = cmd_parse [OF air [of "sent c2", unfolded c2(2)], folded c2(2)]
  have bs: "ota_base s1 = base" "(if mcuBootAddr s1 \<noteq> 0 then FLASH_OTA_NEWIMAGE_ADDR else 0) = old"
    by (simp_all add: s1(3) r(2) ota_base_def base_def old_def)
  obtain s2 where s2: "ota_stopRspHandler E (payload (air (sent c2))) s1 = Some s2" "outs s2 = outs s1 @ [SystemReset]"
      "\<forall>j < length file - hs. fmem_of s2 (base + of_nat j) = file ! (hs + j)" "fmem_of s2 (old + 8) = 0"
      "\<forall>x. length file - hs \<le> unat (x - base) \<longrightarrow> x \<noteq> old + 8 \<longrightarrow> fmem_of s2 x = m0 x"
    using stop_reboots [OF nor(2) wf s1(2) h(4) [folded info], unfolded bs] by (elim exE conjE)
  have "ota_frame TL_CMD_OTA_STOP_RSP (air (sent c2))"
    using h by (simp add: ota_frame_def)
  then have "ota_round air EC E L (c1, s1) = Some (c2, s2)"
    using round_eq [of EC L air s1 c1 SUCCESS c2 E SUCCESS s2, OF c2(1)] indicate_ends(2) [OF _ s2(1)] by blast
  then have "ota_session air EC E L 2 (c, s) = Some (c2, s2)"
    using r1 by (simp add: numeral_2_eq_2)
  then show ?thesis
    using s2(2-5) by auto
qed

section \<open>Properties\<close>

text \<open>The file is in the server's flash, with the fields that \<^verbatim>\<open>ota_init\<close> reads.\<close>

definition file_in_flash :: "sdk_env \<Rightarrow> u8 list \<Rightarrow> 'a ota_coor_scheme \<Rightarrow> bool" where
  "file_in_flash E file c \<longleftrightarrow>
     (let a = (if fmem_of c 8 = 0x4b then FLASH_OTA_NEWIMAGE_ADDR else 0)
      in (\<forall>j < length file. fmem_of c (a + of_nat j) = file ! j)) \<and>
     le32 (nth file) 0 = OTA_UPGRADE_FILE_ID \<and> le32 (nth file) 52 = of_nat (length file)"

lemma flash_le:
  assumes "nor_flash (bus E) wr prot" "unat a + n \<le> 2 ^ 24" "\<forall>j < n. fmem_of c (a + of_nat j) = file ! j"
  shows "flash_val (flash_read (bus E) a n) c = (map (nth file) [0..<n], c)"
  using nor_flash.drv_read [OF assms(1,2), of "flash_of c"] assms(3) by (simp add: fbytes_def)

lemma c_init_offers:
  assumes nor: "nor_flash (bus E) wr prot" and wf: "wf_file file hs" and f: "file_in_flash E file c"
  shows "offers file (stop_pay file hs) (c_ota_init E c)"
proof -
  have len: "length file < 0x30000" "78 \<le> length file" "unat (le16 (nth file) 6) + 6 = hs" "hs + 16 \<le> length file" "62 \<le> hs"
    using wf by (auto simp: wf_file_def)
  define boot :: u8 where "boot = (if fmem_of c 8 = 0x4b then 0 else 1)"
  define c2 where "c2 = c\<lparr>c_mcuBootAddr := boot\<rparr>"
  define a where "a = (if fmem_of c 8 = 0x4b then FLASH_OTA_NEWIMAGE_ADDR else 0)"
  have ff: "\<forall>j < length file. fmem_of c (a + of_nat j) = file ! j" "le32 (nth file) 0 = OTA_UPGRADE_FILE_ID"
      "le32 (nth file) 52 = of_nat (length file)"
    using f by (simp_all add: file_in_flash_def a_def Let_def)
  have a: "c_base c2 = a" "unat a \<le> 0x40000"
    by (simp_all add: c2_def c_base_def boot_def a_def FLASH_OTA_NEWIMAGE_ADDR_def)
  have b: "c_mcuBootAddrGet E c = (boot, c)"
    using nor_flash.drv_read [OF nor, of 8 1 "flash_of c"]
    by (simp add: c_mcuBootAddrGet_def OTA_TLNK_KEYWORD_ADDROFFSET_def fbytes_def boot_def)
  have rd: "flash_val (flash_read (bus E) a n) t = (map (nth file) [0..<n], t)" if "fl t = fl c" "n \<le> 78" for t :: "'a ota_coor_scheme" and n
    by (rule flash_le [OF nor]) (use a(2) that ff(1) len(2) in auto)
  define c4 where "c4 = c2\<lparr>ota_bin_state := OTA_BIN_INVALID, c_otaInfo := preamble_zero, c_headersize := 0\<rparr>"
  have eqs: "le32 (nth (map (nth file) [0..<4])) 0 = OTA_UPGRADE_FILE_ID"
      "hdrFields_at (map (nth file) [0..<56]) = \<lparr>h_otaHdrLen = le16 (nth file) 6, h_manufaurerCode = le16 (nth file) 10,
        h_imageType = le16 (nth file) 12, h_fileVer = le32 (nth file) 14, h_totalImageSize = of_nat (length file)\<rparr>"
    using ff(2,3) by (simp_all add: hdrFields_at_def le32_def le16_def)
  have lt: "\<not> (of_nat (length file) :: u32) \<ge> OTA_MAX_IMAGE_SIZE" "ucast (le16 (nth file) 6) < (of_nat (length file) :: u32)"
    using len by (simp_all add: OTA_MAX_IMAGE_SIZE_def word_le_nat_alt word_less_nat_alt unat_of_nat unsigned_ucast_eq take_bit_nat_eq_self)
  have fl4: "fl c2 = fl c" "fl c4 = fl c"
    by (simp_all add: c2_def c4_def)
  have "c_ota_init E c = c4\<lparr>c_otaInfo := stop_pay file hs, c_headersize := of_nat (length file), ota_bin_state := OTA_BIN_VALID\<rparr>"
    using rd [OF fl4(1), of 4] rd [OF fl4(2), of 56] eqs lt len(5)
    unfolding c_ota_init_def b Let_def prod.case c2_def [symmetric] a(1)
    by (simp add: c4_def [symmetric] case_prod_beta stop_pay_def hdr_info_def flash_val_def)
  then show ?thesis
    using ff(1) a(1) by (simp add: offers_def c4_def stop_pay_def) (simp add: c2_def c_base_def)
qed

lemma frames_below:
  "n mod OTA_FRAMESIZE \<noteq> 0 \<Longrightarrow> OTA_FRAMESIZE * (n div OTA_FRAMESIZE) < n"
  "n < OTA_FRAMESIZE * Suc (n div OTA_FRAMESIZE)"
proof -
  have eq: "OTA_FRAMESIZE * (n div OTA_FRAMESIZE) + n mod OTA_FRAMESIZE = n"
    by (rule mult_div_mod_eq)
  show "n mod OTA_FRAMESIZE \<noteq> 0 \<Longrightarrow> OTA_FRAMESIZE * (n div OTA_FRAMESIZE) < n"
    using eq by linarith
  have "n mod OTA_FRAMESIZE < OTA_FRAMESIZE"
    by (rule mod_less_divisor) (simp add: OTA_FRAMESIZE_def)
  then show "n < OTA_FRAMESIZE * Suc (n div OTA_FRAMESIZE)"
    using eq unfolding mult_Suc_right by linarith
qed

text \<open>
  C1. Server and client together: when the server has found a well-formed upgrade file in its flash, of a
  manufacturer, type, version and size that the client accepts, and the client has just been powered on (its
  upgrade counters are those of a fresh start) and has sent its query, the exchange of requests and responses
  ends, after one round for the start, one per block and one for the stop, with the image of that file in the
  client's image area, its boot flag set, the running image's flag cleared, nothing else outside the erased
  sectors changed and the client reset, provided that the file length is not a multiple of the block size and
  no frame is lost. What is relied on of the client's flash: it has voltage, unlocking opens it, and the image
  area is unprotected when the start response comes or, since \<^verbatim>\<open>drv_platform_init\<close> locks the flash at boot and
  the start response does not unlock it, blank. A protected area that holds an old image keeps
  it, and a client that has given up an upgrade before stores nothing (see the theorems on these cases).
\<close>

theorem ota_session_upgrades:
  assumes "nor_flash (bus EC) wrc protc" "nor_flash (bus E) wr prot" "wf_file file hs" "\<And>xs. starts_with xs (air xs)"
    and "file_in_flash EC file c" "start_accepted (stop_pay file hs)" "length file mod OTA_FRAMESIZE \<noteq> 0"
    and "timers_ok E s" "flash_ready s" "can_open wr prot s" "fresh s" "asking (stop_pay file hs) s"
    and "area_ready prot (stop_pay file hs) s"
  defines "old \<equiv> if mcuBootAddr s \<noteq> 0 then FLASH_OTA_NEWIMAGE_ADDR else 0"
  shows "\<exists>c' s'. ota_session air EC E L (length file div OTA_FRAMESIZE + 3) (c_ota_init EC c, s) = Some (c', s') \<and>
    last (outs s') = SystemReset \<and> (\<forall>j < length file - hs. fmem_of s' (ota_base s + of_nat j) = file ! (hs + j)) \<and>
    fmem_of s' (old + 8) = 0 \<and>
    (\<forall>x. 4096 * image_sectors (stop_pay file hs) \<le> unat (x - ota_base s) \<longrightarrow> x \<noteq> old + 8 \<longrightarrow> fmem_of s' x = fmem_of s x)"
proof -
  let ?i = "stop_pay file hs" and ?n = "length file div OTA_FRAMESIZE" and ?S = "ota_session air EC E L"
  have len: "length file < 0x30000"
    using assms(3) by (simp add: wf_file_def)
  have sz: "imageSize ?i = of_nat (length file)"
    by (simp add: stop_pay_def)
  have n: "OTA_FRAMESIZE * (0 + ?n) < length file" "length file < OTA_FRAMESIZE * Suc (0 + ?n)"
    using assms(7) frames_below [of "length file"] by simp_all
  obtain cs1 where cs1: "ota_round air EC E L (c_ota_init EC c, s) = Some cs1"
      "linked E wr prot file hs (erased_area ?i s) ?i (mcuBootAddr s) 0 cs1"
    using start_round [OF assms(2-4,8-12) c_init_offers [OF assms(1,3,5)] assms(6,13), of EC L] by blast
  obtain c2 s2 where cs2: "?S ?n cs1 = Some (c2, s2)" "linked E wr prot file hs (erased_area ?i s) ?i (mcuBootAddr s) (0 + ?n) (c2, s2)"
    using data_rounds [OF assms(1-4) cs1(2) n(1), of L] by auto
  obtain c' s' where r: "?S 2 (c2, s2) = Some (c', s')" "last (outs s') = SystemReset"
      "\<forall>j < length file - hs. fmem_of s' (ota_base s + of_nat j) = file ! (hs + j)" "fmem_of s' (old + 8) = 0"
      "\<forall>x. length file - hs \<le> unat (x - ota_base s) \<longrightarrow> x \<noteq> old + 8 \<longrightarrow> fmem_of s' x = erased_area ?i s x"
    using end_rounds [OF assms(1-4) cs2(2) n refl, of L, folded ota_base_def old_def] by (elim exE conjE)
  have "?S (?n + 3) (c_ota_init EC c, s) = ?S (1 + (?n + 2)) (c_ota_init EC c, s)"
    by (simp add: eval_nat_numeral)
  also have "\<dots> = Some (c', s')"
    unfolding ota_session_add using cs1(1) cs2(1) r(1) by simp
  moreover have "fmem_of s' x = fmem_of s x" if "4096 * image_sectors ?i \<le> unat (x - ota_base s)" "x \<noteq> old + 8" for x
    using r(5) erased_area_beyond [OF assms(6) sz that(1)] that len by simp
  ultimately show ?thesis
    using r(2-4) by auto
qed

text \<open>
  C14. A file whose length is a multiple of the block size cannot be transferred, not even to a freshly powered-on
  client whose image area can be erased and written: the server sends the last,
  full block with length 0, which the client takes as an error, so that after every other block has been
  stored the upgrade is abandoned and the client is idle again with its upgrade information cleared.
\<close>

theorem ota_session_full_last_block:
  assumes "nor_flash (bus EC) wrc protc" "nor_flash (bus E) wr prot" "wf_file file hs" "\<And>xs. starts_with xs (air xs)"
    and "file_in_flash EC file c" "start_accepted (stop_pay file hs)" "length file mod OTA_FRAMESIZE = 0"
    and "timers_ok E s" "flash_ready s" "can_open wr prot s" "fresh s" "asking (stop_pay file hs) s"
    and "\<forall>i < image_sectors (stop_pay file hs). \<not> prot (fstat (fp_chip (fl s))) (ota_base s + of_nat i * FLASH_SECTOR_SIZE)"
  shows "\<exists>c' s'. ota_session air EC E L (length file div OTA_FRAMESIZE + 1) (c_ota_init EC c, s) = Some (c', s') \<and>
    ota_state s' = OTA_STA_IDLE \<and> dev_otaInfo s' = preamble_zero \<and> blockDataCount s' = 0"
proof -
  let ?i = "stop_pay file hs" and ?S = "ota_session air EC E L"
  have len: "length file < 0x30000" "78 \<le> length file"
    using assms(3) by (auto simp: wf_file_def)
  obtain n where n: "length file = OTA_FRAMESIZE * Suc n"
    using assms(7) len(2) by (metis OTA_FRAMESIZE_def Suc_pred' div_mult_mod_eq add_0_right mult.commute mult_eq_0_iff not_gr_zero not_numeral_le_zero)
  have lt: "OTA_FRAMESIZE * (0 + n) < length file" "OTA_FRAMESIZE * n < length file"
    by (simp_all add: n OTA_FRAMESIZE_def)
  obtain cs1 where cs1: "ota_round air EC E L (c_ota_init EC c, s) = Some cs1"
      "linked E wr prot file hs (erased_area ?i s) ?i (mcuBootAddr s) 0 cs1"
    using start_round [OF assms(2-4,8-12) c_init_offers [OF assms(1,3,5)] assms(6), of EC L] assms(13) by (auto simp: area_ready_def)
  obtain c2 s2 where cs2: "?S n cs1 = Some (c2, s2)" "linked E wr prot file hs (erased_area ?i s) ?i (mcuBootAddr s) n (c2, s2)"
    using data_rounds [OF assms(1-4) cs1(2) lt(1), of L] by auto
  from server_round [OF assms(1) cs2(2) assms(4) lt(2) len(1), of L]
  obtain c3 where c3: "c_tl_appDataIndicate EC L (air (sent s2)) c2 = Some (SUCCESS, c3)" "ota_frame TL_CMD_OTA_DATA_RSP (air (sent c3))"
      "preamble_at (payload (air (sent c3))) = ?i\<lparr>imageSize := of_nat n\<rparr>" "air (sent c3) 16 = of_nat (answer_len file n)"
    by (elim exE conjE)
  have s2: "timers_ok E s2" "dev_otaInfo s2 = ?i" "blockDataCount s2 = of_nat n" "ota_state s2 \<noteq> OTA_STA_IDLE"
    using cs2(2) by (auto simp: linked_def receiving_def Let_def at_pos_iff)
  then obtain s3 where s3: "ota_abort E s2 = Some s3" "ota_state s3 = OTA_STA_IDLE" "dev_otaInfo s3 = preamble_zero" "blockDataCount s3 = 0"
    using abort_idle [OF s2(1)] by blast
  have "ota_dataRspHandler E L (payload (air (sent c3))) s2 = Some s3"
    using s2 s3(1) c3(3,4) by (simp add: ota_dataRspHandler_def answer_len_def n)
  from round_eq [OF c3(1) indicate_data [OF c3(2) this]] have "ota_round air EC E L (c2, s2) = Some (c3, s3)" .
  then have "?S 1 (c2, s2) = Some (c3, s3)"
    by simp
  moreover have "length file div OTA_FRAMESIZE + 1 = 1 + (n + 1)"
    by (simp add: n OTA_FRAMESIZE_def)
  ultimately have "?S (length file div OTA_FRAMESIZE + 1) (c_ota_init EC c, s) = Some (c3, s3)"
    unfolding \<open>length file div OTA_FRAMESIZE + 1 = 1 + (n + 1)\<close> ota_session_add using cs1(1) cs2(1) by simp
  then show ?thesis
    using s3 by blast
qed

section \<open>A concrete exchange\<close>

text \<open>A server that runs from address 0 and holds \<open>file\<close> at 0x40000, and a client that has sent its query.\<close>

definition demo_chip :: "u8 list \<Rightarrow> flash_chip" where
  "demo_chip file = blank_chip\<lparr>fmem := \<lambda>x. if x = 8 then 0x4b else if unat (x - 0x40000) < length file then file ! unat (x - 0x40000) else 0xFF\<rparr>"

definition demo_coor :: "u8 list \<Rightarrow> ota_coor" where
  "demo_coor file = sdk_state.extend (demo_sdk\<lparr>fl := (fl demo_sdk)\<lparr>fp_chip := demo_chip file\<rparr>\<rparr>)
     \<lparr>c_tlAppDataSeqNo = 0, c_otaInfo = preamble_zero, c_mcuBootAddr = 0, ota_bin_state = OTA_BIN_INVALID, c_headersize = 0, seq_number = 0,
      dev_src_addr = addr_zero, user_packet = replicate 16 0\<rparr>"

definition demo_asking :: ota_dev where
  "demo_asking = emit (McpsDataRequest data_req_zero (ota_cmd_bytes 0 TL_CMD_OTA_START_REQ
     \<lparr>fileVer = FILE_VERSION, imageType = IMAGE_TYPE, manufaurerCode = MANUFACTURER_CODE, imageSize = 0\<rparr>)) demo_idle"

lemma demo_file_in_flash:
  assumes "12 \<le> length img" "length img < 0x2FF00" "img ! 8 = 0x4b"
  shows "file_in_flash demo_env (upgrade_file img) (demo_coor (upgrade_file img))"
proof -
  let ?f = "upgrade_file img"
  have u: "unat (of_nat j :: addr) = j" if "j < length ?f" for j
    using that assms(2) upgrade_file_drop(1) [of img] by (simp add: unat_of_nat)
  have "0x40000 + of_nat j \<noteq> (8 :: addr)" if "j < length ?f" for j
    using u [OF that] unat_add_no_wrap [of "0x40000 :: addr" "of_nat j"] that assms(2) upgrade_file_drop(1) [of img]
    by (auto simp: word_unat_eq_iff)
  moreover have "fmem_of (demo_coor ?f) = fmem (demo_chip ?f)"
    by (simp add: demo_coor_def demo_sdk_def sdk_state.defs)
  moreover have "le32 (nth ?f) 0 = OTA_UPGRADE_FILE_ID"
    by (simp add: upgrade_file_def le32_def OTA_UPGRADE_FILE_ID_def)
  ultimately show ?thesis
    using u upgrade_file_wf(2) [OF assms] by (simp add: file_in_flash_def demo_chip_def FLASH_OTA_NEWIMAGE_ADDR_def)
qed

lemma demo_stop_pay:
  assumes "12 \<le> length img" "length img < 0x2FF00"
  shows "stop_pay (upgrade_file img) 62 = \<lparr>fileVer = 0x20000000, imageType = 0x7852, manufaurerCode = 0x1141,
    imageSize = of_nat (length img + 66)\<rparr>"
    and "start_accepted (stop_pay (upgrade_file img) 62)"
proof -
  have u: "unat (of_nat (length img + 66) :: u32) = length img + 66"
    using assms by (simp add: unat_of_nat del: of_nat_add)
  have "le32 (nth (upgrade_file img)) 14 = 0x20000000" "le16 (nth (upgrade_file img)) 12 = 0x7852" "le16 (nth (upgrade_file img)) 10 = 0x1141"
    by (simp_all add: upgrade_file_def le32_def le16_def push_bit_eq_mult)
  then show s: "stop_pay (upgrade_file img) 62 = \<lparr>fileVer = 0x20000000, imageType = 0x7852, manufaurerCode = 0x1141,
    imageSize = of_nat (length img + 66)\<rparr>"
    using upgrade_file_drop(1) [of img] by (simp add: stop_pay_def hdr_info_def)
  show "start_accepted (stop_pay (upgrade_file img) 62)"
    unfolding s using u assms by (simp add: start_accepted_def MANUFACTURER_CODE_def IMAGE_TYPE_def FILE_VERSION_def OTA_MAX_IMAGE_SIZE_def
        word_less_nat_alt del: of_nat_add)
qed

lemma demo_client:
  "timers_ok demo_env demo_asking" "flash_ready demo_asking" "can_open 0x9C prot_1460c8 demo_asking" "fresh demo_asking"
  "\<not> prot_1460c8 (fstat (fp_chip (fl demo_asking))) a" "ota_base demo_asking = 0x40000" "mcuBootAddr demo_asking = 0"
  "manufaurerCode info = 0x1141 \<Longrightarrow> asking info demo_asking"
  using demo_timers_ok
  by (simp_all add: demo_asking_def demo_idle_def flash_ready_def can_open_def demo_sdk_def demo_flash_state_def demo_hw_def
      flash_hw.defs blank_chip_def BATTERY_SAFETY_THRESHOLD_def prot_1460c8_def fresh_def ota_base_def FLASH_OTA_NEWIMAGE_ADDR_def
      asking_def MANUFACTURER_CODE_def) (intro exI conjI, rule refl, simp)

theorem ota_session_upgrades_witness:
  "\<exists>c' s'. ota_session mem_of demo_env demo_env list_c_lib 4 (c_ota_init demo_env (demo_coor demo_file), demo_asking) = Some (c', s') \<and>
     (\<forall>j < 16. fmem_of s' (0x40000 + of_nat j) = demo_file ! (62 + j)) \<and> last (outs s') = SystemReset"
proof -
  have i: "12 \<le> length demo_image" "length demo_image < 0x2FF00" "demo_image ! 8 = 0x4b"
    by (simp_all add: demo_image_def)
  note nor = dev.nor_flash_axioms [of "0x9C" prot_1460c8, folded demo_env_sel(1)]
  note p = demo_stop_pay [OF i(1,2), folded demo_file_def] and f = demo_file_in_flash [OF i, folded demo_file_def]
  have "asking (stop_pay demo_file 62) demo_asking" "length demo_file mod OTA_FRAMESIZE \<noteq> 0" "length demo_file div OTA_FRAMESIZE + 3 = 4"
    using demo_client(8) p(1) demo_wf(2) by (simp_all add: OTA_FRAMESIZE_def)
  then show ?thesis
    using ota_session_upgrades [OF nor nor demo_wf(1) starts_mem_of f p(2) _ demo_client(1-4), of list_c_lib] demo_client(5-7) demo_wf(2)
    by (auto simp: area_ready_def)
qed

definition demo_image48 :: "u8 list" where
  "demo_image48 = demo_image @ replicate 18 0xA5"

theorem ota_session_full_last_block_witness:
  "length (upgrade_file demo_image48) = 96 \<and>
   (\<exists>c' s'. ota_session mem_of demo_env demo_env list_c_lib 3 (c_ota_init demo_env (demo_coor (upgrade_file demo_image48)), demo_asking) =
      Some (c', s') \<and> ota_state s' = OTA_STA_IDLE)"
proof -
  have i: "12 \<le> length demo_image48" "length demo_image48 < 0x2FF00" "demo_image48 ! 8 = 0x4b"
    by (simp_all add: demo_image48_def demo_image_def nth_append)
  note nor = dev.nor_flash_axioms [of "0x9C" prot_1460c8, folded demo_env_sel(1)]
  note p = demo_stop_pay [OF i(1,2)] and f = demo_file_in_flash [OF i]
  have l: "length (upgrade_file demo_image48) = 96"
    using upgrade_file_drop(1) by (simp add: demo_image48_def demo_image_def)
  then have "asking (stop_pay (upgrade_file demo_image48) 62) demo_asking" "length (upgrade_file demo_image48) mod OTA_FRAMESIZE = 0"
      "length (upgrade_file demo_image48) div OTA_FRAMESIZE + 1 = 3"
    using demo_client(8) p(1) by (simp_all add: OTA_FRAMESIZE_def)
  then show ?thesis
    using ota_session_full_last_block [OF nor nor upgrade_file_wf(1) [OF i] starts_mem_of f p(2) _ demo_client(1-4), of list_c_lib]
      demo_client(5-7) l by auto
qed

end
