(* ===== verification/App_Coor.thy ===== *)
theory App_Coor
  imports App_Sec App_Buf Ota_Coor
begin

text \<open>
  The demo coordinator, \<^verbatim>\<open>demo/associate_coor/app.c\<close>: starting the PAN, the key material, the admission of
  devices with the assignment of short addresses, and the indirect data it sends to them. The upgrade server
  and the data indication are in \<^verbatim>\<open>Ota_Coor\<close>. Variables and functions that the device application also has
  carry the prefix \<open>c_\<close> or \<open>coor_\<close>.
\<close>

section \<open>State\<close>

definition END_DEVICE_NUM :: u8 where "END_DEVICE_NUM = 16"
definition MAC_DEV_TABLE_MAX_LEN :: u8 where "MAC_DEV_TABLE_MAX_LEN = 16"
definition MAC_ATTR_SHORT_ADDRESS :: u8 where "MAC_ATTR_SHORT_ADDRESS = 0x53"
definition coor_addr_short :: u16 where "coor_addr_short = 0x2211"
definition ZB_TURN_OFF_ORDER :: u8 where "ZB_TURN_OFF_ORDER = 15"
definition KEY_ID_MODE_KEY_EXPLICIT_8 :: u8 where "KEY_ID_MODE_KEY_EXPLICIT_8 = 3"
definition SECURITY_LEVEL_ENC_MIC_64 :: u8 where "SECURITY_LEVEL_ENC_MIC_64 = 6"

record my_device_t =
  md_extAddr :: "u8 list"
  md_shortAddr :: u16
  md_pan_id :: u16

record app_coor = ota_coor +
  end_device :: "my_device_t list"
  device_index :: u8
  indirect_device_index :: u8
  device_ext_addr :: "u8 list"
  device_addr_short :: u16
  c_pan_id :: u16
  c_pKeyUsgDesc :: "addr list"
  c_pKeyIDDesc :: addr
  g_node_addr :: "u16 list"
  g_node_num_cur :: u16
  g_mac_msdu_handle :: u8
  g_node_index :: u32
  g_data_txto_allnode_timer :: addr
  g_app_data_sn :: u32
  data_send_indir_timer :: addr
  test_cnt :: u32

text \<open>Where the linker puts the callbacks.\<close>

record coor_at =
  data_send_indir_timer_cb_at :: addr
  app_data_txto_allnode_at :: addr
  mac_send_data_indirect_at :: addr

section \<open>Configuration\<close>

definition coor_config :: "tn_lib \<Rightarrow> sec_vars \<Rightarrow> sec_lib \<Rightarrow> 'a app_coor_scheme \<Rightarrow> 'a app_coor_scheme option" where
  "coor_config L V D s =
     do {
       (_, _, s1) \<leftarrow> tl_zbMacAttrSet L V MAC_ATTR_SECURITY_ENABLED NULL (\<lambda>_. ZB_MAC_SECURITY) 1 s;
       (_, _, s2) \<leftarrow> tl_zbMacAttrSet L V MAC_ATTR_SHORT_ADDRESS NULL (nth (bytes16 coor_addr_short)) 2 s1;
       (_, _, s3) \<leftarrow> tl_zbMacAttrSet L V MAC_DEFAULT_KEY_SOURCE NULL (nth default_key_source) 8 s2;
       (us, k, m) \<leftarrow> common_material D (mem s3);
       Some (s3\<lparr>mem := m, c_pKeyUsgDesc := us, c_pKeyIDDesc := k\<rparr>)
     }"

definition pan_start :: "'a app_coor_scheme \<Rightarrow> 'a app_coor_scheme" where
  "pan_start s = emit (MlmeStartRequest \<lparr>start_panId = c_pan_id s, start_logicalChannel = 24,
     start_beaconOrder = ZB_TURN_OFF_ORDER, start_superframeOrder = ZB_TURN_OFF_ORDER, start_panCoordinator = 1\<rparr>) s"

section \<open>Admission\<close>

text \<open>
  The search of \<^verbatim>\<open>add_key_material\<close> through the device table. \<^verbatim>\<open>tl_zbMacAttrGet\<close> is given the address of
  the loop variable, so the loop goes on from the index it leaves there.
\<close>

partial_function (option) dev_search :: "tn_lib \<Rightarrow> u8 \<Rightarrow> 'a app_coor_scheme \<Rightarrow> (addr \<times> 'a app_coor_scheme) option" where
  "dev_search L index s =
     (if index < MAC_DEV_TABLE_MAX_LEN then
        do {
          (_, buf, index1) \<leftarrow> tl_zbMacAttrGet L MAC_DEVICE_TABLE (\<lambda>_. 0) index s;
          let pDevDesc = le32 buf 0;
          if pDevDesc \<noteq> NULL \<and> long_address (mem s) pDevDesc = device_ext_addr s
          then Some (pDevDesc, s\<lparr>device_addr_short := short_address (mem s) pDevDesc\<rparr>)
          else dev_search L (index1 + 1) s
        }
      else Some (NULL, s))"

definition coor_add_key_material ::
  "tn_lib \<Rightarrow> sec_vars \<Rightarrow> sec_lib \<Rightarrow> 'a app_coor_scheme \<Rightarrow> (bool \<times> 'a app_coor_scheme) option" where
  "coor_add_key_material L V D s =
     do {
       (pDevDesc, s1) \<leftarrow> dev_search L 0 s;
       if pDevDesc \<noteq> NULL then
         Some (True, s1\<lparr>mem := mac_deviceDesc_reset D pDevDesc (c_pan_id s1) (device_addr_short s1) (device_ext_addr s1) 0 False (mem s1)\<rparr>)
       else if device_index s1 \<ge> END_DEVICE_NUM then Some (False, s1)
       else do {
         let (pDevDesc, m1) = mac_deviceDesc_alloc D (mem s1);
         if pDevDesc = NULL then None
         else do {
           let short = (device_addr_short s1 AND 0xfff0) + ucast (device_index s1);
           let m2 = mac_deviceDesc_set D pDevDesc (c_pan_id s1) short (device_ext_addr s1) 0 False m1;
           (_, _, s2) \<leftarrow> tl_zbMacAttrSet L V MAC_DEVICE_TABLE pDevDesc (\<lambda>_. 0) (device_index s1)
                           (s1\<lparr>device_addr_short := short, mem := m2\<rparr>);
           let (pKeyDevDesc, m3) = mac_keydevDesc_alloc D (mem s2);
           if pKeyDevDesc = NULL then None
           else do {
             let m4 = mac_keydevDesc_set D pKeyDevDesc pDevDesc False False m3;
             let (pKeyDesc, m5) = mac_keyDesc_alloc D m4;
             if pKeyDesc = NULL then None
             else do {
               let m6 = mac_keyDesc_set D pKeyDesc [c_pKeyIDDesc s2] [pKeyDevDesc] (c_pKeyUsgDesc s2) test_key m5;
               (_, _, s3) \<leftarrow> tl_zbMacAttrSet L V MAC_KEY_TABLE pKeyDesc (\<lambda>_. 0) (device_index s2) (s2\<lparr>mem := m6\<rparr>);
               Some (True, s3\<lparr>device_index := device_index s3 + 1\<rparr>)
             }
           }
         }
       }
     }"

definition data_send :: "sdk_env \<Rightarrow> coor_at \<Rightarrow> 'a app_coor_scheme \<Rightarrow> 'a app_coor_scheme option" where
  "data_send E A s =
     do {
       s1 \<leftarrow> (if data_send_indir_timer s \<noteq> NULL
              then do { (e, s') \<leftarrow> TL_ZB_TIMER_CANCEL E (data_send_indir_timer s) s; Some (s'\<lparr>data_send_indir_timer := e\<rparr>) }
              else Some s);
       (e, s2) \<leftarrow> TL_ZB_TIMER_SCHEDULE E (data_send_indir_timer_cb_at A) 5000 s1;
       Some (s2\<lparr>data_send_indir_timer := e\<rparr>)
     }"

text \<open>The argument is the address of the device that asks to join.\<close>

definition MyAssociateIndCb ::
  "sdk_env \<Rightarrow> coor_at \<Rightarrow> tn_lib \<Rightarrow> sec_vars \<Rightarrow> sec_lib \<Rightarrow> u8 list option \<Rightarrow> 'a app_coor_scheme \<Rightarrow> 'a app_coor_scheme option" where
  "MyAssociateIndCb E A L V D pData s =
     (case pData of None \<Rightarrow> Some s
      | Some devAddress \<Rightarrow>
          do {
            (ok, s1) \<leftarrow> coor_add_key_material L V D (s\<lparr>device_ext_addr := devAddress\<rparr>);
            if \<not> ok then Some s1
            else do {
              let idx = unat (device_addr_short s1 AND 0xf);
              (_, pan, _) \<leftarrow> tl_zbMacAttrGet L MAC_ATTR_PAN_ID (\<lambda>_. 0) 0 s1;
              let s2 = s1\<lparr>end_device := (end_device s1)[idx :=
                         \<lparr>md_extAddr = devAddress, md_shortAddr = device_addr_short s1, md_pan_id = le16 pan 0\<rparr>]\<rparr>;
              data_send E A (emit (MlmeAssociateResponse \<lparr>resp_devAddress = devAddress,
                                     resp_shortAddress = device_addr_short s2, resp_status = MAC_SUCCESS\<rparr>) s2)
            }
          })"

section \<open>Indirect data\<close>

definition data_send_indir_timer_cb :: "coor_at \<Rightarrow> 'a app_coor_scheme \<Rightarrow> int \<times> 'a app_coor_scheme" where
  "data_send_indir_timer_cb A s = (0, emit (TaskPost (mac_send_data_indirect_at A)) s)"

definition mac_send_data_indirect :: "tn_lib \<Rightarrow> ev_layout \<Rightarrow> 'a app_coor_scheme \<Rightarrow> 'a app_coor_scheme option" where
  "mac_send_data_indirect L B s =
     do {
       (_, pan, _) \<leftarrow> tl_zbMacAttrGet L MAC_ATTR_PAN_ID (\<lambda>_. 0) 0 s;
       let d = end_device s ! unat (indirect_device_index s);
       let req = data_req_zero\<lparr>srcAddr := addr_zero\<lparr>addrMode := ZB_ADDR_16BIT_DEV_OR_BROADCAST\<rparr>,
                   dstAddr := \<lparr>addr_bytes = bytes16 (md_shortAddr d) @ replicate 6 0, addrMode = ZB_ADDR_16BIT_DEV_OR_BROADCAST\<rparr>,
                   dstPanId := le16 pan 0, msduHandle := 0,
                   txOptions := MAC_TX_OPTION_ACKNOWLEDGED_BIT OR MAC_TX_OPTION_INDIRECT_TRANSMISSION_BIT,
                   data_sec := \<lparr>key_source = default_key_source, securityLevel = SECURITY_LEVEL_ENC_MIC_64,
                                key_id_mode = KEY_ID_MODE_KEY_EXPLICIT_8, key_index = default_key_index\<rparr>\<rparr>;
       let (pay, s1) = buf_allocate 4 s;
       if pay = NULL then None
       else do {
         let s2 = s1\<lparr>mem := (mem s1)(pay := test_cnt s1), test_cnt := test_cnt s1 + 1\<rparr>;
         s3 \<leftarrow> buf_free B pay (emit (McpsDataRequest req (bytes32 (mem s2 pay))) s2);
         let s4 = s3\<lparr>indirect_device_index := indirect_device_index s3 + 1\<rparr>;
         Some (if indirect_device_index s4 \<ge> device_index s4 then s4\<lparr>indirect_device_index := 0\<rparr> else s4)
       }
     }"

text \<open>
  \<^verbatim>\<open>app_data_txto_allnode\<close> writes the sequence number through the pointer before it checks it: with no buffer
  left that is a write to address 0, whose outcome C leaves undefined, the result \<open>None\<close>.
\<close>

definition app_data_txto_allnode :: "tn_lib \<Rightarrow> ev_layout \<Rightarrow> 'a app_coor_scheme \<Rightarrow> (int \<times> 'a app_coor_scheme) option" where
  "app_data_txto_allnode L B s =
     do {
       (_, pan, _) \<leftarrow> tl_zbMacAttrGet L MAC_ATTR_PAN_ID (\<lambda>_. 0) 0 s;
       if g_node_num_cur s > 0 then do {
         let dst = g_node_addr s ! unat (g_node_index s);
         let s1 = s\<lparr>g_node_index := g_node_index s + 1\<rparr>;
         let s2 = (if g_node_index s1 \<ge> ucast (g_node_num_cur s1) then s1\<lparr>g_node_index := 0\<rparr> else s1);
         let req = data_req_zero\<lparr>srcAddr := addr_zero\<lparr>addrMode := ZB_ADDR_16BIT_DEV_OR_BROADCAST\<rparr>,
                     dstAddr := \<lparr>addr_bytes = bytes16 dst @ replicate 6 0, addrMode = ZB_ADDR_16BIT_DEV_OR_BROADCAST\<rparr>,
                     dstPanId := le16 pan 0, msduHandle := g_mac_msdu_handle s2 AND 0x3f,
                     txOptions := MAC_TX_OPTION_ACKNOWLEDGED_BIT OR MAC_TX_OPTION_INDIRECT_TRANSMISSION_BIT\<rparr>;
         let (msdu, s3) = buf_allocate 54 (s2\<lparr>g_mac_msdu_handle := g_mac_msdu_handle s2 + 1\<rparr>);
         if msdu = NULL then None
         else do {
           let m1 = (mem s3)(msdu := g_app_data_sn s3);
           let m2 = fold (\<lambda>i m. set_payload_byte m msdu i (of_nat (i - 4))) [4..<54] m1;
           let s4 = s3\<lparr>mem := m2, g_app_data_sn := g_app_data_sn s3 + 1\<rparr>;
           s5 \<leftarrow> buf_free B msdu (emit (McpsDataRequest req (map (payload_byte m2 msdu) [0..<54])) s4);
           Some (0, s5)
         }
       }
       else Some (- 1, s)
     }"

definition app_data_transmit_toggle :: "sdk_env \<Rightarrow> coor_at \<Rightarrow> 'a app_coor_scheme \<Rightarrow> 'a app_coor_scheme option" where
  "app_data_transmit_toggle E A s =
     (if g_data_txto_allnode_timer s \<noteq> NULL then
        do { (e, s1) \<leftarrow> TL_ZB_TIMER_CANCEL E (g_data_txto_allnode_timer s) s; Some (s1\<lparr>g_data_txto_allnode_timer := e\<rparr>) }
      else
        do {
          (e, s1) \<leftarrow> TL_ZB_TIMER_SCHEDULE E (app_data_txto_allnode_at A) 3000 (s\<lparr>g_node_index := 0\<rparr>);
          Some (s1\<lparr>g_data_txto_allnode_timer := e\<rparr>)
        })"

section \<open>Timers beside other memory\<close>

text \<open>All running events lie in \<open>N\<close>: then the timer service writes nothing outside \<open>N\<close>.\<close>

definition timers_in :: "sdk_env \<Rightarrow> addr set \<Rightarrow> 'a sdk_state_scheme \<Rightarrow> bool" where
  "timers_in E N s \<longleftrightarrow> pool_ok (evt_pool E) \<and> (\<forall>i<24. evt_addr (evt_pool E) i \<in> N) \<and>
     (\<exists>xs. timer_inv (evt_pool E) s xs \<and> set xs \<subseteq> N)"

lemma timers_in_cong:
  assumes "timers_in E N s" "timer_head s' = timer_head s" "used_num s' = used_num s" "tev s' = tev s"
    and "\<And>a. a \<in> N \<Longrightarrow> mem s' a = mem s a"
  shows "timers_in E N s'"
proof -
  obtain xs where xs: "timer_inv (evt_pool E) s xs" "set xs \<subseteq> N"
    using assms(1) by (auto simp: timers_in_def)
  have "chain (mem s') p ys = chain (mem s) p ys" if "set ys \<subseteq> N" for p ys
    using that assms(5) by (induction ys arbitrary: p) auto
  then have "timer_inv (evt_pool E) s' xs"
    using xs assms(2-4) by (simp add: timer_inv_def used_slots_def)
  then show ?thesis
    using assms(1) xs(2) by (auto simp: timers_in_def)
qed

lemma ev_on_timer_mem: "ev_on_timer clk e tmo s = Some s' \<Longrightarrow> a \<noteq> e \<Longrightarrow> mem s' a = mem s a"
  by (auto simp: ev_on_timer_def ev_timer_nearestUpdate_def drv_disable_irq_def LIST_ADD_def
      drv_restore_irq_def sys_exceptionPost_def Let_def split: option.splits if_splits)

lemma free_get_loop_mem: "mem (snd (free_get_loop B is s)) = mem s"
  by (induction "is") (auto simp: Let_def)

lemma ev_timer_add_mem: "ev_timer_add clk B f d tmo s = Some (e, s') \<Longrightarrow> a \<noteq> e \<Longrightarrow> mem s' a = mem s a"
  using free_get_loop_mem [of B "[0..<unat g_ev_timer_maxNum]" s]
  by (auto simp: ev_timer_add_def ev_timer_freeGet_def sys_exceptionPost_def Let_def dest!: ev_on_timer_mem
      split: prod.splits if_splits)

lemma exception_frame [simp]:
  "timer_inv B (sys_exceptionPost l x s) xs = timer_inv B s xs" "mem (sys_exceptionPost l x s) = mem s"
  by (simp_all add: timer_inv_def used_slots_def sys_exceptionPost_def Let_def)

lemma schedule_in:
  assumes "timers_in E N s"
  shows "\<exists>e s'. TL_ZB_TIMER_SCHEDULE E f tmo s = Some (e, s') \<and> timers_in E N s' \<and> same_app s s' \<and> (\<forall>a. a \<notin> N \<longrightarrow> mem s' a = mem s a)"
proof -
  let ?B = "evt_pool E" and ?s = "snd (clock_time s)"
  let ?i = "?s\<lparr>reg_irq_en := 0\<rparr>"
  obtain xs where p: "pool_ok ?B" and inv: "timer_inv ?B ?i xs" and N: "set xs \<subseteq> N" "\<forall>i<24. evt_addr ?B i \<in> N"
    using assms by (auto simp: timers_in_def)
  have "\<exists>e s1 ys. ev_timer_add (fst (clock_time s)) ?B f NULL tmo ?i = Some (e, s1) \<and> timer_inv ?B s1 ys \<and> set ys \<subseteq> N \<and>
          (\<forall>a. a \<notin> N \<longrightarrow> mem s1 a = mem ?i a)"
  proof (cases "used_slots ?B ?i = {..<24}")
    case True
    then show ?thesis
      using ev_timer_add_full [OF inv True] inv N
      by (intro exI [of _ NULL] exI [of _ "sys_exceptionPost 199 SYS_EXCEPTTION_COMMON_TIMER_EVEVT ?i"] exI [of _ xs])
         simp
  next
    case False
    then obtain i s1 where "i < 24" "ev_timer_add (fst (clock_time s)) ?B f NULL tmo ?i = Some (evt_addr ?B i, s1)"
        "timer_inv ?B s1 (evt_addr ?B i # xs)"
      using ev_timer_add_slot [OF inv p False] by blast
    then show ?thesis
      using N ev_timer_add_mem by (metis insert_subset list.simps(15))
  qed
  then obtain e s1 ys where r: "ev_timer_add (fst (clock_time s)) ?B f NULL tmo ?i = Some (e, s1)"
      and ys: "timer_inv ?B s1 ys" "set ys \<subseteq> N" "\<forall>a. a \<notin> N \<longrightarrow> mem s1 a = mem ?i a"
    by blast
  let ?t = "drv_restore_irq (ucast (reg_irq_en ?s)) s1"
  have post: "ev_timer_taskPost (fst (clock_time s)) ?B f NULL tmo ?s = Some (e, ?t)"
    using r by (simp add: ev_timer_taskPost_def drv_disable_irq_def)
  have "same_app s ?t"
    using ev_timer_taskPost_more [OF post] by (rule same_app_tick)
  moreover have "timers_in E N ?t"
    using ys(1,2) p N by (auto simp: timers_in_def drv_restore_irq_def)
  moreover have "\<forall>a. a \<notin> N \<longrightarrow> mem ?t a = mem s a"
    using ys(3) by (simp add: drv_restore_irq_def clock_time_def)
  ultimately show ?thesis
    using post by (simp add: TL_ZB_TIMER_SCHEDULE_def case_prod_beta Let_def)
qed

lemma cancel_in:
  assumes "timers_in E N s"
  shows "\<exists>e' s'. TL_ZB_TIMER_CANCEL E e s = Some (e', s') \<and> timers_in E N s' \<and> same_app s s' \<and> (\<forall>a. a \<notin> N \<longrightarrow> mem s' a = mem s a)"
proof -
  let ?B = "evt_pool E"
  obtain xs where p: "pool_ok ?B" and inv: "timer_inv ?B s xs" and N: "set xs \<subseteq> N" "\<forall>i<24. evt_addr ?B i \<in> N"
    using assms by (auto simp: timers_in_def)
  obtain s' where s': "ev_unon_timer ?B e s = Some s'" "timer_inv ?B s' (remove1 e xs)"
    using ev_unon_timer_inv [OF inv p] by blast
  have c: "chain (mem s) (timer_head s) xs"
    using inv by (simp add: timer_inv_def)
  have fr: "mem s' a = mem s a" if "a \<notin> N" for a
  proof (cases "e \<in> set xs")
    case True
    then obtain as bs where xs: "xs = as @ e # bs"
      by (meson split_list)
    obtain h m n where "ev_unon_timer ?B e s = Some (stopped ?B e h m n s)" "\<forall>a. a \<notin> set as \<longrightarrow> m a = mem s a"
      using ev_unon_timer_present [OF c [unfolded xs]] by blast
    then show ?thesis
      using s'(1) N(1) that by (auto simp: stopped_def xs)
  next
    case False
    then show ?thesis
      using s'(1) ev_unon_timer_absent [OF c False] by (cases "e = NULL") (auto simp: ev_unon_timer_def sys_exceptionPost_def Let_def)
  qed
  have "same_app s s'"
    using ev_unon_timer_more [OF s'(1)] by (rule same_app_more)
  moreover have "timers_in E N s'"
    using s'(2) p N set_remove1_subset [of e xs] by (auto simp: timers_in_def)
  ultimately show ?thesis
    using s'(1) fr assms by (auto simp: TL_ZB_TIMER_CANCEL_def ev_timer_taskCancel_def)
qed

section \<open>The registered devices\<close>

text \<open>
  The invariant: the device table holds one descriptor per registered device, in order of registration, with
  the short addresses \<open>base\<close>, \<open>base + 1\<close>, and so on; there is one key per device and room for the remaining
  ones; \<^verbatim>\<open>end_device\<close> agrees.
\<close>

definition mem_ok ::
  "(wmem \<Rightarrow> addr \<Rightarrow> addr list \<Rightarrow> bool) \<Rightarrow> addr set \<Rightarrow> addr set \<Rightarrow> addr set \<Rightarrow> (wmem \<Rightarrow> addr set) \<Rightarrow> (wmem \<Rightarrow> addr set)
   \<Rightarrow> wmem \<Rightarrow> addr \<Rightarrow> addr \<Rightarrow> addr list \<Rightarrow> addr list \<Rightarrow> bool" where
  "mem_ok rep heads slots kslots dfree kfree m dl kl ds ks \<longleftrightarrow>
     rep m dl ds \<and> rep m kl ks \<and> dl \<in> heads \<and> kl \<in> heads \<and> dl \<noteq> kl \<and> set ds \<subseteq> slots - dfree m \<and> set ks \<subseteq> kslots - kfree m"

definition tables_ok ::
  "(wmem \<Rightarrow> addr \<Rightarrow> addr list \<Rightarrow> bool) \<Rightarrow> addr set \<Rightarrow> addr set \<Rightarrow> addr set \<Rightarrow> (wmem \<Rightarrow> addr set) \<Rightarrow> (wmem \<Rightarrow> addr set) \<Rightarrow> (wmem \<Rightarrow> addr set)
   \<Rightarrow> (u8 list \<times> u16) list \<Rightarrow> 'a sdk_state_scheme \<Rightarrow> addr list \<Rightarrow> addr list \<Rightarrow> bool" where
  "tables_ok rep heads slots kslots dfree kdfree kfree reg s ds ks \<longleftrightarrow>
     mem_ok rep heads slots kslots dfree kfree (mem s) (pib_ptr devTable s) (pib_ptr keyTable s) ds ks \<and>
     unat (pib_u8 devTableEntries s) = length ds \<and> unat (pib_u8 keyTableEntries s) = length ks \<and> length ks = length reg \<and>
     map (dev_desc (mem s)) ds = reg \<and>
     16 \<le> card (dfree (mem s)) + length reg \<and> 16 \<le> card (kdfree (mem s)) + length reg \<and> 16 \<le> card (kfree (mem s)) + length reg"

definition reg_wf :: "u16 \<Rightarrow> (u8 list \<times> u16) list \<Rightarrow> bool" where
  "reg_wf base reg \<longleftrightarrow> base AND 0xf = 0 \<and> length reg \<le> 16 \<and> distinct (map fst reg) \<and>
     (\<forall>i < length reg. snd (reg ! i) = base + of_nat i \<and> length (fst (reg ! i)) = 8)"

definition devices_ok :: "u16 \<Rightarrow> (u8 list \<times> u16) list \<Rightarrow> 'a app_coor_scheme \<Rightarrow> bool" where
  "devices_ok base reg s \<longleftrightarrow> unat (device_index s) = length reg \<and> device_addr_short s AND 0xfff0 = base \<and>
     length (end_device s) = 16 \<and>
     (\<forall>i < length reg. md_extAddr (end_device s ! i) = fst (reg ! i) \<and> md_shortAddr (end_device s ! i) = snd (reg ! i))"

text \<open>What the coordinator does with a request, on the list of registered devices.\<close>

definition reg_assoc :: "u16 \<Rightarrow> u8 list \<Rightarrow> (u8 list \<times> u16) list \<Rightarrow> u16 option \<times> (u8 list \<times> u16) list" where
  "reg_assoc base ext reg =
     (case map_of reg ext of
        Some sh \<Rightarrow> (Some sh, reg)
      | None \<Rightarrow> if length reg \<ge> 16 then (None, reg)
                else (Some (base + of_nat (length reg)), reg @ [(ext, base + of_nat (length reg))]))"

lemma nibble:
  fixes base :: u16
  assumes "base AND 0xf = 0" "i < 16"
  shows "(base + of_nat i) AND 0xf = of_nat i" "(base + of_nat i) AND 0xfff0 = base"
proof -
  have m: "(0xf :: u16) = mask 4"
    by (simp add: mask_eq_exp_minus_1)
  have n: "(0xfff0 :: u16) = NOT (mask 4)"
    by (simp add: mask_eq_exp_minus_1 not_eq_complement)
  have "take_bit 4 (of_nat i :: u16) = of_nat i"
    using assms(2) by (simp add: take_bit_of_nat take_bit_nat_eq_self)
  then have i: "(of_nat i :: u16) AND mask 4 = of_nat i"
    by (simp add: take_bit_eq_mask)
  have b: "base AND mask 4 = 0"
    using assms(1) m by simp
  have z: "base AND of_nat i = 0"
  proof -
    have "base AND of_nat i = base AND (of_nat i AND mask 4)"
      by (simp only: i)
    also have "\<dots> = (base AND mask 4) AND of_nat i"
      by (simp only: and.assoc and.commute and.left_commute)
    finally show ?thesis
      by (simp add: b)
  qed
  have s: "base + of_nat i = base OR of_nat i"
    using z by (simp add: disjunctive_add_eq_or)
  show "(base + of_nat i) AND 0xf = of_nat i"
    unfolding s m using b i by (simp add: bit.conj_disj_distrib2)
  have "(of_nat i :: u16) AND NOT (mask 4) = 0"
  proof -
    have "(of_nat i :: u16) AND NOT (mask 4) = (of_nat i AND mask 4) AND NOT (mask 4)"
      by (simp only: i)
    then show ?thesis
      by (simp add: and.assoc)
  qed
  moreover have "base AND NOT (mask 4) = base"
  proof -
    have "base = base AND (mask 4 OR NOT (mask 4))"
      by simp
    also have "\<dots> = base AND NOT (mask 4)"
      by (simp only: bit.conj_disj_distrib b) simp
    finally show ?thesis ..
  qed
  ultimately show "(base + of_nat i) AND 0xfff0 = base"
    unfolding s n by (simp add: bit.conj_disj_distrib2)
qed

lemma reg_assoc_wf:
  assumes "reg_wf base reg" "length ext = 8"
  shows "reg_wf base (snd (reg_assoc base ext reg))"
proof (cases "map_of reg ext")
  case None
  then have "ext \<notin> fst ` set reg"
    by (simp add: map_of_eq_None_iff)
  then show ?thesis
    using assms None by (auto simp: reg_assoc_def reg_wf_def nth_append less_Suc_eq)
qed (use assms in \<open>simp add: reg_assoc_def\<close>)

lemma get_device_entry:
  "tl_zbMacAttrGet L MAC_DEVICE_TABLE b i s = Some (table_result b i (sec_table_get L devTable devTableEntries i s))"
  by (simp add: tl_zbMacAttrGet_def mac_attr_defs)

context mac_descs
begin

lemma dev_search_find:
  assumes "table_rep rep devTable devTableEntries s ds" "length ds \<le> 16" "k \<le> 16"
  shows "dev_search L (of_nat k) s =
           Some (case find (\<lambda>d. long_address (mem s) d = device_ext_addr s) (drop k ds) of
                   None \<Rightarrow> (NULL, s) | Some d \<Rightarrow> (d, s\<lparr>device_addr_short := short_address (mem s) d\<rparr>))"
  using assms(3)
proof (induction "16 - k" arbitrary: k)
  case 0
  then have "k = 16" by simp
  then show ?case
    using assms(2) by (subst dev_search.simps) (simp add: MAC_DEV_TABLE_MAX_LEN_def)
next
  case (Suc n)
  then have k: "k < 16" "n = 16 - Suc k" by simp_all
  have u: "unat (of_nat k :: u8) = k"
    using k(1) by (simp add: unat_of_nat)
  have lt: "(of_nat k :: u8) < MAC_DEV_TABLE_MAX_LEN"
    using k(1) u by (simp add: MAC_DEV_TABLE_MAX_LEN_def word_less_nat_alt)
  have g: "sec_table_get L devTable devTableEntries (of_nat k) s = spec_get k ds"
    using table_get [OF assms(1)] u by simp
  have ih: "dev_search L (of_nat k + 1) s =
           Some (case find (\<lambda>d. long_address (mem s) d = device_ext_addr s) (drop (Suc k) ds) of
                   None \<Rightarrow> (NULL, s) | Some d \<Rightarrow> (d, s\<lparr>device_addr_short := short_address (mem s) d\<rparr>))"
    using Suc.hyps(1) [OF k(2)] k(1) by (simp add: add.commute)
  show ?case
  proof (cases "k < length ds")
    case True
    then have "ds ! k \<noteq> NULL"
      using rep_distinct assms(1) by (auto simp: table_rep_def dest!: nth_mem)
    then show ?thesis
      using True lt ih
      by (subst dev_search.simps) (simp add: get_device_entry g spec_get_def table_result_def le32_put_ptr Let_def Cons_nth_drop_Suc [symmetric])
  next
    case False
    then have "le32 (\<lambda>_. 0) 0 = NULL"
      by (simp add: le32_def)
    then show ?thesis
      using False lt ih
      by (subst dev_search.simps) (simp add: get_device_entry g spec_get_def table_result_def Let_def)
  qed
qed

lemmas kept = keepsD [where rep = rep]

lemma admit_dev:
  fixes pan sh :: u16 and fc :: u32 and ex :: bool
  assumes ok: "mem_ok rep heads slots kslots dfree kfree m dl kl ds ks" and "dfree m \<noteq> {}" "length ext = 8"
    and al: "mac_deviceDesc_alloc D m = (p, m1)"
  defines "m2 \<equiv> mac_deviceDesc_set D p pan sh ext fc ex m1"
  defines "m3 \<equiv> tn_list_add L dl p m2"
  shows "p \<noteq> NULL" "p \<in> dfree m" "mem_ok rep heads slots kslots dfree kfree m3 dl kl (ds @ [p]) ks"
    "map (dev_desc m3) (ds @ [p]) = map (dev_desc m) ds @ [(ext, sh)]"
    "dfree m3 = dfree m - {p}" "kdfree m3 = kdfree m" "kfree m3 = kfree m" "a \<notin> own \<Longrightarrow> m3 a = m a"
proof -
  have o: "rep m dl ds" "rep m kl ks" "dl \<in> heads" "kl \<in> heads" "dl \<noteq> kl" "set ds \<subseteq> slots - dfree m" "set ks \<subseteq> kslots - kfree m"
    using ok by (simp_all add: mem_ok_def)
  have A: "p \<in> dfree m" "dfree m1 = dfree m - {p}" "kdfree m1 = kdfree m" "kfree m1 = kfree m"
    "keeps rep own heads (slots - dfree m \<union> (kslots - kfree m)) (slots - dfree m) m m1"
    using dev_alloc [OF al] assms(2) by auto
  then have p: "p \<in> slots" "p \<notin> set ds" "p \<notin> set ks"
    using pools(3) pools(4) [of m] o(6,7) by auto
  show "p \<noteq> NULL" "p \<in> dfree m"
    using p(1) A(1) pools(1) by auto
  have B: "dev_desc m2 p = (ext, sh)" "dfree m2 = dfree m1" "kdfree m2 = kdfree m1" "kfree m2 = kfree m1"
    "keeps rep own heads (slots \<union> kslots) (slots - {p}) m1 m2"
    using dev_set [OF p(1) assms(3) m2_def [THEN meta_eq_to_obj_eq]] by simp_all
  have n1: "set ds \<subseteq> slots - dfree m \<union> (kslots - kfree m)" "set ks \<subseteq> slots - dfree m \<union> (kslots - kfree m)"
    and n2: "set ds \<subseteq> slots \<union> kslots" "set ks \<subseteq> slots \<union> kslots" and n3: "\<And>d. d \<in> set ds \<Longrightarrow> d \<in> slots - dfree m \<and> d \<in> slots - {p}"
    using o(6,7) p(2) by auto
  note r1 = kept(1) [OF A(5) o(3) n1(1) o(1)] kept(1) [OF A(5) o(4) n1(2) o(2)]
  note r2 = kept(1) [OF B(5) o(3) n2(1) r1(1)] kept(1) [OF B(5) o(4) n2(2) r1(2)]
  have d2: "dev_desc m2 d = dev_desc m d" if "d \<in> set ds" for d
    using n3 [OF that] kept(2) [OF A(5), of d] kept(2) [OF B(5), of d] by simp
  have sub: "set (p # ds) \<subseteq> slots \<union> kslots"
    using p(1) o(6) by auto
  have C: "dfree m3 = dfree m2" "kdfree m3 = kdfree m2" "kfree m3 = kfree m2"
    "keeps rep own (heads - {dl}) (slots \<union> kslots - set (p # ds)) slots m2 m3"
    using table_add [OF o(3) r2(1) sub p(2) m3_def [THEN meta_eq_to_obj_eq]] by simp_all
  have "p \<noteq> dl"
    using p(1) o(3) pools(2) by auto
  then have "rep m3 dl (ds @ [p])"
    unfolding m3_def using add [OF r2(1)] p(2) \<open>p \<noteq> NULL\<close> by simp
  moreover have "set ks \<subseteq> slots \<union> kslots - set (p # ds)"
    using o(6,7) p(3) pools(3) by auto
  then have "rep m3 kl ks"
    using o(4,5) by (intro kept(1) [OF C(4) _ _ r2(2)]) auto
  ultimately show "mem_ok rep heads slots kslots dfree kfree m3 dl kl (ds @ [p]) ks"
    using o p A B C unfolding mem_ok_def by auto
  have "dev_desc m3 d = dev_desc m2 d" if "d \<in> slots" for d
    using that by (rule kept(2) [OF C(4)])
  then show "map (dev_desc m3) (ds @ [p]) = map (dev_desc m) ds @ [(ext, sh)]"
    using d2 n3 B(1) p(1) by simp
  show "dfree m3 = dfree m - {p}" "kdfree m3 = kdfree m" "kfree m3 = kfree m"
    using A B C by simp_all
  show "m3 a = m a" if "a \<notin> own"
    using that kept(3) [OF A(5)] kept(3) [OF B(5)] kept(3) [OF C(4)] by simp
qed

end

context mac_descs
begin

lemma admit_key:
  fixes d :: addr and u b :: bool
  assumes ok: "mem_ok rep heads slots kslots dfree kfree m dl kl ds ks" and "kdfree m \<noteq> {}" "kfree m \<noteq> {}"
    and al: "mac_keydevDesc_alloc D m = (q, m1)" "mac_keyDesc_alloc D (mac_keydevDesc_set D q d u b m1) = (r, m3)"
    and m4: "m4 = mac_keyDesc_set D r ids kds us key m3"
  defines "m5 \<equiv> tn_list_add L kl r m4"
  shows "q \<noteq> NULL" "r \<noteq> NULL" "q \<in> kdfree m" "r \<in> kfree m" "mem_ok rep heads slots kslots dfree kfree m5 dl kl ds (ks @ [r])"
    "map (dev_desc m5) ds = map (dev_desc m) ds"
    "dfree m5 = dfree m" "kdfree m5 = kdfree m - {q}" "kfree m5 = kfree m - {r}" "a \<notin> own \<Longrightarrow> m5 a = m a"
proof -
  have o: "rep m dl ds" "rep m kl ks" "dl \<in> heads" "kl \<in> heads" "dl \<noteq> kl" "set ds \<subseteq> slots - dfree m" "set ks \<subseteq> kslots - kfree m"
    using ok by (simp_all add: mem_ok_def)
  let ?m2 = "mac_keydevDesc_set D q d u b m1"
  have A: "q \<in> kdfree m" "dfree m1 = dfree m" "kdfree m1 = kdfree m - {q}" "kfree m1 = kfree m"
    "keeps rep own heads (slots - dfree m \<union> (kslots - kfree m)) (slots - dfree m) m m1"
    using kd_alloc [OF al(1)] assms(2) by auto
  have q: "q \<in> kdslots"
    using A(1) pools(5) [of m] by auto
  have B: "dfree ?m2 = dfree m1" "kdfree ?m2 = kdfree m1" "kfree ?m2 = kfree m1" "keeps rep own heads (slots \<union> kslots) slots m1 ?m2"
    using kd_set [OF q refl, of d u b m1] by simp_all
  have C: "r \<in> kfree m" "dfree m3 = dfree ?m2" "kdfree m3 = kdfree ?m2" "kfree m3 = kfree ?m2 - {r}"
    "keeps rep own heads (slots - dfree m \<union> (kslots - kfree m)) (slots - dfree m) ?m2 m3"
    using key_alloc [OF al(2)] assms(3) A B by auto
  have r: "r \<in> kslots" "r \<notin> set ks" "r \<notin> set ds"
    using C(1) pools(3) pools(6) [of m] o(6,7) by auto
  have E: "dfree m4 = dfree m3" "kdfree m4 = kdfree m3" "kfree m4 = kfree m3" "keeps rep own heads (slots \<union> kslots) slots m3 m4"
    using key_set [OF r(1) m4] by simp_all
  show "q \<noteq> NULL" "r \<noteq> NULL" "q \<in> kdfree m" "r \<in> kfree m"
    using q r(1) A(1) C(1) pools(1) by auto
  have n1: "set ds \<subseteq> slots - dfree m \<union> (kslots - kfree m)" "set ks \<subseteq> slots - dfree m \<union> (kslots - kfree m)"
    and n2: "set ds \<subseteq> slots \<union> kslots" "set ks \<subseteq> slots \<union> kslots"
    using o(6,7) by auto
  note r1 = kept(1) [OF A(5) o(3) n1(1) o(1)] kept(1) [OF A(5) o(4) n1(2) o(2)]
  note r2 = kept(1) [OF B(4) o(3) n2(1) r1(1)] kept(1) [OF B(4) o(4) n2(2) r1(2)]
  note r3 = kept(1) [OF C(5) o(3) n1(1) r2(1)] kept(1) [OF C(5) o(4) n1(2) r2(2)]
  note r4 = kept(1) [OF E(4) o(3) n2(1) r3(1)] kept(1) [OF E(4) o(4) n2(2) r3(2)]
  have sub: "set (r # ks) \<subseteq> slots \<union> kslots"
    using r(1) o(7) by auto
  have F: "dfree m5 = dfree m4" "kdfree m5 = kdfree m4" "kfree m5 = kfree m4"
    "keeps rep own (heads - {kl}) (slots \<union> kslots - set (r # ks)) slots m4 m5"
    using table_add [OF o(4) r4(2) sub r(2) m5_def [THEN meta_eq_to_obj_eq]] by simp_all
  have "r \<noteq> kl"
    using r(1) o(4) pools(2) by auto
  then have "rep m5 kl (ks @ [r])"
    unfolding m5_def using add [OF r4(2)] r(2) \<open>r \<noteq> NULL\<close> by simp
  moreover have "set ds \<subseteq> slots \<union> kslots - set (r # ks)"
    using o(6,7) r(3) pools(3) by auto
  then have "rep m5 dl ds"
    using o(3,5) by (intro kept(1) [OF F(4) _ _ r4(1)]) auto
  ultimately show "mem_ok rep heads slots kslots dfree kfree m5 dl kl ds (ks @ [r])"
    using o r A B C E F unfolding mem_ok_def by auto
  have "dev_desc m5 x = dev_desc m x" if "x \<in> slots - dfree m" for x
    using that kept(2) [OF A(5), of x] kept(2) [OF B(4), of x] kept(2) [OF C(5), of x] kept(2) [OF E(4), of x] kept(2) [OF F(4), of x] by simp
  then show "map (dev_desc m5) ds = map (dev_desc m) ds"
    using o(6) by auto
  show "dfree m5 = dfree m" "kdfree m5 = kdfree m - {q}" "kfree m5 = kfree m - {r}"
    using A B C E F by simp_all
  show "m5 a = m a" if "a \<notin> own"
    using that kept(3) [OF A(5)] kept(3) [OF B(4)] kept(3) [OF C(5)] kept(3) [OF E(4)] kept(3) [OF F(4)] by simp
qed

lemma readmit:
  fixes pan :: u16 and fc :: u32 and ex :: bool
  assumes ok: "mem_ok rep heads slots kslots dfree kfree m dl kl ds ks" and d: "d \<in> set ds" "dev_desc m d = (ext, sh)" "length ext = 8"
  defines "m1 \<equiv> mac_deviceDesc_reset D d pan sh ext fc ex m"
  shows "mem_ok rep heads slots kslots dfree kfree m1 dl kl ds ks" "map (dev_desc m1) ds = map (dev_desc m) ds"
    "dfree m1 = dfree m" "kdfree m1 = kdfree m" "kfree m1 = kfree m" "a \<notin> own \<Longrightarrow> m1 a = m a"
proof -
  have o: "rep m dl ds" "rep m kl ks" "dl \<in> heads" "kl \<in> heads" "dl \<noteq> kl" "set ds \<subseteq> slots - dfree m" "set ks \<subseteq> kslots - kfree m"
    using ok by (simp_all add: mem_ok_def)
  have s: "d \<in> slots"
    using o(6) d(1) by auto
  have A: "dev_desc m1 d = (ext, sh)" "dfree m1 = dfree m" "kdfree m1 = kdfree m" "kfree m1 = kfree m"
    "keeps rep own heads (slots \<union> kslots) (slots - {d}) m m1"
    using dev_reset [OF s d(3) m1_def [THEN meta_eq_to_obj_eq]] by simp_all
  have n: "set ds \<subseteq> slots \<union> kslots" "set ks \<subseteq> slots \<union> kslots"
    using o(6,7) by auto
  show "mem_ok rep heads slots kslots dfree kfree m1 dl kl ds ks"
    using o A(2,4) kept(1) [OF A(5) o(3) n(1) o(1)] kept(1) [OF A(5) o(4) n(2) o(2)] by (simp add: mem_ok_def)
  have "dev_desc m1 x = dev_desc m x" if "x \<in> slots" for x
    using that A(1) d(2) kept(2) [OF A(5), of x] by (cases "x = d") auto
  then show "map (dev_desc m1) ds = map (dev_desc m) ds"
    using o(6) by auto
  show "dfree m1 = dfree m" "kdfree m1 = kdfree m" "kfree m1 = kfree m"
    using A by simp_all
  show "m1 a = m a" if "a \<notin> own"
    using that by (rule kept(3) [OF A(5)])
qed

end

lemma find_dev: "map_of (map f ds) e = map_option (\<lambda>d. snd (f d)) (find (\<lambda>d. fst (f d) = e) ds)"
  by (induction ds) (auto simp: case_prod_beta split: prod.splits)

lemma set_device_append:
  "i = pib_u8 devTableEntries s \<Longrightarrow> tl_zbMacAttrSet L V MAC_DEVICE_TABLE p b i s =
     Some (MAC_SUCCESS, b, pib_set_u8 devTableEntries (i + 1) (s\<lparr>mem := tn_list_add L (pib_ptr devTable s) p (mem s)\<rparr>))"
  by (simp add: tl_zbMacAttrSet_def mac_attr_defs sec_table_set_def)

lemma set_key_append:
  "i = pib_u8 keyTableEntries s \<Longrightarrow> tl_zbMacAttrSet L V MAC_KEY_TABLE p b i s =
     Some (MAC_SUCCESS, b, pib_set_u8 keyTableEntries (i + 1) (s\<lparr>mem := tn_list_add L (pib_ptr keyTable s) p (mem s)\<rparr>))"
  by (simp add: tl_zbMacAttrSet_def mac_attr_defs sec_table_set_def)

lemma entries_apart [simp]:
  "pib_ptr devTable (pib_set_u8 devTableEntries v s) = pib_ptr devTable s" "pib_ptr keyTable (pib_set_u8 devTableEntries v s) = pib_ptr keyTable s"
  "pib_ptr devTable (pib_set_u8 keyTableEntries v s) = pib_ptr devTable s" "pib_ptr keyTable (pib_set_u8 keyTableEntries v s) = pib_ptr keyTable s"
  "pib_u8 keyTableEntries (pib_set_u8 devTableEntries v s) = pib_u8 keyTableEntries s" "pib_u8 devTableEntries (pib_set_u8 keyTableEntries v s) = pib_u8 devTableEntries s"
  by (rule pib_ptr_set_u8, simp add: table_fields_def OFFSETOF_def pib_layout_def)+
     (simp_all add: pib_u8_def pib_set_u8_def OFFSETOF_def pib_layout_def)

lemma pib_app_upd [simp]:
  "pib_u8 f (s\<lparr>device_addr_short := x\<rparr>) = pib_u8 f s" "pib_ptr f (s\<lparr>device_addr_short := x\<rparr>) = pib_ptr f s"
  "pib_u8 f (s\<lparr>device_index := y\<rparr>) = pib_u8 f s" "pib_ptr f (s\<lparr>device_index := y\<rparr>) = pib_ptr f s"
  "pib_u8 f (s\<lparr>device_ext_addr := z\<rparr>) = pib_u8 f s" "pib_ptr f (s\<lparr>device_ext_addr := z\<rparr>) = pib_ptr f s"
  "pib_u8 f (s\<lparr>end_device := w\<rparr>) = pib_u8 f s" "pib_ptr f (s\<lparr>end_device := w\<rparr>) = pib_ptr f s"
  "pib_u8 f (s\<lparr>data_send_indir_timer := t\<rparr>) = pib_u8 f s" "pib_ptr f (s\<lparr>data_send_indir_timer := t\<rparr>) = pib_ptr f s"
  by (simp_all add: pib_u8_def pib_ptr_def)

text \<open>What the admission of a device does not touch.\<close>

definition others :: "'a app_coor_scheme \<Rightarrow> flash_part \<times> u8 \<times> u32" where
  "others s = (fl s, indirect_device_index s, test_cnt s)"

lemma others_upd [simp]:
  "others (s\<lparr>mem := m\<rparr>) = others s" "others (s\<lparr>device_addr_short := a\<rparr>) = others s" "others (s\<lparr>device_index := i\<rparr>) = others s"
  "others (s\<lparr>device_ext_addr := e\<rparr>) = others s" "others (s\<lparr>end_device := d\<rparr>) = others s" "others (s\<lparr>data_send_indir_timer := t\<rparr>) = others s"
  "others (s\<lparr>outs := os\<rparr>) = others s" "others (emit x s) = others s" "others (pib_set_u8 f v s) = others s"
  by (simp_all add: others_def emit_def pib_set_u8_def)

lemma pib_set_frame [simp]:
  "device_addr_short (pib_set_u8 f v s) = device_addr_short s" "device_index (pib_set_u8 f v s) = device_index s"
  "end_device (pib_set_u8 f v s) = end_device s" "outs (pib_set_u8 f v s) = outs s" "timer_head (pib_set_u8 f v s) = timer_head s"
  "used_num (pib_set_u8 f v s) = used_num s" "tev (pib_set_u8 f v s) = tev s" "data_send_indir_timer (pib_set_u8 f v s) = data_send_indir_timer s"
  "c_pKeyIDDesc (pib_set_u8 f v s) = c_pKeyIDDesc s" "c_pKeyUsgDesc (pib_set_u8 f v s) = c_pKeyUsgDesc s"
  by (simp_all add: pib_set_u8_def)

context mac_descs
begin

lemma coor_add_known:
  assumes T: "tables_ok rep heads slots kslots dfree kdfree kfree reg s ds ks" and wf: "reg_wf base reg"
    and k: "map_of reg (device_ext_addr s) = Some sh"
  shows "\<exists>m. coor_add_key_material L V D s = Some (True, s\<lparr>device_addr_short := sh, mem := m\<rparr>) \<and>
    tables_ok rep heads slots kslots dfree kdfree kfree reg (s\<lparr>device_addr_short := sh, mem := m\<rparr>) ds ks \<and> (\<forall>a. a \<notin> own \<longrightarrow> m a = mem s a)"
proof -
  have reg: "map (dev_desc (mem s)) ds = reg" and n: "unat (pib_u8 devTableEntries s) = length ds" and M:
    "mem_ok rep heads slots kslots dfree kfree (mem s) (pib_ptr devTable s) (pib_ptr keyTable s) ds ks"
    using T by (simp_all add: tables_ok_def)
  have len: "length ds \<le> 16"
    using reg wf by (auto simp: reg_wf_def)
  have tr: "table_rep rep devTable devTableEntries s ds"
    using M n by (simp add: table_rep_def mem_ok_def)
  have "map_option (\<lambda>d. snd (dev_desc (mem s) d)) (find (\<lambda>d. fst (dev_desc (mem s) d) = device_ext_addr s) ds) = Some sh"
    using k reg find_dev [of "dev_desc (mem s)" ds "device_ext_addr s"] by simp
  then obtain d where d: "find (\<lambda>d. fst (dev_desc (mem s) d) = device_ext_addr s) ds = Some d" "snd (dev_desc (mem s) d) = sh"
    by (auto simp: map_option_eq_Some)
  then have dd: "d \<in> set ds" "dev_desc (mem s) d = (device_ext_addr s, sh)"
    by (auto simp: find_Some_iff intro: prod_eqI)
  have "(device_ext_addr s, sh) \<in> set reg"
    using dd reg by (metis image_eqI list.set_map)
  then have l8: "length (device_ext_addr s) = 8"
    using wf by (auto simp: reg_wf_def in_set_conv_nth)
  let ?m = "mac_deviceDesc_reset D d (c_pan_id s) sh (device_ext_addr s) 0 False (mem s)"
  note R = readmit [OF M dd l8, where pan = "c_pan_id s" and fc = 0 and ex = False]
  have "d \<noteq> NULL"
    using dd(1) M pools(1) by (auto simp: mem_ok_def)
  moreover have "dev_search L 0 s = Some (d, s\<lparr>device_addr_short := sh\<rparr>)"
    using dev_search_find [OF tr len, of 0] d by (simp add: dev_desc_def)
  ultimately have "coor_add_key_material L V D s = Some (True, s\<lparr>device_addr_short := sh, mem := ?m\<rparr>)"
    by (simp add: coor_add_key_material_def)
  moreover have "tables_ok rep heads slots kslots dfree kdfree kfree reg (s\<lparr>device_addr_short := sh, mem := ?m\<rparr>) ds ks"
    using T R(1-5) by (simp add: tables_ok_def)
  ultimately show ?thesis
    using R(6) by blast
qed

lemma coor_add_unknown:
  assumes T: "tables_ok rep heads slots kslots dfree kdfree kfree reg s ds ks" and wf: "reg_wf base reg"
    and k: "map_of reg (device_ext_addr s) = None"
  shows "dev_search L 0 s = Some (NULL, s)"
proof -
  have reg: "map (dev_desc (mem s)) ds = reg" and n: "unat (pib_u8 devTableEntries s) = length ds" and M:
    "mem_ok rep heads slots kslots dfree kfree (mem s) (pib_ptr devTable s) (pib_ptr keyTable s) ds ks"
    using T by (simp_all add: tables_ok_def)
  have len: "length ds \<le> 16"
    using reg wf by (auto simp: reg_wf_def)
  have tr: "table_rep rep devTable devTableEntries s ds"
    using M n by (simp add: table_rep_def mem_ok_def)
  have "find (\<lambda>d. fst (dev_desc (mem s) d) = device_ext_addr s) ds = None"
    using k find_dev [of "dev_desc (mem s)" ds "device_ext_addr s"] reg by auto
  then show ?thesis
    using dev_search_find [OF tr len, of 0] by (simp add: dev_desc_def)
qed

end

context mac_descs
begin

lemma coor_add_new:
  assumes T: "tables_ok rep heads slots kslots dfree kdfree kfree reg s ds ks" and wf: "reg_wf base reg"
    and k: "map_of reg (device_ext_addr s) = None" and n: "length reg < 16" "unat (device_index s) = length reg"
    and l8: "length (device_ext_addr s) = 8" and base: "device_addr_short s AND 0xfff0 = base"
  shows "\<exists>s' p r. coor_add_key_material L V D s = Some (True, s') \<and>
    tables_ok rep heads slots kslots dfree kdfree kfree (reg @ [(device_ext_addr s, base + of_nat (length reg))]) s' (ds @ [p]) (ks @ [r]) \<and>
    device_addr_short s' = base + of_nat (length reg) \<and> unat (device_index s') = length reg + 1 \<and> end_device s' = end_device s \<and>
    outs s' = outs s \<and> others s' = others s \<and> timer_head s' = timer_head s \<and> used_num s' = used_num s \<and> tev s' = tev s \<and>
    (\<forall>a. a \<notin> own \<longrightarrow> mem s' a = mem s a)"
proof -
  let ?i = "device_index s" and ?dl = "pib_ptr devTable s" and ?kl = "pib_ptr keyTable s" and ?sh = "base + of_nat (length reg)"
  have reg: "map (dev_desc (mem s)) ds = reg" "unat (pib_u8 devTableEntries s) = length ds" "unat (pib_u8 keyTableEntries s) = length ks"
      "length ks = length reg" and M: "mem_ok rep heads slots kslots dfree kfree (mem s) ?dl ?kl ds ks"
    and room: "16 \<le> card (dfree (mem s)) + length reg" "16 \<le> card (kdfree (mem s)) + length reg" "16 \<le> card (kfree (mem s)) + length reg"
    using T by (simp_all add: tables_ok_def)
  have ld: "length ds = length reg"
    using reg(1) by auto
  have i: "?i = pib_u8 devTableEntries s" "?i = pib_u8 keyTableEntries s"
    using n(2) reg(2-4) ld by (simp_all add: word_unat_eq_iff)
  have sh: "(device_addr_short s AND 0xfff0) + ucast ?i = ?sh"
  proof -
    have "(ucast ?i :: u16) = of_nat (unat ?i)"
      by simp
    then show ?thesis
      using base n(2) by simp
  qed
  have ne: "dfree (mem s) \<noteq> {}" "kdfree (mem s) \<noteq> {}" "kfree (mem s) \<noteq> {}"
    using room n(1) by auto
  obtain p m1 where p: "mac_deviceDesc_alloc D (mem s) = (p, m1)" by fastforce
  let ?m3 = "tn_list_add L ?dl p (mac_deviceDesc_set D p (c_pan_id s) ?sh (device_ext_addr s) 0 False m1)"
  note P = admit_dev(1,2) [OF M ne(1) l8 p]
  note A = admit_dev(3-8) [OF M ne(1) l8 p, where pan = "c_pan_id s" and sh = ?sh and fc = 0 and ex = False]
  let ?s2 = "pib_set_u8 devTableEntries (?i + 1) (s\<lparr>device_addr_short := ?sh, mem := ?m3\<rparr>)"
  obtain q m4 where q: "mac_keydevDesc_alloc D ?m3 = (q, m4)" by fastforce
  obtain r m5 where r: "mac_keyDesc_alloc D (mac_keydevDesc_set D q p False False m4) = (r, m5)" by fastforce
  let ?m6 = "mac_keyDesc_set D r [c_pKeyIDDesc s] [q] (c_pKeyUsgDesc s) test_key m5"
  let ?m7 = "tn_list_add L ?kl r ?m6"
  note B = admit_key [OF A(1) ne(2,3) [folded A(4,5)] q r refl [of ?m6]]
  let ?s3 = "pib_set_u8 keyTableEntries (?i + 1) (?s2\<lparr>mem := ?m7\<rparr>)"
  have "coor_add_key_material L V D s = Some (True, ?s3\<lparr>device_index := device_index ?s3 + 1\<rparr>)"
  proof -
    have "\<not> END_DEVICE_NUM \<le> ?i"
      using n by (simp add: END_DEVICE_NUM_def word_le_nat_alt)
    then show ?thesis
      using coor_add_unknown [OF T wf k] p q r P(1) B(1,2) i [symmetric]
      by (simp add: coor_add_key_material_def sh set_device_append set_key_append Let_def)
  qed
  moreover have "tables_ok rep heads slots kslots dfree kdfree kfree (reg @ [(device_ext_addr s, ?sh)]) (?s3\<lparr>device_index := device_index ?s3 + 1\<rparr>) (ds @ [p]) (ks @ [r])"
  proof -
    have "unat (?i + 1) = length reg + 1"
      using n by (subst unat_inc_no_wrap) simp_all
    moreover have "card (dfree (mem s) - {p}) = card (dfree (mem s)) - 1" "card (kdfree (mem s) - {q}) = card (kdfree (mem s)) - 1"
        "card (kfree (mem s) - {r}) = card (kfree (mem s)) - 1"
      using P(2) A(4,5) B(3,4) by (simp_all add: card_Diff_singleton)
    moreover have "map (dev_desc ?m7) (ds @ [p]) = reg @ [(device_ext_addr s, ?sh)]"
      by (simp only: B(6) A(2) reg(1))
    ultimately show ?thesis
      using B(5,7-9) A(3-5) reg ld room n(1) by (simp add: tables_ok_def)
  qed
  moreover have "unat (?i + 1) = length reg + 1"
    using n by (subst unat_inc_no_wrap) simp_all
  moreover have "\<forall>a. a \<notin> own \<longrightarrow> ?m7 a = mem s a"
    using A(6) B(10) by simp
  ultimately show ?thesis
    by (intro exI [of _ "?s3\<lparr>device_index := device_index ?s3 + 1\<rparr>"] exI [of _ p] exI [of _ r]) simp
qed

end

section \<open>The admission handler\<close>

definition coor_ok ::
  "(wmem \<Rightarrow> addr \<Rightarrow> addr list \<Rightarrow> bool) \<Rightarrow> addr set \<Rightarrow> addr set \<Rightarrow> addr set \<Rightarrow> (wmem \<Rightarrow> addr set) \<Rightarrow> (wmem \<Rightarrow> addr set) \<Rightarrow> (wmem \<Rightarrow> addr set)
   \<Rightarrow> sdk_env \<Rightarrow> addr set \<Rightarrow> u16 \<Rightarrow> (u8 list \<times> u16) list \<Rightarrow> 'a app_coor_scheme \<Rightarrow> bool" where
  "coor_ok rep heads slots kslots dfree kdfree kfree E N base reg s \<longleftrightarrow>
     (\<exists>ds ks. tables_ok rep heads slots kslots dfree kdfree kfree reg s ds ks) \<and> reg_wf base reg \<and> devices_ok base reg s \<and> timers_in E N s"

lemma same_app_coor:
  assumes "same_app s s'"
  shows "device_index s' = device_index s" "device_addr_short s' = device_addr_short s" "end_device s' = end_device s"
    "outs s' = outs s" "g_zbMacPib s' = g_zbMacPib s" "others s' = others s"
  using assms by (cases s, cases s', simp add: same_app_def others_def)+

lemma timers_in_upd:
  "timers_in E N s \<Longrightarrow> timers_in E N (s\<lparr>data_send_indir_timer := e\<rparr>)" "timers_in E N s \<Longrightarrow> timers_in E N (s\<lparr>end_device := d\<rparr>)"
  "timers_in E N s \<Longrightarrow> timers_in E N (emit x s)"
  by (erule timers_in_cong; simp add: emit_def)+

lemma data_send_ok:
  assumes "timers_in E N s"
  shows "\<exists>s'. data_send E A s = Some s' \<and> timers_in E N s' \<and> outs s' = outs s \<and> others s' = others s \<and> g_zbMacPib s' = g_zbMacPib s \<and>
    device_index s' = device_index s \<and> device_addr_short s' = device_addr_short s \<and> end_device s' = end_device s \<and>
    (\<forall>a. a \<notin> N \<longrightarrow> mem s' a = mem s a)"
proof -
  have "\<exists>s1. (if data_send_indir_timer s \<noteq> NULL
              then do { (e, s') \<leftarrow> TL_ZB_TIMER_CANCEL E (data_send_indir_timer s) s; Some (s'\<lparr>data_send_indir_timer := e\<rparr>) }
              else Some s) = Some s1 \<and> timers_in E N s1 \<and> outs s1 = outs s \<and> others s1 = others s \<and> g_zbMacPib s1 = g_zbMacPib s \<and>
    device_index s1 = device_index s \<and> device_addr_short s1 = device_addr_short s \<and> end_device s1 = end_device s \<and>
    (\<forall>a. a \<notin> N \<longrightarrow> mem s1 a = mem s a)"
  proof (cases "data_send_indir_timer s = NULL")
    case False
    obtain e s1 where c: "TL_ZB_TIMER_CANCEL E (data_send_indir_timer s) s = Some (e, s1)" "timers_in E N s1" "same_app s s1"
      "\<forall>a. a \<notin> N \<longrightarrow> mem s1 a = mem s a"
      using cancel_in [OF assms] by blast
    then show ?thesis
      using False same_app_coor [OF c(3)] timers_in_upd(1) [OF c(2)] by simp
  qed (use assms in simp)
  then obtain s1 where s1: "(if data_send_indir_timer s \<noteq> NULL
              then do { (e, s') \<leftarrow> TL_ZB_TIMER_CANCEL E (data_send_indir_timer s) s; Some (s'\<lparr>data_send_indir_timer := e\<rparr>) }
              else Some s) = Some s1" "timers_in E N s1" and f1: "outs s1 = outs s" "others s1 = others s" "g_zbMacPib s1 = g_zbMacPib s"
    "device_index s1 = device_index s" "device_addr_short s1 = device_addr_short s" "end_device s1 = end_device s"
    "\<forall>a. a \<notin> N \<longrightarrow> mem s1 a = mem s a"
    by blast
  obtain e s2 where c: "TL_ZB_TIMER_SCHEDULE E (data_send_indir_timer_cb_at A) 5000 s1 = Some (e, s2)" "timers_in E N s2" "same_app s1 s2"
      "\<forall>a. a \<notin> N \<longrightarrow> mem s2 a = mem s1 a"
    using schedule_in [OF s1(2)] by blast
  have "data_send E A s = Some (s2\<lparr>data_send_indir_timer := e\<rparr>)"
    unfolding data_send_def s1(1) using c(1) by simp
  then show ?thesis
    using c(2,4) same_app_coor [OF c(3)] f1 timers_in_upd(1) [OF c(2)] by simp
qed

context mac_descs
begin

lemma tables_ok_outside:
  assumes "tables_ok rep heads slots kslots dfree kdfree kfree reg s ds ks" "g_zbMacPib s' = g_zbMacPib s" "\<And>a. a \<in> own \<Longrightarrow> mem s' a = mem s a"
  shows "tables_ok rep heads slots kslots dfree kdfree kfree reg s' ds ks"
proof -
  have O: "dfree (mem s') = dfree (mem s)" "kdfree (mem s') = kdfree (mem s)" "kfree (mem s') = kfree (mem s)"
    "keeps rep UNIV heads (slots \<union> kslots) slots (mem s) (mem s')"
    using outside [of "mem s'" "mem s"] assms(3) by blast+
  have p: "pib_ptr f s' = pib_ptr f s" "pib_u8 f s' = pib_u8 f s" for f
    using assms(2) by (simp_all add: pib_ptr_def pib_u8_def)
  have M: "mem_ok rep heads slots kslots dfree kfree (mem s) (pib_ptr devTable s) (pib_ptr keyTable s) ds ks"
    using assms(1) by (simp add: tables_ok_def)
  then have n: "set ds \<subseteq> slots \<union> kslots" "set ks \<subseteq> slots \<union> kslots" "set ds \<subseteq> slots"
    by (auto simp: mem_ok_def)
  have "mem_ok rep heads slots kslots dfree kfree (mem s') (pib_ptr devTable s') (pib_ptr keyTable s') ds ks"
    using M n kept(1) [OF O(4), of "pib_ptr devTable s" ds] kept(1) [OF O(4), of "pib_ptr keyTable s" ks] O(1,3) p by (simp add: mem_ok_def)
  moreover have "map (dev_desc (mem s')) ds = map (dev_desc (mem s)) ds"
    using n(3) kept(2) [OF O(4)] by auto
  then have "map (dev_desc (mem s')) ds = reg"
    using assms(1) unfolding tables_ok_def by (elim conjE) (rule trans)
  ultimately show ?thesis
    using assms(1) O(1-3) p unfolding tables_ok_def by simp
qed

end

context mac_descs
begin

lemma coor_respond:
  assumes T: "tables_ok rep heads slots kslots dfree kdfree kfree reg s ds ks" and wf: "reg_wf base reg" and N: "own \<inter> N = {}"
    and t: "timers_in E N s" and i: "i < length reg" "reg ! i = (ext, device_addr_short s)"
    and n: "unat (device_index s) = length reg" "length (end_device s) = 16"
    and o: "\<And>j. j < length reg \<Longrightarrow> j \<noteq> i \<Longrightarrow> md_extAddr (end_device s ! j) = fst (reg ! j) \<and> md_shortAddr (end_device s ! j) = snd (reg ! j)"
  defines "d \<equiv> \<lambda>pan. \<lparr>md_extAddr = ext, md_shortAddr = device_addr_short s, md_pan_id = pan\<rparr>"
    and "resp \<equiv> MlmeAssociateResponse \<lparr>resp_devAddress = ext, resp_shortAddress = device_addr_short s, resp_status = MAC_SUCCESS\<rparr>"
  shows "\<exists>s'. data_send E A (emit resp (s\<lparr>end_device := (end_device s)[unat (device_addr_short s AND 0xf) := d pan]\<rparr>)) = Some s' \<and>
    coor_ok rep heads slots kslots dfree kdfree kfree E N base reg s' \<and> outs s' = outs s @ [resp] \<and> others s' = others s \<and> (\<forall>a. a \<notin> own \<union> N \<longrightarrow> mem s' a = mem s a)"
proof -
  have sh: "device_addr_short s = base + of_nat i" and b: "base AND 0xf = 0" and i16: "i < 16"
    using wf i by (auto simp: reg_wf_def)
  have "unat (of_nat i :: u16) = i"
    using i16 by (simp add: unat_of_nat)
  then have idx: "unat (device_addr_short s AND 0xf) = i" "device_addr_short s AND 0xfff0 = base"
    using nibble [OF b i16] sh by simp_all
  let ?t = "emit resp (s\<lparr>end_device := (end_device s)[i := d pan]\<rparr>)"
  have "timers_in E N ?t"
    using t by (intro timers_in_upd)
  then obtain s' where s': "data_send E A ?t = Some s'" "timers_in E N s'" "outs s' = outs ?t" "others s' = others ?t" "g_zbMacPib s' = g_zbMacPib ?t"
      "device_index s' = device_index ?t" "device_addr_short s' = device_addr_short ?t" "end_device s' = end_device ?t"
      "\<forall>a. a \<notin> N \<longrightarrow> mem s' a = mem ?t a"
    using data_send_ok by blast
  have "mem s' a = mem s a" if "a \<in> own" for a
    using that N s'(9) by (auto simp: emit_def)
  then have "tables_ok rep heads slots kslots dfree kdfree kfree reg s' ds ks"
    using s'(5) by (intro tables_ok_outside [OF T]) (simp_all add: emit_def)
  moreover have "devices_ok base reg s'"
    using s' n o i idx(2) i16 unfolding devices_ok_def by (auto simp: emit_def d_def nth_list_update)
  ultimately show ?thesis
    using s' wf idx(1) by (auto simp: coor_ok_def emit_def)
qed

end

definition assoc_outs :: "u8 list \<Rightarrow> u16 option \<Rightarrow> sdk_out list" where
  "assoc_outs ext r = (case r of None \<Rightarrow> []
     | Some sh \<Rightarrow> [MlmeAssociateResponse \<lparr>resp_devAddress = ext, resp_shortAddress = sh, resp_status = MAC_SUCCESS\<rparr>])"

context mac_descs
begin

lemma coor_finish:
  assumes a: "coor_add_key_material L V D (s\<lparr>device_ext_addr := ext\<rparr>) = Some (True, s1)" and o: "outs s1 = outs s" "others s1 = others s" "\<forall>a. a \<notin> own \<longrightarrow> mem s1 a = mem s a"
    and T: "tables_ok rep heads slots kslots dfree kdfree kfree reg s1 ds ks" and wf: "reg_wf base reg" and N: "own \<inter> N = {}"
    and t: "timers_in E N s1" and i: "i < length reg" "reg ! i = (ext, device_addr_short s1)"
    and n: "unat (device_index s1) = length reg" "length (end_device s1) = 16"
    and d: "\<And>j. j < length reg \<Longrightarrow> j \<noteq> i \<Longrightarrow> md_extAddr (end_device s1 ! j) = fst (reg ! j) \<and> md_shortAddr (end_device s1 ! j) = snd (reg ! j)"
  shows "\<exists>s'. MyAssociateIndCb E A L V D (Some ext) s = Some s' \<and> coor_ok rep heads slots kslots dfree kdfree kfree E N base reg s' \<and>
    outs s' = outs s @ assoc_outs ext (Some (device_addr_short s1)) \<and> others s' = others s \<and> (\<forall>a. a \<notin> own \<union> N \<longrightarrow> mem s' a = mem s a)"
proof -
  obtain p l where p: "tl_zbMacAttrGet L MAC_ATTR_PAN_ID (\<lambda>_. 0) 0 s1 = Some (MAC_SUCCESS, p, l)"
    using get_pan by blast
  show ?thesis
    using coor_respond [OF T wf N t i n d, where A = A and pan = "le16 p 0"] a p o by (simp add: MyAssociateIndCb_def assoc_outs_def)
qed

lemma timers_in_own:
  assumes "timers_in E N s" "own \<inter> N = {}" "timer_head s' = timer_head s" "used_num s' = used_num s" "tev s' = tev s"
    "\<forall>a. a \<notin> own \<longrightarrow> mem s' a = mem s a"
  shows "timers_in E N s'"
  using assms by (intro timers_in_cong [OF assms(1)]) auto

lemma coor_associate_known:
  assumes ok: "coor_ok rep heads slots kslots dfree kdfree kfree E N base reg s" and N: "own \<inter> N = {}" and k: "map_of reg ext = Some sh"
  shows "\<exists>s'. MyAssociateIndCb E A L V D (Some ext) s = Some s' \<and> coor_ok rep heads slots kslots dfree kdfree kfree E N base reg s' \<and>
    outs s' = outs s @ assoc_outs ext (Some sh) \<and> others s' = others s \<and> (\<forall>a. a \<notin> own \<union> N \<longrightarrow> mem s' a = mem s a)"
proof -
  let ?s = "s\<lparr>device_ext_addr := ext\<rparr>"
  obtain ds ks where T: "tables_ok rep heads slots kslots dfree kdfree kfree reg ?s ds ks"
      and wf: "reg_wf base reg" and dv: "devices_ok base reg s" and t: "timers_in E N s"
    using ok by (auto simp: coor_ok_def tables_ok_def)
  obtain i where i: "i < length reg" "reg ! i = (ext, sh)"
    using map_of_SomeD [OF k] by (auto simp: in_set_conv_nth)
  obtain m where m: "coor_add_key_material L V D ?s = Some (True, ?s\<lparr>device_addr_short := sh, mem := m\<rparr>)"
      "tables_ok rep heads slots kslots dfree kdfree kfree reg (?s\<lparr>device_addr_short := sh, mem := m\<rparr>) ds ks" "\<forall>a. a \<notin> own \<longrightarrow> m a = mem s a"
    using coor_add_known [OF T wf, where V = V] k by auto
  have "timers_in E N (?s\<lparr>device_addr_short := sh, mem := m\<rparr>)"
    using m(3) by (intro timers_in_own [OF t N]) simp_all
  from coor_finish [OF m(1) _ _ _ m(2) wf N this i(1)] show ?thesis
    using i dv m(3) by (simp add: devices_ok_def)
qed

lemma coor_associate_full:
  assumes ok: "coor_ok rep heads slots kslots dfree kdfree kfree E N base reg s" and k: "map_of reg ext = None" "16 \<le> length reg"
  shows "MyAssociateIndCb E A L V D (Some ext) s = Some (s\<lparr>device_ext_addr := ext\<rparr>)"
    "coor_ok rep heads slots kslots dfree kdfree kfree E N base reg (s\<lparr>device_ext_addr := ext\<rparr>)"
proof -
  let ?s = "s\<lparr>device_ext_addr := ext\<rparr>"
  obtain ds ks where T: "tables_ok rep heads slots kslots dfree kdfree kfree reg ?s ds ks" and wf: "reg_wf base reg" and dv: "devices_ok base reg ?s"
    using ok by (auto simp: coor_ok_def tables_ok_def devices_ok_def)
  have t: "timers_in E N ?s"
    using ok by (auto simp: coor_ok_def elim: timers_in_cong)
  have "END_DEVICE_NUM \<le> device_index s"
    using dv k(2) by (simp add: devices_ok_def END_DEVICE_NUM_def word_le_nat_alt)
  then show "MyAssociateIndCb E A L V D (Some ext) s = Some ?s"
    using coor_add_unknown [OF T wf] k(1) by (simp add: MyAssociateIndCb_def coor_add_key_material_def)
  show "coor_ok rep heads slots kslots dfree kdfree kfree E N base reg ?s"
    using T wf dv t by (auto simp: coor_ok_def)
qed

lemma coor_associate_new:
  assumes ok: "coor_ok rep heads slots kslots dfree kdfree kfree E N base reg s" and N: "own \<inter> N = {}" and e: "length ext = 8"
    and k: "map_of reg ext = None" "length reg < 16"
  defines "sh \<equiv> base + of_nat (length reg)"
  shows "\<exists>s'. MyAssociateIndCb E A L V D (Some ext) s = Some s' \<and>
    coor_ok rep heads slots kslots dfree kdfree kfree E N base (reg @ [(ext, sh)]) s' \<and> outs s' = outs s @ assoc_outs ext (Some sh) \<and> others s' = others s \<and> (\<forall>a. a \<notin> own \<union> N \<longrightarrow> mem s' a = mem s a)"
proof -
  let ?s = "s\<lparr>device_ext_addr := ext\<rparr>" and ?reg = "reg @ [(ext, sh)]"
  obtain ds ks where T: "tables_ok rep heads slots kslots dfree kdfree kfree reg ?s ds ks"
      and wf: "reg_wf base reg" and dv: "devices_ok base reg s" and t: "timers_in E N s"
    using ok by (auto simp: coor_ok_def tables_ok_def)
  have wf': "reg_wf base ?reg"
    using reg_assoc_wf [OF wf e] k by (simp add: reg_assoc_def sh_def)
  obtain s1 q y where a: "coor_add_key_material L V D ?s = Some (True, s1)"
      "tables_ok rep heads slots kslots dfree kdfree kfree ?reg s1 (ds @ [q]) (ks @ [y])" "device_addr_short s1 = sh"
      "unat (device_index s1) = length reg + 1" "end_device s1 = end_device s" "outs s1 = outs s" "others s1 = others s" "timer_head s1 = timer_head s"
      "used_num s1 = used_num s" "tev s1 = tev s" "\<forall>a. a \<notin> own \<longrightarrow> mem s1 a = mem s a"
    using coor_add_new [OF T wf, where V = V] k dv e by (auto simp: devices_ok_def sh_def)
  have t1: "timers_in E N s1"
    using a by (intro timers_in_own [OF t N]) simp_all
  from coor_finish [OF a(1,6,7,11,2) wf' N t1, of "length reg"] show ?thesis
    using a dv by (simp add: devices_ok_def nth_append)
qed

lemma coor_associate:
  assumes ok: "coor_ok rep heads slots kslots dfree kdfree kfree E N base reg s" and N: "own \<inter> N = {}" and e: "length ext = 8"
    and r: "reg_assoc base ext reg = (r, reg')"
  shows "\<exists>s'. MyAssociateIndCb E A L V D (Some ext) s = Some s' \<and> coor_ok rep heads slots kslots dfree kdfree kfree E N base reg' s' \<and>
    outs s' = outs s @ assoc_outs ext r \<and> others s' = others s \<and> (\<forall>a. a \<notin> own \<union> N \<longrightarrow> mem s' a = mem s a)"
proof (cases "map_of reg ext")
  case None
  show ?thesis
  proof (cases "length reg < 16")
    case True
    then show ?thesis using coor_associate_new [OF ok N e None] None r by (simp add: reg_assoc_def)
  next
    case False
    then show ?thesis using coor_associate_full [OF ok None] None r by (simp add: reg_assoc_def assoc_outs_def)
  qed
next
  case (Some sh)
  then show ?thesis using coor_associate_known [OF ok N Some] r by (auto simp: reg_assoc_def)
qed

end

text \<open>
  C6. A request to join is handled as on the list of registered devices: a registered device gets the short
  address it already has, a new one the next free address \<open>base + n\<close>, where \<open>n\<close> counts the devices, as long
  as there are fewer than sixteen, and otherwise the request is ignored without an answer. In each case the
  handler returns, the device table, the key table, \<^verbatim>\<open>end_device\<close> and \<^verbatim>\<open>device_index\<close> of the new state agree with the new
  list, the software timers are intact, and the only output is the response with that address.\<close>

theorem coor_associate_refines:
  assumes "mac_descs L rep D own heads slots kdslots kslots dfree kdfree kfree" "own \<inter> N = {}"
    and "coor_ok rep heads slots kslots dfree kdfree kfree E N base reg s" "length ext = 8" "reg_assoc base ext reg = (r, reg')"
  shows "\<exists>s'. MyAssociateIndCb E A L V D (Some ext) s = Some s' \<and> coor_ok rep heads slots kslots dfree kdfree kfree E N base reg' s' \<and>
    outs s' = outs s @ assoc_outs ext r"
  using mac_descs.coor_associate [OF assms(1,3,2,4,5)] by metis

text \<open>A coordinator after the start: both tables empty, the first address 0x3300.\<close>

definition demo_coordinator :: app_coor where
  "demo_coordinator = ota_coor.extend (demo_coor [])
     \<lparr>end_device = replicate 16 \<lparr>md_extAddr = replicate 8 0, md_shortAddr = 0, md_pan_id = 0\<rparr>, device_index = 0, indirect_device_index = 0,
      device_ext_addr = replicate 8 0, device_addr_short = 0x3300, c_pan_id = 0xbeef, c_pKeyUsgDesc = [0x904100, 0x904100],
      c_pKeyIDDesc = 0x904000, g_node_addr = replicate 128 0, g_node_num_cur = 0, g_mac_msdu_handle = 0, g_node_index = 0,
      g_data_txto_allnode_timer = 0, g_app_data_sn = 0, data_send_indir_timer = 0, test_cnt = 0xaa000001\<rparr>
     \<lparr>g_zbMacPib := (\<lambda>_. 0)(76 := 0x60, 77 := 9, 80 := 0x70, 81 := 9)\<rparr>"

text \<open>The pool of timer events.\<close>

definition demo_events :: "addr set" where
  "demo_events = {0x840100..<0x840400}"

lemma demo_coordinator_sel [simp]:
  "mem demo_coordinator = (\<lambda>_. 0)" "timer_head demo_coordinator = 0" "used_num demo_coordinator = 0" "outs demo_coordinator = []"
  "tev demo_coordinator = tev demo_sdk" "pib_ptr devTable demo_coordinator = 0x970" "pib_ptr keyTable demo_coordinator = 0x960"
  "pib_u8 devTableEntries demo_coordinator = 0" "pib_u8 keyTableEntries demo_coordinator = 0"
  "device_index demo_coordinator = 0" "device_addr_short demo_coordinator = 0x3300" "length (end_device demo_coordinator) = 16"
  by (simp_all add: demo_coordinator_def demo_coor_def demo_sdk_def sdk_state.defs ota_coor.defs pib_ptr_def pib_u8_def le32_def
      OFFSETOF_def pib_layout_def)

lemma unused_card:
  assumes "sz \<noteq> 0" "unat base + unat sz * 16 < 2 ^ 32" "m c = 0"
  shows "16 \<le> card (unused c sz base m)"
proof -
  have "inj_on (\<lambda>i. base + sz * i) {i :: u32. i < 16}"
  proof (rule inj_onI)
    fix x y :: u32 assume "x \<in> {i. i < 16}" "y \<in> {i. i < 16}" "base + sz * x = base + sz * y"
    then have "unat base + unat sz * unat x = unat base + unat sz * unat y"
      using slot_addr [OF _ assms(2), of x] slot_addr [OF _ assms(2), of y] by (metis mem_Collect_eq)
    then show "x = y"
      using assms(1) by (simp add: unat_eq_0 word_unat_eq_iff [of x])
  qed
  moreover have "card {i :: u32. i < 16} = 16"
  proof -
    have "j \<in> unat ` {i :: u32. i < 16}" if "j < 16" for j
      using that by (intro image_eqI [of _ _ "of_nat j"]) (simp_all add: word_less_nat_alt unat_of_nat)
    then have "unat ` {i :: u32. i < 16} = {..<16}"
      by (auto simp: word_less_nat_alt)
    then show ?thesis
      using card_image [of unat "{i :: u32. i < 16}"] by (simp add: inj_on_def word_unat_eq_iff)
  qed
  ultimately show ?thesis
    using assms(3) by (simp add: unused_def setcompr_eq_image card_image)
qed

lemma demo_coordinator_ok:
  assumes "s = demo_coordinator\<lparr>mem := m, fl := f\<rparr>" "\<And>a. a \<in> demo_own \<Longrightarrow> m a = 0"
  shows "coor_ok list_rep demo_heads demo_slots demo_kslots (unused 0x900000 24 0x901000) (unused 0x900004 16 0x902000) (unused 0x900008 48 0x903000)
     demo_env demo_events 0x3300 [] s"
proof -
  have p: "pib_ptr x s = pib_ptr x demo_coordinator" "pib_u8 x s = pib_u8 x demo_coordinator" for x
    by (simp_all add: assms(1) pib_ptr_def pib_u8_def)
  have "timer_inv 0x840100 s []"
    by (simp add: assms(1) timer_inv_def used_slots_def demo_sdk_def)
  moreover have "evt_addr 0x840100 i \<in> demo_events" if "i < 24" for i
    using that by (simp add: demo_events_def evt_addr_def word_le_nat_alt word_less_nat_alt unat_word_ariths unat_of_nat)
  ultimately have "timers_in demo_env demo_events s"
    using demo_pool_ok by (auto simp: timers_in_def)
  moreover have "m 0x960 = 0" "m 0x970 = 0" "m 0x900000 = 0" "m 0x900004 = 0" "m 0x900008 = 0"
    by (rule assms(2), simp add: demo_own_def demo_heads_def)+
  then have "tables_ok list_rep demo_heads demo_slots demo_kslots (unused 0x900000 24 0x901000) (unused 0x900004 16 0x902000)
      (unused 0x900008 48 0x903000) [] s [] []"
    using unused_card [of 24 "0x901000" m] unused_card [of 16 "0x902000" m] unused_card [of 48 "0x903000" m]
    by (simp add: p tables_ok_def mem_ok_def list_rep_def demo_heads_def) (simp add: assms(1))
  ultimately show ?thesis
    using assms(1) by (auto simp: coor_ok_def reg_wf_def devices_ok_def)
qed

lemma demo_disjoint: "demo_own \<inter> demo_events = {}"
  by (auto simp: demo_own_def demo_heads_def demo_events_def)

theorem coor_associate_refines_witness:
  "\<exists>s'. MyAssociateIndCb demo_env \<lparr>data_send_indir_timer_cb_at = 0x2000, app_data_txto_allnode_at = 0x2010, mac_send_data_indirect_at = 0x2020\<rparr>
      list_c_lib demo_vars demo_sec_lib (Some [1, 2, 3, 4, 5, 6, 7, 8]) demo_coordinator = Some s' \<and>
     outs s' = [MlmeAssociateResponse \<lparr>resp_devAddress = [1, 2, 3, 4, 5, 6, 7, 8], resp_shortAddress = 0x3300, resp_status = 0\<rparr>] \<and>
     coor_ok list_rep demo_heads demo_slots demo_kslots (unused 0x900000 24 0x901000) (unused 0x900004 16 0x902000) (unused 0x900008 48 0x903000)
       demo_env demo_events 0x3300 [([1, 2, 3, 4, 5, 6, 7, 8], 0x3300)] s'"
proof -
  have "demo_coordinator = demo_coordinator\<lparr>mem := \<lambda>_. 0, fl := fl demo_coordinator\<rparr>"
    by (cases demo_coordinator) (use demo_coordinator_sel(1) in simp)
  note ok = demo_coordinator_ok [OF this refl]
  show ?thesis
    using coor_associate_refines [OF demo_descs.mac_descs_axioms demo_disjoint ok, of "[1, 2, 3, 4, 5, 6, 7, 8]" "Some 0x3300" "[([1, 2, 3, 4, 5, 6, 7, 8], 0x3300)]"]
    by (simp add: reg_assoc_def assoc_outs_def MAC_SUCCESS_def conj_commute)
qed

end
