(* ===== verification/App_Indirect.thy ===== *)
theory App_Indirect
  imports App_Coor
begin

text \<open>
  The coordinator's indirect data, \<^verbatim>\<open>mac_send_data_indirect\<close> of \<^verbatim>\<open>demo/associate_coor/app.c\<close>, over whole runs,
  together with the admission of devices.
\<close>

section \<open>One task\<close>

definition pib_pan :: "'a sdk_state_scheme \<Rightarrow> u16" where
  "pib_pan s = le16 (nth (attr_bytes MAC_ATTR_PAN_ID s)) 0"

definition indirect_frame :: "u16 \<Rightarrow> u16 \<Rightarrow> u32 \<Rightarrow> sdk_out" where
  "indirect_frame pan sh n =
     McpsDataRequest \<lparr>srcAddr = addr_zero\<lparr>addrMode := ZB_ADDR_16BIT_DEV_OR_BROADCAST\<rparr>, dstPanId = pan,
       data_sec = \<lparr>key_source = default_key_source, securityLevel = SECURITY_LEVEL_ENC_MIC_64,
                   key_id_mode = KEY_ID_MODE_KEY_EXPLICIT_8, key_index = default_key_index\<rparr>,
       dstAddr = \<lparr>addr_bytes = bytes16 sh @ replicate 6 0, addrMode = ZB_ADDR_16BIT_DEV_OR_BROADCAST\<rparr>,
       msduHandle = 0, txOptions = MAC_TX_OPTION_ACKNOWLEDGED_BIT OR MAC_TX_OPTION_INDIRECT_TRANSMISSION_BIT\<rparr> (bytes32 n)"

lemma get_pib_pan:
  "\<exists>pan l. tl_zbMacAttrGet L MAC_ATTR_PAN_ID b i s = Some (MAC_SUCCESS, pan, l) \<and> le16 pan 0 = pib_pan s"
proof -
  obtain d l where "tl_zbMacAttrGet L MAC_ATTR_PAN_ID b i s = Some (MAC_SUCCESS, d, l)"
      "\<forall>k < length (attr_bytes MAC_ATTR_PAN_ID s). d k = attr_bytes MAC_ATTR_PAN_ID s ! k"
    using attr_get [OF plain_attrs(1)] by blast
  moreover have "length (attr_bytes MAC_ATTR_PAN_ID s) = 2"
    using attr_lens(1) by (simp add: attr_bytes_def entry_bytes_def)
  ultimately show ?thesis
    by (simp add: le16_def pib_pan_def)
qed

lemma buf_upd_sel:
  assumes "buf_upd B s s'"
  shows "device_index s' = device_index s" "end_device s' = end_device s" "indirect_device_index s' = indirect_device_index s"
    "test_cnt s' = test_cnt s" "outs s' = outs s" "g_zbMacPib s' = g_zbMacPib s" "device_addr_short s' = device_addr_short s"
    "timer_head s' = timer_head s" "used_num s' = used_num s" "tev s' = tev s" "a \<notin> buf_area B \<Longrightarrow> mem s' a = mem s a"
  using assms by (auto simp: buf_upd_def)

lemma emit_app_coor [simp]:
  "device_index (emit x s) = device_index s" "end_device (emit x s) = end_device s" "indirect_device_index (emit x s) = indirect_device_index s"
  "test_cnt (emit x s) = test_cnt s" "device_addr_short (emit x s) = device_addr_short s"
  "timer_head (emit x s) = timer_head s" "used_num (emit x s) = used_num s" "tev (emit x s) = tev s"
  by (simp_all add: emit_def)

lemma send_indirect_step:
  assumes "layout_ok B" "buf_inv B fr (flash_of s)" "fit_group fr 4 \<noteq> None"
    and "unat (indirect_device_index s) < unat (device_index s)"
  shows "\<exists>s'. mac_send_data_indirect L B s = Some s' \<and> buf_inv B fr (flash_of s') \<and>
    outs s' = outs s @ [indirect_frame (pib_pan s) (md_shortAddr (end_device s ! unat (indirect_device_index s))) (test_cnt s)] \<and>
    unat (indirect_device_index s') = (unat (indirect_device_index s) + 1) mod unat (device_index s) \<and> test_cnt s' = test_cnt s + 1 \<and>
    device_index s' = device_index s \<and> end_device s' = end_device s \<and> g_zbMacPib s' = g_zbMacPib s \<and> device_addr_short s' = device_addr_short s \<and>
    timer_head s' = timer_head s \<and> used_num s' = used_num s \<and> tev s' = tev s \<and> (\<forall>a. a \<notin> buf_area B \<longrightarrow> mem s' a = mem s a)"
proof -
  obtain k where k: "fit_group fr 4 = Some k"
    using assms(3) by blast
  obtain p s1 where a: "buf_allocate 4 s = (p, s1)" "p \<noteq> NULL" "buf_upd B s s1" "payload_words p (unat (4 :: u16)) \<subseteq> buf_area B"
    "\<And>s2 :: 'a app_coor_scheme. fl s2 = fl s1 \<Longrightarrow> (\<And>x. x \<notin> payload_words p (unat (4 :: u16)) \<Longrightarrow> mem s2 x = mem s1 x) \<Longrightarrow>
       \<exists>s3. buf_free B p s2 = Some s3 \<and> buf_upd B s2 s3 \<and> buf_inv B fr (flash_of s3)"
    by (rule buf_round [OF assms(1,2) _ _ k]) (auto simp: MAX_BUFFER_SIZE_def)
  have pw: "p \<in> payload_words p (unat (4 :: u16))"
    by (auto simp: payload_words_def intro!: exI [of _ 0])
  obtain pan l where pan: "tl_zbMacAttrGet L MAC_ATTR_PAN_ID (\<lambda>_. 0) 0 s = Some (MAC_SUCCESS, pan, l)" "le16 pan 0 = pib_pan s"
    using get_pib_pan by blast
  let ?d = "end_device s ! unat (indirect_device_index s)"
  let ?o = "indirect_frame (pib_pan s) (md_shortAddr ?d) (test_cnt s)"
  let ?s2 = "s1\<lparr>mem := (mem s1)(p := test_cnt s1), test_cnt := test_cnt s1 + 1\<rparr>"
  have "fl (emit ?o ?s2) = fl s1" "\<And>x. x \<notin> payload_words p (unat (4 :: u16)) \<Longrightarrow> mem (emit ?o ?s2) x = mem s1 x"
    using pw by auto
  then obtain s3 where s3: "buf_free B p (emit ?o ?s2) = Some s3" "buf_upd B (emit ?o ?s2) s3" "buf_inv B fr (flash_of s3)"
    using a(5) by blast
  note e = buf_upd_sel [OF a(3)] and f = buf_upd_sel [OF s3(2)]
  let ?s4 = "s3\<lparr>indirect_device_index := indirect_device_index s3 + 1\<rparr>"
  let ?s5 = "if indirect_device_index ?s4 \<ge> device_index ?s4 then ?s4\<lparr>indirect_device_index := 0\<rparr> else ?s4"
  have "mac_send_data_indirect L B s = Some ?s5"
    using a(1,2) pan s3(1) e
    by (simp add: mac_send_data_indirect_def Let_def indirect_frame_def data_req_zero_def)
  moreover have "unat (indirect_device_index s + 1) = unat (indirect_device_index s) + 1"
  proof -
    have "unat (indirect_device_index s) + 1 < 2 ^ 8"
      using assms(4) unsigned_less [of "device_index s", where ?'a = nat] by simp
    then show ?thesis
      using unat_add_no_wrap [of "indirect_device_index s" 1] by simp
  qed
  then have "unat (indirect_device_index ?s5) = (unat (indirect_device_index s) + 1) mod unat (device_index s)"
    using assms(4) e f by (auto simp: word_le_nat_alt mod_if)
  moreover have "mem ?s5 x = mem s x" if "x \<notin> buf_area B" for x
    using that e(11) [OF that] f(11) [OF that] a(4) pw by auto
  moreover have "flash_of ?s5 = flash_of s3"
    by (simp add: flash_of_def)
  ultimately show ?thesis
    using e f s3(3) by (intro exI [of _ ?s5]) simp
qed

section \<open>Runs\<close>

lemma others_eq: "others s' = others s \<longleftrightarrow> fl s' = fl s \<and> indirect_device_index s' = indirect_device_index s \<and> test_cnt s' = test_cnt s"
  by (auto simp: others_def)

lemma buf_inv_area:
  assumes "layout_ok B" "buf_inv B fr (flash_of s)" "fl s' = fl s" "\<And>a. a \<in> buf_area B \<Longrightarrow> mem s' a = mem s a"
  shows "buf_inv B fr (flash_of s')"
proof -
  have "group_ok B fr k (flash_of s') = group_ok B fr k (flash_of s)" if k: "k < 4" for k
  proof (intro group_ok_cong)
    show "mem (flash_of s') b = mem (flash_of s) b \<and> mem (flash_of s') (b + 4) = mem (flash_of s) (b + 4)" if "b \<in> set (blocks B k)" for b
      using assms(4) block_words_in_region [OF assms(1) k that] k unfolding buf_area_def flash_of_sel by blast
    show "mem (flash_of s') (pool_var B ! k) = mem (flash_of s) (pool_var B ! k)"
      using assms(4) k unfolding buf_area_def flash_of_sel by blast
  qed (simp_all add: flash_of_def assms(3))
  then show ?thesis
    using assms(2,3) by (simp add: buf_inv_def flash_of_def)
qed

context mac_descs
begin

lemma send_keeps_coor_ok:
  assumes "coor_ok rep heads slots kslots dfree kdfree kfree E N base reg s" "own \<inter> W = {}" "N \<inter> W = {}"
    and "device_index s' = device_index s" "end_device s' = end_device s" "g_zbMacPib s' = g_zbMacPib s" "device_addr_short s' = device_addr_short s"
    and "timer_head s' = timer_head s" "used_num s' = used_num s" "tev s' = tev s" "\<forall>a. a \<notin> W \<longrightarrow> mem s' a = mem s a"
  shows "coor_ok rep heads slots kslots dfree kdfree kfree E N base reg s'"
proof -
  obtain ds ks where T: "tables_ok rep heads slots kslots dfree kdfree kfree reg s ds ks"
    using assms(1) by (auto simp: coor_ok_def)
  have "mem s' a = mem s a" if "a \<in> own" for a
    using that assms(2,11) by blast
  then have "tables_ok rep heads slots kslots dfree kdfree kfree reg s' ds ks"
    by (rule tables_ok_outside [OF T assms(6)])
  moreover have "timers_in E N s'"
    using assms(1,3,8-11) by (auto simp: coor_ok_def elim!: timers_in_cong)
  ultimately show ?thesis
    using assms(1,4,5,7) by (auto simp: coor_ok_def devices_ok_def)
qed

end

text \<open>The task \<open>n\<close> times, as the timer posts it.\<close>

primrec send_rounds :: "tn_lib \<Rightarrow> ev_layout \<Rightarrow> nat \<Rightarrow> 'a app_coor_scheme \<Rightarrow> 'a app_coor_scheme option" where
  "send_rounds L B 0 s = Some s"
| "send_rounds L B (Suc n) s = do { s1 \<leftarrow> send_rounds L B n s; mac_send_data_indirect L B s1 }"

text \<open>Any sequence of requests to join and of tasks that send, the latter once a device is registered.\<close>

inductive coor_run :: "sdk_env \<Rightarrow> coor_at \<Rightarrow> tn_lib \<Rightarrow> sec_vars \<Rightarrow> sec_lib \<Rightarrow> ev_layout \<Rightarrow> 'a app_coor_scheme \<Rightarrow> 'a app_coor_scheme \<Rightarrow> bool"
  for E A L V D B s0 where
  start: "coor_run E A L V D B s0 s0"
| join: "coor_run E A L V D B s0 s \<Longrightarrow> length ext = 8 \<Longrightarrow> MyAssociateIndCb E A L V D (Some ext) s = Some s' \<Longrightarrow> coor_run E A L V D B s0 s'"
| send: "coor_run E A L V D B s0 s \<Longrightarrow> device_index s \<noteq> 0 \<Longrightarrow> mac_send_data_indirect L B s = Some s' \<Longrightarrow> coor_run E A L V D B s0 s'"

definition coor_inv ::
  "(wmem \<Rightarrow> addr \<Rightarrow> addr list \<Rightarrow> bool) \<Rightarrow> addr set \<Rightarrow> addr set \<Rightarrow> addr set \<Rightarrow> (wmem \<Rightarrow> addr set) \<Rightarrow> (wmem \<Rightarrow> addr set) \<Rightarrow> (wmem \<Rightarrow> addr set)
   \<Rightarrow> sdk_env \<Rightarrow> addr set \<Rightarrow> ev_layout \<Rightarrow> (nat \<Rightarrow> addr list) \<Rightarrow> u16 \<Rightarrow> (u8 list \<times> u16) list \<Rightarrow> 'a app_coor_scheme \<Rightarrow> bool" where
  "coor_inv rep heads slots kslots dfree kdfree kfree E N B fr base reg s \<longleftrightarrow>
     coor_ok rep heads slots kslots dfree kdfree kfree E N base reg s \<and> buf_inv B fr (flash_of s) \<and>
     (unat (indirect_device_index s) < length reg \<or> indirect_device_index s = 0)"

lemma coor_ok_index: "coor_ok rep heads slots kslots dfree kdfree kfree E N base reg s \<Longrightarrow> unat (device_index s) = length reg"
  by (simp add: coor_ok_def devices_ok_def)

lemma reg_assoc_prefix: "\<exists>more. snd (reg_assoc base ext reg) = reg @ more"
  by (auto simp: reg_assoc_def split: option.splits)

context mac_descs
begin

lemma send_inv:
  assumes "coor_inv rep heads slots kslots dfree kdfree kfree E N B fr base reg s" "reg \<noteq> []"
    and "layout_ok B" "fit_group fr 4 \<noteq> None" "(own \<union> N) \<inter> buf_area B = {}"
  shows "\<exists>s'. mac_send_data_indirect L B s = Some s' \<and> coor_inv rep heads slots kslots dfree kdfree kfree E N B fr base reg s' \<and>
    outs s' = outs s @ [indirect_frame (pib_pan s) (snd (reg ! unat (indirect_device_index s))) (test_cnt s)] \<and>
    unat (indirect_device_index s') = (unat (indirect_device_index s) + 1) mod length reg \<and> test_cnt s' = test_cnt s + 1 \<and> pib_pan s' = pib_pan s"
proof -
  have ok: "coor_ok rep heads slots kslots dfree kdfree kfree E N base reg s" and b: "buf_inv B fr (flash_of s)"
    and i: "unat (indirect_device_index s) < length reg"
    using assms(1,2) by (auto simp: coor_inv_def)
  have n: "unat (device_index s) = length reg"
    using ok by (rule coor_ok_index)
  have sh: "md_shortAddr (end_device s ! unat (indirect_device_index s)) = snd (reg ! unat (indirect_device_index s))"
    using ok i by (simp add: coor_ok_def devices_ok_def)
  obtain s' where s': "mac_send_data_indirect L B s = Some s'" "buf_inv B fr (flash_of s')"
      "outs s' = outs s @ [indirect_frame (pib_pan s) (md_shortAddr (end_device s ! unat (indirect_device_index s))) (test_cnt s)]"
      "unat (indirect_device_index s') = (unat (indirect_device_index s) + 1) mod unat (device_index s)" "test_cnt s' = test_cnt s + 1"
      "device_index s' = device_index s" "end_device s' = end_device s" "g_zbMacPib s' = g_zbMacPib s" "device_addr_short s' = device_addr_short s"
      "timer_head s' = timer_head s" "used_num s' = used_num s" "tev s' = tev s" "\<forall>a. a \<notin> buf_area B \<longrightarrow> mem s' a = mem s a"
    using send_indirect_step [OF assms(3) b assms(4), where L = L] i n by auto
  have "coor_ok rep heads slots kslots dfree kdfree kfree E N base reg s'"
    by (rule send_keeps_coor_ok [OF ok _ _ s'(6-13)]) (use assms(5) in auto)
  moreover have "pib_pan s' = pib_pan s"
    using attr_bytes_cong [OF s'(8)] by (simp add: pib_pan_def)
  ultimately show ?thesis
    using s' n sh assms(2) by (auto simp: coor_inv_def)
qed

lemma join_inv:
  assumes "coor_inv rep heads slots kslots dfree kdfree kfree E N B fr base reg s" "layout_ok B" "own \<inter> N = {}" "(own \<union> N) \<inter> buf_area B = {}"
    and "length ext = 8"
  shows "\<exists>s'. MyAssociateIndCb E A L V D (Some ext) s = Some s' \<and>
    coor_inv rep heads slots kslots dfree kdfree kfree E N B fr base (snd (reg_assoc base ext reg)) s' \<and> test_cnt s' = test_cnt s"
proof -
  have ok: "coor_ok rep heads slots kslots dfree kdfree kfree E N base reg s" and b: "buf_inv B fr (flash_of s)"
    using assms(1) by (simp_all add: coor_inv_def)
  obtain more where m: "snd (reg_assoc base ext reg) = reg @ more"
    using reg_assoc_prefix by blast
  obtain s' where s': "MyAssociateIndCb E A L V D (Some ext) s = Some s'" "coor_ok rep heads slots kslots dfree kdfree kfree E N base (reg @ more) s'"
      "others s' = others s" "\<forall>a. a \<notin> own \<union> N \<longrightarrow> mem s' a = mem s a"
    using coor_associate [OF ok assms(3,5), of "fst (reg_assoc base ext reg)" "reg @ more" A V] m by (metis prod.collapse)
  have "buf_inv B fr (flash_of s')"
    using s'(3,4) assms(4) by (intro buf_inv_area [OF assms(2) b]) (auto simp: others_eq)
  then show ?thesis
    using s' assms(1) m by (intro exI [of _ s']) (auto simp: coor_inv_def others_eq)
qed

end

lemma reg_wf_short_distinct:
  assumes "reg_wf base reg"
  shows "distinct (map snd reg)"
proof -
  have "snd (reg ! i) \<noteq> snd (reg ! j)" if "i < length reg" "j < length reg" "i \<noteq> j" for i j
  proof
    assume "snd (reg ! i) = snd (reg ! j)"
    then have "(of_nat i :: u16) = of_nat j" "i < 16" "j < 16"
      using assms that by (auto simp: reg_wf_def)
    then have "unat (of_nat i :: u16) = unat (of_nat j :: u16)" "i < 16" "j < 16" by simp_all
    then show False
      using that by (simp add: unat_of_nat)
  qed
  then show ?thesis
    by (simp add: distinct_conv_nth)
qed

section \<open>Properties\<close>

text \<open>
  C17. The indirect data goes round robin over the registered devices. In every consistent state with a
  registered device and a free buffer, the task returns; after \<open>n\<close> tasks the coordinator has sent \<open>n\<close> frames,
  one per task, to the devices in order of registration starting with the current one and wrapping around,
  each an acknowledged, indirect and encrypted request with the value of the counter, which grows
  by one, and no buffer is lost.\<close>

theorem indirect_round_robin:
  assumes "mac_descs L rep D own heads slots kdslots kslots dfree kdfree kfree" "(own \<union> N) \<inter> buf_area B = {}" "layout_ok B" "fit_group fr 4 \<noteq> None"
    and "coor_inv rep heads slots kslots dfree kdfree kfree E N B fr base reg s" "reg \<noteq> []"
  shows "\<exists>s'. send_rounds L B n s = Some s' \<and> coor_inv rep heads slots kslots dfree kdfree kfree E N B fr base reg s' \<and>
    outs s' = outs s @ map (\<lambda>j. indirect_frame (pib_pan s) (snd (reg ! ((unat (indirect_device_index s) + j) mod length reg)))
                                    (test_cnt s + of_nat j)) [0..<n]"
proof -
  let ?i = "unat (indirect_device_index s)"
  have i: "?i < length reg"
    using assms(5,6) by (auto simp: coor_inv_def)
  have "\<exists>s'. send_rounds L B n s = Some s' \<and> coor_inv rep heads slots kslots dfree kdfree kfree E N B fr base reg s' \<and>
    outs s' = outs s @ map (\<lambda>j. indirect_frame (pib_pan s) (snd (reg ! ((?i + j) mod length reg))) (test_cnt s + of_nat j)) [0..<n] \<and>
    unat (indirect_device_index s') = (?i + n) mod length reg \<and> test_cnt s' = test_cnt s + of_nat n \<and> pib_pan s' = pib_pan s"
  proof (induction n)
    case 0
    then show ?case using assms(5) i by simp
  next
    case (Suc n)
    then obtain s1 where s1: "send_rounds L B n s = Some s1" "coor_inv rep heads slots kslots dfree kdfree kfree E N B fr base reg s1"
        "outs s1 = outs s @ map (\<lambda>j. indirect_frame (pib_pan s) (snd (reg ! ((?i + j) mod length reg))) (test_cnt s + of_nat j)) [0..<n]"
        "unat (indirect_device_index s1) = (?i + n) mod length reg" "test_cnt s1 = test_cnt s + of_nat n" "pib_pan s1 = pib_pan s"
      by blast
    show ?case
      using mac_descs.send_inv [OF assms(1) s1(2) assms(6,3,4,2)] s1 by (auto simp: mod_Suc_eq add.commute)
  qed
  then show ?thesis by blast
qed

definition demo_at :: coor_at where
  "demo_at = \<lparr>data_send_indir_timer_cb_at = 0x2000, app_data_txto_allnode_at = 0x2010, mac_send_data_indirect_at = 0x2020\<rparr>"

text \<open>A coordinator with one free buffer, of 24 bytes, and its first device.\<close>

definition demo_bufs :: "addr \<Rightarrow> u32" where
  "demo_bufs a = (if a = 0x840000 then 0x841000 else if unat a \<in> region demo_layout 1 then 1
     else if unat a \<in> region demo_layout 2 then 2 else if unat a \<in> region demo_layout 3 then 3 else 0)"

definition demo_groups :: "ev_buf_groups_t list" where
  "demo_groups = map (\<lambda>k. \<lparr>qHead = pool_var demo_layout ! k, size = of_nat (grp_size k), availBufNum = (if k = 0 then 1 else 0), reserved = 0\<rparr>) [0..<4]"

definition demo_free :: "nat \<Rightarrow> addr list" where
  "demo_free k = (if k = 0 then [0x841000] else [])"

definition demo_sender :: app_coor where
  "demo_sender = demo_coordinator\<lparr>mem := demo_bufs, fl := (fl demo_coordinator)\<lparr>fp_bufGroups := demo_groups\<rparr>\<rparr>"

lemma demo_area: "a \<in> buf_area demo_layout \<Longrightarrow> 0x840000 \<le> unat a \<and> unat a < 0x843000 \<and> \<not> (0x840100 \<le> unat a \<and> unat a < 0x840400)"
  by (auto simp: buf_area_def all_lt4 demo_layout_def region_def BUFFER_GROUP_def BUFFER_NUM_IN_GROUP_def dest!: lt4_cases)

lemma demo_apart: "(demo_own \<union> demo_events) \<inter> buf_area demo_layout = {}"
  using demo_area by (fastforce simp: demo_own_def demo_heads_def demo_events_def word_le_nat_alt word_less_nat_alt)

lemma demo_sender_bufs: "buf_inv demo_layout demo_free (flash_of demo_sender)" "fit_group demo_free 4 \<noteq> None"
proof -
  have h: "demo_bufs (b + 4) = of_nat k" if k: "k < 4" and b: "b \<in> set (blocks demo_layout k)" for k b
  proof -
    have r: "unat (b + 4) \<in> region demo_layout k"
      using block_words_in_region [OF demo_layout_ok k b] by blast
    then have "b + 4 \<noteq> 0x840000"
      using layout_okD(1) [OF demo_layout_ok _ k, of 0] by (auto simp: demo_layout_def)
    moreover have "unat (b + 4) \<notin> region demo_layout j" if "j < 4" "j \<noteq> k" for j
      using layout_okD(5) [OF demo_layout_ok that(1) k that(2)] r by blast
    ultimately show ?thesis
      using lt4_cases [OF k] r by (auto simp: demo_bufs_def)
  qed
  have v: "demo_bufs (pool_var demo_layout ! k) = 0" if "k < 4" "k \<noteq> 0" for k
    using that lt4_cases [of k] layout_okD(1) [OF demo_layout_ok] by (auto simp: demo_bufs_def) (auto simp: demo_layout_def)
  have z: "demo_bufs 0x840000 = 0x841000" "demo_bufs 0x841000 = 0"
    by (simp_all add: demo_bufs_def demo_layout_def region_def BUFFER_GROUP_def BUFFER_NUM_IN_GROUP_def)
  have m: "0x841000 \<in> set (blocks demo_layout 0)"
    using demo_layout_ok by (simp add: demo_layout_def pool_blocks_def BUFFER_NUM_IN_GROUP_def BUFFER_GROUP_def upt_rec)
  have "group_ok demo_layout demo_free k (flash_of demo_sender)" if k: "k < 4" for k
  proof -
    have "list_rep demo_bufs (pool_var demo_layout ! k) (demo_free k)"
      using v [OF k] z by (cases "k = 0") (simp_all add: list_rep_def demo_free_def demo_layout_def)
    moreover have "set (demo_free k) \<subseteq> set (blocks demo_layout k)"
      using m by (cases "k = 0") (simp_all add: demo_free_def)
    ultimately show ?thesis
      using k h [OF k] by (simp add: group_ok_def flash_of_def demo_sender_def demo_groups_def demo_free_def)
  qed
  then show "buf_inv demo_layout demo_free (flash_of demo_sender)"
    by (simp add: buf_inv_def flash_of_def demo_sender_def demo_groups_def)
  show "fit_group demo_free 4 \<noteq> None"
    by (simp add: fit_group_def demo_free_def upt_rec BUFFER_GROUP_def)
qed

lemma demo_sender_inv:
  "coor_inv list_rep demo_heads demo_slots demo_kslots (unused 0x900000 24 0x901000) (unused 0x900004 16 0x902000) (unused 0x900008 48 0x903000)
     demo_env demo_events demo_layout demo_free 0x3300 [] demo_sender"
proof -
  have "demo_bufs a = 0" if "a \<in> demo_own" for a
  proof -
    have "a \<notin> buf_area demo_layout"
      using that demo_apart by blast
    then have "\<forall>j<4. a \<noteq> pool_var demo_layout ! j \<and> unat a \<notin> region demo_layout j"
      by (auto simp: buf_area_def)
    then show ?thesis
      by (simp add: all_lt4 demo_bufs_def demo_layout_def)
  qed
  then show ?thesis
    using demo_coordinator_ok [OF demo_sender_def] demo_sender_bufs(1)
    by (simp add: coor_inv_def demo_sender_def demo_coordinator_def ota_coor.defs)
qed

lemma demo_joined:
  obtains s where "MyAssociateIndCb demo_env demo_at list_c_lib demo_vars demo_sec_lib (Some [1, 2, 3, 4, 5, 6, 7, 8]) demo_sender = Some s"
    "coor_inv list_rep demo_heads demo_slots demo_kslots (unused 0x900000 24 0x901000) (unused 0x900004 16 0x902000) (unused 0x900008 48 0x903000)
         demo_env demo_events demo_layout demo_free 0x3300 [([1, 2, 3, 4, 5, 6, 7, 8], 0x3300)] s"
    "test_cnt s = 0xaa000001"
proof -
  have "test_cnt demo_sender = 0xaa000001"
    by (simp add: demo_sender_def demo_coordinator_def ota_coor.defs)
  then show thesis
    using demo_descs.join_inv [OF demo_sender_inv demo_layout_ok demo_disjoint demo_apart, of "[1, 2, 3, 4, 5, 6, 7, 8]" demo_at demo_vars] that
    by (auto simp: reg_assoc_def)
qed

theorem indirect_round_robin_witness:
  "\<exists>s s'. MyAssociateIndCb demo_env demo_at list_c_lib demo_vars demo_sec_lib (Some [1, 2, 3, 4, 5, 6, 7, 8]) demo_sender = Some s \<and>
     send_rounds list_c_lib demo_layout 2 s = Some s' \<and>
     outs s' = outs s @ [indirect_frame (pib_pan s) 0x3300 0xaa000001, indirect_frame (pib_pan s) 0x3300 0xaa000002]"
proof -
  obtain s where s: "MyAssociateIndCb demo_env demo_at list_c_lib demo_vars demo_sec_lib (Some [1, 2, 3, 4, 5, 6, 7, 8]) demo_sender = Some s"
    "coor_inv list_rep demo_heads demo_slots demo_kslots (unused 0x900000 24 0x901000) (unused 0x900004 16 0x902000) (unused 0x900008 48 0x903000)
         demo_env demo_events demo_layout demo_free 0x3300 [([1, 2, 3, 4, 5, 6, 7, 8], 0x3300)] s"
    "test_cnt s = 0xaa000001"
    by (rule demo_joined)
  then show ?thesis
    using indirect_round_robin [OF demo_descs.mac_descs_axioms demo_apart demo_layout_ok demo_sender_bufs(2) s(2), of 2]
    by (auto simp: upt_rec)
qed

text \<open>
  C8. Short addresses are stable. However requests to join and sending tasks follow each other from a consistent
  state, the state stays consistent and the list of registered devices only grows: a device keeps the short
  address it was given, no two devices share one, and there are never more than sixteen. And in every state of such a run the handler of a
  further request and, once there is a device, a further task return.\<close>

theorem coor_run_inv:
  assumes "mac_descs L rep D own heads slots kdslots kslots dfree kdfree kfree" "own \<inter> N = {}" "(own \<union> N) \<inter> buf_area B = {}" "layout_ok B"
    and "fit_group fr 4 \<noteq> None" "coor_inv rep heads slots kslots dfree kdfree kfree E N B fr base reg s0" "coor_run E A L V D B s0 s"
  shows "\<exists>more. coor_inv rep heads slots kslots dfree kdfree kfree E N B fr base (reg @ more) s \<and>
    distinct (map snd (reg @ more)) \<and> length (reg @ more) \<le> 16 \<and>
    (\<forall>ext. length ext = 8 \<longrightarrow> MyAssociateIndCb E A L V D (Some ext) s \<noteq> None) \<and>
    (reg @ more \<noteq> [] \<longrightarrow> mac_send_data_indirect L B s \<noteq> None)"
proof -
  have "\<exists>more. coor_inv rep heads slots kslots dfree kdfree kfree E N B fr base (reg @ more) s"
    using assms(7)
  proof induction
    case start
    then show ?case using assms(6) by (intro exI [of _ "[]"]) simp
  next
    case (join s ext s')
    then obtain more where "coor_inv rep heads slots kslots dfree kdfree kfree E N B fr base (reg @ more) s" by blast
    from mac_descs.join_inv [OF assms(1) this assms(4,2,3) join.hyps(2)] show ?case
      using join.hyps(3) reg_assoc_prefix [of base ext "reg @ more"] by (metis append.assoc option.inject)
  next
    case (send s s')
    then obtain more where m: "coor_inv rep heads slots kslots dfree kdfree kfree E N B fr base (reg @ more) s" by blast
    then have "reg @ more \<noteq> []"
      using send.hyps(2) coor_ok_index by (fastforce simp: coor_inv_def unat_eq_0)
    from mac_descs.send_inv [OF assms(1) m this assms(4,5,3)] show ?case
      using send.hyps(3) by (metis option.inject)
  qed
  then obtain more where m: "coor_inv rep heads slots kslots dfree kdfree kfree E N B fr base (reg @ more) s" by blast
  then have wf: "reg_wf base (reg @ more)"
    by (simp add: coor_inv_def coor_ok_def)
  have "distinct (map snd (reg @ more))"
    using wf by (rule reg_wf_short_distinct)
  moreover have "\<forall>ext. length ext = 8 \<longrightarrow> MyAssociateIndCb E A L V D (Some ext) s \<noteq> None"
    using mac_descs.join_inv [OF assms(1) m assms(4,2,3)] by (metis option.distinct(1))
  moreover have "reg @ more \<noteq> [] \<longrightarrow> mac_send_data_indirect L B s \<noteq> None"
    using mac_descs.send_inv [OF assms(1) m _ assms(4,5,3)] by (metis option.distinct(1))
  ultimately show ?thesis
    using m wf by (auto simp: reg_wf_def)
qed

theorem coor_run_inv_witness:
  "\<exists>s more. coor_run demo_env demo_at list_c_lib demo_vars demo_sec_lib demo_layout demo_sender s \<and> more \<noteq> [] \<and>
     coor_inv list_rep demo_heads demo_slots demo_kslots (unused 0x900000 24 0x901000) (unused 0x900004 16 0x902000) (unused 0x900008 48 0x903000)
         demo_env demo_events demo_layout demo_free 0x3300 more s"
proof -
  obtain s where s: "MyAssociateIndCb demo_env demo_at list_c_lib demo_vars demo_sec_lib (Some [1, 2, 3, 4, 5, 6, 7, 8]) demo_sender = Some s"
    "coor_inv list_rep demo_heads demo_slots demo_kslots (unused 0x900000 24 0x901000) (unused 0x900004 16 0x902000) (unused 0x900008 48 0x903000)
         demo_env demo_events demo_layout demo_free 0x3300 [([1, 2, 3, 4, 5, 6, 7, 8], 0x3300)] s"
    by (rule demo_joined)
  have run: "coor_run demo_env demo_at list_c_lib demo_vars demo_sec_lib demo_layout demo_sender s"
    using coor_run.join [OF coor_run.start _ s(1)] by simp
  have "unat (device_index s) = 1"
    using s(2) coor_ok_index by (fastforce simp: coor_inv_def)
  moreover obtain more where m: "coor_inv list_rep demo_heads demo_slots demo_kslots (unused 0x900000 24 0x901000) (unused 0x900004 16 0x902000) (unused 0x900008 48 0x903000)
         demo_env demo_events demo_layout demo_free 0x3300 ([] @ more) s"
    using coor_run_inv [OF demo_descs.mac_descs_axioms demo_disjoint demo_apart demo_layout_ok demo_sender_bufs(2) demo_sender_inv run] by blast
  moreover have "unat (device_index s) = length ([] @ more)"
    using m coor_ok_index unfolding coor_inv_def by blast
  ultimately show ?thesis
    using run by (intro exI [of _ s] exI [of _ more]) auto
qed

end
