(* ===== verification/App_Ui.thy ===== *)
theory App_Ui
  imports Drv_Nv Drv_Keyboard App_Dev App_Indirect
begin

text \<open>
  The buttons and lights of the demos, \<^verbatim>\<open>app_ui.c\<close> of \<^verbatim>\<open>demo/associate_dev\<close> and \<^verbatim>\<open>demo/associate_coor\<close>: the handler that the main
  loop polls, on top of the keyboard driver. The functions of the coordinator carry the prefix \<open>c_\<close>.
\<close>

section \<open>Common parts\<close>

definition APP_STATE_NORMAL :: u8 where "APP_STATE_NORMAL = 0"
definition APP_FACTORY_NEW_SET_CHECK :: u8 where "APP_FACTORY_NEW_SET_CHECK = 1"
definition APP_FACTORY_NEW_DOING :: u8 where "APP_FACTORY_NEW_DOING = 2"
definition LED_PERMIT :: u32 where "LED_PERMIT = 0x004"
definition LED_POWER :: u32 where "LED_POWER = 0x008"
definition MAC_ATTR_ASSOCIATION_PERMIT :: u8 where "MAC_ATTR_ASSOCIATION_PERMIT = 0x41"

definition time_exceeds :: "u32 \<Rightarrow> u32 \<Rightarrow> 'a sdk_state_scheme \<Rightarrow> bool \<times> 'a sdk_state_scheme" where
  "time_exceeds ref us s = (let (t, s1) = clock_time s in (t - ref > us * 16, s1))"

section \<open>The end device\<close>

record dev_ui = app_dev +
  kb :: kb_state
  leds :: "u32 \<Rightarrow> bool"
  keyPressedTime :: u32
  ctx_state :: u8
  keyPressed :: u8
  valid_keyCode :: u8

definition led_on :: "u32 \<Rightarrow> 'a dev_ui_scheme \<Rightarrow> 'a dev_ui_scheme" where
  "led_on pin s = s\<lparr>leds := (leds s)(pin := True)\<rparr>"

definition led_off :: "u32 \<Rightarrow> 'a dev_ui_scheme \<Rightarrow> 'a dev_ui_scheme" where
  "led_off pin s = s\<lparr>leds := (leds s)(pin := False)\<rparr>"

definition led_init :: "'a dev_ui_scheme \<Rightarrow> 'a dev_ui_scheme" where
  "led_init s = led_off LED_PERMIT (led_off LED_POWER s)"

definition app_dataTxTest :: "tn_lib \<Rightarrow> ev_layout \<Rightarrow> 'a dev_ui_scheme \<Rightarrow> 'a dev_ui_scheme option" where
  "app_dataTxTest L B s =
     do {
       (_, pan, _) \<leftarrow> tl_zbMacAttrGet L MAC_ATTR_PAN_ID (\<lambda>_. 0) 0 s;
       let req = data_req_zero\<lparr>srcAddr := addr_zero\<lparr>addrMode := ZB_ADDR_16BIT_DEV_OR_BROADCAST\<rparr>,
                   dstAddr := addr_zero\<lparr>addrMode := ZB_ADDR_16BIT_DEV_OR_BROADCAST\<rparr>,
                   dstPanId := Mac_Pib.le16 pan 0, msduHandle := 0, txOptions := MAC_TX_OPTION_ACKNOWLEDGED_BIT\<rparr>;
       let (msdu, s1) = buf_allocate 50 s;
       if msdu \<noteq> NULL then do {
         let m = fold (\<lambda>i m. set_payload_byte m msdu i (of_nat i)) [0..<50] (mem s1);
         buf_free B msdu (emit (McpsDataRequest req (map (payload_byte m msdu) [0..<50])) (s1\<lparr>mem := m\<rparr>))
       }
       else Some s1
     }"

text \<open>The flag tells that the chip is reset, so that the call does not return.\<close>

definition buttonKeepPressed :: "sdk_env \<Rightarrow> u8 \<Rightarrow> 'a dev_ui_scheme \<Rightarrow> bool \<times> 'a dev_ui_scheme" where
  "buttonKeepPressed E btNum s =
     (if btNum = VK_SW1 then
        let (_, s1) = flash_val (nv_resetToFactoryNew (bus E)) (s\<lparr>ctx_state := APP_FACTORY_NEW_DOING\<rparr>)
        in (True, emit SystemReset s1)
      else (False, s))"

definition buttonShortPressed :: "tn_lib \<Rightarrow> ev_layout \<Rightarrow> u8 \<Rightarrow> 'a dev_ui_scheme \<Rightarrow> 'a dev_ui_scheme option" where
  "buttonShortPressed L B btNum s = (if btNum = VK_SW1 \<and> \<not> newDev s then app_dataTxTest L B s else Some s)"

definition keyScan_keyPressedCB :: "tn_lib \<Rightarrow> ev_layout \<Rightarrow> kb_data_t \<Rightarrow> 'a dev_ui_scheme \<Rightarrow> 'a dev_ui_scheme option" where
  "keyScan_keyPressedCB L B kbEvt s =
     do {
       s1 \<leftarrow> buttonShortPressed L B (keycode kbEvt ! 0) s;
       Some (if keycode kbEvt ! 0 = VK_SW1
             then let (t, s2) = clock_time s1 in s2\<lparr>keyPressedTime := t, ctx_state := APP_FACTORY_NEW_SET_CHECK\<rparr>
             else s1)
     }"

definition keyScan_keyReleasedCB :: "u8 \<Rightarrow> 'a dev_ui_scheme \<Rightarrow> 'a dev_ui_scheme" where
  "keyScan_keyReleasedCB keyCode s = s\<lparr>ctx_state := APP_STATE_NORMAL\<rparr>"

definition app_key_handler :: "sdk_env \<Rightarrow> tn_lib \<Rightarrow> ev_layout \<Rightarrow> 'a dev_ui_scheme \<Rightarrow> (bool \<times> 'a dev_ui_scheme) option" where
  "app_key_handler E L B s =
     (let (reset, s1) =
            (if ctx_state s = APP_FACTORY_NEW_SET_CHECK
             then let (ex, s') = time_exceeds (keyPressedTime s) (5 * 1000 * 1000) s
                  in if ex then buttonKeepPressed E (valid_keyCode s') s' else (False, s')
             else (False, s))
      in if reset then Some (True, s1)
         else
           let (r, k) = kb_scan_key 0 1 (kb s1); s2 = s1\<lparr>kb := k\<rparr>
           in if r = 0 then Some (False, s2)
              else if kb_cnt (kb_event k) \<noteq> 0 then
                do {
                  s3 \<leftarrow> keyScan_keyPressedCB L B (kb_event k) (s2\<lparr>keyPressed := 1\<rparr>);
                  Some (False, if kb_cnt (kb_event k) = 1 then s3\<lparr>valid_keyCode := keycode (kb_event k) ! 0\<rparr> else s3)
                }
              else Some (False, (keyScan_keyReleasedCB (valid_keyCode s2) s2)\<lparr>valid_keyCode := 0xff, keyPressed := 0\<rparr>))"

section \<open>The coordinator\<close>

record coor_ui = app_coor +
  c_kb :: kb_state
  c_leds :: "u32 \<Rightarrow> bool"
  c_keyPressedTime :: u32
  c_ctx_state :: u8
  c_valid_keyCode :: u8

definition c_led :: "bool \<Rightarrow> u32 \<Rightarrow> 'a coor_ui_scheme \<Rightarrow> 'a coor_ui_scheme" where
  "c_led v pin s = s\<lparr>c_leds := (c_leds s)(pin := v)\<rparr>"

definition c_led_init :: "'a coor_ui_scheme \<Rightarrow> 'a coor_ui_scheme" where
  "c_led_init s = c_led False LED_PERMIT (c_led False LED_POWER s)"

definition localPermitJoinState :: "tn_lib \<Rightarrow> sec_vars \<Rightarrow> 'a coor_ui_scheme \<Rightarrow> 'a coor_ui_scheme option" where
  "localPermitJoinState L V s =
     do {
       (_, b, _) \<leftarrow> tl_zbMacAttrGet L MAC_ATTR_ASSOCIATION_PERMIT (\<lambda>_. 0) 0 s;
       let permit_en = b 0 XOR 1;
       (_, _, s1) \<leftarrow> tl_zbMacAttrSet L V MAC_ATTR_ASSOCIATION_PERMIT NULL (\<lambda>_. permit_en) 1 s;
       Some (c_led (permit_en = 1) LED_PERMIT s1)
     }"

definition c_buttonKeepPressed :: "sdk_env \<Rightarrow> coor_at \<Rightarrow> u8 \<Rightarrow> 'a coor_ui_scheme \<Rightarrow> (bool \<times> 'a coor_ui_scheme) option" where
  "c_buttonKeepPressed E A btNum s =
     (if btNum = VK_SW1 then
        let (_, s1) = flash_val (nv_resetToFactoryNew (bus E)) (s\<lparr>c_ctx_state := APP_FACTORY_NEW_DOING\<rparr>)
        in Some (True, emit SystemReset s1)
      else if btNum = VK_SW2 then map_option (Pair False) (app_data_transmit_toggle E A s)
      else Some (False, s))"

definition c_buttonShortPressed :: "sdk_env \<Rightarrow> coor_at \<Rightarrow> tn_lib \<Rightarrow> sec_vars \<Rightarrow> u8 \<Rightarrow> 'a coor_ui_scheme \<Rightarrow> 'a coor_ui_scheme option" where
  "c_buttonShortPressed E A L V btNum s =
     (if btNum = VK_SW1 then localPermitJoinState L V s
      else if btNum = VK_SW2 then app_data_transmit_toggle E A s
      else Some s)"

definition c_keyScan_keyPressedCB :: "sdk_env \<Rightarrow> coor_at \<Rightarrow> tn_lib \<Rightarrow> sec_vars \<Rightarrow> kb_data_t \<Rightarrow> 'a coor_ui_scheme \<Rightarrow> 'a coor_ui_scheme option" where
  "c_keyScan_keyPressedCB E A L V kbEvt s =
     do {
       s1 \<leftarrow> c_buttonShortPressed E A L V (keycode kbEvt ! 0) s;
       Some (if keycode kbEvt ! 0 = VK_SW1
             then let (t, s2) = clock_time s1 in s2\<lparr>c_keyPressedTime := t, c_ctx_state := APP_FACTORY_NEW_SET_CHECK\<rparr>
             else s1)
     }"

definition c_keyScan_keyReleasedCB :: "u8 \<Rightarrow> 'a coor_ui_scheme \<Rightarrow> 'a coor_ui_scheme" where
  "c_keyScan_keyReleasedCB keyCode s = s\<lparr>c_ctx_state := APP_STATE_NORMAL\<rparr>"

definition c_app_key_handler ::
  "sdk_env \<Rightarrow> coor_at \<Rightarrow> tn_lib \<Rightarrow> sec_vars \<Rightarrow> 'a coor_ui_scheme \<Rightarrow> (bool \<times> 'a coor_ui_scheme) option" where
  "c_app_key_handler E A L V s =
     do {
       (reset, s1) \<leftarrow>
         (if c_ctx_state s = APP_FACTORY_NEW_SET_CHECK
          then let (ex, s') = time_exceeds (c_keyPressedTime s) (5 * 1000 * 1000) s
               in if ex then c_buttonKeepPressed E A (c_valid_keyCode s') s' else Some (False, s')
          else Some (False, s));
       if reset then Some (True, s1)
       else do {
         let (r, k) = kb_scan_key 0 1 (c_kb s1);
         let s2 = s1\<lparr>c_kb := k\<rparr>;
         if r = 0 then Some (False, s2)
         else if kb_cnt (kb_event k) \<noteq> 0 then
           do {
             s3 \<leftarrow> c_keyScan_keyPressedCB E A L V (kb_event k) s2;
             Some (False, if kb_cnt (kb_event k) = 1 then s3\<lparr>c_valid_keyCode := keycode (kb_event k) ! 0\<rparr> else s3)
           }
         else Some (False, (c_keyScan_keyReleasedCB (c_valid_keyCode s2) s2)\<lparr>c_valid_keyCode := 0xff\<rparr>)
       }
     }"

section \<open>Sending a test frame\<close>

lemma dataTxTest_ok:
  fixes s :: "'a dev_ui_scheme"
  assumes "layout_ok B" "buf_inv B fr (flash_of s)"
  shows "\<exists>s' o'. app_dataTxTest L B s = Some s' \<and> buf_inv B fr (flash_of s') \<and> outs s' = outs s @ o' \<and> SystemReset \<notin> set o' \<and>
    fp_chip (fl s') = fp_chip (fl s) \<and> kb s' = kb s \<and> ticks s' = ticks s \<and> keyPressedTime s' = keyPressedTime s \<and> ctx_state s' = ctx_state s \<and> valid_keyCode s' = valid_keyCode s"
proof -
  obtain pan l where pan: "tl_zbMacAttrGet L MAC_ATTR_PAN_ID (\<lambda>_. 0) 0 s = Some (MAC_SUCCESS, pan, l)"
    using get_pan by blast
  show ?thesis
  proof (cases "fit_group fr 50")
    case None
    then show ?thesis
      using pan buf_allocate_none [OF assms(2) None] assms(2) by (simp add: app_dataTxTest_def)
  next
    case (Some k)
    obtain p s1 where a: "buf_allocate 50 s = (p, s1)" "p \<noteq> NULL" "buf_upd B s s1"
      "\<And>s2 :: 'a dev_ui_scheme. fl s2 = fl s1 \<Longrightarrow> (\<And>x. x \<notin> payload_words p (unat (50 :: u16)) \<Longrightarrow> mem s2 x = mem s1 x) \<Longrightarrow>
         \<exists>s3. buf_free B p s2 = Some s3 \<and> buf_upd B s2 s3 \<and> buf_inv B fr (flash_of s3)"
      by (rule buf_round [OF assms _ _ Some]) (auto simp: MAX_BUFFER_SIZE_def)
    let ?m = "fold (\<lambda>i m. set_payload_byte m p i (of_nat i)) [0..<50] (mem s1)"
    define x where "x = McpsDataRequest (data_req_zero\<lparr>srcAddr := addr_zero\<lparr>addrMode := ZB_ADDR_16BIT_DEV_OR_BROADCAST\<rparr>,
                   dstAddr := addr_zero\<lparr>addrMode := ZB_ADDR_16BIT_DEV_OR_BROADCAST\<rparr>,
                   dstPanId := Mac_Pib.le16 pan 0, msduHandle := 0, txOptions := MAC_TX_OPTION_ACKNOWLEDGED_BIT\<rparr>) (map (payload_byte ?m p) [0..<50])"
    have "?m c = mem s1 c" if "c \<notin> payload_words p (unat (50 :: u16))" for c
      using that payload_fill(2) [of 50 0] by simp
    then obtain s3 where s3: "buf_free B p (emit x (s1\<lparr>mem := ?m\<rparr>)) = Some s3" "buf_upd B (emit x (s1\<lparr>mem := ?m\<rparr>)) s3" "buf_inv B fr (flash_of s3)"
      using a(4) [of "emit x (s1\<lparr>mem := ?m\<rparr>)"] by auto
    have "app_dataTxTest L B s = Some s3"
      using pan a(1,2) s3(1) by (simp add: app_dataTxTest_def x_def Let_def)
    moreover have "outs s3 = outs s @ [x]" "fp_chip (fl s3) = fp_chip (fl s)" "kb s3 = kb s" "ticks s3 = ticks s" "keyPressedTime s3 = keyPressedTime s" "ctx_state s3 = ctx_state s"
        "valid_keyCode s3 = valid_keyCode s"
      using s3(2) a(3) by (auto simp: buf_upd_def emit_def)
    ultimately show ?thesis
      using s3(3) by (auto simp: x_def)
  qed
qed

section \<open>Runs of the handler\<close>

text \<open>One call while the ports have the levels \<open>g\<close> and the clock shows \<open>t\<close>.\<close>

definition call_at :: "(nat \<Rightarrow> u8) \<Rightarrow> u32 \<Rightarrow> 'a dev_ui_scheme \<Rightarrow> 'a dev_ui_scheme" where
  "call_at g t s = s\<lparr>kb := (kb s)\<lparr>gpio_in := \<lambda>_. g\<rparr>, ticks := \<lambda>_. t\<rparr>"

fun dev_ui_run :: "sdk_env \<Rightarrow> tn_lib \<Rightarrow> ev_layout \<Rightarrow> ((nat \<Rightarrow> u8) \<times> u32) list \<Rightarrow> 'a dev_ui_scheme \<Rightarrow> (bool \<times> 'a dev_ui_scheme) option" where
  "dev_ui_run E L B [] s = Some (False, s)"
| "dev_ui_run E L B ((g, t) # xs) s =
     do {
       (reset, s1) \<leftarrow> app_key_handler E L B (call_at g t s);
       if reset then Some (True, s1) else dev_ui_run E L B xs s1
     }"

definition ui_inv :: "ev_layout \<Rightarrow> (nat \<Rightarrow> addr list) \<Rightarrow> flash_chip \<Rightarrow> u32 \<Rightarrow> u32 \<Rightarrow> u32 \<Rightarrow> 'a dev_ui_scheme \<Rightarrow> bool" where
  "ui_inv B fr c l p T s \<longleftrightarrow> kb_inv l p (kb s) \<and> buf_inv B fr (flash_of s) \<and> fp_chip (fl s) = c \<and> SystemReset \<notin> set (outs s) \<and>
     (if l = 1 then ctx_state s = APP_FACTORY_NEW_SET_CHECK \<and> keyPressedTime s = T \<and> valid_keyCode s = VK_SW1
      else l = 0 \<and> ctx_state s = APP_STATE_NORMAL \<and> valid_keyCode s = 0xff) \<and> (p = 0 \<or> p = 1)"

lemma call_at_sel [simp]:
  "kb (call_at g t s) = (kb s)\<lparr>gpio_in := \<lambda>_. g\<rparr>" "ticks (call_at g t s) = (\<lambda>_. t)" "flash_of (call_at g t s) = flash_of s"
  "fl (call_at g t s) = fl s" "outs (call_at g t s) = outs s" "ctx_state (call_at g t s) = ctx_state s" "newDev (call_at g t s) = newDev s"
  "keyPressedTime (call_at g t s) = keyPressedTime s" "valid_keyCode (call_at g t s) = valid_keyCode s"
  by (simp_all add: call_at_def flash_of_def)

lemma ui_clock [simp]:
  "clock_time (call_at g t s) = (t, call_at g t s)"
  by (simp add: clock_time_def call_at_def)

lemma ui_inv_call: "ui_inv B fr c l p T s \<Longrightarrow> ui_inv B fr c l p T (call_at g t s)"
  by (simp add: ui_inv_def kb_inv_def)

lemma flash_of_ui [simp]:
  "flash_of (s\<lparr>ctx_state := a\<rparr>) = flash_of s" "flash_of (s\<lparr>kb := k\<rparr>) = flash_of s" "flash_of (s\<lparr>keyPressed := b\<rparr>) = flash_of s"
  "flash_of (s\<lparr>keyPressedTime := t\<rparr>) = flash_of s" "flash_of (s\<lparr>valid_keyCode := v\<rparr>) = flash_of s"
  by (simp_all add: flash_of_def)

lemma handler_resets:
  assumes "ui_inv B fr c 1 p T s" "t - T > 80000000"
  shows "\<exists>s'. app_key_handler E L B (call_at g t s) = Some (True, s') \<and> SystemReset \<in> set (outs s') \<and>
    flash_of s' = snd (nv_resetToFactoryNew (bus E) (flash_of s))"
  using assms
  by (auto simp: ui_inv_def app_key_handler_def time_exceeds_def buttonKeepPressed_def flash_val_def Let_def case_prod_beta)

lemma handler_scans:
  assumes "ui_inv B fr c l p T s" "\<not> (l = 1 \<and> t - T > 80000000)"
  shows "app_key_handler E L B (call_at g t s) =
    (let s1 = call_at g t s; (r, k) = kb_scan_key 0 1 (kb s1); s2 = s1\<lparr>kb := k\<rparr>
     in if r = 0 then Some (False, s2)
        else if kb_cnt (kb_event k) \<noteq> 0 then
          do {
            s3 \<leftarrow> keyScan_keyPressedCB L B (kb_event k) (s2\<lparr>keyPressed := 1\<rparr>);
            Some (False, if kb_cnt (kb_event k) = 1 then s3\<lparr>valid_keyCode := keycode (kb_event k) ! 0\<rparr> else s3)
          }
        else Some (False, (keyScan_keyReleasedCB (valid_keyCode s2) s2)\<lparr>valid_keyCode := 0xff, keyPressed := 0\<rparr>))"
  using assms
  by (auto simp: ui_inv_def app_key_handler_def time_exceeds_def APP_FACTORY_NEW_SET_CHECK_def APP_STATE_NORMAL_def Let_def split: if_splits)

lemma one_key:
  assumes "take (unat n) xs = keys f" "length xs = 6" "f = 0 \<or> f = 1"
  shows "f = 0 \<Longrightarrow> n = 0" "f = 1 \<Longrightarrow> n = 1 \<and> xs ! 0 = VK_SW1"
proof -
  have "min 6 (unat n) = length (keys f)"
    using assms(1,2) length_take [of "unat n" xs] by simp
  then show "f = 0 \<Longrightarrow> n = 0"
    by (simp add: keys_def min_def unat_eq_0 split: if_splits)
  assume f: "f = 1"
  then have "min 6 (unat n) = 1"
    using \<open>min 6 (unat n) = length (keys f)\<close> by (simp add: keys_def)
  then have "unat n = 1" by (simp add: min_def split: if_splits)
  then show "n = 1 \<and> xs ! 0 = VK_SW1"
    using assms(1,2) f by (cases xs) (auto simp: keys_def word_unat_eq_iff)
qed

lemma handler_step:
  assumes L: "layout_ok B" and inv: "ui_inv B fr c l p T s" and no: "\<not> (l = 1 \<and> t - T > 80000000)" and g: "down g < 2"
  defines "f \<equiv> majority l p (down g)"
  shows "\<exists>s'. app_key_handler E L' B (call_at g t s) = Some (False, s') \<and> ui_inv B fr c f (down g) (if f \<noteq> l then t else T) s'"
proof -
  let ?s = "call_at g t s"
  have q: "down g = 0 \<or> down g = 1" "l = 0 \<or> l = 1" "p = 0 \<or> p = 1"
    using g inv by (cases g rule: down_cases; auto simp: ui_inv_def split: if_splits)+
  then have f: "f = 0 \<or> f = 1"
    by (auto simp: f_def majority_def)
  have "kb_inv l p (kb ?s)"
    using inv by (simp add: ui_inv_def kb_inv_def)
  from scan_step [OF this, of g] obtain k where k: "kb_scan_key 0 1 (kb ?s) = (of_bool (f \<noteq> l), k)" "kb_inv f (down g) k"
      "f \<noteq> l \<longrightarrow> take (unat (kb_cnt (kb_event k))) (keycode (kb_event k)) = keys f"
    by (auto simp: f_def)
  have len: "length (keycode (kb_event k)) = 6"
    using k(2) by (simp add: kb_inv_def)
  note H = handler_scans [OF inv no, of E L' g]
  consider (same) "f = l" | (up) "f \<noteq> l" "f = 0" | (press) "f \<noteq> l" "f = 1"
    using f by blast
  then show ?thesis
  proof cases
    case same
    then show ?thesis
      using H k inv q(1) by (auto simp: ui_inv_def Let_def split: if_splits)
  next
    case up
    then have "kb_cnt (kb_event k) = 0"
      using one_key(1) [OF _ len f] k(3) by blast
    then show ?thesis
      using H k inv q(1) up by (auto simp: ui_inv_def Let_def keyScan_keyReleasedCB_def)
  next
    case press
    then have e: "kb_cnt (kb_event k) = 1" "keycode (kb_event k) ! 0 = VK_SW1"
      using one_key(2) [OF _ len f] k(3) by blast+
    let ?s2 = "?s\<lparr>kb := k, keyPressed := 1\<rparr>"
    have b: "buf_inv B fr (flash_of ?s2)"
      using inv by (simp add: ui_inv_def)
    have "\<exists>s3 o'. buttonShortPressed L' B VK_SW1 ?s2 = Some s3 \<and> buf_inv B fr (flash_of s3) \<and> outs s3 = outs s @ o' \<and> SystemReset \<notin> set o' \<and>
        fp_chip (fl s3) = fp_chip (fl s) \<and> kb s3 = k \<and> ticks s3 = (\<lambda>_. t)"
      using dataTxTest_ok [OF L b, of L'] b by (cases "newDev s") (auto simp: buttonShortPressed_def)
    then obtain s3 o' where s3: "buttonShortPressed L' B VK_SW1 ?s2 = Some s3" "buf_inv B fr (flash_of s3)" "outs s3 = outs s @ o'"
        "SystemReset \<notin> set o'" "fp_chip (fl s3) = fp_chip (fl s)" "kb s3 = k" "ticks s3 = (\<lambda>_. t)"
      by blast
    have "clock_time s3 = (t, s3)"
      using s3(7) by (cases s3) (simp add: clock_time_def)
    then show ?thesis
      using H k(1,2) inv q(1) press e s3 by (auto simp: ui_inv_def Let_def keyScan_keyPressedCB_def)
  qed
qed

text \<open>What the handler computes: has the button been reported down since a time more than five seconds ago?\<close>

fun held :: "u32 \<Rightarrow> u32 \<Rightarrow> u32 \<Rightarrow> (u32 \<times> u32) list \<Rightarrow> bool" where
  "held l p T [] = False"
| "held l p T ((q, t) # xs) = ((l = 1 \<and> t - T > 80000000) \<or> held (majority l p q) q (if majority l p q \<noteq> l then t else T) xs)"

lemma dev_ui_run_held:
  assumes "layout_ok B" "ui_inv B fr c l p T s" "\<forall>(g, t) \<in> set xs. down g < 2"
  shows "\<exists>r s'. dev_ui_run E L B xs s = Some (r, s') \<and> (r \<longleftrightarrow> held l p T (map (\<lambda>(g, t). (down g, t)) xs)) \<and> (r \<longleftrightarrow> SystemReset \<in> set (outs s')) \<and>
    (r \<longrightarrow> (\<exists>u. flash_of s' = snd (nv_resetToFactoryNew (bus E) u) \<and> chip u = c))"
  using assms(2,3)
proof (induction xs arbitrary: l p T s)
  case Nil
  then show ?case by (auto simp: ui_inv_def)
next
  case (Cons x xs)
  obtain g t where x: "x = (g, t)" by fastforce
  show ?case
  proof (cases "l = 1 \<and> t - T > 80000000")
    case True
    then show ?thesis
      using handler_resets [of B fr c p T s t E L g] Cons.prems(1) by (auto simp: x ui_inv_def intro!: exI [of _ "flash_of s"])
  next
    case False
    have "down g < 2" "\<forall>(g, t) \<in> set xs. down g < 2"
      using Cons.prems(2) x by auto
    with handler_step [OF assms(1) Cons.prems(1) False, of g E L] Cons.IH show ?thesis
      using False by (fastforce simp: x)
  qed
qed

lemma ex_pair_shift:
  "(\<exists>i n. i < n \<and> n < Suc k \<and> Q i n) \<longleftrightarrow> (\<exists>n<k. Q 0 (Suc n)) \<or> (\<exists>i n. i < n \<and> n < k \<and> Q (Suc i) (Suc n))"
proof
  assume "\<exists>i n. i < n \<and> n < Suc k \<and> Q i n"
  then obtain i n where "i < n" "n < Suc k" "Q i n" by blast
  then show "(\<exists>n<k. Q 0 (Suc n)) \<or> (\<exists>i n. i < n \<and> n < k \<and> Q (Suc i) (Suc n))"
    by (cases i; cases n) auto
qed auto

lemma all_from_shift: "(\<forall>j. Suc i \<le> j \<and> j < Suc n \<longrightarrow> P j) \<longleftrightarrow> (\<forall>j. i \<le> j \<and> j < n \<longrightarrow> P (Suc j))"
  by (metis Suc_le_D Suc_le_mono Suc_less_eq)

definition since :: "u32 list \<Rightarrow> (u32 \<times> u32) list \<Rightarrow> nat \<Rightarrow> nat \<Rightarrow> bool" where
  "since fs xs i n \<longleftrightarrow> (\<forall>j. i \<le> j \<and> j < n \<longrightarrow> fs ! j = 1) \<and> snd (xs ! n) - snd (xs ! i) > 80000000"

lemma held_iff:
  assumes "l = 0 \<or> l = 1" "p = 0 \<or> p = 1" "\<forall>(q, t) \<in> set xs. q = 0 \<or> q = 1"
  shows "held l p T xs \<longleftrightarrow>
    l = 1 \<and> (\<exists>n < length xs. (\<forall>j<n. debounced l p (map fst xs) ! j = 1) \<and> snd (xs ! n) - T > 80000000) \<or>
    (\<exists>i n. i < n \<and> n < length xs \<and> (l # debounced l p (map fst xs)) ! i = 0 \<and> since (debounced l p (map fst xs)) xs i n)"
  using assms
proof (induction xs arbitrary: l p T)
  case (Cons x xs)
  obtain q t where x: "x = (q, t)" by fastforce
  let ?f = "majority l p q"
  let ?fs = "debounced ?f q (map fst xs)" and ?T = "if ?f \<noteq> l then t else T"
  have q: "q = 0 \<or> q = 1" and f: "?f = 0 \<or> ?f = 1"
    using Cons.prems x by (auto simp: majority_def)
  have s0: "since (?f # ?fs) ((q, t) # xs) 0 (Suc n) \<longleftrightarrow> ?f = 1 \<and> (\<forall>j<n. ?fs ! j = 1) \<and> snd (xs ! n) - t > 80000000" for n
    by (simp add: since_def All_less_Suc2)
  have sS: "since (?f # ?fs) ((q, t) # xs) (Suc i) (Suc n) \<longleftrightarrow> since ?fs xs i n" for i n
    unfolding since_def all_from_shift by simp
  have ih: "held ?f q ?T xs \<longleftrightarrow> ?f = 1 \<and> (\<exists>n < length xs. (\<forall>j<n. ?fs ! j = 1) \<and> snd (xs ! n) - ?T > 80000000) \<or>
      (\<exists>i n. i < n \<and> n < length xs \<and> (?f # ?fs) ! i = 0 \<and> since ?fs xs i n)"
    using Cons.prems q f by (intro Cons.IH) auto
  show ?case
    using f Cons.prems(1) unfolding x held.simps ih
    by (auto simp: ex_pair_shift s0 sS Ex_less_Suc2 All_less_Suc2)
qed simp

section \<open>Properties\<close>

text \<open>
  C15. Holding the button of the end device for five seconds, and nothing less, resets it to factory settings. For
  every sequence of polls with the second button up: each poll returns, and the chip is reset in one of them exactly
  if the debounced first button has been down at all polls since a press whose time lies more than five seconds (80 million
  ticks) back by the clock of that poll. The reset comes after the stored items have been erased, and until then the
  polls do not touch the flash. Short presses send a test frame at most.\<close>

theorem dev_hold_resets:
  assumes "layout_ok B" "buf_inv B fr (flash_of s)" "kb s = kb_reset" "ctx_state s = APP_STATE_NORMAL" "valid_keyCode s = 0xff" "SystemReset \<notin> set (outs s)"
    and "\<forall>(g, t) \<in> set xs. down g < 2"
  shows "\<exists>r s'. dev_ui_run E L B xs s = Some (r, s') \<and> (r \<longleftrightarrow> SystemReset \<in> set (outs s')) \<and>
    (r \<longleftrightarrow> (\<exists>i n. i < n \<and> n < length xs \<and> (let fs = debounced 0 0 (map (\<lambda>(g, t). down g) xs) in
        (0 # fs) ! i = 0 \<and> (\<forall>j. i \<le> j \<and> j < n \<longrightarrow> fs ! j = 1)) \<and> snd (xs ! n) - snd (xs ! i) > 80000000)) \<and>
    (r \<longrightarrow> (\<exists>u. flash_of s' = snd (nv_resetToFactoryNew (bus E) u) \<and> chip u = fp_chip (fl s)))"
proof -
  let ?ys = "map (\<lambda>(g, t). (down g, t)) xs"
  have "kb_inv 0 0 kb_reset"
    by (simp add: kb_inv_def kb_reset_def)
  then have "ui_inv B fr (fp_chip (fl s)) 0 0 0 s"
    using assms(2-6) by (simp add: ui_inv_def)
  note run = dev_ui_run_held [OF assms(1) this assms(7), of E L]
  have d: "\<forall>(q, t) \<in> set ?ys. q = 0 \<or> q = 1"
  proof -
    have "down g = 0 \<or> down g = 1" if "down g < 2" for g
      using that by (cases g rule: down_cases) auto
    then show ?thesis using assms(7) by fastforce
  qed
  have fst: "map fst ?ys = map (\<lambda>(g, t). down g) xs"
    by (simp add: case_prod_beta)
  have "held 0 0 0 ?ys \<longleftrightarrow> (\<exists>i n. i < n \<and> n < length xs \<and> (let fs = debounced 0 0 (map (\<lambda>(g, t). down g) xs) in
        (0 # fs) ! i = 0 \<and> (\<forall>j. i \<le> j \<and> j < n \<longrightarrow> fs ! j = 1)) \<and> snd (xs ! n) - snd (xs ! i) > 80000000)"
  proof -
    have nth: "snd (?ys ! n) = snd (xs ! n)" if "n < length xs" for n
      using that by (simp add: case_prod_beta)
    have "held 0 0 0 ?ys \<longleftrightarrow> (\<exists>i n. i < n \<and> n < length xs \<and> (0 # debounced 0 0 (map fst ?ys)) ! i = 0 \<and> since (debounced 0 0 (map fst ?ys)) ?ys i n)"
      using held_iff [OF disjI1 [OF refl] disjI1 [OF refl] d, of 0] by (simp only: zero_neq_one simp_thms length_map)
    also have "\<dots> \<longleftrightarrow> (\<exists>i n. i < n \<and> n < length xs \<and> (let fs = debounced 0 0 (map (\<lambda>(g, t). down g) xs) in
        (0 # fs) ! i = 0 \<and> (\<forall>j. i \<le> j \<and> j < n \<longrightarrow> fs ! j = 1)) \<and> snd (xs ! n) - snd (xs ! i) > 80000000)"
      unfolding since_def fst Let_def by (intro ex_cong1) (use nth in auto)
    finally show ?thesis .
  qed
  then show ?thesis
    using run by blast
qed

text \<open>A button that is down for three polls, the last of them 90 million ticks after the second.\<close>

definition demo_buttons :: dev_ui where
  "demo_buttons = app_dev.extend (demo_dev\<lparr>mem := demo_bufs, fl := (fl demo_dev)\<lparr>fp_bufGroups := demo_groups\<rparr>\<rparr>)
     \<lparr>kb = kb_reset, leds = (\<lambda>_. False), keyPressedTime = 0, ctx_state = APP_STATE_NORMAL, keyPressed = 0, valid_keyCode = 0xff\<rparr>"

theorem dev_hold_resets_witness:
  "\<exists>s'. dev_ui_run demo_env list_c_lib demo_layout [(\<lambda>_. 0xBF, 0), (\<lambda>_. 0xBF, 0), (\<lambda>_. 0xBF, 90000000)] demo_buttons = Some (True, s') \<and>
     SystemReset \<in> set (outs s')"
proof -
  let ?xs = "[(\<lambda>_ :: nat. 0xBF :: u8, 0 :: u32), (\<lambda>_. 0xBF, 0), (\<lambda>_. 0xBF, 90000000)]"
  have d: "down (\<lambda>_. 0xBF) = 1"
    by (simp add: down_def bit_iff_odd_drop_bit drop_bit_eq_div)
  have "buf_inv demo_layout demo_free (flash_of demo_buttons)"
    using demo_sender_bufs(1) by (simp add: buf_inv_def group_ok_def flash_of_def demo_buttons_def demo_sender_def app_dev.defs)
  moreover have "kb demo_buttons = kb_reset" "ctx_state demo_buttons = APP_STATE_NORMAL" "valid_keyCode demo_buttons = 0xff" "outs demo_buttons = []"
    by (simp_all add: demo_buttons_def app_dev.defs)
  moreover have fs: "debounced 0 0 (map (\<lambda>(g, t). down g) ?xs) = [0, 1, 1]"
    by (simp add: d majority_def)
  moreover have "\<forall>j. 1 \<le> j \<and> j < (2 :: nat) \<longrightarrow> [0, 1, 1 :: u32] ! j = 1"
    by (auto simp: less_Suc_eq numeral_2_eq_2)
  then have "\<exists>i n. i < n \<and> n < length ?xs \<and> (let fs = debounced 0 0 (map (\<lambda>(g, t). down g) ?xs) in
        (0 # fs) ! i = 0 \<and> (\<forall>j. i \<le> j \<and> j < n \<longrightarrow> fs ! j = 1)) \<and> snd (?xs ! n) - snd (?xs ! i) > 80000000"
    unfolding fs Let_def by (intro exI [of _ 1] exI [of _ 2]) simp
  ultimately show ?thesis
    using dev_hold_resets [OF demo_layout_ok, of demo_free demo_buttons ?xs demo_env list_c_lib] d by auto
qed

end
