(* ===== verification/Spec2Isabelle.thy ===== *)
theory Spec2Isabelle
  imports Ev_Queue Ev_Timer Mem_String Nv_Reset Phy_Rx Drv_Timer Drv_Gpio App_Ui
begin

text \<open>
  A verification of the Telink IEEE 802.15.4 SDK (\<^verbatim>\<open>tl_802154_sdk\<close>), in the build for the 8278 chip with
  the two demo applications.

  \<^bold>\<open>The program.\<close> A small event-driven system without processes: a main loop polls callbacks and runs
  software timers, interrupts receive and send radio frames and drive hardware timers, and the two share
  state with interrupts masked. On it run a flash service, a store of items in flash, the MAC's
  information base, the physical layer below the MAC, and two demo applications that exchange a firmware
  image over the air. The MAC itself, the radio driver and part of the chip's drivers are delivered as
  binary archives: they are parameters of the model.

  \<^bold>\<open>Which theory models which part.\<close> Every definition that models code has the name of the C function, type
  or macro; a loop has the name of its function with \<^verbatim>\<open>_loop\<close>, and the value None of an option type is a loop
  that does not end or an access through a bad pointer.
  \<^item> \<^verbatim>\<open>Tl_Prelude\<close>: the types of C integers as words, the word memory, null-terminated chains in it, and the
    lemmas on words and lists that all parts use.
  \<^item> \<^verbatim>\<open>Linked_Lists\<close> (\<^verbatim>\<open>proj/common/list.c\<close>, \<^verbatim>\<open>utlist.h\<close>), \<^verbatim>\<open>Mempool\<close> (\<^verbatim>\<open>proj/common/mempool.c\<close>),
    \<^verbatim>\<open>Mem_String\<close> (\<^verbatim>\<open>proj/common/string.c\<close>): intrusive lists, block pools, and the memory functions.
  \<^item> \<^verbatim>\<open>Os_State\<close> (\<^verbatim>\<open>proj/os/ev.c\<close>, \<^verbatim>\<open>ev_poll.c\<close>, interrupt masking of \<^verbatim>\<open>drv_hw.c\<close>), \<^verbatim>\<open>Ev_Buffer\<close>
    (\<^verbatim>\<open>ev_buffer.c\<close>), \<^verbatim>\<open>Ev_Queue\<close> (\<^verbatim>\<open>ev_queue.c\<close>), \<^verbatim>\<open>Ev_Timer\<close> (\<^verbatim>\<open>ev_timer.c\<close>): the system services. The
    state is the record \<open>os_state\<close> (memory, interrupt enable, exceptions), which every later record extends.
  \<^item> \<^verbatim>\<open>Flash_Chip\<close> (\<^verbatim>\<open>platform/chip_8278/flash.c\<close>), \<^verbatim>\<open>Flash_Mid\<close> (\<^verbatim>\<open>platform/chip_8278/flash/\<close>),
    \<^verbatim>\<open>Drv_Flash\<close> (\<^verbatim>\<open>proj/drivers/drv_flash.c\<close>): flash transactions on a bus, the eight flash models with
    their protection registers, and the service above them. The device is a parameter with the laws of the
    locale \<open>nor_flash\<close>, interpreted on an executable device.
  \<^item> \<^verbatim>\<open>Drv_Nv\<close>, \<^verbatim>\<open>Nv_Spec\<close>, \<^verbatim>\<open>Nv_Reset\<close> (\<^verbatim>\<open>proj/drivers/drv_nv.c\<close>): the item store; its specification is a list of
    records per module, and reading and writing refine operations on that list.
  \<^item> \<^verbatim>\<open>Ota_Crc\<close>, \<^verbatim>\<open>Ota_Device\<close>, \<^verbatim>\<open>Ota_Run\<close>, \<^verbatim>\<open>Ota_Transfer\<close>, \<^verbatim>\<open>Ota_Coor\<close> (\<^verbatim>\<open>demo/app_common/ota\<close>): the upgrade client
    and server. The client's state extends \<open>sdk_state\<close> of \<^verbatim>\<open>Sdk_State\<close>, which holds timers, flash, the
    information base, the clock readings to come and the requests made to the MAC.
  \<^item> \<^verbatim>\<open>Mac_Pib\<close> (\<^verbatim>\<open>ieee802154/mac/mac_pib.c\<close>): the information base as the bytes of its structure, and its
    tables; the list functions of the library have the laws of the locale \<open>tn_lists\<close>.
  \<^item> \<^verbatim>\<open>Mac_Phy\<close>, \<^verbatim>\<open>Phy_Rx\<close> (\<^verbatim>\<open>ieee802154/mac/mac_phy.c\<close>, \<^verbatim>\<open>proj/drivers/drv_radio.h\<close>): the physical layer with
    both radio interrupts. Calls that leave it are recorded in order; the answers of the binaries are
    functions of the calls so far (record \<open>phy_lib\<close>), with the laws of the locales \<open>trx_driver\<close> (the mode set last is
    the mode reported) and \<open>rx_pool\<close> (receive buffers are elements of the pool array, never the one in use).
  \<^item> \<^verbatim>\<open>Drv_Timer\<close> (\<^verbatim>\<open>proj/drivers/drv_timer.c\<close>), \<^verbatim>\<open>Drv_Gpio\<close> (\<^verbatim>\<open>drv_gpio.c\<close>), \<^verbatim>\<open>Drv_Keyboard\<close> (\<^verbatim>\<open>drv_keyboard.c\<close>): the
    hardware timers, the registry and dispatch of pin interrupts, and the scan of the buttons.
  \<^item> \<^verbatim>\<open>App_Sec\<close>, \<^verbatim>\<open>App_Dev\<close>, \<^verbatim>\<open>App_Coor\<close> (\<^verbatim>\<open>app.c\<close> of \<^verbatim>\<open>demo/associate_dev\<close> and \<^verbatim>\<open>demo/associate_coor\<close>): the two
    applications: scanning and association on one side, admission of devices with their keys and short
    addresses on the other. The MAC library's security descriptors have the laws of the locale \<open>mac_descs\<close>.
    \<^verbatim>\<open>App_Buf\<close> and \<^verbatim>\<open>App_Indirect\<close> treat payloads in event buffers and the coordinator's indirect data,
    \<^verbatim>\<open>App_Ui\<close> (both \<^verbatim>\<open>app_ui.c\<close>) the buttons. The applications' states extend those of the upgrade sides.

  \<^bold>\<open>What the lemmas show.\<close>
  \<^item> Invariants of whole runs: buffers (\<^verbatim>\<open>ev_buf_run_inv\<close>), software timers (\<^verbatim>\<open>ev_timer_run_inv\<close>), the radio
    (\<^verbatim>\<open>phy_run_inv\<close>), hardware timers (\<^verbatim>\<open>hwt_run_inv\<close>), the coordinator's tables under any interleaving of joining
    devices and outgoing data (\<^verbatim>\<open>coor_run_inv\<close>), each over an inductive predicate of the operations. The callbacks
    of software timers are arbitrary sequences of steps of the service and of other code (\<open>stepwise\<close>).
  \<^item> Refinements: the item store to a log of records, queues to sorted lists, the device table to a list, the
    admission handler to a list of registered devices, the interrupt registry to a list, the protection
    register to a protected range, the keyboard scan to a filter on every sample.
  \<^item> Exact behaviour of the handlers: the receive interrupt and its acknowledgement, the upgrade client's
    handlers, the timer interrupt with its registers, the choice of a coordinator, the long press of a button;
    round trips of writing and reading; and end to end that a session of the two upgrade sides leaves the
    server's image in the client's flash, marked bootable, and resets the chip. The last holds for a client
    that has just been powered on and whose image area is unprotected or blank.
  \<^item> Where the code does not do what it means to, a theorem says what it does: an upgrade file whose length is
    a multiple of the block size never completes, an upgrade after an abandoned one is received but not
    stored, writes to locked flash are lost without an error, the
    table index of some attributes is out of range, long hardware timers run at once, an energy scan without
    samples reports the strongest signal.

  \<^bold>\<open>Loops and bounds.\<close> A loop that walks memory or waits for hardware is a \<^verbatim>\<open>partial_function\<close> with the value
  None for not ending, and the theorems prove that it returns: walks from the shape of the list, waits
  from the clock (\<open>clock_runs\<close>). Loops that count are structural or have a measure. No fuel is used.
  Readings of the clock and of volatile registers are sequences in the state, one element per read.

  \<^bold>\<open>Not modelled.\<close> The MAC, the radio driver and the chip libraries (binaries, parameters here); the builds
  for the 826x, 8258 and B91 chips, whose drivers repeat the 8278's on other registers; register maps and
  peripheral drivers that only write registers (UART, SPI, I2C, ADC, PWM, USB, power management); the host
  interface and the debugging output, which the demos do not enable; the demos' start-up code, which calls
  the modelled parts once and registers their callbacks with the MAC library.
  Interrupts are modelled as operations between which other operations run; an interrupt in the middle of
  an operation that masks interrupts is excluded by the masking, and one in the middle of other code is
  not considered.
\<close>

end
